(* ===== verification/Prelude.thy ===== *)
theory Prelude
  imports Main "HOL-Library.AList"
begin

text \<open>
  Shared vocabulary of the development: Rust's \<open>Result\<close> as a sum, the few string operations
  the sources use, decimal rendering, two's-complement wrapping of \<open>i64\<close>, insertion-ordered
  maps, and the run of a guarded machine as a locale.  A Rust \<open>str\<close> is its UTF-8 bytes, one
  \<open>char\<close> per byte; every character the sources compare with is ASCII, and no byte of a longer
  UTF-8 sequence is ASCII, so a byte-wise reading gives the same answers.
\<close>

named_theorems result_simps \<open>equations that unfold the plumbing of Rust results\<close>

named_theorems machine_inv \<open>one-step preservation facts of component invariants\<close>

section \<open>Results\<close>

text \<open>\<open>Result<T, E>\<close>: \<open>Inl\<close> is \<open>Err\<close>, \<open>Inr\<close> is \<open>Ok\<close>.\<close>

fun result_bind :: "'e + 'a \<Rightarrow> ('a \<Rightarrow> 'e + 'b) \<Rightarrow> 'e + 'b" where
  "result_bind (Inl e) f = Inl e"
| "result_bind (Inr a) f = f a"

fun ok_or :: "'e \<Rightarrow> 'a option \<Rightarrow> 'e + 'a" where
  "ok_or e None = Inl e"
| "ok_or e (Some a) = Inr a"

lemma result_bind_Inr [result_simps]:
  "result_bind r f = Inr b \<longleftrightarrow> (\<exists>a. r = Inr a \<and> f a = Inr b)"
  by (cases r) auto

lemma result_bind_Inl [result_simps]:
  "result_bind r f = Inl e \<longleftrightarrow> r = Inl e \<or> (\<exists>a. r = Inr a \<and> f a = Inl e)"
  by (cases r) auto

lemma ok_or_Inr [result_simps]: "ok_or e x = Inr a \<longleftrightarrow> x = Some a"
  by (cases x) auto

lemma ok_or_Inl [result_simps]: "ok_or e x = Inl d \<longleftrightarrow> x = None \<and> d = e"
  by (cases x) auto

section \<open>Strings\<close>

text \<open>\<open>str::split_once(c)\<close>.\<close>

fun split_once :: "char \<Rightarrow> string \<Rightarrow> (string \<times> string) option" where
  "split_once c [] = None"
| "split_once c (x # xs) =
     (if x = c then Some ([], xs)
      else map_option (\<lambda>(a, b). (x # a, b)) (split_once c xs))"

text \<open>\<open>str::split(c)\<close>: the pieces between the occurrences of \<open>c\<close>, at least one.\<close>

fun split_on :: "char \<Rightarrow> string \<Rightarrow> string list" where
  "split_on c [] = [[]]"
| "split_on c (x # xs) =
     (if x = c then [] # split_on c xs
      else (case split_on c xs of [] \<Rightarrow> [[x]] | p # ps \<Rightarrow> (x # p) # ps))"

definition starts_with :: "string \<Rightarrow> string \<Rightarrow> bool" where
  "starts_with p s \<longleftrightarrow> take (length p) s = p"

definition strip_prefix :: "string \<Rightarrow> string \<Rightarrow> string option" where
  "strip_prefix p s = (if starts_with p s then Some (drop (length p) s) else None)"

definition ends_with :: "string \<Rightarrow> string \<Rightarrow> bool" where
  "ends_with p s \<longleftrightarrow> length p \<le> length s \<and> drop (length s - length p) s = p"

definition is_digit :: "char \<Rightarrow> bool" where
  "is_digit c \<longleftrightarrow> c \<in> set ''0123456789''"

lemma starts_with_append [simp]: "starts_with p (p @ s)"
  by (simp add: starts_with_def)

lemma starts_withE:
  assumes "starts_with p s" obtains r where "s = p @ r"
  using assms by (metis append_take_drop_id starts_with_def)

lemma starts_with_iff: "starts_with p s \<longleftrightarrow> (\<exists>r. s = p @ r)"
  by (auto elim: starts_withE)

lemma strip_prefix_Some: "strip_prefix p s = Some r \<longleftrightarrow> s = p @ r"
  by (auto simp: strip_prefix_def starts_with_iff)

lemma split_once_Some: "split_once c s = Some (a, b) \<longleftrightarrow> s = a @ c # b \<and> c \<notin> set a"
proof (induction s arbitrary: a)
  case Nil
  then show ?case by simp
next
  case (Cons x xs)
  show ?case by (cases a) (auto simp: Cons.IH)
qed

lemma split_once_None: "split_once c s = None \<longleftrightarrow> c \<notin> set s"
  by (induction s) auto

lemma split_on_not_Nil [simp]: "split_on c s \<noteq> []"
  by (induction s) (auto split: list.splits)

lemma split_on_free: "c \<notin> set s \<Longrightarrow> split_on c s = [s]"
  by (induction s) auto

lemma split_on_append: "c \<notin> set a \<Longrightarrow> split_on c (a @ c # b) = a # split_on c b"
  by (induction a) auto

lemma split_on_pieces_free: "p \<in> set (split_on c s) \<Longrightarrow> c \<notin> set p"
  by (induction s arbitrary: p) (auto split: list.splits if_splits)

lemma split_on_join: "split_on c s = ps \<Longrightarrow> s = concat (hd ps # map ((#) c) (tl ps))"
  by (induction s arbitrary: ps) (auto split: list.splits if_splits)

lemma split_on_two: "split_on c s = [a, b] \<longleftrightarrow> s = a @ c # b \<and> c \<notin> set a \<and> c \<notin> set b"
proof
  assume *: "split_on c s = [a, b]"
  show "s = a @ c # b \<and> c \<notin> set a \<and> c \<notin> set b"
    using split_on_join[OF *] split_on_pieces_free[of a c s] split_on_pieces_free[of b c s] *
    by simp
qed (simp add: split_on_append split_on_free)

section \<open>Decimal rendering\<close>

definition digit_char :: "nat \<Rightarrow> char" where
  "digit_char d = ''0123456789'' ! d"

definition digit_val :: "char \<Rightarrow> nat" where
  "digit_val c = of_char c - 48"

fun dec_nat :: "nat \<Rightarrow> string" where
  "dec_nat n = (if n < 10 then [digit_char n] else dec_nat (n div 10) @ [digit_char (n mod 10)])"

declare dec_nat.simps [simp del]

text \<open>\<open>i64::to_string\<close>.\<close>

definition dec_int :: "int \<Rightarrow> string" where
  "dec_int i = (if i < 0 then CHR ''-'' # dec_nat (nat (- i)) else dec_nat (nat i))"

definition dec_val :: "string \<Rightarrow> nat" where
  "dec_val s = foldl (\<lambda>a c. 10 * a + digit_val c) 0 s"

lemma lt_ten_cases: "(d::nat) < 10 \<Longrightarrow> d = 0 \<or> d = 1 \<or> d = 2 \<or> d = 3 \<or> d = 4 \<or> d = 5 \<or> d = 6 \<or> d = 7 \<or> d = 8 \<or> d = 9"
  by arith

lemma digit_val_char: "d < 10 \<Longrightarrow> digit_val (digit_char d) = d"
  using lt_ten_cases [of d] by (auto simp: digit_val_def digit_char_def)

lemma is_digit_char: "d < 10 \<Longrightarrow> is_digit (digit_char d)"
  using lt_ten_cases [of d] by (auto simp: is_digit_def digit_char_def)

lemma dec_val_dec_nat: "dec_val (dec_nat n) = n"
proof (induction n rule: dec_nat.induct)
  case (1 n)
  show ?case
  proof (cases "n < 10")
    case True
    then show ?thesis by (simp add: dec_nat.simps [of n] dec_val_def digit_val_char)
  next
    case False
    with "1.IH" show ?thesis
      by (simp add: dec_nat.simps [of n] dec_val_def digit_val_char)
  qed
qed

lemma dec_nat_inj [simp]: "dec_nat m = dec_nat n \<longleftrightarrow> m = n"
  by (metis dec_val_dec_nat)

lemma dec_nat_digits: "c \<in> set (dec_nat n) \<Longrightarrow> is_digit c"
proof (induction n rule: dec_nat.induct)
  case (1 n)
  then show ?case
    by (cases "n < 10") (auto simp: dec_nat.simps [of n] is_digit_char)
qed

lemma dec_nat_not_Nil [simp]: "dec_nat n \<noteq> []"
  by (simp add: dec_nat.simps [of n])

lemma is_digit_minus [simp]: "\<not> is_digit (CHR ''-'')"
  by (simp add: is_digit_def)

lemma hd_dec_nat: "hd (dec_nat n) \<noteq> CHR ''-''"
  by (metis dec_nat_digits dec_nat_not_Nil hd_in_set is_digit_minus)

lemma dec_int_inj [simp]: "dec_int i = dec_int j \<longleftrightarrow> i = j"
proof
  assume "dec_int i = dec_int j"
  then show "i = j"
    using hd_dec_nat [of "nat i"] hd_dec_nat [of "nat j"]
    by (auto simp: dec_int_def split: if_splits) (metis list.sel(1))+
qed simp

lemma dec_int_chars: "c \<in> set (dec_int i) \<Longrightarrow> is_digit c \<or> c = CHR ''-''"
  by (auto simp: dec_int_def dest: dec_nat_digits split: if_splits)

text \<open>Two texts made of a run of \<open>P\<close>-characters and a terminator outside \<open>P\<close> agree piecewise.\<close>

lemma run_terminator:
  assumes "a @ c # x = b @ d # y"
    and "\<forall>z\<in>set a. P z" "\<forall>z\<in>set b. P z" "\<not> P c" "\<not> P d"
  shows "a = b \<and> c = d \<and> x = y"
  using assms
proof (induction a arbitrary: b)
  case Nil
  then show ?case by (cases b) auto
next
  case (Cons z a)
  then show ?case by (cases b) auto
qed

lemma dec_int_terminator:
  assumes "dec_int i @ c # x = dec_int j @ d # y"
    and "\<not> is_digit c" "c \<noteq> CHR ''-''" "\<not> is_digit d" "d \<noteq> CHR ''-''"
  shows "i = j \<and> c = d \<and> x = y"
  using run_terminator [OF assms(1), where P = "\<lambda>z. is_digit z \<or> z = CHR ''-''"] assms(2-)
  by (auto dest: dec_int_chars)

section \<open>Two's-complement \<open>i64\<close>\<close>

text \<open>
  The release profile of the workspace leaves \<open>overflow-checks\<close> at its default (off), so \<open>+\<close>
  and \<open>-\<close> on \<open>i64\<close> wrap.  Values are kept as \<open>int\<close> and every operation that can leave the
  range is followed by \<open>wrap64\<close>.
\<close>

definition wrap64 :: "int \<Rightarrow> int" where
  "wrap64 x = (x + 2 ^ 63) mod 2 ^ 64 - 2 ^ 63"

definition is_i64 :: "int \<Rightarrow> bool" where
  "is_i64 x \<longleftrightarrow> - (2 ^ 63) \<le> x \<and> x < 2 ^ 63"

lemma wrap64_id: "is_i64 x \<Longrightarrow> wrap64 x = x"
  by (simp add: wrap64_def is_i64_def)

lemma wrap64_range: "is_i64 (wrap64 x)"
  by (simp add: wrap64_def is_i64_def)

section \<open>Insertion-ordered maps\<close>

text \<open>
  \<open>IndexMap\<close> (and a \<open>HashMap\<close> whose iteration order matters, in which case every statement
  quantifies over all orders) is an association list with distinct keys: \<open>insert\<close> replaces in
  place or appends, \<open>shift_remove\<close> keeps the order of the rest.
\<close>

type_synonym ('k, 'v) imap = "('k \<times> 'v) list"

abbreviation im_wf :: "('k, 'v) imap \<Rightarrow> bool" where
  "im_wf m \<equiv> distinct (map fst m)"

abbreviation im_get :: "('k, 'v) imap \<Rightarrow> 'k \<Rightarrow> 'v option" where
  "im_get \<equiv> map_of"

abbreviation im_insert :: "'k \<Rightarrow> 'v \<Rightarrow> ('k, 'v) imap \<Rightarrow> ('k, 'v) imap" where
  "im_insert \<equiv> AList.update"

abbreviation im_remove :: "'k \<Rightarrow> ('k, 'v) imap \<Rightarrow> ('k, 'v) imap" where
  "im_remove \<equiv> AList.delete"

lemma im_wf_filter [simp]: "im_wf m \<Longrightarrow> im_wf (filter P m)"
  by (induction m) auto

lemma im_wf_insert [simp]: "im_wf m \<Longrightarrow> im_wf (im_insert k v m)"
  by (rule distinct_update)

lemma im_wf_remove [simp]: "im_wf m \<Longrightarrow> im_wf (im_remove k m)"
  by (rule distinct_delete)

lemma im_get_filter:
  "im_wf m \<Longrightarrow> im_get (filter (\<lambda>(k, v). P k v) m) k =
     (case im_get m k of None \<Rightarrow> None | Some v \<Rightarrow> if P k v then Some v else None)"
  by (induction m) (auto split: option.splits dest: map_of_SomeD simp: image_iff map_of_eq_None_iff)

lemma set_im_insert:
  "im_wf m \<Longrightarrow> set (im_insert k v m) = {(k', v') \<in> set m. k' \<noteq> k} \<union> {(k, v)}"
  by (induction m) (auto simp: image_iff)

lemma length_im_insert:
  "length (im_insert k v m) = length m + (if k \<in> set (map fst m) then 0 else 1)"
  by (induction m) auto

lemma find_SomeD: "find P xs = Some x \<Longrightarrow> x \<in> set xs \<and> P x"
  by (induction xs) (auto split: if_splits)

section \<open>Runs of a guarded machine\<close>

text \<open>
  Several components are a state, operations and an invariant each operation keeps.  A client of
  such a component may rely on the invariant after any sequence of operations.
\<close>

locale machine =
  fixes step :: "'s \<Rightarrow> 'op \<Rightarrow> 's"
    and inv :: "'s \<Rightarrow> bool"
  assumes inv_step: "inv s \<Longrightarrow> inv (step s op)"
begin

lemma inv_run: "inv s \<Longrightarrow> inv (foldl step s ops)"
  by (induction ops arbitrary: s) (simp_all add: inv_step)

lemma inv_prefix: "inv s \<Longrightarrow> n \<le> length ops \<Longrightarrow> inv (foldl step s (take n ops))"
  by (rule inv_run)

end

end
