(* ===== verification/Sub.thy ===== *)
theory Sub
  imports Prelude
begin

text \<open>
  \<open>crates/emerald-contracts/src/sub.rs\<close>: the namespaced subject \<open><provider>:<id>\<close>.  The five
  anchored regular expressions are boolean functions on the text; \<open>parse_sub\<close> keeps the code's
  order of tests and its three errors.
\<close>

section \<open>Model\<close>

datatype provider = Plex | Local | Apple | Google | Workos

record subject =
  sub_provider :: provider
  sub_id :: string
  sub_raw :: string

datatype sub_error = Unprefixed | UnknownProvider | InvalidFormat

definition crockford :: "char \<Rightarrow> bool" where
  "crockford c \<longleftrightarrow> c \<in> set ''0123456789ABCDEFGHJKMNPQRSTVWXYZ''"

definition lower_hex :: "char \<Rightarrow> bool" where
  "lower_hex c \<longleftrightarrow> c \<in> set ''0123456789abcdef''"

text \<open>The part of each expression after the provider and the colon.\<close>

definition plex_id :: "string \<Rightarrow> bool" where
  "plex_id r \<longleftrightarrow> r = ''0'' \<or> (r \<noteq> [] \<and> hd r \<in> set ''123456789'' \<and> list_all is_digit (tl r))"

definition ulid_id :: "string \<Rightarrow> bool" where
  "ulid_id r \<longleftrightarrow> length r = 26 \<and> list_all crockford r"

definition apple_id :: "string \<Rightarrow> bool" where
  "apple_id r \<longleftrightarrow> length r = 44
     \<and> list_all is_digit (take 6 r) \<and> r ! 6 = CHR ''.''
     \<and> list_all lower_hex (take 32 (drop 7 r)) \<and> r ! 39 = CHR ''.''
     \<and> list_all is_digit (drop 40 r)"

definition google_id :: "string \<Rightarrow> bool" where
  "google_id r \<longleftrightarrow> 1 \<le> length r \<and> length r \<le> 32 \<and> list_all is_digit r"

definition workos_id :: "string \<Rightarrow> bool" where
  "workos_id r \<longleftrightarrow> (case strip_prefix ''user_'' r of None \<Rightarrow> False | Some u \<Rightarrow> ulid_id u)"

definition re_match :: "string \<Rightarrow> (string \<Rightarrow> bool) \<Rightarrow> string \<Rightarrow> bool" where
  "re_match p ok s = (case strip_prefix p s of None \<Rightarrow> False | Some r \<Rightarrow> ok r)"

definition plex_re :: "string \<Rightarrow> bool" where
  "plex_re = re_match ''plex:'' plex_id"

definition local_re :: "string \<Rightarrow> bool" where
  "local_re = re_match ''local:'' ulid_id"

definition apple_re :: "string \<Rightarrow> bool" where
  "apple_re = re_match ''apple:'' apple_id"

definition google_re :: "string \<Rightarrow> bool" where
  "google_re = re_match ''google:'' google_id"

definition workos_re :: "string \<Rightarrow> bool" where
  "workos_re = re_match ''workos:'' workos_id"

text \<open>Each arm of the \<open>match\<close>: the record when the expression matches, else an error.\<close>

definition sub_arm :: "bool \<Rightarrow> provider \<Rightarrow> string \<Rightarrow> string \<Rightarrow> sub_error + subject" where
  "sub_arm ok p rest s =
     (if ok then Inr \<lparr>sub_provider = p, sub_id = rest, sub_raw = s\<rparr> else Inl InvalidFormat)"

definition parse_sub :: "string \<Rightarrow> sub_error + subject" where
  "parse_sub s =
     (if CHR '':'' \<notin> set s then Inl Unprefixed
      else case split_once (CHR '':'') s of
        None \<Rightarrow> Inl Unprefixed
      | Some (prefix, rest) \<Rightarrow>
          if prefix = ''plex'' then sub_arm (plex_re s) Plex rest s
          else if prefix = ''local'' then sub_arm (local_re s) Local rest s
          else if prefix = ''apple'' then sub_arm (apple_re s) Apple rest s
          else if prefix = ''google'' then sub_arm (google_re s) Google rest s
          else if prefix = ''workos'' then sub_arm (workos_re s) Workos rest s
          else Inl UnknownProvider)"

section \<open>Specification\<close>

fun provider_name :: "provider \<Rightarrow> string" where
  "provider_name Plex = ''plex''"
| "provider_name Local = ''local''"
| "provider_name Apple = ''apple''"
| "provider_name Google = ''google''"
| "provider_name Workos = ''workos''"

fun valid_id :: "provider \<Rightarrow> string \<Rightarrow> bool" where
  "valid_id Plex = plex_id"
| "valid_id Local = ulid_id"
| "valid_id Apple = apple_id"
| "valid_id Google = google_id"
| "valid_id Workos = workos_id"

definition sub_text :: "provider \<Rightarrow> string \<Rightarrow> string" where
  "sub_text p i = provider_name p @ CHR '':'' # i"

section \<open>Lemmas\<close>

lemma colon_free_provider [simp]: "CHR '':'' \<notin> set (provider_name p)"
  by (cases p) auto

lemma provider_name_inj [simp]: "provider_name p = provider_name q \<longleftrightarrow> p = q"
  by (cases p; cases q) auto

lemma re_match_own: "re_match (p @ [c]) ok (p @ c # r) = ok r"
proof -
  have "strip_prefix (p @ [c]) (p @ c # r) = Some r"
    by (simp add: strip_prefix_Some)
  then show ?thesis by (simp add: re_match_def)
qed

lemmas sub_res = plex_re_def local_re_def apple_re_def google_re_def workos_re_def

lemma re_of_text:
  "plex_re (''plex'' @ CHR '':'' # i) = plex_id i"
  "local_re (''local'' @ CHR '':'' # i) = ulid_id i"
  "apple_re (''apple'' @ CHR '':'' # i) = apple_id i"
  "google_re (''google'' @ CHR '':'' # i) = google_id i"
  "workos_re (''workos'' @ CHR '':'' # i) = workos_id i"
  unfolding sub_res
  using re_match_own [of "''plex''" "CHR '':''"] re_match_own [of "''local''" "CHR '':''"]
    re_match_own [of "''apple''" "CHR '':''"] re_match_own [of "''google''" "CHR '':''"]
    re_match_own [of "''workos''" "CHR '':''"]
  by simp_all

lemma split_once_text: "c \<notin> set a \<Longrightarrow> split_once c (a @ c # b) = Some (a, b)"
  by (simp add: split_once_Some)

lemma parse_sub_text:
  "parse_sub (sub_text p i) =
     (if valid_id p i then Inr \<lparr>sub_provider = p, sub_id = i, sub_raw = sub_text p i\<rparr>
      else Inl InvalidFormat)"
  using split_once_text [OF colon_free_provider, of p i] re_of_text [of i]
  by (cases p) (simp_all add: parse_sub_def sub_text_def sub_arm_def)

lemma parse_sub_foreign:
  assumes "CHR '':'' \<notin> set a" "a \<notin> range provider_name"
  shows "parse_sub (a @ CHR '':'' # b) = Inl UnknownProvider"
proof -
  have "a \<noteq> provider_name p" for p using assms(2) by auto
  from this [of Plex] this [of Local] this [of Apple] this [of Google] this [of Workos]
  show ?thesis using assms(1) by (simp add: parse_sub_def split_once_text)
qed

lemma subject_text_cases:
  obtains (bare) "CHR '':'' \<notin> set s"
  | (known) p i where "s = sub_text p i"
  | (foreign) a b where "s = a @ CHR '':'' # b" "CHR '':'' \<notin> set a" "a \<notin> range provider_name"
proof (cases "split_once (CHR '':'') s")
  case None
  then show thesis using bare by (simp add: split_once_None)
next
  case (Some ab)
  then obtain a b where *: "s = a @ CHR '':'' # b" "CHR '':'' \<notin> set a"
    by (cases ab) (auto simp: split_once_Some)
  show thesis
    using * known foreign by (cases "a \<in> range provider_name") (auto simp: sub_text_def)
qed

lemma colon_in_sub_text [simp]: "CHR '':'' \<in> set (sub_text p i)"
  by (simp add: sub_text_def)

lemma parse_sub_bare: "CHR '':'' \<notin> set s \<Longrightarrow> parse_sub s = Inl Unprefixed"
  by (simp add: parse_sub_def)

lemma sub_text_inj [simp]: "sub_text p i = sub_text q j \<longleftrightarrow> p = q \<and> i = j"
proof
  assume "sub_text p i = sub_text q j"
  then show "p = q \<and> i = j"
    using run_terminator [of "provider_name p" "CHR '':''" i "provider_name q" "CHR '':''" j
        "\<lambda>z. z \<noteq> CHR '':''"]
    by (auto simp: sub_text_def) (metis colon_free_provider)+
qed simp

text \<open>The id expression of \<open>plex:\<close> accepts exactly the decimal renderings of the naturals.\<close>

lemma hd_dec_nat_digit: "0 < n \<Longrightarrow> hd (dec_nat n) \<in> set ''123456789''"
proof (induction n rule: dec_nat.induct)
  case (1 n)
  show ?case
  proof (cases "n < 10")
    case True
    then show ?thesis
      using "1.prems" lt_ten_cases [of n] by (auto simp: dec_nat.simps [of n] digit_char_def)
  next
    case False
    with "1.IH" show ?thesis by (simp add: dec_nat.simps [of n])
  qed
qed

lemma plex_id_dec_nat: "plex_id (dec_nat n)"
proof (cases "n = 0")
  case True
  then show ?thesis by (simp add: plex_id_def dec_nat.simps digit_char_def)
next
  case False
  then have "hd (dec_nat n) \<in> set ''123456789''" using hd_dec_nat_digit by simp
  moreover have "list_all is_digit (tl (dec_nat n))"
    using dec_nat_digits by (fastforce simp: list_all_iff dest: list.set_sel(2) [rotated])
  ultimately show ?thesis unfolding plex_id_def by simp
qed

lemma digit_char_of: "is_digit c \<Longrightarrow> \<exists>d<10. c = digit_char d"
  unfolding is_digit_def digit_char_def in_set_conv_nth by (simp add: eval_nat_numeral) blast

lemma dec_nat_snoc: "0 < m \<Longrightarrow> d < 10 \<Longrightarrow> dec_nat (10 * m + d) = dec_nat m @ [digit_char d]"
  by (simp add: dec_nat.simps [of "10 * m + d"])

lemma nonzero_digits_dec:
  "r \<noteq> [] \<Longrightarrow> hd r \<in> set ''123456789'' \<Longrightarrow> list_all is_digit (tl r) \<Longrightarrow> \<exists>n>0. r = dec_nat n"
proof (induction r rule: rev_induct)
  case Nil
  then show ?case by simp
next
  case (snoc c xs)
  show ?case
  proof (cases "xs = []")
    case True
    with snoc.prems have "is_digit c" "c \<noteq> CHR ''0''" by (auto simp: is_digit_def)
    then obtain d where d: "d < 10" "c = digit_char d" using digit_char_of by blast
    with \<open>c \<noteq> CHR ''0''\<close> have "d \<noteq> 0" by (cases "d = 0") (simp_all add: digit_char_def)
    with d have "0 < d \<and> xs @ [c] = dec_nat d" using True by (simp add: dec_nat.simps [of d])
    then show ?thesis by blast
  next
    case False
    with snoc.prems have "hd xs \<in> set ''123456789''" "list_all is_digit (tl xs)" "is_digit c"
      by (auto simp: list_all_iff)
    with snoc.IH False obtain m where m: "0 < m" "xs = dec_nat m" by blast
    obtain d where d: "d < 10" "c = digit_char d" using digit_char_of \<open>is_digit c\<close> by blast
    have "0 < 10 * m + d \<and> xs @ [c] = dec_nat (10 * m + d)"
      using m d by (simp add: dec_nat_snoc)
    then show ?thesis by blast
  qed
qed

lemma plex_id_iff: "plex_id r \<longleftrightarrow> (\<exists>n. r = dec_nat n)"
proof
  assume "plex_id r"
  moreover have "''0'' = dec_nat 0" by (simp add: dec_nat.simps [of 0] digit_char_def)
  ultimately show "\<exists>n. r = dec_nat n"
    unfolding plex_id_def using nonzero_digits_dec by blast
qed (auto simp: plex_id_dec_nat)

section \<open>Properties\<close>

text \<open>
  \<open>parse_sub\<close> accepts exactly the texts \<open><provider>:<id>\<close> with one of the five providers
  and an id of that provider's shape, and returns that provider, that id and the text itself.
\<close>

theorem parse_sub_language:
  "parse_sub s = Inr r \<longleftrightarrow>
     (\<exists>p i. s = sub_text p i \<and> valid_id p i
        \<and> r = \<lparr>sub_provider = p, sub_id = i, sub_raw = s\<rparr>)"
  by (cases s rule: subject_text_cases)
    (auto simp: parse_sub_bare parse_sub_text parse_sub_foreign sub_text_def [symmetric]
      simp del: sub_text_inj dest: arg_cong [where f = parse_sub] split: if_splits)

text \<open>
  A Plex subject is the prefix and the canonical decimal of a natural number: each account id
  has exactly one accepted spelling (no leading zeros, no sign), and every such text is accepted.
\<close>

theorem parse_sub_plex_canonical:
  "(\<exists>r. parse_sub s = Inr r \<and> sub_provider r = Plex) \<longleftrightarrow> (\<exists>n. s = ''plex:'' @ dec_nat n)"
proof -
  have "(\<exists>r. parse_sub s = Inr r \<and> sub_provider r = Plex) \<longleftrightarrow> (\<exists>i. s = sub_text Plex i \<and> plex_id i)"
    unfolding parse_sub_language by (fastforce simp del: sub_text_inj)
  then show ?thesis by (auto simp: plex_id_iff sub_text_def)
qed

end
