(* ===== verification/Canonical.thy ===== *)
theory Canonical
  imports Prelude
begin

text \<open>
  \<open>crates/emerald-contracts/src/canonical.rs\<close>: the JSON string escape of the fixed-template
  serializer whose bytes are the HMAC input of stream tokens.
\<close>

section \<open>Model\<close>

definition hex_char :: "nat \<Rightarrow> char" where
  "hex_char d = ''0123456789abcdef'' ! d"

text \<open>\<open>{:04x}\<close> of a code point below 256.\<close>

definition hex4 :: "nat \<Rightarrow> string" where
  "hex4 n = [hex_char (n div 4096 mod 16), hex_char (n div 256 mod 16),
             hex_char (n div 16 mod 16), hex_char (n mod 16)]"

text \<open>
  One arm of the \<open>match\<close>.  The quote is \<open>CHR 34\<close>, the backslash \<open>CHR 92\<close>; bytes of a character
  beyond ASCII are at least 128 and fall in the last arm, which pushes the character unchanged.
\<close>

definition esc_char :: "char \<Rightarrow> string" where
  "esc_char c =
     (if c = CHR 34 then [CHR 92, CHR 34]
      else if c = CHR 92 then [CHR 92, CHR 92]
      else if c = CHR 8 then [CHR 92, CHR ''b'']
      else if c = CHR 9 then [CHR 92, CHR ''t'']
      else if c = CHR 10 then [CHR 92, CHR ''n'']
      else if c = CHR 12 then [CHR 92, CHR ''f'']
      else if c = CHR 13 then [CHR 92, CHR ''r'']
      else if (of_char c :: nat) < 32 then [CHR 92, CHR ''u''] @ hex4 (of_char c)
      else [c])"

text \<open>The text pushed onto \<open>out\<close>; the caller appends it.\<close>

definition json_escape_string :: "string \<Rightarrow> string" where
  "json_escape_string s = CHR 34 # concat (map esc_char s) @ [CHR 34]"

section \<open>Unescaping\<close>

text \<open>The reader of the escapes above, used to show that they lose nothing.\<close>

definition hex_val :: "char \<Rightarrow> nat" where
  "hex_val c = (let n = of_char c :: nat in if n < 58 then n - 48 else n - 87)"

fun unescape :: "string \<Rightarrow> (string \<times> string) option" where
  "unescape [] = None"
| "unescape (c # r) =
     (if c = CHR 34 then Some ([], r)
      else if c = CHR 92 then
        (case r of
           [] \<Rightarrow> None
         | e # r' \<Rightarrow>
             (if e = CHR ''u'' then
                (case r' of
                   a # b # x # y # r'' \<Rightarrow>
                     map_option (\<lambda>(t, z). (char_of (hex_val x * 16 + hex_val y) # t, z)) (unescape r'')
                 | _ \<Rightarrow> None)
              else map_option (\<lambda>(t, z).
                ((if e = CHR ''b'' then CHR 8 else if e = CHR ''t'' then CHR 9
                  else if e = CHR ''n'' then CHR 10 else if e = CHR ''f'' then CHR 12
                  else if e = CHR ''r'' then CHR 13 else e) # t, z)) (unescape r')))
      else map_option (\<lambda>(t, z). (c # t, z)) (unescape r))"

lemma hex_val_char: "d < 16 \<Longrightarrow> hex_val (hex_char d) = d"
proof -
  assume "d < 16"
  then have "d \<in> set [0..<16]" by simp
  moreover have "\<forall>d\<in>set [0..<16]. hex_val (hex_char d) = d" by code_simp
  ultimately show ?thesis by blast
qed

lemma byte_split: "(n::nat) < 256 \<Longrightarrow> n div 16 mod 16 * 16 + n mod 16 = n"
  by (simp add: less_mult_imp_div_less)

lemma unescape_u:
  "(of_char c :: nat) < 256 \<Longrightarrow>
     unescape ([CHR 92, CHR ''u''] @ hex4 (of_char c) @ r) = map_option (\<lambda>(t, z). (c # t, z)) (unescape r)"
proof -
  assume c: "(of_char c :: nat) < 256"
  have "hex_val (hex_char (of_char c div 16 mod 16)) * 16 + hex_val (hex_char (of_char c mod 16))
      = of_char c"
    using byte_split [OF c] by (simp add: hex_val_char)
  then show ?thesis by (simp add: hex4_def)
qed

lemma unescape_plain:
  "c \<noteq> CHR 34 \<Longrightarrow> c \<noteq> CHR 92 \<Longrightarrow> unescape (c # r) = map_option (\<lambda>(t, z). (c # t, z)) (unescape r)"
  by simp

lemma esc_char_cases:
  obtains (special) "c \<in> {CHR 34, CHR 92, CHR 8, CHR 9, CHR 10, CHR 12, CHR 13}"
  | (control) "(of_char c :: nat) < 32" "esc_char c = [CHR 92, CHR ''u''] @ hex4 (of_char c)"
  | (plain) "c \<noteq> CHR 34" "c \<noteq> CHR 92" "32 \<le> (of_char c :: nat)" "esc_char c = [c]"
proof (cases "c \<in> {CHR 34, CHR 92, CHR 8, CHR 9, CHR 10, CHR 12, CHR 13}")
  case False
  then have "esc_char c = (if (of_char c :: nat) < 32 then [CHR 92, CHR ''u''] @ hex4 (of_char c) else [c])"
    by (simp add: esc_char_def)
  with False control plain show thesis by (cases "(of_char c :: nat) < 32") auto
qed (rule special)

lemma unescape_esc_char: "unescape (esc_char c @ r) = map_option (\<lambda>(t, z). (c # t, z)) (unescape r)"
proof (cases c rule: esc_char_cases)
  case special
  then show ?thesis by (elim insertE emptyE) (simp_all add: esc_char_def)
next
  case control
  then show ?thesis using unescape_u [of c r] by (simp only: append_assoc)
next
  case plain
  then show ?thesis by (simp del: unescape.simps add: unescape_plain)
qed

lemma unescape_body: "unescape (concat (map esc_char s) @ CHR 34 # r) = Some (s, r)"
  by (induction s) (simp_all add: unescape_esc_char)

text \<open>
  The escaped form is self-delimiting: equal texts that start with an escaped string have the
  same string and the same rest.
\<close>

lemma json_escape_terminator:
  "json_escape_string s @ x = json_escape_string t @ y \<longleftrightarrow> s = t \<and> x = y"
proof
  assume "json_escape_string s @ x = json_escape_string t @ y"
  then have "concat (map esc_char s) @ CHR 34 # x = concat (map esc_char t) @ CHR 34 # y"
    by (simp add: json_escape_string_def)
  then show "s = t \<and> x = y" by (metis option.inject prod.inject unescape_body)
qed simp

lemma json_escape_inj [simp]: "json_escape_string s = json_escape_string t \<longleftrightarrow> s = t"
  using json_escape_terminator [of s "[]" t "[]"] by simp

text \<open>No raw control character, and quotes only at the ends or escaped.\<close>

lemma hex_char_printable: "d < 16 \<Longrightarrow> 32 \<le> (of_char (hex_char d) :: nat)"
proof -
  assume "d < 16"
  then have "d \<in> set [0..<16]" by simp
  moreover have "\<forall>d\<in>set [0..<16]. 32 \<le> (of_char (hex_char d) :: nat)" by code_simp
  ultimately show ?thesis by blast
qed

lemma hex4_printable: "z \<in> set (hex4 n) \<Longrightarrow> 32 \<le> (of_char z :: nat)"
  unfolding hex4_def using hex_char_printable by force

lemma esc_char_printable: "\<forall>z\<in>set (esc_char c). 32 \<le> (of_char z :: nat)"
proof (cases c rule: esc_char_cases)
  case special
  then show ?thesis by (elim insertE emptyE) (simp_all add: esc_char_def)
next
  case control
  show ?thesis unfolding control(2) using hex4_printable by simp
next
  case plain
  show ?thesis unfolding plain(4) using plain(3) by simp
qed

section \<open>Properties\<close>

text \<open>
  Escaping loses nothing and delimits itself: reading back the escaped text yields the
  original string and leaves whatever follows, and no byte below 32 is ever emitted.
\<close>

theorem json_escape_roundtrip:
  "unescape (tl (json_escape_string s @ rest)) = Some (s, rest)
     \<and> list_all (\<lambda>z. 32 \<le> (of_char z :: nat)) (json_escape_string s)"
  using esc_char_printable by (auto simp: list_all_iff json_escape_string_def unescape_body)

end
