(* ===== verification/Json.thy ===== *)
theory Json
  imports Prelude
begin

text \<open>
  The part of \<open>serde_json::Value\<close> the sources read: the constructors and the typed accessors.
  Integers are those a \<open>Value\<close> can hold, negative ones as \<open>i64\<close> and others as \<open>u64\<close>; a number
  with a fraction or out of that range is a float, whose representation is the parameter \<open>'f\<close>.
  Parsing text into a \<open>Value\<close> is a parameter of the theories that do it.
\<close>

datatype 'f json =
  JNull
| JBool bool
| JInt int
| JFloat 'f
| JStr string
| JArr "'f json list"
| JObj "(string \<times> 'f json) list"

fun as_object :: "'f json \<Rightarrow> (string \<times> 'f json) list option" where
  "as_object (JObj m) = Some m"
| "as_object _ = None"

fun as_str :: "'f json \<Rightarrow> string option" where
  "as_str (JStr s) = Some s"
| "as_str _ = None"

fun as_i64 :: "'f json \<Rightarrow> int option" where
  "as_i64 (JInt i) = (if is_i64 i then Some i else None)"
| "as_i64 _ = None"

fun as_u64 :: "'f json \<Rightarrow> nat option" where
  "as_u64 (JInt i) = (if 0 \<le> i \<and> i < 2 ^ 64 then Some (nat i) else None)"
| "as_u64 _ = None"

fun as_bool :: "'f json \<Rightarrow> bool option" where
  "as_bool (JBool b) = Some b"
| "as_bool _ = None"

text \<open>\<open>Value::get\<close>: a member of an object, none of any other value.\<close>

definition json_get :: "string \<Rightarrow> 'f json \<Rightarrow> 'f json option" where
  "json_get k v = (case as_object v of None \<Rightarrow> None | Some m \<Rightarrow> map_of m k)"

text \<open>\<open>obj.get(k).and_then(f)\<close>.\<close>

definition get_as :: "('f json \<Rightarrow> 'a option) \<Rightarrow> (string \<times> 'f json) list \<Rightarrow> string \<Rightarrow> 'a option" where
  "get_as f m k = Option.bind (map_of m k) f"

lemma as_i64_range: "as_i64 v = Some i \<Longrightarrow> is_i64 i"
  by (cases v) (auto split: if_splits)

end
