(* ===== verification/Stream_Token.thy ===== *)
theory Stream_Token
  imports Json Canonical
begin

text \<open>
  \<open>crates/emerald-contracts/src/stream_token.rs\<close>: the HMAC-signed stream token.  HMAC-SHA256,
  base64url and the JSON reader are crates outside the repository: they are the fields of the
  record \<open>token_lib\<close> every operation takes, and the laws a theorem needs of them are its named
  hypotheses.
\<close>

section \<open>Model\<close>

datatype stream_kind = Live | Vod | Series | Catchup | Segment | Remux | Playlist | Recording

fun as_wire :: "stream_kind \<Rightarrow> string" where
  "as_wire Live = ''live''"
| "as_wire Vod = ''vod''"
| "as_wire Series = ''series''"
| "as_wire Catchup = ''catchup''"
| "as_wire Segment = ''segment''"
| "as_wire Remux = ''remux''"
| "as_wire Playlist = ''playlist''"
| "as_wire Recording = ''recording''"

definition from_wire :: "string \<Rightarrow> stream_kind option" where
  "from_wire s =
     (if s = ''live'' then Some Live
      else if s = ''vod'' then Some Vod
      else if s = ''series'' then Some Series
      else if s = ''catchup'' then Some Catchup
      else if s = ''segment'' then Some Segment
      else if s = ''remux'' then Some Remux
      else if s = ''playlist'' then Some Playlist
      else if s = ''recording'' then Some Recording
      else None)"

record stream_claims =
  c_exp :: int
  c_iat :: int
  c_jti :: string
  c_k :: stream_kind
  c_nbf :: int
  c_rid :: string
  c_sub :: string
  c_v :: nat

datatype token_error =
  Malformed | BadBase64 | BadSignature | BadPayload | UnsupportedVersion
| NotYetValid | Expired | UnknownKind | BadTtl

definition nbf_skew_secs :: int where "nbf_skew_secs = 30"

definition exp_skew_secs :: int where "exp_skew_secs = 5"

definition max_ttl_secs :: int where "max_ttl_secs = 91 * 24 * 60 * 60"

record token_lib =
  hmac_sha256 :: "string \<Rightarrow> string \<Rightarrow> string"
  b64_encode :: "string \<Rightarrow> string"
  b64_decode :: "string \<Rightarrow> string option"
  json_parse :: "string \<Rightarrow> unit json option"

text \<open>A quoted key with its colon, \<open>"key":\<close>.\<close>

definition json_key :: "string \<Rightarrow> string" where
  "json_key k = CHR 34 # k @ [CHR 34, CHR '':'']"

definition canonical_bytes :: "stream_claims \<Rightarrow> string" where
  "canonical_bytes c =
     ''{'' @ json_key ''exp'' @ dec_int (c_exp c)
     @ '','' @ json_key ''iat'' @ dec_int (c_iat c)
     @ '','' @ json_key ''jti'' @ json_escape_string (c_jti c)
     @ '','' @ json_key ''k'' @ json_escape_string (as_wire (c_k c))
     @ '','' @ json_key ''nbf'' @ dec_int (c_nbf c)
     @ '','' @ json_key ''rid'' @ json_escape_string (c_rid c)
     @ '','' @ json_key ''sub'' @ json_escape_string (c_sub c)
     @ '','' @ json_key ''v'' @ dec_nat (c_v c) @ ''}''"

definition sign :: "token_lib \<Rightarrow> string \<Rightarrow> stream_claims \<Rightarrow> string" where
  "sign L secret c =
     (let canonical = canonical_bytes c;
          sig = hmac_sha256 L secret canonical
      in b64_encode L canonical @ ''.'' @ b64_encode L sig)"

definition split_token :: "token_lib \<Rightarrow> string \<Rightarrow> token_error + string \<times> string" where
  "split_token L token =
     (case split_on (CHR ''.'') token of
        [payload_b64, sig_b64] \<Rightarrow>
          result_bind (ok_or BadBase64 (b64_decode L payload_b64)) (\<lambda>canonical.
          result_bind (ok_or BadBase64 (b64_decode L sig_b64)) (\<lambda>sig.
            Inr (canonical, sig)))
      | _ \<Rightarrow> Inl Malformed)"

definition compute_and_compare :: "token_lib \<Rightarrow> string \<Rightarrow> string \<Rightarrow> string \<Rightarrow> bool" where
  "compute_and_compare L secret canonical sig =
     (let computed = hmac_sha256 L secret canonical
      in if length sig \<noteq> length computed then False else computed = sig)"

definition verify_with_canonical :: "token_lib \<Rightarrow> string \<Rightarrow> string \<Rightarrow> string \<Rightarrow> token_error + unit" where
  "verify_with_canonical L secret canonical sig =
     (if compute_and_compare L secret canonical sig then Inr () else Inl BadSignature)"

definition parse_canonical :: "token_lib \<Rightarrow> string \<Rightarrow> token_error + stream_claims" where
  "parse_canonical L bytes =
     result_bind (ok_or BadPayload (json_parse L bytes)) (\<lambda>v.
     result_bind (ok_or BadPayload (as_object v)) (\<lambda>obj.
     result_bind (ok_or BadPayload (get_as as_u64 obj ''v'')) (\<lambda>version.
     if version \<noteq> 1 then Inl UnsupportedVersion else
     result_bind (ok_or BadPayload (get_as as_str obj ''k'')) (\<lambda>kind_str.
     result_bind (ok_or UnknownKind (from_wire kind_str)) (\<lambda>k.
     result_bind (ok_or BadPayload (get_as as_i64 obj ''exp'')) (\<lambda>exp.
     result_bind (ok_or BadPayload (get_as as_i64 obj ''iat'')) (\<lambda>iat.
     result_bind (ok_or BadPayload (get_as as_str obj ''jti'')) (\<lambda>jti.
     result_bind (ok_or BadPayload (get_as as_i64 obj ''nbf'')) (\<lambda>nbf.
     result_bind (ok_or BadPayload (get_as as_str obj ''rid'')) (\<lambda>rid.
     result_bind (ok_or BadPayload (get_as as_str obj ''sub'')) (\<lambda>sub.
       Inr \<lparr>c_exp = exp, c_iat = iat, c_jti = jti, c_k = k, c_nbf = nbf, c_rid = rid,
            c_sub = sub, c_v = version\<rparr>)))))))))))"

definition verify :: "token_lib \<Rightarrow> string \<Rightarrow> string \<Rightarrow> token_error + stream_claims" where
  "verify L secret token =
     result_bind (split_token L token) (\<lambda>(canonical, sig).
     result_bind (verify_with_canonical L secret canonical sig) (\<lambda>_.
       parse_canonical L canonical))"

definition verify_dual_key ::
  "token_lib \<Rightarrow> string \<Rightarrow> string \<Rightarrow> string \<Rightarrow> token_error + stream_claims \<times> bool" where
  "verify_dual_key L primary fallback token =
     result_bind (split_token L token) (\<lambda>(canonical, sig).
       let primary_ok = compute_and_compare L primary canonical sig;
           fallback_ok = compute_and_compare L fallback canonical sig
       in if \<not> primary_ok \<and> \<not> fallback_ok then Inl BadSignature
          else result_bind (parse_canonical L canonical) (\<lambda>claims.
            Inr (claims, \<not> primary_ok \<and> fallback_ok)))"

definition enforce_time_window :: "stream_claims \<Rightarrow> int \<Rightarrow> token_error + unit" where
  "enforce_time_window c now =
     (if wrap64 (c_exp c - c_iat c) > max_ttl_secs then Inl BadTtl
      else if c_nbf c > c_iat c \<and> c_exp c < c_nbf c then Inl BadTtl
      else if wrap64 (now + nbf_skew_secs) < c_nbf c then Inl NotYetValid
      else if wrap64 (now - exp_skew_secs) > c_exp c then Inl Expired
      else Inr ())"

section \<open>Laws of the crates\<close>

text \<open>Decoding inverts encoding, and the URL-safe alphabet has no dot.\<close>

definition b64_laws :: "token_lib \<Rightarrow> bool" where
  "b64_laws L \<longleftrightarrow> (\<forall>x. b64_decode L (b64_encode L x) = Some x) \<and> (\<forall>x. CHR ''.'' \<notin> set (b64_encode L x))"

text \<open>The reader maps the canonical text to its object.\<close>

definition claims_json :: "stream_claims \<Rightarrow> unit json" where
  "claims_json c = JObj
     [(''exp'', JInt (c_exp c)), (''iat'', JInt (c_iat c)), (''jti'', JStr (c_jti c)),
      (''k'', JStr (as_wire (c_k c))), (''nbf'', JInt (c_nbf c)), (''rid'', JStr (c_rid c)),
      (''sub'', JStr (c_sub c)), (''v'', JInt (int (c_v c)))]"

definition json_reads :: "token_lib \<Rightarrow> stream_claims \<Rightarrow> bool" where
  "json_reads L c \<longleftrightarrow> json_parse L (canonical_bytes c) = Some (claims_json c)"

definition wf_claims :: "stream_claims \<Rightarrow> bool" where
  "wf_claims c \<longleftrightarrow> is_i64 (c_exp c) \<and> is_i64 (c_iat c) \<and> is_i64 (c_nbf c) \<and> c_v c = 1"

section \<open>Lemmas\<close>

lemma from_wire_as_wire [simp]: "from_wire (as_wire k) = Some k"
  by (cases k) (simp_all add: from_wire_def)

lemma from_wire_SomeD: "from_wire s = Some k \<Longrightarrow> s = as_wire k"
  unfolding from_wire_def by (cases k) (simp_all only: as_wire.simps option.inject stream_kind.distinct
    option.distinct if_False if_True split: if_split_asm)

lemma from_wire_Some: "from_wire s = Some k \<longleftrightarrow> s = as_wire k"
  using from_wire_SomeD by auto

lemma as_wire_inj [simp]: "as_wire k = as_wire l \<longleftrightarrow> k = l"
  by (metis from_wire_as_wire option.inject)

lemma compute_and_compare_iff [simp]:
  "compute_and_compare L k m s \<longleftrightarrow> hmac_sha256 L k m = s"
  by (auto simp: compute_and_compare_def Let_def)

lemma verify_with_canonical_iff:
  "verify_with_canonical L k m s = (if hmac_sha256 L k m = s then Inr () else Inl BadSignature)"
  by (simp add: verify_with_canonical_def)

lemma split_token_Inr:
  "split_token L t = Inr (m, s) \<longleftrightarrow>
     (\<exists>p q. t = p @ CHR ''.'' # q \<and> CHR ''.'' \<notin> set p \<and> CHR ''.'' \<notin> set q
        \<and> b64_decode L p = Some m \<and> b64_decode L q = Some s)"
  (is "?l = ?r")
proof
  assume ?l
  then obtain p q where "split_on (CHR ''.'') t = [p, q]" "b64_decode L p = Some m" "b64_decode L q = Some s"
    by (auto simp: split_token_def result_simps split: list.splits)
  then show ?r by (auto simp: split_on_two)
next
  assume ?r
  then obtain p q where "split_on (CHR ''.'') t = [p, q]" "b64_decode L p = Some m" "b64_decode L q = Some s"
    by (auto simp: split_on_two)
  then show ?l by (simp add: split_token_def)
qed

lemma split_token_sign:
  assumes "b64_laws L"
  shows "split_token L (sign L k c) = Inr (canonical_bytes c, hmac_sha256 L k (canonical_bytes c))"
  using assms by (auto simp: split_token_Inr sign_def Let_def b64_laws_def)

lemma verify_Inr:
  "verify L k t = Inr c \<longleftrightarrow>
     (\<exists>m s. split_token L t = Inr (m, s) \<and> hmac_sha256 L k m = s \<and> parse_canonical L m = Inr c)"
  by (auto simp: verify_def verify_with_canonical_iff result_simps split: if_splits)

lemma parse_canonical_claims:
  assumes "json_reads L c" "wf_claims c"
  shows "parse_canonical L (canonical_bytes c) = Inr c"
  using assms by (simp add: parse_canonical_def json_reads_def claims_json_def get_as_def wf_claims_def)

lemma parse_canonical_wf: "parse_canonical L m = Inr c \<Longrightarrow> wf_claims c"
  by (auto simp: parse_canonical_def result_simps wf_claims_def get_as_def bind_eq_Some_conv
      dest: as_i64_range split: if_splits)

lemma separator_not_digit: "\<not> is_digit (CHR '','')" "\<not> is_digit (CHR ''}'')"
  by (simp_all add: is_digit_def)

lemma dec_int_comma: "dec_int i @ CHR '','' # x = dec_int j @ CHR '','' # y \<longleftrightarrow> i = j \<and> x = y"
  using dec_int_terminator [of i "CHR '',''" x j "CHR '',''" y] separator_not_digit by auto

lemma stream_claims_eq_iff:
  "c = (d :: stream_claims) \<longleftrightarrow> c_exp c = c_exp d \<and> c_iat c = c_iat d \<and> c_jti c = c_jti d \<and> c_k c = c_k d
     \<and> c_nbf c = c_nbf d \<and> c_rid c = c_rid d \<and> c_sub c = c_sub d \<and> c_v c = c_v d"
  by (cases c; cases d) auto

text \<open>The template is injective: each field's text ends before the next key starts.\<close>

lemma canonical_bytes_inj [simp]: "canonical_bytes c = canonical_bytes d \<longleftrightarrow> c = d"
  unfolding stream_claims_eq_iff canonical_bytes_def
  by (simp only: append_Cons append_Nil append_assoc list.inject same_append_eq append_same_eq
      dec_int_comma json_escape_terminator dec_nat_inj as_wire_inj simp_thms conj_ac)

lemma split_token_pieces:
  assumes "b64_laws L"
  shows "split_token L (b64_encode L m @ CHR ''.'' # b64_encode L s) = Inr (m, s)"
  using assms by (auto simp: split_token_Inr b64_laws_def)

section \<open>A concrete library for the witnesses\<close>

text \<open>
  Hexadecimal stands in for base64url, concatenation for the MAC, and the reader knows one text.
\<close>

definition hex_encode :: "string \<Rightarrow> string" where
  "hex_encode s = concat (map (\<lambda>c. [hex_char (of_char c div 16), hex_char (of_char c mod 16)]) s)"

fun hex_decode :: "string \<Rightarrow> string option" where
  "hex_decode [] = Some []"
| "hex_decode [_] = None"
| "hex_decode (x # y # r) =
     map_option (\<lambda>t. char_of (hex_val x * 16 + hex_val y) # t) (hex_decode r)"

definition demo_claims :: stream_claims where
  "demo_claims = \<lparr>c_exp = 1748256000, c_iat = 1748169600, c_jti = ''01HW'', c_k = Live,
     c_nbf = 1748169600, c_rid = ''ch-101'', c_sub = ''plex:12345'', c_v = 1\<rparr>"

definition demo_lib :: token_lib where
  "demo_lib = \<lparr>hmac_sha256 = (\<lambda>k m. k @ m), b64_encode = hex_encode, b64_decode = hex_decode,
     json_parse = (\<lambda>t. if t = canonical_bytes demo_claims then Some (claims_json demo_claims) else None)\<rparr>"

lemma hex_char_not_dot: "d < 16 \<Longrightarrow> hex_char d \<noteq> CHR ''.''"
proof -
  assume "d < 16"
  then have "d \<in> set [0..<16]" by simp
  moreover have "\<forall>d\<in>set [0..<16]. hex_char d \<noteq> CHR ''.''" by code_simp
  ultimately show ?thesis by blast
qed

lemma of_char_nibble: "(of_char c :: nat) div 16 < 16"
  by (rule less_mult_imp_div_less) (use nat_of_char_less_256 [of c] in simp)

lemma hex_decode_encode: "hex_decode (hex_encode s) = Some s"
proof (induction s)
  case (Cons c s)
  with of_char_nibble [of c] show ?case by (simp add: hex_encode_def hex_val_char)
qed (simp add: hex_encode_def)

lemma demo_b64_laws: "b64_laws demo_lib"
proof -
  have "CHR ''.'' \<notin> set (hex_encode s)" for s
    using hex_char_not_dot [OF of_char_nibble] hex_char_not_dot [OF mod_less_divisor]
    unfolding hex_encode_def by (simp add: eq_commute [of "CHR ''.''"])
  then show ?thesis by (simp add: b64_laws_def demo_lib_def hex_decode_encode)
qed

lemma demo_json_reads: "json_reads demo_lib demo_claims"
  by (simp add: json_reads_def demo_lib_def)

lemma demo_wf: "wf_claims demo_claims"
  by (simp add: wf_claims_def demo_claims_def is_i64_def)

section \<open>Properties\<close>

text \<open>
  The HMAC input determines the claims: two claim sets with the same canonical bytes are
  equal, so no signature can be carried over from one claim set to another.
\<close>

theorem canonical_unambiguous: "canonical_bytes c = canonical_bytes d \<longleftrightarrow> c = d"
  by (rule canonical_bytes_inj)

text \<open>A token signed with a key verifies with that key to the claims that were signed.\<close>

theorem sign_verify_roundtrip:
  assumes "b64_laws L" "json_reads L c" "wf_claims c"
  shows "verify L k (sign L k c) = Inr c"
  using assms by (simp add: verify_Inr split_token_sign parse_canonical_claims)

theorem sign_verify_roundtrip_witness:
  "verify demo_lib ''key'' (sign demo_lib ''key'' demo_claims) = Inr demo_claims"
  by (rule sign_verify_roundtrip [OF demo_b64_laws demo_json_reads demo_wf])



text \<open>
  The grace-window verifier is the disjunction of two single-key verifiers: it accepts what
  either key accepts, with the same claims, and flags exactly the tokens the primary key refuses
  for their signature.
\<close>

theorem dual_key_equiv:
  "verify_dual_key L a b t =
     (case verify L a t of
        Inr c \<Rightarrow> Inr (c, False)
      | Inl e \<Rightarrow> if e = BadSignature then map_sum id (\<lambda>c. (c, True)) (verify L b t) else Inl e)"
proof (cases "split_token L t")
  case (Inl e)
  then have "e = Malformed \<or> e = BadBase64"
    by (auto simp: split_token_def result_simps split: list.splits)
  with Inl show ?thesis by (auto simp: verify_def verify_dual_key_def)
next
  case (Inr ms)
  obtain m s where ms: "ms = (m, s)" by (cases ms)
  have nb: "parse_canonical L m \<noteq> Inl BadSignature"
    by (auto simp: parse_canonical_def result_simps split: if_splits)
  show ?thesis
    using Inr ms nb
    by (cases "parse_canonical L m")
      (auto simp: verify_def verify_dual_key_def verify_with_canonical_iff)
qed

text \<open>
  Where the three sums stay in the \<open>i64\<close> range, the window check accepts exactly the tokens
  whose lifetime is at most 91 days, whose not-before is not forged past both mint and expiry, and
  whose window, widened by 30 s before and 5 s after, contains the clock.
\<close>

theorem time_window_iff:
  assumes "is_i64 (c_exp c - c_iat c)" "is_i64 (now + 30)" "is_i64 (now - 5)"
  shows "enforce_time_window c now = Inr () \<longleftrightarrow>
           c_exp c - c_iat c \<le> 7862400
         \<and> \<not> (c_iat c < c_nbf c \<and> c_exp c < c_nbf c)
         \<and> c_nbf c - 30 \<le> now \<and> now \<le> c_exp c + 5"
  using assms
  by (auto simp: enforce_time_window_def wrap64_id max_ttl_secs_def nbf_skew_secs_def exp_skew_secs_def)

theorem time_window_iff_witness:
  "enforce_time_window demo_claims 1748200000 = Inr ()"
  by (subst time_window_iff) (simp_all add: is_i64_def demo_claims_def)

text \<open>
  The lifetime bound is computed with a wrapping subtraction: a signed claim set minted at a
  negative \<open>iat\<close> and expiring at the largest \<open>i64\<close> is accepted at every clock reading from
  \<open>-30\<close> on, although its lifetime is far above the bound.
\<close>

theorem lifetime_check_wraps:
  assumes "0 \<le> now" "now + 30 < 2 ^ 63"
    and "c = demo_claims\<lparr>c_iat := -1, c_nbf := -1, c_exp := 2 ^ 63 - 1\<rparr>"
  shows "wf_claims c \<and> c_exp c - c_iat c > max_ttl_secs \<and> enforce_time_window c now = Inr ()"
proof -
  have "wrap64 (now + 30) = now + 30" "wrap64 (now - 5) = now - 5"
    using assms(1,2) by (simp_all add: wrap64_id is_i64_def)
  moreover have "wrap64 (2 ^ 63 - 1 - (-1)) = - (2 ^ 63)" by (simp add: wrap64_def)
  ultimately show ?thesis
    using assms by (simp add: enforce_time_window_def wf_claims_def is_i64_def max_ttl_secs_def
        nbf_skew_secs_def exp_skew_secs_def demo_claims_def)
qed

theorem lifetime_check_wraps_witness:
  "enforce_time_window (demo_claims\<lparr>c_iat := -1, c_nbf := -1, c_exp := 2 ^ 63 - 1\<rparr>) 1748200000 = Inr ()"
  using lifetime_check_wraps [of 1748200000, OF _ _ refl] by simp

end
