(* ===== verification/Http.thy ===== *)
theory Http
  imports Prelude
begin

text \<open>
  The part of the \<open>http\<close> crate the sources read: a header map is the list of its (lower-case
  name, value bytes) pairs, \<open>get\<close> is the first value of a name and \<open>get_all\<close> all of them, and
  \<open>HeaderValue::to_str\<close> succeeds on visible ASCII, space and tab.
\<close>

type_synonym headers = "(string \<times> string) list"

definition header_get :: "headers \<Rightarrow> string \<Rightarrow> string option" where
  "header_get h n = map_of h n"

definition header_get_all :: "headers \<Rightarrow> string \<Rightarrow> string list" where
  "header_get_all h n = map snd (filter (\<lambda>p. fst p = n) h)"

definition header_has :: "headers \<Rightarrow> string \<Rightarrow> bool" where
  "header_has h n \<longleftrightarrow> header_get h n \<noteq> None"

definition visible :: "char \<Rightarrow> bool" where
  "visible c \<longleftrightarrow> c = CHR 9 \<or> (32 \<le> (of_char c :: nat) \<and> (of_char c :: nat) < 127)"

definition header_to_str :: "string \<Rightarrow> string option" where
  "header_to_str v = (if list_all visible v then Some v else None)"

text \<open>
  \<open>trim_matches([' ', '\t'])\<close>; on the values \<open>to_str\<close> lets through \<open>str::trim\<close> is the same.
\<close>

definition is_blank :: "char \<Rightarrow> bool" where
  "is_blank c \<longleftrightarrow> c = CHR 32 \<or> c = CHR 9"

definition trim_by :: "(char \<Rightarrow> bool) \<Rightarrow> string \<Rightarrow> string" where
  "trim_by p s = rev (dropWhile p (rev (dropWhile p s)))"

definition trim :: "string \<Rightarrow> string" where
  "trim = trim_by is_blank"

text \<open>\<open>u8::is_ascii_whitespace\<close>: space, tab, line feed, form feed, carriage return.\<close>

definition ascii_space :: "char \<Rightarrow> bool" where
  "ascii_space c \<longleftrightarrow> c \<in> {CHR 32, CHR 9, CHR 10, CHR 12, CHR 13}"

definition trim_ascii :: "string \<Rightarrow> string" where
  "trim_ascii = trim_by ascii_space"

text \<open>The white space \<open>str::trim\<close> strips from an ASCII text.\<close>

definition rust_space :: "char \<Rightarrow> bool" where
  "rust_space c \<longleftrightarrow> c = CHR 32 \<or> c \<in> {CHR 9, CHR 10, CHR 11, CHR 12, CHR 13}"

text \<open>JavaScript's \<open>encodeURIComponent\<close>, as \<open>crates/iptv/src/streams.rs\<close> writes it.\<close>

definition upper_hex :: "nat \<Rightarrow> char" where
  "upper_hex d = ''0123456789ABCDEF'' ! d"

definition uri_unreserved :: "char \<Rightarrow> bool" where
  "uri_unreserved c \<longleftrightarrow> is_digit c
     \<or> (65 \<le> (of_char c :: nat) \<and> (of_char c :: nat) \<le> 90) \<or> (97 \<le> (of_char c :: nat) \<and> (of_char c :: nat) \<le> 122)
     \<or> c \<in> set (''-_.!~*'' @ [CHR 39] @ ''()'')"

definition encode_uri_component :: "string \<Rightarrow> string" where
  "encode_uri_component s =
     concat (map (\<lambda>c. if uri_unreserved c then [c]
       else [CHR 37, upper_hex (of_char c div 16), upper_hex (of_char c mod 16)]) s)"

lemma header_get_all_Nil: "header_get_all h n = [] \<longleftrightarrow> header_get h n = None"
  by (induction h) (auto simp: header_get_all_def header_get_def)

lemma header_get_hd: "header_get h n = Some v \<Longrightarrow> header_get_all h n \<noteq> [] \<and> hd (header_get_all h n) = v"
  by (induction h) (auto simp: header_get_all_def header_get_def split: if_splits)

end
