(* ===== verification/Rate_Limit.thy ===== *)
theory Rate_Limit
  imports Http
begin

text \<open>
  \<open>crates/auth/src/ratelimit.rs\<close> and \<open>client_address.rs\<close>: fixed-window limits of the sign-in
  routes.  Instants and durations are naturals in nanoseconds.  The 429 response is the pair of
  the scope that refused and its Retry-After seconds, which are also what the outcome reporter
  records.  The SHA-256 hex digest is the parameter \<open>sha\<close>.
\<close>

section \<open>Model\<close>

definition nanos :: "nat" where "nanos = 1000000000"

definition window :: nat where "window = 60 * nanos"

definition pin_limit :: nat where "pin_limit = 60"

definition sweep_every :: nat where "sweep_every = 60 * nanos"

datatype rl_kind = Pin | Check | Apple | Google | Workos

fun kind_str :: "rl_kind \<Rightarrow> string" where
  "kind_str Pin = ''pin''"
| "kind_str Check = ''check''"
| "kind_str Apple = ''apple''"
| "kind_str Google = ''google''"
| "kind_str Workos = ''workos''"

fun client_limit :: "rl_kind \<Rightarrow> nat" where
  "client_limit Pin = 10"
| "client_limit Check = 300"
| "client_limit _ = 20"

fun global_limit :: "rl_kind \<Rightarrow> nat" where
  "global_limit Pin = 120"
| "global_limit Check = 600"
| "global_limit _ = 200"

datatype scope = ScGlobal | ScTrustedClient | ScPin | ScIdentity | ScUpstream

record bucket =
  bk_count :: nat
  bk_reset :: nat

record rule =
  rl_key :: string
  rl_scope :: scope
  rl_limit :: nat

record buckets =
  bs_map :: "string \<rightharpoonup> bucket"
  bs_last_sweep :: "nat option"

record limiter =
  lm_trust :: bool
  lm_buckets :: buckets

definition new_limiter :: "bool \<Rightarrow> limiter" where
  "new_limiter trust = \<lparr>lm_trust = trust, lm_buckets = \<lparr>bs_map = Map.empty, bs_last_sweep = None\<rparr>\<rparr>"

text \<open>\<open>client_address::trusted\<close>.\<close>

definition forwarded :: "headers \<Rightarrow> string \<Rightarrow> string option" where
  "forwarded h n =
     (case header_get h n of None \<Rightarrow> None
      | Some v \<Rightarrow> (case header_to_str v of None \<Rightarrow> None
         | Some t \<Rightarrow> if trim t = [] then None else Some (trim t)))"

definition trusted :: "headers \<Rightarrow> bool \<Rightarrow> (string \<times> string) option" where
  "trusted h trust =
     (if \<not> trust then None
      else case forwarded h ''cf-connecting-ip'' of
        Some a \<Rightarrow> Some (''cf'', a)
      | None \<Rightarrow> map_option (\<lambda>a. (''true-client'', a)) (forwarded h ''true-client-ip''))"

text \<open>\<open>Buckets::sweep\<close>: drop expired buckets at most once per minute.\<close>

definition sweep :: "nat \<Rightarrow> buckets \<Rightarrow> buckets" where
  "sweep now b =
     (if (case bs_last_sweep b of None \<Rightarrow> False | Some t \<Rightarrow> now - t < sweep_every) then b
      else \<lparr>bs_map = (\<lambda>k. case bs_map b k of None \<Rightarrow> None
                           | Some x \<Rightarrow> if bk_reset x > now then Some x else None),
            bs_last_sweep = Some now\<rparr>)"

text \<open>The bucket a rule counts in: the stored one while its window is open, else a fresh one.\<close>

definition current_bucket :: "nat \<Rightarrow> (string \<rightharpoonup> bucket) \<Rightarrow> string \<Rightarrow> bucket" where
  "current_bucket now m k =
     (case m k of
        Some x \<Rightarrow> if bk_reset x > now then x else \<lparr>bk_count = 0, bk_reset = now + window\<rparr>
      | None \<Rightarrow> \<lparr>bk_count = 0, bk_reset = now + window\<rparr>)"

text \<open>Whole seconds until the window resets, rounded up, at least 1.\<close>

definition retry_after_seconds :: "nat \<Rightarrow> nat" where
  "retry_after_seconds left = (let ms = left div 1000000 in max ((ms + 999) div 1000) 1)"

definition reject :: "scope \<Rightarrow> nat \<Rightarrow> nat \<Rightarrow> scope \<times> nat" where
  "reject sc reset_at now = (sc, retry_after_seconds (reset_at - now))"

text \<open>\<open>Limiter::apply\<close>: all rules pass and each count goes up, or the first full bucket refuses.\<close>

definition apply_rules :: "nat \<Rightarrow> rule list \<Rightarrow> buckets \<Rightarrow> (scope \<times> nat + unit) \<times> buckets" where
  "apply_rules now rules b0 =
     (let b = sweep now b0;
          current = map (\<lambda>r. current_bucket now (bs_map b) (rl_key r)) rules
      in case find (\<lambda>(r, x). bk_count x \<ge> rl_limit r) (zip rules current) of
           Some (r, x) \<Rightarrow>
             (Inl (reject (rl_scope r) (bk_reset x) now),
              b\<lparr>bs_map := (bs_map b)(rl_key r \<mapsto> x)\<rparr>)
         | None \<Rightarrow>
             (Inr (),
              b\<lparr>bs_map := foldl (\<lambda>m (r, x). m(rl_key r \<mapsto> x\<lparr>bk_count := bk_count x + 1\<rparr>))
                           (bs_map b) (zip rules current)\<rparr>))"

definition request_rules :: "bool \<Rightarrow> headers \<Rightarrow> rl_kind \<Rightarrow> int option \<Rightarrow> rule list" where
  "request_rules trust h kind pin_id =
     [\<lparr>rl_key = kind_str kind @ '':global'', rl_scope = ScGlobal, rl_limit = global_limit kind\<rparr>]
     @ (case trusted h trust of None \<Rightarrow> []
        | Some (source, address) \<Rightarrow>
            [\<lparr>rl_key = kind_str kind @ '':client:'' @ source @ '':'' @ address,
              rl_scope = ScTrustedClient, rl_limit = client_limit kind\<rparr>])
     @ (case pin_id of None \<Rightarrow> []
        | Some pin \<Rightarrow>
            [\<lparr>rl_key = kind_str kind @ '':pin:'' @ dec_int pin, rl_scope = ScPin, rl_limit = pin_limit\<rparr>])"

definition check_at ::
  "limiter \<Rightarrow> nat \<Rightarrow> headers \<Rightarrow> rl_kind \<Rightarrow> int option \<Rightarrow> (scope \<times> nat + unit) \<times> limiter" where
  "check_at l now h kind pin_id =
     (case apply_rules now (request_rules (lm_trust l) h kind pin_id) (lm_buckets l) of
        (res, b) \<Rightarrow> (res, l\<lparr>lm_buckets := b\<rparr>))"

definition identity_rule :: "(string \<Rightarrow> string) \<Rightarrow> rl_kind \<Rightarrow> string \<Rightarrow> rule" where
  "identity_rule sha kind identity =
     \<lparr>rl_key = kind_str kind @ '':identity:'' @ take 16 (sha identity),
      rl_scope = ScIdentity, rl_limit = client_limit kind\<rparr>"

definition check_identity_at ::
  "(string \<Rightarrow> string) \<Rightarrow> limiter \<Rightarrow> nat \<Rightarrow> rl_kind \<Rightarrow> string option
     \<Rightarrow> (scope \<times> nat + unit) \<times> limiter" where
  "check_identity_at sha l now kind identity =
     (case identity of
        None \<Rightarrow> (Inr (), l)
      | Some i \<Rightarrow>
          if i = [] then (Inr (), l)
          else case apply_rules now [identity_rule sha kind i] (lm_buckets l) of
            (res, b) \<Rightarrow> (res, l\<lparr>lm_buckets := b\<rparr>))"

text \<open>\<open>Limiter::check\<close> and \<open>Limiter::check_plex_pin\<close>, with the clock reading an argument.\<close>

definition check :: "limiter \<Rightarrow> nat \<Rightarrow> headers \<Rightarrow> rl_kind \<Rightarrow> (scope \<times> nat + unit) \<times> limiter" where
  "check l now h kind = check_at l now h kind None"

definition check_plex_pin ::
  "limiter \<Rightarrow> nat \<Rightarrow> headers \<Rightarrow> int option \<Rightarrow> (scope \<times> nat + unit) \<times> limiter" where
  "check_plex_pin l now h pin_id = check_at l now h Check pin_id"

section \<open>One step\<close>

lemma window_pos: "0 < window"
  by (simp add: window_def nanos_def)

abbreviation keys :: "rule list \<Rightarrow> string set" where
  "keys rs \<equiv> rl_key ` set rs"

definition positive_limits :: "rule list \<Rightarrow> bool" where
  "positive_limits rs \<longleftrightarrow> (\<forall>r\<in>set rs. 0 < rl_limit r)"

lemma sweep_cases:
  "bs_map (sweep now b) k = bs_map b k
     \<or> bs_map (sweep now b) k = None \<and> (\<exists>x. bs_map b k = Some x \<and> bk_reset x \<le> now)"
  by (auto simp: sweep_def split: option.splits)

lemma sweep_keeps_open:
  "bs_map b k = Some x \<Longrightarrow> now < bk_reset x \<Longrightarrow> bs_map (sweep now b) k = Some x"
  using sweep_cases [of now b k] by auto

lemma sweep_current: "current_bucket now (bs_map (sweep now b)) = current_bucket now (bs_map b)"
proof
  fix k
  show "current_bucket now (bs_map (sweep now b)) k = current_bucket now (bs_map b) k"
    using sweep_cases [of now b k] by (auto simp: current_bucket_def)
qed

lemma current_open: "now < bk_reset (current_bucket now m k)"
  using window_pos by (auto simp: current_bucket_def split: option.splits)

lemma fold_bump:
  "foldl (\<lambda>m (r, x). m(rl_key r \<mapsto> g x)) m (zip rs (map (\<lambda>r. c (rl_key r)) rs))
     = (\<lambda>k. if k \<in> keys rs then Some (g (c k)) else m k)"
  by (induction rs arbitrary: m) (auto simp: fun_eq_iff)

lemma find_zip_map:
  "find P (zip rs (map f rs)) = map_option (\<lambda>r. (r, f r)) (find (\<lambda>r. P (r, f r)) rs)"
  by (induction rs) auto

text \<open>The outcome of \<open>apply_rules\<close> and the map it leaves, in terms of the buckets the rules see.\<close>

lemma apply_rules_cases:
  obtains (refused) r where "r \<in> set rs" "rl_limit r \<le> bk_count (current_bucket now (bs_map b) (rl_key r))"
      "fst (apply_rules now rs b) = Inl (reject (rl_scope r) (bk_reset (current_bucket now (bs_map b) (rl_key r))) now)"
      "bs_map (snd (apply_rules now rs b)) = (bs_map (sweep now b))(rl_key r \<mapsto> current_bucket now (bs_map b) (rl_key r))"
  | (counted) "\<forall>r\<in>set rs. bk_count (current_bucket now (bs_map b) (rl_key r)) < rl_limit r"
      "fst (apply_rules now rs b) = Inr ()"
      "bs_map (snd (apply_rules now rs b)) = (\<lambda>k. if k \<in> keys rs
         then Some ((current_bucket now (bs_map b) k)\<lparr>bk_count := bk_count (current_bucket now (bs_map b) k) + 1\<rparr>)
         else bs_map (sweep now b) k)"
proof (cases "find (\<lambda>r. rl_limit r \<le> bk_count (current_bucket now (bs_map b) (rl_key r))) rs")
  case None
  then have "\<forall>r\<in>set rs. bk_count (current_bucket now (bs_map b) (rl_key r)) < rl_limit r"
    by (auto simp: find_None_iff not_le)
  moreover have "fst (apply_rules now rs b) = Inr ()"
    using None by (simp add: apply_rules_def Let_def find_zip_map sweep_current)
  moreover have "bs_map (snd (apply_rules now rs b)) = (\<lambda>k. if k \<in> keys rs
         then Some ((current_bucket now (bs_map b) k)\<lparr>bk_count := bk_count (current_bucket now (bs_map b) k) + 1\<rparr>)
         else bs_map (sweep now b) k)"
    using None by (simp add: apply_rules_def Let_def find_zip_map sweep_current
        fold_bump [where c = "current_bucket now (bs_map b)"] fun_eq_iff)
  ultimately show thesis by (rule counted)
next
  case (Some r)
  then have "r \<in> set rs" "rl_limit r \<le> bk_count (current_bucket now (bs_map b) (rl_key r))"
    by (auto simp: find_Some_iff)
  with Some show thesis
    by (intro refused [of r]) (simp_all add: apply_rules_def Let_def find_zip_map sweep_current)
qed

text \<open>With positive limits a refusal leaves every bucket as the sweep left it.\<close>

lemma full_bucket_stored:
  assumes "0 < bk_count (current_bucket now m k)"
  shows "m k = Some (current_bucket now m k)"
  using assms by (auto simp: current_bucket_def split: option.splits if_splits)

lemma refused_map:
  assumes "fst (apply_rules now rs b) \<noteq> Inr ()" "positive_limits rs"
  shows "bs_map (snd (apply_rules now rs b)) = bs_map (sweep now b)"
proof (cases rule: apply_rules_cases [of rs now b])
  case (refused r)
  then have "0 < bk_count (current_bucket now (bs_map b) (rl_key r))"
    using assms(2) by (auto simp: positive_limits_def)
  then have "bs_map (sweep now b) (rl_key r) = Some (current_bucket now (bs_map b) (rl_key r))"
    using full_bucket_stored current_open sweep_keeps_open by blast
  with refused(4) show ?thesis by auto
next
  case counted
  with assms(1) show ?thesis by simp
qed

lemma refused_reject:
  assumes "fst (apply_rules now rs b) = Inl e"
  shows "\<exists>r\<in>set rs. e = reject (rl_scope r) (bk_reset (current_bucket now (bs_map b) (rl_key r))) now"
proof (cases rule: apply_rules_cases [of rs now b])
  case (refused r)
  with assms show ?thesis by auto
qed (use assms in simp)

section \<open>Counting a key's admissions\<close>

fun admitted :: "string \<Rightarrow> buckets \<Rightarrow> (nat \<times> rule list) list \<Rightarrow> nat" where
  "admitted k b [] = 0"
| "admitted k b ((t, rs) # es) =
     (if fst (apply_rules t rs b) = Inr () \<and> k \<in> keys rs then 1 else 0)
       + admitted k (snd (apply_rules t rs b)) es"

definition limits_key :: "string \<Rightarrow> nat \<Rightarrow> (nat \<times> rule list) list \<Rightarrow> bool" where
  "limits_key k L es \<longleftrightarrow>
     (\<forall>(t, rs)\<in>set es. positive_limits rs \<and> (\<forall>r\<in>set rs. rl_key r = k \<longrightarrow> rl_limit r = L))"

lemma untouched_map:
  assumes "\<not> (fst (apply_rules t rs b) = Inr () \<and> k \<in> keys rs)" "positive_limits rs"
  shows "bs_map (snd (apply_rules t rs b)) k = bs_map (sweep t b) k"
proof (cases "fst (apply_rules t rs b) = Inr ()")
  case True
  then show ?thesis
    using assms(1) by (cases rule: apply_rules_cases [of rs t b]) auto
next
  case False
  then show ?thesis using refused_map assms(2) by simp
qed

lemma touched_map:
  assumes "fst (apply_rules t rs b) = Inr ()" "k \<in> keys rs" "limits_key k L ((t, rs) # es)"
  shows "bk_count (current_bucket t (bs_map b) k) < L"
    and "bs_map (snd (apply_rules t rs b)) k =
       Some ((current_bucket t (bs_map b) k)\<lparr>bk_count := bk_count (current_bucket t (bs_map b) k) + 1\<rparr>)"
  using assms by (cases rule: apply_rules_cases [of rs t b]; force simp: limits_key_def)+

lemma open_window_bound:
  assumes "bs_map b k = Some x" "\<forall>(t, rs)\<in>set es. t < bk_reset x" "limits_key k L es"
  shows "admitted k b es \<le> L - bk_count x"
  using assms
proof (induction es arbitrary: b x)
  case Nil
  then show ?case by simp
next
  case (Cons e es)
  obtain t rs where e: "e = (t, rs)" by (cases e)
  have lim: "limits_key k L es" "positive_limits rs" and t: "t < bk_reset x"
    using Cons.prems e by (auto simp: limits_key_def)
  have cur: "current_bucket t (bs_map b) k = x" using Cons.prems(1) t by (simp add: current_bucket_def)
  show ?case
  proof (cases "fst (apply_rules t rs b) = Inr () \<and> k \<in> keys rs")
    case True
    with touched_map [of t rs b k L es] Cons.prems(3) e cur
    have "bk_count x < L" "bs_map (snd (apply_rules t rs b)) k = Some (x\<lparr>bk_count := bk_count x + 1\<rparr>)"
      by auto
    with Cons.IH [of "snd (apply_rules t rs b)" "x\<lparr>bk_count := bk_count x + 1\<rparr>"] Cons.prems(2) lim(1) True e
    show ?thesis by simp
  next
    case False
    then have "bs_map (snd (apply_rules t rs b)) k = Some x"
      using untouched_map lim(2) sweep_keeps_open [OF Cons.prems(1) t] by simp
    with Cons.IH [of "snd (apply_rules t rs b)" x] Cons.prems(2) lim(1) False e
    show ?thesis by auto
  qed
qed

text \<open>What an already stored bucket may still admit before its window ends.\<close>

definition leftover :: "nat \<Rightarrow> string \<Rightarrow> buckets \<Rightarrow> nat" where
  "leftover L k b = (case bs_map b k of None \<Rightarrow> 0 | Some x \<Rightarrow> L - bk_count x)"

lemma leftover_sweep: "bs_map b' k = bs_map (sweep t b) k \<Longrightarrow> leftover L k b' \<le> leftover L k b"
  using sweep_cases [of t b k] by (auto simp: leftover_def)

lemma window_span_bound:
  assumes "\<forall>(t, rs)\<in>set es. a \<le> t \<and> t < a + window" "limits_key k L es"
  shows "admitted k b es \<le> leftover L k b + L"
  using assms
proof (induction es arbitrary: b)
  case Nil
  then show ?case by simp
next
  case (Cons e es)
  obtain t rs where e: "e = (t, rs)" by (cases e)
  let ?b = "snd (apply_rules t rs b)" and ?c = "current_bucket t (bs_map b) k"
  have lim: "limits_key k L es" "positive_limits rs" and t: "a \<le> t"
    and later: "\<forall>(t', rs)\<in>set es. a \<le> t' \<and> t' < a + window"
    using Cons.prems e by (auto simp: limits_key_def)
  show ?case
  proof (cases "fst (apply_rules t rs b) = Inr () \<and> k \<in> keys rs")
    case True
    with touched_map [of t rs b k L es] Cons.prems(2) e
    have c: "bk_count ?c < L" and m: "bs_map ?b k = Some (?c\<lparr>bk_count := bk_count ?c + 1\<rparr>)" by auto
    show ?thesis
    proof (cases "bs_map b k = Some ?c")
      case stored: True
      have "admitted k ?b es \<le> leftover L k ?b + L" using Cons.IH lim(1) later by simp
      then show ?thesis using c m stored True e by (simp add: leftover_def)
    next
      case False
      then have fresh: "?c = \<lparr>bk_count = 0, bk_reset = t + window\<rparr>"
        by (auto simp: current_bucket_def split: option.splits if_splits)
      have "admitted k ?b es \<le> L - (bk_count ?c + 1)"
        using open_window_bound [OF m, of es L] later lim(1) t fresh by fastforce
      then show ?thesis using c True e fresh by simp
    qed
  next
    case False
    then have "leftover L k ?b \<le> leftover L k b" using untouched_map lim(2) leftover_sweep by blast
    moreover have "admitted k ?b es \<le> leftover L k ?b + L" using Cons.IH lim(1) later by simp
    ultimately show ?thesis using False e by auto
  qed
qed

section \<open>Keys of the request rules\<close>

lemma kind_str_colon [simp]: "CHR '':'' \<notin> set (kind_str kind)"
  by (cases kind) auto

lemma kind_str_inj [simp]: "kind_str k = kind_str l \<longleftrightarrow> k = l"
  by (cases k; cases l) auto

lemma kind_key_inj: "kind_str k @ CHR '':'' # x = kind_str l @ CHR '':'' # y \<longleftrightarrow> k = l \<and> x = y"
proof
  assume "kind_str k @ CHR '':'' # x = kind_str l @ CHR '':'' # y"
  from run_terminator [OF this, of "\<lambda>z. z \<noteq> CHR '':''"] show "k = l \<and> x = y"
    by (metis kind_str_colon kind_str_inj)
qed simp

lemma request_rules_positive: "positive_limits (request_rules trust h kind pin)"
  by (cases kind) (auto simp: positive_limits_def request_rules_def pin_limit_def split: option.splits)

text \<open>A key determines its limit, over all kinds and requests.\<close>

lemma request_key_limit:
  assumes "r \<in> set (request_rules tr h kind pin)" "r' \<in> set (request_rules tr' h' kind' pin')"
    and "rl_key r = rl_key r'"
  shows "rl_limit r = rl_limit r'"
  using assms
  by (auto simp: request_rules_def kind_key_inj split: option.splits)

type_synonym request = "nat \<times> headers \<times> rl_kind \<times> int option"

fun request_event :: "bool \<Rightarrow> request \<Rightarrow> nat \<times> rule list" where
  "request_event trust (t, h, kind, pin) = (t, request_rules trust h kind pin)"

text \<open>Requests that carry the bucket key \<open>k\<close> and are let through, over a run of \<open>check_at\<close>.\<close>

fun let_through :: "string \<Rightarrow> limiter \<Rightarrow> request list \<Rightarrow> nat" where
  "let_through k l [] = 0"
| "let_through k l ((t, h, kind, pin) # qs) =
     (case check_at l t h kind pin of (res, l') \<Rightarrow>
        (if res = Inr () \<and> k \<in> keys (request_rules (lm_trust l) h kind pin) then 1 else 0)
          + let_through k l' qs)"

lemma check_at_eq:
  "check_at l t h kind pin = (fst (apply_rules t (request_rules (lm_trust l) h kind pin) (lm_buckets l)),
     l\<lparr>lm_buckets := snd (apply_rules t (request_rules (lm_trust l) h kind pin) (lm_buckets l))\<rparr>)"
  by (simp add: check_at_def split: prod.splits)

lemma let_through_admitted:
  "let_through k l qs = admitted k (lm_buckets l) (map (request_event (lm_trust l)) qs)"
  by (induction k l qs rule: let_through.induct) (simp_all add: check_at_eq)

lemma requests_limits_key:
  assumes "r \<in> set (request_rules trust h kind pin)"
  shows "limits_key (rl_key r) (rl_limit r) (map (request_event trust) qs)"
  using request_key_limit [OF _ assms] request_rules_positive
  by (fastforce simp: limits_key_def)

section \<open>The clock\<close>

text \<open>
  The process clock never goes back, so no stored window ends later than one window from now.
\<close>

definition clocked :: "nat \<times> limiter \<Rightarrow> request \<Rightarrow> nat \<times> limiter" where
  "clocked s q = (case (s, q) of ((T, l), (t, h, kind, pin)) \<Rightarrow>
     (max T t, snd (check_at l (max T t) h kind pin)))"

definition windows_bounded :: "nat \<times> limiter \<Rightarrow> bool" where
  "windows_bounded s \<longleftrightarrow>
     (\<forall>k x. bs_map (lm_buckets (snd s)) k = Some x \<longrightarrow> bk_reset x \<le> fst s + window)"

lemma current_bounded:
  "\<forall>k x. m k = Some x \<longrightarrow> bk_reset x \<le> t + window \<Longrightarrow> bk_reset (current_bucket t m k) \<le> t + window"
  by (auto simp: current_bucket_def split: option.splits)

lemma apply_rules_bounded:
  assumes "\<forall>k x. bs_map b k = Some x \<longrightarrow> bk_reset x \<le> t + window"
  shows "\<forall>k x. bs_map (snd (apply_rules t rs b)) k = Some x \<longrightarrow> bk_reset x \<le> t + window"
proof -
  have swept: "\<forall>k x. bs_map (sweep t b) k = Some x \<longrightarrow> bk_reset x \<le> t + window"
    using assms sweep_cases by (metis option.distinct(1))
  have cur: "\<And>k. bk_reset (current_bucket t (bs_map b) k) \<le> t + window"
    using assms by (rule current_bounded)
  show ?thesis
  proof (cases rule: apply_rules_cases [of rs t b])
    case (refused r)
    show ?thesis unfolding refused(4) using swept cur by auto
  next
    case counted
    show ?thesis unfolding counted(3) using swept cur by auto
  qed
qed

lemma clocked_bounded [machine_inv]: "windows_bounded s \<Longrightarrow> windows_bounded (clocked s q)"
proof -
  assume *: "windows_bounded s"
  obtain T l t h kind pin where s: "s = (T, l)" "q = (t, h, kind, pin)" by (metis prod.exhaust)
  from * s have "\<forall>k x. bs_map (lm_buckets l) k = Some x \<longrightarrow> bk_reset x \<le> max T t + window"
    by (fastforce simp: windows_bounded_def)
  from apply_rules_bounded [OF this] show ?thesis
    by (simp add: windows_bounded_def clocked_def check_at_eq s)
qed

interpretation rl_machine: machine clocked windows_bounded
  by unfold_locales (rule clocked_bounded)

lemma new_limiter_bounded: "windows_bounded (0, new_limiter trust)"
  by (simp add: windows_bounded_def new_limiter_def)

lemma retry_after_pos: "1 \<le> retry_after_seconds d"
  by (simp add: retry_after_seconds_def Let_def)

lemma retry_after_window: "d \<le> window \<Longrightarrow> retry_after_seconds d \<le> 60"
  by (simp add: retry_after_seconds_def Let_def window_def nanos_def)

section \<open>Properties\<close>

text \<open>
  In any minute, the requests let through that count in one bucket (the kind's global one, a
  trusted client's, a PIN's) are at most twice the bucket's limit, whatever the traffic before
  and whatever other buckets refuse.
\<close>

theorem bucket_minute_bound:
  assumes "r \<in> set (request_rules (lm_trust l) h kind pin)"
    and "\<forall>q\<in>set qs. a \<le> fst q \<and> fst q < a + 60 * 1000000000"
  shows "let_through (rl_key r) l qs \<le> 2 * rl_limit r"
proof -
  have "\<forall>(t, rs)\<in>set (map (request_event (lm_trust l)) qs). a \<le> t \<and> t < a + window"
    using assms(2) by (auto simp: window_def nanos_def)
  from window_span_bound [OF this requests_limits_key [OF assms(1)]]
  have "let_through (rl_key r) l qs \<le> leftover (rl_limit r) (rl_key r) (lm_buckets l) + rl_limit r"
    by (simp add: let_through_admitted)
  also have "\<dots> \<le> 2 * rl_limit r" by (simp add: leftover_def split: option.splits)
  finally show ?thesis .
qed

theorem bucket_minute_bound_witness:
  "let_through ''pin:global'' (new_limiter False) (replicate 300 (5, [], Pin, None)) \<le> 240"
  using bucket_minute_bound [of "\<lparr>rl_key = ''pin:global'', rl_scope = ScGlobal, rl_limit = 120\<rparr>"
      "new_limiter False" "[]" Pin None "replicate 300 (5, [], Pin, None)" 0]
  by (simp add: request_rules_def new_limiter_def trusted_def)

text \<open>
  A request is all or nothing: let through, it adds one to the count of every bucket it
  carries and to no other; refused, it leaves every bucket's open window and count as they were.
\<close>

theorem check_all_or_nothing:
  "case check_at l now h kind pin of (res, l') \<Rightarrow>
     current_bucket now (bs_map (lm_buckets l')) k =
       (if res = Inr () \<and> k \<in> keys (request_rules (lm_trust l) h kind pin)
        then (current_bucket now (bs_map (lm_buckets l)) k)
               \<lparr>bk_count := bk_count (current_bucket now (bs_map (lm_buckets l)) k) + 1\<rparr>
        else current_bucket now (bs_map (lm_buckets l)) k)"
proof -
  let ?rs = "request_rules (lm_trust l) h kind pin" and ?b = "lm_buckets l"
  have eq: "bs_map (snd (apply_rules now ?rs ?b)) k =
      (if fst (apply_rules now ?rs ?b) = Inr () \<and> k \<in> keys ?rs
       then Some ((current_bucket now (bs_map ?b) k)
              \<lparr>bk_count := bk_count (current_bucket now (bs_map ?b) k) + 1\<rparr>)
       else bs_map (sweep now ?b) k)"
    using untouched_map [of now ?rs ?b k, OF _ request_rules_positive]
    by (cases rule: apply_rules_cases [of ?rs now ?b]) auto
  have open': "now < bk_reset (current_bucket now (bs_map ?b) k)" by (rule current_open)
  have swept: "current_bucket now (bs_map (sweep now ?b)) k = current_bucket now (bs_map ?b) k"
    by (simp add: sweep_current)
  show ?thesis unfolding check_at_eq
    using eq open' swept by (simp add: current_bucket_def split: if_splits)
qed

text \<open>
  After any run of a fresh limiter under a clock that never goes back, a 429 asks the caller to
  wait between 1 and 60 seconds.
\<close>

theorem retry_after_bounds:
  assumes "(T, l) = foldl clocked (0, new_limiter trust) qs" "T \<le> now"
    and "fst (check_at l now h kind pin) = Inl (sc, secs)"
  shows "1 \<le> secs \<and> secs \<le> 60"
proof -
  have "windows_bounded (T, l)"
    using rl_machine.inv_run [OF new_limiter_bounded, of trust qs] assms(1) by simp
  then have bounded: "\<forall>k x. bs_map (lm_buckets l) k = Some x \<longrightarrow> bk_reset x \<le> now + window"
    using assms(2) by (fastforce simp: windows_bounded_def)
  have "fst (apply_rules now (request_rules (lm_trust l) h kind pin) (lm_buckets l)) = Inl (sc, secs)"
    using assms(3) by (simp add: check_at_eq)
  then obtain r :: rule where
    "(sc, secs) = reject (rl_scope r) (bk_reset (current_bucket now (bs_map (lm_buckets l)) (rl_key r))) now"
    using refused_reject by blast
  then have "secs = retry_after_seconds (bk_reset (current_bucket now (bs_map (lm_buckets l)) (rl_key r)) - now)"
    by (simp add: reject_def)
  with current_bounded [OF bounded] show ?thesis
    using retry_after_pos retry_after_window by (auto simp: le_diff_conv add.commute)
qed

text \<open>Ten requests of one client at instant 7 fill its bucket; the eleventh is refused.\<close>

definition demo_headers :: headers where
  "demo_headers = [(''cf-connecting-ip'', ''1.2.3.4'')]"

definition demo_full :: "nat \<Rightarrow> nat \<times> limiter" where
  "demo_full n = (7, \<lparr>lm_trust = True, lm_buckets =
     \<lparr>bs_map = [''pin:global'' \<mapsto> \<lparr>bk_count = n, bk_reset = 7 + window\<rparr>,
                ''pin:client:cf:1.2.3.4'' \<mapsto> \<lparr>bk_count = n, bk_reset = 7 + window\<rparr>],
      bs_last_sweep = Some 7\<rparr>\<rparr>)"

lemma demo_rules: "request_rules True demo_headers Pin None =
    [\<lparr>rl_key = ''pin:global'', rl_scope = ScGlobal, rl_limit = 120\<rparr>,
     \<lparr>rl_key = ''pin:client:cf:1.2.3.4'', rl_scope = ScTrustedClient, rl_limit = 10\<rparr>]"
  by code_simp

lemma demo_sweep_same: "sweep 7 \<lparr>bs_map = m, bs_last_sweep = Some 7\<rparr> = \<lparr>bs_map = m, bs_last_sweep = Some 7\<rparr>"
  by (simp add: sweep_def sweep_every_def nanos_def)

lemma demo_first: "clocked (0, new_limiter True) (7, demo_headers, Pin, None) = demo_full 1"
  by (simp add: clocked_def check_at_def new_limiter_def demo_rules apply_rules_def sweep_def
      current_bucket_def demo_full_def)

lemma demo_next: "n < 10 \<Longrightarrow> clocked (demo_full n) (7, demo_headers, Pin, None) = demo_full (Suc n)"
  using window_pos
  by (simp add: clocked_def check_at_def demo_full_def demo_rules apply_rules_def demo_sweep_same
      current_bucket_def Let_def fun_upd_twist)

lemma demo_run: "n < 10 \<Longrightarrow>
    foldl clocked (0, new_limiter True) (replicate (Suc n) (7, demo_headers, Pin, None)) = demo_full (Suc n)"
proof (induction n)
  case 0
  then show ?case by (simp add: demo_first)
next
  case (Suc n)
  have "replicate (Suc (Suc n)) (7::nat, demo_headers, Pin, None)
      = replicate (Suc n) (7, demo_headers, Pin, None) @ [(7, demo_headers, Pin, None :: int option)]"
    by (simp add: replicate_append_same)
  then show ?case using Suc by (simp add: demo_next del: replicate.simps)
qed

theorem retry_after_bounds_witness:
  "fst (check_at (snd (foldl clocked (0, new_limiter True) (replicate 10 (7, demo_headers, Pin, None))))
      9 demo_headers Pin None) = Inl (ScTrustedClient, 60) \<and> (1::nat) \<le> 60"
proof -
  have run: "(7, snd (demo_full 10)) = foldl clocked (0, new_limiter True) (replicate 10 (7, demo_headers, Pin, None))"
    using demo_run [of 9] by (simp add: demo_full_def)
  have refused: "fst (check_at (snd (demo_full 10)) 9 demo_headers Pin None) = Inl (ScTrustedClient, 60)"
    by (simp add: demo_full_def check_at_def demo_rules apply_rules_def sweep_def sweep_every_def
        current_bucket_def window_def nanos_def Let_def reject_def retry_after_seconds_def)
  show ?thesis using retry_after_bounds [OF run _ refused] refused run [symmetric] by simp
qed

end
