(* ===== verification/Slots.thy ===== *)
theory Slots
  imports Http
begin

text \<open>
  \<open>crates/transcoder/src/concurrency.rs\<close>: the transcoder's two atomic counters and the
  compare-and-swap loops that claim them.  Any number of threads run \<open>try_acquire\<close> and drop
  permits at once; a step is one atomic operation of one thread, in any order, and a weak
  compare-and-swap may fail even when it could succeed.
\<close>

section \<open>Caps\<close>

record caps =
  max_total :: nat
  max_cpu :: nat

definition default_caps :: caps where
  "default_caps = \<lparr>max_total = 4, max_cpu = 1\<rparr>"

text \<open>\<open>s.trim().parse::<usize>().ok()\<close> on the bytes of an ASCII value.\<close>

definition parse_usize :: "string \<Rightarrow> nat option" where
  "parse_usize s =
     (let d = (case s of c # r \<Rightarrow> if c = CHR ''+'' then r else s | [] \<Rightarrow> s)
      in if d \<noteq> [] \<and> list_all is_digit d \<and> dec_val d < 2 ^ 64 then Some (dec_val d) else None)"

definition env_cap :: "string option \<Rightarrow> nat \<Rightarrow> nat" where
  "env_cap v d =
     (case Option.bind v (\<lambda>s. parse_usize (trim_by rust_space s)) of
        None \<Rightarrow> d
      | Some n \<Rightarrow> if n > 0 then n else d)"

definition caps_from_env :: "(string \<Rightarrow> string option) \<Rightarrow> caps" where
  "caps_from_env env =
     (let tot = env_cap (env ''MAX_CONCURRENT_TRANSCODES'') 4;
          cpu = env_cap (env ''MAX_CONCURRENT_CPU_TRANSCODES'') 1
      in \<lparr>max_total = tot, max_cpu = min cpu tot\<rparr>)"

section \<open>Threads\<close>

text \<open>
  Where a thread is: outside (\<open>Out\<close>, with the answer of its last start if that was refused),
  in the loop on the CPU counter with the value it last read, before and in the loop on the
  global counter, rolling back its CPU reservation, holding a permit, or half way through
  dropping one.  The flag is \<open>is_cpu\<close>.
\<close>

datatype busy = Busy (cpu_cap: bool)

datatype pc =
  Out "busy option"
| CpuLoop nat
| TotalLoad bool
| TotalLoop bool nat
| RollBack
| Holding bool
| DropCpu

record slots =
  sl_total :: nat
  sl_cpu :: nat
  sl_pc :: "nat \<Rightarrow> pc"

definition new_slots :: slots where
  "new_slots = \<lparr>sl_total = 0, sl_cpu = 0, sl_pc = (\<lambda>_. Out None)\<rparr>"

definition goto :: "nat \<Rightarrow> pc \<Rightarrow> slots \<Rightarrow> slots" where
  "goto i p s = s\<lparr>sl_pc := (sl_pc s)(i := p)\<rparr>"

inductive slot_step :: "caps \<Rightarrow> slots \<Rightarrow> slots \<Rightarrow> bool" for C where
  start_cpu: "sl_pc s i = Out a \<Longrightarrow> slot_step C s (goto i (CpuLoop (sl_cpu s)) s)"
| start_hw: "sl_pc s i = Out a \<Longrightarrow> slot_step C s (goto i (TotalLoad False) s)"
| cpu_full: "sl_pc s i = CpuLoop cur \<Longrightarrow> cur \<ge> max_cpu C \<Longrightarrow>
    slot_step C s (goto i (Out (Some (Busy True))) s)"
| cpu_swap: "sl_pc s i = CpuLoop cur \<Longrightarrow> cur < max_cpu C \<Longrightarrow> sl_cpu s = cur \<Longrightarrow>
    slot_step C s (goto i (TotalLoad True) (s\<lparr>sl_cpu := cur + 1\<rparr>))"
| cpu_retry: "sl_pc s i = CpuLoop cur \<Longrightarrow> cur < max_cpu C \<Longrightarrow>
    slot_step C s (goto i (CpuLoop (sl_cpu s)) s)"
| total_load: "sl_pc s i = TotalLoad b \<Longrightarrow> slot_step C s (goto i (TotalLoop b (sl_total s)) s)"
| total_full_cpu: "sl_pc s i = TotalLoop True cur \<Longrightarrow> cur \<ge> max_total C \<Longrightarrow>
    slot_step C s (goto i RollBack s)"
| total_full_hw: "sl_pc s i = TotalLoop False cur \<Longrightarrow> cur \<ge> max_total C \<Longrightarrow>
    slot_step C s (goto i (Out (Some (Busy False))) s)"
| roll_back: "sl_pc s i = RollBack \<Longrightarrow>
    slot_step C s (goto i (Out (Some (Busy False))) (s\<lparr>sl_cpu := sl_cpu s - 1\<rparr>))"
| total_swap: "sl_pc s i = TotalLoop b cur \<Longrightarrow> cur < max_total C \<Longrightarrow> sl_total s = cur \<Longrightarrow>
    slot_step C s (goto i (Holding b) (s\<lparr>sl_total := cur + 1\<rparr>))"
| total_retry: "sl_pc s i = TotalLoop b cur \<Longrightarrow> cur < max_total C \<Longrightarrow>
    slot_step C s (goto i (TotalLoop b (sl_total s)) s)"
| drop_total: "sl_pc s i = Holding b \<Longrightarrow>
    slot_step C s (goto i (if b then DropCpu else Out None) (s\<lparr>sl_total := sl_total s - 1\<rparr>))"
| drop_cpu: "sl_pc s i = DropCpu \<Longrightarrow>
    slot_step C s (goto i (Out None) (s\<lparr>sl_cpu := sl_cpu s - 1\<rparr>))"

inductive slots_reachable :: "caps \<Rightarrow> slots \<Rightarrow> bool" for C where
  slots_init: "slots_reachable C new_slots"
| slots_next: "slots_reachable C s \<Longrightarrow> slot_step C s t \<Longrightarrow> slots_reachable C t"

inductive_cases slot_stepE: "slot_step C s t"

section \<open>Invariant\<close>

text \<open>The program points that own a unit of each counter.\<close>

fun owns_total :: "pc \<Rightarrow> bool" where
  "owns_total (Holding b) = True"
| "owns_total _ = False"

fun owns_cpu :: "pc \<Rightarrow> bool" where
  "owns_cpu (TotalLoad b) = b"
| "owns_cpu (TotalLoop b n) = b"
| "owns_cpu RollBack = True"
| "owns_cpu (Holding b) = b"
| "owns_cpu DropCpu = True"
| "owns_cpu _ = False"

fun inside :: "pc \<Rightarrow> bool" where
  "inside (Out a) = False"
| "inside _ = True"

definition owners :: "(pc \<Rightarrow> bool) \<Rightarrow> slots \<Rightarrow> nat set" where
  "owners P s = {i. P (sl_pc s i)}"

definition slots_inv :: "caps \<Rightarrow> slots \<Rightarrow> bool" where
  "slots_inv C s \<longleftrightarrow> finite (owners inside s)
     \<and> sl_total s = card (owners owns_total s) \<and> sl_total s \<le> max_total C
     \<and> sl_cpu s = card (owners owns_cpu s) \<and> sl_cpu s \<le> max_cpu C"

lemma owns_inside: "owns_total p \<Longrightarrow> inside p" "owns_cpu p \<Longrightarrow> inside p"
  by (cases p; simp)+

lemma finite_owners:
  assumes "finite (owners inside s)"
  shows "finite (owners owns_total s)" "finite (owners owns_cpu s)"
  by (rule finite_subset [OF _ assms], auto simp: owners_def dest: owns_inside)+

lemma owners_goto: "owners P (goto i p s) = (if P p then insert i (owners P s) else owners P s - {i})"
  by (auto simp: owners_def goto_def)

lemma goto_fields [simp]: "sl_total (goto i p s) = sl_total s" "sl_cpu (goto i p s) = sl_cpu s"
  by (simp_all add: goto_def)

lemma owners_fields [simp]: "owners P (s\<lparr>sl_cpu := n\<rparr>) = owners P s" "owners P (s\<lparr>sl_total := m\<rparr>) = owners P s"
  by (simp_all add: owners_def)

lemma in_owners: "i \<in> owners P s \<longleftrightarrow> P (sl_pc s i)"
  by (simp add: owners_def)

lemma owner_counted: "finite A \<Longrightarrow> i \<in> A \<Longrightarrow> 0 < card A"
  by (auto simp: card_gt_0_iff)

lemmas slots_inv_simps = slots_inv_def owners_goto in_owners card_insert_if card_Diff_singleton_if
  finite_owners owner_counted

lemma slot_step_inv: "slot_step C s t \<Longrightarrow> slots_inv C s \<Longrightarrow> slots_inv C t"
  by (induction rule: slot_step.induct) (auto simp: slots_inv_simps)

lemma new_slots_inv: "slots_inv C new_slots"
  by (simp add: slots_inv_def new_slots_def owners_def)

lemma reachable_inv: "slots_reachable C s \<Longrightarrow> slots_inv C s"
  by (induction rule: slots_reachable.induct) (simp_all add: new_slots_inv slot_step_inv)

section \<open>One start on its own\<close>

text \<open>What \<open>try_acquire\<close> answers when no other thread moves.\<close>

definition seq_try_acquire :: "caps \<Rightarrow> bool \<Rightarrow> nat \<Rightarrow> nat \<Rightarrow> busy + nat \<times> nat" where
  "seq_try_acquire C is_cpu tot cpu =
     (if is_cpu \<and> cpu \<ge> max_cpu C then Inl (Busy True)
      else if tot \<ge> max_total C then Inl (Busy False)
      else Inr (tot + 1, if is_cpu then cpu + 1 else cpu))"

lemma goto_goto [simp]: "goto i p (goto i q s) = goto i p s"
  by (simp add: goto_def)

lemma goto_swap [simp]:
  "(goto i p s)\<lparr>sl_cpu := n\<rparr> = goto i p (s\<lparr>sl_cpu := n\<rparr>)"
  "(goto i p s)\<lparr>sl_total := n\<rparr> = goto i p (s\<lparr>sl_total := n\<rparr>)"
  by (simp_all add: goto_def)

lemma slots_update_commute: "s\<lparr>sl_cpu := c, sl_total := t\<rparr> = s\<lparr>sl_total := t, sl_cpu := c\<rparr>"
  by simp

lemma goto_pc [simp]: "sl_pc (goto i p s) i = p"
  by (simp add: goto_def)

lemma total_alone:
  assumes "sl_pc s i = TotalLoad b"
  shows "(slot_step C)\<^sup>*\<^sup>* s
    (if sl_total s < max_total C then goto i (Holding b) (s\<lparr>sl_total := sl_total s + 1\<rparr>)
     else if b then goto i (Out (Some (Busy False))) (s\<lparr>sl_cpu := sl_cpu s - 1\<rparr>)
     else goto i (Out (Some (Busy False))) s)"
proof -
  let ?l = "goto i (TotalLoop b (sl_total s)) s"
  have load: "slot_step C s ?l" by (rule total_load [OF assms])
  show ?thesis
  proof (cases "sl_total s < max_total C")
    case True
    then have "slot_step C ?l (goto i (Holding b) (s\<lparr>sl_total := sl_total s + 1\<rparr>))"
      using total_swap [of ?l i b "sl_total s" C] by simp
    with load True show ?thesis by (simp add: converse_rtranclp_into_rtranclp)
  next
    case full: False
    show ?thesis
    proof (cases b)
      case True
      then have "slot_step C ?l (goto i RollBack s)"
        using total_full_cpu [of ?l i "sl_total s" C] full by simp
      moreover have "slot_step C (goto i RollBack s) (goto i (Out (Some (Busy False))) (s\<lparr>sl_cpu := sl_cpu s - 1\<rparr>))"
        using roll_back [of "goto i RollBack s" i C] by simp
      ultimately show ?thesis using load full True by (simp add: converse_rtranclp_into_rtranclp)
    next
      case False
      then have "slot_step C ?l (goto i (Out (Some (Busy False))) s)"
        using total_full_hw [of ?l i "sl_total s" C] full by simp
      with load full False show ?thesis by (simp add: converse_rtranclp_into_rtranclp)
    qed
  qed
qed

lemma cpu_alone:
  assumes "sl_pc s i = Out a" "sl_cpu s < max_cpu C"
  shows "(slot_step C)\<^sup>*\<^sup>* s (goto i (TotalLoad True) (s\<lparr>sl_cpu := sl_cpu s + 1\<rparr>))"
proof -
  let ?l = "goto i (CpuLoop (sl_cpu s)) s"
  have "slot_step C ?l (goto i (TotalLoad True) (s\<lparr>sl_cpu := sl_cpu s + 1\<rparr>))"
    using cpu_swap [of ?l i "sl_cpu s" C] assms(2) by simp
  with start_cpu [OF assms(1), of C] show ?thesis by (simp add: converse_rtranclp_into_rtranclp)
qed

section \<open>Properties\<close>

text \<open>
  C2. However the threads interleave, each counter equals the number of threads that own a unit
  of it, and neither cap is ever exceeded: at most \<open>max_total\<close> permits are held and at most
  \<open>max_cpu\<close> CPU reservations exist.
\<close>

theorem slots_never_oversubscribed:
  assumes "slots_reachable C s"
  shows "sl_total s = card (owners owns_total s) \<and> card (owners owns_total s) \<le> max_total C
       \<and> sl_cpu s = card (owners owns_cpu s) \<and> card (owners owns_cpu s) \<le> max_cpu C"
  using reachable_inv [OF assms] by (auto simp: slots_inv_def)

text \<open>A run in which thread 3 holds a hardware permit.\<close>

definition demo_slots :: slots where
  "demo_slots = goto 3 (Holding False) (new_slots\<lparr>sl_total := 1\<rparr>)"

lemma demo_slots_reachable: "slots_reachable \<lparr>max_total = 1, max_cpu = 1\<rparr> demo_slots"
proof -
  let ?C = "\<lparr>max_total = 1, max_cpu = 1\<rparr>" and ?s = "goto 3 (TotalLoad False) new_slots"
  have "slot_step ?C new_slots ?s" by (rule start_hw) (simp add: new_slots_def)
  then have "slots_reachable ?C ?s" by (rule slots_next [OF slots_init])
  moreover have "(slot_step ?C)\<^sup>*\<^sup>* ?s demo_slots"
    using total_alone [of ?s 3 False ?C] by (simp add: demo_slots_def new_slots_def)
  ultimately show ?thesis
    by (rotate_tac) (induction rule: rtranclp_induct, auto intro: slots_next)
qed

theorem slots_never_oversubscribed_witness:
  "card (owners owns_total demo_slots) \<le> 1 \<and> 3 \<in> owners owns_total demo_slots"
  using slots_never_oversubscribed [OF demo_slots_reachable]
  by (simp add: owners_def demo_slots_def)

text \<open>
  No slot leaks and no counter underflows: a thread about to subtract finds a positive
  counter, and once every thread is outside both counters are zero again.
\<close>

theorem slots_never_leak:
  assumes "slots_reachable C s"
  shows "(\<forall>i. owns_total (sl_pc s i) \<longrightarrow> 0 < sl_total s)
       \<and> (\<forall>i. owns_cpu (sl_pc s i) \<longrightarrow> 0 < sl_cpu s)
       \<and> ((\<forall>i. \<not> inside (sl_pc s i)) \<longrightarrow> sl_total s = 0 \<and> sl_cpu s = 0)"
proof -
  have inv: "slots_inv C s" by (rule reachable_inv [OF assms])
  then have fin: "finite (owners owns_total s)" "finite (owners owns_cpu s)"
    using finite_owners by (auto simp: slots_inv_def)
  have empty: "(\<forall>i. \<not> inside (sl_pc s i)) \<Longrightarrow> owners owns_total s = {} \<and> owners owns_cpu s = {}"
    using owns_inside by (auto simp: owners_def)
  show ?thesis
    using inv fin empty owner_counted [OF fin(1)] owner_counted [OF fin(2)]
    by (auto simp: slots_inv_def in_owners)
qed

theorem slots_never_leak_witness: "0 < sl_total demo_slots"
  using slots_never_leak [OF demo_slots_reachable]
  by (auto simp: demo_slots_def)

text \<open>
  A start that no other thread disturbs answers as the sequential reading of the code: refused
  by the CPU cap first, then by the global cap with the CPU reservation rolled back, else it holds
  a permit and both counters it charges are one higher.
\<close>

theorem undisturbed_start:
  assumes "sl_pc s i = Out a"
  shows "case seq_try_acquire C is_cpu (sl_total s) (sl_cpu s) of
      Inl e \<Rightarrow> (slot_step C)\<^sup>*\<^sup>* s (goto i (Out (Some e)) s)
    | Inr (t, c) \<Rightarrow> (slot_step C)\<^sup>*\<^sup>* s (goto i (Holding is_cpu) (s\<lparr>sl_total := t, sl_cpu := c\<rparr>))"
proof (cases is_cpu)
  case False
  let ?s = "goto i (TotalLoad False) s"
  have "(slot_step C)\<^sup>*\<^sup>* s ?s" using start_hw [OF assms] by blast
  with total_alone [of ?s i False C] False show ?thesis
    by (auto simp: seq_try_acquire_def split: if_splits)
next
  case True
  show ?thesis
  proof (cases "sl_cpu s < max_cpu C")
    case False
    let ?l = "goto i (CpuLoop (sl_cpu s)) s"
    have "slot_step C s ?l" by (rule start_cpu [OF assms])
    moreover have "slot_step C ?l (goto i (Out (Some (Busy True))) s)"
      using cpu_full [of ?l i "sl_cpu s" C] False by simp
    ultimately show ?thesis using True False
      by (simp add: seq_try_acquire_def converse_rtranclp_into_rtranclp)
  next
    case room: True
    let ?s = "goto i (TotalLoad True) (s\<lparr>sl_cpu := sl_cpu s + 1\<rparr>)"
    have "(slot_step C)\<^sup>*\<^sup>* s ?s" by (rule cpu_alone [OF assms room])
    with total_alone [of ?s i True C] True room show ?thesis
      by (auto simp: seq_try_acquire_def slots_update_commute split: if_splits)
  qed
qed

theorem undisturbed_start_witness:
  "(slot_step \<lparr>max_total = 1, max_cpu = 1\<rparr>)\<^sup>*\<^sup>* demo_slots (goto 0 (Out (Some (Busy False))) demo_slots)"
  using undisturbed_start [of demo_slots 0 None "\<lparr>max_total = 1, max_cpu = 1\<rparr>" True]
  by (simp add: seq_try_acquire_def demo_slots_def new_slots_def goto_def)

text \<open>Whatever the environment says, both caps are positive and the CPU cap fits the global one.\<close>

theorem caps_from_env_sane:
  "0 < max_cpu (caps_from_env env) \<and> max_cpu (caps_from_env env) \<le> max_total (caps_from_env env)"
  by (auto simp: caps_from_env_def env_cap_def Let_def split: option.splits)

end
