(* ===== verification/Tracker.thy ===== *)
theory Tracker
  imports Prelude "HOL-Library.Multiset"
begin

text \<open>
  \<open>crates/iptv/src/concurrency.rs\<close>: one slot per playing stream, a household cap and a kind cap
  shared by every live upstream connection.  The \<open>HashMap\<close> of sessions is a map in some iteration
  order; the clock reading (epoch milliseconds) is an argument of each operation.
\<close>

section \<open>Model\<close>

definition remux_idle_ms :: nat where "remux_idle_ms = 90000"

datatype kind = KLive | KVod | KSeries | KCatchup | KRemux

definition is_live :: "kind \<Rightarrow> bool" where
  "is_live k \<longleftrightarrow> k = KLive \<or> k = KRemux"

record session =
  se_id :: string
  se_sub :: string
  se_kind :: kind
  se_resource :: string
  se_title :: "string option"
  se_ip :: "string option"
  se_started :: nat
  se_seen :: nat

record acquire =
  aq_sub :: string
  aq_session :: string
  aq_kind :: kind
  aq_resource :: string
  aq_ip :: "string option"
  aq_title :: "string option"
  aq_kind_cap :: "nat option"
  aq_replace_live :: bool

record limit =
  lt_limit :: nat
  lt_current :: nat
  lt_sessions :: "session list"

record tracker =
  tk_cap :: nat
  tk_idle :: nat
  tk_sessions :: "(string, session) imap"

definition new_tracker :: "nat \<Rightarrow> nat \<Rightarrow> tracker" where
  "new_tracker cap idle = \<lparr>tk_cap = cap, tk_idle = idle, tk_sessions = []\<rparr>"

definition sweep_locked :: "tracker \<Rightarrow> nat \<Rightarrow> tracker" where
  "sweep_locked tk now =
     tk\<lparr>tk_sessions := filter (\<lambda>(_, s).
        let idle = (if se_kind s = KRemux then max (tk_idle tk) remux_idle_ms else tk_idle tk)
        in now - se_seen s \<le> idle) (tk_sessions tk)\<rparr>"

text \<open>Newest first; the sort is stable.\<close>

definition sorted_sessions :: "(string, session) imap \<Rightarrow> session list" where
  "sorted_sessions ss = sort_key (\<lambda>s. - int (se_started s)) (map snd ss)"

definition list_sessions :: "tracker \<Rightarrow> nat \<Rightarrow> session list \<times> tracker" where
  "list_sessions tk now =
     (let tk' = sweep_locked tk now in (sorted_sessions (tk_sessions tk'), tk'))"

definition tracker_size :: "tracker \<Rightarrow> nat" where
  "tracker_size tk = length (tk_sessions tk)"

definition replaces :: "acquire \<Rightarrow> session \<Rightarrow> bool" where
  "replaces a s \<longleftrightarrow> se_sub s = aq_sub a
     \<and> ((se_kind s = aq_kind a \<and> se_resource s = aq_resource a)
        \<or> (aq_replace_live a \<and> is_live (aq_kind a) \<and> is_live (se_kind s)))"

definition same_budget :: "acquire \<Rightarrow> session \<Rightarrow> bool" where
  "same_budget a s \<longleftrightarrow> (if is_live (aq_kind a) then is_live (se_kind s) else se_kind s = aq_kind a)"

definition new_session :: "acquire \<Rightarrow> nat \<Rightarrow> session" where
  "new_session a now = \<lparr>se_id = aq_session a, se_sub = aq_sub a, se_kind = aq_kind a,
     se_resource = aq_resource a, se_title = aq_title a, se_ip = aq_ip a,
     se_started = now, se_seen = now\<rparr>"

definition try_acquire :: "tracker \<Rightarrow> nat \<Rightarrow> acquire \<Rightarrow> (limit + unit) \<times> tracker" where
  "try_acquire tk0 now a =
     (let tk = sweep_locked tk0 now; ss = tk_sessions tk in
      case im_get ss (aq_session a) of
        Some s \<Rightarrow> (Inr (), tk\<lparr>tk_sessions := im_insert (aq_session a) (s\<lparr>se_seen := now\<rparr>) ss\<rparr>)
      | None \<Rightarrow>
          let replaced = map se_id (filter (replaces a) (map snd ss));
              remaining = filter (\<lambda>s. se_id s \<notin> set replaced) (map snd ss);
              kind_count = length (filter (same_budget a) remaining);
              kind_full = (case aq_kind_cap a of None \<Rightarrow> None
                           | Some cap \<Rightarrow> if kind_count \<ge> cap then Some cap else None)
          in case kind_full of
               Some cap \<Rightarrow> (Inl \<lparr>lt_limit = cap, lt_current = kind_count,
                               lt_sessions = sorted_sessions ss\<rparr>, tk)
             | None \<Rightarrow>
                 if length remaining \<ge> tk_cap tk
                 then (Inl \<lparr>lt_limit = tk_cap tk, lt_current = length remaining,
                            lt_sessions = sorted_sessions ss\<rparr>, tk)
                 else (Inr (), tk\<lparr>tk_sessions :=
                        im_insert (aq_session a) (new_session a now)
                          (fold im_remove replaced ss)\<rparr>))"

definition heartbeat :: "tracker \<Rightarrow> nat \<Rightarrow> string \<Rightarrow> tracker" where
  "heartbeat tk now sid =
     (case im_get (tk_sessions tk) sid of
        None \<Rightarrow> tk
      | Some s \<Rightarrow> tk\<lparr>tk_sessions := im_insert sid (s\<lparr>se_seen := now\<rparr>) (tk_sessions tk)\<rparr>)"

text \<open>\<open>values().find(...)\<close>: the first matching entry in iteration order.\<close>

definition matching :: "string \<Rightarrow> kind \<Rightarrow> string \<Rightarrow> session \<Rightarrow> bool" where
  "matching sub k rid s \<longleftrightarrow> se_sub s = sub \<and> se_kind s = k \<and> se_resource s = rid"

definition find_entry :: "(string, session) imap \<Rightarrow> string \<Rightarrow> kind \<Rightarrow> string \<Rightarrow> (string \<times> session) option" where
  "find_entry ss sub k rid = find (\<lambda>(_, s). matching sub k rid s) ss"

definition find_session :: "tracker \<Rightarrow> nat \<Rightarrow> string \<Rightarrow> kind \<Rightarrow> string \<Rightarrow> session option \<times> tracker" where
  "find_session tk now sub k rid =
     (let tk' = sweep_locked tk now in (map_option snd (find_entry (tk_sessions tk') sub k rid), tk'))"

definition heartbeat_by_resource :: "tracker \<Rightarrow> nat \<Rightarrow> string \<Rightarrow> kind \<Rightarrow> string \<Rightarrow> bool \<times> tracker" where
  "heartbeat_by_resource tk now sub k rid =
     (case find_entry (tk_sessions tk) sub k rid of
        Some (i, s) \<Rightarrow> (True, tk\<lparr>tk_sessions := im_insert i (s\<lparr>se_seen := now\<rparr>) (tk_sessions tk)\<rparr>)
      | None \<Rightarrow> (False, tk))"

definition release :: "tracker \<Rightarrow> string \<Rightarrow> tracker" where
  "release tk sid = tk\<lparr>tk_sessions := im_remove sid (tk_sessions tk)\<rparr>"

definition release_by_resource :: "tracker \<Rightarrow> string \<Rightarrow> kind \<Rightarrow> string \<Rightarrow> bool \<times> tracker" where
  "release_by_resource tk sub k rid =
     (case find_entry (tk_sessions tk) sub k rid of
        None \<Rightarrow> (False, tk)
      | Some (_, s) \<Rightarrow>
          (im_get (tk_sessions tk) (se_id s) \<noteq> None,
           tk\<lparr>tk_sessions := im_remove (se_id s) (tk_sessions tk)\<rparr>))"

definition has_session :: "tracker \<Rightarrow> nat \<Rightarrow> string \<Rightarrow> bool \<times> tracker" where
  "has_session tk now sid =
     (let tk' = sweep_locked tk now in (im_get (tk_sessions tk') sid \<noteq> None, tk'))"

definition live_count :: "tracker \<Rightarrow> nat \<Rightarrow> nat \<times> tracker" where
  "live_count tk now =
     (let tk' = sweep_locked tk now
      in (length (filter (\<lambda>s. se_kind s = KLive) (map snd (tk_sessions tk'))), tk'))"

text \<open>The operations a client may call, as one step function over the state.\<close>

datatype tracker_op =
  OpAcquire acquire
| OpSweep
| OpHeartbeat string
| OpHeartbeatResource string kind string
| OpRelease string
| OpReleaseResource string kind string

fun tracker_step :: "tracker \<Rightarrow> nat \<times> tracker_op \<Rightarrow> tracker" where
  "tracker_step tk (now, OpAcquire a) = snd (try_acquire tk now a)"
| "tracker_step tk (now, OpSweep) = sweep_locked tk now"
| "tracker_step tk (now, OpHeartbeat i) = heartbeat tk now i"
| "tracker_step tk (now, OpHeartbeatResource sub k rid) = snd (heartbeat_by_resource tk now sub k rid)"
| "tracker_step tk (now, OpRelease i) = release tk i"
| "tracker_step tk (now, OpReleaseResource sub k rid) = snd (release_by_resource tk sub k rid)"

section \<open>The invariant\<close>

text \<open>
  Keys are distinct and are their sessions' ids, no two sessions share a (sub, kind, resource),
  and the household cap holds.
\<close>

definition tuple_of :: "session \<Rightarrow> string \<times> kind \<times> string" where
  "tuple_of s = (se_sub s, se_kind s, se_resource s)"

definition sessions_ok :: "(string, session) imap \<Rightarrow> bool" where
  "sessions_ok ss \<longleftrightarrow> im_wf ss \<and> (\<forall>(i, s)\<in>set ss. se_id s = i) \<and> distinct (map (tuple_of \<circ> snd) ss)"

definition tracker_inv :: "tracker \<Rightarrow> bool" where
  "tracker_inv tk \<longleftrightarrow> sessions_ok (tk_sessions tk) \<and> length (tk_sessions tk) \<le> tk_cap tk"

lemma sessions_ok_filter: "sessions_ok ss \<Longrightarrow> sessions_ok (filter P ss)"
  by (auto simp: sessions_ok_def distinct_map_filter)

lemma fold_remove: "fold im_remove ks ss = filter (\<lambda>(i, _). i \<notin> set ks) ss"
proof (induction ks arbitrary: ss)
  case Nil
  then show ?case by (simp add: case_prod_unfold)
next
  case (Cons k ks)
  have "im_remove k ss = filter (\<lambda>(i, _). i \<noteq> k) ss"
    by (induction ss) auto
  then show ?case by (simp add: Cons.IH filter_filter case_prod_unfold conj_commute)
qed

text \<open>Touching an entry keeps the list of (key, tuple) pairs, hence everything but \<open>last_seen\<close>.\<close>

lemma map_im_insert_same:
  "im_wf ss \<Longrightarrow> im_get ss i = Some s \<Longrightarrow> f (i, s') = f (i, s) \<Longrightarrow> map f (im_insert i s' ss) = map f ss"
  by (induction ss) (auto dest: map_of_SomeD simp: image_iff split: if_splits)

lemma sessions_ok_alt:
  "sessions_ok ss \<longleftrightarrow> distinct (map fst ss) \<and> list_all (\<lambda>(i, j). i = j) (map (\<lambda>(i, s). (i, se_id s)) ss)
     \<and> distinct (map (tuple_of \<circ> snd) ss)"
  by (auto simp: sessions_ok_def list_all_iff)

lemma touch_ok:
  assumes "sessions_ok ss" "im_get ss i = Some s"
  shows "sessions_ok (im_insert i (s\<lparr>se_seen := now\<rparr>) ss)"
    and "length (im_insert i (s\<lparr>se_seen := now\<rparr>) ss) = length ss"
proof -
  have wf: "im_wf ss" using assms(1) by (simp add: sessions_ok_def)
  note same = map_im_insert_same [OF wf assms(2), where s' = "s\<lparr>se_seen := now\<rparr>"]
  have "map fst (im_insert i (s\<lparr>se_seen := now\<rparr>) ss) = map fst ss" by (rule same) simp
  moreover have "map (\<lambda>(i, s). (i, se_id s)) (im_insert i (s\<lparr>se_seen := now\<rparr>) ss) = map (\<lambda>(i, s). (i, se_id s)) ss"
    by (rule same) simp
  moreover have "map (tuple_of \<circ> snd) (im_insert i (s\<lparr>se_seen := now\<rparr>) ss) = map (tuple_of \<circ> snd) ss"
    by (rule same) (simp add: tuple_of_def)
  ultimately show "sessions_ok (im_insert i (s\<lparr>se_seen := now\<rparr>) ss)"
    and "length (im_insert i (s\<lparr>se_seen := now\<rparr>) ss) = length ss"
    using assms(1) unfolding sessions_ok_alt by (simp_all, metis length_map)
qed

section \<open>Acquiring\<close>

definition survivors :: "acquire \<Rightarrow> (string, session) imap \<Rightarrow> (string, session) imap" where
  "survivors a ss = filter (\<lambda>(_, s). \<not> replaces a s) ss"

lemma im_insert_fresh: "k \<notin> fst ` set m \<Longrightarrow> im_insert k v m = m @ [(k, v)]"
  by (induction m) auto

lemma sessions_ok_unique: "sessions_ok ss \<Longrightarrow> (i, s) \<in> set ss \<Longrightarrow> (i, t) \<in> set ss \<Longrightarrow> s = t"
  by (auto simp: sessions_ok_def dest: eq_key_imp_eq_value)

lemma sessions_ok_id: "sessions_ok ss \<Longrightarrow> (i, s) \<in> set ss \<Longrightarrow> se_id s = i"
  by (auto simp: sessions_ok_def)

lemma replaced_id:
  assumes "sessions_ok ss" "(i, s) \<in> set ss"
  shows "i \<in> set (map se_id (filter (replaces a) (map snd ss))) \<longleftrightarrow> replaces a s"
proof
  assume "i \<in> set (map se_id (filter (replaces a) (map snd ss)))"
  then obtain j t where "(j, t) \<in> set ss" "replaces a t" "i = se_id t" by auto
  then show "replaces a s" using assms sessions_ok_id sessions_ok_unique by metis
next
  assume "replaces a s"
  then show "i \<in> set (map se_id (filter (replaces a) (map snd ss)))"
    using assms sessions_ok_id by force
qed

lemma kept_entries:
  "sessions_ok ss \<Longrightarrow>
     filter (\<lambda>(i, _). i \<notin> set (map se_id (filter (replaces a) (map snd ss)))) ss = survivors a ss"
  unfolding survivors_def by (rule filter_cong [OF refl]) (use replaced_id in fastforce)

lemma kept_sessions:
  assumes "sessions_ok ss"
  shows "filter (\<lambda>s. se_id s \<notin> set (map se_id (filter (replaces a) (map snd ss)))) (map snd ss)
           = map snd (survivors a ss)"
proof -
  let ?R = "set (map se_id (filter (replaces a) (map snd ss)))"
  have "filter (\<lambda>s. se_id s \<notin> ?R) (map snd ss) = map snd (filter (\<lambda>(i, s). se_id s \<notin> ?R) ss)"
    by (simp add: filter_map comp_def case_prod_unfold)
  also have "filter (\<lambda>(i, s). se_id s \<notin> ?R) ss = filter (\<lambda>(i, _). i \<notin> ?R) ss"
    by (rule filter_cong [OF refl]) (use sessions_ok_id [OF assms] in auto)
  finally show ?thesis using kept_entries [OF assms] by simp
qed

text \<open>What \<open>try_acquire\<close> does to a well-formed map, with the replaced ids resolved.\<close>

definition admit :: "nat \<Rightarrow> acquire \<Rightarrow> nat \<Rightarrow> (string, session) imap
    \<Rightarrow> (limit + unit) \<times> (string, session) imap" where
  "admit cap a now ss =
     (case im_get ss (aq_session a) of
        Some s \<Rightarrow> (Inr (), im_insert (aq_session a) (s\<lparr>se_seen := now\<rparr>) ss)
      | None \<Rightarrow>
          let kept = survivors a ss;
              kind_count = length (filter (same_budget a) (map snd kept))
          in case (case aq_kind_cap a of None \<Rightarrow> None
                   | Some c \<Rightarrow> if kind_count \<ge> c then Some c else None) of
               Some c \<Rightarrow> (Inl \<lparr>lt_limit = c, lt_current = kind_count, lt_sessions = sorted_sessions ss\<rparr>, ss)
             | None \<Rightarrow>
                 if length kept \<ge> cap
                 then (Inl \<lparr>lt_limit = cap, lt_current = length kept, lt_sessions = sorted_sessions ss\<rparr>, ss)
                 else (Inr (), kept @ [(aq_session a, new_session a now)]))"

lemma sweep_fields [simp]:
  "tk_cap (sweep_locked tk now) = tk_cap tk" "tk_idle (sweep_locked tk now) = tk_idle tk"
  by (simp_all add: sweep_locked_def)

lemma sweep_ok: "sessions_ok (tk_sessions tk) \<Longrightarrow> sessions_ok (tk_sessions (sweep_locked tk now))"
  by (simp add: sweep_locked_def sessions_ok_filter)

lemma sweep_length: "length (tk_sessions (sweep_locked tk now)) \<le> length (tk_sessions tk)"
  by (simp add: sweep_locked_def)

lemma survivors_fresh: "im_get ss k = None \<Longrightarrow> k \<notin> fst ` set (survivors a ss)"
  by (auto simp: survivors_def map_of_eq_None_iff image_iff)

lemma try_acquire_admit:
  assumes "sessions_ok (tk_sessions tk)"
  shows "fst (try_acquire tk now a) = fst (admit (tk_cap tk) a now (tk_sessions (sweep_locked tk now)))"
    and "snd (try_acquire tk now a) =
      (sweep_locked tk now)\<lparr>tk_sessions := snd (admit (tk_cap tk) a now (tk_sessions (sweep_locked tk now)))\<rparr>"
proof -
  let ?ss = "tk_sessions (sweep_locked tk now)"
  note ok = sweep_ok [OF assms, of now]
  have eq: "try_acquire tk now a = (fst (admit (tk_cap tk) a now ?ss),
      (sweep_locked tk now)\<lparr>tk_sessions := snd (admit (tk_cap tk) a now ?ss)\<rparr>)"
  proof (cases "im_get ?ss (aq_session a)")
    case None
    then show ?thesis
      unfolding try_acquire_def admit_def Let_def fold_remove kept_entries [OF ok] kept_sessions [OF ok]
      by (simp add: im_insert_fresh survivors_fresh split: option.splits)
  next
    case (Some s)
    then show ?thesis by (simp add: try_acquire_def admit_def Let_def)
  qed
  show "fst (try_acquire tk now a) = fst (admit (tk_cap tk) a now ?ss)"
    and "snd (try_acquire tk now a) = (sweep_locked tk now)\<lparr>tk_sessions := snd (admit (tk_cap tk) a now ?ss)\<rparr>"
    by (simp_all add: eq)
qed

lemma admit_cases:
  obtains (known) s where "im_get ss (aq_session a) = Some s"
      "admit cap a now ss = (Inr (), im_insert (aq_session a) (s\<lparr>se_seen := now\<rparr>) ss)"
  | (refused) l where "im_get ss (aq_session a) = None" "admit cap a now ss = (Inl l, ss)"
      "lt_sessions l = sorted_sessions ss" "lt_limit l \<le> lt_current l"
  | (granted) "im_get ss (aq_session a) = None"
      "admit cap a now ss = (Inr (), survivors a ss @ [(aq_session a, new_session a now)])"
      "length (survivors a ss) < cap"
      "\<forall>c. aq_kind_cap a = Some c \<longrightarrow> length (filter (same_budget a) (map snd (survivors a ss))) < c"
proof (cases "im_get ss (aq_session a)")
  case (Some s)
  then show thesis using known by (simp add: admit_def)
next
  case None
  let ?n = "length (filter (same_budget a) (map snd (survivors a ss)))"
  consider (kind) c where "aq_kind_cap a = Some c" "c \<le> ?n"
    | (house) "\<forall>c. aq_kind_cap a = Some c \<longrightarrow> ?n < c" "cap \<le> length (survivors a ss)"
    | (free) "\<forall>c. aq_kind_cap a = Some c \<longrightarrow> ?n < c" "length (survivors a ss) < cap"
    by (metis not_less)
  then show thesis
  proof cases
    case (kind c)
    then show thesis using None by (intro refused [OF None, of "\<lparr>lt_limit = c, lt_current = ?n, lt_sessions = sorted_sessions ss\<rparr>"])
        (simp_all add: admit_def Let_def)
  next
    case house
    then show thesis using None
      by (intro refused [OF None, of "\<lparr>lt_limit = cap, lt_current = length (survivors a ss),
            lt_sessions = sorted_sessions ss\<rparr>"]) (auto simp: admit_def Let_def split: option.split)
  next
    case free
    then show thesis using None
      by (intro granted [OF None]) (auto simp: admit_def Let_def split: option.split)
  qed
qed

lemma granted_ok:
  assumes "sessions_ok ss" "im_get ss (aq_session a) = None"
  shows "sessions_ok (survivors a ss @ [(aq_session a, new_session a now)])"
proof -
  have "sessions_ok (survivors a ss)"
    unfolding survivors_def by (rule sessions_ok_filter [OF assms(1)])
  moreover have "tuple_of (new_session a now) \<notin> tuple_of ` snd ` set (survivors a ss)"
    by (auto simp: tuple_of_def new_session_def survivors_def replaces_def)
  ultimately show ?thesis
    using survivors_fresh [OF assms(2), of a] by (auto simp: sessions_ok_def new_session_def image_iff)
qed

lemma admit_ok:
  assumes "sessions_ok ss" "length ss \<le> cap"
  shows "sessions_ok (snd (admit cap a now ss)) \<and> length (snd (admit cap a now ss)) \<le> cap"
proof (cases rule: admit_cases [of ss a cap now])
  case (known s)
  then show ?thesis using touch_ok [OF assms(1) known(1)] assms(2) by simp
next
  case (refused l)
  then show ?thesis using assms by simp
next
  case granted
  then show ?thesis using granted_ok [OF assms(1) granted(1)] by simp
qed

lemma find_entry_get:
  assumes "sessions_ok ss" "find_entry ss sub k rid = Some (i, s)"
  shows "im_get ss i = Some s \<and> matching sub k rid s"
proof -
  have "(i, s) \<in> set ss" "matching sub k rid s"
    using assms(2) by (auto simp: find_entry_def find_Some_iff in_set_conv_nth)
  then show ?thesis using assms(1) by (auto simp: sessions_ok_def)
qed

lemma tracker_step_inv [machine_inv]:
  assumes "tracker_inv tk"
  shows "tracker_inv (tracker_step tk q)"
proof -
  obtain now op where q: "q = (now, op)" by (cases q)
  have ok: "sessions_ok (tk_sessions tk)" and len: "length (tk_sessions tk) \<le> tk_cap tk"
    using assms by (simp_all add: tracker_inv_def)
  note swept = sweep_ok [OF ok, of now] order_trans [OF sweep_length len, of now]
  have touch: "sessions_ok (im_insert i (s\<lparr>se_seen := now\<rparr>) (tk_sessions tk))
      \<and> length (im_insert i (s\<lparr>se_seen := now\<rparr>) (tk_sessions tk)) \<le> tk_cap tk"
    if "im_get (tk_sessions tk) i = Some s" for i s
    using touch_ok [OF ok that, of now] len by simp
  have drop: "sessions_ok (im_remove i (tk_sessions tk)) \<and> length (im_remove i (tk_sessions tk)) \<le> tk_cap tk" for i
    using sessions_ok_filter [OF ok] len order_trans [OF length_delete_le]
    by (simp add: AList.delete_eq)
  show ?thesis
  proof (cases op)
    case (OpAcquire a)
    then show ?thesis using admit_ok [OF swept, of a now]
      by (simp add: q tracker_inv_def try_acquire_admit(2) [OF ok])
  next
    case OpSweep
    then show ?thesis using swept by (simp add: q tracker_inv_def)
  next
    case (OpHeartbeat i)
    then show ?thesis using assms touch
      by (auto simp: q heartbeat_def tracker_inv_def split: option.splits)
  next
    case (OpHeartbeatResource sub k rid)
    then show ?thesis using assms touch find_entry_get [OF ok]
      by (auto simp: q heartbeat_by_resource_def tracker_inv_def split: option.splits)
  next
    case (OpRelease i)
    then show ?thesis using drop by (simp add: q release_def tracker_inv_def)
  next
    case (OpReleaseResource sub k rid)
    then show ?thesis using assms drop
      by (auto simp: q release_by_resource_def tracker_inv_def split: option.splits)
  qed
qed

interpretation tracker_machine: machine tracker_step tracker_inv
  by unfold_locales (rule tracker_step_inv)

lemma new_tracker_inv: "tracker_inv (new_tracker cap idle)"
  by (simp add: tracker_inv_def new_tracker_def sessions_ok_def)

lemma tracker_step_cap [simp]: "tk_cap (tracker_step tk q) = tk_cap tk"
  by (cases "(tk, q)" rule: tracker_step.cases)
    (auto simp: try_acquire_def heartbeat_def heartbeat_by_resource_def release_def
      release_by_resource_def Let_def split: option.splits)

lemma tracker_run_cap [simp]: "tk_cap (foldl tracker_step tk qs) = tk_cap tk"
  by (induction qs arbitrary: tk) simp_all

section \<open>Properties\<close>

text \<open>
  From an empty tracker, after any sequence of acquires, sweeps, heartbeats and releases at
  any clock readings: the household cap is respected, the map's keys are the session ids, and no
  two sessions share a (sub, kind, resource).
\<close>

theorem household_cap_and_unique_slots:
  "let tk = foldl tracker_step (new_tracker cap idle) qs in
     tracker_size tk \<le> cap
   \<and> map fst (tk_sessions tk) = map (se_id \<circ> snd) (tk_sessions tk)
   \<and> distinct (map fst (tk_sessions tk))
   \<and> distinct (map (\<lambda>(_, s). (se_sub s, se_kind s, se_resource s)) (tk_sessions tk))"
proof -
  have "tracker_inv (foldl tracker_step (new_tracker cap idle) qs)"
    by (rule tracker_machine.inv_run) (rule new_tracker_inv)
  then show ?thesis
    by (auto simp: tracker_inv_def sessions_ok_def tracker_size_def Let_def new_tracker_def comp_def
        tuple_of_def case_prod_unfold)
qed

text \<open>
  A refused acquire changes nothing beyond the expiry sweep every operation performs: no slot
  is dropped even when the request would have replaced some, and the refusal reports exactly the
  sessions that remain, newest first, and a count at or over the limit that refused it.
\<close>

theorem refused_acquire_keeps_slots:
  assumes "tk = foldl tracker_step (new_tracker cap idle) qs"
    and "try_acquire tk now a = (Inl l, tk')"
  shows "tk' = sweep_locked tk now \<and> lt_limit l \<le> lt_current l
    \<and> mset (lt_sessions l) = mset (map snd (tk_sessions tk'))
    \<and> sorted (map (\<lambda>s. - int (se_started s)) (lt_sessions l))"
proof -
  have "tracker_inv tk"
    unfolding assms(1) by (rule tracker_machine.inv_run) (rule new_tracker_inv)
  then have ok: "sessions_ok (tk_sessions tk)" by (simp add: tracker_inv_def)
  note eq = try_acquire_admit [OF ok, of now a, unfolded assms(2) fst_conv snd_conv]
  show ?thesis
    by (cases rule: admit_cases [of "tk_sessions (sweep_locked tk now)" a "tk_cap tk" now])
      (use eq in \<open>auto simp: sorted_sessions_def\<close>)
qed

text \<open>A full household of one: the second viewer is refused and the first keeps its slot.\<close>

definition live_request :: "string \<Rightarrow> string \<Rightarrow> acquire" where
  "live_request sub sid = \<lparr>aq_sub = sub, aq_session = sid, aq_kind = KLive, aq_resource = ''ch1'',
     aq_ip = None, aq_title = None, aq_kind_cap = Some 1, aq_replace_live = True\<rparr>"

lemma refused_acquire_keeps_slots_witness:
  "let tk = foldl tracker_step (new_tracker 3 30000) [(5, OpAcquire (live_request ''u1'' ''s1''))];
       (r, tk') = try_acquire tk 10 (live_request ''u2'' ''s2'')
   in r = Inl \<lparr>lt_limit = 1, lt_current = 1, lt_sessions = [new_session (live_request ''u1'' ''s1'') 5]\<rparr>
    \<and> tk' = sweep_locked tk 10
    \<and> mset [new_session (live_request ''u1'' ''s1'') 5] = mset (map snd (tk_sessions tk'))"
proof -
  let ?tk = "foldl tracker_step (new_tracker 3 30000) [(5, OpAcquire (live_request ''u1'' ''s1''))]"
  let ?l = "\<lparr>lt_limit = 1, lt_current = 1, lt_sessions = [new_session (live_request ''u1'' ''s1'') 5]\<rparr>"
  have run: "try_acquire ?tk 10 (live_request ''u2'' ''s2'') = (Inl ?l, sweep_locked ?tk 10)"
    by (simp add: try_acquire_def live_request_def new_tracker_def sweep_locked_def Let_def replaces_def
        same_budget_def is_live_def new_session_def sorted_sessions_def)
  show ?thesis
    using refused_acquire_keeps_slots [OF refl run] by (simp only: Let_def run prod.case simp_thms limit.select_convs)
qed

text \<open>The budget the live kinds (raw live and remux) share.\<close>

definition live_kinds :: "(string, session) imap \<Rightarrow> nat" where
  "live_kinds ss = length (filter (\<lambda>(_, s). is_live (se_kind s)) ss)"

lemma live_kinds_filter: "live_kinds (filter P ss) \<le> live_kinds ss"
  unfolding live_kinds_def by (induction ss) auto

lemma live_kinds_touch:
  assumes "sessions_ok ss" "im_get ss i = Some s"
  shows "live_kinds (im_insert i (s\<lparr>se_seen := now\<rparr>) ss) = live_kinds ss"
proof -
  have eq: "live_kinds m = length (filter (\<lambda>b. b) (map (\<lambda>(_, s). is_live (se_kind s)) m))" for m
    unfolding live_kinds_def by (simp add: filter_map comp_def case_prod_unfold)
  have "map (\<lambda>(_, s). is_live (se_kind s)) (im_insert i (s\<lparr>se_seen := now\<rparr>) ss)
          = map (\<lambda>(_, s). is_live (se_kind s)) ss"
    by (rule map_im_insert_same [OF _ assms(2)]) (use assms(1) in \<open>simp_all add: sessions_ok_def\<close>)
  then show ?thesis unfolding eq by simp
qed

definition live_inv :: "nat \<Rightarrow> tracker \<Rightarrow> bool" where
  "live_inv c tk \<longleftrightarrow> tracker_inv tk \<and> live_kinds (tk_sessions tk) \<le> c"

lemma admit_live:
  assumes ok: "sessions_ok ss" and le: "live_kinds ss \<le> c"
    and capped: "is_live (aq_kind a) \<Longrightarrow> \<exists>d\<le>c. aq_kind_cap a = Some d"
  shows "live_kinds (snd (admit cap a now ss)) \<le> c"
proof (cases rule: admit_cases [of ss a cap now])
  case (known s)
  then show ?thesis using live_kinds_touch [OF ok known(1)] le by simp
next
  case (refused l)
  then show ?thesis using le by simp
next
  case granted
  have "live_kinds (survivors a ss) \<le> c"
    using live_kinds_filter le unfolding survivors_def by (rule order_trans)
  moreover have "live_kinds (survivors a ss) < c" if live: "is_live (aq_kind a)"
  proof -
    obtain d where "d \<le> c" "aq_kind_cap a = Some d" using capped [OF live] by blast
    then show ?thesis
      using granted(4) live
      by (simp add: live_kinds_def same_budget_def filter_map comp_def case_prod_unfold)
  qed
  ultimately show ?thesis
    by (auto simp: granted(2) live_kinds_def new_session_def)
qed

definition capped_op :: "nat \<Rightarrow> tracker_op \<Rightarrow> bool" where
  "capped_op c op \<longleftrightarrow> (case op of OpAcquire a \<Rightarrow>
       is_live (aq_kind a) \<longrightarrow> (\<exists>d\<le>c. aq_kind_cap a = Some d) | _ \<Rightarrow> True)"

lemma live_step:
  assumes "live_inv c tk" "capped_op c (snd q)"
  shows "live_inv c (tracker_step tk q)"
proof -
  obtain now op where q: "q = (now, op)" by (cases q)
  have ti: "tracker_inv tk" and le: "live_kinds (tk_sessions tk) \<le> c"
    using assms(1) by (simp_all add: live_inv_def)
  then have ok: "sessions_ok (tk_sessions tk)" by (simp add: tracker_inv_def)
  have swept: "live_kinds (tk_sessions (sweep_locked tk now)) \<le> c"
    using order_trans [OF live_kinds_filter le] by (simp add: sweep_locked_def)
  have drop: "live_kinds (im_remove i (tk_sessions tk)) \<le> c" for i
    using order_trans [OF live_kinds_filter le] by (simp add: AList.delete_eq)
  have touch: "live_kinds (im_insert i (s\<lparr>se_seen := now\<rparr>) (tk_sessions tk)) \<le> c"
    if "im_get (tk_sessions tk) i = Some s" for i s
    using live_kinds_touch [OF ok that] le by simp
  have "live_kinds (tk_sessions (tracker_step tk q)) \<le> c"
  proof (cases op)
    case (OpAcquire a)
    then have "is_live (aq_kind a) \<Longrightarrow> \<exists>d\<le>c. aq_kind_cap a = Some d"
      using assms(2) by (simp add: q capped_op_def)
    then show ?thesis using admit_live [OF sweep_ok [OF ok] swept] OpAcquire
      by (simp add: q try_acquire_admit(2) [OF ok])
  next
    case OpSweep
    then show ?thesis using swept by (simp add: q)
  next
    case (OpHeartbeat i)
    then show ?thesis using le touch by (simp add: q heartbeat_def split: option.split)
  next
    case (OpHeartbeatResource sub k rid)
    then show ?thesis using le touch find_entry_get [OF ok]
      by (simp add: q heartbeat_by_resource_def split: option.split)
  next
    case (OpRelease i)
    then show ?thesis using drop by (simp add: q release_def)
  next
    case (OpReleaseResource sub k rid)
    then show ?thesis using le drop by (simp add: q release_by_resource_def split: option.split)
  qed
  then show ?thesis using tracker_step_inv [OF ti] by (simp add: live_inv_def)
qed

lemma live_run:
  "live_inv c tk \<Longrightarrow> \<forall>q\<in>set qs. capped_op c (snd q) \<Longrightarrow> live_inv c (foldl tracker_step tk qs)"
  by (induction qs arbitrary: tk) (simp_all add: live_step)

text \<open>
  C1. The provider's connection cap: when every acquire of a live kind (raw live and remux share
  one budget) carries a kind cap of at most \<open>c\<close>, no run from an empty tracker ever holds more than
  \<open>c\<close> live and remux sessions together, whatever else is acquired and however sessions are
  replaced, refreshed or released.
\<close>

theorem provider_cap_respected:
  assumes "\<forall>(now, op)\<in>set qs. case op of
      OpAcquire a \<Rightarrow> is_live (aq_kind a) \<longrightarrow> (\<exists>d\<le>c. aq_kind_cap a = Some d) | _ \<Rightarrow> True"
  shows "length (filter (\<lambda>(_, s). is_live (se_kind s))
      (tk_sessions (foldl tracker_step (new_tracker cap idle) qs))) \<le> c"
proof -
  have "live_inv c (new_tracker cap idle)"
    using new_tracker_inv by (simp add: live_inv_def live_kinds_def new_tracker_def)
  then have "live_inv c (foldl tracker_step (new_tracker cap idle) qs)"
    by (rule live_run) (use assms in \<open>auto simp: capped_op_def\<close>)
  then show ?thesis by (simp add: live_inv_def live_kinds_def)
qed

lemma provider_cap_respected_witness:
  "length (filter (\<lambda>(_, s). is_live (se_kind s))
      (tk_sessions (foldl tracker_step (new_tracker 3 30000)
        [(5, OpAcquire (live_request ''u1'' ''s1'')), (6, OpAcquire (live_request ''u2'' ''s2'')),
         (7, OpRelease ''s1''), (8, OpAcquire (live_request ''u2'' ''s2''))]))) \<le> 1"
  by (rule provider_cap_respected) (simp add: live_request_def)

text \<open>
  The lookups by (sub, kind, resource) do not depend on the order in which the \<open>HashMap\<close>
  happens to iterate: after any run, every ordering of the entries gives the same answer.
\<close>

theorem find_by_resource_deterministic:
  assumes "tk = foldl tracker_step (new_tracker cap idle) qs"
    and "mset ss = mset (tk_sessions tk)"
  shows "find_entry ss sub k rid = find_entry (tk_sessions tk) sub k rid"
proof -
  have "tracker_inv tk"
    unfolding assms(1) by (rule tracker_machine.inv_run) (rule new_tracker_inv)
  then have dist: "distinct (map (tuple_of \<circ> snd) (tk_sessions tk))"
    by (simp add: tracker_inv_def sessions_ok_def)
  have sets: "set ss = set (tk_sessions tk)" using assms(2) by (metis set_mset_mset)
  have unique: "x = y" if "x \<in> set (tk_sessions tk)" "y \<in> set (tk_sessions tk)"
    "matching sub k rid (snd x)" "matching sub k rid (snd y)" for x y
    using dist that by (auto simp: distinct_map inj_on_def tuple_of_def matching_def)
  have found: "find_entry m sub k rid = Some e \<longleftrightarrow> e \<in> set m \<and> matching sub k rid (snd e)"
    if "set m = set (tk_sessions tk)" for m e
  proof
    assume "find_entry m sub k rid = Some e"
    then show "e \<in> set m \<and> matching sub k rid (snd e)"
      by (auto simp: find_entry_def find_Some_iff in_set_conv_nth case_prod_unfold)
  next
    assume *: "e \<in> set m \<and> matching sub k rid (snd e)"
    then have "find_entry m sub k rid \<noteq> None"
      by (cases e) (auto simp: find_entry_def find_None_iff)
    then obtain f where f: "find_entry m sub k rid = Some f" by blast
    then have "f \<in> set m \<and> matching sub k rid (snd f)"
      by (auto simp: find_entry_def find_Some_iff in_set_conv_nth case_prod_unfold)
    then show "find_entry m sub k rid = Some e" using f * unique that by metis
  qed
  show ?thesis
    using found [OF sets] found [OF refl] sets by (metis not_None_eq)
qed

lemma find_by_resource_deterministic_witness:
  "let tk = foldl tracker_step (new_tracker 3 30000)
         [(5, OpAcquire (live_request ''u1'' ''s1'')), (6, OpAcquire ((live_request ''u2'' ''s2'')\<lparr>aq_kind_cap := None\<rparr>))]
   in tracker_size tk = 2
    \<and> find_entry (rev (tk_sessions tk)) ''u2'' KLive ''ch1'' = find_entry (tk_sessions tk) ''u2'' KLive ''ch1''"
proof -
  let ?tk = "foldl tracker_step (new_tracker 3 30000)
         [(5, OpAcquire (live_request ''u1'' ''s1'')), (6, OpAcquire ((live_request ''u2'' ''s2'')\<lparr>aq_kind_cap := None\<rparr>))]"
  have "tracker_size ?tk = 2"
    by (simp add: try_acquire_def live_request_def new_tracker_def sweep_locked_def Let_def replaces_def
        new_session_def tracker_size_def)
  moreover have "find_entry (rev (tk_sessions ?tk)) ''u2'' KLive ''ch1'' = find_entry (tk_sessions ?tk) ''u2'' KLive ''ch1''"
    by (rule find_by_resource_deterministic [OF refl]) simp
  ultimately show ?thesis by (simp only: Let_def simp_thms)
qed

end
