(* ===== verification/Token_Bucket.thy ===== *)
theory Token_Bucket
  imports Prelude
begin

text \<open>
  \<open>crates/media-core/src/rate_limit.rs\<close>: a token bucket per caller key.  Instants and durations are
  nanoseconds (\<open>Instant::duration_since\<close> saturates at zero, as subtraction on \<open>nat\<close> does), the
  clock reading is an argument of \<open>take\<close>; the counters are \<open>u32\<close>, so the casts and the saturating
  operations are written out.
\<close>

section \<open>Model\<close>

definition milli :: nat where "milli = 1000000"

definition sat32 :: "nat \<Rightarrow> nat" where
  "sat32 n = min n (2 ^ 32 - 1)"

record rate_limiter =
  rl_capacity :: nat
  rl_refill :: nat
  rl_interval :: nat

type_synonym token_state = "string \<rightharpoonup> nat \<times> nat"

definition refilled :: "rate_limiter \<Rightarrow> nat \<Rightarrow> nat \<times> nat \<Rightarrow> nat \<times> nat" where
  "refilled L now = (\<lambda>(tokens, since).
     let elapsed = now - since in
     if elapsed \<ge> rl_interval L
     then let refills = (elapsed div milli) div max 1 (rl_interval L div milli) mod 2 ^ 32
          in (min (rl_capacity L) (sat32 (tokens + sat32 (refills * rl_refill L))), now)
     else (tokens, since))"

definition take_token :: "rate_limiter \<Rightarrow> nat \<Rightarrow> string \<Rightarrow> token_state \<Rightarrow> (nat + unit) \<times> token_state" where
  "take_token L now key b =
     (let (tokens, since) = refilled L now
            (case b key of None \<Rightarrow> (rl_capacity L, now) | Some entry \<Rightarrow> entry)
      in if tokens = 0
         then (Inl (((rl_interval L - (now - since)) div milli) mod 2 ^ 64), b(key \<mapsto> (tokens, since)))
         else (Inr (), b(key \<mapsto> (tokens - 1, since))))"

text \<open>The 429: \<open>Retry-After\<close> in whole seconds, and the milliseconds in the body.\<close>

definition check_token :: "rate_limiter \<Rightarrow> nat \<Rightarrow> string \<Rightarrow> token_state
    \<Rightarrow> (nat \<times> nat + unit) \<times> token_state" where
  "check_token L now key b =
     (case take_token L now key b of
        (Inl ms, b') \<Rightarrow> (Inl ((ms + 999) div 1000, ms), b')
      | (Inr (), b') \<Rightarrow> (Inr (), b'))"

section \<open>The refill\<close>

text \<open>A limiter the callers build: \<open>u32\<close> fields, an interval of whole milliseconds, at least one.\<close>

definition limiter_ok :: "rate_limiter \<Rightarrow> bool" where
  "limiter_ok L \<longleftrightarrow> rl_capacity L < 2 ^ 32 \<and> rl_refill L < 2 ^ 32
     \<and> 0 < rl_interval L \<and> rl_interval L mod milli = 0"

definition entry_at :: "rate_limiter \<Rightarrow> nat \<Rightarrow> token_state \<Rightarrow> string \<Rightarrow> nat \<times> nat" where
  "entry_at L now b key = (case b key of None \<Rightarrow> (rl_capacity L, now) | Some e \<Rightarrow> e)"

lemma take_token_alt:
  "take_token L now key b =
     (let (tokens, since) = refilled L now (entry_at L now b key)
      in if tokens = 0
         then (Inl (((rl_interval L - (now - since)) div milli) mod 2 ^ 64), b(key \<mapsto> (tokens, since)))
         else (Inr (), b(key \<mapsto> (tokens - 1, since))))"
  by (simp add: take_token_def entry_at_def)

lemma refills_le:
  assumes "limiter_ok L"
  shows "(e div milli) div max 1 (rl_interval L div milli) mod 2 ^ 32 \<le> e div rl_interval L"
proof -
  obtain q where q: "rl_interval L = milli * q"
    using assms by (metis limiter_ok_def mod_0_imp_dvd dvdE)
  have "milli > 0" "0 < q" using assms by (auto simp: milli_def limiter_ok_def q)
  then have "(e div milli) div max 1 (rl_interval L div milli) = e div rl_interval L"
    by (simp add: q div_mult2_eq max_def)
  then show ?thesis by (simp add: mod_less_eq_dividend)
qed

lemma refilled_le:
  assumes "limiter_ok L"
  shows "fst (refilled L now (n, since)) \<le> n + rl_refill L * ((now - since) div rl_interval L)"
proof -
  let ?r = "((now - since) div milli) div max 1 (rl_interval L div milli) mod 2 ^ 32"
  have "sat32 (?r * rl_refill L) \<le> ?r * rl_refill L" by (simp add: sat32_def)
  also have "\<dots> \<le> rl_refill L * ((now - since) div rl_interval L)"
    using refills_le [OF assms] by (simp add: mult.commute)
  finally show ?thesis
    by (auto simp: refilled_def Let_def sat32_def min_def)
qed

lemma refilled_last: "snd (refilled L now (n, since)) = (if rl_interval L \<le> now - since then now else since)"
  by (simp add: refilled_def Let_def)

lemma refilled_capacity: "n \<le> rl_capacity L \<Longrightarrow> fst (refilled L now (n, since)) \<le> rl_capacity L"
  by (simp add: refilled_def Let_def)

section \<open>A run of takes\<close>

fun granted :: "rate_limiter \<Rightarrow> string \<Rightarrow> token_state \<Rightarrow> (nat \<times> string) list \<Rightarrow> nat" where
  "granted L k b [] = 0"
| "granted L k b ((t, key) # evs) =
     (case take_token L t key b of
        (Inl _, b') \<Rightarrow> granted L k b' evs
      | (Inr _, b') \<Rightarrow> (if key = k then 1 else 0) + granted L k b' evs)"

lemma take_other: "key \<noteq> k \<Longrightarrow> snd (take_token L t key b) k = b k"
  by (simp add: take_token_alt Let_def split: prod.split)

lemma take_same:
  "fst (take_token L t k b) = Inr () \<Longrightarrow>
     snd (take_token L t k b) k = Some (fst (refilled L t (entry_at L t b k)) - 1, snd (refilled L t (entry_at L t b k)))
     \<and> 0 < fst (refilled L t (entry_at L t b k))"
  "fst (take_token L t k b) = Inl ms \<Longrightarrow>
     snd (take_token L t k b) k = Some (0, snd (refilled L t (entry_at L t b k)))"
  by (auto simp: take_token_alt Let_def split: prod.splits if_splits)

lemma granted_step:
  "granted L k b ((t, key) # evs) =
     (if key = k \<and> fst (take_token L t k b) = Inr () then 1 else 0) + granted L k (snd (take_token L t key b)) evs"
  by (auto split: prod.split sum.split)

text \<open>What a bucket may still grant until \<open>end_t\<close>.\<close>

definition budget :: "rate_limiter \<Rightarrow> nat \<Rightarrow> nat \<times> nat \<Rightarrow> nat" where
  "budget L end_t e = fst e + rl_refill L * ((end_t - snd e) div rl_interval L)"

lemma div_add_le: "(a::nat) div n + b div n \<le> (a + b) div n"
proof (cases "n = 0")
  case False
  have "(a div n + b div n) * n \<le> a + b"
    by (simp add: add_mult_distrib add_mono div_times_less_eq_dividend)
  then show ?thesis using False by (simp add: less_eq_div_iff_mult_less_eq)
qed simp

lemma budget_refilled:
  assumes "limiter_ok L" "since \<le> now" "now \<le> end_t"
  shows "budget L end_t (refilled L now (n, since)) \<le> budget L end_t (n, since)"
proof (cases "rl_interval L \<le> now - since")
  case True
  have "(now - since) div rl_interval L + (end_t - now) div rl_interval L \<le> (end_t - since) div rl_interval L"
    using div_add_le [of "now - since" "rl_interval L" "end_t - now"] assms(2,3) by simp
  then have "rl_refill L * ((now - since) div rl_interval L) + rl_refill L * ((end_t - now) div rl_interval L)
      \<le> rl_refill L * ((end_t - since) div rl_interval L)"
    by (metis add_mult_distrib2 mult_le_mono2)
  then show ?thesis
    using refilled_le [OF assms(1), of now n since] True by (simp add: budget_def refilled_last)
next
  case False
  then show ?thesis by (simp add: refilled_def)
qed

lemma granted_budget:
  assumes "limiter_ok L" "sorted (map fst evs)" "\<forall>t\<in>set (map fst evs). since \<le> t \<and> t \<le> end_t"
    "b k = Some (n, since)"
  shows "granted L k b evs \<le> budget L end_t (n, since)"
  using assms(2-)
proof (induction evs arbitrary: b n since)
  case Nil
  then show ?case by simp
next
  case (Cons ev evs)
  obtain t key where ev: "ev = (t, key)" by (cases ev)
  have lt: "since \<le> t" "t \<le> end_t" using Cons.prems(2) by (auto simp: ev)
  have later: "\<forall>s\<in>set (map fst evs). t \<le> s \<and> s \<le> end_t" using Cons.prems(1,2) by (auto simp: ev)
  let ?b = "snd (take_token L t key b)"
  show ?case
  proof (cases "key = k")
    case False
    have "granted L k ?b evs \<le> budget L end_t (n, since)"
      by (rule Cons.IH) (use Cons.prems take_other [OF False] in \<open>auto simp: ev\<close>)
    then show ?thesis using False by (simp only: ev granted_step) simp
  next
    case True
    obtain n' l' where r: "refilled L t (n, since) = (n', l')" by fastforce
    have le: "budget L end_t (n', l') \<le> budget L end_t (n, since)"
      using budget_refilled [OF assms(1) lt, of n] by (simp add: r)
    have l': "l' \<le> t" using refilled_last [of L t n since] lt(1) by (auto simp: r split: if_splits)
    have ent: "entry_at L t b k = (n, since)" using Cons.prems(3) by (simp add: entry_at_def)
    have bound: "granted L k ?b evs \<le> budget L end_t (m, l')" if "?b k = Some (m, l')" for m
      by (rule Cons.IH) (use Cons.prems(1) later l' that in \<open>auto simp: ev\<close>)
    show ?thesis
    proof (cases "fst (take_token L t k b)")
      case (Inl ms)
      then have "?b k = Some (0, l')" using take_same(2) [of L t k b ms] by (simp add: True ent r)
      then have "granted L k ?b evs \<le> budget L end_t (0, l')" by (rule bound)
      then show ?thesis using Inl le True by (simp only: ev granted_step) (simp add: budget_def)
    next
      case (Inr u)
      then have "?b k = Some (n' - 1, l')" "0 < n'" using take_same(1) [of L t k b] by (simp_all add: True ent r)
      then show ?thesis using bound [of "n' - 1"] Inr le True
        by (simp only: ev granted_step) (simp add: budget_def)
    qed
  qed
qed

section \<open>Properties\<close>

text \<open>
  Whatever the other callers do, one key is let through at most \<open>capacity\<close> times plus
  \<open>refill\<close> times per whole interval elapsed between the start and the end of the observation, on a
  limiter with an interval of whole milliseconds, from empty buckets and under a clock that never
  goes back.
\<close>

theorem token_rate_bound:
  assumes "limiter_ok L" "sorted (map fst evs)" "\<forall>t\<in>set (map fst evs). start \<le> t \<and> t \<le> end_t"
  shows "granted L k Map.empty evs \<le> rl_capacity L + rl_refill L * ((end_t - start) div rl_interval L)"
proof -
  have "granted L k b evs \<le> rl_capacity L + rl_refill L * ((end_t - start) div rl_interval L)"
    if "b k = None" for b
    using assms(2,3) that
  proof (induction evs arbitrary: b)
    case Nil
    then show ?case by simp
  next
    case (Cons ev evs)
    obtain t key where ev: "ev = (t, key)" by (cases ev)
    show ?case
    proof (cases "key = k")
      case False
      have "granted L k (snd (take_token L t key b)) evs \<le> rl_capacity L + rl_refill L * ((end_t - start) div rl_interval L)"
        by (rule Cons.IH) (use Cons.prems take_other [OF False] in \<open>auto simp: ev\<close>)
      then show ?thesis using False by (simp only: ev granted_step) simp
    next
      case True
      have "entry_at L t (b(k \<mapsto> (rl_capacity L, t))) k = entry_at L t b k"
        using Cons.prems(3) by (simp add: entry_at_def)
      then have "take_token L t k (b(k \<mapsto> (rl_capacity L, t))) = take_token L t k b"
        unfolding take_token_alt by (simp split: prod.split)
      then have "granted L k b (ev # evs) = granted L k (b(k \<mapsto> (rl_capacity L, t))) (ev # evs)"
        by (simp add: ev True)
      also have "\<dots> \<le> budget L end_t (rl_capacity L, t)"
        by (rule granted_budget [OF assms(1)]) (use Cons.prems in \<open>auto simp: ev\<close>)
      also have "\<dots> \<le> budget L end_t (rl_capacity L, start)"
        using Cons.prems(2) by (auto simp: ev budget_def intro!: mult_le_mono2 div_le_mono)
      finally show ?thesis by (simp add: budget_def)
    qed
  qed
  then show ?thesis by simp
qed

definition demo_limiter :: rate_limiter where
  "demo_limiter = \<lparr>rl_capacity = 2, rl_refill = 1, rl_interval = 1000 * milli\<rparr>"

lemma token_rate_bound_witness:
  "granted demo_limiter ''a'' Map.empty [(0, ''a''), (1, ''a''), (2, ''a''), (1000 * milli, ''a'')] \<le> 3"
  using token_rate_bound [of demo_limiter "[(0, ''a''), (1, ''a''), (2, ''a''), (1000 * milli, ''a'')]" 0 "1000 * milli" "''a''"]
  by (simp only: demo_limiter_def limiter_ok_def milli_def) simp

text \<open>
  The wait a refusal asks for is enough: a refused key that comes back one millisecond after
  the \<open>retry_after_ms\<close> it was told (nobody else having used the key) is let through, unless more
  than \<open>2^32\<close> intervals have gone by since its last refill.  The reported wait itself is the true one
  rounded down to a millisecond.
\<close>

theorem retry_hint_sufficient:
  assumes "limiter_ok L" "0 < rl_capacity L" "0 < rl_refill L" "rl_interval L < 2 ^ 64"
    and "b k = Some (n, since)" "since \<le> now"
    and "take_token L now k b = (Inl ms, b')"
    and "now + (ms + 1) * milli \<le> later" "later < since + 2 ^ 32 * rl_interval L"
  shows "fst (take_token L later k b') = Inr ()"
proof -
  have milli: "0 < milli" by (simp add: milli_def)
  obtain q where q: "rl_interval L = milli * q" "0 < q"
    using assms(1) by (metis gr0I limiter_ok_def mod_0_imp_dvd dvdE mult_0_right)
  obtain l where r: "refilled L now (n, since) = (0, l)" and b': "b' = b(k \<mapsto> (0, l))"
    and ms: "ms = ((rl_interval L - (now - l)) div milli) mod 2 ^ 64"
    using assms(5,7) by (auto simp: take_token_alt entry_at_def Let_def split: prod.splits if_splits)
  have l: "since \<le> l" "l \<le> now"
    using refilled_last [of L now n since] assms(6) by (auto simp: r split: if_splits)
  have "(rl_interval L - (now - l)) div milli \<le> rl_interval L"
    by (meson diff_le_self div_le_dividend le_trans)
  then have "ms = (rl_interval L - (now - l)) div milli" using ms assms(4) by simp
  then have "rl_interval L - (now - l) < (ms + 1) * milli"
    using milli by (metis Suc_eq_plus1 dividend_less_div_times mult_Suc add.commute)
  then have due: "rl_interval L \<le> later - l" using assms(8) l by linarith
  have "later - l < 2 ^ 32 * (milli * q)"
    using assms(9) l(1) due mult_pos_pos [OF milli q(2)] unfolding q(1) by linarith
  then have "((later - l) div milli) div q < 2 ^ 32"
    by (simp only: div_mult2_eq [symmetric] less_mult_imp_div_less)
  moreover have "0 < ((later - l) div milli) div q"
    using due q milli by (simp add: div_mult2_eq [symmetric] div_greater_zero_iff)
  moreover have "max 1 (rl_interval L div milli) = q" using q milli by (simp add: max_def)
  ultimately have "0 < fst (refilled L later (0, l))"
    using due assms(1-3) by (simp add: refilled_def Let_def sat32_def)
  then show ?thesis
    by (auto simp: take_token_alt entry_at_def b' Let_def split: prod.split)
qed

lemma retry_hint_sufficient_witness:
  "let b = Map.empty(''a'' \<mapsto> (0, 5 * milli)) in
     take_token demo_limiter (905 * milli) ''a'' b = (Inl 100, b)
   \<and> fst (take_token demo_limiter (1006 * milli) ''a'' b) = Inr ()"
proof -
  let ?b = "Map.empty(''a'' \<mapsto> (0, 5 * milli))"
  have refused: "take_token demo_limiter (905 * milli) ''a'' ?b = (Inl 100, ?b)"
    by (simp add: take_token_def refilled_def demo_limiter_def milli_def)
  have "fst (take_token demo_limiter (1006 * milli) ''a'' ?b) = Inr ()"
    by (rule retry_hint_sufficient [OF _ _ _ _ _ _ refused, where since = "5 * milli" and n = 0])
      (simp_all add: demo_limiter_def limiter_ok_def milli_def)
  then show ?thesis using refused by (simp add: Let_def)
qed

end
