(* ===== verification/Float64.thy ===== *)
theory Float64
  imports Complex_Main "HOL-Library.Log_Nat" Json
begin

text \<open>
  Rust's \<open>f64\<close>: a finite value is the rational it denotes, every operation is the exact one
  followed by IEEE-754 rounding to nearest, ties to even.  The sign of zero is not kept: no source
  modelled here divides by a zero or inspects that sign.
\<close>

section \<open>Values and rounding\<close>

datatype f64 = FNan | FInf bool | Fin rat

text \<open>The exponent of the leading bit of a positive rational.\<close>

definition lead_exp :: "rat \<Rightarrow> int" where
  "lead_exp r =
     (let (n, d) = quotient_of r;
          e = int (floorlog 2 (nat n)) - int (floorlog 2 (nat d))
      in if 2 powi e \<le> r then e else e - 1)"

definition half_even :: "rat \<Rightarrow> int" where
  "half_even r =
     (let f = \<lfloor>r\<rfloor>; x = r - of_int f
      in if x < 1 / 2 then f else if 1 / 2 < x then f + 1 else if even f then f else f + 1)"

definition ulp_exp :: "rat \<Rightarrow> int" where
  "ulp_exp r = max (lead_exp \<bar>r\<bar> - 52) (- 1074)"

definition rnd :: "rat \<Rightarrow> f64" where
  "rnd r =
     (if r = 0 then Fin 0
      else let u = 2 powi ulp_exp r; v = of_int (half_even (r / u)) * u
           in if 2 ^ 1024 \<le> \<bar>v\<bar> then FInf (0 < r) else Fin v)"

definition f_of_int :: "int \<Rightarrow> f64" where
  "f_of_int i = rnd (of_int i)"

section \<open>Operations\<close>

fun fneg :: "f64 \<Rightarrow> f64" where
  "fneg FNan = FNan"
| "fneg (FInf p) = FInf (\<not> p)"
| "fneg (Fin r) = Fin (- r)"

fun fadd :: "f64 \<Rightarrow> f64 \<Rightarrow> f64" where
  "fadd (Fin a) (Fin b) = rnd (a + b)"
| "fadd (FInf p) (FInf q) = (if p = q then FInf p else FNan)"
| "fadd (FInf p) (Fin _) = FInf p"
| "fadd (Fin _) (FInf q) = FInf q"
| "fadd _ _ = FNan"

definition fsub :: "f64 \<Rightarrow> f64 \<Rightarrow> f64" where
  "fsub a b = fadd a (fneg b)"

fun fmul :: "f64 \<Rightarrow> f64 \<Rightarrow> f64" where
  "fmul (Fin a) (Fin b) = rnd (a * b)"
| "fmul (FInf p) (FInf q) = FInf (p = q)"
| "fmul (FInf p) (Fin b) = (if b = 0 then FNan else FInf (p = (0 < b)))"
| "fmul (Fin a) (FInf q) = (if a = 0 then FNan else FInf (q = (0 < a)))"
| "fmul _ _ = FNan"

fun fdiv :: "f64 \<Rightarrow> f64 \<Rightarrow> f64" where
  "fdiv (Fin a) (Fin b) = (if b = 0 then if a = 0 then FNan else FInf (0 < a) else rnd (a / b))"
| "fdiv (FInf p) (Fin b) = FInf (p = (0 \<le> b))"
| "fdiv (Fin _) (FInf _) = Fin 0"
| "fdiv _ _ = FNan"

fun flt :: "f64 \<Rightarrow> f64 \<Rightarrow> bool" where
  "flt (Fin a) (Fin b) \<longleftrightarrow> a < b"
| "flt (Fin _) (FInf q) \<longleftrightarrow> q"
| "flt (FInf p) (Fin _) \<longleftrightarrow> \<not> p"
| "flt (FInf p) (FInf q) \<longleftrightarrow> \<not> p \<and> q"
| "flt _ _ \<longleftrightarrow> False"

fun feq :: "f64 \<Rightarrow> f64 \<Rightarrow> bool" where
  "feq FNan _ \<longleftrightarrow> False"
| "feq _ FNan \<longleftrightarrow> False"
| "feq a b \<longleftrightarrow> a = b"

definition fle :: "f64 \<Rightarrow> f64 \<Rightarrow> bool" where
  "fle a b \<longleftrightarrow> flt a b \<or> feq a b"

text \<open>\<open>f64::max\<close> and \<open>f64::min\<close> ignore a NaN operand.\<close>

definition fmax :: "f64 \<Rightarrow> f64 \<Rightarrow> f64" where
  "fmax a b = (if a = FNan then b else if b = FNan then a else if flt a b then b else a)"

definition fmin :: "f64 \<Rightarrow> f64 \<Rightarrow> f64" where
  "fmin a b = (if a = FNan then b else if b = FNan then a else if flt b a then b else a)"

text \<open>\<open>f64::clamp\<close>: a NaN stays a NaN.\<close>

definition fclamp :: "f64 \<Rightarrow> f64 \<Rightarrow> f64 \<Rightarrow> f64" where
  "fclamp x lo hi = (if flt x lo then lo else if flt hi x then hi else x)"

text \<open>\<open>f64::round\<close>: half away from zero.  \<open>trunc\<close>, \<open>fract\<close>, \<open>floor\<close>, \<open>ceil\<close> are exact.\<close>

definition round_away :: "rat \<Rightarrow> int" where
  "round_away r = (if 0 \<le> r then \<lfloor>r + 1 / 2\<rfloor> else - \<lfloor>- r + 1 / 2\<rfloor>)"

definition trunc_int :: "rat \<Rightarrow> int" where
  "trunc_int r = (if 0 \<le> r then \<lfloor>r\<rfloor> else - \<lfloor>- r\<rfloor>)"

fun fmap :: "(rat \<Rightarrow> rat) \<Rightarrow> f64 \<Rightarrow> f64" where
  "fmap f (Fin r) = Fin (f r)"
| "fmap f x = x"

definition fround :: "f64 \<Rightarrow> f64" where "fround = fmap (\<lambda>r. of_int (round_away r))"

definition ffloor :: "f64 \<Rightarrow> f64" where "ffloor = fmap (\<lambda>r. of_int \<lfloor>r\<rfloor>)"

definition fceil :: "f64 \<Rightarrow> f64" where "fceil = fmap (\<lambda>r. of_int \<lceil>r\<rceil>)"

fun ffract :: "f64 \<Rightarrow> f64" where
  "ffract (Fin r) = Fin (r - of_int (trunc_int r))"
| "ffract _ = FNan"

fun fabs :: "f64 \<Rightarrow> f64" where
  "fabs FNan = FNan"
| "fabs (FInf _) = FInf True"
| "fabs (Fin r) = Fin \<bar>r\<bar>"

fun is_finite :: "f64 \<Rightarrow> bool" where
  "is_finite (Fin _) = True"
| "is_finite _ = False"

text \<open>\<open>as i64\<close>, \<open>as u64\<close>: truncate and saturate, NaN is zero.\<close>

definition sat_int :: "int \<Rightarrow> int \<Rightarrow> f64 \<Rightarrow> int" where
  "sat_int lo hi x =
     (case x of FNan \<Rightarrow> 0 | FInf p \<Rightarrow> if p then hi else lo | Fin r \<Rightarrow> max lo (min hi (trunc_int r)))"

definition f_to_i64 :: "f64 \<Rightarrow> int" where "f_to_i64 = sat_int (- (2 ^ 63)) (2 ^ 63 - 1)"

definition f_to_u64 :: "f64 \<Rightarrow> nat" where "f_to_u64 x = nat (sat_int 0 (2 ^ 64 - 1) x)"

section \<open>JSON numbers\<close>

type_synonym jvalue = "f64 json"

fun as_f64 :: "jvalue \<Rightarrow> f64 option" where
  "as_f64 (JInt i) = Some (f_of_int i)"
| "as_f64 (JFloat x) = Some x"
| "as_f64 _ = None"

text \<open>\<open>Number::from_f64\<close>: no JSON number for an infinity or a NaN.\<close>

definition number_from_f64 :: "f64 \<Rightarrow> jvalue option" where
  "number_from_f64 x = (if is_finite x then Some (JFloat x) else None)"

section \<open>Facts\<close>

lemma half_even_int [simp]: "half_even (of_int i) = i"
  by (simp add: half_even_def Let_def)

lemma rnd_exact:
  assumes "r = of_int i * 2 powi ulp_exp r" "\<bar>r\<bar> < 2 ^ 1024"
  shows "rnd r = Fin r"
proof (cases "r = 0")
  case False
  have "(2 :: rat) powi ulp_exp r \<noteq> 0" by simp
  then have "r / 2 powi ulp_exp r = of_int i" using assms(1) by (metis nonzero_mult_div_cancel_right)
  then show ?thesis using assms False by (simp add: rnd_def Let_def)
qed (simp add: rnd_def)

lemma rnd_0 [simp]: "rnd 0 = Fin 0"
  by (simp add: rnd_def)

lemma half_even_ge: "of_int i \<le> r \<Longrightarrow> i \<le> half_even r"
proof -
  assume "of_int i \<le> r"
  then have "i \<le> \<lfloor>r\<rfloor>" by (simp add: le_floor_iff)
  then show ?thesis by (auto simp: half_even_def Let_def)
qed

lemma half_even_le: "r \<le> of_int i \<Longrightarrow> half_even r \<le> i"
proof -
  assume *: "r \<le> of_int i"
  then have "\<lfloor>r\<rfloor> \<le> i" by (simp add: floor_le_iff)
  moreover have "r = of_int i" if "\<lfloor>r\<rfloor> = i"
    using * that of_int_floor_le [of r] by simp
  ultimately show ?thesis by (cases "\<lfloor>r\<rfloor> = i") (auto simp: half_even_def Let_def)
qed

lemma rnd_nonneg: "0 \<le> r \<Longrightarrow> \<not> flt (rnd r) (Fin 0) \<and> rnd r \<noteq> FNan"
proof (cases "r = 0")
  case False
  assume "0 \<le> r"
  then have "0 \<le> r / 2 powi ulp_exp r" by simp
  then have "0 \<le> half_even (r / 2 powi ulp_exp r)"
    using half_even_ge [of 0] by simp
  then have "(0 :: rat) \<le> of_int (half_even (r / 2 powi ulp_exp r)) * 2 powi ulp_exp r" by simp
  then show ?thesis using False \<open>0 \<le> r\<close> by (simp only: rnd_def Let_def if_False) (auto simp: not_less)
qed simp

lemma rnd_not_nan [simp]: "rnd r \<noteq> FNan"
  by (simp add: rnd_def Let_def)

lemma as_f64_not_nan: "as_f64 v = Some x \<Longrightarrow> \<forall>y. v \<noteq> JFloat y \<Longrightarrow> x \<noteq> FNan"
  by (cases v) (auto simp: f_of_int_def)

text \<open>Integers below \<open>2^53\<close> are exact.\<close>

lemma quotient_of_pos_int: "0 < n \<Longrightarrow> quotient_of (of_int n) = (n, 1)"
  by (simp add: quotient_of_int)

lemma floorlog_le: "0 < n \<Longrightarrow> n < 2 ^ k \<Longrightarrow> floorlog 2 n \<le> k"
  by (simp add: floorlog_le_iff)

lemma lead_exp_int: "0 < n \<Longrightarrow> n < 2 ^ 53 \<Longrightarrow> lead_exp (of_int n) \<le> 52"
proof -
  assume n: "0 < n" "n < 2 ^ 53"
  have "floorlog 2 (nat n) \<le> 53"
    by (rule floorlog_le) (use n in \<open>simp_all add: nat_less_iff\<close>)
  moreover have "floorlog 2 1 = 1" by (simp add: floorlog_def)
  ultimately show ?thesis using n by (simp add: lead_exp_def quotient_of_pos_int Let_def)
qed

lemma f_of_int_exact:
  assumes "\<bar>i\<bar> < 2 ^ 53"
  shows "f_of_int i = Fin (of_int i)"
proof (cases "i = 0")
  case False
  have "lead_exp (of_int \<bar>i\<bar>) \<le> 52" by (rule lead_exp_int) (use assms False in simp_all)
  then have le: "ulp_exp (of_int i) \<le> 0" by (simp add: ulp_exp_def flip: of_int_abs)
  obtain k :: nat where k: "ulp_exp (of_int i) = - int k" using le by (metis nonpos_int_cases)
  have "of_int i = of_int (i * 2 ^ k) * (2 :: rat) powi ulp_exp (of_int i)"
    by (simp add: k power_int_minus field_simps)
  moreover have "\<bar>of_int i :: rat\<bar> < 2 ^ 1024"
  proof -
    have "\<bar>of_int i :: rat\<bar> < of_int (2 ^ 53)" using assms by (simp only: of_int_abs [symmetric] of_int_less_iff)
    also have "\<dots> \<le> 2 ^ 1024" by simp
    finally show ?thesis .
  qed
  ultimately show ?thesis unfolding f_of_int_def by (rule rnd_exact)
qed (simp add: f_of_int_def)

text \<open>Rounding keeps the magnitude of a number.\<close>

lemma floorlog_range: "0 < n \<Longrightarrow> 2 ^ (floorlog 2 n - 1) \<le> n \<and> n < 2 ^ floorlog 2 n \<and> 0 < floorlog 2 n"
proof -
  assume n: "0 < n"
  have "2 ^ (floorlog 2 n - 1) \<le> n \<and> n < 2 ^ floorlog 2 n" by (rule floorlog_bounds) (use n in simp_all)
  moreover have "0 < floorlog 2 n" using n by (simp add: floorlog_def)
  ultimately show ?thesis by blast
qed

lemma lead_exp_le:
  assumes "0 < r"
  shows "2 powi lead_exp r \<le> r"
proof -
  obtain n d where q: "quotient_of r = (n, d)" by force
  have d: "0 < d" using quotient_of_denom_pos [OF q] .
  have r: "r = of_int n / of_int d" by (rule quotient_of_div [OF q])
  have n: "0 < n" using assms r d by (simp add: zero_less_divide_iff)
  let ?a = "floorlog 2 (nat n)" and ?b = "floorlog 2 (nat d)"
  have a: "2 ^ (?a - 1) \<le> nat n" "0 < ?a" and b: "nat d < 2 ^ ?b"
    using floorlog_range [of "nat n"] floorlog_range [of "nat d"] n d by simp_all
  have "(2 :: rat) powi (int ?a - int ?b - 1) = 2 powi int (?a - 1) / 2 powi int ?b"
    using a(2) by (subst power_int_diff [symmetric]) (simp_all add: of_nat_diff algebra_simps)
  also have "\<dots> = 2 ^ (?a - 1) / 2 ^ ?b" by simp
  also have "\<dots> \<le> of_int n / of_int d"
  proof (rule frac_le)
    have "int (2 ^ (?a - 1)) \<le> n" using a(1) n by linarith
    then show "(2 :: rat) ^ (?a - 1) \<le> of_int n" by (metis of_int_le_iff of_int_of_nat_eq of_nat_numeral of_nat_power)
    have "d \<le> int (2 ^ ?b)" using b d by linarith
    then show "(of_int d :: rat) \<le> 2 ^ ?b" by (metis of_int_le_iff of_int_of_nat_eq of_nat_numeral of_nat_power)
  qed (use n d in simp_all)
  finally show ?thesis using q r by (auto simp: lead_exp_def Let_def)
qed

lemma half_even_near: "of_int (half_even x) \<le> x + 1 / 2"
proof -
  have "of_int \<lfloor>x\<rfloor> \<le> x" by simp
  then have "of_int \<lfloor>x\<rfloor> \<le> x + 1 / 2" by linarith
  then show ?thesis by (auto simp: half_even_def Let_def field_simps)
qed

lemma half_even_near': "x - 1 / 2 \<le> of_int (half_even x)"
proof -
  have "x < of_int \<lfloor>x\<rfloor> + 1" by linarith
  then show ?thesis by (auto simp: half_even_def Let_def field_simps)
qed

text \<open>A positive number in the normal range rounds to a positive finite one of its own magnitude.\<close>

lemma rnd_pos:
  assumes "2 powi - 1074 \<le> r" "r \<le> 2 ^ 1000"
  obtains q where "rnd r = Fin q" "r / 2 \<le> q" "q \<le> 2 * r" "0 < q"
proof -
  let ?u = "2 powi ulp_exp r :: rat"
  have r: "0 < r" using assms(1) by (rule less_le_trans [rotated]) simp
  have u0: "0 < ?u" by simp
  have u: "?u \<le> r"
  proof (cases "lead_exp r - 52 \<le> - 1074")
    case True
    then show ?thesis using assms(1) r by (simp add: ulp_exp_def max_def)
  next
    case False
    then have "?u = 2 powi (lead_exp r - 52)" using r by (simp add: ulp_exp_def max_def)
    also have "\<dots> \<le> 2 powi lead_exp r" by (rule power_int_increasing) simp_all
    finally show ?thesis using lead_exp_le [OF r] by linarith
  qed
  define v where "v = of_int (half_even (r / ?u)) * ?u"
  have "(r / ?u - 1 / 2) * ?u \<le> v" unfolding v_def by (rule mult_right_mono [OF half_even_near']) simp
  moreover have "(r / ?u - 1 / 2) * ?u = r - ?u / 2" using u0 by (simp add: field_simps)
  ultimately have lo: "r / 2 \<le> v" using u by linarith
  have "v \<le> (r / ?u + 1 / 2) * ?u" unfolding v_def by (rule mult_right_mono [OF half_even_near]) simp
  moreover have "(r / ?u + 1 / 2) * ?u = r + ?u / 2" using u0 by (simp add: field_simps)
  ultimately have hi: "v \<le> 2 * r" using u r by linarith
  have "2 * r < 2 ^ 1024" using assms(2) by (rule le_less_trans [OF mult_left_mono]) simp_all
  then have "\<bar>v\<bar> < 2 ^ 1024" using lo hi r by simp
  then have "rnd r = Fin v" using r by (simp add: rnd_def Let_def v_def)
  then show thesis using that lo hi r by simp
qed

end
