(* ===== verification/Syncplay.thy ===== *)
theory Syncplay
  imports Float64
begin

text \<open>
  \<open>crates/gateway/src/syncplay.rs\<close>: watch-together groups.  The two \<open>IndexMap\<close>s are
  insertion-ordered maps; every handler prunes idle members first, with the clock (epoch
  milliseconds, \<open>i64\<close>) read under the lock.  The parsed request body, the fresh uuid and the
  authenticated session are arguments.
\<close>

section \<open>Model\<close>

definition member_idle_ms :: int where "member_idle_ms = 60000"

record member =
  mb_username :: string
  mb_seen :: int

record group =
  gr_id :: string
  gr_host :: string
  gr_kind :: string
  gr_media :: nat
  gr_paused :: bool
  gr_position :: f64
  gr_at :: int
  gr_version :: nat
  gr_members :: "(string, member) imap"

type_synonym groups = "(string, group) imap"

definition position_at :: "group \<Rightarrow> int \<Rightarrow> f64" where
  "position_at g now =
     (if gr_paused g then gr_position g
      else fmax (fadd (gr_position g) (fdiv (f_of_int (wrap64 (now - gr_at g))) (Fin 1000))) (Fin 0))"

definition rehost :: "group \<Rightarrow> group" where
  "rehost g = (case gr_members g of [] \<Rightarrow> g | (first, _) # _ \<Rightarrow> g\<lparr>gr_host := first\<rparr>)"

definition max_exact :: f64 where "max_exact = Fin 9007199254740992"

definition js_round3 :: "f64 \<Rightarrow> jvalue" where
  "js_round3 x =
     (let r = fdiv (fround (fmul x (Fin 1000))) (Fin 1000)
      in if feq (ffract r) (Fin 0) \<and> flt (fabs r) max_exact then JInt (f_to_i64 r)
         else (case number_from_f64 r of Some v \<Rightarrow> v | None \<Rightarrow> JInt 0))"

record snapshot =
  sn_id :: string
  sn_host :: string
  sn_kind :: string
  sn_media :: nat
  sn_paused :: bool
  sn_position :: jvalue
  sn_version :: nat
  sn_members :: "(string \<times> string) list"
  sn_count :: "nat option"

definition snapshot_of :: "group \<Rightarrow> int \<Rightarrow> bool \<Rightarrow> snapshot" where
  "snapshot_of g now with_count =
     \<lparr>sn_id = gr_id g, sn_host = gr_host g, sn_kind = gr_kind g, sn_media = gr_media g,
      sn_paused = gr_paused g, sn_position = js_round3 (position_at g now), sn_version = gr_version g,
      sn_members = map (\<lambda>(sub, m). (sub, mb_username m)) (gr_members g),
      sn_count = (if with_count then Some (length (gr_members g)) else None)\<rparr>"

definition bump :: "group \<Rightarrow> group" where
  "bump g = g\<lparr>gr_version := (gr_version g + 1) mod 2 ^ 64\<rparr>"

definition idle_subs :: "int \<Rightarrow> group \<Rightarrow> string list" where
  "idle_subs now g = map fst (filter (\<lambda>(_, m). wrap64 (now - mb_seen m) > member_idle_ms) (gr_members g))"

definition drop_member :: "string \<Rightarrow> group \<Rightarrow> group" where
  "drop_member sub g =
     (let g' = g\<lparr>gr_members := im_remove sub (gr_members g)\<rparr>
      in if gr_host g' = sub then rehost g' else g')"

definition prune_group :: "int \<Rightarrow> group \<Rightarrow> group" where
  "prune_group now g =
     (let idle = idle_subs now g; g' = fold drop_member idle g
      in if idle \<noteq> [] \<and> gr_members g' \<noteq> [] then bump g' else g')"

definition prune_idle :: "int \<Rightarrow> groups \<Rightarrow> groups" where
  "prune_idle now gs = filter (\<lambda>(_, g). gr_members g \<noteq> []) (map (\<lambda>(i, g). (i, prune_group now g)) gs)"

datatype sp_response = SpOk | SpErr nat string | SpGroup snapshot | SpList "snapshot list"

definition max_safe :: f64 where "max_safe = Fin 9007199254740991"

definition positive_int :: "jvalue \<Rightarrow> nat option" where
  "positive_int v =
     Option.bind (as_f64 v) (\<lambda>n.
       if feq (ffract n) (Fin 0) \<and> flt (Fin 0) n \<and> fle n max_safe then Some (f_to_u64 n) else None)"

definition sp_list :: "int \<Rightarrow> groups \<Rightarrow> sp_response \<times> groups" where
  "sp_list now gs0 =
     (let gs = prune_idle now gs0 in (SpList (map (\<lambda>(_, g). snapshot_of g now True) gs), gs))"

definition media_kind_of :: "jvalue \<Rightarrow> string option" where
  "media_kind_of body =
     (case Option.bind (json_get ''media_kind'' body) as_str of
        Some k \<Rightarrow> if k = ''movie'' then Some ''movie'' else if k = ''episode'' then Some ''episode'' else None
      | None \<Rightarrow> None)"

definition fresh_group :: "string \<Rightarrow> string \<Rightarrow> string \<Rightarrow> string \<Rightarrow> nat \<Rightarrow> int \<Rightarrow> group" where
  "fresh_group uuid sub username kind media now =
     \<lparr>gr_id = uuid, gr_host = sub, gr_kind = kind, gr_media = media, gr_paused = True,
      gr_position = Fin 0, gr_at = now, gr_version = 1,
      gr_members = [(sub, \<lparr>mb_username = username, mb_seen = now\<rparr>)]\<rparr>"

definition sp_create :: "string \<Rightarrow> string \<Rightarrow> string \<Rightarrow> sp_response + jvalue \<Rightarrow> int \<Rightarrow> groups
    \<Rightarrow> sp_response \<times> groups" where
  "sp_create uuid sub username read now gs0 =
     (case read of
        Inl r \<Rightarrow> (r, gs0)
      | Inr body \<Rightarrow>
          (case media_kind_of body of
             None \<Rightarrow> (SpErr 400 ''invalid_media_kind'', gs0)
           | Some kind \<Rightarrow>
               (case Option.bind (json_get ''media_id'' body) positive_int of
                  None \<Rightarrow> (SpErr 400 ''invalid_media_id'', gs0)
                | Some media \<Rightarrow>
                    (let gs = prune_idle now gs0; g = fresh_group uuid sub username kind media now
                     in (SpGroup (snapshot_of g now False), im_insert uuid g gs)))))"

definition sp_join :: "string \<Rightarrow> string \<Rightarrow> string \<Rightarrow> int \<Rightarrow> groups \<Rightarrow> sp_response \<times> groups" where
  "sp_join gid sub username now gs0 =
     (let gs = prune_idle now gs0 in
      case im_get gs gid of
        None \<Rightarrow> (SpErr 404 ''not_found'', gs)
      | Some g \<Rightarrow>
          (let g' = bump (g\<lparr>gr_members := im_insert sub \<lparr>mb_username = username, mb_seen = now\<rparr> (gr_members g)\<rparr>)
           in (SpGroup (snapshot_of g' now False), im_insert gid g' gs)))"

definition sp_leave :: "string \<Rightarrow> string \<Rightarrow> int \<Rightarrow> groups \<Rightarrow> sp_response \<times> groups" where
  "sp_leave gid sub now gs0 =
     (let gs = prune_idle now gs0 in
      case im_get gs gid of
        None \<Rightarrow> (SpErr 404 ''not_found'', gs)
      | Some g \<Rightarrow>
          (let g' = g\<lparr>gr_members := im_remove sub (gr_members g)\<rparr>
           in if gr_members g' = [] then (SpOk, im_remove gid gs)
              else (SpOk, im_insert gid (bump (if gr_host g' = sub then rehost g' else g')) gs)))"

definition touch_member :: "string \<Rightarrow> int \<Rightarrow> group \<Rightarrow> group option" where
  "touch_member sub now g =
     map_option (\<lambda>m. g\<lparr>gr_members := im_insert sub (m\<lparr>mb_seen := now\<rparr>) (gr_members g)\<rparr>)
       (im_get (gr_members g) sub)"

definition sp_poll :: "string \<Rightarrow> string \<Rightarrow> int \<Rightarrow> groups \<Rightarrow> sp_response \<times> groups" where
  "sp_poll gid sub now gs0 =
     (let gs = prune_idle now gs0 in
      case im_get gs gid of
        None \<Rightarrow> (SpErr 404 ''not_found'', gs)
      | Some g \<Rightarrow>
          (case touch_member sub now g of
             None \<Rightarrow> (SpErr 403 ''not_member'', gs)
           | Some g' \<Rightarrow> (SpGroup (snapshot_of g' now False), im_insert gid g' gs)))"

datatype transport = Play | Pause | Seek

definition transport_of :: "jvalue \<Rightarrow> transport option" where
  "transport_of body =
     (case Option.bind (json_get ''type'' body) as_str of
        None \<Rightarrow> None
      | Some t \<Rightarrow> if t = ''play'' then Some Play else if t = ''pause'' then Some Pause
                  else if t = ''seek'' then Some Seek else None)"

definition position_of :: "transport \<Rightarrow> jvalue \<Rightarrow> sp_response + f64 option" where
  "position_of t body =
     (case json_get ''position_secs'' body of
        Some v \<Rightarrow>
          (case as_f64 v of
             Some n \<Rightarrow> if is_finite n then Inr (Some n) else Inl (SpErr 400 ''invalid_position'')
           | None \<Rightarrow> Inl (SpErr 400 ''invalid_position''))
      | None \<Rightarrow> if t = Seek then Inl (SpErr 400 ''invalid_position'') else Inr None)"

definition transported :: "transport \<Rightarrow> f64 option \<Rightarrow> int \<Rightarrow> group \<Rightarrow> group" where
  "transported t pos now g =
     bump (g\<lparr>gr_position := fmax (case pos of Some p \<Rightarrow> p | None \<Rightarrow> position_at g now) (Fin 0),
             gr_at := now,
             gr_paused := (case t of Play \<Rightarrow> False | Pause \<Rightarrow> True | Seek \<Rightarrow> gr_paused g)\<rparr>)"

definition sp_command :: "string \<Rightarrow> string \<Rightarrow> sp_response + jvalue \<Rightarrow> int \<Rightarrow> groups
    \<Rightarrow> sp_response \<times> groups" where
  "sp_command gid sub read now gs0 =
     (case read of
        Inl r \<Rightarrow> (r, gs0)
      | Inr body \<Rightarrow>
          (case transport_of body of
             None \<Rightarrow> (SpErr 400 ''invalid_type'', gs0)
           | Some t \<Rightarrow>
               (case position_of t body of
                  Inl r \<Rightarrow> (r, gs0)
                | Inr pos \<Rightarrow>
                    (let gs = prune_idle now gs0 in
                     case im_get gs gid of
                       None \<Rightarrow> (SpErr 404 ''not_found'', gs)
                     | Some g \<Rightarrow>
                         (case touch_member sub now g of
                            None \<Rightarrow> (SpErr 403 ''not_member'', gs)
                          | Some g1 \<Rightarrow>
                              (let g' = transported t pos now g1
                               in (SpGroup (snapshot_of g' now False), im_insert gid g' gs)))))))"

text \<open>A request: the caller's sub and username, and the route with its inputs.\<close>

datatype sp_route =
  RList
| RCreate string "sp_response + jvalue"
| RJoin string
| RLeave string
| RPoll string
| RCommand string "sp_response + jvalue"

fun sp_handle :: "groups \<Rightarrow> int \<times> string \<times> string \<times> sp_route \<Rightarrow> sp_response \<times> groups" where
  "sp_handle gs (now, sub, user, RList) = sp_list now gs"
| "sp_handle gs (now, sub, user, RCreate uuid body) = sp_create uuid sub user body now gs"
| "sp_handle gs (now, sub, user, RJoin gid) = sp_join gid sub user now gs"
| "sp_handle gs (now, sub, user, RLeave gid) = sp_leave gid sub now gs"
| "sp_handle gs (now, sub, user, RPoll gid) = sp_poll gid sub now gs"
| "sp_handle gs (now, sub, user, RCommand gid body) = sp_command gid sub body now gs"

definition sp_step :: "groups \<Rightarrow> int \<times> string \<times> string \<times> sp_route \<Rightarrow> groups" where
  "sp_step gs q = snd (sp_handle gs q)"

section \<open>Pruning\<close>

lemma im_remove_filter: "im_remove k m = filter (\<lambda>(i, _). i \<noteq> k) m"
  by (induction m) auto

lemma drop_member_members: "gr_members (drop_member s g) = filter (\<lambda>(i, _). i \<noteq> s) (gr_members g)"
  by (simp add: drop_member_def Let_def rehost_def im_remove_filter split: list.split prod.split)

lemma fold_drop_members:
  "gr_members (fold drop_member ss g) = filter (\<lambda>(i, _). i \<notin> set ss) (gr_members g)"
proof (induction ss arbitrary: g)
  case Nil
  then show ?case by (simp add: case_prod_unfold)
next
  case (Cons s ss)
  show ?case by (simp add: Cons.IH drop_member_members filter_filter case_prod_unfold conj_commute)
qed

text \<open>Everything but the host and the roster is kept by the drops.\<close>

lemma drop_member_keeps:
  "gr_id (drop_member s g) = gr_id g" "gr_kind (drop_member s g) = gr_kind g"
  "gr_media (drop_member s g) = gr_media g" "gr_paused (drop_member s g) = gr_paused g"
  "gr_position (drop_member s g) = gr_position g" "gr_at (drop_member s g) = gr_at g"
  "gr_version (drop_member s g) = gr_version g"
  by (simp_all add: drop_member_def Let_def rehost_def split: list.split prod.split)

lemma fold_drop_keeps:
  "gr_id (fold drop_member ss g) = gr_id g" "gr_kind (fold drop_member ss g) = gr_kind g"
  "gr_media (fold drop_member ss g) = gr_media g" "gr_paused (fold drop_member ss g) = gr_paused g"
  "gr_position (fold drop_member ss g) = gr_position g" "gr_at (fold drop_member ss g) = gr_at g"
  "gr_version (fold drop_member ss g) = gr_version g"
  by (induction ss arbitrary: g) (simp_all add: drop_member_keeps)

lemma fold_drop_host_kept:
  "gr_host g \<notin> set ss \<Longrightarrow> gr_host (fold drop_member ss g) = gr_host g"
  by (induction ss arbitrary: g) (auto simp: drop_member_def Let_def)

text \<open>
  A drop of the host leaves the first remaining member hosting.  Along the fold the host is either
  the original one, not yet dropped, or the first of the roster at that point.
\<close>

lemma fold_drop_host_first:
  assumes "im_wf (gr_members g)" "gr_members (fold drop_member ss g) \<noteq> []"
    "gr_host g \<in> set ss \<or> gr_host g = fst (hd (gr_members g))"
  shows "gr_host (fold drop_member ss g) = fst (hd (gr_members (fold drop_member ss g)))"
  using assms
proof (induction ss arbitrary: g)
  case Nil
  then show ?case by simp
next
  case (Cons s ss)
  let ?g = "drop_member s g"
  have wf: "im_wf (gr_members ?g)" using Cons.prems(1) by (simp add: drop_member_members)
  have ne: "gr_members ?g \<noteq> []"
    using Cons.prems(2) by (auto simp: fold_drop_members)
  have first: "gr_host ?g \<in> set ss \<or> gr_host ?g = fst (hd (gr_members ?g))"
  proof (cases "gr_host g = s")
    case True
    then show ?thesis using ne
      by (auto simp: drop_member_def Let_def rehost_def split: list.splits)
  next
    case False
    then have host: "gr_host ?g = gr_host g" by (simp add: drop_member_def Let_def)
    show ?thesis
    proof (cases "gr_host g \<in> set ss")
      case False
      then have "gr_host g = fst (hd (gr_members g))" using Cons.prems(3) \<open>gr_host g \<noteq> s\<close> by simp
      then have "gr_host g = fst (hd (gr_members ?g))"
        using \<open>gr_host g \<noteq> s\<close> ne Cons.prems(2)
        by (cases "gr_members g") (auto simp: drop_member_members)
      then show ?thesis by (simp add: host)
    qed (simp add: host)
  qed
  then show ?case using Cons.IH [OF wf _ first] Cons.prems(2) by simp
qed

section \<open>The invariant\<close>

text \<open>
  A stored group has members, distinct ones, its host among them, and a playhead that is a number
  and not negative; a group is stored under its own id.
\<close>

definition group_ok :: "group \<Rightarrow> bool" where
  "group_ok g \<longleftrightarrow> im_wf (gr_members g) \<and> gr_members g \<noteq> [] \<and> gr_host g \<in> fst ` set (gr_members g)
     \<and> gr_position g \<noteq> FNan \<and> \<not> flt (gr_position g) (Fin 0)"

definition groups_ok :: "groups \<Rightarrow> bool" where
  "groups_ok gs \<longleftrightarrow> im_wf gs \<and> (\<forall>(i, g)\<in>set gs. gr_id g = i \<and> group_ok g)"

definition alive :: "int \<Rightarrow> group \<Rightarrow> (string, member) imap" where
  "alive now g = filter (\<lambda>(_, m). wrap64 (now - mb_seen m) \<le> member_idle_ms) (gr_members g)"

lemma idle_subs_iff:
  assumes "im_wf (gr_members g)" "(i, m) \<in> set (gr_members g)"
  shows "i \<in> set (idle_subs now g) \<longleftrightarrow> \<not> wrap64 (now - mb_seen m) \<le> member_idle_ms"
proof -
  have "m' = m" if "(i, m') \<in> set (gr_members g)" for m'
    using assms that by (metis eq_key_imp_eq_value)
  then have unique: "\<forall>m'. (i, m') \<in> set (gr_members g) \<longrightarrow> m' = m" by blast
  show ?thesis
  proof
    assume "i \<in> set (idle_subs now g)"
    then obtain m' where "(i, m') \<in> set (gr_members g)" "wrap64 (now - mb_seen m') > member_idle_ms"
      by (auto simp only: idle_subs_def set_map set_filter image_iff mem_Collect_eq split_beta fst_conv snd_conv
          prod.collapse)
    then show "\<not> wrap64 (now - mb_seen m) \<le> member_idle_ms" using unique by (metis not_le)
  next
    assume "\<not> wrap64 (now - mb_seen m) \<le> member_idle_ms"
    then have "(i, m) \<in> set (filter (\<lambda>(_, m). wrap64 (now - mb_seen m) > member_idle_ms) (gr_members g))"
      using assms(2) by (simp only: set_filter mem_Collect_eq prod.case not_le simp_thms)
    then show "i \<in> set (idle_subs now g)" unfolding idle_subs_def set_map by (metis fst_conv imageI)
  qed
qed

lemma bump_simps [simp]:
  "gr_members (bump g) = gr_members g" "gr_host (bump g) = gr_host g" "gr_id (bump g) = gr_id g"
  "gr_position (bump g) = gr_position g" "gr_paused (bump g) = gr_paused g" "gr_at (bump g) = gr_at g"
  "gr_version (bump g) = (gr_version g + 1) mod 2 ^ 64"
  by (simp_all add: bump_def)

lemma prune_members:
  assumes "im_wf (gr_members g)"
  shows "gr_members (prune_group now g) = alive now g"
proof -
  have "gr_members (prune_group now g) = filter (\<lambda>(i, _). i \<notin> set (idle_subs now g)) (gr_members g)"
    by (simp add: prune_group_def Let_def fold_drop_members)
  also have "\<dots> = alive now g"
    unfolding alive_def by (rule filter_cong [OF refl]) (use idle_subs_iff [OF assms] in auto)
  finally show ?thesis .
qed

lemma prune_keeps:
  "gr_id (prune_group now g) = gr_id g" "gr_position (prune_group now g) = gr_position g"
  "gr_paused (prune_group now g) = gr_paused g" "gr_at (prune_group now g) = gr_at g"
  by (simp_all add: prune_group_def Let_def fold_drop_keeps)

lemma prune_host:
  assumes "group_ok g" "alive now g \<noteq> []"
  shows "gr_host (prune_group now g) =
    (if gr_host g \<in> fst ` set (alive now g) then gr_host g else fst (hd (alive now g)))"
proof -
  let ?g = "fold drop_member (idle_subs now g) g"
  have wf: "im_wf (gr_members g)" using assms(1) by (simp add: group_ok_def)
  have host: "gr_host (prune_group now g) = gr_host ?g" by (simp add: prune_group_def Let_def)
  have members: "gr_members ?g = alive now g"
    using prune_members [OF wf, of now] by (simp add: prune_group_def Let_def split: if_splits)
  obtain m where m: "(gr_host g, m) \<in> set (gr_members g)" using assms(1) by (auto simp: group_ok_def)
  show ?thesis
  proof (cases "gr_host g \<in> set (idle_subs now g)")
    case False
    then have "(gr_host g, m) \<in> set (alive now g)"
      using m idle_subs_iff [OF wf m] by (simp add: alive_def)
    then show ?thesis using fold_drop_host_kept [OF False] by (force simp: host)
  next
    case True
    have "gr_host g \<notin> fst ` set (alive now g)"
      using True idle_subs_iff [OF wf] by (auto simp: alive_def)
    then show ?thesis
      using fold_drop_host_first [OF wf, of "idle_subs now g"] True assms(2) by (simp add: host members)
  qed
qed

lemma prune_group_ok:
  assumes "group_ok g" "gr_members (prune_group now g) \<noteq> []"
  shows "group_ok (prune_group now g)"
proof -
  have wf: "im_wf (gr_members g)" using assms(1) by (simp add: group_ok_def)
  have "im_wf (alive now g)" unfolding alive_def by (rule im_wf_filter [OF wf])
  moreover have ne: "alive now g \<noteq> []" using assms(2) by (simp add: prune_members [OF wf])
  moreover have "fst (hd (alive now g)) \<in> fst ` set (alive now g)" using ne by simp
  ultimately show ?thesis
    using assms(1) by (simp add: group_ok_def prune_members [OF wf] prune_host [OF assms(1) ne] prune_keeps)
qed

lemma prune_idle_ok: "groups_ok gs \<Longrightarrow> groups_ok (prune_idle now gs)"
proof -
  assume *: "groups_ok gs"
  have "im_wf (map (\<lambda>(i, g). (i, prune_group now g)) gs)"
    using * by (simp add: groups_ok_def comp_def case_prod_unfold)
  then show ?thesis
    using * prune_group_ok by (auto simp: groups_ok_def prune_idle_def prune_keeps)
qed

lemma fmax_zero: "fmax x (Fin 0) \<noteq> FNan \<and> \<not> flt (fmax x (Fin 0)) (Fin 0)"
  by (cases x) (auto simp: fmax_def)

lemma groups_ok_insert:
  "groups_ok gs \<Longrightarrow> gr_id g = i \<Longrightarrow> group_ok g \<Longrightarrow> groups_ok (im_insert i g gs)"
  by (auto simp: groups_ok_def set_im_insert)

lemma groups_ok_get: "groups_ok gs \<Longrightarrow> im_get gs i = Some g \<Longrightarrow> gr_id g = i \<and> group_ok g"
  by (auto simp: groups_ok_def dest: map_of_SomeD)

lemma touch_member_ok:
  assumes "group_ok g" "touch_member sub now g = Some g'"
  shows "group_ok g' \<and> gr_id g' = gr_id g"
proof -
  obtain m where m: "im_get (gr_members g) sub = Some m"
    and g': "g' = g\<lparr>gr_members := im_insert sub (m\<lparr>mb_seen := now\<rparr>) (gr_members g)\<rparr>"
    using assms(2) by (auto simp: touch_member_def)
  have "fst ` set (gr_members g') = fst ` set (gr_members g)"
    using m by (force simp: g' dom_update map_of_SomeD dom_map_of_conv_image_fst [symmetric] update_conv')
  moreover from this have "gr_members g' \<noteq> []" using assms(1) by (auto simp: group_ok_def)
  ultimately show ?thesis using assms(1) by (simp add: group_ok_def g')
qed

lemma join_ok:
  assumes "group_ok g"
  shows "group_ok (bump (g\<lparr>gr_members := im_insert sub m (gr_members g)\<rparr>))"
  using assms by (auto simp: group_ok_def set_im_insert)

lemma leave_ok:
  assumes "group_ok g" "im_remove sub (gr_members g) \<noteq> []"
  defines "g' \<equiv> g\<lparr>gr_members := im_remove sub (gr_members g)\<rparr>"
  shows "group_ok (bump (if gr_host g' = sub then rehost g' else g'))"
proof -
  obtain i m xs where ms: "im_remove sub (gr_members g) = (i, m) # xs" using assms(2) by (cases rule: list.exhaust) auto
  have wf: "im_wf (im_remove sub (gr_members g))" using assms(1) by (simp add: group_ok_def)
  have "gr_host g \<in> fst ` set (im_remove sub (gr_members g))" if "gr_host g \<noteq> sub"
    using assms(1) that by (force simp: group_ok_def im_remove_filter)
  then show ?thesis
    using assms(1) wf by (simp add: group_ok_def g'_def rehost_def ms)
qed

lemma transported_ok: "group_ok g \<Longrightarrow> group_ok (transported t pos now g)"
  using fmax_zero by (auto simp: group_ok_def transported_def)

lemma fresh_group_ok: "group_ok (fresh_group uuid sub user kind media now) \<and> gr_id (fresh_group uuid sub user kind media now) = uuid"
  by (simp add: group_ok_def fresh_group_def)

lemma sp_step_ok [machine_inv]:
  assumes "groups_ok gs"
  shows "groups_ok (sp_step gs q)"
proof -
  obtain now sub user r where q: "q = (now, sub, user, r)" by (cases q)
  note pruned = prune_idle_ok [OF assms, of now]
  have store: "groups_ok (im_insert gid h (prune_idle now gs))"
    if "im_get (prune_idle now gs) gid = Some g" "group_ok g \<Longrightarrow> group_ok h" "gr_id h = gr_id g" for gid g h
    using groups_ok_get [OF pruned that(1)] that(2,3) by (intro groups_ok_insert [OF pruned]) simp_all
  show ?thesis
  proof (cases r)
    case RList
    then show ?thesis using pruned by (simp add: q sp_step_def sp_list_def Let_def)
  next
    case (RCreate uuid read)
    have "groups_ok (im_insert uuid (fresh_group uuid sub user kind media now) (prune_idle now gs))" for kind media
      by (rule groups_ok_insert [OF pruned]) (simp_all add: fresh_group_ok)
    then show ?thesis using assms pruned RCreate
      by (simp add: q sp_step_def sp_create_def Let_def split: sum.split option.split)
  next
    case (RJoin gid)
    then show ?thesis using pruned
      by (auto simp: q sp_step_def sp_join_def Let_def split: option.split intro!: store join_ok)
  next
    case (RLeave gid)
    have rid: "gr_id (rehost g) = gr_id g" for g :: group by (simp add: rehost_def split: list.split prod.split)
    have "groups_ok (im_remove gid (prune_idle now gs))"
      using pruned by (auto simp: groups_ok_def im_remove_filter)
    moreover have "groups_ok (im_insert gid (bump (if gr_host g = sub then rehost (g\<lparr>gr_members := im_remove sub (gr_members g)\<rparr>)
        else g\<lparr>gr_members := im_remove sub (gr_members g)\<rparr>)) (prune_idle now gs))"
      if "im_get (prune_idle now gs) gid = Some g" "im_remove sub (gr_members g) \<noteq> []" for g
      using leave_ok [of g sub] that by (intro store [OF that(1)]) (simp_all add: rid split: if_splits)
    ultimately show ?thesis using RLeave pruned
      by (simp add: q sp_step_def sp_leave_def Let_def if_distrib [of snd] split: option.split)
  next
    case (RPoll gid)
    have "groups_ok (im_insert gid h (prune_idle now gs))"
      if "im_get (prune_idle now gs) gid = Some g" "touch_member sub now g = Some h" for g h
      using touch_member_ok [OF _ that(2)] groups_ok_get [OF pruned that(1)] by (intro store [OF that(1)]) simp_all
    then show ?thesis using RPoll pruned
      by (simp add: q sp_step_def sp_poll_def Let_def split: option.split)
  next
    case (RCommand gid read)
    have "groups_ok (im_insert gid (transported t pos now h) (prune_idle now gs))"
      if "im_get (prune_idle now gs) gid = Some g" "touch_member sub now g = Some h" for g h t pos
      using touch_member_ok [OF _ that(2)] groups_ok_get [OF pruned that(1)] transported_ok
      by (intro store [OF that(1)]) (simp_all add: transported_def [THEN arg_cong, of gr_id])
    then show ?thesis using RCommand assms pruned
      by (simp add: q sp_step_def sp_command_def Let_def split: option.split sum.split)
  qed
qed

interpretation sp_machine: machine sp_step groups_ok
  by unfold_locales (rule sp_step_ok)

section \<open>Versions\<close>

text \<open>What a snapshot shows, the clock aside.\<close>

definition shown :: "group \<Rightarrow> string \<times> bool \<times> f64 \<times> int \<times> (string \<times> string) list" where
  "shown g = (gr_host g, gr_paused g, gr_position g, gr_at g, map (\<lambda>(s, m). (s, mb_username m)) (gr_members g))"

definition newer :: "group \<Rightarrow> group \<Rightarrow> bool" where
  "newer g g' \<longleftrightarrow> gr_version g' = gr_version g \<and> shown g' = shown g
     \<or> gr_version g < gr_version g' \<and> gr_version g' \<le> gr_version g + 1"

lemma prune_newer: "gr_version g + 1 < 2 ^ 64 \<Longrightarrow> gr_members (prune_group now g) \<noteq> [] \<Longrightarrow> newer g (prune_group now g)"
  by (auto simp: newer_def prune_group_def Let_def fold_drop_keeps shown_def split: if_splits)

lemma touch_newer:
  assumes "group_ok g" "touch_member sub now g = Some g'"
  shows "gr_version g' = gr_version g \<and> shown g' = shown g"
proof -
  obtain m where m: "im_get (gr_members g) sub = Some m"
    and g': "g' = g\<lparr>gr_members := im_insert sub (m\<lparr>mb_seen := now\<rparr>) (gr_members g)\<rparr>"
    using assms(2) by (auto simp: touch_member_def)
  have "map (\<lambda>(s, m). (s, mb_username m)) (im_insert sub (m\<lparr>mb_seen := now\<rparr>) ms) = map (\<lambda>(s, m). (s, mb_username m)) ms"
    if "im_wf ms" "im_get ms sub = Some m" for ms
    using that by (induction ms) (auto split: if_splits)
  then show ?thesis using m assms(1) by (simp add: g' shown_def group_ok_def)
qed

lemma get_pruned:
  assumes "im_get (prune_idle now gs) i = Some g'" "groups_ok gs"
  obtains g where "im_get gs i = Some g" "g' = prune_group now g" "gr_members g' \<noteq> []"
proof -
  have "im_get (filter (\<lambda>(_, g). gr_members g \<noteq> []) (map (\<lambda>(i, g). (i, prune_group now g)) ms)) i = Some g' \<Longrightarrow>
      im_wf ms \<Longrightarrow> \<exists>g. im_get ms i = Some g \<and> g' = prune_group now g \<and> gr_members g' \<noteq> []" for ms
  proof (induction ms)
    case (Cons e ms)
    then show ?case
      by (cases e) (auto split: if_splits dest!: map_of_SomeD simp: image_iff)
  qed simp
  then show thesis using assms that by (auto simp: prune_idle_def groups_ok_def)
qed

text \<open>What one request does to the pruned groups.\<close>

definition effect_on :: "groups \<Rightarrow> groups \<Rightarrow> bool" where
  "effect_on ps ps' \<longleftrightarrow> ps' = ps \<or> (\<exists>gid. ps' = im_remove gid ps)
     \<or> (\<exists>gid p h. im_get ps gid = Some p \<and> ps' = im_insert gid h ps
          \<and> (gr_version h = gr_version p \<and> shown h = shown p \<or> gr_version h = (gr_version p + 1) mod 2 ^ 64))"

lemma effect_onI:
  "effect_on ps ps" "effect_on ps (im_remove gid ps)"
  "im_get ps gid = Some p \<Longrightarrow> gr_version h = gr_version p \<Longrightarrow> shown h = shown p \<Longrightarrow> effect_on ps (im_insert gid h ps)"
  "im_get ps gid = Some p \<Longrightarrow> gr_version h = (gr_version p + 1) mod 2 ^ 64 \<Longrightarrow> effect_on ps (im_insert gid h ps)"
  unfolding effect_on_def by blast+

lemma touched_effect:
  assumes "groups_ok ps" "im_get ps gid = Some p" "touch_member sub now p = Some h"
  shows "effect_on ps (im_insert gid h ps)" "effect_on ps (im_insert gid (transported t pos now h) ps)"
proof -
  have "gr_version h = gr_version p \<and> shown h = shown p"
    using touch_newer [OF _ assms(3)] groups_ok_get [OF assms(1,2)] by simp
  then show "effect_on ps (im_insert gid h ps)" "effect_on ps (im_insert gid (transported t pos now h) ps)"
    using assms(2) by (auto intro: effect_onI(3,4) simp: transported_def)
qed

lemma step_effect:
  assumes "groups_ok gs"
  shows "sp_step gs (now, sub, user, r) = gs \<or> effect_on (prune_idle now gs) (sp_step gs (now, sub, user, r))
    \<or> (\<exists>uuid read g. r = RCreate uuid read \<and> sp_step gs (now, sub, user, r) = im_insert uuid g (prune_idle now gs))"
proof (cases r)
  case RList
  then show ?thesis by (simp add: sp_step_def sp_list_def Let_def effect_on_def)
next
  case (RCreate uuid read)
  then show ?thesis
    by (simp add: sp_step_def sp_create_def Let_def split: sum.split option.split) blast
next
  case (RJoin gid)
  have "effect_on (prune_idle now gs) (sp_step gs (now, sub, user, r))"
    unfolding RJoin sp_step_def sp_handle.simps sp_join_def Let_def
    by (cases "im_get (prune_idle now gs) gid") (simp_all add: effect_onI(1,2) effect_onI(4))
  then show ?thesis by blast
next
  case (RLeave gid)
  have "gr_version (rehost h) = gr_version h" for h :: group
    by (simp add: rehost_def split: list.split prod.split)
  then have "effect_on (prune_idle now gs) (sp_step gs (now, sub, user, r))"
    unfolding RLeave sp_step_def sp_handle.simps sp_leave_def Let_def
    by (cases "im_get (prune_idle now gs) gid") (simp_all add: effect_onI(1,2) effect_onI(4))
  then show ?thesis by blast
next
  case (RPoll gid)
  have "effect_on (prune_idle now gs) (prune_idle now gs)" by (simp add: effect_on_def)
  then have "effect_on (prune_idle now gs) (sp_step gs (now, sub, user, r))"
    using touched_effect(1) [OF prune_idle_ok [OF assms]]
    by (simp add: RPoll sp_step_def sp_poll_def Let_def split: option.split)
  then show ?thesis by blast
next
  case (RCommand gid read)
  have "effect_on (prune_idle now gs) (prune_idle now gs)" by (simp add: effect_on_def)
  then show ?thesis
    using touched_effect(2) [OF prune_idle_ok [OF assms]]
    by (simp add: RCommand sp_step_def sp_command_def Let_def split: option.split sum.split)
qed

section \<open>Properties\<close>

text \<open>
  C32. From no groups, after any sequence of list, create, join, leave, poll and command requests:
  every stored group has at least one member, its members are distinct, its host is one of them,
  it is stored under its own id, and its playhead is a number that is not negative.
\<close>

theorem groups_always_hosted:
  "list_all (\<lambda>(i, g). gr_id g = i \<and> gr_members g \<noteq> [] \<and> distinct (map fst (gr_members g))
       \<and> gr_host g \<in> fst ` set (gr_members g)
       \<and> gr_position g \<noteq> FNan \<and> \<not> flt (gr_position g) (Fin 0))
     (foldl sp_step [] qs)"
proof -
  have "groups_ok (foldl sp_step [] qs)"
    by (rule sp_machine.inv_run) (simp add: groups_ok_def)
  then show ?thesis by (auto simp: groups_ok_def group_ok_def list_all_iff)
qed

text \<open>
  Pollers can compare versions: for a group present before and after a request (a create
  using a fresh uuid), the version never goes down, and it is strictly higher whenever the host,
  the pause flag, the playhead, its timestamp or the roster differ, as long as the \<open>u64\<close> counter is
  not exhausted.
\<close>

theorem version_tracks_changes:
  assumes "gs = foldl sp_step [] qs"
    and "im_get gs i = Some g" "im_get (sp_step gs (now, sub, user, r)) i = Some g'"
    and "gr_version g + 2 < 2 ^ 64"
    and "case r of RCreate uuid _ \<Rightarrow> im_get gs uuid = None | _ \<Rightarrow> True"
  shows "gr_version g \<le> gr_version g'
    \<and> ((gr_host g', gr_paused g', gr_position g', gr_at g', map (\<lambda>(s, m). (s, mb_username m)) (gr_members g'))
        \<noteq> (gr_host g, gr_paused g, gr_position g, gr_at g, map (\<lambda>(s, m). (s, mb_username m)) (gr_members g))
       \<longrightarrow> gr_version g < gr_version g')"
proof -
  have ok: "groups_ok gs"
    unfolding assms(1) by (rule sp_machine.inv_run) (simp add: groups_ok_def)
  note pok = prune_idle_ok [OF ok, of now]
  define ps where "ps = prune_idle now gs"
  have pruned: "newer g p" if got: "im_get ps i = Some p" for p
  proof -
    obtain h where h: "im_get gs i = Some h" "p = prune_group now h" "gr_members p \<noteq> []"
      by (rule get_pruned [OF got [unfolded ps_def] ok])
    then show ?thesis using prune_newer [of g now] assms(2,4) by simp
  qed
  have bumped: "gr_version g < (gr_version p + 1) mod 2 ^ 64" if "im_get ps i = Some p" for p
    using pruned [OF that] assms(4) by (auto simp: newer_def)
  have "gr_version g' = gr_version g \<and> shown g' = shown g \<or> gr_version g < gr_version g'"
    using step_effect [OF ok, of now sub user r]
  proof (elim disjE exE conjE)
    assume "sp_step gs (now, sub, user, r) = gs"
    then show ?thesis using assms(2,3) by simp
  next
    assume "effect_on (prune_idle now gs) (sp_step gs (now, sub, user, r))"
    then consider (same) "im_get ps i = Some g'" | (upd) p where "im_get ps i = Some p"
        "gr_version g' = gr_version p \<and> shown g' = shown p \<or> gr_version g' = (gr_version p + 1) mod 2 ^ 64"
      using assms(3) unfolding effect_on_def ps_def [symmetric]
      by (auto simp: update_conv' delete_conv' restrict_map_def split: if_splits)
    then show ?thesis
    proof cases
      case same
      then show ?thesis using pruned by (auto simp: newer_def)
    next
      case (upd p)
      then show ?thesis using pruned [OF upd(1)] bumped [OF upd(1)] by (auto simp: newer_def)
    qed
  next
    fix uuid read h
    assume r: "r = RCreate uuid read" and eq: "sp_step gs (now, sub, user, r) = im_insert uuid h (prune_idle now gs)"
    have "uuid \<noteq> i" using assms(2,5) by (auto simp: r)
    then have "im_get ps i = Some g'" using assms(3) eq by (simp add: update_conv' ps_def)
    then show ?thesis using pruned by (auto simp: newer_def)
  qed
  then show ?thesis by (auto simp: shown_def)
qed

definition alice_group :: groups where
  "alice_group = [(''g1'', fresh_group ''g1'' ''alice'' ''Alice'' ''movie'' 7 1000)]"

definition create_body :: jvalue where
  "create_body = JObj [(''media_kind'', JStr ''movie''), (''media_id'', JFloat (Fin 7))]"

lemma alice_created: "foldl sp_step [] [(1000, ''alice'', ''Alice'', RCreate ''g1'' (Inr create_body))] = alice_group"
  by (simp add: sp_step_def sp_create_def create_body_def media_kind_of_def json_get_def positive_int_def
      trunc_int_def fle_def max_safe_def f_to_u64_def sat_int_def prune_idle_def alice_group_def Let_def)

lemma version_tracks_changes_witness:
  "let g = fresh_group ''g1'' ''alice'' ''Alice'' ''movie'' 7 1000;
       g' = bump (g\<lparr>gr_members := [(''alice'', \<lparr>mb_username = ''Alice'', mb_seen = 1000\<rparr>), (''bob'', \<lparr>mb_username = ''Bob'', mb_seen = 2000\<rparr>)]\<rparr>)
   in sp_step alice_group (2000, ''bob'', ''Bob'', RJoin ''g1'') = [(''g1'', g')] \<and> gr_version g < gr_version g'"
proof -
  let ?g = "fresh_group ''g1'' ''alice'' ''Alice'' ''movie'' 7 1000"
  let ?g' = "bump (?g\<lparr>gr_members := [(''alice'', \<lparr>mb_username = ''Alice'', mb_seen = 1000\<rparr>), (''bob'', \<lparr>mb_username = ''Bob'', mb_seen = 2000\<rparr>)]\<rparr>)"
  have step: "sp_step alice_group (2000, ''bob'', ''Bob'', RJoin ''g1'') = [(''g1'', ?g')]"
    by (simp add: sp_step_def sp_join_def alice_group_def prune_idle_def prune_group_def idle_subs_def
        fresh_group_def wrap64_def member_idle_ms_def Let_def)
  have "gr_version ?g < gr_version ?g'"
    using version_tracks_changes [OF alice_created [symmetric], of "''g1''" ?g 2000 "''bob''" "''Bob''" "RJoin ''g1''" ?g']
    by (simp add: step) (simp add: alice_group_def fresh_group_def)
  then show ?thesis using step by (simp add: Let_def)
qed

text \<open>
  When members fall idle the roster keeps exactly the others, in join order; the host keeps
  hosting if it is still there and otherwise hands over to the longest-standing member left, however
  many members (and successive hosts) are dropped at once; the version moves exactly when somebody
  was dropped.
\<close>

theorem idle_handover:
  assumes "group_ok g" "alive now g \<noteq> []"
  shows "gr_members (prune_group now g) = alive now g
    \<and> gr_host (prune_group now g)
        = (if gr_host g \<in> fst ` set (alive now g) then gr_host g else fst (hd (alive now g)))
    \<and> gr_version (prune_group now g)
        = (if alive now g = gr_members g then gr_version g else (gr_version g + 1) mod 2 ^ 64)"
proof -
  have wf: "im_wf (gr_members g)" using assms(1) by (simp add: group_ok_def)
  note members = prune_members [OF wf, of now]
  have "idle_subs now g = [] \<longleftrightarrow> alive now g = gr_members g"
    by (auto simp: idle_subs_def alive_def filter_empty_conv filter_id_conv)
  then have "gr_version (prune_group now g)
        = (if alive now g = gr_members g then gr_version g else (gr_version g + 1) mod 2 ^ 64)"
    using assms(2) members by (simp add: prune_group_def Let_def fold_drop_keeps split: if_splits)
  then show ?thesis using members prune_host [OF assms] by simp
qed

definition idle_demo :: group where
  "idle_demo = (fresh_group ''g1'' ''a'' ''A'' ''movie'' 7 0)\<lparr>gr_members :=
     [(''a'', \<lparr>mb_username = ''A'', mb_seen = 0\<rparr>), (''b'', \<lparr>mb_username = ''B'', mb_seen = 0\<rparr>),
      (''c'', \<lparr>mb_username = ''C'', mb_seen = 90000\<rparr>)]\<rparr>"

lemma idle_handover_witness:
  "gr_host (prune_group 100000 idle_demo) = ''c'' \<and> gr_version (prune_group 100000 idle_demo) = 2"
proof -
  have ok: "group_ok idle_demo"
    by (simp add: idle_demo_def group_ok_def fresh_group_def)
  have alive: "alive 100000 idle_demo = [(''c'', \<lparr>mb_username = ''C'', mb_seen = 90000\<rparr>)]"
    by (simp add: alive_def idle_demo_def wrap64_def member_idle_ms_def)
  show ?thesis
    using idle_handover [OF ok, of 100000, unfolded alive]
    by (simp add: idle_demo_def fresh_group_def)
qed

lemma touch_seen:
  "touch_member sub now g = Some h \<Longrightarrow> \<exists>m. im_get (gr_members h) sub = Some m \<and> mb_seen m = now"
  by (auto simp: touch_member_def update_conv')

lemma get_prune_idle:
  "im_get gs i = Some g \<Longrightarrow> gr_members (prune_group now g) \<noteq> [] \<Longrightarrow> im_wf gs \<Longrightarrow>
     im_get (prune_idle now gs) i = Some (prune_group now g)"
  unfolding prune_idle_def by (induction gs) (auto simp: image_iff split: if_splits)

text \<open>
  After a play, pause or seek that carried a playhead \<open>p\<close>, the commander's next poll within a
  minute reads \<open>p\<close> (never below zero) when the group is paused and \<open>p\<close> plus the elapsed seconds
  when it plays, in the code's own floating-point arithmetic, with the pause flag the command set.
\<close>

theorem command_then_poll:
  assumes "gs = foldl sp_step [] qs"
    and "transport_of body = Some t" "position_of t body = Inr (Some p)"
    and "sp_command gid sub (Inr body) now gs = (SpGroup s, gs1)"
    and "is_i64 (later - now)" "0 \<le> later - now" "later - now \<le> 60000"
  shows "\<exists>s'. fst (sp_poll gid sub later gs1) = SpGroup s'
    \<and> (t = Play \<longrightarrow> \<not> sn_paused s') \<and> (t = Pause \<longrightarrow> sn_paused s')
    \<and> sn_position s' = js_round3
        (if sn_paused s' then fmax p (Fin 0)
         else fmax (fadd (fmax p (Fin 0)) (fdiv (f_of_int (later - now)) (Fin 1000))) (Fin 0))"
proof -
  have "groups_ok gs"
    unfolding assms(1) by (rule sp_machine.inv_run) (simp add: groups_ok_def)
  note pok = prune_idle_ok [OF this, of now]
  obtain g h where g: "im_get (prune_idle now gs) gid = Some g" and h: "touch_member sub now g = Some h"
    and gs1: "gs1 = im_insert gid (transported t (Some p) now h) (prune_idle now gs)"
    using assms(2-4) by (auto simp: sp_command_def Let_def split: option.splits)
  define k where "k = transported t (Some p) now h"
  have hok: "group_ok h \<and> gr_id h = gr_id g" using touch_member_ok [OF _ h] groups_ok_get [OF pok g] by simp
  then have kok: "group_ok k" unfolding k_def by (simp add: transported_ok)
  have gid: "gr_id k = gid" using hok groups_ok_get [OF pok g] by (simp add: k_def transported_def)
  obtain m where m: "im_get (gr_members k) sub = Some m" "mb_seen m = now"
    using touch_seen [OF h] by (auto simp: k_def transported_def)
  have wf: "im_wf (gr_members k)" using kok by (simp add: group_ok_def)
  have "(sub, m) \<in> set (alive later k)"
    using m assms(5,7) by (auto simp: alive_def wrap64_id member_idle_ms_def dest: map_of_SomeD)
  then have sub: "im_get (gr_members (prune_group later k)) sub = Some m"
    using wf by (simp add: prune_members alive_def)
  then have ne: "gr_members (prune_group later k) \<noteq> []" by auto
  have got: "im_get (prune_idle later gs1) gid = Some (prune_group later k)"
    using ne groups_ok_insert [OF pok gid kok]
    by (intro get_prune_idle) (simp_all add: gs1 k_def update_conv' groups_ok_def)
  obtain k' where k': "touch_member sub later (prune_group later k) = Some k'"
    "gr_paused k' = gr_paused k" "gr_position k' = gr_position k" "gr_at k' = gr_at k"
    using sub by (simp add: touch_member_def prune_keeps)
  have fields: "gr_paused k = (case t of Play \<Rightarrow> False | Pause \<Rightarrow> True | Seek \<Rightarrow> gr_paused h)"
    "gr_position k = fmax p (Fin 0)" "gr_at k = now"
    by (simp_all add: k_def transported_def)
  show ?thesis
    using assms(5) k' fields
    by (simp add: sp_poll_def got snapshot_of_def position_at_def wrap64_id split: transport.split)
qed

definition seek_body :: jvalue where
  "seek_body = JObj [(''type'', JStr ''seek''), (''position_secs'', JFloat (Fin 30))]"

lemma command_then_poll_witness:
  "\<exists>s'. fst (sp_poll ''g1'' ''alice'' 3000 (snd (sp_command ''g1'' ''alice'' (Inr seek_body) 2000 alice_group))) = SpGroup s'
     \<and> sn_position s' = js_round3
        (if sn_paused s' then fmax (Fin 30) (Fin 0)
         else fmax (fadd (fmax (Fin 30) (Fin 0)) (fdiv (f_of_int 1000) (Fin 1000))) (Fin 0))"
proof -
  obtain s gs1 where run: "sp_command ''g1'' ''alice'' (Inr seek_body) 2000 alice_group = (SpGroup s, gs1)"
    by (simp add: sp_command_def seek_body_def transport_of_def position_of_def json_get_def alice_group_def
        prune_idle_def prune_group_def idle_subs_def fresh_group_def wrap64_def member_idle_ms_def touch_member_def Let_def)
  have "transport_of seek_body = Some Seek" "position_of Seek seek_body = Inr (Some (Fin 30))"
    by (simp_all add: seek_body_def transport_of_def position_of_def json_get_def)
  moreover have "is_i64 (3000 - 2000)" "0 \<le> (3000 - 2000 :: int)" "3000 - 2000 \<le> (60000 :: int)"
    by (simp_all add: is_i64_def)
  ultimately obtain s' where "fst (sp_poll ''g1'' ''alice'' 3000 gs1) = SpGroup s'" and
    "sn_position s' = js_round3
        (if sn_paused s' then fmax (Fin 30) (Fin 0)
         else fmax (fadd (fmax (Fin 30) (Fin 0)) (fdiv (f_of_int (3000 - 2000)) (Fin 1000))) (Fin 0))"
    using command_then_poll [OF alice_created [symmetric] _ _ run, of Seek "Fin 30" 3000] by blast
  moreover have "(3000 - 2000 :: int) = 1000" by simp
  ultimately show ?thesis unfolding run snd_conv by (simp only:) (rule exI [of _ s'], simp only: simp_thms)
qed

end
