(* ===== verification/Jwe.thy ===== *)
theory Jwe
  imports Float64 Stream_Token
begin

text \<open>
  \<open>crates/emerald-contracts/src/{jwe,device_token,internal_principal,hkdf}.rs\<close>: compact JWE tokens
  and the two claim sets carried in them.  AES-256-GCM, base64url, serde_json's reader and writer
  and HKDF are parameters; the random nonce is an argument of \<open>encrypt\<close>.
\<close>

section \<open>The crates used\<close>

record jwe_lib =
  jl_b64e :: "string \<Rightarrow> string"
  jl_b64d :: "string \<Rightarrow> string option"
  jl_print :: "jvalue \<Rightarrow> string"
  jl_parse :: "string \<Rightarrow> jvalue option"
  jl_seal :: "string \<Rightarrow> string \<Rightarrow> string \<Rightarrow> string \<Rightarrow> string"
  jl_open :: "string \<Rightarrow> string \<Rightarrow> string \<Rightarrow> string \<Rightarrow> string option"
  jl_hkdf :: "string \<Rightarrow> string \<Rightarrow> string"

text \<open>
  Documented behaviour: base64url without padding round-trips and has no dot; AES-GCM appends a
  16-byte tag, and opening succeeds exactly on the sealing of some plaintext under the same key,
  nonce and associated data, and yields that plaintext.
\<close>

definition jwe_laws :: "jwe_lib \<Rightarrow> bool" where
  "jwe_laws L \<longleftrightarrow>
     (\<forall>x. jl_b64d L (jl_b64e L x) = Some x) \<and> (\<forall>x. CHR ''.'' \<notin> set (jl_b64e L x))
     \<and> (\<forall>k n a m. length (jl_seal L k n a m) = length m + 16)
     \<and> (\<forall>k n a c m. jl_open L k n a c = Some m \<longleftrightarrow> c = jl_seal L k n a m)"

section \<open>serde's derived struct reader\<close>

text \<open>
  A struct is read from an object (unknown members skipped, a repeated field refused) or from an
  array of exactly its fields in declaration order.
\<close>

definition struct_of :: "string list \<Rightarrow> jvalue \<Rightarrow> (string \<Rightarrow> jvalue option) option" where
  "struct_of names v =
     (case v of
        JObj m \<Rightarrow> if list_all (\<lambda>k. length (filter (\<lambda>p. fst p = k) m) \<le> 1) names then Some (map_of m) else None
      | JArr vs \<Rightarrow> if length vs = length names then Some (map_of (zip names vs)) else None
      | _ \<Rightarrow> None)"

definition str_field :: "(string \<Rightarrow> jvalue option) \<Rightarrow> string \<Rightarrow> string option" where
  "str_field f k = Option.bind (f k) as_str"

definition i64_field :: "(string \<Rightarrow> jvalue option) \<Rightarrow> string \<Rightarrow> int option" where
  "i64_field f k = Option.bind (f k) as_i64"

definition opt_str_field :: "(string \<Rightarrow> jvalue option) \<Rightarrow> string \<Rightarrow> string option option" where
  "opt_str_field f k =
     (case f k of None \<Rightarrow> Some None | Some JNull \<Rightarrow> Some None | Some v \<Rightarrow> map_option Some (as_str v))"

section \<open>Compact serialization\<close>

datatype jwe_error = JMalformed | JBadBase64 | JBadHeader | JUnknownKid | JDecryptFailed | JBadPayload

record protected_header =
  ph_alg :: string
  ph_enc :: string
  ph_kid :: string

definition header_json :: "string \<Rightarrow> jvalue" where
  "header_json kid = JObj [(''alg'', JStr ''dir''), (''enc'', JStr ''A256GCM''), (''kid'', JStr kid)]"

definition jwe_encrypt :: "jwe_lib \<Rightarrow> string \<Rightarrow> string \<Rightarrow> string \<Rightarrow> string \<Rightarrow> string" where
  "jwe_encrypt L nonce key kid plaintext =
     (let header_b64 = jl_b64e L (jl_print L (header_json kid));
          combined = jl_seal L key nonce header_b64 plaintext;
          n = length combined - 16
      in header_b64 @ ''.'' @ ''.'' @ jl_b64e L nonce @ ''.'' @ jl_b64e L (take n combined)
           @ ''.'' @ jl_b64e L (drop n combined))"

definition header_of :: "jvalue \<Rightarrow> protected_header option" where
  "header_of v =
     Option.bind (struct_of [''alg'', ''enc'', ''kid''] v) (\<lambda>f.
     Option.bind (str_field f ''alg'') (\<lambda>alg.
     Option.bind (str_field f ''enc'') (\<lambda>enc.
     Option.bind (str_field f ''kid'') (\<lambda>kid.
       Some \<lparr>ph_alg = alg, ph_enc = enc, ph_kid = kid\<rparr>))))"

definition decode_protected_header :: "jwe_lib \<Rightarrow> string \<Rightarrow> jwe_error + protected_header \<times> string" where
  "decode_protected_header L token =
     (let header_b64 = hd (split_on (CHR ''.'') token) in
      result_bind (ok_or JBadBase64 (jl_b64d L header_b64)) (\<lambda>bytes.
      result_bind (ok_or JBadHeader (Option.bind (jl_parse L bytes) header_of)) (\<lambda>h.
        if ph_alg h \<noteq> ''dir'' \<or> ph_enc h \<noteq> ''A256GCM'' then Inl JBadHeader
        else Inr (h, header_b64))))"

definition decrypt_with_key :: "jwe_lib \<Rightarrow> string \<Rightarrow> string \<Rightarrow> jwe_error + string" where
  "decrypt_with_key L key token =
     (case split_on (CHR ''.'') token of
        [header_b64, enc_key, iv_b64, ct_b64, tag_b64] \<Rightarrow>
          result_bind (ok_or JBadBase64 (jl_b64d L iv_b64)) (\<lambda>iv.
          result_bind (ok_or JBadBase64 (jl_b64d L ct_b64)) (\<lambda>ct.
          result_bind (ok_or JBadBase64 (jl_b64d L tag_b64)) (\<lambda>tag.
            if length iv \<noteq> 12 \<or> length tag \<noteq> 16 then Inl JMalformed
            else ok_or JDecryptFailed (jl_open L key iv header_b64 (ct @ tag)))))
      | _ \<Rightarrow> Inl JMalformed)"

section \<open>Device tokens\<close>

definition info_session :: string where "info_session = ''eex/session/v1''"

definition info_device_token :: string where "info_device_token = ''eex/device-token/v1''"

definition info_internal_principal :: string where "info_internal_principal = ''eex/internal-principal/v1''"

definition derive_key :: "jwe_lib \<Rightarrow> string \<Rightarrow> string \<Rightarrow> string" where
  "derive_key L secret info = jl_hkdf L secret info"

definition device_kid :: string where "device_kid = ''device-v1''"

definition device_ttl_secs :: int where "device_ttl_secs = 180 * 24 * 60 * 60"

record device_claims =
  dc_aud :: string
  dc_iss :: string
  dc_sub :: string
  dc_role :: string
  dc_auth_mode :: string
  dc_device_id :: string
  dc_platform :: string
  dc_server :: string
  dc_jti :: string
  dc_iat :: int
  dc_nbf :: int
  dc_exp :: int

datatype device_error =
  DJwe jwe_error | DBadPayload | DUnsupportedAud | DUnsupportedIss | DNotYetValid | DExpired | DUnknownKid string

definition device_json :: "device_claims \<Rightarrow> jvalue" where
  "device_json c = JObj
     [(''aud'', JStr (dc_aud c)), (''iss'', JStr (dc_iss c)), (''sub'', JStr (dc_sub c)),
      (''role'', JStr (dc_role c)), (''auth_mode'', JStr (dc_auth_mode c)),
      (''device_id'', JStr (dc_device_id c)), (''device_platform'', JStr (dc_platform c)),
      (''server_id'', JStr (dc_server c)), (''jti'', JStr (dc_jti c)),
      (''iat'', JInt (dc_iat c)), (''nbf'', JInt (dc_nbf c)), (''exp'', JInt (dc_exp c))]"

definition device_of :: "jvalue \<Rightarrow> device_claims option" where
  "device_of v =
     Option.bind (struct_of [''aud'', ''iss'', ''sub'', ''role'', ''auth_mode'', ''device_id'',
       ''device_platform'', ''server_id'', ''jti'', ''iat'', ''nbf'', ''exp''] v) (\<lambda>f.
     Option.bind (str_field f ''aud'') (\<lambda>aud.
     Option.bind (str_field f ''iss'') (\<lambda>iss.
     Option.bind (str_field f ''sub'') (\<lambda>sub.
     Option.bind (str_field f ''role'') (\<lambda>role.
     Option.bind (str_field f ''auth_mode'') (\<lambda>mode.
     Option.bind (str_field f ''device_id'') (\<lambda>dev.
     Option.bind (str_field f ''device_platform'') (\<lambda>plat.
     Option.bind (str_field f ''server_id'') (\<lambda>srv.
     Option.bind (str_field f ''jti'') (\<lambda>jti.
     Option.bind (i64_field f ''iat'') (\<lambda>iat.
     Option.bind (i64_field f ''nbf'') (\<lambda>nbf.
     Option.bind (i64_field f ''exp'') (\<lambda>exp.
       Some \<lparr>dc_aud = aud, dc_iss = iss, dc_sub = sub, dc_role = role, dc_auth_mode = mode,
         dc_device_id = dev, dc_platform = plat, dc_server = srv, dc_jti = jti,
         dc_iat = iat, dc_nbf = nbf, dc_exp = exp\<rparr>)))))))))))))"

definition device_encrypt :: "jwe_lib \<Rightarrow> string \<Rightarrow> string \<Rightarrow> string \<Rightarrow> device_claims \<Rightarrow> string" where
  "device_encrypt L nonce key kid c = jwe_encrypt L nonce key kid (jl_print L (device_json c))"

definition device_encrypt_with_secret :: "jwe_lib \<Rightarrow> string \<Rightarrow> string \<Rightarrow> device_claims \<Rightarrow> string" where
  "device_encrypt_with_secret L nonce secret c =
     device_encrypt L nonce (derive_key L secret info_device_token) device_kid c"

definition map_err :: "('e \<Rightarrow> 'd) \<Rightarrow> 'e + 'a \<Rightarrow> 'd + 'a" where
  "map_err f r = (case r of Inl e \<Rightarrow> Inl (f e) | Inr a \<Rightarrow> Inr a)"

definition device_decrypt :: "jwe_lib \<Rightarrow> (string \<rightharpoonup> string) \<Rightarrow> string \<Rightarrow> device_error + device_claims" where
  "device_decrypt L keys token =
     result_bind (map_err DJwe (decode_protected_header L token)) (\<lambda>(h, _).
     result_bind (ok_or (DUnknownKid (ph_kid h)) (keys (ph_kid h))) (\<lambda>key.
     result_bind (map_err DJwe (decrypt_with_key L key token)) (\<lambda>plain.
     result_bind (ok_or DBadPayload (Option.bind (jl_parse L plain) device_of)) (\<lambda>claims.
       if dc_aud claims \<noteq> ''device'' then Inl DUnsupportedAud
       else if dc_iss claims \<noteq> ''eex'' then Inl DUnsupportedIss
       else Inr claims))))"

definition device_time_window :: "device_claims \<Rightarrow> int \<Rightarrow> device_error + unit" where
  "device_time_window c now =
     (if wrap64 (now + nbf_skew_secs) < dc_nbf c then Inl DNotYetValid
      else if wrap64 (now - exp_skew_secs) > dc_exp c then Inl DExpired
      else Inr ())"

section \<open>Internal principals\<close>

definition internal_kid :: string where "internal_kid = ''internal-v1''"

definition internal_ttl_secs :: int where "internal_ttl_secs = 60"

record internal_claims =
  ic_iss :: string
  ic_sub :: string
  ic_role :: string
  ic_auth_mode :: string
  ic_server :: string
  ic_device :: "string option"
  ic_req :: string
  ic_iat :: int
  ic_exp :: int

datatype internal_error =
  PJwe jwe_error | PBadPayload | PUnsupportedIss | PExpired | PUnknownKid string

definition internal_json :: "internal_claims \<Rightarrow> jvalue" where
  "internal_json c = JObj
     [(''iss'', JStr (ic_iss c)), (''sub'', JStr (ic_sub c)), (''role'', JStr (ic_role c)),
      (''auth_mode'', JStr (ic_auth_mode c)), (''server_id'', JStr (ic_server c)),
      (''device_id'', case ic_device c of None \<Rightarrow> JNull | Some d \<Rightarrow> JStr d),
      (''req_id'', JStr (ic_req c)), (''iat'', JInt (ic_iat c)), (''exp'', JInt (ic_exp c))]"

definition internal_of :: "jvalue \<Rightarrow> internal_claims option" where
  "internal_of v =
     Option.bind (struct_of [''iss'', ''sub'', ''role'', ''auth_mode'', ''server_id'', ''device_id'',
       ''req_id'', ''iat'', ''exp''] v) (\<lambda>f.
     Option.bind (str_field f ''iss'') (\<lambda>iss.
     Option.bind (str_field f ''sub'') (\<lambda>sub.
     Option.bind (str_field f ''role'') (\<lambda>role.
     Option.bind (str_field f ''auth_mode'') (\<lambda>mode.
     Option.bind (str_field f ''server_id'') (\<lambda>srv.
     Option.bind (opt_str_field f ''device_id'') (\<lambda>dev.
     Option.bind (str_field f ''req_id'') (\<lambda>req.
     Option.bind (i64_field f ''iat'') (\<lambda>iat.
     Option.bind (i64_field f ''exp'') (\<lambda>exp.
       Some \<lparr>ic_iss = iss, ic_sub = sub, ic_role = role, ic_auth_mode = mode, ic_server = srv,
         ic_device = dev, ic_req = req, ic_iat = iat, ic_exp = exp\<rparr>))))))))))"

definition internal_encrypt :: "jwe_lib \<Rightarrow> string \<Rightarrow> string \<Rightarrow> string \<Rightarrow> internal_claims \<Rightarrow> string" where
  "internal_encrypt L nonce key kid c = jwe_encrypt L nonce key kid (jl_print L (internal_json c))"

definition internal_encrypt_with_secret :: "jwe_lib \<Rightarrow> string \<Rightarrow> string \<Rightarrow> internal_claims \<Rightarrow> string" where
  "internal_encrypt_with_secret L nonce secret c =
     internal_encrypt L nonce (derive_key L secret info_internal_principal) internal_kid c"

definition internal_decrypt :: "jwe_lib \<Rightarrow> (string \<rightharpoonup> string) \<Rightarrow> string \<Rightarrow> internal_error + internal_claims" where
  "internal_decrypt L keys token =
     result_bind (map_err PJwe (decode_protected_header L token)) (\<lambda>(h, _).
     result_bind (ok_or (PUnknownKid (ph_kid h)) (keys (ph_kid h))) (\<lambda>key.
     result_bind (map_err PJwe (decrypt_with_key L key token)) (\<lambda>plain.
     result_bind (ok_or PBadPayload (Option.bind (jl_parse L plain) internal_of)) (\<lambda>claims.
       if ic_iss claims \<noteq> ''eex'' then Inl PUnsupportedIss else Inr claims))))"

definition internal_time_window :: "internal_claims \<Rightarrow> int \<Rightarrow> internal_error + unit" where
  "internal_time_window c now = (if now > ic_exp c then Inl PExpired else Inr ())"

section \<open>Facts\<close>

lemma map_err_Inr [result_simps]: "map_err f r = Inr a \<longleftrightarrow> r = Inr a"
  by (simp add: map_err_def split: sum.split)

lemma split_five:
  assumes "\<forall>x\<in>{a, b, c, d, e}. CHR ''.'' \<notin> set x"
  shows "split_on (CHR ''.'') (a @ ''.'' @ b @ ''.'' @ c @ ''.'' @ d @ ''.'' @ e) = [a, b, c, d, e]"
proof -
  have step: "split_on (CHR ''.'') (x @ ''.'' @ r) = x # split_on (CHR ''.'') r" if "CHR ''.'' \<notin> set x" for x r
    using split_on_append [OF that, of r] by simp
  show ?thesis using assms by (simp only: step insert_iff ball_simps simp_thms split_on_free)
qed

lemma split_encrypt:
  assumes "jwe_laws L"
  shows "split_on (CHR ''.'') (jwe_encrypt L nonce key kid m) =
    (let h = jl_b64e L (jl_print L (header_json kid)); c = jl_seal L key nonce h m; n = length m
     in [h, [], jl_b64e L nonce, jl_b64e L (take n c), jl_b64e L (drop n c)])"
proof -
  have dots: "CHR ''.'' \<notin> set (jl_b64e L x)" for x using assms by (simp add: jwe_laws_def)
  have len: "length (jl_seal L k n a m) = length m + 16" for k n a m using assms by (simp add: jwe_laws_def)
  let ?h = "jl_b64e L (jl_print L (header_json kid))"
  show ?thesis
    using split_five [of ?h "[]" "jl_b64e L nonce" "jl_b64e L (take (length m) (jl_seal L key nonce ?h m))"
        "jl_b64e L (drop (length m) (jl_seal L key nonce ?h m))"] dots
    unfolding jwe_encrypt_def Let_def len by simp
qed

lemma header_of_json [simp]: "header_of (header_json kid) = Some \<lparr>ph_alg = ''dir'', ph_enc = ''A256GCM'', ph_kid = kid\<rparr>"
  by (simp add: header_of_def header_json_def struct_of_def str_field_def)

lemma device_of_json:
  "is_i64 (dc_iat c) \<Longrightarrow> is_i64 (dc_nbf c) \<Longrightarrow> is_i64 (dc_exp c) \<Longrightarrow> device_of (device_json c) = Some c"
  by (simp add: device_of_def device_json_def struct_of_def str_field_def i64_field_def)

lemma internal_of_json:
  "is_i64 (ic_iat c) \<Longrightarrow> is_i64 (ic_exp c) \<Longrightarrow> internal_of (internal_json c) = Some c"
  by (cases "ic_device c")
    (simp_all add: internal_of_def internal_json_def struct_of_def str_field_def i64_field_def opt_str_field_def)

lemma decode_header_encrypt:
  assumes "jwe_laws L" "jl_parse L (jl_print L (header_json kid)) = Some (header_json kid)"
  shows "decode_protected_header L (jwe_encrypt L nonce key kid m) =
    Inr (\<lparr>ph_alg = ''dir'', ph_enc = ''A256GCM'', ph_kid = kid\<rparr>, jl_b64e L (jl_print L (header_json kid)))"
  using assms by (simp add: decode_protected_header_def split_encrypt Let_def jwe_laws_def)

lemma decrypt_encrypt:
  assumes "jwe_laws L" "length nonce = 12"
  shows "decrypt_with_key L key (jwe_encrypt L nonce key kid m) = Inr m"
proof -
  let ?h = "jl_b64e L (jl_print L (header_json kid))"
  let ?c = "jl_seal L key nonce ?h m"
  have "jl_b64d L (jl_b64e L x) = Some x" for x using assms(1) by (simp add: jwe_laws_def)
  moreover have "length ?c = length m + 16" using assms(1) by (simp add: jwe_laws_def)
  moreover have "jl_open L key nonce ?h ?c = Some m" using assms(1) by (simp add: jwe_laws_def)
  ultimately show ?thesis using assms(2)
    by (simp add: decrypt_with_key_def split_encrypt [OF assms(1)] Let_def)
qed

lemma device_decrypt_encrypt:
  assumes "jwe_laws L" "length nonce = 12" "keys kid = Some key"
    and "jl_parse L (jl_print L (header_json kid)) = Some (header_json kid)"
    and "jl_parse L (jl_print L (device_json c)) = Some (device_json c)"
    and "is_i64 (dc_iat c)" "is_i64 (dc_nbf c)" "is_i64 (dc_exp c)"
    and "dc_aud c = ''device''" "dc_iss c = ''eex''"
  shows "device_decrypt L keys (device_encrypt L nonce key kid c) = Inr c"
  using assms
  by (simp add: device_decrypt_def device_encrypt_def decode_header_encrypt decrypt_encrypt map_err_def device_of_json)

text \<open>What a successful decryption says of the token.\<close>

lemma decrypt_with_key_Inr:
  assumes "jwe_laws L" "decrypt_with_key L key token = Inr m"
  obtains x y iv ct tag where
    "split_on (CHR ''.'') token = [hd (split_on (CHR ''.'') token), x, iv, ct, tag]"
    "jl_b64d L iv = Some y" "length y = 12"
    "map_option (\<lambda>c. c @ the (jl_b64d L tag)) (jl_b64d L ct) = Some (jl_seal L key y (hd (split_on (CHR ''.'') token)) m)"
    "jl_b64d L tag \<noteq> None"
  using assms
  by (auto simp: decrypt_with_key_def result_simps jwe_laws_def split: list.splits if_splits)

section \<open>Properties\<close>

text \<open>
  A device token minted under a kid verifies, with a key map that holds the minting key under
  that kid, to exactly the claims that were minted, whatever nonce was drawn and whatever other keys
  the map holds.
\<close>

theorem device_token_roundtrip:
  assumes "jwe_laws L" "length nonce = 12" "keys kid = Some key"
    and "jl_parse L (jl_print L (header_json kid)) = Some (header_json kid)"
    and "jl_parse L (jl_print L (device_json c)) = Some (device_json c)"
    and "is_i64 (dc_iat c)" "is_i64 (dc_nbf c)" "is_i64 (dc_exp c)"
    and "dc_aud c = ''device''" "dc_iss c = ''eex''"
  shows "device_decrypt L keys (device_encrypt L nonce key kid c) = Inr c"
  by (rule device_decrypt_encrypt) (rule assms)+

definition demo_device :: device_claims where
  "demo_device = \<lparr>dc_aud = ''device'', dc_iss = ''eex'', dc_sub = ''plex:1'', dc_role = ''user'',
     dc_auth_mode = ''plex'', dc_device_id = ''d'', dc_platform = ''tvos'', dc_server = ''s'',
     dc_jti = ''j'', dc_iat = 0, dc_nbf = 0, dc_exp = 100\<rparr>"

definition demo_tag :: string where "demo_tag = replicate 16 (CHR ''t'')"

definition demo_jwe :: jwe_lib where
  "demo_jwe = \<lparr>jl_b64e = hex_encode, jl_b64d = hex_decode,
     jl_print = (\<lambda>v. if v = device_json demo_device then ''claims'' else ''header''),
     jl_parse = (\<lambda>s. if s = ''claims'' then Some (device_json demo_device) else Some (header_json ''k'')),
     jl_seal = (\<lambda>k n a m. m @ demo_tag),
     jl_open = (\<lambda>k n a c. if 16 \<le> length c \<and> drop (length c - 16) c = demo_tag
                           then Some (take (length c - 16) c) else None),
     jl_hkdf = (\<lambda>s i. s @ i)\<rparr>"

lemma demo_jwe_laws: "jwe_laws demo_jwe"
proof -
  have "b64_laws demo_lib" by (rule demo_b64_laws)
  then have "\<forall>x. hex_decode (hex_encode x) = Some x" "\<forall>x. CHR ''.'' \<notin> set (hex_encode x)"
    by (simp_all add: b64_laws_def demo_lib_def)
  moreover have "length demo_tag = 16" by (simp add: demo_tag_def)
  moreover from this have "(if 16 \<le> length c \<and> drop (length c - 16) c = demo_tag then Some (take (length c - 16) c) else None) = Some m
      \<longleftrightarrow> c = m @ demo_tag" for c m :: string
    by (auto simp: append_eq_conv_conj)
      (metis append_take_drop_id)
  ultimately show ?thesis by (simp add: jwe_laws_def demo_jwe_def)
qed

lemma device_token_roundtrip_witness:
  "device_decrypt demo_jwe [''k'' \<mapsto> ''secret''] (device_encrypt demo_jwe (replicate 12 (CHR ''n'')) ''secret'' ''k'' demo_device)
     = Inr demo_device"
  by (rule device_token_roundtrip [OF demo_jwe_laws])
    (simp_all add: demo_jwe_def device_json_def header_json_def demo_device_def is_i64_def)

text \<open>
  C31. Nothing but a genuine sealing is accepted: an accepted device token has a header naming a kid
  of the key map and a body that is the sealing, under that kid's key and with that header as the
  authenticated data, of a JSON text that reads as the returned claims, which are for the audience
  \<open>device\<close> and the issuer \<open>eex\<close>.
\<close>

theorem device_token_genuine:
  assumes "jwe_laws L" "device_decrypt L keys token = Inr c"
  shows "\<exists>kid key nonce plain h x iv ct tag body tagb.
      keys kid = Some key
    \<and> split_on (CHR ''.'') token = [h, x, iv, ct, tag]
    \<and> Option.bind (Option.bind (jl_b64d L h) (jl_parse L)) header_of = Some \<lparr>ph_alg = ''dir'', ph_enc = ''A256GCM'', ph_kid = kid\<rparr>
    \<and> jl_b64d L iv = Some nonce \<and> length nonce = 12
    \<and> jl_b64d L ct = Some body \<and> jl_b64d L tag = Some tagb
    \<and> body @ tagb = jl_seal L key nonce h plain
    \<and> Option.bind (jl_parse L plain) device_of = Some c
    \<and> dc_aud c = ''device'' \<and> dc_iss c = ''eex''"
proof -
  obtain hd' b key plain where hdr: "decode_protected_header L token = Inr (hd', b)"
    and key: "keys (ph_kid hd') = Some key"
    and plain: "decrypt_with_key L key token = Inr plain"
    and c: "Option.bind (jl_parse L plain) device_of = Some c" "dc_aud c = ''device''" "dc_iss c = ''eex''"
    using assms(2) by (auto simp: device_decrypt_def result_simps split: if_splits)
  obtain x nonce iv ct tag where parts: "split_on (CHR ''.'') token = [hd (split_on (CHR ''.'') token), x, iv, ct, tag]"
    and sealed: "jl_b64d L iv = Some nonce" "length nonce = 12" "jl_b64d L tag \<noteq> None"
      "map_option (\<lambda>c. c @ the (jl_b64d L tag)) (jl_b64d L ct) = Some (jl_seal L key nonce (hd (split_on (CHR ''.'') token)) plain)"
    using decrypt_with_key_Inr [OF assms(1) plain] by metis
  obtain body tagb where "jl_b64d L ct = Some body" "jl_b64d L tag = Some tagb"
    "body @ tagb = jl_seal L key nonce (hd (split_on (CHR ''.'') token)) plain"
    using sealed by auto
  moreover have "Option.bind (Option.bind (jl_b64d L (hd (split_on (CHR ''.'') token))) (jl_parse L)) header_of
      = Some \<lparr>ph_alg = ''dir'', ph_enc = ''A256GCM'', ph_kid = ph_kid hd'\<rparr>"
    using hdr by (auto simp: decode_protected_header_def result_simps Let_def split: if_splits)
  ultimately show ?thesis using key parts sealed(1,2) c by blast
qed

lemma device_token_genuine_witness:
  "\<exists>kid key. [''k'' \<mapsto> ''secret''] kid = Some key \<and> dc_aud demo_device = ''device''"
proof -
  have "device_decrypt demo_jwe [''k'' \<mapsto> ''secret''] (device_encrypt demo_jwe (replicate 12 (CHR ''n'')) ''secret'' ''k'' demo_device)
     = Inr demo_device"
    by (rule device_decrypt_encrypt [OF demo_jwe_laws])
      (simp_all add: demo_jwe_def device_json_def header_json_def demo_device_def is_i64_def)
  from device_token_genuine [OF demo_jwe_laws this] show ?thesis by blast
qed

end
