(* ===== verification/Session.thy ===== *)
theory Session
  imports Jwe Http Sub
begin

text \<open>
  \<open>crates/auth/src/session.rs\<close> with \<open>Role\<close> and \<open>AuthMode\<close> of \<open>lib.rs\<close>: the session cookie.
  The 32-byte key is the argument \<open>key\<close> (\<open>SessionKey::from_secret\<close> is \<open>session_key\<close>).
\<close>

section \<open>Model\<close>

definition cookie_name :: string where "cookie_name = ''eex.session''"

definition session_ttl_secs :: int where "session_ttl_secs = 30 * 24 * 60 * 60"

definition session_kid :: string where "session_kid = ''session-v1''"

datatype role = Admin | User

fun role_str :: "role \<Rightarrow> string" where
  "role_str Admin = ''admin''"
| "role_str User = ''user''"

definition role_parse :: "string \<Rightarrow> role option" where
  "role_parse s = (if s = ''admin'' then Some Admin else if s = ''user'' then Some User else None)"

datatype auth_mode = MPlex | MLocal | MApple | MGoogle | MWorkos

fun mode_str :: "auth_mode \<Rightarrow> string" where
  "mode_str MPlex = ''plex''"
| "mode_str MLocal = ''local''"
| "mode_str MApple = ''apple''"
| "mode_str MGoogle = ''google''"
| "mode_str MWorkos = ''workos''"

definition mode_parse :: "string \<Rightarrow> auth_mode option" where
  "mode_parse s =
     (if s = ''plex'' then Some MPlex else if s = ''local'' then Some MLocal
      else if s = ''apple'' then Some MApple else if s = ''google'' then Some MGoogle
      else if s = ''workos'' then Some MWorkos else None)"

record user_session =
  us_sub :: string
  us_username :: string
  us_role :: role
  us_mode :: auth_mode
  us_plex_token :: "string option"

definition session_key :: "jwe_lib \<Rightarrow> string \<Rightarrow> string" where
  "session_key L secret = derive_key L secret info_session"

definition session_json :: "user_session \<Rightarrow> int \<Rightarrow> jvalue" where
  "session_json s now = JObj
     ([(''sub'', JStr (us_sub s)), (''username'', JStr (us_username s)),
       (''role'', JStr (role_str (us_role s))), (''auth_mode'', JStr (mode_str (us_mode s)))]
      @ (case us_plex_token s of None \<Rightarrow> [] | Some t \<Rightarrow> [(''plexAuthToken'', JStr t)])
      @ [(''iat'', JInt now), (''exp'', JInt (wrap64 (now + session_ttl_secs)))])"

definition session_mint :: "jwe_lib \<Rightarrow> string \<Rightarrow> string \<Rightarrow> user_session \<Rightarrow> int \<Rightarrow> string" where
  "session_mint L nonce key s now = jwe_encrypt L nonce key session_kid (jl_print L (session_json s now))"

text \<open>\<open>from_slice::<Map>\<close>: only an object, the last of repeated members.\<close>

definition read_map :: "jwe_lib \<Rightarrow> string \<Rightarrow> (string \<rightharpoonup> jvalue) option" where
  "read_map L bytes = Option.bind (jl_parse L bytes) (\<lambda>v. map_option (\<lambda>m. map_of (rev m)) (as_object v))"

definition map_text :: "(string \<rightharpoonup> jvalue) \<Rightarrow> string \<Rightarrow> string option" where
  "map_text m k = Option.bind (m k) as_str"

definition session_header_ok :: "(string \<rightharpoonup> jvalue) \<Rightarrow> bool" where
  "session_header_ok h \<longleftrightarrow> map_text h ''alg'' = Some ''dir'' \<and> map_text h ''enc'' = Some ''A256GCM''
     \<and> (case h ''kid'' of None \<Rightarrow> True | Some k \<Rightarrow> as_str k = Some session_kid)
     \<and> h ''zip'' = None \<and> h ''crit'' = None"

text \<open>A date claim: absent, or a number; anything else is an error.\<close>

definition date_claim :: "(string \<rightharpoonup> jvalue) \<Rightarrow> string \<Rightarrow> unit + f64 option" where
  "date_claim c k =
     (case c k of
        None \<Rightarrow> Inr None
      | Some v \<Rightarrow> (case as_f64 v of None \<Rightarrow> Inl () | Some x \<Rightarrow> Inr (Some x)))"

definition sub_of :: "string \<Rightarrow> string option" where
  "sub_of s = (case parse_sub s of Inl _ \<Rightarrow> None | Inr p \<Rightarrow> Some (sub_raw p))"

definition session_verify :: "jwe_lib \<Rightarrow> string \<Rightarrow> string \<Rightarrow> int \<Rightarrow> user_session option" where
  "session_verify L key token now =
     Option.bind (Option.bind (jl_b64d L (hd (split_on (CHR ''.'') token))) (read_map L)) (\<lambda>h.
     if \<not> session_header_ok h then None else
     (case decrypt_with_key L key token of Inl _ \<Rightarrow> None | Inr plain \<Rightarrow>
     Option.bind (read_map L plain) (\<lambda>c.
     (case (date_claim c ''iat'', date_claim c ''nbf'', date_claim c ''exp'') of
        (Inr _, Inr nbf, Inr (Some expiry)) \<Rightarrow>
          if fle expiry (f_of_int now) \<or> (case nbf of None \<Rightarrow> False | Some b \<Rightarrow> flt (f_of_int now) b) then None else
          Option.bind (Option.bind (map_text c ''sub'') sub_of) (\<lambda>sub.
          Option.bind (map_text c ''username'') (\<lambda>username.
          Option.bind (Option.bind (map_text c ''role'') role_parse) (\<lambda>role.
          Option.bind (Option.bind (map_text c ''auth_mode'') mode_parse) (\<lambda>mode.
            Some \<lparr>us_sub = sub, us_username = username, us_role = role, us_mode = mode,
              us_plex_token = (case map_text c ''plexAuthToken'' of
                 None \<Rightarrow> None | Some t \<Rightarrow> if t = [] then None else Some t)\<rparr>))))
      | _ \<Rightarrow> None))))"

section \<open>Cookies\<close>

definition cookie_octet :: "char \<Rightarrow> bool" where
  "cookie_octet c \<longleftrightarrow> (let b = of_char c :: nat in
     b = 32 \<or> b = 33 \<or> (35 \<le> b \<and> b \<le> 58) \<or> (60 \<le> b \<and> b \<le> 91) \<or> (93 \<le> b \<and> b \<le> 126))"

definition unquote :: "string \<Rightarrow> string" where
  "unquote v =
     (case strip_prefix [CHR 34] v of
        None \<Rightarrow> v
      | Some w \<Rightarrow> if ends_with [CHR 34] w then butlast w else v)"

definition cookie_pairs :: "headers \<Rightarrow> (string \<times> string) list" where
  "cookie_pairs h =
     List.map_filter (split_once (CHR ''='')) (concat (map (split_on (CHR '';'')) (List.map_filter header_to_str (header_get_all h ''cookie''))))"

definition read_named_cookie :: "headers \<Rightarrow> string \<Rightarrow> string option" where
  "read_named_cookie h name =
     find (list_all cookie_octet)
       (map (\<lambda>(_, v). unquote (trim_by is_blank v)) (filter (\<lambda>(n, _). trim_by is_blank n = name) (cookie_pairs h)))"

definition read_cookie :: "headers \<Rightarrow> string option" where
  "read_cookie h = read_named_cookie h cookie_name"

definition set_cookie :: "bool \<Rightarrow> bool \<Rightarrow> string \<Rightarrow> bool \<Rightarrow> string" where
  "set_cookie serve_spa is_prod token https =
     (let (secure, same_site) = (if serve_spa then (https, ''Lax'') else if is_prod then (True, ''None'') else (False, ''Lax''))
      in cookie_name @ ''='' @ token @ ''; Max-Age='' @ dec_int session_ttl_secs @ ''; Path=/; HttpOnly''
           @ (if secure then ''; Secure'' else []) @ ''; SameSite='' @ same_site)"

definition clear_cookie :: string where
  "clear_cookie = ''eex.session=; Max-Age=0; Path=/''"

section \<open>Facts\<close>

lemma role_parse_str [simp]: "role_parse (role_str r) = Some r"
  by (cases r) (simp_all add: role_parse_def)

lemma mode_parse_str [simp]: "mode_parse (mode_str m) = Some m"
  by (cases m) (simp_all add: mode_parse_def)

lemma date_claim_absent: "c k = None \<Longrightarrow> date_claim c k = Inr None"
  by (simp add: date_claim_def)

lemma date_claim_int: "c k = Some (JInt i) \<Longrightarrow> date_claim c k = Inr (Some (f_of_int i))"
  by (simp add: date_claim_def)

lemma session_json_fields:
  "map_of (rev (the (as_object (session_json s now)))) =
     (\<lambda>k. if k = ''exp'' then Some (JInt (wrap64 (now + session_ttl_secs)))
          else if k = ''iat'' then Some (JInt now)
          else if k = ''plexAuthToken'' then map_option JStr (us_plex_token s)
          else if k = ''auth_mode'' then Some (JStr (mode_str (us_mode s)))
          else if k = ''role'' then Some (JStr (role_str (us_role s)))
          else if k = ''username'' then Some (JStr (us_username s))
          else if k = ''sub'' then Some (JStr (us_sub s)) else None)"
  by (cases "us_plex_token s") (auto simp: session_json_def fun_eq_iff)

lemma read_map_session:
  "jl_parse L (jl_print L (session_json s now)) = Some (session_json s now) \<Longrightarrow>
     read_map L (jl_print L (session_json s now)) = Some (map_of (rev (the (as_object (session_json s now)))))"
  by (simp add: read_map_def) (simp add: session_json_def)

lemma parse_sub_raw: "parse_sub t = Inr p \<Longrightarrow> sub_raw p = t"
  by (auto simp: parse_sub_def sub_arm_def split: if_splits option.splits)

lemma flt_exact: "\<bar>i\<bar> < 2 ^ 53 \<Longrightarrow> \<bar>j\<bar> < 2 ^ 53 \<Longrightarrow> fle (f_of_int i) (f_of_int j) \<longleftrightarrow> i \<le> j"
  by (auto simp: f_of_int_exact fle_def)

section \<open>Properties\<close>

text \<open>
  A minted session cookie verifies to the session it was minted for at every clock reading
  before thirty days have passed and to nothing from then on, for subjects the grammar accepts
  (and a Plex token that is not empty).
\<close>

theorem session_lifetime:
  assumes "jwe_laws L" "length nonce = 12"
    and "jl_parse L (jl_print L (header_json session_kid)) = Some (header_json session_kid)"
    and "jl_parse L (jl_print L (session_json s t)) = Some (session_json s t)"
    and "parse_sub (us_sub s) = Inr p" "us_plex_token s \<noteq> Some []"
    and "\<bar>t\<bar> < 2 ^ 52" "\<bar>now\<bar> < 2 ^ 53"
  shows "session_verify L key (session_mint L nonce key s t) now
           = (if now < t + 30 * 24 * 60 * 60 then Some s else None)"
proof -
  have fits: "is_i64 (t + session_ttl_secs)" "\<bar>t + session_ttl_secs\<bar> < 2 ^ 53"
    using assms(7) by (auto simp: is_i64_def session_ttl_secs_def)
  have header: "Option.bind (jl_b64d L (hd (split_on CHR ''.'' (session_mint L nonce key s t)))) (read_map L)
      = Some (map_of (rev [(''alg'', JStr ''dir''), (''enc'', JStr ''A256GCM''), (''kid'', JStr session_kid)]))"
    using assms(1,3) by (simp add: session_mint_def split_encrypt Let_def jwe_laws_def read_map_def)
      (simp add: header_json_def)
  have ok: "session_header_ok (map_of (rev [(''alg'', JStr ''dir''), (''enc'', JStr ''A256GCM''), (''kid'', JStr session_kid)]))"
    by (simp add: session_header_ok_def map_text_def)
  have plain: "decrypt_with_key L key (session_mint L nonce key s t) = Inr (jl_print L (session_json s t))"
    unfolding session_mint_def by (rule decrypt_encrypt [OF assms(1,2)])
  have sub: "sub_of (us_sub s) = Some (us_sub s)" using parse_sub_raw [OF assms(5)] assms(5) by (simp add: sub_of_def)
  have fields: "session_verify L key (session_mint L nonce key s t) now =
      (if fle (f_of_int (t + session_ttl_secs)) (f_of_int now) then None else Some s)"
    using assms(6) sub
    unfolding session_verify_def header bind.simps plain sum.case read_map_session [OF assms(4)] session_json_fields
    by (cases "us_plex_token s")
      (simp_all only: ok not_True_eq_False if_False, simp_all add: date_claim_def map_text_def wrap64_id [OF fits(1)])
  show ?thesis
    unfolding fields flt_exact [OF fits(2) assms(8)] by (simp add: session_ttl_secs_def not_le [symmetric])
qed

definition demo_user :: user_session where
  "demo_user = \<lparr>us_sub = ''plex:7'', us_username = ''ann'', us_role = User, us_mode = MPlex, us_plex_token = Some ''tok''\<rparr>"

definition demo_session_lib :: jwe_lib where
  "demo_session_lib = demo_jwe\<lparr>
     jl_print := (\<lambda>v. if v = header_json session_kid then ''header'' else ''claims''),
     jl_parse := (\<lambda>s. if s = ''header'' then Some (header_json session_kid) else Some (session_json demo_user 1000))\<rparr>"

lemma session_lifetime_witness:
  "session_verify demo_session_lib ''key'' (session_mint demo_session_lib (replicate 12 (CHR ''n'')) ''key'' demo_user 1000) 2000
     = Some demo_user"
proof -
  have laws: "jwe_laws demo_session_lib"
    using demo_jwe_laws by (simp add: demo_session_lib_def jwe_laws_def)
  have sub: "parse_sub (us_sub demo_user) = Inr \<lparr>sub_provider = Plex, sub_id = ''7'', sub_raw = ''plex:7''\<rparr>"
    using plex_id_dec_nat [of 7]
    by (simp add: demo_user_def parse_sub_def sub_arm_def plex_re_def re_match_def strip_prefix_def starts_with_def)
      (simp add: dec_nat.simps [of 7] digit_char_def)
  have "session_verify demo_session_lib ''key'' (session_mint demo_session_lib (replicate 12 (CHR ''n'')) ''key'' demo_user 1000) 2000
      = (if 2000 < 1000 + 30 * 24 * 60 * (60 :: int) then Some demo_user else None)"
    by (rule session_lifetime [OF laws _ _ _ sub])
      (simp_all add: demo_session_lib_def header_json_def session_json_def demo_user_def)
  then show ?thesis by simp
qed

end
