(* ===== verification/Csrf.thy ===== *)
theory Csrf
  imports Session
begin

text \<open>
  \<open>crates/auth/src/csrf.rs\<close>: the origin gate in front of the state-changing routes.  A request is
  its method, path, query and headers; the layer's answer is to run the handler (\<open>Pass\<close>) or a 403
  with a reason.  Parsing the Origin as a URI is the \<open>http\<close> crate's and a parameter: the scheme,
  host and port it finds.
\<close>

section \<open>Model\<close>

datatype http_method = GET | HEAD | POST | PUT | PATCH | DELETE | OPTIONS | OtherMethod string

record http_request =
  rq_method :: http_method
  rq_path :: string
  rq_query :: "string option"
  rq_headers :: headers

record csrf_config =
  allowed_origins :: "string list"
  is_prod :: bool

type_synonym uri_parser = "string \<Rightarrow> (string option \<times> string option \<times> nat option) option"

datatype verdict = Pass | Forbidden string

definition native_bootstrap_paths :: "string list" where
  "native_bootstrap_paths =
     [''/api/auth/device/poll'', ''/api/auth/apple'', ''/api/auth/google'',
      ''/api/auth/device/link/start'', ''/api/auth/device/link/poll'',
      ''/api/auth/workos/native/start'', ''/api/auth/workos/native'']"

definition token_auth_prefixes :: "string list" where
  "token_auth_prefixes = [''/api/transcode/session/'']"

definition header_str :: "headers \<Rightarrow> string \<Rightarrow> string option" where
  "header_str h n = map_option (trim_by is_blank) (Option.bind (header_get h n) header_to_str)"

definition has_cookie_value :: "headers \<Rightarrow> bool" where
  "has_cookie_value h \<longleftrightarrow> list_ex (\<lambda>v. trim_ascii v \<noteq> []) (header_get_all h ''cookie'')"

definition bearer_only :: "headers \<Rightarrow> bool" where
  "bearer_only h \<longleftrightarrow>
     (case header_get h ''authorization'' of None \<Rightarrow> False | Some v \<Rightarrow> starts_with ''Bearer '' (trim_ascii v))
     \<and> \<not> has_cookie_value h"

definition first_t :: "string \<Rightarrow> string option" where
  "first_t q =
     map_option snd (find (\<lambda>(k, _). k = ''t'')
       (map (\<lambda>kv. case split_once (CHR ''='') kv of Some p \<Rightarrow> p | None \<Rightarrow> (kv, [])) (split_on (CHR 38) q)))"

definition stream_token_only :: "http_request \<Rightarrow> bool" where
  "stream_token_only r \<longleftrightarrow>
     (case Option.bind (rq_query r) first_t of None \<Rightarrow> False | Some t \<Rightarrow> t \<noteq> [])
     \<and> \<not> has_cookie_value (rq_headers r)
     \<and> list_ex (\<lambda>p. starts_with p (rq_path r)) token_auth_prefixes"

definition native_bootstrap :: "http_request \<Rightarrow> bool" where
  "native_bootstrap r \<longleftrightarrow> \<not> header_has (rq_headers r) ''cookie'' \<and> \<not> header_has (rq_headers r) ''origin''
     \<and> rq_path r \<in> set native_bootstrap_paths"

definition lower :: "char \<Rightarrow> char" where
  "lower c = (let b = of_char c :: nat in if 65 \<le> b \<and> b \<le> 90 then char_of (b + 32) else c)"

definition default_port :: "string \<Rightarrow> nat option" where
  "default_port scheme =
     (if scheme = ''http'' \<or> scheme = ''ws'' then Some 80
      else if scheme = ''https'' \<or> scheme = ''wss'' then Some 443 else None)"

definition same_host :: "uri_parser \<Rightarrow> string option \<Rightarrow> string option \<Rightarrow> bool" where
  "same_host parse origin host =
     (case (origin, host) of
        (Some origin, Some host) \<Rightarrow>
          (case parse origin of
             Some (Some scheme, Some name, port) \<Rightarrow>
               (case port of
                  Some p \<Rightarrow> if Some p \<noteq> default_port scheme then map lower name @ '':'' @ dec_nat p
                            else map lower name
                | None \<Rightarrow> map lower name) = host
           | _ \<Rightarrow> False)
      | _ \<Rightarrow> False)"

definition origin_rejection :: "csrf_config \<Rightarrow> string option \<Rightarrow> string option" where
  "origin_rejection c origin =
     (if allowed_origins c = [] then (if is_prod c then Some ''csrf_misconfigured'' else None)
      else case origin of
             Some o' \<Rightarrow> if o' \<in> set (allowed_origins c) then None else Some ''bad_origin''
           | None \<Rightarrow> Some ''bad_origin'')"

definition gate :: "uri_parser \<Rightarrow> csrf_config \<Rightarrow> http_request \<Rightarrow> verdict" where
  "gate parse c r =
     (let origin = header_str (rq_headers r) ''origin'' in
      if same_host parse origin (header_str (rq_headers r) ''host'') then Pass
      else (case origin_rejection c origin of None \<Rightarrow> Pass | Some reason \<Rightarrow> Forbidden reason))"

definition state_changing :: "http_method \<Rightarrow> bool" where
  "state_changing m \<longleftrightarrow> m \<in> {POST, PUT, PATCH, DELETE}"

definition require_safe_origin :: "uri_parser \<Rightarrow> csrf_config \<Rightarrow> http_request \<Rightarrow> verdict" where
  "require_safe_origin parse c r =
     (if \<not> state_changing (rq_method r) \<or> bearer_only (rq_headers r) \<or> stream_token_only r \<or> native_bootstrap r
      then Pass else gate parse c r)"

definition require_trusted_origin :: "uri_parser \<Rightarrow> csrf_config \<Rightarrow> http_request \<Rightarrow> verdict" where
  "require_trusted_origin parse c r =
     (if bearer_only (rq_headers r) then Pass else gate parse c r)"

section \<open>Cookies and the gate\<close>

lemma trim_by_keeps: "x \<in> set s \<Longrightarrow> \<not> p x \<Longrightarrow> trim_by p s \<noteq> []"
proof -
  assume x: "x \<in> set s" "\<not> p x"
  have keep: "x \<in> set t \<Longrightarrow> x \<in> set (dropWhile p t)" for t
    using x(2) by (induction t) auto
  have "x \<in> set (dropWhile p (rev (dropWhile p s)))" using keep x(1) by simp
  then show ?thesis unfolding trim_by_def by (metis empty_iff empty_set rev_is_Nil_conv)
qed

lemma split_on_subset: "p \<in> set (split_on c s) \<Longrightarrow> set p \<subseteq> set s"
  by (induction s arbitrary: p) (auto split: if_splits list.splits, force+)

text \<open>A request whose cookies yield a session cookie has a non-blank Cookie header.\<close>

lemma read_cookie_has_value:
  assumes "read_named_cookie h name = Some v"
  shows "has_cookie_value h"
proof -
  have "cookie_pairs h \<noteq> []"
    using assms by (auto simp: read_named_cookie_def)
  then obtain n w where "(n, w) \<in> set (cookie_pairs h)" by (cases "cookie_pairs h") auto
  then obtain raw shown piece where raw: "raw \<in> set (header_get_all h ''cookie'')"
    and shown: "header_to_str raw = Some shown" and piece: "piece \<in> set (split_on (CHR '';'') shown)"
    and pair: "split_once (CHR ''='') piece = Some (n, w)"
    by (auto simp: cookie_pairs_def List.map_filter_def)
  have "CHR ''='' \<in> set piece" using pair by (simp add: split_once_Some)
  then have "CHR ''='' \<in> set raw"
    using split_on_subset [OF piece] shown by (auto simp: header_to_str_def split: if_splits)
  then have "trim_ascii raw \<noteq> []"
    unfolding trim_ascii_def by (rule trim_by_keeps) (simp add: ascii_space_def)
  then show ?thesis using raw by (auto simp: has_cookie_value_def list_ex_iff)
qed

lemma cookie_present:
  "has_cookie_value h \<Longrightarrow> header_has h ''cookie''"
  using header_get_all_Nil [of h "''cookie''"] by (auto simp: has_cookie_value_def header_has_def)

section \<open>Properties\<close>


definition demo_post :: http_request where
  "demo_post = \<lparr>rq_method = POST, rq_path = ''/api/x'', rq_query = None,
     rq_headers = [(''cookie'', ''eex.session=abc''), (''origin'', ''https://a.example'')]\<rparr>"

lemma read_demo_cookie: "read_cookie (rq_headers demo_post) = Some ''abc''"
  by code_simp


end
