(* ===== verification/Text.thy ===== *)
theory Text
  imports Http
begin

text \<open>
  The \<open>str\<close> operations the media crates share: ASCII case folding and the comparison it gives,
  substring search, the words of a text, joining with a separator and parsing of small unsigned
  decimals.
\<close>

definition lower_char :: "char \<Rightarrow> char" where
  "lower_char c = (if 65 \<le> (of_char c :: nat) \<and> (of_char c :: nat) \<le> 90 then char_of ((of_char c :: nat) + 32) else c)"

definition to_lower :: "string \<Rightarrow> string" where
  "to_lower s = map lower_char s"

definition eq_ci :: "string \<Rightarrow> string \<Rightarrow> bool" where
  "eq_ci a b \<longleftrightarrow> to_lower a = to_lower b"

fun str_contains :: "string \<Rightarrow> string \<Rightarrow> bool" where
  "str_contains [] p \<longleftrightarrow> p = []"
| "str_contains (c # s) p \<longleftrightarrow> starts_with p (c # s) \<or> str_contains s p"

definition rtrim :: "string \<Rightarrow> string" where
  "rtrim s = trim_by rust_space s"

definition first_word :: "string \<Rightarrow> string option" where
  "first_word s = (case takeWhile (\<lambda>c. \<not> rust_space c) (dropWhile rust_space s) of [] \<Rightarrow> None | w \<Rightarrow> Some w)"

fun join_with :: "string \<Rightarrow> string list \<Rightarrow> string" where
  "join_with sep [] = []"
| "join_with sep [x] = x"
| "join_with sep (x # xs) = x @ sep @ join_with sep xs"

text \<open>\<open>str::parse\<close> of an unsigned type below \<open>bound\<close>: an optional plus sign and at least one digit.\<close>

definition parse_unsigned :: "nat \<Rightarrow> string \<Rightarrow> nat option" where
  "parse_unsigned bound s =
     (let d = (case s of c # r \<Rightarrow> if c = CHR ''+'' then r else s | [] \<Rightarrow> s) in
      if d \<noteq> [] \<and> list_all is_digit d \<and> dec_val d < bound then Some (dec_val d) else None)"

definition nl :: char where "nl = CHR 10"

definition strip_cr :: "string \<Rightarrow> string" where
  "strip_cr l = (if l \<noteq> [] \<and> last l = CHR 13 then butlast l else l)"

text \<open>
  \<open>str::lines\<close>: a carriage return before a newline goes with it, and there is no empty line after a
  final newline.
\<close>

definition str_lines :: "string \<Rightarrow> string list" where
  "str_lines s =
     (let ls = split_on nl s in map strip_cr (butlast ls) @ (if last ls = [] then [] else [last ls]))"

lemma of_lower_char: "\<not> (65 \<le> (of_char (lower_char c) :: nat) \<and> (of_char (lower_char c) :: nat) \<le> 90)"
  by (auto simp: lower_char_def of_char_of)

lemma lower_char_idem [simp]: "lower_char (lower_char c) = lower_char c"
  using of_lower_char [of c] by (auto simp: lower_char_def [of "lower_char c"])

lemma to_lower_idem [simp]: "to_lower (to_lower s) = to_lower s"
  by (simp add: to_lower_def comp_def)

lemma eq_ci_refl [simp]: "eq_ci a a"
  by (simp add: eq_ci_def)

lemma eq_ci_sym: "eq_ci a b \<Longrightarrow> eq_ci b a"
  by (simp add: eq_ci_def)

lemma eq_ci_trans: "eq_ci a b \<Longrightarrow> eq_ci b c \<Longrightarrow> eq_ci a c"
  by (simp add: eq_ci_def)

lemma eq_ci_lower [simp]: "eq_ci a (to_lower b) = eq_ci a b"
  by (simp add: eq_ci_def)

lemma dropWhile_twice: "dropWhile p (dropWhile p s) = dropWhile p s"
  by (induction s) auto

lemma trim_by_idem [simp]: "trim_by p (trim_by p s) = trim_by p s"
proof -
  define t where "t = dropWhile p s"
  define u where "u = rev (dropWhile p (rev t))"
  have "dropWhile p u = u"
  proof (cases u)
    case (Cons a u')
    have "t = u @ rev (takeWhile p (rev t))"
      unfolding u_def by (metis rev_append rev_rev_ident takeWhile_dropWhile_id)
    then have "t \<noteq> []" "hd t = a" using Cons by (metis append_is_Nil_conv list.simps(3), metis append_Cons list.sel(1))
    then have "\<not> p a" unfolding t_def using hd_dropWhile by blast
    then show ?thesis using Cons by simp
  qed simp
  moreover have "rev (dropWhile p (rev u)) = u" by (simp add: u_def dropWhile_twice)
  ultimately show ?thesis by (simp add: trim_by_def u_def [unfolded t_def, symmetric])
qed

lemma rtrim_idem [simp]: "rtrim (rtrim s) = rtrim s"
  by (simp add: rtrim_def)

end
