(* ===== verification/Remux_Map.thy ===== *)
theory Remux_Map
  imports Text
begin

text \<open>
  \<open>crates/iptv/src/remux_map.rs\<close>: which remux session serves a viewer's tuned channel, when a dead
  one may be re-dialed, and the client-facing playlist.  What \<open>remux.rs\<close> answers during one call
  (\<open>is_active\<close>, \<open>is_dead\<close>, \<open>needs_reencode\<close>, \<open>start\<close>) is the argument \<open>remux_view\<close>; the sessions a
  call asks it to stop are part of the call's result.  Instants and durations are nanoseconds.
  \<open>str::trim\<close> strips ASCII white space: the playlists are ffmpeg's own.
\<close>

section \<open>State\<close>

definition redirect_ttl :: nat where "redirect_ttl = 4 * 3600 * 1000000000"

definition reconnect_base :: nat where "reconnect_base = 5 * 1000000000"

definition reconnect_max :: nat where "reconnect_max = 30 * 1000000000"

definition fast_fail :: nat where "fast_fail = 20 * 1000000000"

record live_entry =
  le_session :: string
  le_dir :: string
  le_manifest :: string
  le_stream :: string
  le_dialed :: string
  le_sub :: string
  le_started :: nat

record indexed =
  ix_entry :: live_entry
  ix_urls :: "string \<rightharpoonup> string"

record redirect_to =
  rd_stream :: string
  rd_sub :: string
  rd_feed :: string
  rd_expires :: nat

record continuity =
  ct_session :: string
  ct_offset :: int
  ct_disc :: int
  ct_max :: int

record live_state =
  lv_index :: "(string, indexed) imap"
  lv_redirects :: "(string, redirect_to) imap"
  lv_last_connect :: "string \<rightharpoonup> nat"
  lv_spawn_at :: "string \<rightharpoonup> nat"
  lv_streak :: "string \<rightharpoonup> nat"
  lv_cont :: "string \<rightharpoonup> continuity"

definition new_live_map :: live_state where
  "new_live_map = \<lparr>lv_index = [], lv_redirects = [], lv_last_connect = Map.empty,
     lv_spawn_at = Map.empty, lv_streak = Map.empty, lv_cont = Map.empty\<rparr>"

record started =
  sd_session :: string
  sd_dir :: string
  sd_manifest :: string

record remux_view =
  rx_active :: "string \<Rightarrow> bool"
  rx_dead :: "string \<Rightarrow> bool"
  rx_reencode :: "string \<Rightarrow> bool"
  rx_start :: "string \<Rightarrow> string \<Rightarrow> string \<Rightarrow> bool \<Rightarrow> string + started option"

record ensure_opts =
  eo_stream :: string
  eo_sub :: string
  eo_feeds :: "string list"
  eo_url :: "string \<Rightarrow> string"

definition live_key :: "string \<Rightarrow> string \<Rightarrow> string" where
  "live_key stream sub = stream @ '':'' @ sub"

definition reconnect_delay :: "nat \<Rightarrow> nat" where
  "reconnect_delay streak =
     (if streak = 0 then 0 else min (reconnect_base * min (2 ^ (streak - 1)) (2 ^ 32 - 1)) reconnect_max)"

definition is_seg_file :: "string \<Rightarrow> bool" where
  "is_seg_file s \<longleftrightarrow> length s = 12 \<and> starts_with ''seg_'' s \<and> ends_with ''.ts'' s
     \<and> list_all is_digit (take 5 (drop 4 s))"

section \<open>Ensuring a session\<close>

text \<open>An entry whose ffmpeg exited is dropped, and the failure counted.\<close>

definition drop_exited :: "remux_view \<Rightarrow> string \<Rightarrow> nat \<Rightarrow> live_state \<Rightarrow> live_state" where
  "drop_exited R k now st =
     (case im_get (lv_index st) k of
        None \<Rightarrow> st
      | Some ix \<Rightarrow>
          if rx_active R (le_session (ix_entry ix)) then st
          else
            (let st1 =
               (if rx_dead R (le_dialed (ix_entry ix))
                then st\<lparr>lv_streak := (lv_streak st)(k := None), lv_last_connect := (lv_last_connect st)(k := None)\<rparr>
                else
                  (let lived = (case lv_spawn_at st k of None \<Rightarrow> 0 | Some t \<Rightarrow> now - t) in
                   if lived < fast_fail
                   then st\<lparr>lv_streak := (lv_streak st)(k \<mapsto>
                          ((case lv_streak st k of None \<Rightarrow> 0 | Some n \<Rightarrow> n) + 1) mod 2 ^ 32)\<rparr>
                   else st\<lparr>lv_streak := (lv_streak st)(k := None)\<rparr>))
             in st1\<lparr>lv_index := im_remove k (lv_index st1), lv_spawn_at := (lv_spawn_at st1)(k := None)\<rparr>))"

definition pick_feed :: "remux_view \<Rightarrow> ensure_opts \<Rightarrow> nat \<Rightarrow> live_state \<Rightarrow> string option \<times> live_state" where
  "pick_feed R opts now st =
     (let k = live_key (eo_stream opts) (eo_sub opts);
          st1 = (case im_get (lv_redirects st) k of
                   None \<Rightarrow> st
                 | Some r \<Rightarrow> if now \<ge> rd_expires r then st\<lparr>lv_redirects := im_remove k (lv_redirects st)\<rparr> else st);
          feeds = (if eo_feeds opts = [] then [eo_stream opts] else eo_feeds opts);
          redirect = map_option rd_feed (im_get (lv_redirects st1) k);
          candidates = (case redirect of None \<Rightarrow> feeds | Some f \<Rightarrow> f # filter (\<lambda>g. g \<noteq> f) feeds)
      in (find (\<lambda>f. \<not> rx_dead R f) candidates, st1))"

definition in_cooldown :: "string \<Rightarrow> nat \<Rightarrow> live_state \<Rightarrow> bool" where
  "in_cooldown k now st \<longleftrightarrow>
     (let delay = reconnect_delay (case lv_streak st k of None \<Rightarrow> 0 | Some n \<Rightarrow> n)
      in delay \<noteq> 0 \<and> (case lv_last_connect st k of None \<Rightarrow> False | Some t \<Rightarrow> now - t < delay))"

definition ensure :: "remux_view \<Rightarrow> ensure_opts \<Rightarrow> nat \<Rightarrow> live_state
    \<Rightarrow> (string + live_entry option) \<times> live_state" where
  "ensure R opts now st0 =
     (let k = live_key (eo_stream opts) (eo_sub opts); st = drop_exited R k now st0 in
      case im_get (lv_index st) k of
        Some ix \<Rightarrow> (Inr (Some (ix_entry ix)), st)
      | None \<Rightarrow>
          if in_cooldown k now st then (Inr None, st)
          else
            (case pick_feed R opts now st of
               (None, st1) \<Rightarrow> (Inr None, st1)
             | (Some dial, st1) \<Rightarrow>
                 (case rx_start R dial (eo_sub opts) (eo_url opts dial) (rx_reencode R dial) of
                    Inl e \<Rightarrow> (Inl e, st1)
                  | Inr None \<Rightarrow> (Inr None, st1)
                  | Inr (Some s) \<Rightarrow>
                      (let entry = \<lparr>le_session = sd_session s, le_dir = sd_dir s, le_manifest = sd_manifest s,
                             le_stream = eo_stream opts, le_dialed = dial, le_sub = eo_sub opts, le_started = now\<rparr>
                       in (Inr (Some entry),
                           st1\<lparr>lv_last_connect := (lv_last_connect st1)(k \<mapsto> now),
                               lv_spawn_at := (lv_spawn_at st1)(k \<mapsto> now),
                               lv_index := im_insert k \<lparr>ix_entry = entry, ix_urls = Map.empty\<rparr> (lv_index st1)\<rparr>)))))"

definition is_offline :: "remux_view \<Rightarrow> string list \<Rightarrow> bool" where
  "is_offline R candidates \<longleftrightarrow> candidates \<noteq> [] \<and> list_all (rx_dead R) candidates"

definition get_active :: "remux_view \<Rightarrow> string \<Rightarrow> string \<Rightarrow> live_state \<Rightarrow> live_entry option \<times> live_state" where
  "get_active R stream sub st =
     (let k = live_key stream sub in
      case im_get (lv_index st) k of
        None \<Rightarrow> (None, st)
      | Some ix \<Rightarrow>
          if rx_active R (le_session (ix_entry ix)) then (Some (ix_entry ix), st)
          else (None, st\<lparr>lv_index := im_remove k (lv_index st)\<rparr>))"

text \<open>The second component of these results lists the (session, reason) pairs handed to \<open>stop\<close>.\<close>

definition forget :: "string \<Rightarrow> string \<Rightarrow> string \<Rightarrow> live_state \<Rightarrow> live_state \<times> (string \<times> string) list" where
  "forget stream sub session st =
     (st\<lparr>lv_index := im_remove (live_key stream sub) (lv_index st)\<rparr>, [(session, ''forget'')])"

definition drop_others :: "string \<Rightarrow> string \<Rightarrow> live_state
    \<Rightarrow> string list \<times> live_state \<times> (string \<times> string) list" where
  "drop_others sub keep st =
     (let other = (\<lambda>ix. le_sub (ix_entry ix) = sub \<and> le_stream (ix_entry ix) \<noteq> keep);
          gone = filter (\<lambda>(_, ix). other ix) (lv_index st)
      in (map (\<lambda>(_, ix). le_stream (ix_entry ix)) gone,
          st\<lparr>lv_redirects := filter (\<lambda>(_, r). \<not> (rd_sub r = sub \<and> rd_stream r \<noteq> keep)) (lv_redirects st),
             lv_index := filter (\<lambda>(_, ix). \<not> other ix) (lv_index st)\<rparr>,
          map (\<lambda>(_, ix). (le_session (ix_entry ix), ''drop-other'')) gone))"

definition redirect_viewer :: "string \<Rightarrow> string \<Rightarrow> string \<Rightarrow> string \<Rightarrow> nat \<Rightarrow> live_state
    \<Rightarrow> live_state \<times> (string \<times> string) list" where
  "redirect_viewer stream sub feed session now st0 =
     (let k = live_key stream sub;
          st = st0\<lparr>lv_redirects := im_insert k \<lparr>rd_stream = stream, rd_sub = sub, rd_feed = feed,
                 rd_expires = now + redirect_ttl\<rparr> (lv_redirects st0)\<rparr>
      in case im_get (lv_index st) k of
           Some ix \<Rightarrow>
             if le_session (ix_entry ix) = session
             then (st\<lparr>lv_index := im_remove k (lv_index st)\<rparr>, [(session, ''feed-check-switch'')])
             else (st, [])
         | None \<Rightarrow> (st, []))"

section \<open>The client-facing playlist\<close>

definition parse_seq :: "string \<Rightarrow> int option" where
  "parse_seq l =
     Option.bind (strip_prefix ''#EXT-X-MEDIA-SEQUENCE:'' l) (\<lambda>d.
       let ds = takeWhile is_digit d
       in if ds \<noteq> [] \<and> dec_val ds < 2 ^ 63 then Some (int (dec_val ds)) else None)"

definition local_seq :: "string \<Rightarrow> int" where
  "local_seq s = (case List.map_filter parse_seq (str_lines s) of [] \<Rightarrow> 0 | n # _ \<Rightarrow> n)"

definition fresh_continuity :: "string \<Rightarrow> continuity" where
  "fresh_continuity session = \<lparr>ct_session = session, ct_offset = 0, ct_disc = 0, ct_max = - 1\<rparr>"

definition swap_continuity :: "string \<Rightarrow> int \<Rightarrow> continuity \<Rightarrow> continuity" where
  "swap_continuity session lseq c =
     (if ct_session c \<noteq> session
      then \<lparr>ct_session = session,
            ct_offset = max (wrap64 (wrap64 (ct_max c + 1) - lseq)) 0,
            ct_disc = wrap64 (ct_disc c + 1), ct_max = ct_max c\<rparr>
      else c)"

definition note_served :: "int \<Rightarrow> nat \<Rightarrow> continuity \<Rightarrow> continuity" where
  "note_served first n c =
     (if n > 0 then c\<lparr>ct_max := max (ct_max c) (wrap64 (wrap64 (first + int n) - 1))\<rparr> else c)"

definition seg_of_line :: "string \<Rightarrow> string" where
  "seg_of_line l = last (split_on (CHR ''/'') (rev (dropWhile (\<lambda>c. c = CHR ''/'') (rev (trim_by rust_space l)))))"

record rewriting =
  rw_out :: "string list"
  rw_seen :: bool
  rw_emitted :: bool
  rw_present :: "string list"
  rw_cache :: "(string \<rightharpoonup> string) option"
  rw_signed :: nat

definition emit_seq :: "int \<Rightarrow> int \<Rightarrow> rewriting \<Rightarrow> rewriting" where
  "emit_seq first disc w =
     (if rw_emitted w then w
      else w\<lparr>rw_out := rw_out w @ [''#EXT-X-MEDIA-SEQUENCE:'' @ dec_int first]
               @ (if disc > 0 then [''#EXT-X-DISCONTINUITY-SEQUENCE:'' @ dec_int disc] else []),
             rw_emitted := True\<rparr>)"

text \<open>The URL of one segment line: the cached one, or a newly signed one put in the cache.\<close>

definition seg_url :: "string \<Rightarrow> string \<Rightarrow> (nat \<Rightarrow> string \<Rightarrow> string) \<Rightarrow> string \<Rightarrow> rewriting \<Rightarrow> string \<times> rewriting" where
  "seg_url stream session mint seg w =
     (case Option.bind (rw_cache w) (\<lambda>c. c seg) of
        Some url \<Rightarrow> (url, w)
      | None \<Rightarrow>
          (let token = mint (rw_signed w) (session @ ''/'' @ seg);
               url = ''/api/iptv/stream/live/'' @ stream @ ''/remux/seg?t='' @ encode_uri_component token
           in (url, w\<lparr>rw_cache := map_option (\<lambda>c. c(seg \<mapsto> url)) (rw_cache w), rw_signed := rw_signed w + 1\<rparr>)))"

definition rewrite_line :: "string \<Rightarrow> string \<Rightarrow> (nat \<Rightarrow> string \<Rightarrow> string) \<Rightarrow> int \<Rightarrow> int \<Rightarrow> string \<Rightarrow> rewriting \<Rightarrow> rewriting" where
  "rewrite_line stream session mint first disc raw w =
     (let l = strip_cr raw in
      if \<not> rw_seen w \<and> trim_by rust_space l = ''#EXT-X-DISCONTINUITY'' then w
      else if starts_with ''#EXT-X-MEDIA-SEQUENCE:'' l then emit_seq first disc w
      else if l = [] \<or> hd l = CHR ''#'' then w\<lparr>rw_out := rw_out w @ [l]\<rparr>
      else if \<not> is_seg_file (seg_of_line l) then w\<lparr>rw_out := rw_out w @ [l]\<rparr>
      else
        (let seg = seg_of_line l;
             w1 = (if \<not> rw_seen w \<and> (first > 0 \<or> disc > 0) then emit_seq first disc w else w);
             (url, w2) = seg_url stream session mint seg (w1\<lparr>rw_seen := True, rw_present := rw_present w1 @ [seg]\<rparr>)
         in w2\<lparr>rw_out := rw_out w2 @ [url]\<rparr>))"

definition rewrite_lines :: "string \<Rightarrow> string \<Rightarrow> (nat \<Rightarrow> string \<Rightarrow> string) \<Rightarrow> int \<Rightarrow> int
    \<Rightarrow> (string \<rightharpoonup> string) option \<Rightarrow> string \<Rightarrow> rewriting" where
  "rewrite_lines stream session mint first disc cache s =
     foldl (\<lambda>w l. rewrite_line stream session mint first disc l w)
       \<lparr>rw_out = [], rw_seen = False, rw_emitted = False, rw_present = [], rw_cache = cache, rw_signed = 0\<rparr>
       (split_on nl s)"

fun join_lines :: "string list \<Rightarrow> string" where
  "join_lines [] = []"
| "join_lines [l] = l"
| "join_lines (l # ls) = l @ nl # join_lines ls"

definition rewrite_remux_manifest :: "string \<Rightarrow> string \<Rightarrow> string \<Rightarrow> string
    \<Rightarrow> (string \<rightharpoonup> continuity) \<Rightarrow> (string \<rightharpoonup> string) option \<Rightarrow> (nat \<Rightarrow> string \<Rightarrow> string)
    \<Rightarrow> string \<times> (string \<rightharpoonup> continuity) \<times> (string \<rightharpoonup> string) option" where
  "rewrite_remux_manifest s stream session sub conts cache mint =
     (let k = live_key stream sub; lseq = local_seq s;
          c = swap_continuity session lseq
                (case conts k of Some c \<Rightarrow> c | None \<Rightarrow> fresh_continuity session);
          first = wrap64 (lseq + ct_offset c);
          w = rewrite_lines stream session mint first (ct_disc c) cache s
      in (join_lines (rw_out w),
          conts(k \<mapsto> note_served first (length (rw_present w)) c),
          map_option (\<lambda>m. m |` set (rw_present w)) (rw_cache w)))"

definition rewrite_live :: "(nat \<Rightarrow> string \<Rightarrow> string) \<Rightarrow> string \<Rightarrow> string \<Rightarrow> string \<Rightarrow> string \<Rightarrow> live_state
    \<Rightarrow> string \<times> live_state" where
  "rewrite_live mint s stream session sub st =
     (let k = live_key stream sub;
          cache = (case im_get (lv_index st) k of
                     Some ix \<Rightarrow> if le_session (ix_entry ix) = session then Some (ix_urls ix) else None
                   | None \<Rightarrow> None);
          (out, conts, cache') = rewrite_remux_manifest s stream session sub (lv_cont st) cache mint;
          st1 = st\<lparr>lv_cont := conts\<rparr>
      in (out, case (cache', im_get (lv_index st) k) of
                 (Some m, Some ix) \<Rightarrow> st1\<lparr>lv_index := im_insert k (ix\<lparr>ix_urls := m\<rparr>) (lv_index st1)\<rparr>
               | _ \<Rightarrow> st1))"

definition manifest_ready :: "string option \<Rightarrow> nat \<Rightarrow> bool" where
  "manifest_ready file n =
     (case file of
        None \<Rightarrow> False
      | Some s \<Rightarrow> n - 1 < length (filter (\<lambda>l. is_seg_file (trim_by rust_space l)) (str_lines s)))"

definition segment_resource :: "string \<Rightarrow> (string \<times> string) option" where
  "segment_resource rid =
     (let (seg, rest) = (takeWhile (\<lambda>c. c \<noteq> CHR ''/'') (rev rid), dropWhile (\<lambda>c. c \<noteq> CHR ''/'') (rev rid))
      in case rest of
           [] \<Rightarrow> None
         | _ # session \<Rightarrow>
             if session \<noteq> [] \<and> is_seg_file (rev seg) then Some (rev session, rev seg) else None)"

section \<open>Continuity\<close>

text \<open>
  The continuity of one viewer's channel, abstracted from the text: each poll names the session, the
  local sequence number of its playlist and how many segments it lists.
\<close>

type_synonym poll = "string \<times> int \<times> nat"

definition serve :: "continuity \<Rightarrow> poll \<Rightarrow> int \<times> continuity" where
  "serve c q = (case q of (session, l, n) \<Rightarrow>
     let c' = swap_continuity session l c; first = wrap64 (l + ct_offset c')
     in (first, note_served first n c'))"

fun serve_all :: "continuity \<Rightarrow> poll list \<Rightarrow> (int list) \<times> continuity" where
  "serve_all c [] = ([], c)"
| "serve_all c (q # qs) =
     (fst (serve c q) # fst (serve_all (snd (serve c q)) qs), snd (serve_all (snd (serve c q)) qs))"

text \<open>Polls whose numbers stay far from the \<open>i64\<close> range, ffmpeg's counter rising within a session.\<close>

definition poll_ok :: "poll \<Rightarrow> bool" where
  "poll_ok q \<longleftrightarrow> (case q of (_, l, n) \<Rightarrow> 0 \<le> l \<and> l < 2 ^ 40 \<and> n < 2 ^ 20)"

fun rising :: "poll list \<Rightarrow> bool" where
  "rising ((s, l, n) # (s', l', n') # qs) \<longleftrightarrow> (s = s' \<longrightarrow> l \<le> l') \<and> rising ((s', l', n') # qs)"
| "rising _ \<longleftrightarrow> True"

text \<open>What holds before a poll when every earlier one was below \<open>b\<close>.\<close>

definition cont_ok :: "int \<Rightarrow> continuity \<Rightarrow> bool" where
  "cont_ok b c \<longleftrightarrow> - 1 \<le> ct_max c \<and> ct_max c \<le> b \<and> 0 \<le> ct_offset c \<and> ct_offset c \<le> b + 1"

lemma serve_exact:
  assumes "cont_ok b c" "0 \<le> b" "b < 2 ^ 62" "poll_ok (session, l, n)"
  defines "off \<equiv> (if ct_session c \<noteq> session then max (ct_max c + 1 - l) 0 else ct_offset c)"
  shows "fst (serve c (session, l, n)) = l + off"
    and "ct_offset (snd (serve c (session, l, n))) = off"
    and "ct_session (snd (serve c (session, l, n))) = session"
    and "ct_max (snd (serve c (session, l, n))) = (if n > 0 then max (ct_max c) (l + off + int n - 1) else ct_max c)"
    and "cont_ok (b + 2 ^ 41) (snd (serve c (session, l, n)))"
proof -
  have l: "0 \<le> l" "l < 2 ^ 40" and n: "n < 2 ^ 20" using assms(4) by (auto simp: poll_ok_def)
  have c: "- 1 \<le> ct_max c" "ct_max c \<le> b" "0 \<le> ct_offset c" "ct_offset c \<le> b + 1"
    using assms(1) by (auto simp: cont_ok_def)
  have off: "0 \<le> off" "off \<le> b + 1" using c l assms(2) by (auto simp: off_def)
  have w1: "wrap64 (ct_max c + 1) = ct_max c + 1" "wrap64 (ct_max c + 1 - l) = ct_max c + 1 - l"
    using c l assms(3) by (auto intro!: wrap64_id simp: is_i64_def)
  have w2: "wrap64 (l + off) = l + off" "wrap64 (l + off + int n) = l + off + int n"
    "wrap64 (l + off + int n - 1) = l + off + int n - 1"
    using off l n assms(3) by (auto intro!: wrap64_id simp: is_i64_def)
  have sw: "ct_offset (swap_continuity session l c) = off" "ct_max (swap_continuity session l c) = ct_max c"
    "ct_session (swap_continuity session l c) = session"
    by (simp_all add: swap_continuity_def off_def w1)
  show "fst (serve c (session, l, n)) = l + off"
    by (simp add: serve_def Let_def sw w2)
  show "ct_offset (snd (serve c (session, l, n))) = off" "ct_session (snd (serve c (session, l, n))) = session"
    by (simp_all add: serve_def Let_def note_served_def sw w2)
  show max: "ct_max (snd (serve c (session, l, n))) = (if n > 0 then max (ct_max c) (l + off + int n - 1) else ct_max c)"
    by (simp add: serve_def Let_def note_served_def sw w2)
  have "int n < 2 ^ 20" using n by simp
  then show "cont_ok (b + 2 ^ 41) (snd (serve c (session, l, n)))"
    using off l c unfolding cont_ok_def max
    by (auto simp: serve_def Let_def note_served_def sw w2 max_def)
qed

text \<open>
  Everything served under another session than the current one lies below what the current session
  can still announce.
\<close>

lemma rising_Cons: "rising (q # qs) \<Longrightarrow> rising qs"
  by (cases q; cases qs) auto

lemma serve_all_above:
  assumes "cont_ok b c" "0 \<le> b" "b + int (length qs) * 2 ^ 41 < 2 ^ 62"
    and "\<forall>q\<in>set qs. poll_ok q" "rising qs"
    and "qs \<noteq> [] \<and> fst (hd qs) = ct_session c \<Longrightarrow> m \<le> fst (snd (hd qs)) + ct_offset c" "m \<le> ct_max c + 1"
    and "j < length qs"
  shows "m \<le> fst (serve_all c qs) ! j"
  using assms
proof (induction qs arbitrary: b c j)
  case Nil
  then show ?case by simp
next
  case (Cons q qs)
  obtain session l n where q: "q = (session, l, n)" by (cases q)
  define c' where "c' = snd (serve c q)"
  have ok: "poll_ok (session, l, n)" and b: "b < 2 ^ 62" using Cons.prems(3,4) q by auto
  note ex = serve_exact [OF Cons.prems(1,2) b ok]
  have first: "m \<le> fst (serve c q)"
    using ex(1) Cons.prems(6,7) by (auto simp: q)
  show ?case
  proof (cases j)
    case 0
    then show ?thesis using first by simp
  next
    case (Suc i)
    have "m \<le> fst (serve_all c' qs) ! i"
    proof (rule Cons.IH)
      show "cont_ok (b + 2 ^ 41) c'" using ex(5) by (simp add: c'_def q)
      show "0 \<le> b + 2 ^ 41" using Cons.prems(2) by simp
      show "b + 2 ^ 41 + int (length qs) * 2 ^ 41 < 2 ^ 62" using Cons.prems(3) by (simp add: algebra_simps)
      show "\<forall>q\<in>set qs. poll_ok q" using Cons.prems(4) by simp
      show "rising qs" using Cons.prems(5) by (rule rising_Cons)
      show "i < length qs" using Cons.prems(8) Suc by simp
      show "m \<le> ct_max c' + 1" using ex(4) Cons.prems(7) by (auto simp: c'_def q)
      show "m \<le> fst (snd (hd qs)) + ct_offset c'" if cur: "qs \<noteq> [] \<and> fst (hd qs) = ct_session c'"
      proof -
        obtain l' n' r where "qs = (session, l', n') # r"
          using cur ex(3) by (cases qs) (auto simp: c'_def q)
        then show ?thesis using Cons.prems(5) first ex(1,2) by (auto simp: q c'_def)
      qed
    qed
    then show ?thesis using Suc by (simp add: c'_def)
  qed
qed

lemma serve_all_append:
  "fst (serve_all c (xs @ ys)) = fst (serve_all c xs) @ fst (serve_all (snd (serve_all c xs)) ys)"
  by (induction xs arbitrary: c) simp_all

lemma serve_all_length [simp]: "length (fst (serve_all c qs)) = length qs"
  by (induction qs arbitrary: c) simp_all

lemma serve_all_ok:
  "cont_ok b c \<Longrightarrow> 0 \<le> b \<Longrightarrow> b + int (length qs) * 2 ^ 41 < 2 ^ 62 \<Longrightarrow> \<forall>q\<in>set qs. poll_ok q \<Longrightarrow>
     cont_ok (b + int (length qs) * 2 ^ 41) (snd (serve_all c qs))"
proof (induction qs arbitrary: b c)
  case Nil
  then show ?case by simp
next
  case (Cons q qs)
  obtain session l n where q: "q = (session, l, n)" by (cases q)
  have ok: "poll_ok (session, l, n)" and b: "b < 2 ^ 62" using Cons.prems(3,4) q by auto
  have "cont_ok (b + 2 ^ 41) (snd (serve c q))" using serve_exact(5) [OF Cons.prems(1,2) b ok] q by simp
  then have "cont_ok (b + 2 ^ 41 + int (length qs) * 2 ^ 41) (snd (serve_all (snd (serve c q)) qs))"
    by (rule Cons.IH) (use Cons.prems in \<open>auto simp: algebra_simps\<close>)
  then show ?case by (simp add: algebra_simps)
qed

lemma rising_append: "rising (xs @ ys) \<Longrightarrow> rising ys"
  by (induction xs) (auto dest: rising_Cons)

lemma rising_next: "rising (q # r # qs) \<Longrightarrow> fst q = fst r \<Longrightarrow> fst (snd q) \<le> fst (snd r)"
  by (cases q; cases r) auto

lemma serve_all_same:
  assumes "cont_ok b c" "0 \<le> b" "b + int (length qs) * 2 ^ 41 < 2 ^ 62" "\<forall>q\<in>set qs. poll_ok q"
    and "\<forall>q\<in>set qs. fst q = ct_session c"
  shows "ct_max c \<le> ct_max (snd (serve_all c qs)) \<and> ct_session (snd (serve_all c qs)) = ct_session c"
  using assms
proof (induction qs arbitrary: b c)
  case Nil
  then show ?case by simp
next
  case (Cons q qs)
  obtain session l n where q: "q = (session, l, n)" by (cases q)
  have ok: "poll_ok (session, l, n)" and b: "b < 2 ^ 62" using Cons.prems(3,4) q by auto
  note ex = serve_exact [OF Cons.prems(1,2) b ok]
  have "ct_max (snd (serve c q)) \<le> ct_max (snd (serve_all (snd (serve c q)) qs))
      \<and> ct_session (snd (serve_all (snd (serve c q)) qs)) = ct_session (snd (serve c q))"
    by (rule Cons.IH [where b = "b + 2 ^ 41"]) (use Cons.prems ex in \<open>auto simp: q algebra_simps\<close>)
  then show ?case using ex(3,4) Cons.prems(5) by (auto simp: q split: if_splits)
qed

lemma later_session_above:
  assumes "cont_ok b c" "0 \<le> b" "b + int (length qs) * 2 ^ 41 < 2 ^ 62"
    and "\<forall>q\<in>set qs. poll_ok q" "rising qs"
    and "i < j" "j < length qs" "fst (qs ! i) \<noteq> fst (qs ! j)" "0 < snd (snd (qs ! i))"
  shows "fst (serve_all c qs) ! i + int (snd (snd (qs ! i))) \<le> fst (serve_all c qs) ! j"
proof -
  define xs where "xs = take i qs"
  define ys where "ys = drop (Suc i) qs"
  obtain session l n where qi: "qs ! i = (session, l, n)" by (cases "qs ! i")
  have qs: "qs = xs @ (session, l, n) # ys"
    using assms(6,7) id_take_nth_drop [of i qs] by (simp add: xs_def ys_def qi)
  have xs: "length xs = i" using assms(6,7) by (simp add: xs_def)
  define ci where "ci = snd (serve_all c xs)"
  define bi where "bi = b + int (length xs) * 2 ^ 41"
  have small: "bi + 2 ^ 41 + int (length ys) * 2 ^ 41 < 2 ^ 62"
    using assms(3) by (simp add: qs bi_def algebra_simps)
  have ci: "cont_ok bi ci"
    unfolding ci_def bi_def by (rule serve_all_ok [OF assms(1,2)]) (use assms(3,4) in \<open>auto simp: qs\<close>)
  have bi: "0 \<le> bi" "bi < 2 ^ 62" using assms(2) small by (simp_all add: bi_def)
  note ex = serve_exact [OF ci bi, of session l n]
  define cn where "cn = snd (serve ci (session, l, n))"
  define m where "m = fst (serve ci (session, l, n)) + int n"
  have okq: "poll_ok (session, l, n)" using assms(4) by (simp add: qs)
  have cn: "cont_ok (bi + 2 ^ 41) cn" "ct_session cn = session" "m \<le> ct_max cn + 1"
    using ex(1,3,4,5) [OF okq] assms(9) qi by (auto simp: cn_def m_def)
  define us where "us = takeWhile (\<lambda>q. fst q = session) ys"
  define vs where "vs = dropWhile (\<lambda>q. fst q = session) ys"
  have ys: "ys = us @ vs" by (simp add: us_def vs_def)
  define cv where "cv = snd (serve_all cn us)"
  have us: "\<forall>q\<in>set us. fst q = ct_session cn" "\<forall>q\<in>set us. poll_ok q"
    using assms(4) by (auto simp: us_def cn(2) qs dest: set_takeWhileD)
  have bu: "0 \<le> bi + 2 ^ 41" "bi + 2 ^ 41 + int (length us) * 2 ^ 41 < 2 ^ 62"
    using bi small by (simp_all add: ys algebra_simps)
  have cv: "ct_max cn \<le> ct_max cv" "ct_session cv = session"
    using serve_all_same [OF cn(1) bu us(2) us(1)] cn(2) by (simp_all add: cv_def)
  have okv: "cont_ok (bi + 2 ^ 41 + int (length us) * 2 ^ 41) cv"
    unfolding cv_def by (rule serve_all_ok [OF cn(1) bu us(2)])
  define p where "p = j - Suc i"
  have p: "p < length ys" "ys ! p = qs ! j" using assms(6,7) by (simp_all add: p_def ys_def)
  have "length us \<le> p"
  proof (rule ccontr)
    assume "\<not> length us \<le> p"
    then have "ys ! p \<in> set us" by (simp add: ys nth_append)
    then show False using us(1) cn(2) p(2) assms(8) qi by simp
  qed
  then have pv: "p - length us < length vs" using p(1) by (simp add: ys)
  have "m \<le> fst (serve_all cv vs) ! (p - length us)"
  proof (rule serve_all_above [OF okv])
    show "0 \<le> bi + 2 ^ 41 + int (length us) * 2 ^ 41" using bu(1) by simp
    show "bi + 2 ^ 41 + int (length us) * 2 ^ 41 + int (length vs) * 2 ^ 41 < 2 ^ 62"
      using small by (simp add: ys algebra_simps)
    show "\<forall>q\<in>set vs. poll_ok q" using assms(4) by (simp add: qs ys)
    show "rising vs" using assms(5) rising_append [of "xs @ (session, l, n) # us" vs] by (simp add: qs ys)
    show "m \<le> fst (snd (hd vs)) + ct_offset cv" if "vs \<noteq> [] \<and> fst (hd vs) = ct_session cv"
      using that cv(2) hd_dropWhile [of "\<lambda>q. fst q = session" ys] by (auto simp: vs_def)
    show "m \<le> ct_max cv + 1" using cn(3) cv(1) by simp
    show "p - length us < length vs" by (rule pv)
  qed
  moreover have "fst (serve_all c qs) ! j = fst (serve_all cv vs) ! (p - length us)"
    using assms(6) xs \<open>length us \<le> p\<close>
    by (simp add: qs serve_all_append ys ci_def [symmetric] cn_def [symmetric] cv_def [symmetric] nth_append p_def
        nth_Cons')
  moreover have "fst (serve_all c qs) ! i = fst (serve ci (session, l, n))"
    using xs by (simp add: qs serve_all_append ci_def nth_append)
  ultimately show ?thesis using qi by (simp add: m_def)
qed

section \<open>The rewritten text\<close>

text \<open>How many segment lines a playlist lists, and whether it has a sequence header.\<close>

definition is_header :: "string \<Rightarrow> bool" where
  "is_header raw \<longleftrightarrow> starts_with ''#EXT-X-MEDIA-SEQUENCE:'' (strip_cr raw)"

definition is_segment :: "string \<Rightarrow> bool" where
  "is_segment raw \<longleftrightarrow> (let l = strip_cr raw in
     l \<noteq> [] \<and> hd l \<noteq> CHR ''#'' \<and> is_seg_file (seg_of_line l))"

definition segments :: "string \<Rightarrow> string list" where
  "segments s = map (\<lambda>raw. seg_of_line (strip_cr raw)) (filter is_segment (split_on nl s))"

lemma emit_seq_keeps [simp]:
  "rw_present (emit_seq f d w) = rw_present w" "rw_cache (emit_seq f d w) = rw_cache w"
  "rw_seen (emit_seq f d w) = rw_seen w" "rw_signed (emit_seq f d w) = rw_signed w"
  by (simp_all add: emit_seq_def)

lemma seg_url_keeps [simp]:
  "rw_present (snd (seg_url st se mint seg w)) = rw_present w" "rw_seen (snd (seg_url st se mint seg w)) = rw_seen w"
  "rw_out (snd (seg_url st se mint seg w)) = rw_out w" "rw_emitted (snd (seg_url st se mint seg w)) = rw_emitted w"
  by (simp_all add: seg_url_def Let_def split: option.split)

lemma discontinuity_not_segment: "trim_by rust_space l = ''#EXT-X-DISCONTINUITY'' \<Longrightarrow> \<not> is_seg_file (seg_of_line l)"
  by (simp add: seg_of_line_def is_seg_file_def)

lemma header_first: "starts_with ''#EXT-X-MEDIA-SEQUENCE:'' l \<Longrightarrow> l \<noteq> [] \<and> hd l = CHR ''#''"
  by (auto simp: starts_with_iff)

lemma rewrite_line_present:
  "rw_present (rewrite_line st se mint f d raw w) = rw_present w @ (if is_segment raw then [seg_of_line (strip_cr raw)] else [])"
  using discontinuity_not_segment [of "strip_cr raw"] header_first [of "strip_cr raw"]
  by (auto simp: rewrite_line_def Let_def is_segment_def split_beta)

text \<open>One line at a time: what is seen, announced and listed so far.\<close>

definition seq_prefix :: string where "seq_prefix = ''#EXT-X-MEDIA-SEQUENCE:''"

definition announced :: "int \<Rightarrow> int \<Rightarrow> string list \<Rightarrow> bool" where
  "announced f d raws \<longleftrightarrow> list_ex is_header raws \<or> (list_ex is_segment raws \<and> (0 < f \<or> 0 < d))"

definition urls_ok :: "rewriting \<Rightarrow> bool" where
  "urls_ok w \<longleftrightarrow> (\<forall>c u. rw_cache w = Some c \<longrightarrow> u \<in> ran c \<longrightarrow> starts_with ''/api/'' u)"

definition text_inv :: "int \<Rightarrow> int \<Rightarrow> string list \<Rightarrow> rewriting \<Rightarrow> bool" where
  "text_inv f d raws w \<longleftrightarrow> (rw_seen w \<longleftrightarrow> list_ex is_segment raws) \<and> (rw_emitted w \<longleftrightarrow> announced f d raws)
     \<and> filter (starts_with seq_prefix) (rw_out w) = (if rw_emitted w then [seq_prefix @ dec_int f] else [])
     \<and> urls_ok w \<and> rw_present w = map (\<lambda>raw. seg_of_line (strip_cr raw)) (filter is_segment raws)"

lemma api_not_seq: "starts_with ''/api/'' u \<Longrightarrow> \<not> starts_with seq_prefix u"
  by (auto simp: starts_with_iff seq_prefix_def)

lemma emit_seq_text:
  "filter (starts_with seq_prefix) (rw_out w) = (if rw_emitted w then [seq_prefix @ dec_int f] else []) \<Longrightarrow>
     filter (starts_with seq_prefix) (rw_out (emit_seq f d w)) = [seq_prefix @ dec_int f]
     \<and> rw_emitted (emit_seq f d w)"
  by (simp add: emit_seq_def seq_prefix_def) (simp add: starts_with_def)

lemma seg_url_api:
  assumes "urls_ok w"
  shows "starts_with ''/api/'' (fst (seg_url st se mint seg w)) \<and> urls_ok (snd (seg_url st se mint seg w))"
proof -
  have api: "starts_with ''/api/'' (''/api/iptv/stream/live/'' @ r)" for r by (simp add: starts_with_def)
  show ?thesis
  proof (cases "Option.bind (rw_cache w) (\<lambda>c. c seg)")
    case None
    then show ?thesis using assms api
      by (auto simp: seg_url_def Let_def urls_ok_def ran_def split: if_splits) blast
  next
    case (Some u)
    then obtain c where "rw_cache w = Some c" "c seg = Some u" by (auto split: bind_splits)
    then show ?thesis using assms Some by (auto simp: seg_url_def urls_ok_def intro: ranI)
  qed
qed

lemma trim_prefix:
  assumes "s \<noteq> []" "\<not> p (hd s)"
  obtains t where "s = trim_by p s @ t"
proof -
  have "dropWhile p s = s" using assms by (cases s) auto
  then have "trim_by p s = rev (dropWhile p (rev s))" by (simp add: trim_by_def)
  moreover have "s = rev (dropWhile p (rev s)) @ rev (takeWhile p (rev s))"
    by (metis rev_append rev_rev_ident takeWhile_dropWhile_id)
  ultimately show thesis using that by metis
qed

lemma rewrite_line_header:
  assumes "is_header raw"
  shows "rewrite_line st se mint f d raw w = emit_seq f d w"
proof -
  have l: "starts_with ''#EXT-X-MEDIA-SEQUENCE:'' (strip_cr raw)" using assms by (simp add: is_header_def)
  have "strip_cr raw \<noteq> []" "\<not> rust_space (hd (strip_cr raw))"
    using header_first [OF l] by (simp_all add: rust_space_def)
  then obtain t where t: "strip_cr raw = trim_by rust_space (strip_cr raw) @ t" by (rule trim_prefix)
  have "trim_by rust_space (strip_cr raw) \<noteq> ''#EXT-X-DISCONTINUITY''"
  proof
    assume *: "trim_by rust_space (strip_cr raw) = ''#EXT-X-DISCONTINUITY''"
    have "strip_cr raw = ''#EXT-X-DISCONTINUITY'' @ t" using t unfolding * .
    then show False using l by (simp add: starts_with_def)
  qed
  then show ?thesis using l by (simp add: rewrite_line_def Let_def)
qed

lemma rewrite_line_segment:
  assumes "is_segment raw"
  shows "rewrite_line st se mint f d raw w =
    (let seg = seg_of_line (strip_cr raw);
         w1 = (if \<not> rw_seen w \<and> (f > 0 \<or> d > 0) then emit_seq f d w else w);
         uw = seg_url st se mint seg (w1\<lparr>rw_seen := True, rw_present := rw_present w1 @ [seg]\<rparr>)
     in (snd uw)\<lparr>rw_out := rw_out (snd uw) @ [fst uw]\<rparr>)"
  using assms discontinuity_not_segment [of "strip_cr raw"] header_first [of "strip_cr raw"]
  by (auto simp: rewrite_line_def Let_def is_segment_def split_beta)

lemma rewrite_line_other:
  assumes "\<not> is_header raw" "\<not> is_segment raw"
  shows "rewrite_line st se mint f d raw w \<in> {w, w\<lparr>rw_out := rw_out w @ [strip_cr raw]\<rparr>}"
  using assms by (auto simp: rewrite_line_def Let_def is_segment_def is_header_def)

lemma rewrite_line_text:
  assumes "text_inv f d raws w"
  shows "text_inv f d (raws @ [raw]) (rewrite_line st se mint f d raw w)"
proof -
  have inv: "rw_seen w \<longleftrightarrow> list_ex is_segment raws" "rw_emitted w \<longleftrightarrow> announced f d raws"
    "filter (starts_with seq_prefix) (rw_out w) = (if rw_emitted w then [seq_prefix @ dec_int f] else [])"
    "urls_ok w" "rw_present w = map (\<lambda>raw. seg_of_line (strip_cr raw)) (filter is_segment raws)"
    using assms by (simp_all add: text_inv_def)
  have emit: "filter (starts_with seq_prefix) (rw_out (emit_seq f d w)) = [seq_prefix @ dec_int f]"
    "rw_emitted (emit_seq f d w)" "urls_ok (emit_seq f d w)"
    using emit_seq_text [OF inv(3)] inv(4) by (simp_all add: urls_ok_def)
  have excl: "is_header raw \<Longrightarrow> \<not> is_segment raw"
    using header_first [of "strip_cr raw"] by (auto simp: is_header_def is_segment_def Let_def)
  consider (header) "is_header raw" | (segment) "\<not> is_header raw" "is_segment raw"
    | (other) "\<not> is_header raw" "\<not> is_segment raw" by blast
  then show ?thesis
  proof cases
    case header
    then show ?thesis using inv emit excl
      by (simp add: rewrite_line_header text_inv_def announced_def)
  next
    case segment
    define w1 where "w1 = (if \<not> rw_seen w \<and> (f > 0 \<or> d > 0) then emit_seq f d w else w)"
    define w2 where "w2 = w1\<lparr>rw_seen := True, rw_present := rw_present w1 @ [seg_of_line (strip_cr raw)]\<rparr>"
    have line: "rewrite_line st se mint f d raw w =
        (let uw = seg_url st se mint (seg_of_line (strip_cr raw)) w2 in (snd uw)\<lparr>rw_out := rw_out (snd uw) @ [fst uw]\<rparr>)"
      by (simp add: rewrite_line_segment [OF segment(2)] w1_def w2_def Let_def)
    have em: "rw_emitted w1 \<longleftrightarrow> announced f d (raws @ [raw])"
      using inv(1,2) segment emit(2) by (auto simp: w1_def announced_def)
    have out: "filter (starts_with seq_prefix) (rw_out w1) = (if rw_emitted w1 then [seq_prefix @ dec_int f] else [])"
      using inv(3) emit(1,2) by (simp add: w1_def)
    have ok: "urls_ok w2" using inv(4) emit(3) by (simp add: w2_def w1_def urls_ok_def)
    have pres: "rw_present w1 = rw_present w" by (simp add: w1_def)
    note api = seg_url_api [OF ok, of st se mint "seg_of_line (strip_cr raw)"]
    have "urls_ok (r\<lparr>rw_out := x\<rparr>) = urls_ok r" for r x by (simp add: urls_ok_def)
    then show ?thesis
      using inv(5) em out api api_not_seq segment pres
      by (simp add: line Let_def text_inv_def) (simp add: w2_def)
  next
    case other
    have "\<not> starts_with seq_prefix (strip_cr raw)" using other(1) by (simp add: is_header_def seq_prefix_def)
    then have either: "text_inv f d (raws @ [raw]) v"
      if "v \<in> {w, w\<lparr>rw_out := rw_out w @ [strip_cr raw]\<rparr>}" for v
    proof -
      have "text_inv f d (raws @ [raw]) w"
        using assms other by (simp add: text_inv_def announced_def)
      moreover have "text_inv f d (raws @ [raw]) (w\<lparr>rw_out := rw_out w @ [strip_cr raw]\<rparr>)"
        using calculation \<open>\<not> starts_with seq_prefix (strip_cr raw)\<close> by (simp add: text_inv_def urls_ok_def)
      ultimately show ?thesis using that by blast
    qed
    show ?thesis by (rule either [OF rewrite_line_other [OF other]])
  qed
qed

lemma fold_rewrite_text:
  "text_inv f d raws w \<Longrightarrow> text_inv f d (raws @ ls) (foldl (\<lambda>w l. rewrite_line st se mint f d l w) w ls)"
proof (induction ls arbitrary: raws w)
  case Nil
  then show ?case by simp
next
  case (Cons l ls)
  from Cons.IH [OF rewrite_line_text [OF Cons.prems]] show ?case by simp
qed

lemma rewrite_lines_text:
  assumes "\<forall>c u. cache = Some c \<longrightarrow> u \<in> ran c \<longrightarrow> starts_with ''/api/'' u"
  shows "text_inv f d (split_on nl s) (rewrite_lines st se mint f d cache s)"
  unfolding rewrite_lines_def
  by (rule fold_rewrite_text [where raws = "[]", unfolded append_Nil])
    (use assms in \<open>simp add: text_inv_def urls_ok_def announced_def\<close>)

text \<open>The present list does not depend on the cache.\<close>

lemma rewrite_lines_present: "rw_present (rewrite_lines st se mint f d cache s) = segments s"
proof -
  have "rw_present (foldl (\<lambda>w l. rewrite_line st se mint f d l w) w ls)
      = rw_present w @ map (\<lambda>raw. seg_of_line (strip_cr raw)) (filter is_segment ls)" for w ls
    by (induction ls arbitrary: w) (simp_all add: rewrite_line_present)
  then show ?thesis by (simp add: rewrite_lines_def segments_def)
qed

text \<open>The cache only grows while the lines are rewritten, and holds every listed segment's line.\<close>

definition cache_inv :: "(string \<rightharpoonup> string) \<Rightarrow> rewriting \<Rightarrow> bool" where
  "cache_inv m w \<longleftrightarrow> (\<exists>c. rw_cache w = Some c \<and> m \<subseteq>\<^sub>m c
     \<and> (\<forall>seg\<in>set (rw_present w). \<exists>u. c seg = Some u \<and> u \<in> set (rw_out w)))"

lemma rewrite_line_cache:
  assumes "cache_inv m w"
  shows "cache_inv m (rewrite_line st se mint f d raw w)"
proof -
  obtain c where c: "rw_cache w = Some c" "m \<subseteq>\<^sub>m c" "\<forall>seg\<in>set (rw_present w). \<exists>u. c seg = Some u \<and> u \<in> set (rw_out w)"
    using assms by (auto simp: cache_inv_def)
  have emit: "cache_inv m (emit_seq f d w)"
    using c by (auto simp: cache_inv_def emit_seq_def)
  consider (header) "is_header raw" | (segment) "is_segment raw"
    | (other) "\<not> is_header raw" "\<not> is_segment raw" by blast
  then show ?thesis
  proof cases
    case header
    then show ?thesis using emit by (simp add: rewrite_line_header)
  next
    case segment
    define w1 where "w1 = (if \<not> rw_seen w \<and> (f > 0 \<or> d > 0) then emit_seq f d w else w)"
    have "cache_inv m w1" using assms emit by (simp add: w1_def)
    then obtain c1 where c1: "rw_cache w1 = Some c1" "m \<subseteq>\<^sub>m c1"
      "\<forall>seg\<in>set (rw_present w1). \<exists>u. c1 seg = Some u \<and> u \<in> set (rw_out w1)"
      by (auto simp: cache_inv_def)
    show ?thesis
    proof (cases "c1 (seg_of_line (strip_cr raw))")
      case None
      then show ?thesis using c1
        by (auto simp: rewrite_line_segment [OF segment] Let_def w1_def [symmetric] seg_url_def cache_inv_def map_le_def
            dom_def)
    next
      case (Some u)
      then show ?thesis using c1
        by (auto simp: rewrite_line_segment [OF segment] Let_def w1_def [symmetric] seg_url_def cache_inv_def)
    qed
  next
    case other
    have "cache_inv m (w\<lparr>rw_out := rw_out w @ [strip_cr raw]\<rparr>)" using c by (auto simp: cache_inv_def)
    then show ?thesis using rewrite_line_other [OF other, of st se mint f d w] assms by auto
  qed
qed

lemma rewrite_lines_cache: "cache_inv m (rewrite_lines st se mint f d (Some m) s)"
proof -
  have fold: "cache_inv m w \<Longrightarrow> cache_inv m (foldl (\<lambda>w l. rewrite_line st se mint f d l w) w ls)" for w ls
    by (induction ls arbitrary: w) (simp_all add: rewrite_line_cache)
  show ?thesis unfolding rewrite_lines_def by (rule fold) (simp add: cache_inv_def)
qed

text \<open>What \<open>pick_feed\<close> picks.\<close>

lemma pick_feed_Some:
  assumes "pick_feed R opts now st = (Some d, st')"
  defines "k \<equiv> live_key (eo_stream opts) (eo_sub opts)"
  shows "\<not> rx_dead R d
    \<and> (d \<in> set (if eo_feeds opts = [] then [eo_stream opts] else eo_feeds opts)
       \<or> (\<exists>r. im_get (lv_redirects st) k = Some r \<and> now < rd_expires r \<and> d = rd_feed r))"
proof (cases "\<exists>r. im_get (lv_redirects st) k = Some r \<and> now < rd_expires r")
  case True
  then obtain r where r: "im_get (lv_redirects st) k = Some r" "now < rd_expires r" by blast
  then have "find (\<lambda>f. \<not> rx_dead R f) (rd_feed r # filter (\<lambda>g. g \<noteq> rd_feed r)
      (if eo_feeds opts = [] then [eo_stream opts] else eo_feeds opts)) = Some d"
    using assms(1) by (simp add: pick_feed_def k_def Let_def)
  from find_SomeD [OF this] show ?thesis using r by auto
next
  case False
  then have "find (\<lambda>f. \<not> rx_dead R f) (if eo_feeds opts = [] then [eo_stream opts] else eo_feeds opts) = Some d"
    using assms(1) by (auto simp: pick_feed_def k_def Let_def delete_conv' not_less split: option.splits if_splits)
  from find_SomeD [OF this] show ?thesis by blast
qed

section \<open>Polls of one channel\<close>

text \<open>
  The polls a viewer's player makes of one channel: each finds some session, its playlist text, that
  session's URL cache and a token mint.  The history collects the announced first sequence number
  and the number of segments served.
\<close>

type_synonym poll_request = "string \<times> string \<times> (string \<rightharpoonup> string) option \<times> (nat \<Rightarrow> string \<Rightarrow> string)"

definition client_poll :: "string \<Rightarrow> string \<Rightarrow> (string \<rightharpoonup> continuity) \<times> (int \<times> nat) list \<Rightarrow> poll_request
    \<Rightarrow> (string \<rightharpoonup> continuity) \<times> (int \<times> nat) list" where
  "client_poll stream sub st q =
     (case q of (session, s, cache, mint) \<Rightarrow>
        let conts = fst (snd (rewrite_remux_manifest s stream session sub (fst st) cache mint));
            off = (case conts (live_key stream sub) of Some c \<Rightarrow> ct_offset c | None \<Rightarrow> 0)
        in (conts, snd st @ [(wrap64 (local_seq s + off), length (segments s))]))"

definition poll_of :: "poll_request \<Rightarrow> poll" where
  "poll_of q = (case q of (session, s, _) \<Rightarrow> (session, local_seq s, length (segments s)))"

definition cont_at :: "(string \<rightharpoonup> continuity) \<Rightarrow> string \<Rightarrow> string \<Rightarrow> continuity" where
  "cont_at conts k session = (case conts k of Some c \<Rightarrow> c | None \<Rightarrow> fresh_continuity session)"

lemma note_served_offset [simp]: "ct_offset (note_served f n c) = ct_offset c"
  by (simp add: note_served_def)

lemma client_poll_serve:
  "client_poll stream sub (conts, hist) (session, s, cache, mint) =
     (conts(live_key stream sub \<mapsto> snd (serve (cont_at conts (live_key stream sub) session) (poll_of (session, s, cache, mint)))),
      hist @ [(fst (serve (cont_at conts (live_key stream sub) session) (poll_of (session, s, cache, mint))),
               length (segments s))])"
  by (simp add: client_poll_def rewrite_remux_manifest_def Let_def rewrite_lines_present serve_def poll_of_def cont_at_def)

lemma client_poll_run:
  assumes "conts (live_key stream sub) = Some c"
  shows "snd (foldl (client_poll stream sub) (conts, hist) qs)
    = hist @ zip (fst (serve_all c (map poll_of qs))) (map (snd \<circ> snd \<circ> poll_of) qs)"
  using assms
proof (induction qs arbitrary: conts hist c)
  case Nil
  then show ?case by simp
next
  case (Cons q qs)
  obtain session s cache mint where q: "q = (session, s, cache, mint)" by (cases q)
  have "cont_at conts (live_key stream sub) session = c" using Cons.prems by (simp add: cont_at_def)
  then show ?case by (simp add: q client_poll_serve Cons.IH) (simp add: poll_of_def)
qed

lemma client_poll_fresh:
  assumes "qs \<noteq> []"
  shows "snd (foldl (client_poll stream sub) (Map.empty, []) qs)
    = zip (fst (serve_all (fresh_continuity (fst (hd qs))) (map poll_of qs))) (map (snd \<circ> snd \<circ> poll_of) qs)"
proof -
  obtain session s cache mint r where qs: "qs = (session, s, cache, mint) # r" using assms by (cases qs) auto
  have "cont_at Map.empty (live_key stream sub) session = fresh_continuity session" by (simp add: cont_at_def)
  then show ?thesis
    by (simp add: qs client_poll_serve client_poll_run) (simp add: poll_of_def)
qed

lemma parse_seq_nonneg: "parse_seq l = Some i \<Longrightarrow> 0 \<le> i"
  by (auto simp: parse_seq_def Let_def split: bind_splits if_splits)

lemma local_seq_nonneg: "0 \<le> local_seq s"
proof (cases "List.map_filter parse_seq (str_lines s)")
  case Nil
  then show ?thesis by (simp add: local_seq_def)
next
  case (Cons i r)
  then have "i \<in> set (List.map_filter parse_seq (str_lines s))" by simp
  then show ?thesis using Cons parse_seq_nonneg by (auto simp: local_seq_def List.map_filter_def)
qed

section \<open>Properties\<close>


text \<open>
  The playlist announces that number: the rewritten lines hold exactly one media-sequence line,
  carrying the client-facing first number, when the input has one or when a segment follows a
  non-zero offset or a swap, and none otherwise, whatever the input lists.
\<close>

theorem one_sequence_line:
  assumes "\<forall>c u. cache = Some c \<longrightarrow> u \<in> ran c \<longrightarrow> starts_with ''/api/'' u"
  shows "filter (starts_with ''#EXT-X-MEDIA-SEQUENCE:'') (rw_out (rewrite_lines stream session mint first disc cache s))
    = (if list_ex is_header (split_on nl s) \<or> (segments s \<noteq> [] \<and> (0 < first \<or> 0 < disc))
       then [''#EXT-X-MEDIA-SEQUENCE:'' @ dec_int first] else [])"
proof -
  have "list_ex is_segment (split_on nl s) \<longleftrightarrow> segments s \<noteq> []"
    by (auto simp: segments_def list_ex_iff filter_empty_conv)
  then show ?thesis
    using rewrite_lines_text [OF assms, of first disc s stream session mint]
    by (simp add: text_inv_def announced_def seq_prefix_def)
qed

text \<open>
  A segment's URL does not change while the session lists it: two successive rewrites through
  the same entry (whatever tokens the signer would mint the second time) hand out the same URL for
  every segment both playlists list, and the entry's cache holds exactly the listed segments.
\<close>

theorem segment_urls_stable:
  assumes "rewrite_remux_manifest s1 stream session sub conts1 (Some m0) mint1 = (out1, c1, Some m1)"
    and "rewrite_remux_manifest s2 stream session sub conts2 (Some m1) mint2 = (out2, c2, Some m2)"
    and "seg \<in> set (segments s1)" "seg \<in> set (segments s2)"
  shows "\<exists>url f1 d1 f2 d2. m1 seg = Some url \<and> m2 seg = Some url
    \<and> out1 = join_lines (rw_out (rewrite_lines stream session mint1 f1 d1 (Some m0) s1))
    \<and> out2 = join_lines (rw_out (rewrite_lines stream session mint2 f2 d2 (Some m1) s2))
    \<and> url \<in> set (rw_out (rewrite_lines stream session mint1 f1 d1 (Some m0) s1))
    \<and> url \<in> set (rw_out (rewrite_lines stream session mint2 f2 d2 (Some m1) s2))
    \<and> dom m2 = set (segments s2)"
proof -
  obtain f1 d1 where out1: "out1 = join_lines (rw_out (rewrite_lines stream session mint1 f1 d1 (Some m0) s1))"
    and m1: "Some m1 = map_option (\<lambda>m. m |` set (segments s1)) (rw_cache (rewrite_lines stream session mint1 f1 d1 (Some m0) s1))"
    using assms(1) by (auto simp: rewrite_remux_manifest_def Let_def rewrite_lines_present)
  obtain f2 d2 where out2: "out2 = join_lines (rw_out (rewrite_lines stream session mint2 f2 d2 (Some m1) s2))"
    and m2: "Some m2 = map_option (\<lambda>m. m |` set (segments s2)) (rw_cache (rewrite_lines stream session mint2 f2 d2 (Some m1) s2))"
    using assms(2) by (auto simp: rewrite_remux_manifest_def Let_def rewrite_lines_present)
  obtain k1 where k1: "rw_cache (rewrite_lines stream session mint1 f1 d1 (Some m0) s1) = Some k1"
    "\<forall>seg\<in>set (segments s1). \<exists>u. k1 seg = Some u \<and> u \<in> set (rw_out (rewrite_lines stream session mint1 f1 d1 (Some m0) s1))"
    using rewrite_lines_cache [of m0 stream session mint1 f1 d1 s1] by (auto simp: cache_inv_def rewrite_lines_present)
  obtain k2 where k2: "rw_cache (rewrite_lines stream session mint2 f2 d2 (Some m1) s2) = Some k2" "m1 \<subseteq>\<^sub>m k2"
    "\<forall>seg\<in>set (segments s2). \<exists>u. k2 seg = Some u \<and> u \<in> set (rw_out (rewrite_lines stream session mint2 f2 d2 (Some m1) s2))"
    using rewrite_lines_cache [of m1 stream session mint2 f2 d2 s2] by (auto simp: cache_inv_def rewrite_lines_present)
  obtain url where url: "k1 seg = Some url" "url \<in> set (rw_out (rewrite_lines stream session mint1 f1 d1 (Some m0) s1))"
    using k1(2) assms(3) by blast
  have "m1 = k1 |` set (segments s1)" using m1 k1(1) by simp
  then have one: "m1 seg = Some url" using url(1) assms(3) by simp
  then have two: "k2 seg = Some url" using k2(2) by (metis domI map_le_def)
  have m2eq: "m2 = k2 |` set (segments s2)" using m2 k2(1) by simp
  have "m2 seg = Some url" using two assms(4) by (simp add: m2eq)
  moreover have "url \<in> set (rw_out (rewrite_lines stream session mint2 f2 d2 (Some m1) s2))"
    using k2(3) assms(4) two by fastforce
  moreover have "dom m2 = set (segments s2)" using k2(3) by (force simp: m2eq dom_def restrict_map_def)
  ultimately show ?thesis using one out1 out2 url(2) by blast
qed

definition demo_playlist :: string where
  "demo_playlist = ''#EXT-X-MEDIA-SEQUENCE:3'' @ [nl] @ ''seg_00003.ts'' @ [nl] @ ''seg_00004.ts''"

definition demo_mint :: "nat \<Rightarrow> string \<Rightarrow> string" where "demo_mint n rid = rid"

definition demo_polls :: "poll_request list" where
  "demo_polls = [(''a'', demo_playlist, None, demo_mint), (''b'', demo_playlist, None, demo_mint)]"

lemma demo_segments: "segments demo_playlist = [''seg_00003.ts'', ''seg_00004.ts'']"
  by code_simp

lemma demo_local_seq: "local_seq demo_playlist = 3"
proof -
  have lines: "str_lines demo_playlist = [''#EXT-X-MEDIA-SEQUENCE:3'', ''seg_00003.ts'', ''seg_00004.ts'']"
    by code_simp
  have "parse_seq ''#EXT-X-MEDIA-SEQUENCE:3'' = Some 3"
    by (simp add: parse_seq_def strip_prefix_def starts_with_def is_digit_def dec_val_def digit_val_def)
  then show ?thesis by (simp add: local_seq_def lines List.map_filter_def)
qed

lemma demo_serve:
  "snd (foldl (client_poll ''9'' ''u'') (Map.empty, []) demo_polls) = [(3, 2), (5, 2)]"
proof -
  define c where "c = \<lparr>ct_session = ''a'', ct_offset = 0, ct_disc = 0, ct_max = 4\<rparr>"
  have polls: "map poll_of demo_polls = [(''a'', 3, 2), (''b'', 3, 2)]"
    by (simp add: demo_polls_def poll_of_def demo_segments demo_local_seq)
  have one: "serve (fresh_continuity ''a'') (''a'', 3, 2) = (3, c)"
    by (simp add: serve_def swap_continuity_def fresh_continuity_def note_served_def wrap64_def c_def)
  have two: "fst (serve c (''b'', 3, 2)) = 5"
    by (simp add: serve_def swap_continuity_def note_served_def wrap64_def c_def)
  have ne: "demo_polls \<noteq> []" "fst (hd demo_polls) = ''a''" by (simp_all add: demo_polls_def)
  have counts: "map (snd \<circ> snd \<circ> poll_of) demo_polls = [2, 2]"
    using arg_cong [OF polls, of "map (snd \<circ> snd)"] by (simp add: comp_def)
  show ?thesis unfolding client_poll_fresh [OF ne(1)] polls counts ne(2) by (simp add: one two)
qed


lemma one_sequence_line_witness:
  "filter (starts_with ''#EXT-X-MEDIA-SEQUENCE:'') (rw_out (rewrite_lines ''9'' ''b'' demo_mint 5 1 (Some Map.empty) demo_playlist))
     = [''#EXT-X-MEDIA-SEQUENCE:'' @ dec_int 5]"
  by (subst one_sequence_line) (simp_all add: demo_segments)

lemma segment_urls_stable_witness:
  "\<exists>o1 c1 m1 o2 c2 m2 url.
      rewrite_remux_manifest demo_playlist ''9'' ''a'' ''u'' Map.empty (Some Map.empty) demo_mint = (o1, c1, Some m1)
    \<and> rewrite_remux_manifest demo_playlist ''9'' ''a'' ''u'' c1 (Some m1) (\<lambda>n r. ''other'') = (o2, c2, Some m2)
    \<and> m1 ''seg_00003.ts'' = Some url \<and> m2 ''seg_00003.ts'' = Some url"
proof -
  have cached: "\<exists>m'. rw_cache (rewrite_lines st se mint f d (Some m) demo_playlist) = Some m'" for st se mint f d m
    using rewrite_lines_cache [of m st se mint f d demo_playlist] by (auto simp: cache_inv_def)
  have some: "\<exists>out c m'. rewrite_remux_manifest demo_playlist st se su conts (Some m) mint = (out, c, Some m')"
    for st se su conts m mint
    unfolding rewrite_remux_manifest_def Let_def using cached by (metis option.map(2))
  obtain o1 c1 m1 where r1: "rewrite_remux_manifest demo_playlist ''9'' ''a'' ''u'' Map.empty (Some Map.empty) demo_mint = (o1, c1, Some m1)"
    using some by metis
  obtain o2 c2 m2 where r2: "rewrite_remux_manifest demo_playlist ''9'' ''a'' ''u'' c1 (Some m1) (\<lambda>n r. ''other'') = (o2, c2, Some m2)"
    using some by metis
  have "''seg_00003.ts'' \<in> set (segments demo_playlist)" by (simp add: demo_segments)
  then show ?thesis using segment_urls_stable [OF r1 r2] r1 r2 by metis
qed

lemma drop_exited_redirects [simp]: "lv_redirects (drop_exited R k now st) = lv_redirects st"
  by (simp add: drop_exited_def Let_def split: option.split)

lemma drop_exited_serving:
  assumes "im_get (lv_index (drop_exited R k now st)) k = Some ix"
  shows "im_get (lv_index st) k = Some ix" "rx_active R (le_session (ix_entry ix))" "drop_exited R k now st = st"
  using assms by (auto simp: drop_exited_def Let_def delete_conv' split: option.splits if_splits)

lemma pick_feed_keeps:
  assumes "pick_feed R opts now st = (pick, st')"
  shows "lv_last_connect st' = lv_last_connect st" "lv_spawn_at st' = lv_spawn_at st"
  using assms by (auto simp: pick_feed_def Let_def split: option.splits if_splits)

lemma cooled_down:
  "\<not> in_cooldown k now st \<Longrightarrow> \<forall>t. lv_last_connect st k = Some t \<longrightarrow>
     reconnect_delay (case lv_streak st k of None \<Rightarrow> 0 | Some n \<Rightarrow> n) \<le> now - t"
  by (auto simp: in_cooldown_def Let_def)

text \<open>With no running entry, \<open>ensure\<close> refuses in the cooldown and otherwise dials what is picked.\<close>

lemma ensure_unserved:
  assumes "ensure R opts now st = (res, st')"
    and "k = live_key (eo_stream opts) (eo_sub opts)" "s1 = drop_exited R k now st" "im_get (lv_index s1) k = None"
  obtains "res = Inr None" "st' = s1"
  | s2 where "pick_feed R opts now s1 = (None, s2)" "res = Inr None" "st' = s2"
  | d s2 where "pick_feed R opts now s1 = (Some d, s2)" "\<not> in_cooldown k now s1"
      "res = Inr None \<or> (\<exists>e. res = Inl e)" "st' = s2"
  | d s2 e where "pick_feed R opts now s1 = (Some d, s2)" "\<not> in_cooldown k now s1"
      "res = Inr (Some e)" "le_dialed e = d" "lv_last_connect st' k = Some now" "lv_spawn_at st' k = Some now"
proof -
  obtain pick s2 where pick: "pick_feed R opts now s1 = (pick, s2)" by fastforce
  note run = assms(1) [unfolded ensure_def assms(2) [symmetric], unfolded Let_def assms(3) [symmetric]]
  note run = run [unfolded assms(4) option.case pick prod.case]
  show thesis
  proof (cases "in_cooldown k now s1")
    case True
    then have "res = Inr None \<and> st' = s1" using run by auto
    then show thesis using that(1) by blast
  next
    case awake: False
    note run = run [unfolded if_not_P [OF awake]]
    show thesis
    proof (cases pick)
      case None
      then have "res = Inr None \<and> st' = s2" using run by auto
      with pick None show thesis using that(2) by blast
    next
      case (Some d)
      note picked = pick [unfolded Some]
      note run = run [unfolded Some option.case]
      show thesis
      proof (cases "\<exists>s. rx_start R d (eo_sub opts) (eo_url opts d) (rx_reencode R d) = Inr (Some s)")
        case True
        then obtain s where "rx_start R d (eo_sub opts) (eo_url opts d) (rx_reencode R d) = Inr (Some s)" by blast
        note run = run [unfolded this sum.case option.case prod.inject]
        show thesis
          by (rule that(4) [OF picked awake]) (use run in auto)
      next
        case False
        then have "(res = Inr None \<or> (\<exists>e. res = Inl e)) \<and> st' = s2"
          using run by (auto split: sum.splits option.splits)
        then show thesis using that(3) [OF picked awake] by blast
      qed
    qed
  qed
qed


definition demo_view :: remux_view where
  "demo_view = \<lparr>rx_active = (\<lambda>_. False), rx_dead = (\<lambda>f. f = ''1''), rx_reencode = (\<lambda>_. False),
     rx_start = (\<lambda>d su u re. Inr (Some \<lparr>sd_session = ''s'', sd_dir = ''d'', sd_manifest = ''m''\<rparr>))\<rparr>"

definition demo_opts :: ensure_opts where
  "demo_opts = \<lparr>eo_stream = ''1'', eo_sub = ''u'', eo_feeds = [''1'', ''2''], eo_url = (\<lambda>f. f)\<rparr>"


end
