(* ===== verification/Dvr.thy ===== *)
theory Dvr
  imports Tracker Float64 Http Token_Bucket "HOL-Library.List_Lexorder" "HOL-Library.Char_ord"
begin

text \<open>
  \<open>crates/iptv/src/dvr.rs\<close>: recordings of live channels.  The table is the list of its rows, the
  scheduler's \<open>Recorder\<close> is an interface with the ffmpeg recorder as its implementation, the
  tracker is the model of \<open>Tracker\<close>.  Date parsing and printing (chrono), JSON printing and number
  parsing are the parameters \<open>dvr_lib\<close>; what the outside answers during one call (the clocks, the
  remux's connection count and proxy, directory creation, the spawn and the exit status of a
  stopped ffmpeg) is \<open>dvr_world\<close>.  Each handler runs alone.
\<close>

section \<open>Rows\<close>

record recording =
  rc_id :: string
  rc_channel :: int
  rc_channel_name :: string
  rc_title :: string
  rc_start :: string
  rc_stop :: string
  rc_status :: string
  rc_file :: "string option"
  rc_error :: "string option"
  rc_created :: string
  rc_updated :: string

record new_recording =
  nr_channel :: f64
  nr_channel_name :: string
  nr_title :: string
  nr_start :: string
  nr_stop :: string

record dvr_lib =
  dl_date :: "string \<Rightarrow> int option"
  dl_iso :: "int \<Rightarrow> string"
  dl_number :: "string \<Rightarrow> f64"
  dl_print :: "jvalue \<Rightarrow> string"

definition ms_of :: "dvr_lib \<Rightarrow> string \<Rightarrow> f64" where
  "ms_of L s = (case dl_date L s of None \<Rightarrow> FNan | Some d \<Rightarrow> f_of_int d)"

definition now_ms :: "int \<Rightarrow> f64" where "now_ms now = f_of_int now"

definition validate :: "dvr_lib \<Rightarrow> new_recording \<Rightarrow> int \<Rightarrow> (string \<times> string) list \<Rightarrow> string option" where
  "validate L r now existing =
     (let i = nr_channel r; start = ms_of L (nr_start r); stop = ms_of L (nr_stop r) in
      if \<not> (is_finite i \<and> feq (ffract i) (Fin 0) \<and> flt (Fin 0) i) then Some ''invalid_channel''
      else if trim_by rust_space (nr_channel_name r) = [] then Some ''missing_channel_name''
      else if trim_by rust_space (nr_title r) = [] then Some ''missing_title''
      else if start = FNan \<or> stop = FNan then Some ''invalid_time''
      else if fle stop start then Some ''stop_before_start''
      else if fle stop (now_ms now) then Some ''already_ended''
      else if list_ex (\<lambda>(s, e). flt (ms_of L s) stop \<and> flt start (ms_of L e)) existing then Some ''channel_overlap''
      else None)"

record transitions =
  pl_start :: "recording list"
  pl_stop :: "recording list"
  pl_miss :: "recording list"

definition plan_one :: "dvr_lib \<Rightarrow> int \<Rightarrow> transitions \<Rightarrow> recording \<Rightarrow> transitions" where
  "plan_one L now p r =
     (let n = now_ms now; start = ms_of L (rc_start r); stop = ms_of L (rc_stop r) in
      if rc_status r = ''scheduled'' \<and> fle stop n then p\<lparr>pl_miss := pl_miss p @ [r]\<rparr>
      else if rc_status r = ''scheduled'' \<and> fle start n then p\<lparr>pl_start := pl_start p @ [r]\<rparr>
      else if rc_status r = ''recording'' \<and> fle stop n then p\<lparr>pl_stop := pl_stop p @ [r]\<rparr>
      else if rc_status r = ''recording'' then p\<lparr>pl_start := pl_start p @ [r]\<rparr>
      else p)"

definition plan_transitions :: "dvr_lib \<Rightarrow> int \<Rightarrow> recording list \<Rightarrow> transitions" where
  "plan_transitions L now rows = foldl (plan_one L now) \<lparr>pl_start = [], pl_stop = [], pl_miss = []\<rparr> rows"

type_synonym table = "recording list"

definition active :: "recording \<Rightarrow> bool" where
  "active r \<longleftrightarrow> rc_status r \<in> {''scheduled'', ''recording''}"

definition update_row :: "string \<Rightarrow> (recording \<Rightarrow> recording) \<Rightarrow> table \<Rightarrow> table" where
  "update_row i f rows = map (\<lambda>r. if rc_id r = i then f r else r) rows"

definition get_recording :: "table \<Rightarrow> string \<Rightarrow> recording option" where
  "get_recording rows i = find (\<lambda>r. rc_id r = i) rows"

text \<open>Inserting a taken primary key is a database error.\<close>

definition schedule :: "dvr_lib \<Rightarrow> string \<Rightarrow> new_recording \<Rightarrow> int \<Rightarrow> table \<Rightarrow> (recording \<times> table) option" where
  "schedule L ulid r now rows =
     (if ulid \<in> rc_id ` set rows then None
      else let row = \<lparr>rc_id = ulid, rc_channel = f_to_i64 (nr_channel r), rc_channel_name = nr_channel_name r,
             rc_title = nr_title r, rc_start = nr_start r, rc_stop = nr_stop r, rc_status = ''scheduled'',
             rc_file = None, rc_error = None, rc_created = dl_iso L now, rc_updated = dl_iso L now\<rparr>
           in Some (row, rows @ [row]))"

text \<open>\<open>ORDER BY start_utc DESC\<close>; ties in either order.\<close>

definition newest_first :: "table \<Rightarrow> table" where
  "newest_first rows = rev (sort_key rc_start rows)"

definition list_rows :: "table \<Rightarrow> table" where "list_rows rows = newest_first rows"

definition cancel_row :: "dvr_lib \<Rightarrow> string \<Rightarrow> int \<Rightarrow> table \<Rightarrow> string option \<times> table" where
  "cancel_row L i now rows =
     (case get_recording rows i of
        None \<Rightarrow> (None, rows)
      | Some row \<Rightarrow>
          if active row
          then (Some ''cancelled'', update_row i (\<lambda>r. r\<lparr>rc_status := ''cancelled'', rc_updated := dl_iso L now\<rparr>) rows)
          else (Some ''deleted'', filter (\<lambda>r. rc_id r \<noteq> i) rows))"

definition mark_status :: "dvr_lib \<Rightarrow> string \<Rightarrow> string \<Rightarrow> string option \<Rightarrow> string option \<Rightarrow> int \<Rightarrow> table \<Rightarrow> table" where
  "mark_status L i status file err now rows =
     update_row i (\<lambda>r. r\<lparr>rc_status := status, rc_file := (case file of None \<Rightarrow> rc_file r | Some f \<Rightarrow> Some f),
       rc_error := err, rc_updated := dl_iso L now\<rparr>) rows"

section \<open>The scheduler over any recorder\<close>

text \<open>
  The \<open>Recorder\<close> trait: \<open>start\<close> answers a file, a deferral or an error, \<open>stop\<close> returns once the
  recording has stopped and its outcome is in the table, \<open>running\<close> lists the recordings under way.
\<close>

record 's recorder_ops =
  op_start :: "recording \<Rightarrow> 's \<Rightarrow> (string + string option) \<times> 's"
  op_stop :: "string \<Rightarrow> table \<times> 's \<Rightarrow> table \<times> 's"
  op_running :: "'s \<Rightarrow> string list"
  op_heartbeat :: "'s \<Rightarrow> 's"

definition start_one :: "dvr_lib \<Rightarrow> 's recorder_ops \<Rightarrow> int \<Rightarrow> string list \<Rightarrow> recording \<Rightarrow> table \<times> 's \<Rightarrow> table \<times> 's" where
  "start_one L R now running r = (\<lambda>(rows, s).
     if rc_id r \<in> set running then (rows, s)
     else (case op_start R r s of
             (Inr None, s') \<Rightarrow> (rows, s')
           | (Inr (Some path), s') \<Rightarrow>
               (update_row (rc_id r) (\<lambda>x. if active x
                  then x\<lparr>rc_status := ''recording'', rc_file := Some path, rc_error := None, rc_updated := dl_iso L now\<rparr>
                  else x) rows, s')
           | (Inl e, s') \<Rightarrow> (mark_status L (rc_id r) ''failed'' None (Some e) now rows, s')))"

definition stop_one :: "dvr_lib \<Rightarrow> 's recorder_ops \<Rightarrow> int \<Rightarrow> recording \<Rightarrow> table \<times> 's \<Rightarrow> table \<times> 's" where
  "stop_one L R now r st =
     (let (rows, s) = op_stop R (rc_id r) st in
      case get_recording rows (rc_id r) of
        Some row \<Rightarrow>
          if rc_status row = ''recording'' then (mark_status L (rc_id r) ''completed'' None None now rows, s)
          else (rows, s)
      | None \<Rightarrow> (rows, s))"

definition miss_one :: "dvr_lib \<Rightarrow> int \<Rightarrow> recording \<Rightarrow> table \<Rightarrow> table" where
  "miss_one L now r rows = mark_status L (rc_id r) ''missed'' None None now rows"

definition tick :: "dvr_lib \<Rightarrow> 's recorder_ops \<Rightarrow> int \<Rightarrow> table \<times> 's \<Rightarrow> table \<times> 's" where
  "tick L R now = (\<lambda>(rows, s).
     let plan = plan_transitions L now (newest_first (filter active rows));
         (rows1, s1) = fold (start_one L R now (op_running R s)) (pl_start plan) (rows, s);
         (rows2, s2) = fold (stop_one L R now) (pl_stop plan) (rows1, s1)
     in (fold (miss_one L now) (pl_miss plan) rows2, op_heartbeat R s2))"

section \<open>The ffmpeg recorder\<close>

record dvr_conf =
  dv_cap :: nat
  dv_dir :: string
  dv_creds :: "string + string \<times> string \<times> string"
  dv_auth_off :: bool

record dvr_world =
  dw_now :: int
  dw_clock :: nat
  dw_remux_live :: nat
  dw_proxy :: "string list option"
  dw_mkdir :: "string + unit"
  dw_spawn :: "string list \<Rightarrow> string + unit"
  dw_exit :: "string \<Rightarrow> int option \<times> int option"

text \<open>The children with their \<open>term\<close> flag, the shared tracker, and the files on disk.\<close>

record ffmpeg_state =
  ff_children :: "(string, bool) imap"
  ff_tracker :: tracker
  ff_files :: "string set"

definition ffmpeg_proxied_protocols :: string where
  "ffmpeg_proxied_protocols = ''http,https,tcp,tls,crypto,httpproxy''"

definition build_record_args :: "string \<Rightarrow> string \<Rightarrow> f64 \<Rightarrow> string list \<Rightarrow> string list" where
  "build_record_args upstream file duration proxy =
     [''-hide_banner'', ''-nostdin'', ''-protocol_whitelist'', ffmpeg_proxied_protocols] @ proxy
     @ [''-i'', upstream, ''-t'', dec_nat (f_to_u64 (ffloor (fmax duration (Fin 1)))),
        ''-c'', ''copy'', ''-f'', ''mpegts'', ''-y'', file]"

definition live_url :: "string \<times> string \<times> string \<Rightarrow> int \<Rightarrow> string" where
  "live_url c stream = (case c of (host, user, pass) \<Rightarrow>
     host @ ''/live/'' @ encode_uri_component user @ ''/'' @ encode_uri_component pass @ ''/'' @ dec_int stream @ ''.ts'')"

definition record_session_id :: "string \<Rightarrow> string" where
  "record_session_id i = ''record:'' @ i"

definition sigterm :: int where "sigterm = 15"

definition signal_name :: "int \<Rightarrow> string" where
  "signal_name n = (if n = 15 then ''SIGTERM'' else if n = 9 then ''SIGKILL'' else if n = 2 then ''SIGINT'' else dec_int n)"

definition file_path_for :: "dvr_conf \<Rightarrow> string \<Rightarrow> string" where
  "file_path_for C i = dv_dir C @ ''/'' @ i @ ''.ts''"

definition upstream_in_use :: "dvr_world \<Rightarrow> ffmpeg_state \<Rightarrow> nat" where
  "upstream_in_use W s =
     max (length (filter (\<lambda>x. is_live (se_kind x)) (fst (list_sessions (ff_tracker s) (dw_clock W))))) (dw_remux_live W)"

definition recording_slot :: "recording \<Rightarrow> acquire" where
  "recording_slot r = \<lparr>aq_sub = ''dvr:'' @ rc_id r, aq_session = record_session_id (rc_id r), aq_kind = KLive,
     aq_resource = dec_int (rc_channel r), aq_ip = None, aq_title = Some (rc_channel_name r),
     aq_kind_cap = None, aq_replace_live = False\<rparr>"

definition ff_start :: "dvr_lib \<Rightarrow> dvr_conf \<Rightarrow> dvr_world \<Rightarrow> recording \<Rightarrow> ffmpeg_state
    \<Rightarrow> (string + string option) \<times> ffmpeg_state" where
  "ff_start L C W r s0 =
     (let s = (if dv_cap C > 0 then s0\<lparr>ff_tracker := snd (list_sessions (ff_tracker s0) (dw_clock W))\<rparr> else s0) in
      if dv_cap C > 0 \<and> upstream_in_use W s0 \<ge> dv_cap C then (Inr None, s)
      else case dw_proxy W of
        None \<Rightarrow> (Inr None, s)
      | Some proxy \<Rightarrow>
          (case dv_creds C of
             Inl e \<Rightarrow> (Inl e, s)
           | Inr creds \<Rightarrow>
               (case try_acquire (ff_tracker s) (dw_clock W) (recording_slot r) of
                  (Inl _, tk) \<Rightarrow> (Inr None, s\<lparr>ff_tracker := tk\<rparr>)
                | (Inr (), tk) \<Rightarrow>
                    (let s1 = s\<lparr>ff_tracker := tk\<rparr>;
                         failed = (\<lambda>e. (Inl e, s1\<lparr>ff_tracker := release tk (record_session_id (rc_id r))\<rparr>));
                         path = file_path_for C (rc_id r);
                         secs = fdiv (fsub (ms_of L (rc_stop r)) (now_ms (dw_now W))) (Fin 1000)
                     in case dw_mkdir W of
                          Inl e \<Rightarrow> failed (''dvr dir: '' @ e)
                        | Inr () \<Rightarrow>
                            (case dw_spawn W (build_record_args (live_url creds (rc_channel r)) path secs proxy) of
                               Inl e \<Rightarrow> failed (''ffmpeg spawn error: '' @ e)
                             | Inr () \<Rightarrow>
                                 (Inr (Some path),
                                  s1\<lparr>ff_children := im_insert (rc_id r) False (ff_children s1),
                                     ff_files := insert path (ff_files s1)\<rparr>))))))"

definition ffmpeg_signalled_exit :: int where "ffmpeg_signalled_exit = 255"

definition finalize :: "dvr_lib \<Rightarrow> dvr_conf \<Rightarrow> int \<Rightarrow> string \<Rightarrow> int option \<Rightarrow> int option \<Rightarrow> bool
    \<Rightarrow> table \<times> ffmpeg_state \<Rightarrow> table \<times> ffmpeg_state" where
  "finalize L C now i code sig termed = (\<lambda>(rows, s).
     case get_recording rows i of
       None \<Rightarrow> (rows, s)
     | Some row \<Rightarrow>
         if rc_status row = ''cancelled'' then (rows, s\<lparr>ff_files := ff_files s - {file_path_for C i}\<rparr>)
         else if \<not> active row then (rows, s)
         else
           (let sigtermed = (sig = Some sigterm \<or> (termed \<and> sig = None \<and> code = Some ffmpeg_signalled_exit)) in
            if sigtermed \<and> flt (now_ms now) (ms_of L (rc_stop row)) then (rows, s)
            else if sigtermed \<or> code = Some 0 then (mark_status L i ''completed'' None None now rows, s)
            else (mark_status L i ''failed'' None
                    (Some (''ffmpeg exited code='' @ (case code of None \<Rightarrow> ''null'' | Some c \<Rightarrow> dec_int c)
                           @ '' signal='' @ (case sig of None \<Rightarrow> [] | Some g \<Rightarrow> signal_name g))) now rows, s)))"

text \<open>The supervisor's tail: the slot is freed, the outcome written, then the child forgotten.\<close>

definition child_exit :: "dvr_lib \<Rightarrow> dvr_conf \<Rightarrow> int \<Rightarrow> string \<Rightarrow> int option \<Rightarrow> int option
    \<Rightarrow> table \<times> ffmpeg_state \<Rightarrow> table \<times> ffmpeg_state" where
  "child_exit L C now i code sig = (\<lambda>(rows, s).
     case im_get (ff_children s) i of
       None \<Rightarrow> (rows, s)
     | Some termed \<Rightarrow>
         (let (rows', s') = finalize L C now i code sig termed
                (rows, s\<lparr>ff_tracker := release (ff_tracker s) (record_session_id i)\<rparr>)
          in (rows', s'\<lparr>ff_children := im_remove i (ff_children s')\<rparr>)))"

definition ff_term :: "string \<Rightarrow> ffmpeg_state \<Rightarrow> ffmpeg_state" where
  "ff_term i s = (case im_get (ff_children s) i of
     None \<Rightarrow> s | Some _ \<Rightarrow> s\<lparr>ff_children := im_insert i True (ff_children s)\<rparr>)"

definition ff_stop :: "dvr_lib \<Rightarrow> dvr_conf \<Rightarrow> dvr_world \<Rightarrow> string \<Rightarrow> table \<times> ffmpeg_state \<Rightarrow> table \<times> ffmpeg_state" where
  "ff_stop L C W i = (\<lambda>(rows, s).
     case dw_exit W i of (code, sig) \<Rightarrow> child_exit L C (dw_now W) i code sig (rows, ff_term i s))"

definition ff_running :: "ffmpeg_state \<Rightarrow> string list" where
  "ff_running s = map fst (ff_children s)"

definition ff_heartbeat :: "dvr_world \<Rightarrow> ffmpeg_state \<Rightarrow> ffmpeg_state" where
  "ff_heartbeat W s =
     s\<lparr>ff_tracker := fold (\<lambda>i tk. Tracker.heartbeat tk (dw_clock W) (record_session_id i)) (ff_running s) (ff_tracker s)\<rparr>"

definition ff_stop_all :: "ffmpeg_state \<Rightarrow> ffmpeg_state" where
  "ff_stop_all s = s\<lparr>ff_children := map (\<lambda>(i, _). (i, True)) (ff_children s)\<rparr>"

definition ffmpeg_recorder :: "dvr_lib \<Rightarrow> dvr_conf \<Rightarrow> dvr_world \<Rightarrow> ffmpeg_state recorder_ops" where
  "ffmpeg_recorder L C W = \<lparr>op_start = ff_start L C W, op_stop = ff_stop L C W, op_running = ff_running,
     op_heartbeat = ff_heartbeat W\<rparr>"

section \<open>Routes\<close>

record dvr =
  dv_rows :: table
  dv_ff :: ffmpeg_state
  dv_limit :: token_state

record dvr_claims =
  cl_sub :: string
  cl_role :: string

datatype dvr_response =
  RError nat string
| RForbidden
| RLimited "nat \<times> nat"
| RCreated recording
| RRecordings table
| RRecording recording
| RStatus string
| RGrant string

definition require_admin :: "dvr_conf \<Rightarrow> dvr_claims option \<Rightarrow> bool" where
  "require_admin C claims \<longleftrightarrow> dv_auth_off C \<or> (case claims of None \<Rightarrow> False | Some c \<Rightarrow> cl_role c = ''admin'')"

definition limit_key :: "dvr_claims option \<Rightarrow> string" where
  "limit_key claims = (case claims of None \<Rightarrow> ''anon'' | Some c \<Rightarrow> ''sub:'' @ cl_sub c)"

definition js_string :: "dvr_lib \<Rightarrow> jvalue option \<Rightarrow> string" where
  "js_string L v = (case v of None \<Rightarrow> [] | Some JNull \<Rightarrow> [] | Some (JStr s) \<Rightarrow> s | Some x \<Rightarrow> dl_print L x)"

definition js_number :: "dvr_lib \<Rightarrow> jvalue \<Rightarrow> f64" where
  "js_number L v = (case v of JNull \<Rightarrow> Fin 0 | JBool b \<Rightarrow> Fin (if b then 1 else 0)
     | JInt i \<Rightarrow> f_of_int i | JFloat x \<Rightarrow> x | JStr s \<Rightarrow> dl_number L s | _ \<Rightarrow> FNan)"

definition new_of_json :: "dvr_lib \<Rightarrow> jvalue \<Rightarrow> new_recording" where
  "new_of_json L body =
     \<lparr>nr_channel = (case json_get ''channel_stream_id'' body of None \<Rightarrow> FNan | Some v \<Rightarrow> js_number L v),
      nr_channel_name = js_string L (json_get ''channel_name'' body),
      nr_title = js_string L (json_get ''title'' body),
      nr_start = js_string L (json_get ''start_utc'' body),
      nr_stop = js_string L (json_get ''stop_utc'' body)\<rparr>"

definition windows_on :: "int \<Rightarrow> table \<Rightarrow> (string \<times> string) list" where
  "windows_on ch rows = map (\<lambda>r. (rc_start r, rc_stop r)) (filter (\<lambda>r. rc_channel r = ch \<and> active r) rows)"

definition schedule_route :: "dvr_lib \<Rightarrow> dvr_conf \<Rightarrow> rate_limiter \<Rightarrow> string \<Rightarrow> dvr_claims option \<Rightarrow> jvalue option
    \<Rightarrow> nat \<Rightarrow> int \<Rightarrow> dvr \<Rightarrow> dvr_response \<times> dvr" where
  "schedule_route L C bkt ulid claims body clock now st0 =
     (if \<not> require_admin C claims then (RForbidden, st0)
      else case check_token bkt clock (limit_key claims) (dv_limit st0) of
        (Inl e, b) \<Rightarrow> (RLimited e, st0\<lparr>dv_limit := b\<rparr>)
      | (Inr (), b) \<Rightarrow>
          (let st = st0\<lparr>dv_limit := b\<rparr> in
           case body of
             None \<Rightarrow> (RError 400 ''invalid_json'', st)
           | Some body \<Rightarrow>
               (let r = new_of_json L body;
                    existing = (if feq (ffract (nr_channel r)) (Fin 0)
                                then windows_on (f_to_i64 (nr_channel r)) (dv_rows st) else [])
                in case validate L r now existing of
                     Some code \<Rightarrow> (RError 400 code, st)
                   | None \<Rightarrow>
                       (case schedule L ulid r now (dv_rows st) of
                          None \<Rightarrow> (RError 500 ''internal_error'', st)
                        | Some (row, rows) \<Rightarrow> (RCreated row, st\<lparr>dv_rows := rows\<rparr>)))))"

text \<open>The in-flight stop is a spawned task: it terminates the child, whose exit comes later.\<close>

definition delete_route :: "dvr_lib \<Rightarrow> dvr_conf \<Rightarrow> rate_limiter \<Rightarrow> string \<Rightarrow> dvr_claims option
    \<Rightarrow> nat \<Rightarrow> int \<Rightarrow> dvr \<Rightarrow> dvr_response \<times> dvr" where
  "delete_route L C bkt i claims clock now st0 =
     (if \<not> require_admin C claims then (RForbidden, st0)
      else case check_token bkt clock (limit_key claims) (dv_limit st0) of
        (Inl e, b) \<Rightarrow> (RLimited e, st0\<lparr>dv_limit := b\<rparr>)
      | (Inr (), b) \<Rightarrow>
          (let st = st0\<lparr>dv_limit := b\<rparr> in
           case get_recording (dv_rows st) i of
             None \<Rightarrow> (RError 404 ''not_found'', st)
           | Some r \<Rightarrow>
               (case cancel_row L i now (dv_rows st) of
                  (None, _) \<Rightarrow> (RError 404 ''not_found'', st)
                | (Some outcome, rows) \<Rightarrow>
                    (let ff = (if rc_status r = ''recording'' then ff_term i (dv_ff st)
                               else if outcome = ''deleted''
                               then (case rc_file r of None \<Rightarrow> dv_ff st
                                     | Some p \<Rightarrow> (dv_ff st)\<lparr>ff_files := ff_files (dv_ff st) - {p}\<rparr>)
                               else dv_ff st)
                     in (RStatus outcome, st\<lparr>dv_rows := rows, dv_ff := ff\<rparr>)))))"

definition list_route :: "dvr \<Rightarrow> dvr_response" where
  "list_route st = RRecordings (list_rows (dv_rows st))"

definition get_route :: "string \<Rightarrow> dvr \<Rightarrow> dvr_response" where
  "get_route i st = (case get_recording (dv_rows st) i of None \<Rightarrow> RError 404 ''not_found'' | Some r \<Rightarrow> RRecording r)"

definition grant_route :: "(string \<Rightarrow> string \<Rightarrow> string) \<Rightarrow> string \<Rightarrow> dvr_claims option \<Rightarrow> dvr \<Rightarrow> dvr_response" where
  "grant_route mint i claims st =
     (case claims of
        None \<Rightarrow> RError 401 ''unauthorized''
      | Some c \<Rightarrow>
          (case get_recording (dv_rows st) i of
             None \<Rightarrow> RError 404 ''not_found''
           | Some r \<Rightarrow>
               if rc_status r \<noteq> ''completed'' \<or> rc_file r = None then RError 404 ''not_ready''
               else RGrant (''/api/dvr/recordings/'' @ i @ ''/play?t='' @ mint i (cl_sub c))))"

text \<open>Which file \<open>play\<close> serves: the token (or principal) is checked first.\<close>

definition play_route :: "(string \<Rightarrow> string \<Rightarrow> dvr_response option) \<Rightarrow> string option \<Rightarrow> string \<Rightarrow> dvr_claims option
    \<Rightarrow> dvr \<Rightarrow> dvr_response + string" where
  "play_route check t i claims st =
     (case (case t of
              Some tok \<Rightarrow> if tok \<noteq> [] then check tok i
                          else if claims = None then Some (RError 401 ''unauthorized'') else None
            | None \<Rightarrow> if claims = None then Some (RError 401 ''unauthorized'') else None) of
        Some refusal \<Rightarrow> Inl refusal
      | None \<Rightarrow>
          (case get_recording (dv_rows st) i of
             None \<Rightarrow> Inl (RError 404 ''not_ready'')
           | Some r \<Rightarrow>
               if rc_status r = ''completed'' then
                 (case rc_file r of None \<Rightarrow> Inl (RError 404 ''not_ready'') | Some p \<Rightarrow> Inr p)
               else Inl (RError 404 ''not_ready'')))"

section \<open>Byte ranges\<close>

definition parse_u64_sat :: "string \<Rightarrow> int" where
  "parse_u64_sat s =
     (if s \<noteq> [] \<and> list_all is_digit s \<and> dec_val s < 2 ^ 64 then int (dec_val s) else 2 ^ 64 - 1)"

definition byte_span :: "string \<Rightarrow> string \<Rightarrow> int \<Rightarrow> unit + int \<times> int" where
  "byte_span a b flen =
     (let (start, stop) =
        (if a = [] then (max (flen - parse_u64_sat b) 0, flen - 1)
         else (parse_u64_sat a, if b = [] then flen - 1 else min (parse_u64_sat b) (flen - 1)))
      in if start > stop \<or> start \<ge> flen then Inl () else Inr (start, stop))"

definition parse_range :: "string option \<Rightarrow> int \<Rightarrow> (unit + int \<times> int) option" where
  "parse_range h flen =
     Option.bind h (\<lambda>v.
     Option.bind (strip_prefix ''bytes='' (trim_by rust_space v)) (\<lambda>spec.
     Option.bind (split_once (CHR ''-'') spec) (\<lambda>(a, b).
       if \<not> list_all is_digit a \<or> \<not> list_all is_digit b \<or> (a = [] \<and> b = []) then None
       else Some (byte_span a b flen))))"

record file_response =
  fr_status :: nat
  fr_range :: "string option"
  fr_length :: "int option"
  fr_from :: int

definition serve_file :: "int option \<Rightarrow> string option \<Rightarrow> file_response option" where
  "serve_file flen rng =
     (case flen of
        None \<Rightarrow> None
      | Some n \<Rightarrow>
          Some (case parse_range rng n of
                  None \<Rightarrow> \<lparr>fr_status = 200, fr_range = None, fr_length = Some n, fr_from = 0\<rparr>
                | Some (Inl _) \<Rightarrow> \<lparr>fr_status = 416, fr_range = Some (''bytes */'' @ dec_int n), fr_length = None, fr_from = 0\<rparr>
                | Some (Inr (start, stop)) \<Rightarrow>
                    \<lparr>fr_status = 206,
                     fr_range = Some (''bytes '' @ dec_int start @ ''-'' @ dec_int stop @ ''/'' @ dec_int n),
                     fr_length = Some (stop - start + 1), fr_from = start\<rparr>))"

section \<open>What the operations do to the table\<close>

text \<open>
  Between two tables: the same rows in the same order, each with its identity, channel and window; a
  row that has reached a final status is not touched again, and none becomes active again.
\<close>

definition same_window :: "recording \<Rightarrow> recording \<Rightarrow> bool" where
  "same_window r r' \<longleftrightarrow> rc_id r' = rc_id r \<and> rc_channel r' = rc_channel r \<and> rc_start r' = rc_start r
     \<and> rc_stop r' = rc_stop r"

definition progress :: "recording \<Rightarrow> recording \<Rightarrow> bool" where
  "progress r r' \<longleftrightarrow> same_window r r' \<and> (active r \<or> r' = r)"

definition table_progress :: "table \<Rightarrow> table \<Rightarrow> bool" where
  "table_progress rows rows' \<longleftrightarrow> list_all2 progress rows rows'"

lemma progress_refl [simp]: "progress r r"
  by (simp add: progress_def same_window_def)

lemma progress_trans: "progress a b \<Longrightarrow> progress b c \<Longrightarrow> progress a c"
  by (auto simp: progress_def same_window_def)

lemma table_progress_refl [simp]: "table_progress rows rows"
  by (simp add: table_progress_def list_all2_refl)

lemma table_progress_trans: "table_progress a b \<Longrightarrow> table_progress b c \<Longrightarrow> table_progress a c"
  unfolding table_progress_def by (rule list_all2_trans [OF progress_trans])

lemma table_progress_ids: "table_progress a b \<Longrightarrow> map rc_id b = map rc_id a"
  unfolding table_progress_def
  by (induction rule: list_all2_induct) (auto simp: progress_def same_window_def)

lemma update_row_progress:
  assumes "\<And>r. r \<in> set rows \<Longrightarrow> rc_id r = i \<Longrightarrow> progress r (f r)"
  shows "table_progress rows (update_row i f rows)"
  using assms unfolding table_progress_def update_row_def
  by (simp add: list_all2_conv_all_nth)

lemma get_recording_Some:
  assumes "distinct (map rc_id rows)"
  shows "get_recording rows i = Some r \<longleftrightarrow> r \<in> set rows \<and> rc_id r = i"
proof
  assume "get_recording rows i = Some r"
  then show "r \<in> set rows \<and> rc_id r = i" unfolding get_recording_def by (rule find_SomeD)
next
  assume r: "r \<in> set rows \<and> rc_id r = i"
  then have "get_recording rows i \<noteq> None" by (auto simp: get_recording_def find_None_iff)
  then obtain q where q: "get_recording rows i = Some q" by blast
  then have "q \<in> set rows \<and> rc_id q = i" unfolding get_recording_def by (rule find_SomeD)
  then show "get_recording rows i = Some r"
    using q r assms by (metis distinct_map inj_onD)
qed

lemma mark_progress:
  assumes "\<And>r. r \<in> set rows \<Longrightarrow> rc_id r = i \<Longrightarrow> active r"
  shows "table_progress rows (mark_status L i status file err now rows)"
  unfolding mark_status_def by (rule update_row_progress) (use assms in \<open>auto simp: progress_def same_window_def\<close>)

text \<open>Row by row: the row of an id in a later table.\<close>

lemma progress_row:
  assumes "table_progress rows rows'" "r' \<in> set rows'"
  obtains r where "r \<in> set rows" "progress r r'"
  using assms unfolding table_progress_def
  by (metis in_set_conv_nth list_all2_conv_all_nth)

lemma set_update_row:
  "r' \<in> set (update_row i f rows) \<longleftrightarrow> (\<exists>r\<in>set rows. r' = (if rc_id r = i then f r else r))"
  unfolding update_row_def set_map image_def by simp

text \<open>The plan: which rows go where.\<close>

lemma plan_fold:
  "pl_start (foldl (plan_one L now) p rows) = pl_start p @ filter (\<lambda>r.
      (rc_status r = ''scheduled'' \<and> \<not> fle (ms_of L (rc_stop r)) (now_ms now) \<and> fle (ms_of L (rc_start r)) (now_ms now))
      \<or> (rc_status r = ''recording'' \<and> \<not> fle (ms_of L (rc_stop r)) (now_ms now))) rows
   \<and> pl_stop (foldl (plan_one L now) p rows) = pl_stop p @ filter (\<lambda>r. rc_status r = ''recording'' \<and> fle (ms_of L (rc_stop r)) (now_ms now)) rows
   \<and> pl_miss (foldl (plan_one L now) p rows) = pl_miss p @ filter (\<lambda>r. rc_status r = ''scheduled'' \<and> fle (ms_of L (rc_stop r)) (now_ms now)) rows"
  by (induction rows arbitrary: p) (auto simp: plan_one_def Let_def)

lemmas plan_lists = plan_fold [where p = "\<lparr>pl_start = [], pl_stop = [], pl_miss = []\<rparr>", folded plan_transitions_def, simplified]

lemma plan_members:
  "r \<in> set (pl_start (plan_transitions L now rows)) \<longleftrightarrow> r \<in> set rows \<and> \<not> fle (ms_of L (rc_stop r)) (now_ms now)
        \<and> (rc_status r = ''scheduled'' \<and> fle (ms_of L (rc_start r)) (now_ms now) \<or> rc_status r = ''recording'')"
  "r \<in> set (pl_stop (plan_transitions L now rows)) \<longleftrightarrow> r \<in> set rows \<and> rc_status r = ''recording'' \<and> fle (ms_of L (rc_stop r)) (now_ms now)"
  "r \<in> set (pl_miss (plan_transitions L now rows)) \<longleftrightarrow> r \<in> set rows \<and> rc_status r = ''scheduled'' \<and> fle (ms_of L (rc_stop r)) (now_ms now)"
  unfolding plan_transitions_def using plan_fold [of L now "\<lparr>pl_start = [], pl_stop = [], pl_miss = []\<rparr>" rows]
  by simp_all blast+

section \<open>One row at a time\<close>

definition touches :: "string \<Rightarrow> table \<Rightarrow> table \<Rightarrow> bool" where
  "touches i rows rows' \<longleftrightarrow> table_progress rows rows'
     \<and> (\<forall>j. j \<noteq> i \<longrightarrow> get_recording rows' j = get_recording rows j)"

lemma touches_refl [simp]: "touches i rows rows"
  by (simp add: touches_def)

lemma get_update:
  assumes "\<And>r. rc_id (f r) = rc_id r"
  shows "get_recording (update_row i f rows) j =
    (if j = i then map_option f (get_recording rows j) else get_recording rows j)"
  unfolding get_recording_def update_row_def by (induction rows) (auto simp: assms)

lemma update_touches:
  assumes "\<And>r. rc_id (f r) = rc_id r"
    and "\<And>r. get_recording rows i = Some r \<Longrightarrow> progress r (f r)" "distinct (map rc_id rows)"
  shows "touches i rows (update_row i f rows)"
  unfolding touches_def using assms
  by (auto simp: get_update get_recording_Some intro: update_row_progress)

lemma mark_touches:
  assumes "\<And>r. get_recording rows i = Some r \<Longrightarrow> active r" "distinct (map rc_id rows)"
  shows "touches i rows (mark_status L i status file err now rows)"
  unfolding mark_status_def
  by (rule update_touches) (use assms in \<open>auto simp: progress_def same_window_def\<close>)

lemma get_mark:
  "get_recording (mark_status L i status file err now rows) i = Some r \<Longrightarrow> rc_status r = status"
  by (auto simp: mark_status_def get_update)

lemma fold_rows:
  assumes step: "\<And>x rows s. x \<in> set xs \<Longrightarrow> distinct (map rc_id rows) \<Longrightarrow>
        (\<forall>row. get_recording rows (rc_id x) = Some row \<longrightarrow> pre row) \<Longrightarrow>
        touches (rc_id x) rows (fst (f x (rows, s)))
        \<and> (\<forall>row. get_recording (fst (f x (rows, s))) (rc_id x) = Some row \<longrightarrow> post row)"
    and "distinct (map rc_id xs)" "distinct (map rc_id rows)"
    and "\<forall>x\<in>set xs. \<forall>row. get_recording rows (rc_id x) = Some row \<longrightarrow> pre row"
  shows "table_progress rows (fst (fold f xs (rows, s)))
    \<and> (\<forall>j. j \<notin> rc_id ` set xs \<longrightarrow> get_recording (fst (fold f xs (rows, s))) j = get_recording rows j)
    \<and> (\<forall>x\<in>set xs. \<forall>row. get_recording (fst (fold f xs (rows, s))) (rc_id x) = Some row \<longrightarrow> post row)"
  using assms
proof (induction xs arbitrary: rows s)
  case Nil
  then show ?case by simp
next
  case (Cons x xs)
  obtain rows1 s1 where f: "f x (rows, s) = (rows1, s1)" by fastforce
  have t: "touches (rc_id x) rows rows1" "\<forall>row. get_recording rows1 (rc_id x) = Some row \<longrightarrow> post row"
    using Cons.prems(1) [of x rows s] Cons.prems(3,4) f by auto
  have prog: "table_progress rows rows1" using t(1) by (simp add: touches_def)
  have dist: "distinct (map rc_id rows1)" using table_progress_ids [OF prog] Cons.prems(3) by simp
  have fresh: "rc_id x \<notin> rc_id ` set xs" "distinct (map rc_id xs)" using Cons.prems(2) by auto
  have pre: "\<forall>y\<in>set xs. \<forall>row. get_recording rows1 (rc_id y) = Some row \<longrightarrow> pre row"
    using Cons.prems(4) t(1) fresh(1) by (auto simp: touches_def image_iff)
  have ih: "table_progress rows1 (fst (fold f xs (rows1, s1)))
    \<and> (\<forall>j. j \<notin> rc_id ` set xs \<longrightarrow> get_recording (fst (fold f xs (rows1, s1))) j = get_recording rows1 j)
    \<and> (\<forall>y\<in>set xs. \<forall>row. get_recording (fst (fold f xs (rows1, s1))) (rc_id y) = Some row \<longrightarrow> post row)"
    by (rule Cons.IH [OF Cons.prems(1) fresh(2) dist pre]) simp_all
  then show ?case
    using table_progress_trans [OF prog] t fresh(1) f by (auto simp: touches_def)
qed

section \<open>The recorder's contract\<close>

locale recorder =
  fixes R :: "'s recorder_ops"
  assumes stop_effect: "distinct (map rc_id rows) \<Longrightarrow>
      (\<forall>row. get_recording rows i = Some row \<longrightarrow> rc_status row = ''recording'') \<Longrightarrow>
      touches i rows (fst (op_stop R i (rows, s)))
      \<and> (\<forall>row. get_recording (fst (op_stop R i (rows, s))) i = Some row \<longrightarrow> rc_status row \<noteq> ''scheduled'')"
begin

lemma start_touches:
  assumes "distinct (map rc_id rows)" "\<forall>row. get_recording rows (rc_id r) = Some row \<longrightarrow> active row"
  shows "touches (rc_id r) rows (fst (start_one L R now running r (rows, s)))"
proof -
  have "touches (rc_id r) rows (update_row (rc_id r) (\<lambda>x. if active x
                  then x\<lparr>rc_status := ''recording'', rc_file := Some path, rc_error := None, rc_updated := dl_iso L now\<rparr>
                  else x) rows)" for path
    by (rule update_touches) (use assms in \<open>auto simp: progress_def same_window_def\<close>)
  moreover have "touches (rc_id r) rows (mark_status L (rc_id r) ''failed'' None (Some e) now rows)" for e
    by (rule mark_touches) (use assms in auto)
  ultimately show ?thesis by (simp add: start_one_def split: prod.split sum.split option.split)
qed

lemma stop_touches:
  assumes "distinct (map rc_id rows)" "\<forall>row. get_recording rows (rc_id r) = Some row \<longrightarrow> rc_status row = ''recording''"
  shows "touches (rc_id r) rows (fst (stop_one L R now r (rows, s)))
    \<and> (\<forall>row. get_recording (fst (stop_one L R now r (rows, s))) (rc_id r) = Some row \<longrightarrow> \<not> active row)"
proof -
  obtain rows1 s1 where st: "op_stop R (rc_id r) (rows, s) = (rows1, s1)" by fastforce
  have t: "touches (rc_id r) rows rows1" "\<forall>row. get_recording rows1 (rc_id r) = Some row \<longrightarrow> rc_status row \<noteq> ''scheduled''"
    using stop_effect [OF assms, of s] st by simp_all
  have dist: "distinct (map rc_id rows1)" using t(1) table_progress_ids assms(1) by (metis touches_def)
  show ?thesis
  proof (cases "\<exists>row. get_recording rows1 (rc_id r) = Some row \<and> rc_status row = ''recording''")
    case True
    then have "touches (rc_id r) rows1 (mark_status L (rc_id r) ''completed'' None None now rows1)"
      by (intro mark_touches [OF _ dist]) (auto simp: active_def)
    then have "touches (rc_id r) rows (mark_status L (rc_id r) ''completed'' None None now rows1)"
      using t(1) by (auto simp: touches_def intro: table_progress_trans)
    then show ?thesis using True get_mark by (fastforce simp: stop_one_def st active_def)
  next
    case False
    then show ?thesis using t by (auto simp: stop_one_def st active_def split: option.splits)
  qed
qed

lemma tick_settles:
  assumes dist: "distinct (map rc_id rows)"
  shows "table_progress rows (fst (tick L R now (rows, s)))
    \<and> (\<forall>r\<in>set (fst (tick L R now (rows, s))). active r \<longrightarrow> \<not> fle (ms_of L (rc_stop r)) (now_ms now))"
proof -
  define scan where "scan = newest_first (filter active rows)"
  define plan where "plan = plan_transitions L now scan"
  have scan: "set scan = {r \<in> set rows. active r}" "distinct (map rc_id scan)"
    using dist by (auto simp: scan_def newest_first_def distinct_map_filter distinct_map rev_map intro: inj_on_subset)
  have sub: "distinct (map rc_id (filter Q scan))" for Q
    using scan(2) by (simp add: distinct_map_filter)
  have get: "get_recording rows (rc_id r) = Some row \<longleftrightarrow> row = r" if "r \<in> set rows" for r row
    using that dist unfolding get_recording_Some [OF dist] by (metis distinct_map inj_onD)
  obtain rows1 s1 where f1: "fold (start_one L R now (op_running R s)) (pl_start plan) (rows, s) = (rows1, s1)" by fastforce
  obtain rows2 s2 where f2: "fold (stop_one L R now) (pl_stop plan) (rows1, s1) = (rows2, s2)" by fastforce
  define rows3 where "rows3 = fold (miss_one L now) (pl_miss plan) rows2"
  have tick: "fst (tick L R now (rows, s)) = rows3"
    using f1 f2 by (simp add: tick_def rows3_def plan_def scan_def)
  have lists: "distinct (map rc_id (pl_start plan))" "distinct (map rc_id (pl_stop plan))" "distinct (map rc_id (pl_miss plan))"
    unfolding plan_def using plan_lists [of L now scan] sub by simp_all
  have mem: "r \<in> set (pl_start plan) \<longleftrightarrow> r \<in> set rows \<and> active r \<and> \<not> fle (ms_of L (rc_stop r)) (now_ms now)
        \<and> (rc_status r = ''scheduled'' \<and> fle (ms_of L (rc_start r)) (now_ms now) \<or> rc_status r = ''recording'')"
    "r \<in> set (pl_stop plan) \<longleftrightarrow> r \<in> set rows \<and> active r \<and> rc_status r = ''recording'' \<and> fle (ms_of L (rc_stop r)) (now_ms now)"
    "r \<in> set (pl_miss plan) \<longleftrightarrow> r \<in> set rows \<and> active r \<and> rc_status r = ''scheduled'' \<and> fle (ms_of L (rc_stop r)) (now_ms now)" for r
    unfolding plan_def plan_members scan(1) by (simp_all only: mem_Collect_eq conj_assoc)
  have in_rows: "r \<in> set (pl_start plan) \<Longrightarrow> r \<in> set rows \<and> active r" "r \<in> set (pl_miss plan) \<Longrightarrow> r \<in> set rows \<and> active r" for r
    by (simp_all add: mem)
  have pre1: "\<forall>x\<in>set (pl_start plan). \<forall>row. get_recording rows (rc_id x) = Some row \<longrightarrow> active row"
    using in_rows(1) get by simp
  have "table_progress rows (fst (fold (start_one L R now (op_running R s)) (pl_start plan) (rows, s)))
    \<and> (\<forall>j. j \<notin> rc_id ` set (pl_start plan) \<longrightarrow>
        get_recording (fst (fold (start_one L R now (op_running R s)) (pl_start plan) (rows, s))) j = get_recording rows j)
    \<and> (\<forall>x\<in>set (pl_start plan). \<forall>row. get_recording (fst (fold (start_one L R now (op_running R s)) (pl_start plan) (rows, s))) (rc_id x) = Some row \<longrightarrow> True)"
    by (rule fold_rows [OF _ lists(1) dist pre1]) (simp add: start_touches)
  then have p1: "table_progress rows rows1 \<and> (\<forall>j. j \<notin> rc_id ` set (pl_start plan) \<longrightarrow> get_recording rows1 j = get_recording rows j)"
    by (simp add: f1)
  then have d1: "distinct (map rc_id rows1)" using table_progress_ids dist by metis
  have stop_in: "r \<in> set (pl_stop plan) \<Longrightarrow> r \<in> set rows \<and> rc_status r = ''recording'' \<and> r \<notin> set (pl_start plan) \<and> r \<notin> set (pl_miss plan)" for r
    unfolding mem by simp
  have same_id: "r = q" if "r \<in> set rows" "q \<in> set rows" "rc_id r = rc_id q" for r q
    using that dist by (metis distinct_map inj_onD)
  have id_out: "rc_id x \<notin> rc_id ` A" if "x \<in> set rows" "A \<subseteq> set rows" "x \<notin> A" for x A
    using that same_id by blast
  have pre2: "\<forall>x\<in>set (pl_stop plan). \<forall>row. get_recording rows1 (rc_id x) = Some row \<longrightarrow> rc_status row = ''recording''"
  proof (intro ballI allI impI)
    fix x row assume x: "x \<in> set (pl_stop plan)" and g: "get_recording rows1 (rc_id x) = Some row"
    have "rc_id x \<notin> rc_id ` set (pl_start plan)" 
      by (rule id_out) (use stop_in [OF x] in_rows(1) in blast)+
    then show "rc_status row = ''recording''" using p1 g get stop_in [OF x] by auto
  qed
  have "table_progress rows1 (fst (fold (stop_one L R now) (pl_stop plan) (rows1, s1)))
    \<and> (\<forall>j. j \<notin> rc_id ` set (pl_stop plan) \<longrightarrow>
        get_recording (fst (fold (stop_one L R now) (pl_stop plan) (rows1, s1))) j = get_recording rows1 j)
    \<and> (\<forall>x\<in>set (pl_stop plan). \<forall>row. get_recording (fst (fold (stop_one L R now) (pl_stop plan) (rows1, s1))) (rc_id x) = Some row \<longrightarrow> \<not> active row)"
    by (rule fold_rows [OF _ lists(2) d1 pre2]) (rule stop_touches)
  then have p2: "table_progress rows1 rows2 \<and> (\<forall>j. j \<notin> rc_id ` set (pl_stop plan) \<longrightarrow> get_recording rows2 j = get_recording rows1 j)
      \<and> (\<forall>x\<in>set (pl_stop plan). \<forall>row. get_recording rows2 (rc_id x) = Some row \<longrightarrow> \<not> active row)"
    by (simp add: f2)
  then have d2: "distinct (map rc_id rows2)" using table_progress_ids d1 by metis
  have miss_in: "rc_id x \<notin> rc_id ` set (pl_start plan) \<and> rc_id x \<notin> rc_id ` set (pl_stop plan)" if "x \<in> set (pl_miss plan)" for x
  proof -
    have "x \<notin> set (pl_start plan)" "x \<notin> set (pl_stop plan)"
      using that unfolding mem by simp_all
    moreover have "x \<in> set rows" "set (pl_start plan) \<subseteq> set rows" "set (pl_stop plan) \<subseteq> set rows"
      using in_rows stop_in that by blast+
    ultimately show ?thesis by (simp add: id_out)
  qed
  have pre3: "\<forall>x\<in>set (pl_miss plan). \<forall>row. get_recording rows2 (rc_id x) = Some row \<longrightarrow> active row"
  proof (intro ballI allI impI)
    fix x row assume x: "x \<in> set (pl_miss plan)" and g: "get_recording rows2 (rc_id x) = Some row"
    have "get_recording rows (rc_id x) = Some row" using g p1 p2 miss_in [OF x] by simp
    then show "active row" using get in_rows(2) [OF x] by simp
  qed
  let ?miss = "\<lambda>x (t, u). (miss_one L now x t, u :: unit)"
  have miss_eq: "fold ?miss xs (t, ()) = (fold (miss_one L now) xs t, ())" for xs t
    by (induction xs arbitrary: t) simp_all
  have "table_progress rows2 (fst (fold ?miss (pl_miss plan) (rows2, ())))
    \<and> (\<forall>j. j \<notin> rc_id ` set (pl_miss plan) \<longrightarrow> get_recording (fst (fold ?miss (pl_miss plan) (rows2, ()))) j = get_recording rows2 j)
    \<and> (\<forall>x\<in>set (pl_miss plan). \<forall>row. get_recording (fst (fold ?miss (pl_miss plan) (rows2, ()))) (rc_id x) = Some row \<longrightarrow> \<not> active row)"
  proof (rule fold_rows [OF _ lists(3) d2 pre3])
    fix x :: recording and rows u
    assume "distinct (map rc_id rows)" "\<forall>row. get_recording rows (rc_id x) = Some row \<longrightarrow> active row"
    then show "touches (rc_id x) rows (fst (?miss x (rows, u)))
        \<and> (\<forall>row. get_recording (fst (?miss x (rows, u))) (rc_id x) = Some row \<longrightarrow> \<not> active row)"
      using get_mark [of L "rc_id x" "''missed''"] by (auto simp: miss_one_def active_def intro!: mark_touches)
  qed
  then have p3: "table_progress rows2 rows3 \<and> (\<forall>j. j \<notin> rc_id ` set (pl_miss plan) \<longrightarrow> get_recording rows3 j = get_recording rows2 j)
      \<and> (\<forall>x\<in>set (pl_miss plan). \<forall>row. get_recording rows3 (rc_id x) = Some row \<longrightarrow> \<not> active row)"
    by (simp add: miss_eq rows3_def)
  have prog: "table_progress rows rows3" using p1 p2 p3 table_progress_trans by metis
  have d3: "distinct (map rc_id rows3)" using p3 table_progress_ids d2 by metis
  have "\<not> fle (ms_of L (rc_stop r')) (now_ms now)" if r': "r' \<in> set rows3" "active r'" for r'
  proof
    assume closed: "fle (ms_of L (rc_stop r')) (now_ms now)"
    obtain r where r: "r \<in> set rows" "progress r r'" using progress_row [OF prog r'(1)] by blast
    have ids: "rc_id r' = rc_id r" "rc_stop r' = rc_stop r" "active r"
      using r(2) r'(2) by (auto simp: progress_def same_window_def)
    have g3: "get_recording rows3 (rc_id r) = Some r'" using get_recording_Some [OF d3] r'(1) ids(1) by simp
    consider (m) "r \<in> set (pl_miss plan)" | (s) "r \<in> set (pl_stop plan)"
      using r(1) ids closed unfolding mem active_def by auto
    then show False
    proof cases
      case m
      then show ?thesis using p3 g3 r'(2) by blast
    next
      case s
      have "rc_id r \<notin> rc_id ` set (pl_miss plan)"
        by (rule id_out) (use stop_in [OF s] in_rows(2) in blast)+
      then have "get_recording rows2 (rc_id r) = Some r'" using p3 g3 by metis
      then show ?thesis using p2 s r'(2) by blast
    qed
  qed
  then show ?thesis using prog by (simp add: tick)
qed

end

section \<open>The ffmpeg recorder fulfils the contract\<close>

lemma table_progress_upd: "table_progress rows (update_row i f rows) \<Longrightarrow>
    (\<And>r. rc_id (f r) = rc_id r) \<Longrightarrow> touches i rows (update_row i f rows)"
  by (simp add: touches_def get_update)

lemma finalize_touches:
  assumes dist: "distinct (map rc_id rows)"
  shows "touches i rows (fst (finalize L C now i code sig termed (rows, s)))
    \<and> ((\<forall>row. get_recording rows i = Some row \<longrightarrow> rc_status row = ''recording'') \<longrightarrow>
         (\<forall>row. get_recording (fst (finalize L C now i code sig termed (rows, s))) i = Some row \<longrightarrow> rc_status row \<noteq> ''scheduled''))"
proof (cases "get_recording rows i")
  case None
  then show ?thesis by (simp add: finalize_def)
next
  case (Some row)
  show ?thesis
  proof (cases "active row")
    case True
    then have t: "touches i rows (mark_status L i st None e now rows)" for st e
      by (intro mark_touches [OF _ dist]) (simp add: Some)
    have "rc_status row \<noteq> ''cancelled''" using True by (auto simp: active_def)
    then show ?thesis using True t Some
      by (auto simp: finalize_def Let_def mark_status_def get_update)
  next
    case False
    then show ?thesis using Some by (simp add: finalize_def active_def)
  qed
qed

lemma child_exit_touches:
  assumes dist: "distinct (map rc_id rows)"
  shows "touches i rows (fst (child_exit L C now i code sig (rows, s)))
    \<and> ((\<forall>row. get_recording rows i = Some row \<longrightarrow> rc_status row = ''recording'') \<longrightarrow>
         (\<forall>row. get_recording (fst (child_exit L C now i code sig (rows, s))) i = Some row \<longrightarrow> rc_status row \<noteq> ''scheduled''))"
  using finalize_touches [OF dist, of i L C now code sig]
  by (auto simp: child_exit_def split_beta split: option.split)

interpretation ffmpeg: recorder "ffmpeg_recorder L C W" for L C W
proof
  fix rows :: table and i and s :: ffmpeg_state
  assume "distinct (map rc_id rows)" "\<forall>row. get_recording rows i = Some row \<longrightarrow> rc_status row = ''recording''"
  then show "touches i rows (fst (op_stop (ffmpeg_recorder L C W) i (rows, s)))
      \<and> (\<forall>row. get_recording (fst (op_stop (ffmpeg_recorder L C W) i (rows, s))) i = Some row \<longrightarrow>
            rc_status row \<noteq> ''scheduled'')"
    using child_exit_touches [of rows i L C "dw_now W" "fst (dw_exit W i)" "snd (dw_exit W i)" "ff_term i s"]
    by (simp add: ffmpeg_recorder_def ff_stop_def split_beta)
qed

section \<open>No channel is booked twice\<close>

definition overlaps :: "dvr_lib \<Rightarrow> recording \<Rightarrow> recording \<Rightarrow> bool" where
  "overlaps L r q \<longleftrightarrow> rc_channel r = rc_channel q \<and> flt (ms_of L (rc_start r)) (ms_of L (rc_stop q))
     \<and> flt (ms_of L (rc_start q)) (ms_of L (rc_stop r))"

definition booked_ok :: "dvr_lib \<Rightarrow> table \<Rightarrow> bool" where
  "booked_ok L rows \<longleftrightarrow> distinct (map rc_id rows)
     \<and> sorted_wrt (\<lambda>r q. \<not> (active r \<and> active q \<and> overlaps L r q)) rows"

lemma progress_overlaps:
  "progress r r' \<Longrightarrow> progress q q' \<Longrightarrow> active r' \<Longrightarrow> active q' \<Longrightarrow> overlaps L r' q' \<Longrightarrow>
   active r \<and> active q \<and> overlaps L r q"
  by (auto simp: progress_def same_window_def overlaps_def)

lemma booked_progress:
  assumes "table_progress rows rows'" "booked_ok L rows"
  shows "booked_ok L rows'"
proof -
  have len: "length rows' = length rows" and prog: "\<And>i. i < length rows \<Longrightarrow> progress (rows ! i) (rows' ! i)"
    using assms(1) by (simp_all add: table_progress_def list_all2_conv_all_nth)
  have "sorted_wrt (\<lambda>r q. \<not> (active r \<and> active q \<and> overlaps L r q)) rows'"
    unfolding sorted_wrt_iff_nth_less len
  proof (intro allI impI notI)
    fix i j assume ij: "i < j" "j < length rows"
      and bad: "active (rows' ! i) \<and> active (rows' ! j) \<and> overlaps L (rows' ! i) (rows' ! j)"
    have "i < length rows" using ij by simp
    then have "active (rows ! i) \<and> active (rows ! j) \<and> overlaps L (rows ! i) (rows ! j)"
      using progress_overlaps [OF prog prog] ij bad by blast
    then show False using assms(2) ij unfolding booked_ok_def sorted_wrt_iff_nth_less by blast
  qed
  then show ?thesis using assms table_progress_ids by (simp add: booked_ok_def)
qed

lemma booked_filter: "booked_ok L rows \<Longrightarrow> booked_ok L (filter P rows)"
  by (simp add: booked_ok_def sorted_wrt_filter distinct_map_filter)

lemma schedule_booked:
  assumes "validate L r now (windows_on (f_to_i64 (nr_channel r)) rows) = None"
    and "schedule L ulid r now rows = Some (row, rows')" "booked_ok L rows"
  shows "booked_ok L rows'"
proof -
  have row: "rc_id row \<notin> rc_id ` set rows" "rows' = rows @ [row]" "rc_channel row = f_to_i64 (nr_channel r)"
      "rc_start row = nr_start r" "rc_stop row = nr_stop r"
    using assms(2) by (auto simp: schedule_def Let_def split: if_splits)
  have "\<not> list_ex (\<lambda>(s, e). flt (ms_of L s) (ms_of L (nr_stop r)) \<and> flt (ms_of L (nr_start r)) (ms_of L e))
      (windows_on (f_to_i64 (nr_channel r)) rows)"
    using assms(1) by (simp add: validate_def Let_def split: if_splits)
  then have "\<not> (active q \<and> active row \<and> overlaps L q row)" if "q \<in> set rows" for q
    using that by (auto simp: windows_on_def list_ex_iff overlaps_def row)
  then show ?thesis using assms(3) row(1,2) by (simp add: booked_ok_def sorted_wrt_append)
qed

datatype dvr_op =
  OSchedule string "dvr_claims option" "jvalue option" nat int
| ODelete string "dvr_claims option" nat int
| OTick int dvr_world
| OExit int string "int option" "int option"

fun dvr_step :: "dvr_lib \<Rightarrow> dvr_conf \<Rightarrow> rate_limiter \<Rightarrow> dvr \<Rightarrow> dvr_op \<Rightarrow> dvr" where
  "dvr_step L C bkt st (OSchedule ulid claims body clock now) = snd (schedule_route L C bkt ulid claims body clock now st)"
| "dvr_step L C bkt st (ODelete i claims clock now) = snd (delete_route L C bkt i claims clock now st)"
| "dvr_step L C bkt st (OTick now W) =
     (let (rows, ff) = tick L (ffmpeg_recorder L C W) now (dv_rows st, dv_ff st) in st\<lparr>dv_rows := rows, dv_ff := ff\<rparr>)"
| "dvr_step L C bkt st (OExit now i code sig) =
     (let (rows, ff) = child_exit L C now i code sig (dv_rows st, dv_ff st) in st\<lparr>dv_rows := rows, dv_ff := ff\<rparr>)"

lemma schedule_route_booked:
  assumes "booked_ok L (dv_rows st)"
  shows "booked_ok L (dv_rows (snd (schedule_route L C bkt ulid claims body clock now st)))"
proof -
  obtain res b where lim: "check_token bkt clock (limit_key claims) (dv_limit st) = (res, b)" by fastforce
  have new: "booked_ok L rows'"
    if v: "validate L r now (if feq (ffract (nr_channel r)) (Fin 0)
             then windows_on (f_to_i64 (nr_channel r)) (dv_rows st) else []) = None"
      and sch: "schedule L ulid r now (dv_rows st) = Some (row, rows')" for r row rows'
  proof -
    have "feq (ffract (nr_channel r)) (Fin 0)" using v by (auto simp: validate_def Let_def split: if_splits)
    then show ?thesis using v schedule_booked [OF _ sch assms] by simp
  qed
  show ?thesis
  proof (cases body)
    case None
    then show ?thesis using assms by (simp add: schedule_route_def lim Let_def split: sum.split unit.split)
  next
    case (Some b)
    show ?thesis
      using assms new [of "new_of_json L b"]
      by (simp add: schedule_route_def lim Let_def Some split: sum.split option.split prod.split unit.split)
  qed
qed

lemma delete_route_booked:
  assumes "booked_ok L (dv_rows st)"
  shows "booked_ok L (dv_rows (snd (delete_route L C bkt i claims clock now st)))"
proof -
  obtain res b where lim: "check_token bkt clock (limit_key claims) (dv_limit st) = (res, b)" by fastforce
  have "booked_ok L (snd (cancel_row L i now (dv_rows st)))"
  proof (cases "get_recording (dv_rows st) i")
    case None
    then show ?thesis using assms by (simp add: cancel_row_def)
  next
    case (Some row)
    have "active row \<Longrightarrow> table_progress (dv_rows st) (update_row i (\<lambda>r. r\<lparr>rc_status := ''cancelled'', rc_updated := dl_iso L now\<rparr>) (dv_rows st))"
    proof (rule update_row_progress)
      fix r assume "active row" "r \<in> set (dv_rows st)" "rc_id r = i"
      moreover then have "r = row"
        using assms get_recording_Some [of "dv_rows st" i r] Some by (simp add: booked_ok_def)
      ultimately show "progress r (r\<lparr>rc_status := ''cancelled'', rc_updated := dl_iso L now\<rparr>)"
        by (simp add: progress_def same_window_def)
    qed
    then show ?thesis using booked_progress [OF _ assms] booked_filter [OF assms] Some
      by (simp add: cancel_row_def)
  qed
  then show ?thesis using assms
    by (auto simp: delete_route_def lim Let_def split: sum.split option.split prod.split unit.split)
qed

interpretation dvr_machine: machine "dvr_step L C bkt" "\<lambda>st. booked_ok L (dv_rows st)" for L C bkt
proof
  fix st :: dvr and op assume ok: "booked_ok L (dv_rows st)"
  then have dist: "distinct (map rc_id (dv_rows st))" by (simp add: booked_ok_def)
  show "booked_ok L (dv_rows (dvr_step L C bkt st op))"
  proof (cases op)
    case (OTick now W)
    have "table_progress (dv_rows st) (fst (tick L (ffmpeg_recorder L C W) now (dv_rows st, dv_ff st)))"
      by (rule ffmpeg.tick_settles [OF dist, THEN conjunct1])
    then show ?thesis
      using booked_progress [OF _ ok] OTick by (simp add: split_beta)
  next
    case (OExit now i code sig)
    then show ?thesis
      using booked_progress [OF _ ok] child_exit_touches [OF dist, of i L C now code sig "dv_ff st"]
      by (simp add: split_beta touches_def)
  qed (simp_all add: ok schedule_route_booked delete_route_booked)
qed

section \<open>Properties\<close>


text \<open>
  C10. One scheduler tick over the ffmpeg recorder leaves no active recording whose window has
  closed, whatever ffmpeg answers; it keeps every row's identity, channel and window and leaves
  the rows that had reached a final status as they were.
\<close>

theorem tick_settles_windows:
  assumes "distinct (map rc_id rows)"
  shows "table_progress rows (fst (tick L (ffmpeg_recorder L C W) now (rows, s)))
    \<and> filter (\<lambda>r. active r \<and> fle (ms_of L (rc_stop r)) (now_ms now))
          (fst (tick L (ffmpeg_recorder L C W) now (rows, s))) = []"
  using ffmpeg.tick_settles [OF assms] by (simp add: filter_empty_conv)

definition demo_lib :: dvr_lib where
  "demo_lib = \<lparr>dl_date = (\<lambda>s. if s = ''t0'' then Some 0 else if s = ''t1'' then Some 3600000 else None),
     dl_iso = dec_int, dl_number = (\<lambda>_. FNan), dl_print = (\<lambda>_. [])\<rparr>"

definition demo_conf :: dvr_conf where
  "demo_conf = \<lparr>dv_cap = 1, dv_dir = ''rec'', dv_creds = Inr (''http://p'', ''u'', ''p''), dv_auth_off = True\<rparr>"

definition demo_world :: dvr_world where
  "demo_world = \<lparr>dw_now = 3600000, dw_clock = 0, dw_remux_live = 0, dw_proxy = Some [], dw_mkdir = Inr (),
     dw_spawn = (\<lambda>_. Inr ()), dw_exit = (\<lambda>_. (Some 255, None))\<rparr>"

definition demo_recording :: recording where
  "demo_recording = \<lparr>rc_id = ''r1'', rc_channel = 7, rc_channel_name = ''News'', rc_title = ''Six'', rc_start = ''t0'',
     rc_stop = ''t1'', rc_status = ''scheduled'', rc_file = None, rc_error = None, rc_created = [], rc_updated = []\<rparr>"

lemma tick_settles_windows_witness:
  "distinct (map rc_id [demo_recording])
    \<and> table_progress [demo_recording] (fst (tick demo_lib (ffmpeg_recorder demo_lib demo_conf demo_world) 3600000
          ([demo_recording], \<lparr>ff_children = [], ff_tracker = new_tracker 1 1, ff_files = {}\<rparr>)))
    \<and> filter (\<lambda>r. active r \<and> fle (ms_of demo_lib (rc_stop r)) (now_ms 3600000))
          (fst (tick demo_lib (ffmpeg_recorder demo_lib demo_conf demo_world) 3600000
          ([demo_recording], \<lparr>ff_children = [], ff_tracker = new_tracker 1 1, ff_files = {}\<rparr>))) = []"
  using tick_settles_windows [of "[demo_recording]"] by simp

text \<open>
  A satisfiable byte range of a file of \<open>n\<close> bytes lies inside it and is not empty, and a
  \<open>bytes=a-b\<close> range is served from \<open>a\<close> up to \<open>b\<close> or the last byte, whichever comes first.
\<close>

theorem range_within_file:
  assumes "parse_range h n = Some (Inr (s, e))" "0 \<le> n"
  shows "0 \<le> s \<and> s \<le> e \<and> e < n"
proof -
  obtain a b where "byte_span a b n = Inr (s, e)"
    using assms(1) by (auto simp: parse_range_def bind_eq_Some_conv split: if_splits)
  then show ?thesis
    by (auto simp: byte_span_def parse_u64_sat_def split: if_splits)
qed

lemma range_within_file_witness:
  "parse_range (Some ''bytes=2-9'') 8 = Some (Inr (2, 7)) \<and> (0 \<le> (2::int) \<and> (2::int) \<le> 7 \<and> (7::int) < 8)"
proof -
  have "trim_by rust_space ''bytes=2-9'' = ''bytes=2-9''" "split_once (CHR ''-'') ''2-9'' = Some (''2'', ''9'')"
    by code_simp+
  moreover have "strip_prefix ''bytes='' ''bytes=2-9'' = Some ''2-9''" by (simp add: strip_prefix_Some)
  moreover have "is_digit (CHR ''2'')" "is_digit (CHR ''9'')" "dec_val ''2'' = 2" "dec_val ''9'' = 9" by code_simp+
  ultimately have "parse_range (Some ''bytes=2-9'') 8 = Some (Inr (2, 7))"
    by (simp add: parse_range_def byte_span_def parse_u64_sat_def)
  then show ?thesis using range_within_file [of "Some ''bytes=2-9''" 8 2 7] by simp
qed

end
