(* ===== verification/Capability.thy ===== *)
theory Capability
  imports Text
begin

text \<open>
  \<open>crates/media-core/src/capability.rs\<close> with the rows of \<open>models.rs\<close> it reads: may a file be
  sent as it is to a client.  The track manifests are stored as JSON; decoding them is the
  parameter \<open>media_lib\<close> (\<open>serde_json\<close>).  Integers are \<open>i64\<close>.
\<close>

record audio_track =
  at_index :: int
  at_codec :: "string option"
  at_channels :: "int option"
  at_language :: "string option"
  at_title :: "string option"

record subtitle_track =
  st_index :: int
  st_codec :: "string option"
  st_language :: "string option"
  st_title :: "string option"
  st_forced :: bool

record media_file =
  mf_id :: int
  mf_path :: string
  mf_size :: int
  mf_mtime :: string
  mf_container :: "string option"
  mf_duration :: "int option"
  mf_video_codec :: "string option"
  mf_height :: "int option"
  mf_profile :: "string option"
  mf_hdr :: "string option"
  mf_audio_json :: string
  mf_subtitle_json :: string
  mf_scanned_at :: string

record media_lib =
  ml_audio :: "string \<Rightarrow> audio_track list option"
  ml_subtitles :: "string \<Rightarrow> subtitle_track list option"

definition audio_tracks_checked :: "media_lib \<Rightarrow> media_file \<Rightarrow> audio_track list \<times> bool" where
  "audio_tracks_checked M f = (case ml_audio M (mf_audio_json f) of Some ts \<Rightarrow> (ts, False) | None \<Rightarrow> ([], True))"

definition audio_tracks :: "media_lib \<Rightarrow> media_file \<Rightarrow> audio_track list" where
  "audio_tracks M f = fst (audio_tracks_checked M f)"

definition subtitle_tracks_checked :: "media_lib \<Rightarrow> media_file \<Rightarrow> subtitle_track list \<times> bool" where
  "subtitle_tracks_checked M f = (case ml_subtitles M (mf_subtitle_json f) of Some ts \<Rightarrow> (ts, False) | None \<Rightarrow> ([], True))"

definition subtitle_tracks :: "media_lib \<Rightarrow> media_file \<Rightarrow> subtitle_track list" where
  "subtitle_tracks M f = fst (subtitle_tracks_checked M f)"

record client_caps =
  cc_containers :: "string list"
  cc_video_codecs :: "string list"
  cc_max_height :: "int option"
  cc_hdr :: bool
  cc_max_bitrate :: "int option"
  cc_audio_codecs :: "string list"
  cc_aac_max_channels :: int
  cc_hls_fmp4_hevc :: bool
  cc_native_hls :: bool
  cc_alt_audio :: bool
  cc_dolby_vision :: bool

definition default_audio_codecs :: "string list" where
  "default_audio_codecs = [''aac'']"

definition default_aac_max_channels :: int where
  "default_aac_max_channels = 2"

definition default_client_caps :: client_caps where
  "default_client_caps = \<lparr>cc_containers = [], cc_video_codecs = [], cc_max_height = None, cc_hdr = False,
     cc_max_bitrate = None, cc_audio_codecs = default_audio_codecs, cc_aac_max_channels = default_aac_max_channels,
     cc_hls_fmp4_hevc = False, cc_native_hls = False, cc_alt_audio = False, cc_dolby_vision = False\<rparr>"

record play_decision =
  pd_direct_play :: bool
  pd_reason :: string

definition contains_ci :: "string list \<Rightarrow> string \<Rightarrow> bool" where
  "contains_ci haystack needle \<longleftrightarrow> list_ex (\<lambda>c. eq_ci c needle) haystack"

definition mov_family :: "string list" where
  "mov_family = [''mov'', ''mp4'', ''m4a'', ''m4v'', ''3gp'', ''3g2'', ''mj2'']"

definition container_family :: "string \<Rightarrow> string" where
  "container_family c =
     (if list_ex (\<lambda>m. eq_ci c m) mov_family then ''mp4''
      else if eq_ci c ''matroska'' \<or> eq_ci c ''mkv'' then ''mkv''
      else c)"

definition container_supported :: "string list \<Rightarrow> string \<Rightarrow> bool" where
  "container_supported caps stored \<longleftrightarrow> list_ex (\<lambda>c. eq_ci (container_family c) (container_family stored)) caps"

definition deny :: "string \<Rightarrow> play_decision" where
  "deny reason = \<lparr>pd_direct_play = False, pd_reason = reason\<rparr>"

definition saturating_mul8 :: "int \<Rightarrow> int" where
  "saturating_mul8 x = max (- (2 ^ 63)) (min (x * 8) (2 ^ 63 - 1))"

definition over_bitrate_cap :: "media_file \<Rightarrow> client_caps \<Rightarrow> int option" where
  "over_bitrate_cap f c =
     (case (cc_max_bitrate c, mf_duration f) of
        (Some m, Some d) \<Rightarrow>
          if m \<le> 0 \<or> d \<le> 0 \<or> mf_size f \<le> 0 then None
          else let avg = saturating_mul8 (mf_size f) div d in if avg > m then Some avg else None
      | _ \<Rightarrow> None)"

text \<open>A field that is present and not blank, trimmed.\<close>

definition known :: "string option \<Rightarrow> string option" where
  "known x = (case x of None \<Rightarrow> None | Some s \<Rightarrow> if rtrim s = [] then None else Some (rtrim s))"

definition taller :: "media_file \<Rightarrow> client_caps \<Rightarrow> (int \<times> int) option" where
  "taller f c = (case (cc_max_height c, mf_height f) of
     (Some m, Some h) \<Rightarrow> if h > m then Some (h, m) else None | _ \<Rightarrow> None)"

definition hdr_label :: "media_file \<Rightarrow> string" where
  "hdr_label f = (case mf_hdr f of None \<Rightarrow> [] | Some h \<Rightarrow> rtrim h)"

definition label_is_dv :: "string \<Rightarrow> bool" where
  "label_is_dv l \<longleftrightarrow> str_contains (to_lower l) ''dolby vision'' \<or> eq_ci l ''dovi''"

definition first_audio_codec :: "media_lib \<Rightarrow> media_file \<Rightarrow> string" where
  "first_audio_codec M f = (case audio_tracks M f of [] \<Rightarrow> []
     | t # _ \<Rightarrow> (case at_codec t of None \<Rightarrow> [] | Some s \<Rightarrow> rtrim s))"

definition decide_codec :: "media_lib \<Rightarrow> media_file \<Rightarrow> client_caps \<Rightarrow> string \<Rightarrow> play_decision" where
  "decide_codec M f c codec =
     (if \<not> contains_ci (cc_video_codecs c) codec then deny (''codec '' @ codec @ '' not supported by client'')
      else case (if eq_ci codec ''h264''
                 then (case mf_profile f of None \<Rightarrow> None
                       | Some p \<Rightarrow> if str_contains (rtrim p) ''10'' then Some (rtrim p) else None)
                 else None) of
        Some profile \<Rightarrow> deny (''h264 profile '' @ profile @ '' (10-bit) not supported by client'')
      | None \<Rightarrow>
          (case taller f c of
             Some (h, m) \<Rightarrow> deny (''height '' @ dec_int h @ '' exceeds client max '' @ dec_int m)
           | None \<Rightarrow>
               (case (over_bitrate_cap f c, cc_max_bitrate c) of
                  (Some avg, Some m) \<Rightarrow> deny (''bitrate '' @ dec_int avg @ '' exceeds client max '' @ dec_int m)
                | _ \<Rightarrow>
                    if label_is_dv (hdr_label f) \<and> \<not> cc_dolby_vision c
                    then deny ''dolby vision requires rpu-aware handling''
                    else if hdr_label f \<noteq> [] \<and> \<not> cc_hdr c then deny ''hdr requires tone-map''
                    else if first_audio_codec M f \<noteq> [] \<and> \<not> contains_ci (cc_audio_codecs c) (first_audio_codec M f)
                    then deny (''audio codec '' @ first_audio_codec M f @ '' not supported by client'')
                    else \<lparr>pd_direct_play = True, pd_reason = ''direct play''\<rparr>)))"

definition decide :: "media_lib \<Rightarrow> media_file \<Rightarrow> client_caps \<Rightarrow> play_decision" where
  "decide M f c =
     (case known (mf_container f) of
        None \<Rightarrow> deny ''unknown container''
      | Some container \<Rightarrow>
          if \<not> container_supported (cc_containers c) container
          then deny (''container '' @ container @ '' not supported by client'')
          else if container_family container = ''mkv''
          then deny ''matroska cannot progressive-play in browsers; remux required''
          else (case known (mf_video_codec f) of
                  None \<Rightarrow> deny ''unknown codec''
                | Some codec \<Rightarrow> decide_codec M f c codec))"

section \<open>What a direct play promises\<close>

lemma deny_refuses [simp]: "\<not> pd_direct_play (deny r)"
  by (simp add: deny_def)

lemma decide_codec_plays:
  "pd_direct_play (decide_codec M f c codec) \<longleftrightarrow>
     contains_ci (cc_video_codecs c) codec
     \<and> (eq_ci codec ''h264'' \<longrightarrow> \<not> (\<exists>p. mf_profile f = Some p \<and> str_contains (rtrim p) ''10''))
     \<and> taller f c = None \<and> over_bitrate_cap f c = None
     \<and> (label_is_dv (hdr_label f) \<longrightarrow> cc_dolby_vision c)
     \<and> (hdr_label f = [] \<or> cc_hdr c)
     \<and> (first_audio_codec M f = [] \<or> contains_ci (cc_audio_codecs c) (first_audio_codec M f))"
proof -
  have "over_bitrate_cap f c \<noteq> None \<Longrightarrow> cc_max_bitrate c \<noteq> None"
    by (auto simp: over_bitrate_cap_def split: option.splits)
  then show ?thesis
    by (auto simp: decide_codec_def split: option.split if_splits)
qed

lemma decide_plays:
  "pd_direct_play (decide M f c) \<longleftrightarrow>
     (\<exists>container codec. known (mf_container f) = Some container \<and> known (mf_video_codec f) = Some codec
        \<and> container_supported (cc_containers c) container \<and> container_family container \<noteq> ''mkv''
        \<and> pd_direct_play (decide_codec M f c codec))"
  by (auto simp: decide_def split: option.split)

end
