(* ===== verification/Plan.thy ===== *)
theory Plan
  imports Capability "HOL-Library.Multiset"
begin

text \<open>
  \<open>crates/transcoder/src/plan.rs\<close>: the per-stream operations chosen for a file that cannot be sent
  as it is (or whose client asked for buffered delivery).  Logging is left out.
\<close>

section \<open>Operations and plans\<close>

definition default_target_height :: int where "default_target_height = 1080"

definition text_subtitle_codecs :: "string list" where
  "text_subtitle_codecs = [''subrip'', ''srt'', ''webvtt'', ''vtt'', ''ass'', ''ssa'', ''mov_text'', ''text'']"

definition image_subtitle_codecs :: "string list" where
  "image_subtitle_codecs = [''hdmv_pgs_subtitle'', ''pgssub'', ''pgs'', ''dvd_subtitle'', ''dvdsub'', ''vobsub'']"

datatype video_op =
  VCopy
| VCopyDolbyVision nat
| VEncodeH264 "int option" bool "int option" "int option"
| VEncodeDolbyVision "int option" "int option"

datatype audio_op = ACopy | AEncodeAac nat

datatype subtitle_op = SNone | SExtractWebVtt int

record sidecar_subtitle =
  ss_index :: int
  ss_language :: "string option"
  ss_forced :: bool

definition default_aac_kbps :: nat where "default_aac_kbps = 192"

definition downmix_aac_kbps :: nat where "downmix_aac_kbps = 256"

datatype segment_format = MpegTs | Fmp4

datatype transcode_plan =
  DirectPlay string
| Transcode (tp_video: video_op) (tp_audio: audio_op) (tp_subtitle: subtitle_op) (tp_format: segment_format)
    (tp_audio_index: nat) (tp_extra: "(nat \<times> audio_op) list") (tp_alt: "(nat \<times> audio_op) list") (tp_reason: string)

fun is_direct_play :: "transcode_plan \<Rightarrow> bool" where
  "is_direct_play (DirectPlay _) = True"
| "is_direct_play _ = False"

fun encodes_video :: "video_op \<Rightarrow> bool" where
  "encodes_video (VEncodeH264 _ _ _ _) = True"
| "encodes_video (VEncodeDolbyVision _ _) = True"
| "encodes_video _ = False"

fun reencodes_video :: "transcode_plan \<Rightarrow> bool" where
  "reencodes_video (DirectPlay _) = False"
| "reencodes_video (Transcode v _ _ _ _ _ _ _) = encodes_video v"

section \<open>Codecs and labels\<close>

definition opt_text :: "string option \<Rightarrow> string" where
  "opt_text x = (case x of None \<Rightarrow> [] | Some s \<Rightarrow> s)"

definition video_profile_copy_safe :: "string \<Rightarrow> string option \<Rightarrow> bool" where
  "video_profile_copy_safe codec profile =
     (let p = to_lower (rtrim (opt_text profile)); c = to_lower (rtrim codec) in
      if c \<in> {''h264'', ''avc'', ''avc1''}
      then p \<in> {''baseline'', ''constrained baseline'', ''main'', ''high'', ''constrained high''}
      else if c \<in> {''hevc'', ''h265''} then p \<in> {''main'', ''main 10''}
      else True)"

definition is_text_subtitle :: "string \<Rightarrow> bool" where
  "is_text_subtitle codec \<longleftrightarrow> list_ex (eq_ci codec) text_subtitle_codecs"

definition is_image_subtitle :: "string \<Rightarrow> bool" where
  "is_image_subtitle codec \<longleftrightarrow> list_ex (eq_ci codec) image_subtitle_codecs"

text \<open>Only what it returns: the branches of the source differ in what they log.\<close>

definition plan_subtitle :: "media_file \<Rightarrow> subtitle_op \<times> int option" where
  "plan_subtitle f = (SNone, None)"

definition track_is_text :: "subtitle_track \<Rightarrow> bool" where
  "track_is_text t \<longleftrightarrow> is_text_subtitle (rtrim (opt_text (st_codec t)))"

definition plan_sidecar_subtitle :: "media_lib \<Rightarrow> media_file \<Rightarrow> sidecar_subtitle option" where
  "plan_sidecar_subtitle M f =
     (let tracks = subtitle_tracks M f in
      map_option (\<lambda>t. \<lparr>ss_index = st_index t, ss_language = st_language t, ss_forced = st_forced t\<rparr>)
        (case List.find (\<lambda>t. st_forced t \<and> track_is_text t) tracks of
           Some t \<Rightarrow> Some t
         | None \<Rightarrow> List.find track_is_text tracks))"

definition is_dolby_vision :: "string option \<Rightarrow> bool" where
  "is_dolby_vision hdr = (case hdr of None \<Rightarrow> False
     | Some h \<Rightarrow> str_contains (to_lower (rtrim h)) ''dolby vision'' \<or> eq_ci (rtrim h) ''dovi'')"

definition dolby_vision_profile :: "string option \<Rightarrow> nat option" where
  "dolby_vision_profile hdr =
     Option.bind hdr (\<lambda>h.
     Option.bind (strip_prefix ''dolby vision p'' (to_lower (rtrim h))) (\<lambda>rest.
     Option.bind (first_word rest) (parse_unsigned 256)))"

definition truthy :: "string option \<Rightarrow> bool" where
  "truthy v \<longleftrightarrow> to_lower (rtrim (opt_text v)) \<in> {''1'', ''true'', ''yes'', ''on''}"

definition dv_passthrough_enabled :: "(string \<Rightarrow> string option) \<Rightarrow> bool" where
  "dv_passthrough_enabled env = truthy (env ''TRANSCODER_DV_PASSTHROUGH'')"

section \<open>Audio\<close>

definition is_english_lang :: "string \<Rightarrow> bool" where
  "is_english_lang tag =
     (let t = to_lower (rtrim tag) in
      t = ''en'' \<or> t = ''eng'' \<or> t = ''english'' \<or> starts_with ''en-'' t \<or> starts_with ''en_'' t)"

definition track_english :: "audio_track \<Rightarrow> bool" where
  "track_english t = (case at_language t of None \<Rightarrow> False | Some l \<Rightarrow> is_english_lang l)"

fun position :: "('a \<Rightarrow> bool) \<Rightarrow> 'a list \<Rightarrow> nat option" where
  "position P [] = None"
| "position P (x # xs) = (if P x then Some 0 else map_option Suc (position P xs))"

definition preferred_audio_index :: "media_lib \<Rightarrow> media_file \<Rightarrow> nat" where
  "preferred_audio_index M f =
     (case position track_english (audio_tracks M f) of Some i \<Rightarrow> i | None \<Rightarrow> 0)"

definition audio_op_for :: "audio_track \<Rightarrow> client_caps \<Rightarrow> audio_op" where
  "audio_op_for t c =
     (let codec = to_lower (rtrim (opt_text (at_codec t)));
          codec_accepted = list_ex (\<lambda>a. eq_ci a codec) (cc_audio_codecs c);
          channels_safe = (if codec = ''aac''
            then (case at_channels t of None \<Rightarrow> False | Some n \<Rightarrow> n \<le> max (cc_aac_max_channels c) 2)
            else True)
      in if codec_accepted \<and> channels_safe then ACopy
         else AEncodeAac (if (case at_channels t of None \<Rightarrow> True | Some n \<Rightarrow> n > 2)
           then downmix_aac_kbps else default_aac_kbps))"

definition plan_audio :: "media_lib \<Rightarrow> media_file \<Rightarrow> client_caps \<Rightarrow> audio_op" where
  "plan_audio M f c =
     (let tracks = audio_tracks M f; i = preferred_audio_index M f in
      case (if i < length tracks then Some (tracks ! i) else case tracks of [] \<Rightarrow> None | t # _ \<Rightarrow> Some t) of
        None \<Rightarrow> ACopy
      | Some t \<Rightarrow> audio_op_for t c)"

definition other_audio_tracks :: "media_lib \<Rightarrow> media_file \<Rightarrow> client_caps \<Rightarrow> (nat \<times> audio_op) list" where
  "other_audio_tracks M f c =
     (let tracks = audio_tracks M f in
      if length tracks < 2 then []
      else map (\<lambda>(i, t). (i, audio_op_for t c))
             (filter (\<lambda>(i, _). i \<noteq> preferred_audio_index M f) (enumerate 0 tracks)))"

definition plan_extra_audio :: "media_lib \<Rightarrow> media_file \<Rightarrow> client_caps \<Rightarrow> (nat \<times> audio_op) list" where
  "plan_extra_audio M f c = (if \<not> cc_native_hls c then [] else other_audio_tracks M f c)"

definition plan_alt_audio :: "media_lib \<Rightarrow> media_file \<Rightarrow> client_caps \<Rightarrow> (nat \<times> audio_op) list" where
  "plan_alt_audio M f c = (if \<not> cc_alt_audio c \<or> cc_native_hls c then [] else other_audio_tracks M f c)"

section \<open>The plan\<close>

definition needs_scale :: "media_file \<Rightarrow> client_caps \<Rightarrow> bool" where
  "needs_scale f c \<longleftrightarrow> taller f c \<noteq> None"

definition with_audio :: "media_lib \<Rightarrow> media_file \<Rightarrow> client_caps \<Rightarrow> subtitle_op \<Rightarrow> video_op \<Rightarrow> segment_format \<Rightarrow> string
    \<Rightarrow> transcode_plan" where
  "with_audio M f c sub v fmt reason =
     Transcode v (plan_audio M f c) sub fmt (preferred_audio_index M f) (plan_extra_audio M f c) (plan_alt_audio M f c) reason"

definition dv_copyable :: "media_file \<Rightarrow> client_caps \<Rightarrow> bool \<Rightarrow> bool \<Rightarrow> bool" where
  "dv_copyable f c dv over_cap \<longleftrightarrow> dv \<and> cc_dolby_vision c \<and> cc_hls_fmp4_hevc c
     \<and> to_lower (rtrim (opt_text (mf_video_codec f))) \<in> {''hevc'', ''h265''}
     \<and> dolby_vision_profile (mf_hdr f) \<in> {Some 5, Some 8} \<and> \<not> needs_scale f c \<and> \<not> over_cap"

definition plan_dolby_vision :: "media_lib \<Rightarrow> media_file \<Rightarrow> client_caps \<Rightarrow> string \<Rightarrow> bool \<Rightarrow> subtitle_op \<Rightarrow> bool \<Rightarrow> transcode_plan" where
  "plan_dolby_vision M f c reason dv sub over_cap =
     (if dv_copyable f c dv over_cap
      then (let profile = the (dolby_vision_profile (mf_hdr f)) in
            with_audio M f c sub (VCopyDolbyVision profile) Fmp4
              (reason @ '' (dolby vision P'' @ dec_nat profile @ '' passthrough)''))
      else with_audio M f c sub
             (VEncodeDolbyVision
                (case mf_height f of Some h \<Rightarrow> if h > default_target_height then Some default_target_height else None
                 | None \<Rightarrow> None)
                (mf_height f))
             MpegTs (reason @ '' (dolby vision: libplacebo RPU re-encode)''))"

definition hls_copy_deliverable :: "string \<Rightarrow> client_caps \<Rightarrow> bool" where
  "hls_copy_deliverable codec_lc c =
     (if codec_lc \<in> {''h264'', ''avc'', ''avc1''} then True
      else if codec_lc \<in> {''hevc'', ''h265''} then cc_hls_fmp4_hevc c
      else False)"

definition video_copyable :: "media_file \<Rightarrow> client_caps \<Rightarrow> int option \<Rightarrow> bool \<Rightarrow> bool" where
  "video_copyable f c burn over_cap \<longleftrightarrow>
     (let codec = rtrim (opt_text (mf_video_codec f)) in
      (codec \<noteq> [] \<and> contains_ci (cc_video_codecs c) codec)
      \<and> video_profile_copy_safe codec (mf_profile f) \<and> hls_copy_deliverable (to_lower (rtrim codec)) c
      \<and> \<not> needs_scale f c \<and> \<not> (hdr_label f \<noteq> [] \<and> \<not> cc_hdr c) \<and> burn = None \<and> \<not> over_cap)"

definition plan_video :: "media_file \<Rightarrow> client_caps \<Rightarrow> int option \<Rightarrow> bool \<Rightarrow> video_op" where
  "plan_video f c burn over_cap =
     (let scale = (if needs_scale f c
                   then Some (min (case cc_max_height c of Some m \<Rightarrow> m | None \<Rightarrow> default_target_height) default_target_height)
                   else None);
          tone_map = (hdr_label f \<noteq> [] \<and> \<not> cc_hdr c)
      in if video_copyable f c burn over_cap then VCopy else VEncodeH264 scale tone_map burn (mf_height f))"

definition video_is_hevc :: "media_file \<Rightarrow> bool" where
  "video_is_hevc f \<longleftrightarrow> to_lower (rtrim (rtrim (opt_text (mf_video_codec f)))) \<in> {''hevc'', ''h265''}"

definition plan_transcode_ops_with :: "media_lib \<Rightarrow> media_file \<Rightarrow> client_caps \<Rightarrow> string \<Rightarrow> bool \<Rightarrow> transcode_plan" where
  "plan_transcode_ops_with M f c reason dv =
     (let (sub, burn) = plan_subtitle f; over_cap = (over_bitrate_cap f c \<noteq> None) in
      if is_dolby_vision (mf_hdr f) then plan_dolby_vision M f c reason dv sub over_cap
      else
        (let v = plan_video f c burn over_cap in
         with_audio M f c sub v (if video_is_hevc f \<and> v = VCopy then Fmp4 else MpegTs) reason))"

definition plan_transcode_ops :: "(string \<Rightarrow> string option) \<Rightarrow> media_lib \<Rightarrow> media_file \<Rightarrow> client_caps \<Rightarrow> string \<Rightarrow> transcode_plan" where
  "plan_transcode_ops env M f c reason = plan_transcode_ops_with M f c reason (dv_passthrough_enabled env)"

definition plan_transcode :: "(string \<Rightarrow> string option) \<Rightarrow> media_lib \<Rightarrow> media_file \<Rightarrow> client_caps \<Rightarrow> transcode_plan" where
  "plan_transcode env M f c =
     (let d = decide M f c in
      if pd_direct_play d then DirectPlay (pd_reason d) else plan_transcode_ops env M f c (pd_reason d))"

definition plan_transcode_forced :: "(string \<Rightarrow> string option) \<Rightarrow> media_lib \<Rightarrow> media_file \<Rightarrow> client_caps \<Rightarrow> transcode_plan" where
  "plan_transcode_forced env M f c = plan_transcode_ops env M f c ''forced buffered delivery''"

section \<open>What the client receives\<close>

fun copies_video :: "transcode_plan \<Rightarrow> bool" where
  "copies_video (DirectPlay _) = True"
| "copies_video (Transcode v _ _ _ _ _ _ _) = (\<not> encodes_video v)"

fun receives_dv :: "media_file \<Rightarrow> transcode_plan \<Rightarrow> bool" where
  "receives_dv f (DirectPlay _) = is_dolby_vision (mf_hdr f)"
| "receives_dv f (Transcode v _ _ _ _ _ _ _) = (\<not> encodes_video v \<and> is_dolby_vision (mf_hdr f))"

fun receives_hdr :: "media_file \<Rightarrow> transcode_plan \<Rightarrow> bool" where
  "receives_hdr f (Transcode (VEncodeH264 _ tone _ _) _ _ _ _ _ _ _) = (hdr_label f \<noteq> [] \<and> \<not> tone)"
| "receives_hdr f (Transcode (VEncodeDolbyVision _ _) _ _ _ _ _ _ _) = False"
| "receives_hdr f _ = (hdr_label f \<noteq> [])"

fun out_height :: "media_file \<Rightarrow> transcode_plan \<Rightarrow> int option" where
  "out_height f (Transcode (VEncodeH264 s _ _ src) _ _ _ _ _ _ _) = (case s of Some h \<Rightarrow> Some h | None \<Rightarrow> src)"
| "out_height f (Transcode (VEncodeDolbyVision s src) _ _ _ _ _ _ _) = (case s of Some h \<Rightarrow> Some h | None \<Rightarrow> src)"
| "out_height f _ = mf_height f"

definition fits_height :: "client_caps \<Rightarrow> int option \<Rightarrow> bool" where
  "fits_height c h = (case (cc_max_height c, h) of (Some m, Some x) \<Rightarrow> x \<le> m | _ \<Rightarrow> True)"

definition track_playable :: "client_caps \<Rightarrow> audio_track \<Rightarrow> bool" where
  "track_playable c t \<longleftrightarrow> contains_ci (cc_audio_codecs c) (rtrim (opt_text (at_codec t)))
     \<and> (eq_ci (rtrim (opt_text (at_codec t))) ''aac'' \<longrightarrow>
          (\<exists>n. at_channels t = Some n \<and> n \<le> max (cc_aac_max_channels c) 2))"

fun mapped_audio :: "transcode_plan \<Rightarrow> (nat \<times> audio_op) list" where
  "mapped_audio (DirectPlay _) = []"
| "mapped_audio (Transcode _ a _ _ i ex alt _) = (i, a) # ex @ alt"

text \<open>
  The client's contract: Dolby Vision only to a client that handles it, HDR only to one that shows
  HDR or Dolby Vision, HEVC only in fMP4 segments and those only to a client that plays them, a
  copied stream only in a codec and profile the client accepts and under its bitrate cap, no picture
  taller than the client's limit (the Dolby Vision re-encode, which scales to 1080 lines, apart),
  and a copied audio track only in a codec and channel count the client appends.
\<close>

definition dv_ok :: "media_file \<Rightarrow> client_caps \<Rightarrow> transcode_plan \<Rightarrow> bool" where
  "dv_ok f c p \<longleftrightarrow> (receives_dv f p \<longrightarrow> cc_dolby_vision c) \<and> (receives_hdr f p \<longrightarrow> cc_hdr c \<or> cc_dolby_vision c)"

definition format_ok :: "media_file \<Rightarrow> client_caps \<Rightarrow> transcode_plan \<Rightarrow> bool" where
  "format_ok f c p \<longleftrightarrow> is_direct_play p
     \<or> (tp_format p = Fmp4) = (copies_video p \<and> video_is_hevc f) \<and> (tp_format p = Fmp4 \<longrightarrow> cc_hls_fmp4_hevc c)"

definition codec_ok :: "media_file \<Rightarrow> client_caps \<Rightarrow> transcode_plan \<Rightarrow> bool" where
  "codec_ok f c p \<longleftrightarrow> (copies_video p \<longrightarrow>
     over_bitrate_cap f c = None
     \<and> (contains_ci (cc_video_codecs c) (rtrim (opt_text (mf_video_codec f)))
        \<or> tp_video p \<in> range VCopyDolbyVision \<and> cc_hls_fmp4_hevc c \<and> cc_dolby_vision c)
     \<and> (if is_direct_play p
        then eq_ci (rtrim (opt_text (mf_video_codec f))) ''h264'' \<longrightarrow> \<not> str_contains (rtrim (opt_text (mf_profile f))) ''10''
        else tp_video p = VCopy \<longrightarrow> video_profile_copy_safe (rtrim (opt_text (mf_video_codec f))) (mf_profile f)))"

definition height_ok :: "media_file \<Rightarrow> client_caps \<Rightarrow> transcode_plan \<Rightarrow> bool" where
  "height_ok f c p \<longleftrightarrow> \<not> is_direct_play p \<and> encodes_video (tp_video p) \<and> is_dolby_vision (mf_hdr f)
     \<or> fits_height c (out_height f p)"

definition audio_ok :: "media_lib \<Rightarrow> media_file \<Rightarrow> client_caps \<Rightarrow> transcode_plan \<Rightarrow> bool" where
  "audio_ok M f c p \<longleftrightarrow> list_all (\<lambda>(i, op). op = ACopy \<and> i < length (audio_tracks M f) \<longrightarrow>
     track_playable c (audio_tracks M f ! i)) (mapped_audio p)"

definition playable_by :: "media_lib \<Rightarrow> media_file \<Rightarrow> client_caps \<Rightarrow> transcode_plan \<Rightarrow> bool" where
  "playable_by M f c p \<longleftrightarrow> dv_ok f c p \<and> format_ok f c p \<and> codec_ok f c p \<and> height_ok f c p \<and> audio_ok M f c p"

section \<open>The plan keeps the contract\<close>

lemma label_is_dv_eq: "label_is_dv (hdr_label f) = is_dolby_vision (mf_hdr f)"
  by (auto simp: label_is_dv_def hdr_label_def is_dolby_vision_def eq_ci_def to_lower_def split: option.split)

lemma contains_ci_lower: "contains_ci cs (to_lower a) = contains_ci cs a"
  by (simp add: contains_ci_def)

lemma taller_fits: "taller f c = None \<longleftrightarrow> fits_height c (mf_height f)"
  by (auto simp: taller_def fits_height_def split: option.split)

lemma audio_op_copy: "audio_op_for t c = ACopy \<Longrightarrow> track_playable c t"
proof -
  have "to_lower ''aac'' = ''aac''" by code_simp
  then show "audio_op_for t c = ACopy \<Longrightarrow> track_playable c t"
    by (auto simp: audio_op_for_def Let_def track_playable_def contains_ci_def eq_ci_def split: if_splits option.splits)
qed

lemma position_Some: "position P xs = Some i \<Longrightarrow> i < length xs \<and> P (xs ! i) \<and> list_all (\<lambda>x. \<not> P x) (take i xs)"
  by (induction xs arbitrary: i) (auto split: if_splits)

lemma position_None: "position P xs = None \<longleftrightarrow> list_all (\<lambda>x. \<not> P x) xs"
  by (induction xs) auto

lemma preferred_in: "audio_tracks M f \<noteq> [] \<Longrightarrow> preferred_audio_index M f < length (audio_tracks M f)"
  by (auto simp: preferred_audio_index_def dest: position_Some split: option.split)

lemma plan_audio_op:
  "plan_audio M f c = (if preferred_audio_index M f < length (audio_tracks M f)
     then audio_op_for (audio_tracks M f ! preferred_audio_index M f) c else ACopy)"
  using preferred_in [of M f] by (auto simp: plan_audio_def Let_def split: list.split)

lemma other_tracks:
  "map fst (other_audio_tracks M f c) = filter (\<lambda>i. i \<noteq> preferred_audio_index M f) [0..<length (audio_tracks M f)]"
  "list_all (\<lambda>(i, op). i < length (audio_tracks M f) \<and> op = audio_op_for (audio_tracks M f ! i) c) (other_audio_tracks M f c)"
proof -
  let ?ts = "audio_tracks M f"
  have short: "filter (\<lambda>i. i \<noteq> preferred_audio_index M f) [0..<length ?ts] = []" if h: "length ?ts < 2"
  proof -
    have "preferred_audio_index M f = 0" if "?ts \<noteq> []" using preferred_in [OF that] h by simp
    moreover have "length ?ts = 0 \<or> length ?ts = 1" using h by arith
    ultimately show ?thesis by (cases "?ts = []") (auto simp: upt_conv_Cons)
  qed
  have "map fst (filter (\<lambda>(i, _). i \<noteq> k) (enumerate 0 ts)) = filter (\<lambda>i. i \<noteq> k) [0..<length ts]" for k and ts :: "audio_track list"
  proof -
    have "map fst (filter (\<lambda>(i, _). i \<noteq> k) (enumerate 0 ts)) = filter (\<lambda>i. i \<noteq> k) (map fst (enumerate 0 ts))"
      by (simp only: filter_map comp_def case_prod_unfold)
    then show ?thesis by simp
  qed
  then show "map fst (other_audio_tracks M f c) = filter (\<lambda>i. i \<noteq> preferred_audio_index M f) [0..<length ?ts]"
    using short by (simp add: other_audio_tracks_def Let_def comp_def case_prod_unfold)
  show "list_all (\<lambda>(i, op). i < length ?ts \<and> op = audio_op_for (?ts ! i) c) (other_audio_tracks M f c)"
    by (auto simp: other_audio_tracks_def Let_def list_all_iff in_set_enumerate_eq)
qed

lemma filter_eq_upt: "k < n \<Longrightarrow> filter (\<lambda>i. i = k) [0..<n] = [k]"
proof (induction n)
  case (Suc n)
  then show ?case by (cases "k = n") (auto simp: filter_empty_conv)
qed simp

lemma ops_with_audio:
  obtains sub v fmt r' where "plan_transcode_ops_with M f c r dv = with_audio M f c sub v fmt r'"
proof (cases "is_dolby_vision (mf_hdr f)")
  case True
  have "\<exists>v fmt r'. plan_dolby_vision M f c r dv sub b = with_audio M f c sub v fmt r'" for sub b
    unfolding plan_dolby_vision_def Let_def by (cases "dv \<and> cc_dolby_vision c") (simp; blast)+
  then show thesis using that True by (fastforce simp: plan_transcode_ops_with_def split_beta)
next
  case False
  then show thesis using that by (simp add: plan_transcode_ops_with_def split_beta Let_def)
qed

lemma with_audio_ok: "audio_ok M f c (with_audio M f c sub v fmt r)"
proof -
  have "list_all (\<lambda>(i, op). op = ACopy \<and> i < length (audio_tracks M f) \<longrightarrow> track_playable c (audio_tracks M f ! i))
      (other_audio_tracks M f c)"
    using other_tracks(2) [of M f c] audio_op_copy by (force simp: list_all_iff)
  moreover have "plan_audio M f c = ACopy \<Longrightarrow> preferred_audio_index M f < length (audio_tracks M f) \<Longrightarrow>
      track_playable c (audio_tracks M f ! preferred_audio_index M f)"
    by (rule audio_op_copy) (simp add: plan_audio_op)
  ultimately show ?thesis
    by (simp add: audio_ok_def with_audio_def plan_extra_audio_def plan_alt_audio_def)
qed

lemma dolby_vision_cases:
  assumes "is_dolby_vision (mf_hdr f)"
  obtains (copy) n r' where "plan_transcode_ops_with M f c r dv = with_audio M f c SNone (VCopyDolbyVision n) Fmp4 r'"
      "cc_dolby_vision c" "cc_hls_fmp4_hevc c" "video_is_hevc f" "\<not> needs_scale f c" "over_bitrate_cap f c = None"
  | (encode) s r' where "plan_transcode_ops_with M f c r dv = with_audio M f c SNone (VEncodeDolbyVision s (mf_height f)) MpegTs r'"
proof -
  have "plan_transcode_ops_with M f c r dv = plan_dolby_vision M f c r dv SNone (over_bitrate_cap f c \<noteq> None)"
    using assms by (simp add: plan_transcode_ops_with_def plan_subtitle_def)
  then show thesis
  proof (cases "dv_copyable f c dv (over_bitrate_cap f c \<noteq> None)")
    case True
    note c = this [unfolded dv_copyable_def]
    show ?thesis
      by (rule copy) (use c True \<open>plan_transcode_ops_with M f c r dv = _\<close> in
        \<open>simp_all add: plan_dolby_vision_def Let_def video_is_hevc_def\<close>)
  next
    case False
    show ?thesis
      by (rule encode) (use False \<open>plan_transcode_ops_with M f c r dv = _\<close> in \<open>simp add: plan_dolby_vision_def\<close>)
  qed
qed

lemma dolby_vision_plan_ok:
  assumes "is_dolby_vision (mf_hdr f)" "p = plan_transcode_ops_with M f c r dv"
  shows "dv_ok f c p \<and> format_ok f c p \<and> codec_ok f c p \<and> height_ok f c p"
  using assms(1)
proof (cases rule: dolby_vision_cases [where M = M and c = c and r = r and dv = dv])
  case (copy n r')
  then show ?thesis using assms taller_fits [of f c]
    by (simp add: with_audio_def dv_ok_def format_ok_def codec_ok_def height_ok_def needs_scale_def)
next
  case (encode s r')
  then show ?thesis using assms
    by (simp add: with_audio_def dv_ok_def format_ok_def codec_ok_def height_ok_def)
qed

lemma plan_video_cases:
  obtains (copy) "plan_video f c None b = VCopy" "contains_ci (cc_video_codecs c) (rtrim (opt_text (mf_video_codec f)))"
      "video_profile_copy_safe (rtrim (opt_text (mf_video_codec f))) (mf_profile f)"
      "video_is_hevc f \<Longrightarrow> cc_hls_fmp4_hevc c" "taller f c = None" "hdr_label f = [] \<or> cc_hdr c" "\<not> b"
  | (encode) s where "plan_video f c None b = VEncodeH264 s (hdr_label f \<noteq> [] \<and> \<not> cc_hdr c) None (mf_height f)"
      "fits_height c (case s of Some h \<Rightarrow> Some h | None \<Rightarrow> mf_height f)"
proof -
  have s: "fits_height c (case (if needs_scale f c
         then Some (min (case cc_max_height c of Some m \<Rightarrow> m | None \<Rightarrow> default_target_height) default_target_height)
         else None) of Some h \<Rightarrow> Some h | None \<Rightarrow> mf_height f)"
    using taller_fits [of f c] by (auto simp: needs_scale_def fits_height_def split: option.splits)
  show thesis
  proof (cases "video_copyable f c None b")
    case True
    note c = this [unfolded video_copyable_def Let_def needs_scale_def not_not]
    show ?thesis
      by (rule copy) (use c True in \<open>auto simp: plan_video_def Let_def video_is_hevc_def hls_copy_deliverable_def
        simp del: not_None_eq split: if_splits\<close>)
  next
    case False
    then show ?thesis using s by (intro encode) (simp_all add: plan_video_def Let_def)
  qed
qed

lemma ordinary_plan_ok:
  assumes "\<not> is_dolby_vision (mf_hdr f)" "p = plan_transcode_ops_with M f c r dv"
  shows "dv_ok f c p \<and> format_ok f c p \<and> codec_ok f c p \<and> height_ok f c p"
proof -
  have p: "p = with_audio M f c SNone (plan_video f c None (over_bitrate_cap f c \<noteq> None))
      (if video_is_hevc f \<and> plan_video f c None (over_bitrate_cap f c \<noteq> None) = VCopy then Fmp4 else MpegTs) r"
    using assms by (simp add: plan_transcode_ops_with_def plan_subtitle_def Let_def)
  show ?thesis
  proof (cases rule: plan_video_cases [of f c "over_bitrate_cap f c \<noteq> None"])
    case copy
    then show ?thesis using assms(1) taller_fits [of f c] unfolding p
      by (auto simp: with_audio_def dv_ok_def format_ok_def codec_ok_def height_ok_def)
  next
    case (encode s)
    then show ?thesis using assms(1) unfolding p
      by (auto simp: with_audio_def dv_ok_def format_ok_def codec_ok_def height_ok_def)
  qed
qed

lemma ops_playable: "playable_by M f c (plan_transcode_ops_with M f c r dv)"
proof -
  have "audio_ok M f c (plan_transcode_ops_with M f c r dv)"
    by (metis ops_with_audio with_audio_ok)
  then show ?thesis
    using dolby_vision_plan_ok ordinary_plan_ok by (metis playable_by_def)
qed

lemma direct_playable:
  assumes "pd_direct_play (decide M f c)"
  shows "playable_by M f c (DirectPlay r)"
proof -
  obtain container codec where "known (mf_video_codec f) = Some codec" "pd_direct_play (decide_codec M f c codec)"
    using assms by (auto simp: decide_plays)
  moreover then have "rtrim (opt_text (mf_video_codec f)) = codec"
    by (auto simp: known_def opt_text_def split: option.splits if_splits)
  moreover have "str_contains [] ''10'' = False" by simp
  ultimately show ?thesis
    by (auto simp: playable_by_def dv_ok_def format_ok_def codec_ok_def height_ok_def audio_ok_def decide_codec_plays
        label_is_dv_eq taller_fits opt_text_def rtrim_def trim_by_def split: option.splits)
qed

section \<open>Properties\<close>


text \<open>
  Every session maps the first English audio track first, or the file's first track when none
  is English; a client that switches tracks gets each of the others exactly once besides, any other
  client none; and each mapped track has the operation of that very track.
\<close>

theorem audio_menu_complete:
  "fst (hd (mapped_audio (plan_transcode_ops env M f c r))) = preferred_audio_index M f
   \<and> list_all (\<lambda>t. \<not> track_english t) (take (preferred_audio_index M f) (audio_tracks M f))
   \<and> list_ex track_english (audio_tracks M f) = (preferred_audio_index M f < length (audio_tracks M f)
        \<and> track_english (audio_tracks M f ! preferred_audio_index M f))
   \<and> mset (map fst (mapped_audio (plan_transcode_ops env M f c r))) =
       (if (cc_native_hls c \<or> cc_alt_audio c) \<and> audio_tracks M f \<noteq> [] then mset [0..<length (audio_tracks M f)]
        else {#preferred_audio_index M f#})
   \<and> list_all (\<lambda>(i, op). op = (if i < length (audio_tracks M f) then audio_op_for (audio_tracks M f ! i) c else ACopy))
       (mapped_audio (plan_transcode_ops env M f c r))"
proof -
  let ?ts = "audio_tracks M f" let ?k = "preferred_audio_index M f"
  obtain sub v fmt r' where p: "plan_transcode_ops env M f c r = with_audio M f c sub v fmt r'"
    unfolding plan_transcode_ops_def by (metis ops_with_audio)
  have mapped: "mapped_audio (plan_transcode_ops env M f c r) = (?k, plan_audio M f c) #
      (if cc_native_hls c \<or> cc_alt_audio c then other_audio_tracks M f c else [])"
    by (simp add: p with_audio_def plan_extra_audio_def plan_alt_audio_def)
  have others: "{#?k#} + mset (map fst (other_audio_tracks M f c)) = mset [0..<length ?ts]" if "?ts \<noteq> []"
  proof -
    have "mset [0..<length ?ts] = mset (filter (\<lambda>i. i = ?k) [0..<length ?ts]) + mset (filter (\<lambda>i. i \<noteq> ?k) [0..<length ?ts])"
      unfolding mset_filter by (rule multiset_partition)
    moreover have "filter (\<lambda>i. i = ?k) [0..<length ?ts] = [?k]"
      using preferred_in [OF that] by (simp add: filter_eq_upt)
    ultimately show ?thesis by (simp add: other_tracks(1))
  qed
  have "position track_english ?ts = Some ?k \<or> position track_english ?ts = None \<and> ?k = 0"
    by (auto simp: preferred_audio_index_def split: option.split)
  then have first: "list_all (\<lambda>t. \<not> track_english t) (take ?k ?ts)"
      "list_ex track_english ?ts = (?k < length ?ts \<and> track_english (?ts ! ?k))"
    using position_Some [of track_english ?ts ?k] position_None [of track_english ?ts]
    by (auto simp: list_all_iff list_ex_iff)
  have ops: "list_all (\<lambda>(i, op). op = (if i < length ?ts then audio_op_for (?ts ! i) c else ACopy)) (other_audio_tracks M f c)"
    using other_tracks(2) [of M f c] by (auto simp: list_all_iff)
  have "other_audio_tracks M f c = []" if "?ts = []"
    using that by (simp add: other_audio_tracks_def)
  then show ?thesis
    using first others ops by (auto simp: mapped plan_audio_op)
qed

section \<open>The Dolby Vision re-encode and the client's height\<close>

text \<open>
  The one exception in the contract is real: a Dolby Vision file is scaled to 1080 lines whatever
  lower limit the client set.
\<close>

lemma dv_reencode_height:
  assumes "is_dolby_vision (mf_hdr f)" "mf_height f = Some 2160" "cc_max_height c = Some 720" "\<not> cc_dolby_vision c"
  shows "out_height f (plan_transcode_ops env M f c r) = Some 1080"
  using assms by (simp add: plan_transcode_ops_def plan_transcode_ops_with_def plan_subtitle_def plan_dolby_vision_def
      with_audio_def default_target_height_def dv_copyable_def)

end
