(* ===== verification/Args.thy ===== *)
theory Args
  imports Plan
begin

text \<open>
  \<open>crates/transcoder/src/args.rs\<close>: the ffmpeg command line of a plan.  \<open>ffmpeg_args_for\<close> is
  assembled from its sections (devices, input, mapping, video, audio, subtitles, muxer), each a
  definition.
\<close>

datatype hw_encoder = VideoToolbox | Nvenc | Vaapi | Qsv | Cpu

definition hw_parse :: "string \<Rightarrow> hw_encoder" where
  "hw_parse s =
     (let t = to_lower (rtrim s) in
      if t = ''videotoolbox'' \<or> t = ''vt'' then VideoToolbox
      else if t = ''nvenc'' then Nvenc
      else if t = ''vaapi'' then Vaapi
      else if t = ''qsv'' then Qsv
      else Cpu)"

definition force_cpu_from_env :: "(string \<Rightarrow> string option) \<Rightarrow> bool" where
  "force_cpu_from_env env =
     (case env ''TRANSCODER_FORCE_CPU'' of
        None \<Rightarrow> False | Some v \<Rightarrow> to_lower (rtrim v) \<in> {''1'', ''true'', ''yes'', ''on''})"

definition hw_from_env :: "(string \<Rightarrow> string option) \<Rightarrow> hw_encoder" where
  "hw_from_env env = (if force_cpu_from_env env then Cpu else hw_parse (opt_text (env ''TRANSCODER_HW_ENCODER'')))"

fun h264_encoder :: "hw_encoder \<Rightarrow> string" where
  "h264_encoder VideoToolbox = ''h264_videotoolbox''"
| "h264_encoder Nvenc = ''h264_nvenc''"
| "h264_encoder Vaapi = ''h264_vaapi''"
| "h264_encoder Qsv = ''h264_qsv''"
| "h264_encoder Cpu = ''libx264''"

definition is_cpu :: "hw_encoder \<Rightarrow> bool" where "is_cpu e \<longleftrightarrow> e = Cpu"

section \<open>Rates\<close>

definition u32_max :: nat where "u32_max = 2 ^ 32 - 1"

definition h264_bitrate_kbps :: "int option \<Rightarrow> nat option \<Rightarrow> nat" where
  "h264_bitrate_kbps height avg =
     (let h = (case height of Some h \<Rightarrow> h | None \<Rightarrow> 1080);
          ladder = (if h \<le> 480 then 2000 else if h \<le> 720 then 4000 else if h \<le> 1080 then 10000 else 14000)
      in case avg of
           Some src \<Rightarrow> if src > 0 then min ladder (max (min (src * 9) u32_max div 10) 1000) else ladder
         | None \<Rightarrow> ladder)"

definition h264_rate_control :: "int option \<Rightarrow> nat option \<Rightarrow> nat option \<Rightarrow> nat \<times> nat \<times> nat" where
  "h264_rate_control height avg client_max =
     (let br = h264_bitrate_kbps height avg in
      case client_max of
        None \<Rightarrow> (br, br + br div 2, br * 3)
      | Some cap \<Rightarrow>
          (let video_cap = max (cap - downmix_aac_kbps) 500;
               br = min br video_cap;
               maxrate = min (br + br div 2) video_cap
           in (br, maxrate, maxrate)))"

section \<open>One invocation\<close>

definition vaapi_render_node :: string where "vaapi_render_node = ''/dev/dri/renderD128''"

definition hls_segment_secs :: nat where "hls_segment_secs = 2"

definition alt_audio_ts_offset_secs :: nat where "alt_audio_ts_offset_secs = 30"

definition is_live_media_kind :: "string \<Rightarrow> bool" where
  "is_live_media_kind kind \<longleftrightarrow> to_lower (rtrim kind) \<in> {''live'', ''iptv'', ''channel''}"

record arg_spec =
  sp_plan :: transcode_plan
  sp_input :: string
  sp_session_dir :: string
  sp_start_secs :: nat
  sp_encoder :: hw_encoder
  sp_hw_decode :: bool
  sp_source_codec :: "string option"
  sp_media_kind :: string
  sp_start_number :: nat
  sp_source_avg :: "nat option"
  sp_client_max :: "nat option"

fun burnless_encode :: "video_op \<Rightarrow> bool" where
  "burnless_encode (VEncodeH264 _ _ None _) = True"
| "burnless_encode _ = False"

fun is_hdr_tonemap :: "video_op \<Rightarrow> bool" where
  "is_hdr_tonemap (VEncodeH264 _ True None _) = True"
| "is_hdr_tonemap _ = False"

fun is_encode_h264 :: "video_op \<Rightarrow> bool" where
  "is_encode_h264 (VEncodeH264 _ _ _ _) = True"
| "is_encode_h264 _ = False"

fun is_encode_dv :: "video_op \<Rightarrow> bool" where
  "is_encode_dv (VEncodeDolbyVision _ _) = True"
| "is_encode_dv _ = False"

definition vulkan_hwmap_safe :: "string option \<Rightarrow> bool" where
  "vulkan_hwmap_safe codec = (case codec of None \<Rightarrow> True
     | Some c \<Rightarrow> to_lower c \<in> {''hevc'', ''h265'', ''h264'', ''avc'', ''avc1''})"

definition cpu_vulkan_tonemap :: "arg_spec \<Rightarrow> video_op \<Rightarrow> bool" where
  "cpu_vulkan_tonemap sp v \<longleftrightarrow> sp_encoder sp = Vaapi \<and> is_hdr_tonemap v \<and> \<not> vulkan_hwmap_safe (sp_source_codec sp)"

definition full_hw :: "arg_spec \<Rightarrow> video_op \<Rightarrow> bool" where
  "full_hw sp v \<longleftrightarrow> (sp_hw_decode sp \<and> sp_encoder sp = Vaapi \<and> burnless_encode v) \<and> \<not> cpu_vulkan_tonemap sp v"

definition hw_surface_reencode :: "arg_spec \<Rightarrow> video_op \<Rightarrow> bool" where
  "hw_surface_reencode sp v \<longleftrightarrow> sp_encoder sp \<in> {Vaapi, Qsv} \<and> is_encode_h264 v"

definition device_args :: "arg_spec \<Rightarrow> video_op \<Rightarrow> string list" where
  "device_args sp v =
     (if cpu_vulkan_tonemap sp v
      then [''-init_hw_device'', ''vulkan=vk'', ''-init_hw_device'', ''vaapi=va:'' @ vaapi_render_node]
      else if full_hw sp v
      then (if full_hw sp v \<and> is_hdr_tonemap v then [''-init_hw_device'', ''vulkan=vk''] else [])
           @ [''-hwaccel'', ''vaapi'', ''-hwaccel_device'', vaapi_render_node, ''-hwaccel_output_format'', ''vaapi'']
      else if hw_surface_reencode sp v
      then (case sp_encoder sp of
              Vaapi \<Rightarrow> [''-vaapi_device'', vaapi_render_node]
            | Qsv \<Rightarrow> [''-init_hw_device'', ''qsv=hw'', ''-filter_hw_device'', ''hw'']
            | _ \<Rightarrow> [])
      else [])
     @ (if is_encode_dv v then [''-init_hw_device'', ''vulkan''] else [])"

definition input_args :: "arg_spec \<Rightarrow> string list" where
  "input_args sp =
     (if sp_start_secs sp > 0 then [''-ss'', dec_nat (sp_start_secs sp)] else [])
     @ (if is_live_media_kind (sp_media_kind sp) then [''-re''] else [])
     @ [''-fflags'', ''+genpts'', ''-protocol_whitelist'', ''file'', ''-i'', sp_input sp]"

definition map_args :: "nat \<Rightarrow> (nat \<times> audio_op) list \<Rightarrow> string list" where
  "map_args i extra =
     [''-map'', ''0:v:0'', ''-map'', ''0:a:'' @ dec_nat i @ ''?'']
     @ concat (map (\<lambda>(idx, _). [''-map'', ''0:a:'' @ dec_nat idx @ ''?'']) extra)"

definition replace_char :: "char \<Rightarrow> string \<Rightarrow> string \<Rightarrow> string" where
  "replace_char c by s = concat (map (\<lambda>x. if x = c then by else [x]) s)"

definition escape_filter_path :: "string \<Rightarrow> string" where
  "escape_filter_path p =
     replace_char (CHR 39) [CHR 39, CHR 92, CHR 39, CHR 39]
       (replace_char (CHR '':'') [CHR 92, CHR '':'']
          (replace_char (CHR 92) [CHR 92, CHR 92] p))"

definition build_video_filter :: "int option \<Rightarrow> bool \<Rightarrow> int option \<Rightarrow> string \<Rightarrow> string option" where
  "build_video_filter scale tone burn input =
     (let parts =
        (if tone then [''zscale=t=linear:npl=100,tonemap=hable,zscale=t=bt709:m=bt709:r=tv,format=yuv420p''] else [])
        @ (case scale of None \<Rightarrow> [] | Some h \<Rightarrow> [''scale=-2:'' @ dec_int h])
        @ (case burn of None \<Rightarrow> []
           | Some si \<Rightarrow> [''subtitles='' @ [CHR 39] @ escape_filter_path input @ [CHR 39] @ '':si='' @ dec_int si])
      in if parts = [] then None else Some (join_with '','' parts))"

definition placebo :: string where
  "placebo = ''libplacebo=tonemapping=bt.2390:colorspace=bt709:color_primaries=bt709:color_trc=bt709:range=tv:format=nv12''"

definition build_cpu_vulkan_tonemap_filter :: "int option \<Rightarrow> string" where
  "build_cpu_vulkan_tonemap_filter scale =
     (case scale of
        Some h \<Rightarrow> ''format=p010,hwupload=derive_device=vulkan,'' @ placebo @ '':w=-2:h='' @ dec_int h @ '',hwmap=derive_device=vaapi''
      | None \<Rightarrow> ''format=p010,hwupload=derive_device=vulkan,'' @ placebo @ '',hwmap=derive_device=vaapi'')"

definition build_vaapi_hw_filter :: "int option \<Rightarrow> bool \<Rightarrow> string" where
  "build_vaapi_hw_filter scale tone =
     (if tone then
        (case scale of
           Some h \<Rightarrow> ''hwmap=derive_device=vulkan,'' @ placebo @ '':w=-2:h='' @ dec_int h @ '',hwmap=derive_device=vaapi''
         | None \<Rightarrow> ''hwmap=derive_device=vulkan,'' @ placebo @ '',hwmap=derive_device=vaapi'')
      else
        (case scale of
           Some h \<Rightarrow> ''scale_vaapi=w=-2:h='' @ dec_int h @ '':format=nv12''
         | None \<Rightarrow> ''scale_vaapi=format=nv12''))"

definition rate_args :: "arg_spec \<Rightarrow> int option \<Rightarrow> int option \<Rightarrow> string list" where
  "rate_args sp scale src =
     (let (br, maxrate, bufsize) =
        h264_rate_control (case scale of Some h \<Rightarrow> Some h | None \<Rightarrow> src) (sp_source_avg sp) (sp_client_max sp)
      in [''-b:v'', dec_nat br @ ''k'', ''-maxrate'', dec_nat maxrate @ ''k'', ''-bufsize'', dec_nat bufsize @ ''k'',
          ''-force_key_frames'', ''expr:gte(t,n_forced*'' @ dec_nat hls_segment_secs @ '')''])"

definition h264_speed_args :: "arg_spec \<Rightarrow> string list" where
  "h264_speed_args sp =
     (if sp_encoder sp = Vaapi
      then [''-low_power'', ''1'', ''-rc_mode'', ''QVBR'', ''-global_quality'', ''23'', ''-profile:v'', ''high'',
            ''-compression_level'', ''2'', ''-bf'', ''2'']
      else [''-preset'',
            (if is_cpu (sp_encoder sp) \<and> \<not> is_live_media_kind (sp_media_kind sp) then ''fast''
             else if is_cpu (sp_encoder sp) then ''veryfast''
             else ''fast'')])"

definition upload_link :: "hw_encoder \<Rightarrow> string option \<Rightarrow> string option" where
  "upload_link e vf =
     (case e of
        Vaapi \<Rightarrow> Some ''format=nv12,hwupload''
      | Qsv \<Rightarrow> Some ''format=nv12,hwupload=extra_hw_frames=64''
      | _ \<Rightarrow> (if (case vf of None \<Rightarrow> False | Some x \<Rightarrow> ends_with ''format=yuv420p'' x) then None
             else Some ''format=yuv420p''))"

definition video_filter :: "arg_spec \<Rightarrow> video_op \<Rightarrow> int option \<Rightarrow> bool \<Rightarrow> int option \<Rightarrow> string option" where
  "video_filter sp v scale tone burn =
     (let vf = (if cpu_vulkan_tonemap sp v then Some (build_cpu_vulkan_tonemap_filter scale)
                else if full_hw sp v then Some (build_vaapi_hw_filter scale tone)
                else build_video_filter scale tone burn (sp_input sp))
      in if \<not> full_hw sp v \<and> \<not> cpu_vulkan_tonemap sp v
         then (case upload_link (sp_encoder sp) vf of
                 None \<Rightarrow> vf
               | Some up \<Rightarrow> Some (case vf of Some x \<Rightarrow> x @ '','' @ up | None \<Rightarrow> up))
         else vf)"

definition dv_filter :: "int option \<Rightarrow> string" where
  "dv_filter scale =
     ''format=p010le,hwupload,libplacebo=apply_dolbyvision=true:colorspace=bt709:color_primaries=bt709:color_trc=bt709:range=tv:format=yuv420p,hwdownload,format=yuv420p''
     @ (case scale of None \<Rightarrow> [] | Some h \<Rightarrow> '',scale=-2:'' @ dec_int h)"

fun video_args :: "arg_spec \<Rightarrow> bool \<Rightarrow> video_op \<Rightarrow> string list" where
  "video_args sp fmp4 VCopy = [''-c:v'', ''copy''] @ (if fmp4 then [''-tag:v'', ''hvc1''] else [])"
| "video_args sp fmp4 (VCopyDolbyVision n) =
     [''-c:v'', ''copy'', ''-tag:v'', (if n = 5 then ''dvh1'' else ''hvc1''), ''-strict'', ''unofficial'']"
| "video_args sp fmp4 (VEncodeH264 scale tone burn src) =
     [''-c:v'', h264_encoder (sp_encoder sp)] @ h264_speed_args sp @ rate_args sp scale src
     @ (case video_filter sp (VEncodeH264 scale tone burn src) scale tone burn of None \<Rightarrow> [] | Some f \<Rightarrow> [''-vf'', f])"
| "video_args sp fmp4 (VEncodeDolbyVision scale src) =
     [''-c:v'', ''libx264'', ''-preset'', (if is_live_media_kind (sp_media_kind sp) then ''veryfast'' else ''fast'')]
     @ rate_args sp scale src @ [''-vf'', dv_filter scale]"

fun track_args :: "nat \<Rightarrow> audio_op \<Rightarrow> string list" where
  "track_args i ACopy = [''-c:a:'' @ dec_nat i, ''copy'']"
| "track_args i (AEncodeAac k) =
     [''-c:a:'' @ dec_nat i, ''aac'', ''-ac:a:'' @ dec_nat i, ''2'', ''-b:a:'' @ dec_nat i, dec_nat k @ ''k'']"

definition audio_args :: "audio_op \<Rightarrow> (nat \<times> audio_op) list \<Rightarrow> string list" where
  "audio_args audio extra =
     (if extra = [] then
        (case audio of
           ACopy \<Rightarrow> [''-c:a'', ''copy'']
         | AEncodeAac k \<Rightarrow> [''-c:a'', ''aac'', ''-ac'', ''2'', ''-b:a'', dec_nat k @ ''k''])
      else concat (map (\<lambda>(i, op). track_args i op) (enumerate 0 (audio # map snd extra))))"

definition subtitle_args :: "subtitle_op \<Rightarrow> string list" where
  "subtitle_args s = (case s of SExtractWebVtt i \<Rightarrow> [''-map'', ''0:'' @ dec_int i, ''-c:s'', ''webvtt''] | SNone \<Rightarrow> [])"

definition muxer_args :: "arg_spec \<Rightarrow> bool \<Rightarrow> string list" where
  "muxer_args sp fmp4 =
     [''-f'', ''hls'', ''-hls_time'', dec_nat hls_segment_secs]
     @ (if is_live_media_kind (sp_media_kind sp)
        then [''-hls_list_size'', ''8'', ''-hls_flags'', ''delete_segments+append_list+omit_endlist'']
        else [''-hls_list_size'', ''0'', ''-hls_flags'', ''append_list'', ''-hls_playlist_type'', ''event''])
     @ (if sp_start_number sp > 0 then [''-start_number'', dec_nat (sp_start_number sp)] else [])
     @ (if fmp4 then [''-hls_segment_type'', ''fmp4'', ''-hls_fmp4_init_filename'', ''init.mp4''] else [])
     @ [''-hls_segment_filename'', sp_session_dir sp @ ''/seg_%05d.'' @ (if fmp4 then ''m4s'' else ''ts''),
        sp_session_dir sp @ ''/index.m3u8'']"

definition ffmpeg_args_for :: "arg_spec \<Rightarrow> string list" where
  "ffmpeg_args_for sp =
     (case sp_plan sp of
        DirectPlay _ \<Rightarrow> []
      | Transcode v audio sub fmt i extra alt _ \<Rightarrow>
          [''-hide_banner'', ''-loglevel'', ''warning'', ''-nostdin'']
          @ device_args sp v @ input_args sp @ map_args i extra
          @ video_args sp (fmt = Fmp4) v @ audio_args audio extra @ subtitle_args sub
          @ (if alt \<noteq> [] then [''-output_ts_offset'', dec_nat alt_audio_ts_offset_secs] else [])
          @ muxer_args sp (fmt = Fmp4))"

definition ffmpeg_args_hw :: "transcode_plan \<Rightarrow> string \<Rightarrow> string \<Rightarrow> nat \<Rightarrow> hw_encoder \<Rightarrow> bool \<Rightarrow> string list" where
  "ffmpeg_args_hw plan input dir start enc hw =
     ffmpeg_args_for \<lparr>sp_plan = plan, sp_input = input, sp_session_dir = dir, sp_start_secs = start, sp_encoder = enc,
       sp_hw_decode = hw, sp_source_codec = None, sp_media_kind = ''movie'', sp_start_number = 0, sp_source_avg = None,
       sp_client_max = None\<rparr>"

definition ffmpeg_args :: "transcode_plan \<Rightarrow> string \<Rightarrow> string \<Rightarrow> nat \<Rightarrow> hw_encoder \<Rightarrow> string list" where
  "ffmpeg_args plan input dir start enc = ffmpeg_args_hw plan input dir start enc False"

definition sidecar_vtt_args :: "string \<Rightarrow> int \<Rightarrow> string \<Rightarrow> string list" where
  "sidecar_vtt_args input i out =
     [''-hide_banner'', ''-loglevel'', ''warning'', ''-nostdin'', ''-i'', input, ''-map'', ''0:'' @ dec_int i,
      ''-c:s'', ''webvtt'', ''-f'', ''webvtt'', ''-y'', out]"

section \<open>Endings of texts\<close>

lemma ends_with_append [simp]: "ends_with p (s @ p)"
  by (simp add: ends_with_def)

section \<open>The picture an H.264 encode ends in\<close>

definition opens_vaapi :: "string list \<Rightarrow> bool" where
  "opens_vaapi a \<longleftrightarrow> ''-vaapi_device'' \<in> set a \<or> (''vaapi=va:'' @ vaapi_render_node) \<in> set a \<or> ''-hwaccel_output_format'' \<in> set a"

text \<open>
  The encoder takes what the graph ends in: an NV12 surface of an opened VAAPI or QSV device for
  the iGPU encoders, 8-bit 4:2:0 frames for the others.
\<close>

definition encoder_fed :: "arg_spec \<Rightarrow> video_op \<Rightarrow> string option \<Rightarrow> bool" where
  "encoder_fed sp v g =
     (case g of None \<Rightarrow> False
      | Some g \<Rightarrow>
         (case sp_encoder sp of
            Vaapi \<Rightarrow> opens_vaapi (device_args sp v)
              \<and> (ends_with ''format=nv12,hwupload'' g \<or> ends_with ''format=nv12'' g
                 \<or> str_contains g ''format=nv12'' \<and> ends_with '',hwmap=derive_device=vaapi'' g)
          | Qsv \<Rightarrow> ''qsv=hw'' \<in> set (device_args sp v) \<and> ends_with ''format=nv12,hwupload=extra_hw_frames=64'' g
          | _ \<Rightarrow> ends_with ''format=yuv420p'' g))"

lemma str_contains_iff: "str_contains s p \<longleftrightarrow> (\<exists>a b. s = a @ p @ b)"
proof (induction s)
  case (Cons c s)
  show ?case
  proof
    assume "str_contains (c # s) p"
    then consider "starts_with p (c # s)" | a b where "s = a @ p @ b" using Cons by auto
    then show "\<exists>a b. c # s = a @ p @ b"
    proof cases
      case 1
      then obtain r where "c # s = p @ r" by (rule starts_withE)
      then show ?thesis by (intro exI [of _ "[]"] exI [of _ r]) simp
    next
      case 2
      then show ?thesis by (intro exI [of _ "c # a"] exI [of _ b]) simp
    qed
  next
    assume "\<exists>a b. c # s = a @ p @ b"
    then obtain a b where ab: "c # s = a @ p @ b" by blast
    show "str_contains (c # s) p"
    proof (cases a)
      case Nil
      then have "starts_with p (c # s)" using ab by (auto simp: starts_with_iff)
      then show ?thesis by simp
    next
      case (Cons x a')
      then show ?thesis using ab \<open>str_contains s p \<longleftrightarrow> _\<close> by auto
    qed
  qed
qed auto

lemma placebo_nv12: "ends_with ''format=nv12'' placebo"
  by (simp add: ends_with_def placebo_def)

lemma contains_append: "str_contains a p \<Longrightarrow> str_contains (x @ a @ y) p"
  unfolding str_contains_iff by (metis append.assoc)

lemma placebo_contains: "str_contains (x @ placebo @ y) ''format=nv12''"
proof (rule contains_append)
  obtain z where "placebo = z @ ''format=nv12''"
    using placebo_nv12 by (metis append_take_drop_id ends_with_def)
  then show "str_contains placebo ''format=nv12''" unfolding str_contains_iff by (metis append_Nil2)
qed

lemma vulkan_graph_ok:
  "str_contains (build_cpu_vulkan_tonemap_filter scale) ''format=nv12''
   \<and> ends_with '',hwmap=derive_device=vaapi'' (build_cpu_vulkan_tonemap_filter scale)"
proof (cases scale)
  case None
  then show ?thesis
    using placebo_contains [of "''format=p010,hwupload=derive_device=vulkan,''" "'',hwmap=derive_device=vaapi''"]
      ends_with_append [of "'',hwmap=derive_device=vaapi''" "''format=p010,hwupload=derive_device=vulkan,'' @ placebo"]
    by (simp only: build_cpu_vulkan_tonemap_filter_def option.case append_assoc)
next
  case (Some h)
  then show ?thesis
    using placebo_contains [of "''format=p010,hwupload=derive_device=vulkan,''" "'':w=-2:h='' @ dec_int h @ '',hwmap=derive_device=vaapi''"]
      ends_with_append [of "'',hwmap=derive_device=vaapi''" "''format=p010,hwupload=derive_device=vulkan,'' @ placebo @ '':w=-2:h='' @ dec_int h"]
    by (simp only: build_cpu_vulkan_tonemap_filter_def option.case append_assoc)
qed

lemma vaapi_graph_ok:
  "ends_with ''format=nv12'' (build_vaapi_hw_filter scale tone)
   \<or> str_contains (build_vaapi_hw_filter scale tone) ''format=nv12''
     \<and> ends_with '',hwmap=derive_device=vaapi'' (build_vaapi_hw_filter scale tone)"
proof (cases tone; cases scale)
  assume t: tone and s: "scale = None"
  then show ?thesis
    using placebo_contains [of "''hwmap=derive_device=vulkan,''" "'',hwmap=derive_device=vaapi''"]
      ends_with_append [of "'',hwmap=derive_device=vaapi''" "''hwmap=derive_device=vulkan,'' @ placebo"]
    by (simp only: build_vaapi_hw_filter_def option.case append_assoc if_True simp_thms)
next
  fix h assume t: tone and s: "scale = Some h"
  then show ?thesis
    using placebo_contains [of "''hwmap=derive_device=vulkan,''" "'':w=-2:h='' @ dec_int h @ '',hwmap=derive_device=vaapi''"]
      ends_with_append [of "'',hwmap=derive_device=vaapi''" "''hwmap=derive_device=vulkan,'' @ placebo @ '':w=-2:h='' @ dec_int h"]
    by (simp only: build_vaapi_hw_filter_def option.case append_assoc if_True simp_thms)
next
  assume "\<not> tone" "scale = None"
  then show ?thesis
    using ends_with_append [of "''format=nv12''" "''scale_vaapi=''"] by (simp add: build_vaapi_hw_filter_def)
next
  fix h assume "\<not> tone" "scale = Some h"
  then show ?thesis
    using ends_with_append [of "''format=nv12''" "''scale_vaapi=w=-2:h='' @ dec_int h @ '':''"]
    by (simp add: build_vaapi_hw_filter_def)
qed

lemma upload_end:
  "e \<noteq> Vaapi \<Longrightarrow> e \<noteq> Qsv \<Longrightarrow> upload_link e vf = None \<Longrightarrow> \<exists>x. vf = Some x \<and> ends_with ''format=yuv420p'' x"
  by (cases e; cases vf) (auto simp: upload_link_def split: if_splits)

lemma software_graph:
  assumes "\<not> full_hw sp v" "\<not> cpu_vulkan_tonemap sp v"
  obtains (link) x up where "upload_link (sp_encoder sp) (build_video_filter scale tone burn (sp_input sp)) = Some up"
      "video_filter sp v scale tone burn = Some (x @ up)"
  | (none) "upload_link (sp_encoder sp) (build_video_filter scale tone burn (sp_input sp)) = None"
      "video_filter sp v scale tone burn = build_video_filter scale tone burn (sp_input sp)"
proof (cases "upload_link (sp_encoder sp) (build_video_filter scale tone burn (sp_input sp))")
  case None
  then show thesis using none assms by (simp add: video_filter_def Let_def)
next
  case (Some up)
  show thesis
  proof (cases "build_video_filter scale tone burn (sp_input sp)")
    case None
    then show thesis using link [of up "[]"] Some assms by (simp add: video_filter_def Let_def)
  next
    case (Some x)
    then show thesis
      using link [of up "x @ '',''"] \<open>upload_link _ _ = Some up\<close> assms by (simp add: video_filter_def Let_def)
  qed
qed


text \<open>
  The rates of a re-encode are ordered, positive and far from the width of \<open>u32\<close>, and a client
  cap of at least 756 kbit/s bounds the peak with the largest audio track on top (a lower cap is
  raised to 500 for the video).
\<close>

theorem rate_envelope:
  "case h264_rate_control height avg client_max of (br, maxrate, bufsize) \<Rightarrow>
     500 \<le> br \<and> br \<le> maxrate \<and> maxrate \<le> bufsize \<and> bufsize \<le> 42000
     \<and> (case client_max of None \<Rightarrow> True | Some cap \<Rightarrow> maxrate + downmix_aac_kbps \<le> max cap 756 \<and> bufsize = maxrate)"
proof -
  have "1000 \<le> h264_bitrate_kbps height avg" "h264_bitrate_kbps height avg \<le> 14000"
    by (auto simp: h264_bitrate_kbps_def Let_def split: option.split)
  note br = this
  show ?thesis
  proof (cases client_max)
    case None
    then show ?thesis using br by (simp add: h264_rate_control_def Let_def)
  next
    case (Some cap)
    define vc where "vc = max (cap - downmix_aac_kbps) 500"
    define m where "m = min (h264_bitrate_kbps height avg) vc"
    define mx where "mx = min (m + m div 2) vc"
    have "500 \<le> vc" "vc + downmix_aac_kbps \<le> max cap 756"
      by (simp_all add: vc_def downmix_aac_kbps_def max_def)
    moreover have "500 \<le> m" "m \<le> 14000" "m \<le> vc" using br calculation(1) by (simp_all add: m_def)
    moreover have "m \<le> mx" "mx \<le> vc" "mx \<le> m + m div 2" using calculation(5) by (simp_all add: mx_def)
    moreover have "h264_rate_control height avg client_max = (m, mx, mx)"
      by (simp add: Some h264_rate_control_def Let_def m_def mx_def vc_def)
    ultimately show ?thesis by (simp add: Some)
  qed
qed

section \<open>One input, one operand\<close>

lemma args_split:
  assumes "p = with_audio M f c SNone v fmt r" "case v of VEncodeH264 _ _ b _ \<Rightarrow> b = None | _ \<Rightarrow> True"
  shows "\<exists>pre post. \<forall>x. ffmpeg_args_for (sp\<lparr>sp_plan := p, sp_input := x\<rparr>)
     = pre @ [''-protocol_whitelist'', ''file'', ''-i'', x] @ post"
proof -
  let ?sp = "\<lambda>x. sp\<lparr>sp_plan := p, sp_input := x\<rparr>"
  have same: "device_args (?sp x) v = device_args (?sp []) v" "video_args (?sp x) b v = video_args (?sp []) b v"
    "muxer_args (?sp x) b = muxer_args (?sp []) b" for x b
    using assms(2)
    by (auto simp: device_args_def cpu_vulkan_tonemap_def full_hw_def hw_surface_reencode_def muxer_args_def
        h264_speed_args_def rate_args_def video_filter_def build_video_filter_def split: video_op.splits)
  define pre where "pre = [''-hide_banner'', ''-loglevel'', ''warning'', ''-nostdin''] @ device_args (?sp []) v
     @ (if sp_start_secs sp > 0 then [''-ss'', dec_nat (sp_start_secs sp)] else [])
     @ (if is_live_media_kind (sp_media_kind sp) then [''-re''] else []) @ [''-fflags'', ''+genpts'']"
  define post where "post = map_args (preferred_audio_index M f) (plan_extra_audio M f c)
          @ video_args (?sp []) (fmt = Fmp4) v @ audio_args (plan_audio M f c) (plan_extra_audio M f c) @ subtitle_args SNone
          @ (if plan_alt_audio M f c \<noteq> [] then [''-output_ts_offset'', dec_nat alt_audio_ts_offset_secs] else [])
          @ muxer_args (?sp []) (fmt = Fmp4)"
  have "ffmpeg_args_for (?sp x) = pre @ [''-protocol_whitelist'', ''file'', ''-i'', x] @ post" for x
    using assms(1) same [of x] by (simp add: ffmpeg_args_for_def with_audio_def input_args_def pre_def post_def)
  then show ?thesis by blast
qed

text \<open>
  C19. In the command line of a planned session the source path is exactly one operand, right after
  a protocol whitelist that admits files only; the rest of the command line does not depend on it,
  so no path can add, change or remove an option.
\<close>

theorem input_is_one_operand:
  "\<exists>pre post. \<forall>x. ffmpeg_args_for (sp\<lparr>sp_plan := plan_transcode_ops env M f c r, sp_input := x\<rparr>)
     = pre @ [''-protocol_whitelist'', ''file'', ''-i'', x] @ post"
proof -
  obtain v fmt r' where "plan_transcode_ops env M f c r = with_audio M f c SNone v fmt r'"
      "case v of VEncodeH264 _ _ b _ \<Rightarrow> b = None | _ \<Rightarrow> True"
  proof (cases "is_dolby_vision (mf_hdr f)")
    case True
    then show ?thesis using that
      by (cases rule: dolby_vision_cases [where M = M and c = c and r = r and dv = "dv_passthrough_enabled env"])
        (auto simp: plan_transcode_ops_def)
  next
    case False
    then show ?thesis using that
      by (cases rule: plan_video_cases [of f c "over_bitrate_cap f c \<noteq> None"])
        (auto simp: plan_transcode_ops_def plan_transcode_ops_with_def plan_subtitle_def Let_def)
  qed
  then show ?thesis by (rule args_split)
qed

end
