(* ===== verification/Vod_Manifest.thy ===== *)
theory Vod_Manifest
  imports Args Float64
begin

text \<open>
  The playlists a transcode session is served through: \<open>crates/transcoder/src/vod_manifest.rs\<close> (the
  complete VOD playlist of a re-encode and of a copy-remux), \<open>subs_manifest.rs\<close>, \<open>trickplay.rs\<close> (master
  playlists and the one-shot passes) and the keyframe list of \<open>keyframes.rs\<close>.  \<open>f64\<close> values are
  \<open>Float64\<close>'s; a capacity hint (\<open>with_capacity\<close>) has no counterpart.
\<close>

section \<open>Printing numbers\<close>

text \<open>\<open>{x:.6}\<close>: the exact value rounded to six places, ties to even.\<close>

definition zero_pad :: "nat \<Rightarrow> nat \<Rightarrow> string" where
  "zero_pad k n = replicate (k - length (dec_nat n)) (CHR ''0'') @ dec_nat n"

definition fixed6 :: "f64 \<Rightarrow> string" where
  "fixed6 x =
     (case x of
        FNan \<Rightarrow> ''NaN''
      | FInf p \<Rightarrow> if p then ''inf'' else ''-inf''
      | Fin r \<Rightarrow>
          (let n = nat (half_even (\<bar>r\<bar> * 10 ^ 6)) in
           (if r < 0 then ''-'' else []) @ dec_nat (n div 10 ^ 6) @ ''.'' @ zero_pad 6 (n mod 10 ^ 6)))"

definition line_of :: "string \<Rightarrow> string" where "line_of s = s @ [nl]"

definition quoted :: "string \<Rightarrow> string" where "quoted s = [CHR 34] @ s @ [CHR 34]"

section \<open>Segment names\<close>

definition seg_name :: "nat \<Rightarrow> string \<Rightarrow> string" where
  "seg_name i ext = ''seg_'' @ zero_pad 5 i @ ''.'' @ ext"

definition strip_suffix :: "string \<Rightarrow> string \<Rightarrow> string option" where
  "strip_suffix p s = (if ends_with p s then Some (take (length s - length p) s) else None)"

definition segment_index :: "string \<Rightarrow> nat option" where
  "segment_index name =
     Option.bind (strip_prefix ''seg_'' name) (\<lambda>stem.
     Option.bind (case strip_suffix ''.ts'' stem of Some s \<Rightarrow> Some s | None \<Rightarrow> strip_suffix ''.m4s'' stem)
       (parse_unsigned (2 ^ 64)))"

section \<open>The playlist of a re-encode\<close>

abbreviation seg_secs :: f64 where "seg_secs \<equiv> f_of_int (int hls_segment_secs)"

definition positive_finite :: "f64 \<Rightarrow> bool" where
  "positive_finite x \<longleftrightarrow> is_finite x \<and> \<not> fle x (Fin 0)"

definition segment_lines :: "string \<Rightarrow> nat \<Rightarrow> f64 \<Rightarrow> string" where
  "segment_lines ext i dur = line_of (''#EXTINF:'' @ fixed6 dur @ '','') @ line_of (seg_name i ext)"

definition playlist_head :: "nat \<Rightarrow> nat \<Rightarrow> f64 option \<Rightarrow> bool \<Rightarrow> string" where
  "playlist_head version target off fmp4 =
     line_of ''#EXTM3U'' @ line_of (''#EXT-X-VERSION:'' @ dec_nat version)
     @ line_of (''#EXT-X-TARGETDURATION:'' @ dec_nat target)
     @ line_of ''#EXT-X-MEDIA-SEQUENCE:0'' @ line_of ''#EXT-X-PLAYLIST-TYPE:VOD''
     @ (case off of None \<Rightarrow> [] | Some x \<Rightarrow> line_of (''#EXT-X-START:TIME-OFFSET='' @ fixed6 x))
     @ (if fmp4 then line_of (''#EXT-X-MAP:URI='' @ quoted ''init.mp4'') else [])"

definition seg_ext :: "bool \<Rightarrow> string" where "seg_ext fmp4 = (if fmp4 then ''m4s'' else ''ts'')"

definition hls_version :: "bool \<Rightarrow> nat" where "hls_version fmp4 = (if fmp4 then 7 else 3)"

definition uniform_dur :: "f64 \<Rightarrow> f64 \<Rightarrow> nat \<Rightarrow> nat \<Rightarrow> f64" where
  "uniform_dur seg total_secs cnt i =
     (if i + 1 = cnt then fsub total_secs (fmul seg (f_of_int (int (cnt - 1)))) else seg)"

definition synthesize :: "f64 \<Rightarrow> nat \<Rightarrow> bool \<Rightarrow> string option" where
  "synthesize total_secs start fmp4 =
     (if \<not> is_finite total_secs \<or> fle total_secs (Fin 0) then None
      else let cnt = f_to_u64 (fceil (fdiv total_secs seg_secs)) in
        if cnt = 0 then None
        else Some (playlist_head (hls_version fmp4) hls_segment_secs
                 (if start > 0 then Some (fmin (f_of_int (int start)) (fmax (fsub total_secs (rnd (1 / 1000))) (Fin 0)))
                  else None) fmp4
               @ concat (map (\<lambda>i. segment_lines (seg_ext fmp4) i (uniform_dur seg_secs total_secs cnt i)) [0..<cnt])
               @ line_of ''#EXT-X-ENDLIST''))"

section \<open>Discontinuities\<close>

definition mark_line :: "nat list \<Rightarrow> string list \<times> string option \<Rightarrow> string \<Rightarrow> string list \<times> string option" where
  "mark_line junctions st l =
     (case st of (out, pending) \<Rightarrow>
        if starts_with ''#EXTINF:'' l then (out, Some l)
        else
          (case pending of
             None \<Rightarrow> (out @ [l], None)
           | Some e \<Rightarrow>
               (out @ (case segment_index l of None \<Rightarrow> [] | Some i \<Rightarrow> if i \<in> set junctions then [''#EXT-X-DISCONTINUITY''] else [])
                @ [e, l], None)))"

definition mark_discontinuities :: "string \<Rightarrow> nat list \<Rightarrow> string" where
  "mark_discontinuities manifest junctions =
     (if junctions = [] then manifest
      else concat (map line_of (fst (foldl (mark_line junctions) ([], None) (str_lines manifest)))))"

section \<open>The cuts of a copy-remux\<close>

fun cut_from :: "f64 \<Rightarrow> f64 \<Rightarrow> f64 \<Rightarrow> f64 \<Rightarrow> f64 list \<Rightarrow> f64 list" where
  "cut_from base total_abs hls bound [] = []"
| "cut_from base total_abs hls bound (p # ps) =
     (if fle p base then cut_from base total_abs hls bound ps
      else if fle total_abs p then []
      else if fle bound p then p # cut_from base total_abs hls (fadd bound hls) ps
      else cut_from base total_abs hls bound ps)"

definition copy_cut_points :: "f64 list \<Rightarrow> f64 \<Rightarrow> f64 \<Rightarrow> f64 \<Rightarrow> f64 list" where
  "copy_cut_points keyframes base total_abs hls = cut_from base total_abs hls (fadd base hls) keyframes"

fun last_cut :: "f64 \<Rightarrow> nat \<Rightarrow> f64 list \<Rightarrow> nat \<times> f64 \<Rightarrow> nat \<times> f64" where
  "last_cut start offset [] best = best"
| "last_cut start offset (c # cs) best =
     (if fle c start then last_cut start (offset + 1) cs (offset + 1, c) else best)"

definition copy_resume_base :: "f64 list \<Rightarrow> f64 \<Rightarrow> nat \<Rightarrow> nat \<times> f64" where
  "copy_resume_base keyframes total_secs start =
     last_cut (f_of_int (int start)) 0 (copy_cut_points keyframes (Fin 0) total_secs seg_secs) (0, Fin 0)"

definition copy_segment_start :: "f64 list \<Rightarrow> f64 \<Rightarrow> nat \<Rightarrow> f64 option" where
  "copy_segment_start keyframes total_secs index =
     (if index = 0 then Some (Fin 0)
      else let cuts = copy_cut_points keyframes (Fin 0) total_secs seg_secs in
        if index - 1 < length cuts then Some (cuts ! (index - 1)) else None)"

fun gaps :: "f64 \<Rightarrow> f64 list \<Rightarrow> f64 list" where
  "gaps prev [] = []"
| "gaps prev (c # cs) = fsub c prev # gaps c cs"

definition copy_durations :: "f64 list \<Rightarrow> f64 \<Rightarrow> nat \<Rightarrow> f64 \<Rightarrow> f64 list" where
  "copy_durations keyframes total_secs start_idx base =
     (let full_cuts = copy_cut_points keyframes (Fin 0) total_secs seg_secs;
          cuts = copy_cut_points keyframes base total_secs seg_secs;
          rest = fsub total_secs (if cuts = [] then base else last cuts)
      in gaps (Fin 0) (take start_idx full_cuts) @ gaps base cuts
         @ (if flt (rnd (1 / 1000)) rest then [rest] else []))"

definition target_duration :: "f64 list \<Rightarrow> nat" where
  "target_duration durs = f_to_u64 (fmax (fceil (foldl fmax (Fin 0) durs)) (Fin 1))"

definition synthesize_copy :: "f64 list \<Rightarrow> f64 \<Rightarrow> nat \<Rightarrow> bool \<Rightarrow> string option" where
  "synthesize_copy keyframes total_secs start fmp4 =
     (if \<not> is_finite total_secs \<or> fle total_secs (Fin 0) \<or> keyframes = [] then None
      else let (start_idx, base) = copy_resume_base keyframes total_secs start in
        if fle (fsub total_secs base) (Fin 0) then None
        else let durs = copy_durations keyframes total_secs start_idx base in
          if durs = [] then None
          else Some (playlist_head (hls_version fmp4) (target_duration durs)
                   (if start_idx > 0 then Some base else None) fmp4
                 @ concat (map (\<lambda>(i, d). segment_lines (seg_ext fmp4) i d) (enumerate 0 durs))
                 @ line_of ''#EXT-X-ENDLIST''))"

section \<open>Keyframes\<close>

text \<open>
  \<open>str::parse::<f64>\<close> of a decimal without exponent, infinity or NaN spelling (what ffprobe prints
  for a time): an optional sign and digits with at most one point, correctly rounded.
\<close>

definition frac_val :: "string \<Rightarrow> rat" where
  "frac_val d = of_nat (dec_val d) / 10 ^ length d"

definition parse_decimal :: "string \<Rightarrow> f64 option" where
  "parse_decimal s =
     (let (neg, d) = (case s of c # r \<Rightarrow> if c = CHR ''-'' then (True, r) else if c = CHR ''+'' then (False, r) else (False, s)
            | [] \<Rightarrow> (False, s));
          (a, b) = (case split_once (CHR ''.'') d of None \<Rightarrow> (d, []) | Some p \<Rightarrow> p)
      in if list_all is_digit a \<and> list_all is_digit b \<and> (a \<noteq> [] \<or> b \<noteq> [])
         then Some (rnd ((if neg then - 1 else 1) * (of_nat (dec_val a) + frac_val b))) else None)"

definition parse_keyframes :: "(string \<Rightarrow> f64 option) \<Rightarrow> string \<Rightarrow> f64 list" where
  "parse_keyframes parse csv =
     filter is_finite (List.map_filter (\<lambda>line.
       Option.bind (split_once (CHR '','') line) (\<lambda>(pts, flags).
         if starts_with ''K'' (dropWhile rust_space flags) then parse (rtrim pts) else None)) (str_lines csv))"

fun insert_f64 :: "f64 \<Rightarrow> f64 list \<Rightarrow> f64 list" where
  "insert_f64 x [] = [x]"
| "insert_f64 x (y # ys) = (if flt y x then y # insert_f64 x ys else x # y # ys)"

definition sort_f64 :: "f64 list \<Rightarrow> f64 list" where
  "sort_f64 xs = foldr insert_f64 xs []"

fun dedup_f64 :: "f64 list \<Rightarrow> f64 list" where
  "dedup_f64 (x # y # xs) = (if feq x y then dedup_f64 (x # xs) else x # dedup_f64 (y # xs))"
| "dedup_f64 xs = xs"

text \<open>What the probe caches for a file ffprobe read: its keyframe times, ascending.\<close>

definition probed_keyframes :: "(string \<Rightarrow> f64 option) \<Rightarrow> string \<Rightarrow> f64 list" where
  "probed_keyframes parse csv = dedup_f64 (sort_f64 (parse_keyframes parse csv))"

definition load_keyframes :: "f64 list option \<Rightarrow> f64 list option" where
  "load_keyframes cached = (case cached of None \<Rightarrow> None | Some kf \<Rightarrow> if kf = [] then None else Some kf)"

section \<open>Ascending keyframes\<close>

definition ascending :: "f64 list \<Rightarrow> bool" where
  "ascending kf \<longleftrightarrow> list_all is_finite kf \<and> sorted_wrt flt kf"

lemma is_finite_iff: "is_finite x \<longleftrightarrow> (\<exists>r. x = Fin r)"
  by (cases x) auto

lemma fle_Fin [simp]: "fle (Fin a) (Fin b) \<longleftrightarrow> a \<le> b"
  by (auto simp: fle_def)

lemma fle_Fin_E: "fle (Fin b) z \<Longrightarrow> is_finite z \<Longrightarrow> \<exists>c. z = Fin c \<and> b \<le> c"
  by (cases z) auto

lemma flt_Fin_E: "flt (Fin b) z \<Longrightarrow> is_finite z \<Longrightarrow> \<exists>c. z = Fin c \<and> b < c"
  by (cases z) auto

lemma fle_refl_fin: "is_finite x \<Longrightarrow> fle x x"
  by (cases x) auto

lemma ascending_Nil [simp]: "ascending []"
  by (simp add: ascending_def)

lemma ascending_Cons:
  "ascending (x # xs) \<longleftrightarrow> is_finite x \<and> (\<forall>y\<in>set xs. flt x y) \<and> ascending xs"
  by (auto simp: ascending_def)

lemma insert_f64_set: "set (insert_f64 x xs) = insert x (set xs)"
  by (induction xs) auto

lemma insert_f64_sorted:
  "is_finite x \<Longrightarrow> list_all is_finite xs \<Longrightarrow> sorted_wrt fle xs \<Longrightarrow> sorted_wrt fle (insert_f64 x xs)"
proof (induction xs)
  case (Cons y ys)
  obtain a b where ab: "x = Fin a" "y = Fin b" using Cons.prems by (auto simp: is_finite_iff)
  have ys: "\<exists>c. z = Fin c \<and> b \<le> c" if "z \<in> set ys" for z
    using Cons.prems that ab by (intro fle_Fin_E) (auto simp: list_all_iff)
  show ?case
  proof (cases "flt y x")
    case True
    then show ?thesis using Cons ab by (auto simp: insert_f64_set)
  next
    case False
    then show ?thesis using Cons.prems ab ys by force
  qed
qed simp

lemma sort_f64_sorted: "list_all is_finite xs \<Longrightarrow> sorted_wrt fle (sort_f64 xs) \<and> set (sort_f64 xs) = set xs"
proof (induction xs)
  case (Cons x xs)
  then have "list_all is_finite (sort_f64 xs)" by (simp add: list_all_iff)
  then show ?case using Cons insert_f64_sorted [of x "sort_f64 xs"] by (simp add: sort_f64_def insert_f64_set)
qed (simp add: sort_f64_def)

lemma dedup_f64_set: "set (dedup_f64 xs) \<subseteq> set xs"
  by (induction xs rule: dedup_f64.induct) (auto split: if_splits)

lemma dedup_f64_ascending: "list_all is_finite xs \<Longrightarrow> sorted_wrt fle xs \<Longrightarrow> ascending (dedup_f64 xs)"
proof (induction xs rule: dedup_f64.induct)
  case (1 x y xs)
  obtain a b where ab: "x = Fin a" "y = Fin b" using "1.prems" by (auto simp: is_finite_iff)
  show ?case
  proof (cases "feq x y")
    case True
    then show ?thesis using 1 by simp
  next
    case False
    have "flt x z" if "z \<in> set (dedup_f64 (y # xs))" for z
    proof -
      have "z \<in> set (y # xs)" using that dedup_f64_set by blast
      then have "fle (Fin b) z" "is_finite z" using "1.prems" ab by (auto simp: list_all_iff)
      then obtain c where "z = Fin c" "b \<le> c" using fle_Fin_E by blast
      moreover have "a < b" using "1.prems" ab False by auto
      ultimately show ?thesis using ab by simp
    qed
    moreover have "ascending (dedup_f64 (y # xs))" using 1 False by simp
    ultimately show ?thesis using "1.prems" False by (simp add: ascending_Cons)
  qed
qed (simp_all add: ascending_def)

lemma probed_ascending: "ascending (probed_keyframes parse csv)"
proof -
  have "list_all is_finite (parse_keyframes parse csv)" by (simp add: parse_keyframes_def list_all_iff)
  then have "sorted_wrt fle (sort_f64 (parse_keyframes parse csv))" "list_all is_finite (sort_f64 (parse_keyframes parse csv))"
    using sort_f64_sorted by (auto simp: list_all_iff)
  then show ?thesis unfolding probed_keyframes_def by (intro dedup_f64_ascending)
qed

section \<open>The cut grid\<close>

lemma cut_from_subset: "set (cut_from base tot hls bound kf) \<subseteq> set kf"
  by (induction kf arbitrary: bound) auto

lemma cut_from_ascending: "ascending kf \<Longrightarrow> ascending (cut_from base tot hls bound kf)"
proof (induction kf arbitrary: bound)
  case (Cons p ps)
  have "\<forall>y\<in>set (cut_from base tot hls b ps). flt p y" for b
    using Cons.prems cut_from_subset [of base tot hls b ps] by (auto simp: ascending_Cons)
  then show ?case using Cons by (simp add: ascending_Cons)
qed simp

lemma cut_from_after: "x \<in> set (cut_from base tot hls bound kf) \<Longrightarrow> \<not> fle x base \<and> \<not> fle tot x"
  by (induction kf arbitrary: bound) (auto split: if_splits)

lemma last_cut_take:
  "last_cut st k cs best = (let tw = takeWhile (\<lambda>c. fle c st) cs in if tw = [] then best else (k + length tw, last tw))"
  by (induction cs arbitrary: k best) (auto simp: Let_def)

lemma ascending_takeWhile: "ascending cs \<Longrightarrow> takeWhile (\<lambda>c. fle c (Fin s)) cs = filter (\<lambda>c. fle c (Fin s)) cs"
proof (induction cs)
  case (Cons c cs)
  have "filter (\<lambda>c. fle c (Fin s)) cs = []" if h: "\<not> fle c (Fin s)"
  proof -
    obtain r where r: "c = Fin r" "s < r" using h Cons.prems by (auto simp: ascending_Cons is_finite_iff)
    have "\<not> fle x (Fin s)" if x: "x \<in> set cs" for x
    proof -
      have "flt (Fin r) x" "is_finite x" using Cons.prems r x by (auto simp: ascending_def list_all_iff)
      then obtain q where "x = Fin q" "r < q" using flt_Fin_E by blast
      then show ?thesis using r by simp
    qed
    then show ?thesis using r by (simp add: filter_empty_conv)
  qed
  then show ?case using Cons by (simp add: ascending_Cons)
qed simp

lemma filter_prefix:
  assumes "ascending cs"
  shows "filter (\<lambda>c. fle c (Fin s)) cs = take (length (filter (\<lambda>c. fle c (Fin s)) cs)) cs"
  unfolding ascending_takeWhile [OF assms, symmetric] by (rule takeWhile_eq_take)

definition grid :: "f64 list \<Rightarrow> f64 \<Rightarrow> f64 list" where
  "grid kf tot = copy_cut_points kf (Fin 0) tot seg_secs"

lemma grid_ascending: "ascending kf \<Longrightarrow> ascending (grid kf tot)"
  by (simp add: grid_def copy_cut_points_def cut_from_ascending)

lemma resume_base_eq:
  assumes "ascending kf" "f_of_int (int start) = Fin s"
  shows "copy_resume_base kf tot start =
    (let tw = filter (\<lambda>c. fle c (Fin s)) (grid kf tot) in (length tw, last (Fin 0 # tw)))"
  using ascending_takeWhile [OF grid_ascending [OF assms(1)], of s tot] assms(2)
  by (auto simp: copy_resume_base_def last_cut_take grid_def Let_def)

lemma grid_positive: "ascending kf \<Longrightarrow> c \<in> set (grid kf tot) \<Longrightarrow> \<exists>r. c = Fin r \<and> 0 < r"
  using grid_ascending [of kf tot] cut_from_after [of c "Fin 0" tot]
  by (fastforce simp: grid_def copy_cut_points_def ascending_def list_all_iff is_finite_iff)

lemma ascending_last:
  assumes "ascending cs" "cs \<noteq> []" "c \<in> set cs"
  shows "fle c (last cs)"
proof -
  obtain i where i: "i < length cs" "c = cs ! i" using assms(3) by (auto simp: in_set_conv_nth)
  have "c = last cs \<or> flt c (last cs)"
  proof (cases "i = length cs - 1")
    case True
    then show ?thesis using i assms(2) by (simp add: last_conv_nth)
  next
    case False
    then have "flt (cs ! i) (cs ! (length cs - 1))"
      using assms(1) i by (auto simp: ascending_def intro: sorted_wrt_nth_less)
    then show ?thesis using i assms(2) by (simp add: last_conv_nth)
  qed
  moreover have "is_finite c" using assms(1,3) by (simp add: ascending_def list_all_iff)
  ultimately show ?thesis using fle_refl_fin by (auto simp: fle_def)
qed

lemma ascending_filter: "ascending cs \<Longrightarrow> ascending (filter P cs)"
  by (auto simp: ascending_def sorted_wrt_filter list_all_iff)

lemma nat_ceiling_u64:
  assumes "0 \<le> r" "r \<le> of_nat start" "start < 2 ^ 53"
  shows "f_to_u64 (fceil (Fin r)) = nat \<lceil>r\<rceil>" "nat \<lceil>r\<rceil> \<le> start"
proof -
  have le: "\<lceil>r\<rceil> \<le> int start" using assms(2) by (simp add: ceiling_le_iff)
  then show "nat \<lceil>r\<rceil> \<le> start" by simp
  have "(0::int) \<le> \<lceil>r\<rceil>" using assms(1) by (simp add: le_ceiling_iff)
  moreover have "\<lceil>r\<rceil> \<le> 18446744073709551615"
  proof -
    have "int start < int (2 ^ 53)" using assms(3) by (simp only: of_nat_less_iff)
    then have "int start < 9007199254740992" by simp
    then show ?thesis using le by linarith
  qed
  ultimately show "f_to_u64 (fceil (Fin r)) = nat \<lceil>r\<rceil>"
    by (simp add: f_to_u64_def fceil_def sat_int_def trunc_int_def del: ceiling_le_numeral)
qed

lemma f_of_nat_exact: "n < 2 ^ 53 \<Longrightarrow> f_of_int (int n) = Fin (of_nat n)"
proof -
  assume "n < 2 ^ 53"
  then have "int n < int (2 ^ 53)" by (simp only: of_nat_less_iff)
  then have "\<bar>int n\<bar> < 2 ^ 53" by simp
  then show ?thesis using f_of_int_exact [of "int n"] by simp
qed

lemma resume_base_below:
  assumes "ascending kf" "start < 2 ^ 53" "copy_resume_base kf tot start = (idx, base)"
  obtains r where "base = Fin r" "0 \<le> r" "r \<le> of_nat start"
proof -
  let ?tw = "filter (\<lambda>c. fle c (Fin (of_nat start))) (grid kf tot)"
  have "base = last (Fin 0 # ?tw)"
    using assms(3) resume_base_eq [OF assms(1) f_of_nat_exact [OF assms(2)], of tot] by (simp add: Let_def)
  then have "base = Fin 0 \<or> base \<in> set ?tw" by (metis last.simps last_in_set)
  then show thesis using that grid_positive [OF assms(1), of base tot] by auto
qed

text \<open>The grid up to a point and up to any later one below the next cut are the same.\<close>

lemma grid_until_same:
  assumes "ascending kf" "tw = filter (\<lambda>c. fle c (Fin s)) (grid kf tot)" "last (Fin 0 # tw) = Fin r" "r \<le> u" "u \<le> s"
  shows "filter (\<lambda>c. fle c (Fin u)) (grid kf tot) = tw"
proof -
  have "fle c (Fin u) = fle c (Fin s)" if c: "c \<in> set (grid kf tot)" for c
  proof -
    obtain q where q: "c = Fin q" using grid_positive [OF assms(1) c] by blast
    have "q \<le> u" if "q \<le> s"
    proof -
      have "c \<in> set tw" using c that q by (simp add: assms(2))
      moreover from this have "tw \<noteq> []" by auto
      moreover have "ascending tw" unfolding assms(2) by (rule ascending_filter [OF grid_ascending [OF assms(1)]])
      ultimately have "fle c (last (Fin 0 # tw))" using ascending_last by simp
      then show ?thesis using q assms(3,4) by simp
    qed
    then show ?thesis using q assms(5) by auto
  qed
  then show ?thesis unfolding assms(2) by (auto intro: filter_cong)
qed

lemma segment_start_of_cut:
  assumes "ascending kf" "tw = filter (\<lambda>c. fle c (Fin s)) (grid kf tot)"
  shows "copy_segment_start kf tot (length tw) = Some (last (Fin 0 # tw))"
proof (cases "tw = []")
  case False
  have tw: "tw = take (length tw) (grid kf tot)"
    unfolding assms(2) by (rule filter_prefix [OF grid_ascending [OF assms(1)]])
  have "last tw = grid kf tot ! (length tw - 1)"
    using False tw by (metis diff_less last_conv_nth length_greater_0_conv nth_take zero_less_one)
  moreover have "length tw \<le> length (grid kf tot)" by (simp add: assms(2))
  ultimately show ?thesis using False
    by (cases tw) (auto simp: copy_segment_start_def grid_def [symmetric] Let_def)
qed (simp add: copy_segment_start_def)

text \<open>
  C33. A copy-remux session resumes on the grid its manifest lists: the start the session stores
  (the grid point rounded up to whole seconds) is not after the requested one, leads back to the
  same segment number and grid point, and that segment starts exactly there.
\<close>

theorem resume_grid_roundtrip:
  assumes "ascending kf" "start < 2 ^ 53" "copy_resume_base kf tot start = (idx, base)"
  shows "f_to_u64 (fceil base) \<le> start \<and> copy_resume_base kf tot (f_to_u64 (fceil base)) = (idx, base)
    \<and> copy_segment_start kf tot idx = Some base"
proof -
  define tw where "tw = filter (\<lambda>c. fle c (Fin (of_nat start))) (grid kf tot)"
  have b: "idx = length tw" "base = last (Fin 0 # tw)"
    using assms(3) resume_base_eq [OF assms(1) f_of_nat_exact [OF assms(2)], of tot] by (simp_all add: tw_def Let_def)
  obtain r where r: "base = Fin r" "0 \<le> r" "r \<le> of_nat start" by (rule resume_base_below [OF assms])
  note up = nat_ceiling_u64 [OF r(2,3) assms(2)]
  have small: "nat \<lceil>r\<rceil> < 2 ^ 53" using up(2) assms(2) by simp
  have "filter (\<lambda>c. fle c (Fin (of_nat (nat \<lceil>r\<rceil>)))) (grid kf tot) = tw"
  proof (rule grid_until_same [OF assms(1) tw_def])
    show "last (Fin 0 # tw) = Fin r" using b(2) r(1) by simp
    show "r \<le> of_nat (nat \<lceil>r\<rceil>)" using r(2) by (simp add: le_of_int_ceiling)
    show "(of_nat (nat \<lceil>r\<rceil>) :: rat) \<le> of_nat start" using up(2) by (simp only: of_nat_le_iff)
  qed
  then have "copy_resume_base kf tot (nat \<lceil>r\<rceil>) = (idx, base)"
    using resume_base_eq [OF assms(1) f_of_nat_exact [OF small], of tot] b by (simp add: Let_def)
  then show ?thesis using segment_start_of_cut [OF assms(1) tw_def] b up r(1) by simp
qed

lemma resume_grid_roundtrip_witness:
  "ascending [Fin 0, Fin (5 / 2), Fin 9]
   \<and> copy_resume_base [Fin 0, Fin (5 / 2), Fin 9] (Fin 20) 5 = (1, Fin (5 / 2))
   \<and> f_to_u64 (fceil (Fin (5 / 2))) \<le> 5
   \<and> copy_resume_base [Fin 0, Fin (5 / 2), Fin 9] (Fin 20) (f_to_u64 (fceil (Fin (5 / 2)))) = (1, Fin (5 / 2))
   \<and> copy_segment_start [Fin 0, Fin (5 / 2), Fin 9] (Fin 20) 1 = Some (Fin (5 / 2))"
proof -
  have "rnd 2 = Fin 2" "rnd 4 = Fin 4" "rnd 6 = Fin 6" "rnd 5 = Fin 5"
    using f_of_int_exact [of 2] f_of_int_exact [of 4] f_of_int_exact [of 6] f_of_int_exact [of 5] by (simp_all add: f_of_int_def)
  then have base: "copy_resume_base [Fin 0, Fin (5 / 2), Fin 9] (Fin 20) 5 = (1, Fin (5 / 2))"
    by (simp add: copy_resume_base_def copy_cut_points_def f_of_int_def hls_segment_secs_def)
  moreover have asc: "ascending [Fin 0, Fin (5 / 2), Fin 9]" by (simp add: ascending_def)
  ultimately show ?thesis
    using resume_grid_roundtrip [of "[Fin 0, Fin (5 / 2), Fin 9]" 5 "Fin 20" 1 "Fin (5 / 2)"] by simp
qed

end
