(* ===== verification/Renditions.thy ===== *)
theory Renditions
  imports Vod_Manifest
begin

text \<open>
  \<open>crates/transcoder/src/trickplay.rs\<close>, \<open>subs_manifest.rs\<close> and the alternate-audio group of
  \<open>session.rs\<close>: the master playlists that advertise thumbnails, subtitles and audio tracks, and the
  command lines of the one-shot passes that make them.
\<close>

section \<open>Subtitles\<close>

definition subs_playlist_name :: string where "subs_playlist_name = ''subs.m3u8''"

definition sidecar_subtitle_name :: string where "sidecar_subtitle_name = ''subtitles.vtt''"

definition subs_media_tag :: "sidecar_subtitle \<Rightarrow> string" where
  "subs_media_tag s =
     (let lang = rtrim (opt_text (ss_language s));
          name = (if lang = [] then ''Subtitles'' else lang);
          language_attr = (if lang = [] then [] else ''LANGUAGE='' @ quoted lang @ '','');
          forced = (if ss_forced s then ''YES'' else ''NO'')
      in line_of (''#EXT-X-MEDIA:TYPE=SUBTITLES,GROUP-ID='' @ quoted ''subs'' @ '',NAME='' @ quoted name @ '','' @ language_attr
           @ ''AUTOSELECT=YES,DEFAULT=NO,FORCED='' @ forced @ '',URI='' @ quoted subs_playlist_name))"

definition subs_playlist :: "f64 \<Rightarrow> string option" where
  "subs_playlist total_secs =
     (if \<not> is_finite total_secs \<or> fle total_secs (Fin 0) then None
      else Some (line_of ''#EXTM3U'' @ line_of ''#EXT-X-VERSION:3''
        @ line_of (''#EXT-X-TARGETDURATION:'' @ dec_nat (f_to_u64 (fceil total_secs)))
        @ line_of ''#EXT-X-MEDIA-SEQUENCE:0'' @ line_of ''#EXT-X-PLAYLIST-TYPE:VOD''
        @ line_of (''#EXTINF:'' @ fixed6 total_secs @ '','') @ line_of sidecar_subtitle_name @ line_of ''#EXT-X-ENDLIST''))"

section \<open>Trick play\<close>

definition trickplay_interval_secs :: nat where "trickplay_interval_secs = 10"

definition thumb_width :: nat where "thumb_width = 320"

definition media_playlist_name :: string where "media_playlist_name = ''media.m3u8''"

definition iframe_playlist_name :: string where "iframe_playlist_name = ''iframe.m3u8''"

definition iframe_bandwidth_bps :: nat where "iframe_bandwidth_bps = 120000"

definition audio_group_id :: string where "audio_group_id = ''aud''"

definition trickplay_enabled_from :: "string option \<Rightarrow> bool" where
  "trickplay_enabled_from v = (case v of None \<Rightarrow> True | Some s \<Rightarrow> if rtrim s \<noteq> [] then truthy (Some s) else True)"

definition trickplay_enabled :: "(string \<Rightarrow> string option) \<Rightarrow> bool" where
  "trickplay_enabled env = trickplay_enabled_from (env ''TRANSCODER_TRICKPLAY'')"

definition alt_audio_enabled :: "(string \<Rightarrow> string option) \<Rightarrow> bool" where
  "alt_audio_enabled env = truthy (env ''TRANSCODER_ALT_AUDIO'')"

definition audio_playlist_name :: "nat \<Rightarrow> string" where
  "audio_playlist_name i = ''audio_'' @ dec_nat i @ ''.m3u8''"

record audio_rendition =
  ar_name :: string
  ar_language :: "string option"
  ar_default :: bool
  ar_uri :: "string option"

definition audio_media_tag :: "audio_rendition \<Rightarrow> string" where
  "audio_media_tag r =
     (let language_attr = (case ar_language r of None \<Rightarrow> []
            | Some l \<Rightarrow> if rtrim l = [] then [] else ''LANGUAGE='' @ quoted (rtrim l) @ '','');
          default = (if ar_default r then ''YES'' else ''NO'');
          uri_attr = (case ar_uri r of None \<Rightarrow> [] | Some u \<Rightarrow> '',URI='' @ quoted u)
      in line_of (''#EXT-X-MEDIA:TYPE=AUDIO,GROUP-ID='' @ quoted audio_group_id @ '',NAME='' @ quoted (ar_name r) @ '',''
           @ language_attr @ ''AUTOSELECT=YES,DEFAULT='' @ default @ uri_attr))"

definition master :: "nat \<Rightarrow> (nat \<times> nat) option \<Rightarrow> bool \<Rightarrow> sidecar_subtitle option \<Rightarrow> audio_rendition list \<Rightarrow> string" where
  "master bandwidth resolution include_iframe subs audio =
     line_of ''#EXTM3U'' @ line_of ''#EXT-X-VERSION:4''
     @ (if include_iframe
        then line_of (''#EXT-X-I-FRAME-STREAM-INF:BANDWIDTH='' @ dec_nat iframe_bandwidth_bps @ '',URI='' @ quoted iframe_playlist_name)
        else [])
     @ concat (map audio_media_tag audio)
     @ (case subs of None \<Rightarrow> [] | Some s \<Rightarrow> subs_media_tag s)
     @ line_of (''#EXT-X-STREAM-INF:BANDWIDTH='' @ dec_nat bandwidth
          @ (case resolution of None \<Rightarrow> [] | Some (w, h) \<Rightarrow> '',RESOLUTION='' @ dec_nat w @ ''x'' @ dec_nat h)
          @ (if audio \<noteq> [] then '',AUDIO='' @ quoted audio_group_id else [])
          @ (if subs \<noteq> None then '',SUBTITLES='' @ quoted ''subs'' else []))
     @ line_of media_playlist_name"

definition iframe_playlist :: "f64 \<Rightarrow> string option" where
  "iframe_playlist total_secs =
     (if \<not> is_finite total_secs \<or> fle total_secs (Fin 0) then None
      else let interval = f_of_int (int trickplay_interval_secs);
               cnt = f_to_u64 (fceil (fdiv total_secs interval)) in
        if cnt = 0 then None
        else Some (line_of ''#EXTM3U'' @ line_of ''#EXT-X-VERSION:4''
          @ line_of (''#EXT-X-TARGETDURATION:'' @ dec_nat trickplay_interval_secs)
          @ line_of ''#EXT-X-MEDIA-SEQUENCE:0'' @ line_of ''#EXT-X-PLAYLIST-TYPE:VOD'' @ line_of ''#EXT-X-I-FRAMES-ONLY''
          @ concat (map (\<lambda>i. line_of (''#EXTINF:'' @ fixed6 (uniform_dur interval total_secs cnt i) @ '','')
                @ line_of (''thumb_'' @ zero_pad 5 i @ ''.ts'')) [0..<cnt])
          @ line_of ''#EXT-X-ENDLIST''))"

definition thumb_args :: "string \<Rightarrow> string \<Rightarrow> nat \<Rightarrow> nat \<Rightarrow> string list" where
  "thumb_args input dir interval width =
     [''-hide_banner'', ''-loglevel'', ''warning'', ''-nostdin'', ''-fflags'', ''+genpts'', ''-skip_frame'', ''nokey'',
      ''-threads'', ''2'', ''-i'', input, ''-map'', ''0:v:0'', ''-an'', ''-sn'', ''-vf'',
      ''fps=1/'' @ dec_nat interval @ '',scale='' @ dec_nat width @ '':-2'',
      ''-c:v'', ''libx264'', ''-preset'', ''veryfast'', ''-g'', ''1'', ''-f'', ''hls'', ''-hls_time'', dec_nat interval,
      ''-hls_list_size'', ''0'', ''-hls_flags'', ''append_list'', ''-hls_playlist_type'', ''vod'', ''-hls_segment_type'', ''mpegts'',
      ''-hls_segment_filename'', dir @ ''/thumb_%05d.ts'', dir @ ''/thumb_index.m3u8'']"

definition rendition_track_args :: "string \<Rightarrow> nat \<Rightarrow> nat \<times> audio_op \<Rightarrow> string list" where
  "rendition_track_args dir ts_offset track =
     (case track of (i, op) \<Rightarrow>
        [''-map'', ''0:a:'' @ dec_nat i @ ''?'', ''-vn'', ''-sn'']
        @ (case op of
             ACopy \<Rightarrow> [''-c:a'', ''copy'']
           | AEncodeAac k \<Rightarrow> [''-c:a'', ''aac'', ''-ac'', ''2'', ''-b:a'', dec_nat k @ ''k''])
        @ (if ts_offset > 0 then [''-output_ts_offset'', dec_nat ts_offset] else [])
        @ [''-f'', ''hls'', ''-hls_time'', dec_nat hls_segment_secs, ''-hls_list_size'', ''0'', ''-hls_flags'', ''append_list'',
           ''-hls_playlist_type'', (if ts_offset > 0 then ''event'' else ''vod''), ''-hls_segment_type'', ''mpegts'',
           ''-hls_segment_filename'', dir @ ''/audio_'' @ dec_nat i @ ''_%05d.ts'', dir @ ''/'' @ audio_playlist_name i])"

definition audio_renditions_args :: "string \<Rightarrow> string \<Rightarrow> (nat \<times> audio_op) list \<Rightarrow> nat \<Rightarrow> nat \<Rightarrow> string list" where
  "audio_renditions_args input dir tracks start ts_offset =
     [''-hide_banner'', ''-loglevel'', ''warning'', ''-nostdin'']
     @ (if start > 0 then [''-ss'', dec_nat start] else [])
     @ [''-fflags'', ''+genpts'', ''-i'', input]
     @ concat (map (rendition_track_args dir ts_offset) tracks)"

definition audio_rendition_args :: "string \<Rightarrow> string \<Rightarrow> nat \<Rightarrow> audio_op \<Rightarrow> string list" where
  "audio_rendition_args input dir i op = audio_renditions_args input dir [(i, op)] 0 0"

definition audio_master :: "nat \<Rightarrow> audio_rendition list \<Rightarrow> string" where
  "audio_master bandwidth audio =
     line_of ''#EXTM3U'' @ line_of ''#EXT-X-VERSION:4'' @ concat (map audio_media_tag audio)
     @ line_of (''#EXT-X-STREAM-INF:BANDWIDTH='' @ dec_nat bandwidth @ '',AUDIO='' @ quoted audio_group_id) @ line_of ''index.m3u8''"

definition thumb_jpeg_args :: "string \<Rightarrow> string \<Rightarrow> string list" where
  "thumb_jpeg_args ts out =
     [''-hide_banner'', ''-loglevel'', ''error'', ''-nostdin'', ''-i'', ts, ''-frames:v'', ''1'', ''-c:v'', ''mjpeg'',
      ''-q:v'', ''5'', ''-f'', ''mjpeg'', ''-y'', out]"

section \<open>The alternate-audio group\<close>

definition not_blank :: "string option \<Rightarrow> string option" where
  "not_blank x = (case x of None \<Rightarrow> None | Some s \<Rightarrow> if rtrim s = [] then None else Some s)"

definition rendition_from :: "audio_track option \<Rightarrow> nat \<Rightarrow> bool \<Rightarrow> nat option \<Rightarrow> audio_rendition" where
  "rendition_from track pos is_default uri_index =
     (let language = not_blank (Option.bind track at_language);
          title = not_blank (Option.bind track at_title)
      in \<lparr>ar_name = (case language of Some l \<Rightarrow> l
            | None \<Rightarrow> (case title of Some t \<Rightarrow> t | None \<Rightarrow> ''Audio '' @ dec_nat (pos + 1))),
          ar_language = language, ar_default = is_default, ar_uri = map_option audio_playlist_name uri_index\<rparr>)"

definition suffixed :: "string \<Rightarrow> nat \<Rightarrow> string" where
  "suffixed base n = base @ '' ('' @ dec_nat n @ '')''"

text \<open>The search for a free suffix counts in \<open>u32\<close> and has no bound of its own.\<close>

partial_function (option) free_suffix :: "string list \<Rightarrow> string \<Rightarrow> nat \<Rightarrow> nat option" where
  "free_suffix seen base n =
     (if suffixed base n \<notin> set seen then Some n else free_suffix seen base ((n + 1) mod 2 ^ 32))"

fun dedupe_from :: "string list \<Rightarrow> audio_rendition list \<Rightarrow> audio_rendition list option" where
  "dedupe_from seen [] = Some []"
| "dedupe_from seen (r # rs) =
     (if ar_name r \<notin> set seen then map_option ((#) r) (dedupe_from (ar_name r # seen) rs)
      else Option.bind (free_suffix seen (ar_name r) 2) (\<lambda>n.
        map_option ((#) (r\<lparr>ar_name := suffixed (ar_name r) n\<rparr>)) (dedupe_from (suffixed (ar_name r) n # seen) rs)))"

definition dedupe_rendition_names :: "audio_rendition list \<Rightarrow> audio_rendition list option" where
  "dedupe_rendition_names rs = dedupe_from [] rs"

definition track_at :: "audio_track list \<Rightarrow> nat \<Rightarrow> audio_track option" where
  "track_at ts i = (if i < length ts then Some (ts ! i) else None)"

definition audio_group :: "audio_track list \<Rightarrow> nat \<Rightarrow> (nat \<times> audio_op) list \<Rightarrow> audio_rendition list option" where
  "audio_group tracks primary extras =
     (if extras = [] then Some []
      else dedupe_rendition_names
        (rendition_from (track_at tracks primary) primary True None
         # map (\<lambda>(i, _). rendition_from (track_at tracks i) i False (Some i)) extras))"

definition alt_audio_advertisable :: "nat \<Rightarrow> bool" where
  "alt_audio_advertisable start = (start = 0)"

definition is_audio_rendition_asset :: "string \<Rightarrow> bool" where
  "is_audio_rendition_asset name \<longleftrightarrow> starts_with ''audio_'' name \<and> (ends_with ''.ts'' name \<or> ends_with ''.m3u8'' name)"

section \<open>The search for a free name ends\<close>

lemma suffixed_inj: "suffixed base m = suffixed base n \<Longrightarrow> m = n"
  by (simp add: suffixed_def)

lemma free_suffix_found:
  "n \<le> m \<Longrightarrow> m < 2 ^ 32 \<Longrightarrow> suffixed base m \<notin> set seen \<Longrightarrow>
   \<exists>k. free_suffix seen base n = Some k \<and> suffixed base k \<notin> set seen"
proof (induction "m - n" arbitrary: n)
  case 0
  then show ?case by (simp add: free_suffix.simps [of seen base n])
next
  case (Suc d)
  show ?case
  proof (cases "suffixed base n \<in> set seen")
    case True
    have "n + 1 \<le> m" "d = m - (n + 1)" using Suc.hyps(2) by simp_all
    moreover have "(n + 1) mod 2 ^ 32 = n + 1" using calculation(1) Suc.prems(2) by simp
    ultimately show ?thesis using Suc.hyps(1) [of "n + 1"] Suc.prems True by (simp add: free_suffix.simps [of seen base n])
  qed (simp add: free_suffix.simps [of seen base n])
qed

lemma free_suffix_exists:
  assumes "length seen < 2 ^ 32 - 2"
  shows "\<exists>m. 2 \<le> m \<and> m < 2 ^ 32 \<and> suffixed base m \<notin> set seen"
proof (rule ccontr)
  assume "\<not> ?thesis"
  then have "suffixed base ` {2..<2 ^ 32} \<subseteq> set seen" by auto
  then have "card (suffixed base ` {2..<2 ^ 32}) \<le> card (set seen)" by (intro card_mono) simp_all
  moreover have "card (suffixed base ` {2..<2 ^ 32 :: nat}) = 2 ^ 32 - 2"
    by (subst card_image) (auto simp: inj_on_def dest: suffixed_inj)
  ultimately show False using assms card_length [of seen] by linarith
qed

lemma dedupe_from_ok:
  "length seen + length rs < 2 ^ 32 - 1 \<Longrightarrow> \<exists>out. dedupe_from seen rs = Some out
     \<and> distinct (map ar_name out) \<and> set (map ar_name out) \<inter> set seen = {}
     \<and> map (\<lambda>r. (ar_language r, ar_default r, ar_uri r)) out = map (\<lambda>r. (ar_language r, ar_default r, ar_uri r)) rs"
proof (induction rs arbitrary: seen)
  case (Cons r rs)
  show ?case
  proof (cases "ar_name r \<in> set seen")
    case False
    obtain out where "dedupe_from (ar_name r # seen) rs = Some out" "distinct (map ar_name out)"
        "set (map ar_name out) \<inter> set (ar_name r # seen) = {}"
        "map (\<lambda>r. (ar_language r, ar_default r, ar_uri r)) out = map (\<lambda>r. (ar_language r, ar_default r, ar_uri r)) rs"
      using Cons.IH [of "ar_name r # seen"] Cons.prems by auto
    then show ?thesis using False by auto
  next
    case True
    obtain m where "2 \<le> m" "m < 2 ^ 32" "suffixed (ar_name r) m \<notin> set seen"
      using free_suffix_exists [of seen "ar_name r"] Cons.prems by auto
    then obtain k where k: "free_suffix seen (ar_name r) 2 = Some k" "suffixed (ar_name r) k \<notin> set seen"
      using free_suffix_found by blast
    obtain out where "dedupe_from (suffixed (ar_name r) k # seen) rs = Some out" "distinct (map ar_name out)"
        "set (map ar_name out) \<inter> set (suffixed (ar_name r) k # seen) = {}"
        "map (\<lambda>r. (ar_language r, ar_default r, ar_uri r)) out = map (\<lambda>r. (ar_language r, ar_default r, ar_uri r)) rs"
      using Cons.IH [of "suffixed (ar_name r) k # seen"] Cons.prems by auto
    then show ?thesis using True k by auto
  qed
qed simp

text \<open>
  C34. For any file of fewer than \<open>2^32 - 2\<close> audio tracks the search for free names ends: the
  alternate-audio group has one rendition per track, all with different names, the primary first, as
  the only default one and without a playlist of its own.
\<close>

theorem audio_group_names:
  assumes "length extras < 2 ^ 32 - 2" "extras \<noteq> []"
  shows "\<exists>out. audio_group tracks primary extras = Some out \<and> distinct (map ar_name out)
    \<and> map (\<lambda>r. (ar_default r, ar_uri r)) out
        = (True, None) # map (\<lambda>(i, _). (False, Some (audio_playlist_name i))) extras"
proof -
  let ?rs = "rendition_from (track_at tracks primary) primary True None
         # map (\<lambda>(i, _). rendition_from (track_at tracks i) i False (Some i)) extras"
  obtain out where out: "dedupe_from [] ?rs = Some out" "distinct (map ar_name out)"
      "map (\<lambda>r. (ar_language r, ar_default r, ar_uri r)) out = map (\<lambda>r. (ar_language r, ar_default r, ar_uri r)) ?rs"
    using dedupe_from_ok [of "[]" ?rs] assms(1) by auto
  have "map (\<lambda>r. (ar_default r, ar_uri r)) out = map snd (map (\<lambda>r. (ar_language r, ar_default r, ar_uri r)) out)"
    by simp
  also have "\<dots> = (True, None) # map (\<lambda>(i, _). (False, Some (audio_playlist_name i))) extras"
    unfolding out(3) by (simp add: rendition_from_def Let_def case_prod_unfold)
  finally show ?thesis using out(1,2) assms(2)
    by (intro exI [of _ out]) (simp add: audio_group_def dedupe_rendition_names_def del: dedupe_from.simps)
qed

definition english_track :: audio_track where
  "english_track = \<lparr>at_index = 1, at_codec = Some ''ac3'', at_channels = Some 6, at_language = Some ''eng'', at_title = None\<rparr>"

lemma audio_group_names_witness:
  "length [(1, ACopy)] < 2 ^ 32 - 2 \<and> [(1, ACopy)] \<noteq> ([] :: (nat \<times> audio_op) list)
    \<and> (\<exists>out. audio_group [english_track, english_track] 0 [(1, ACopy)] = Some out \<and> distinct (map ar_name out)
    \<and> map (\<lambda>r. (ar_default r, ar_uri r)) out = [(True, None), (False, Some (audio_playlist_name 1))])"
  using audio_group_names [of "[(1, ACopy)]" "[english_track, english_track]" 0] by simp

end
