(* ===== verification/Tx_Paths.thy ===== *)
theory Tx_Paths
  imports Renditions "HOL-Library.Sublist"
begin

text \<open>
  \<open>crates/transcoder/src/session.rs\<close>, the names and paths: the asset names a player may ask for, the
  session identifiers and their directories, and the lexical confinement of source paths to the media
  roots.  A path is read as Rust's \<open>Path::components\<close> reads it on Unix.
\<close>

section \<open>Names\<close>

definition is_alnum :: "char \<Rightarrow> bool" where
  "is_alnum c \<longleftrightarrow> is_digit c \<or> (let n = of_char c :: nat in (65 \<le> n \<and> n \<le> 90) \<or> (97 \<le> n \<and> n \<le> 122))"

definition name_char :: "char \<Rightarrow> bool" where
  "name_char c \<longleftrightarrow> is_alnum c \<or> c \<in> set ''_.-''"

definition is_safe_segment_name :: "string \<Rightarrow> bool" where
  "is_safe_segment_name name \<longleftrightarrow> name \<noteq> [] \<and> name \<noteq> ''.'' \<and> name \<noteq> ''..'' \<and> list_all name_char name"

text \<open>
  \<open>sanitize\<close> maps every other character to an underscore; a character of several bytes is one
  character, so its continuation bytes (\<open>10xxxxxx\<close>) add nothing.
\<close>

definition continuation :: "char \<Rightarrow> bool" where
  "continuation c \<longleftrightarrow> (of_char c :: nat) div 64 = 2"

definition sanitize :: "string \<Rightarrow> string" where
  "sanitize s = map (\<lambda>c. if name_char c then c else CHR ''_'') (filter (\<lambda>c. \<not> continuation c) s)"

definition make_session_id :: "string \<Rightarrow> int \<Rightarrow> string \<Rightarrow> nat \<Rightarrow> nat \<Rightarrow> string" where
  "make_session_id kind media_id sub now seq =
     ''tx:'' @ sanitize kind @ '':'' @ dec_int media_id @ '':'' @ sanitize sub @ '':'' @ dec_nat now @ ''-'' @ dec_nat seq"

definition session_dir :: "string \<Rightarrow> string \<Rightarrow> string" where
  "session_dir tmp_root sid = tmp_root @ ''/'' @ sanitize sid"

lemma sanitize_append: "sanitize (a @ b) = sanitize a @ sanitize b"
  by (simp add: sanitize_def)

lemma name_char_plain: "name_char c \<Longrightarrow> \<not> continuation c"
  by (auto simp: name_char_def is_alnum_def is_digit_def continuation_def Let_def)

lemma sanitize_id: "list_all name_char s \<Longrightarrow> sanitize s = s"
  by (induction s) (auto simp: sanitize_def dest: name_char_plain)

lemma sanitize_chars: "list_all name_char (sanitize s)"
  by (auto simp: sanitize_def list_all_iff name_char_def)

lemma digits_name_chars: "list_all name_char (dec_nat n)"
  by (auto simp: list_all_iff name_char_def is_alnum_def dest: dec_nat_digits)

lemma session_dir_seq:
  assumes "session_dir r (make_session_id k i s t n) = session_dir r (make_session_id k' i' s' t' n')"
  shows "n = n'"
proof -
  have split: "sanitize (make_session_id k i s t n)
      = sanitize (''tx:'' @ sanitize k @ '':'' @ dec_int i @ '':'' @ sanitize s @ '':'' @ dec_nat t) @ ''-'' @ dec_nat n"
    for k i s t n
  proof -
    have dash: "list_all name_char (''-'' @ dec_nat n)" using digits_name_chars [of n] by (simp add: name_char_def)
    have "make_session_id k i s t n
        = (''tx:'' @ sanitize k @ '':'' @ dec_int i @ '':'' @ sanitize s @ '':'' @ dec_nat t) @ (''-'' @ dec_nat n)"
      by (simp add: make_session_id_def)
    then show ?thesis using sanitize_append sanitize_id [OF dash] by metis
  qed
  obtain a b where "a @ ''-'' @ dec_nat n = b @ ''-'' @ dec_nat n'"
    using assms unfolding session_dir_def split by fastforce
  then have "rev (dec_nat n) @ CHR ''-'' # rev a = rev (dec_nat n') @ CHR ''-'' # rev b"
    by (metis append_Cons append_Nil append_assoc rev.simps(2) rev_append)
  then have "rev (dec_nat n) = rev (dec_nat n')"
    using run_terminator [where P = is_digit] by (metis dec_nat_digits set_rev is_digit_minus)
  then show ?thesis by simp
qed

section \<open>Source paths\<close>

datatype component = RootDir | CurDir | ParentDir | Normal string

definition component_of :: "string \<Rightarrow> component" where
  "component_of p = (if p = ''..'' then ParentDir else Normal p)"

definition is_absolute :: "string \<Rightarrow> bool" where
  "is_absolute s = starts_with ''/'' s"

definition components :: "string \<Rightarrow> component list" where
  "components s =
     (if is_absolute s then [RootDir] else if s = ''.'' \<or> starts_with ''./'' s then [CurDir] else [])
     @ map component_of (filter (\<lambda>p. p \<noteq> [] \<and> p \<noteq> ''.'') (split_on (CHR ''/'') s))"

definition norm_step :: "component list \<Rightarrow> component \<Rightarrow> component list" where
  "norm_step out c =
     (case c of
        CurDir \<Rightarrow> out
      | ParentDir \<Rightarrow>
          (case rev out of
             Normal _ # _ \<Rightarrow> butlast out
           | RootDir # _ \<Rightarrow> out
           | _ \<Rightarrow> out @ [ParentDir])
      | _ \<Rightarrow> out @ [c])"

definition lexically_normalize :: "string \<Rightarrow> component list" where
  "lexically_normalize p = foldl norm_step [] (components p)"

definition path_within_roots :: "string \<Rightarrow> string list \<Rightarrow> bool" where
  "path_within_roots input roots \<longleftrightarrow>
     list_ex (\<lambda>r. prefix (lexically_normalize r) (lexically_normalize input)) roots"

definition is_source_path_allowed :: "string list \<Rightarrow> string \<Rightarrow> bool" where
  "is_source_path_allowed media_roots input \<longleftrightarrow> media_roots = [] \<or> path_within_roots input media_roots"

text \<open>\<open>TRANSCODER_MEDIA_ROOT\<close>: the non-empty pieces between colons.\<close>

definition media_roots_from :: "(string \<Rightarrow> string option) \<Rightarrow> string list" where
  "media_roots_from env =
     (case env ''TRANSCODER_MEDIA_ROOT'' of
        None \<Rightarrow> []
      | Some s \<Rightarrow> filter (\<lambda>p. p \<noteq> []) (split_on (CHR '':'') s))"

text \<open>
  What an absolute path denotes, symbolic links aside: the names walked down from the root, where
  \<open>..\<close> climbs one level and stays at the root.
\<close>

fun walk_step :: "string list \<Rightarrow> component \<Rightarrow> string list" where
  "walk_step ds RootDir = []"
| "walk_step ds CurDir = ds"
| "walk_step ds ParentDir = butlast ds"
| "walk_step ds (Normal n) = ds @ [n]"

definition location :: "string \<Rightarrow> string list" where
  "location p = foldl walk_step [] (components p)"

lemma prefix_map_inj: "inj f \<Longrightarrow> prefix (map f xs) (map f ys) \<longleftrightarrow> prefix xs ys"
proof (induction xs arbitrary: ys)
  case (Cons x xs)
  then show ?case by (cases ys) (auto dest: injD)
qed simp

lemma inj_Normal: "inj Normal"
  by (simp add: inj_def)

lemma norm_walk_step:
  assumes "c \<noteq> RootDir"
  shows "norm_step (RootDir # map Normal ds) c = RootDir # map Normal (walk_step ds c)"
  using assms by (cases c; cases ds rule: rev_cases) (simp_all add: norm_step_def)

lemma norm_walk:
  "RootDir \<notin> set cs \<Longrightarrow> foldl norm_step (RootDir # map Normal ds) cs = RootDir # map Normal (foldl walk_step ds cs)"
  by (induction cs arbitrary: ds) (auto simp: norm_walk_step)

lemma norm_relative_step:
  assumes "RootDir \<notin> set out" "c \<noteq> RootDir"
  shows "RootDir \<notin> set (norm_step out c)"
proof (cases c)
  case ParentDir
  then show ?thesis using assms
    by (cases out rule: rev_cases) (auto simp: norm_step_def split: component.splits)
qed (use assms in \<open>auto simp: norm_step_def\<close>)

lemma norm_relative: "RootDir \<notin> set cs \<Longrightarrow> RootDir \<notin> set out \<Longrightarrow> RootDir \<notin> set (foldl norm_step out cs)"
proof (induction cs arbitrary: out)
  case (Cons c cs)
  have "c \<noteq> RootDir" using Cons.prems(1) by auto
  then have "RootDir \<notin> set (norm_step out c)" by (rule norm_relative_step [OF Cons.prems(2)])
  then show ?case using Cons.IH Cons.prems(1) by simp
qed simp

lemma component_of_root [simp]: "component_of p \<noteq> RootDir" "RootDir \<noteq> component_of p"
  by (simp_all add: component_of_def)

lemma body_no_root: "RootDir \<notin> set (map component_of ps)"
  by (simp add: image_iff)

lemma normalize_absolute: "is_absolute p \<Longrightarrow> lexically_normalize p = RootDir # map Normal (location p)"
  using norm_walk [OF body_no_root, of "[]"]
  by (simp add: lexically_normalize_def location_def components_def norm_step_def)

lemma normalize_relative: "\<not> is_absolute p \<Longrightarrow> RootDir \<notin> set (lexically_normalize p)"
  unfolding lexically_normalize_def
  by (rule norm_relative) (simp_all add: components_def image_iff)

text \<open>
  C7. With absolute media roots the confinement of source paths is exact: a path passes if and only if
  it is absolute and the file it denotes, every \<open>.\<close> and \<open>..\<close> followed, lies below the directory one of
  the roots denotes.
\<close>

theorem confinement_exact:
  assumes "roots \<noteq> []" "list_all is_absolute roots"
  shows "is_source_path_allowed roots input
    \<longleftrightarrow> is_absolute input \<and> list_ex (\<lambda>r. prefix (location r) (location input)) roots"
proof -
  have root: "prefix (lexically_normalize r) (lexically_normalize input)
      \<longleftrightarrow> is_absolute input \<and> prefix (location r) (location input)" if r: "is_absolute r" for r
  proof (cases "is_absolute input")
    case True
    then show ?thesis using r by (simp add: normalize_absolute prefix_map_inj [OF inj_Normal])
  next
    case False
    have "\<not> prefix (lexically_normalize r) (lexically_normalize input)"
      using normalize_relative [OF False] by (auto simp: normalize_absolute [OF r] prefix_def)
    then show ?thesis using False by simp
  qed
  then have "path_within_roots input roots
      \<longleftrightarrow> is_absolute input \<and> list_ex (\<lambda>r. prefix (location r) (location input)) roots"
    using assms(2) by (auto simp: path_within_roots_def list_ex_iff list_all_iff)
  then show ?thesis using assms(1) by (simp add: is_source_path_allowed_def)
qed

lemma confinement_exact_witness:
  "[''/media''] \<noteq> [] \<and> list_all is_absolute [''/media'']
    \<and> \<not> is_source_path_allowed [''/media''] ''/media/../etc/passwd''
    \<and> is_source_path_allowed [''/media''] ''/media/tv/./s1/../s2/e1.mkv''"
proof -
  have "[''/media''] \<noteq> []" "list_all is_absolute [''/media'']" by (simp_all add: is_absolute_def starts_with_def)
  from confinement_exact [OF this] show ?thesis
    by (simp add: is_absolute_def starts_with_def location_def components_def component_of_def)
qed

text \<open>
  A root that normalizes to nothing is a prefix of everything: a relative root such as \<open>.\<close> switches the
  confinement off.
\<close>

lemma dot_root_unconfined: "is_source_path_allowed [''.''] input"
  by (simp add: is_source_path_allowed_def path_within_roots_def lexically_normalize_def components_def
      norm_step_def is_absolute_def starts_with_def)

section \<open>Assets\<close>

definition asset_path :: "string \<Rightarrow> string \<Rightarrow> string option" where
  "asset_path dir name = (if is_safe_segment_name name then Some (dir @ ''/'' @ name) else None)"

lemma name_char_slash [simp]: "\<not> name_char (CHR ''/'')"
  by (simp add: name_char_def is_alnum_def is_digit_def Let_def)

lemma safe_name_no_slash: "is_safe_segment_name name \<Longrightarrow> CHR ''/'' \<notin> set name"
  by (auto simp: is_safe_segment_name_def list_all_iff)

lemma split_on_slash: "split_on c (a @ c # b) = split_on c a @ split_on c b"
  by (induction a) (auto split: list.splits)

lemma components_join:
  assumes "is_absolute dir" "is_safe_segment_name name"
  shows "components (dir @ ''/'' @ name) = components dir @ [Normal name]"
proof -
  have "is_absolute (dir @ ''/'' @ name)" using assms(1) by (auto simp: is_absolute_def starts_with_iff)
  moreover have "filter (\<lambda>p. p \<noteq> [] \<and> p \<noteq> ''.'') [name] = [name]" "component_of name = Normal name"
    using assms(2) by (simp_all add: is_safe_segment_name_def component_of_def)
  ultimately show ?thesis using assms(1) split_on_slash [of "CHR ''/''" dir name] split_on_free [OF safe_name_no_slash [OF assms(2)]]
    by (simp add: components_def)
qed

text \<open>An asset a player names is a file directly inside the session's directory.\<close>

lemma asset_in_dir:
  assumes "is_absolute dir" "asset_path dir name = Some p"
  shows "location p = location dir @ [name]"
proof -
  have safe: "is_safe_segment_name name" and p: "p = dir @ ''/'' @ name"
    using assms(2) by (simp_all add: asset_path_def split: if_splits)
  show ?thesis unfolding p location_def components_join [OF assms(1) safe] by simp
qed

end
