(* ===== verification/Tx_Session.thy ===== *)
theory Tx_Session
  imports Tx_Paths Slots
begin

text \<open>
  \<open>crates/transcoder/src/session.rs\<close>, the session manager's data and the decisions it takes on them:
  what a session stores, the CPU charge of a plan, the ffmpeg arguments of a child, the grid a session
  starts on, its directory, the position a crashed session resumes at, and the documents served for it.
  A directory is an association list from file names to contents; the keyframe cache (\<open>keyframes::load\<close>)
  is the function \<open>kf\<close> from source paths.  \<open>Session\<close>'s command channel is part of the supervisor's state
  (\<open>Tx_Supervisor\<close>).
\<close>

section \<open>Data\<close>

definition idle_timeout :: nat where "idle_timeout = 30"

definition max_restarts :: nat where "max_restarts = 3"

definition healthy_run_reset :: nat where "healthy_run_reset = 60000"

definition backfill_ahead_segments :: nat where "backfill_ahead_segments = 150"

definition max_hot_dirs :: nat where "max_hot_dirs = 12"

record start_opts =
  so_kind :: string
  so_media_id :: int
  so_sub :: string
  so_input :: string
  so_plan :: transcode_plan
  so_start :: nat
  so_codec :: "string option"
  so_profile :: "string option"
  so_avg :: "nat option"
  so_client_max :: "nat option"
  so_duration :: "int option"
  so_owner :: "string option"
  so_subtitle :: "sidecar_subtitle option"
  so_tracks :: "audio_track list"

record tx_session =
  ts_kind :: string
  ts_media_id :: int
  ts_sub :: string
  ts_dir :: string
  ts_started :: nat
  ts_last_seen :: nat
  ts_start :: nat
  ts_requested :: nat
  ts_junctions :: "nat list"
  ts_on_grid :: bool
  ts_number :: nat
  ts_restarts :: nat
  ts_permit :: bool
  ts_plan :: transcode_plan
  ts_input :: string
  ts_codec :: "string option"
  ts_profile :: "string option"
  ts_avg :: "nat option"
  ts_client_max :: "nat option"
  ts_duration :: "int option"
  ts_owner :: "string option"
  ts_subtitle :: "sidecar_subtitle option"
  ts_tracks :: "audio_track list"

record session_info =
  si_id :: string
  si_kind :: string
  si_media_id :: int
  si_sub :: string
  si_started :: nat
  si_last_seen :: nat
  si_start :: nat
  si_restarts :: nat
  si_manifest :: string
  si_owner :: "string option"

definition manifest_path :: "tx_session \<Rightarrow> string" where
  "manifest_path s = ts_dir s @ ''/index.m3u8''"

definition session_info_of :: "string \<Rightarrow> tx_session \<Rightarrow> session_info" where
  "session_info_of sid s =
     \<lparr>si_id = sid, si_kind = ts_kind s, si_media_id = ts_media_id s, si_sub = ts_sub s, si_started = ts_started s,
      si_last_seen = ts_last_seen s, si_start = ts_start s, si_restarts = ts_restarts s,
      si_manifest = manifest_path s, si_owner = ts_owner s\<rparr>"

datatype start_error = SeBusy busy | SeIo | SeSpawn | SeForbidden string

text \<open>What the manager is built with: \<open>new\<close>, \<open>with_media_roots\<close>, \<open>with_vaapi_hw_decode\<close>.\<close>

record tx_config =
  tc_caps :: caps
  tc_tmp_root :: string
  tc_encoder :: hw_encoder
  tc_roots :: "string list"
  tc_vaapi :: bool
  tc_alt_audio :: bool

section \<open>What a session costs\<close>

definition is_vaapi_hw_decodable :: "string \<Rightarrow> bool" where
  "is_vaapi_hw_decodable codec \<longleftrightarrow> to_lower (rtrim codec) \<in> {''hevc'', ''h265'', ''h264'', ''avc'', ''avc1''}"

definition h264_10bit :: "string option \<Rightarrow> string option \<Rightarrow> bool" where
  "h264_10bit codec profile \<longleftrightarrow>
     (case codec of None \<Rightarrow> False | Some c \<Rightarrow> to_lower c \<in> {''h264'', ''avc'', ''avc1''})
     \<and> (case profile of None \<Rightarrow> False | Some p \<Rightarrow> str_contains (to_lower p) ''10'')"

definition plan_video_is :: "(video_op \<Rightarrow> bool) \<Rightarrow> transcode_plan \<Rightarrow> bool" where
  "plan_video_is P plan = (case plan of DirectPlay _ \<Rightarrow> False | Transcode v _ _ _ _ _ _ _ \<Rightarrow> P v)"

fun tone_maps :: "video_op \<Rightarrow> bool" where
  "tone_maps (VEncodeH264 _ t _ _) = t"
| "tone_maps _ = False"

definition uses_full_hw_pipeline :: "tx_config \<Rightarrow> transcode_plan \<Rightarrow> string option \<Rightarrow> string option \<Rightarrow> bool" where
  "uses_full_hw_pipeline C plan codec profile \<longleftrightarrow>
     tc_vaapi C \<and> tc_encoder C = Vaapi
     \<and> (case codec of None \<Rightarrow> False | Some c \<Rightarrow> is_vaapi_hw_decodable c)
     \<and> \<not> h264_10bit codec profile
     \<and> plan_video_is burnless_encode plan
     \<and> (vulkan_hwmap_safe codec \<or> \<not> plan_video_is tone_maps plan)"

definition cpu_charge :: "tx_config \<Rightarrow> start_opts \<Rightarrow> bool" where
  "cpu_charge C o1 \<longleftrightarrow> reencodes_video (so_plan o1) \<and> \<not> uses_full_hw_pipeline C (so_plan o1) (so_codec o1) (so_profile o1)"

text \<open>The command line of a child; \<open>start\<close> and the respawn path share it.\<close>

definition child_args :: "tx_config \<Rightarrow> tx_session \<Rightarrow> nat \<Rightarrow> nat \<Rightarrow> string list" where
  "child_args C s start number =
     ffmpeg_args_for \<lparr>sp_plan = ts_plan s, sp_input = ts_input s, sp_session_dir = ts_dir s, sp_start_secs = start,
       sp_encoder = tc_encoder C, sp_hw_decode = uses_full_hw_pipeline C (ts_plan s) (ts_codec s) (ts_profile s),
       sp_source_codec = ts_codec s, sp_media_kind = ts_kind s, sp_start_number = number, sp_source_avg = ts_avg s,
       sp_client_max = ts_client_max s\<rparr>"

section \<open>Coalescing\<close>

definition coalesce_key :: "start_opts \<Rightarrow> string" where
  "coalesce_key o1 = opt_text (so_owner o1) @ [CHR 0x01] @ so_kind o1 @ [CHR 0x01] @ dec_int (so_media_id o1) @ [CHR 0x01]
     @ so_sub o1 @ [CHR 0x01] @ so_input o1"

definition same_title :: "nat \<Rightarrow> start_opts \<Rightarrow> tx_session \<Rightarrow> bool" where
  "same_title now o1 s \<longleftrightarrow>
     ts_kind s = so_kind o1 \<and> ts_media_id s = so_media_id o1 \<and> ts_sub s = so_sub o1 \<and> ts_owner s = so_owner o1
     \<and> ts_input s = so_input o1 \<and> now - ts_last_seen s \<le> idle_timeout"

definition same_playback :: "start_opts \<Rightarrow> tx_session \<Rightarrow> bool" where
  "same_playback o1 s \<longleftrightarrow> ts_requested s = so_start o1 \<and> ts_plan s = so_plan o1 \<and> ts_client_max s = so_client_max o1"

definition find_owner_title_session ::
  "(string \<times> tx_session) list \<Rightarrow> nat \<Rightarrow> start_opts \<Rightarrow> (string \<times> bool) option" where
  "find_owner_title_session m now o1 =
     map_option (\<lambda>(sid, s). (sid, same_playback o1 s)) (List.find (\<lambda>(sid, s). same_title now o1 s) m)"

text \<open>\<open>Path::parent\<close>: without its last component; a path that has none has no parent.\<close>

definition parent_of :: "string \<Rightarrow> component list option" where
  "parent_of p = (case rev (components p) of [] \<Rightarrow> None | RootDir # _ \<Rightarrow> None | _ # cs \<Rightarrow> Some (rev cs))"

definition note_hot_dir :: "'d \<Rightarrow> 'd list \<Rightarrow> 'd list" where
  "note_hot_dir dir hot = take max_hot_dirs (dir # filter (\<lambda>d. d \<noteq> dir) hot)"

section \<open>The grid\<close>

definition known_duration :: "int option \<Rightarrow> f64 option" where
  "known_duration d = (case d of None \<Rightarrow> None | Some n \<Rightarrow> if n > 0 then Some (f_of_int n) else None)"

definition grid_start :: "(string \<Rightarrow> f64 list option) \<Rightarrow> transcode_plan \<Rightarrow> string \<Rightarrow> int option \<Rightarrow> nat \<Rightarrow> (nat \<times> nat) option" where
  "grid_start kf plan input duration start =
     (if start = 0 then Some (0, 0)
      else if reencodes_video plan
      then (let n = start div hls_segment_secs in Some (n * hls_segment_secs, n))
      else Option.bind (known_duration duration) (\<lambda>total_secs.
        Option.bind (load_keyframes (kf input)) (\<lambda>keyframes.
          let (start_idx, base) = copy_resume_base keyframes total_secs start
          in Some (f_to_u64 (fceil base), start_idx))))"

text \<open>Where a backfill has to start for segment \<open>index\<close>: the branches of \<open>backfill\<close> that compute \<open>secs\<close>.\<close>

definition backfill_secs :: "(string \<Rightarrow> f64 list option) \<Rightarrow> transcode_plan \<Rightarrow> string \<Rightarrow> int option \<Rightarrow> nat \<Rightarrow> nat option" where
  "backfill_secs kf plan input duration index =
     (if reencodes_video plan then Some ((index * hls_segment_secs) mod 2 ^ 64)
      else Option.bind (known_duration duration) (\<lambda>total_secs.
        Option.bind (load_keyframes (kf input)) (\<lambda>keyframes.
          map_option f_to_u64 (copy_segment_start keyframes total_secs index))))"

section \<open>The session directory\<close>

type_synonym dir = "(string \<times> string) list"

definition is_pipeline_output :: "string \<Rightarrow> bool" where
  "is_pipeline_output name \<longleftrightarrow> name = ''index.m3u8'' \<or> name = ''init.mp4''
     \<or> (starts_with ''seg_'' name \<and> (ends_with ''.ts'' name \<or> ends_with ''.m4s'' name))"

definition clear_pipeline_outputs :: "dir \<Rightarrow> dir" where
  "clear_pipeline_outputs d = filter (\<lambda>(name, _). \<not> is_pipeline_output name) d"

definition dir_segments :: "dir \<Rightarrow> nat list" where
  "dir_segments d = List.map_filter (\<lambda>(name, _). segment_index name) d"

definition max_segment_index :: "dir \<Rightarrow> nat option" where
  "max_segment_index d = fold (\<lambda>i m. Some (case m of None \<Rightarrow> i | Some k \<Rightarrow> max k i)) (dir_segments d) None"

definition listed_segments :: "dir \<Rightarrow> nat list" where
  "listed_segments d = List.map_filter segment_index (str_lines (case map_of d ''index.m3u8'' of None \<Rightarrow> [] | Some s \<Rightarrow> s))"

definition before_segment :: "nat \<Rightarrow> string \<Rightarrow> bool" where
  "before_segment next name \<longleftrightarrow> (case segment_index name of None \<Rightarrow> True | Some i \<Rightarrow> i < next)"

definition crash_resume :: "dir \<Rightarrow> nat \<Rightarrow> nat \<times> nat \<times> dir" where
  "crash_resume d prev =
     (let listed = listed_segments d;
          (start_arg, next) = (case listed of [] \<Rightarrow> (prev, prev) | first # _ \<Rightarrow> (first, first + length listed))
      in (start_arg, next,
          filter (\<lambda>(name, _). before_segment next name) d))"

definition crash_resume_secs :: "nat \<Rightarrow> nat \<Rightarrow> nat \<Rightarrow> nat" where
  "crash_resume_secs spawn_secs prev next = spawn_secs + (next - prev) * hls_segment_secs"

definition effective_restart_count :: "nat \<Rightarrow> nat \<Rightarrow> nat" where
  "effective_restart_count prev ran_for = (if ran_for \<ge> healthy_run_reset then 0 else prev)"

definition backoff_ms :: "nat \<Rightarrow> nat" where
  "backoff_ms attempt = min (100 * 2 ^ (attempt - 1)) 2000"

section \<open>What a player is served\<close>

definition plan_fmp4 :: "transcode_plan \<Rightarrow> bool" where
  "plan_fmp4 plan = (case plan of DirectPlay _ \<Rightarrow> False | Transcode _ _ _ fmt _ _ _ _ \<Rightarrow> fmt = Fmp4)"

definition vod_manifest :: "(string \<Rightarrow> f64 list option) \<Rightarrow> tx_session \<Rightarrow> string option" where
  "vod_manifest kf s =
     (if \<not> ts_on_grid s then None
      else Option.bind (known_duration (ts_duration s)) (\<lambda>duration.
        map_option (\<lambda>m. mark_discontinuities m (ts_junctions s))
          (if reencodes_video (ts_plan s) then synthesize duration (ts_start s) (plan_fmp4 (ts_plan s))
           else Option.bind (load_keyframes (kf (ts_input s))) (\<lambda>keyframes.
             synthesize_copy keyframes duration (ts_start s) (plan_fmp4 (ts_plan s))))))"

definition bandwidth_bps :: "tx_session \<Rightarrow> nat" where
  "bandwidth_bps s = (case ts_avg s of None \<Rightarrow> 6000000 | Some kbps \<Rightarrow> min (kbps * 1000) (2 ^ 32 - 1))"

definition alt_audio_renditions :: "tx_config \<Rightarrow> tx_session \<Rightarrow> audio_rendition list option" where
  "alt_audio_renditions C s =
     (if \<not> tc_alt_audio C \<or> \<not> alt_audio_advertisable (ts_start s) then Some []
      else case ts_plan s of
        DirectPlay _ \<Rightarrow> Some []
      | Transcode _ _ _ _ i extra _ _ \<Rightarrow> audio_group (ts_tracks s) i extra)"

definition web_audio_renditions :: "tx_session \<Rightarrow> audio_rendition list option" where
  "web_audio_renditions s =
     (case ts_plan s of
        DirectPlay _ \<Rightarrow> Some []
      | Transcode _ _ _ _ i _ alt _ \<Rightarrow> audio_group (ts_tracks s) i alt)"

definition trickplay_master :: "tx_config \<Rightarrow> tx_session \<Rightarrow> string option" where
  "trickplay_master C s =
     (if \<not> reencodes_video (ts_plan s) \<or> known_duration (ts_duration s) = None then None
      else map_option (master (bandwidth_bps s) None True (ts_subtitle s)) (alt_audio_renditions C s))"

definition native_master :: "tx_config \<Rightarrow> (string \<Rightarrow> f64 list option) \<Rightarrow> tx_session \<Rightarrow> string option" where
  "native_master C kf s =
     Option.bind (alt_audio_renditions C s) (\<lambda>audio.
       if ts_subtitle s = None \<and> audio = [] then None
       else Option.bind (vod_manifest kf s) (\<lambda>_.
         Some (master (bandwidth_bps s) None False (ts_subtitle s) audio)))"

definition session_subs_playlist :: "tx_session \<Rightarrow> string option" where
  "session_subs_playlist s =
     (if ts_subtitle s = None then None else Option.bind (known_duration (ts_duration s)) subs_playlist)"

definition trickplay_iframe :: "tx_session \<Rightarrow> string option" where
  "trickplay_iframe s =
     (if \<not> reencodes_video (ts_plan s) then None else Option.bind (known_duration (ts_duration s)) iframe_playlist)"

definition web_master :: "tx_session \<Rightarrow> string option" where
  "web_master s =
     Option.bind (web_audio_renditions s) (\<lambda>audio.
       if audio = [] then None else Some (audio_master (bandwidth_bps s) audio))"

section \<open>The crash position\<close>

lemma dir_segments_mem: "i \<in> set (dir_segments d) \<longleftrightarrow> (\<exists>name c. (name, c) \<in> set d \<and> segment_index name = Some i)"
  by (induction d) (auto simp: dir_segments_def List.map_filter_def image_iff)

text \<open>After a crash nothing the new child is about to write is left on disk, and nothing it continues is lost.\<close>

lemma crash_resume_dir:
  "crash_resume d prev = (start_arg, next, d') \<Longrightarrow> d' = filter (\<lambda>(name, _). before_segment next name) d"
  by (auto simp: crash_resume_def Let_def split: prod.splits)

lemma crash_resume_clean:
  assumes "crash_resume d prev = (start_arg, next, d')"
  shows "i \<in> set (dir_segments d') \<longleftrightarrow> i \<in> set (dir_segments d) \<and> i < next"
    and "segment_index name = None \<Longrightarrow> (name, c) \<in> set d' \<longleftrightarrow> (name, c) \<in> set d"
  unfolding crash_resume_dir [OF assms] dir_segments_mem by (auto simp: before_segment_def)

lemma crash_resume_position:
  assumes "crash_resume d prev = (start_arg, next, d')"
  shows "(start_arg, next) = (case listed_segments d of [] \<Rightarrow> (prev, prev) | f # fs \<Rightarrow> (f, f + length (f # fs)))"
  using assms by (auto simp: crash_resume_def Let_def split: list.splits)

section \<open>The backfill reaches its segment\<close>

lemma u64_floor:
  assumes "0 \<le> r" "r < 2 ^ 53"
  shows "f_to_u64 (Fin r) = nat \<lfloor>r\<rfloor>" "of_nat (nat \<lfloor>r\<rfloor>) \<le> r" "nat \<lfloor>r\<rfloor> < 2 ^ 53"
proof -
  have lo: "0 \<le> \<lfloor>r\<rfloor>" using assms(1) by simp
  have hi: "\<lfloor>r\<rfloor> < 2 ^ 53" using assms(2) by (simp add: floor_less_iff)
  then show "nat \<lfloor>r\<rfloor> < 2 ^ 53" using lo by (simp add: nat_less_iff)
  show "of_nat (nat \<lfloor>r\<rfloor>) \<le> r" using lo by (simp add: of_nat_nat)
  have "\<lfloor>r\<rfloor> < 9007199254740992" using hi by simp
  then show "f_to_u64 (Fin r) = nat \<lfloor>r\<rfloor>" using lo assms(1)
    by (simp add: f_to_u64_def sat_int_def trunc_int_def)
qed

lemma known_duration_exact:
  assumes "duration = Some d" "d < 2 ^ 53" "known_duration duration = Some x"
  shows "x = Fin (of_int d)" "0 < d"
proof -
  show d: "0 < d" using assms(1,3) by (auto simp: known_duration_def split: if_splits)
  then have "int (nat d) = d" "nat d < 2 ^ 53" using assms(2) by (simp_all add: nat_less_iff)
  then show "x = Fin (of_int d)" using assms(1,3) d f_of_nat_exact [of "nat d"]
    by (simp add: known_duration_def of_nat_nat)
qed

lemma filter_grid_length:
  assumes "ascending cs" "k < length cs" "cs ! k = Fin r" "q < r"
  shows "length (filter (\<lambda>c. fle c (Fin q)) cs) \<le> k"
proof (rule ccontr)
  let ?f = "filter (\<lambda>c. fle c (Fin q)) cs"
  assume "\<not> length ?f \<le> k"
  then have len: "k < length ?f" by simp
  have "?f = take (length ?f) cs" by (rule filter_prefix [OF assms(1)])
  then have "?f ! k = cs ! k" using nth_take [OF len, of cs] by metis
  then have "Fin r \<in> set ?f" using len assms(3) by (metis nth_mem)
  then show False using assms(4) by auto
qed

lemma segment_start_bounds:
  assumes asc: "ascending keyframes" and d: "0 < d"
    and start: "copy_segment_start keyframes (Fin (of_int d)) idx = Some x"
  obtains r where "x = Fin r" "0 \<le> r" "r < of_int d"
    "\<And>q. q \<le> r \<Longrightarrow> length (filter (\<lambda>c. fle c (Fin q)) (grid keyframes (Fin (of_int d)))) \<le> idx"
proof -
  let ?cs = "grid keyframes (Fin (of_int d))"
  note cs = grid_ascending [OF asc, of "Fin (of_int d)"]
  show ?thesis
  proof (cases "idx = 0")
    case True
    have "filter (\<lambda>c. fle c (Fin q)) ?cs = []" if "q \<le> 0" for q
      using grid_positive [OF asc, of _ "Fin (of_int d)"] that by (fastforce simp: filter_empty_conv)
    then show ?thesis using that [of 0] True start d by (simp add: copy_segment_start_def)
  next
    case False
    have len: "idx - 1 < length ?cs" and x: "x = ?cs ! (idx - 1)"
      using start False by (simp_all add: copy_segment_start_def grid_def [symmetric] Let_def split: if_splits)
    then have mem: "x \<in> set ?cs" by simp
    obtain r where r: "x = Fin r" "0 < r" using grid_positive [OF asc mem] by blast
    have "\<not> fle (Fin (of_int d)) x" using cut_from_after mem by (auto simp: grid_def copy_cut_points_def)
    then have "r < of_int d" using r by simp
    moreover have "length (filter (\<lambda>c. fle c (Fin q)) ?cs) \<le> idx" if q: "q \<le> r" for q
    proof (cases "idx < length ?cs")
      case True
      have "flt (?cs ! (idx - 1)) (?cs ! idx)"
        using cs True False by (auto simp: ascending_def intro: sorted_wrt_nth_less)
      moreover have "is_finite (?cs ! idx)" using cs True by (simp add: ascending_def list_all_length)
      ultimately obtain r' where "?cs ! idx = Fin r'" "r < r'"
        using r x by (metis flt_Fin_E)
      then show ?thesis using filter_grid_length [OF cs True] q by simp
    next
      case False
      then show ?thesis by (meson length_filter_le le_trans linorder_not_less)
    qed
    ultimately show ?thesis using that [of r] r by simp
  qed
qed

text \<open>A copy that starts at a whole second of a cut resumes at that cut or an earlier one.\<close>

lemma resume_not_after:
  assumes "ascending k" "secs < 2 ^ 53" "copy_resume_base k tot secs = (n, base)"
    and "length (filter (\<lambda>c. fle c (Fin (of_nat secs))) (grid k tot)) \<le> idx"
  shows "n \<le> idx" "f_to_u64 (fceil base) \<le> secs"
proof -
  show "n \<le> idx"
    using assms(3,4) resume_base_eq [OF assms(1) f_of_nat_exact [OF assms(2)], of tot] by (simp add: Let_def)
  show "f_to_u64 (fceil base) \<le> secs"
    using resume_base_below [OF assms(1-3)] nat_ceiling_u64 [OF _ _ assms(2)] by metis
qed


definition demo_kf :: "string \<Rightarrow> f64 list option" where
  "demo_kf p = (if p = ''/m.mkv'' then Some [Fin 0, Fin (5 / 2), Fin 9] else None)"

definition demo_copy_plan :: transcode_plan where
  "demo_copy_plan = Transcode VCopy ACopy SNone Fmp4 0 [] [] ''container''"


end
