(* ===== verification/Tx_Supervisor.thy ===== *)
theory Tx_Supervisor
  imports Tx_Session
begin

text \<open>
  \<open>crates/transcoder/src/session.rs\<close>, the session manager at work: \<open>start\<close>, \<open>stop\<close>, \<open>seek\<close>, \<open>backfill\<close>,
  \<open>heartbeat\<close>, the idle sweep, and the supervisor task of each session, which alone owns its ffmpeg
  child.  Every one of these runs as a task of its own; a step of the machine is what a task does
  between two points where another may run (a lock taken and released, a wait for the disk or a child),
  so any interleaving of the tasks is a list of events.  The limiter is used through what one
  undisturbed \<open>try_acquire\<close> answers (\<open>Slots.seq_try_acquire\<close>); dropping a session value releases its
  permit.  Times of supervisors are milliseconds of the monotonic clock, the others seconds.  The
  detached one-shot passes (subtitles, thumbnails, extra audio) take no part in this.
\<close>

section \<open>State\<close>

datatype tx_cmd = Restart nat | Shutdown

datatype respawn_mode = SeekMode | CrashMode

text \<open>
  Where a supervisor is: waiting for its child (\<open>Running\<close>) or, after a clean exit, for a command
  (\<open>Completed\<close>); about to count a crash; in the backoff of the given attempt; entering \<open>respawn\<close> with the
  acknowledgement it owes; past the first lock scope of \<open>respawn\<close> with the session it read; and past the
  second one with the start number and offset of the child it will launch.
\<close>

datatype sup_slot =
  Running
| Completed
| Crashed
| Backoff nat
| Respawning respawn_mode "nat option"
| Snapped respawn_mode "nat option" tx_session
| Launching "nat option" tx_session nat nat

record supervisor =
  su_slot :: sup_slot
  su_spawned :: nat
  su_last_run :: nat
  su_queue :: "tx_cmd list"

text \<open>
  A start: waiting for its title's gate; past it with a stale session to stop; waiting for that
  session's end; about to claim a slot; holding one (with the id, the time and the CPU flag).
\<close>

datatype start_phase =
  Waiting
| Stale string
| Superseding string tx_session
| Claiming
| Spawning string nat bool

record start_task =
  sk_opts :: start_opts
  sk_phase :: start_phase

record tx_state =
  tx_sessions :: "(string, tx_session) imap"
  tx_total :: nat
  tx_cpu :: nat
  tx_starts :: "(nat, start_task) imap"
  tx_stops :: "(nat, string \<times> tx_session) imap"
  tx_sups :: "(string, supervisor) imap"
  tx_fs :: "string \<Rightarrow> dir option"
  tx_seq :: nat
  tx_hot :: "component list list"
  tx_backfilling :: "string list"
  tx_acks :: "(nat \<times> bool) list"

definition new_manager :: tx_state where
  "new_manager = \<lparr>tx_sessions = [], tx_total = 0, tx_cpu = 0, tx_starts = [], tx_stops = [], tx_sups = [],
     tx_fs = (\<lambda>_. None), tx_seq = 0, tx_hot = [], tx_backfilling = [], tx_acks = []\<rparr>"

section \<open>Shared pieces\<close>

definition release_permit :: "bool \<Rightarrow> tx_state \<Rightarrow> tx_state" where
  "release_permit cpu st =
     st\<lparr>tx_total := tx_total st - 1, tx_cpu := (if cpu then tx_cpu st - 1 else tx_cpu st)\<rparr>"

definition remove_dir :: "string \<Rightarrow> tx_state \<Rightarrow> tx_state" where
  "remove_dir d st = st\<lparr>tx_fs := (tx_fs st)(d := None)\<rparr>"

definition create_dir :: "string \<Rightarrow> tx_state \<Rightarrow> tx_state" where
  "create_dir d st = st\<lparr>tx_fs := (tx_fs st)(d := Some (case tx_fs st d of None \<Rightarrow> [] | Some x \<Rightarrow> x))\<rparr>"

definition read_dir :: "tx_state \<Rightarrow> string \<Rightarrow> dir" where
  "read_dir st d = (case tx_fs st d of None \<Rightarrow> [] | Some x \<Rightarrow> x)"

text \<open>\<open>ctl.send\<close>: it fails when the supervisor has returned.\<close>

definition send_cmd :: "string \<Rightarrow> tx_cmd \<Rightarrow> tx_state \<Rightarrow> tx_state" where
  "send_cmd sid c st =
     (case im_get (tx_sups st) sid of
        None \<Rightarrow> st
      | Some u \<Rightarrow> st\<lparr>tx_sups := im_insert sid (u\<lparr>su_queue := su_queue u @ [c]\<rparr>) (tx_sups st)\<rparr>)"

definition set_task :: "nat \<Rightarrow> start_task \<Rightarrow> start_phase \<Rightarrow> tx_state \<Rightarrow> tx_state" where
  "set_task tid k p st = st\<lparr>tx_starts := im_insert tid (k\<lparr>sk_phase := p\<rparr>) (tx_starts st)\<rparr>"

definition end_task :: "nat \<Rightarrow> tx_state \<Rightarrow> tx_state" where
  "end_task tid st = st\<lparr>tx_starts := im_remove tid (tx_starts st)\<rparr>"

definition take_session :: "string \<Rightarrow> tx_state \<Rightarrow> tx_state" where
  "take_session sid st = st\<lparr>tx_sessions := im_remove sid (tx_sessions st)\<rparr>"

definition put_session :: "string \<Rightarrow> tx_session \<Rightarrow> tx_state \<Rightarrow> tx_state" where
  "put_session sid s st = st\<lparr>tx_sessions := im_insert sid s (tx_sessions st)\<rparr>"

section \<open>start\<close>

text \<open>An operation answers with its result once it has one.\<close>

type_synonym start_answer = "(start_error + string) option"

definition start_begin :: "tx_config \<Rightarrow> nat \<Rightarrow> start_opts \<Rightarrow> tx_state \<Rightarrow> start_answer \<times> tx_state" where
  "start_begin C tid o1 st =
     (if tid \<in> fst ` set (tx_starts st) then (None, st)
      else if \<not> is_source_path_allowed (tc_roots C) (so_input o1) then (Some (Inl (SeForbidden (so_input o1))), st)
      else let hot = (case parent_of (so_input o1) of None \<Rightarrow> tx_hot st | Some d \<Rightarrow> note_hot_dir d (tx_hot st)) in
        (None, st\<lparr>tx_hot := hot, tx_starts := im_insert tid \<lparr>sk_opts = o1, sk_phase = Waiting\<rparr> (tx_starts st)\<rparr>))"

definition gate_free :: "start_opts \<Rightarrow> tx_state \<Rightarrow> bool" where
  "gate_free o1 st \<longleftrightarrow>
     list_all (\<lambda>(_, k). sk_phase k = Waiting \<or> coalesce_key (sk_opts k) \<noteq> coalesce_key o1) (tx_starts st)"

text \<open>\<open>order\<close> is the order in which the \<open>HashMap\<close> happens to iterate.\<close>

definition start_match :: "((string, tx_session) imap \<Rightarrow> (string, tx_session) imap) \<Rightarrow> nat \<Rightarrow> nat \<Rightarrow> tx_state \<Rightarrow> start_answer \<times> tx_state" where
  "start_match order now tid st =
     (case im_get (tx_starts st) tid of
        Some k \<Rightarrow>
          if sk_phase k = Waiting \<and> gate_free (sk_opts k) st
          then (case find_owner_title_session (order (tx_sessions st)) now (sk_opts k) of
                  Some (sid, True) \<Rightarrow> (Some (Inr sid), end_task tid st)
                | Some (sid, False) \<Rightarrow> (None, set_task tid k (Stale sid) st)
                | None \<Rightarrow> (None, set_task tid k Claiming st))
          else (None, st)
      | None \<Rightarrow> (None, st))"

definition start_supersede :: "nat \<Rightarrow> tx_state \<Rightarrow> tx_state" where
  "start_supersede tid st =
     (case im_get (tx_starts st) tid of
        Some k \<Rightarrow>
          (case sk_phase k of
             Stale sid \<Rightarrow>
               (case im_get (tx_sessions st) sid of
                  None \<Rightarrow> set_task tid k Claiming st
                | Some s \<Rightarrow> send_cmd sid Shutdown (take_session sid (set_task tid k (Superseding sid s) st)))
           | Superseding sid s \<Rightarrow> remove_dir (ts_dir s) (release_permit (ts_permit s) (set_task tid k Claiming st))
           | _ \<Rightarrow> st)
      | None \<Rightarrow> st)"

text \<open>
  The sequence number is a process-wide \<open>u64\<close>; fewer than \<open>2^64\<close> starts are assumed, so it does not wrap.  The
  code then checks whether the new identifier is already in the map and would stop that session first; it
  never is (\<open>spawning_unregistered\<close> in \<open>Tx_Permits\<close>), so the branch has no counterpart here.
\<close>

definition start_claim :: "tx_config \<Rightarrow> nat \<Rightarrow> nat \<Rightarrow> tx_state \<Rightarrow> start_answer \<times> tx_state" where
  "start_claim C now tid st =
     (case im_get (tx_starts st) tid of
        Some k \<Rightarrow>
          if sk_phase k = Claiming
          then let o1 = sk_opts k; charge = cpu_charge C o1 in
            (case seq_try_acquire (tc_caps C) charge (tx_total st) (tx_cpu st) of
               Inl e \<Rightarrow> (Some (Inl (SeBusy e)), end_task tid st)
             | Inr (t, c) \<Rightarrow>
                 (None, set_task tid k
                    (Spawning (make_session_id (so_kind o1) (so_media_id o1) (so_sub o1) now (tx_seq st)) now charge)
                    (st\<lparr>tx_total := t, tx_cpu := c, tx_seq := tx_seq st + 1\<rparr>)))
          else (None, st)
      | None \<Rightarrow> (None, st))"

definition make_session :: "tx_config \<Rightarrow> start_opts \<Rightarrow> string \<Rightarrow> nat \<Rightarrow> bool \<Rightarrow> (nat \<times> nat) option \<Rightarrow> tx_session" where
  "make_session C o1 sid now permit grid1 =
     (let (eff_start, eff_number) = (case grid1 of None \<Rightarrow> (so_start o1, 0) | Some p \<Rightarrow> p) in
      \<lparr>ts_kind = so_kind o1, ts_media_id = so_media_id o1, ts_sub = so_sub o1, ts_dir = session_dir (tc_tmp_root C) sid,
       ts_started = now, ts_last_seen = now, ts_start = eff_start, ts_requested = so_start o1, ts_junctions = [],
       ts_on_grid = (grid1 \<noteq> None), ts_number = eff_number, ts_restarts = 0, ts_permit = permit, ts_plan = so_plan o1,
       ts_input = so_input o1, ts_codec = so_codec o1, ts_profile = so_profile o1, ts_avg = so_avg o1,
       ts_client_max = so_client_max o1, ts_duration = so_duration o1, ts_owner = so_owner o1,
       ts_subtitle = so_subtitle o1, ts_tracks = so_tracks o1\<rparr>)"

definition new_supervisor :: "nat \<Rightarrow> supervisor" where
  "new_supervisor clk = \<lparr>su_slot = Running, su_spawned = clk, su_last_run = 0, su_queue = []\<rparr>"

definition start_spawn ::
  "tx_config \<Rightarrow> (string \<Rightarrow> f64 list option) \<Rightarrow> bool \<Rightarrow> bool \<Rightarrow> nat \<Rightarrow> nat \<Rightarrow> tx_state \<Rightarrow> start_answer \<times> tx_state" where
  "start_spawn C kf mkdir_ok spawn_ok clk tid st =
     (case im_get (tx_starts st) tid of
        Some k \<Rightarrow>
          (case sk_phase k of
             Spawning sid now permit \<Rightarrow>
               let o1 = sk_opts k; d = session_dir (tc_tmp_root C) sid in
               if \<not> mkdir_ok then (Some (Inl SeIo), release_permit permit (end_task tid st))
               else if \<not> spawn_ok then (Some (Inl SeSpawn), release_permit permit (end_task tid (create_dir d st)))
               else let s = make_session C o1 sid now permit
                      (grid_start kf (so_plan o1) (so_input o1) (so_duration o1) (so_start o1));
                      st1 = put_session sid s (end_task tid (create_dir d st))
                 in (Some (Inr sid), st1\<lparr>tx_sups := im_insert sid (new_supervisor clk) (tx_sups st1)\<rparr>)
           | _ \<Rightarrow> (None, st))
      | None \<Rightarrow> (None, st))"

text \<open>The client goes away: the future is dropped where it is, and with it what it holds.\<close>

definition start_cancel :: "nat \<Rightarrow> tx_state \<Rightarrow> tx_state" where
  "start_cancel tid st =
     (case im_get (tx_starts st) tid of
        Some k \<Rightarrow>
          (case sk_phase k of
             Superseding sid s \<Rightarrow> release_permit (ts_permit s) (end_task tid st)
           | Spawning sid now permit \<Rightarrow> release_permit permit (end_task tid st)
           | _ \<Rightarrow> end_task tid st)
      | None \<Rightarrow> st)"

section \<open>stop, heartbeat, sweep\<close>

definition stop_begin :: "nat \<Rightarrow> string \<Rightarrow> tx_state \<Rightarrow> tx_state" where
  "stop_begin tid sid st =
     (case im_get (tx_sessions st) sid of
        None \<Rightarrow> st
      | Some s \<Rightarrow>
          if tid \<in> fst ` set (tx_stops st) then st
          else send_cmd sid Shutdown
            (take_session sid (st\<lparr>tx_stops := im_insert tid (sid, s) (tx_stops st)\<rparr>)))"

definition stop_end :: "bool \<Rightarrow> nat \<Rightarrow> tx_state \<Rightarrow> tx_state" where
  "stop_end cancelled tid st =
     (case im_get (tx_stops st) tid of
        None \<Rightarrow> st
      | Some (sid, s) \<Rightarrow>
          let st1 = release_permit (ts_permit s) (st\<lparr>tx_stops := im_remove tid (tx_stops st)\<rparr>)
          in if cancelled then st1 else remove_dir (ts_dir s) st1)"

definition tx_heartbeat :: "nat \<Rightarrow> string \<Rightarrow> tx_state \<Rightarrow> bool \<times> tx_state" where
  "tx_heartbeat now sid st =
     (case im_get (tx_sessions st) sid of
        None \<Rightarrow> (False, st)
      | Some s \<Rightarrow> (True, put_session sid (s\<lparr>ts_last_seen := now\<rparr>) st))"

definition session_owner :: "tx_state \<Rightarrow> string \<Rightarrow> string option option" where
  "session_owner st sid = map_option ts_owner (im_get (tx_sessions st) sid)"

definition list_infos :: "tx_state \<Rightarrow> session_info list" where
  "list_infos st = map (\<lambda>(sid, s). session_info_of sid s) (tx_sessions st)"

definition stale_sessions :: "nat \<Rightarrow> tx_state \<Rightarrow> string list" where
  "stale_sessions now st = map fst (filter (\<lambda>(_, s). now - ts_last_seen s > idle_timeout) (tx_sessions st))"

section \<open>seek and backfill\<close>

definition seek_begin :: "nat \<Rightarrow> nat \<Rightarrow> string \<Rightarrow> nat \<Rightarrow> tx_state \<Rightarrow> bool option \<times> tx_state" where
  "seek_begin ack now sid to_secs st =
     (case im_get (tx_sessions st) sid of
        None \<Rightarrow> (Some False, st)
      | Some s \<Rightarrow>
          let st1 = put_session sid (s\<lparr>ts_start := to_secs, ts_last_seen := now\<rparr>) st
          in (if im_get (tx_sups st) sid = None then Some False else None, send_cmd sid (Restart ack) st1))"

definition needs_backfill :: "dir \<Rightarrow> tx_session \<Rightarrow> nat \<Rightarrow> bool" where
  "needs_backfill d s index =
     (let frontier = (case max_segment_index d of None \<Rightarrow> ts_number s | Some m \<Rightarrow> max m (ts_number s))
      in \<not> (index \<ge> ts_number s \<and> index \<le> frontier + backfill_ahead_segments))"

definition backfill_begin ::
  "(string \<Rightarrow> f64 list option) \<Rightarrow> nat \<Rightarrow> nat \<Rightarrow> string \<Rightarrow> nat \<Rightarrow> tx_state \<Rightarrow> bool option \<times> tx_state" where
  "backfill_begin kf ack now sid index st =
     (case im_get (tx_sessions st) sid of
        None \<Rightarrow> (Some False, st)
      | Some s \<Rightarrow>
          if \<not> ts_on_grid s \<or> \<not> needs_backfill (read_dir st (ts_dir s)) s index then (Some False, st)
          else (case backfill_secs kf (ts_plan s) (ts_input s) (ts_duration s) index of
                  None \<Rightarrow> (Some False, st)
                | Some secs \<Rightarrow>
                    if sid \<in> set (tx_backfilling st) then (Some False, st)
                    else seek_begin ack now sid secs (st\<lparr>tx_backfilling := sid # tx_backfilling st\<rparr>)))"

text \<open>The end of a backfill that was waited for.\<close>

definition backfill_end :: "string \<Rightarrow> tx_state \<Rightarrow> tx_state" where
  "backfill_end sid st = st\<lparr>tx_backfilling := filter (\<lambda>x. x \<noteq> sid) (tx_backfilling st)\<rparr>"

section \<open>The supervisor\<close>

definition set_slot :: "string \<Rightarrow> supervisor \<Rightarrow> sup_slot \<Rightarrow> tx_state \<Rightarrow> tx_state" where
  "set_slot sid u p st = st\<lparr>tx_sups := im_insert sid (u\<lparr>su_slot := p\<rparr>) (tx_sups st)\<rparr>"

definition end_supervisor :: "string \<Rightarrow> tx_state \<Rightarrow> tx_state" where
  "end_supervisor sid st = st\<lparr>tx_sups := im_remove sid (tx_sups st)\<rparr>"

definition send_ack :: "nat option \<Rightarrow> bool \<Rightarrow> tx_state \<Rightarrow> tx_state" where
  "send_ack a b st = (case a of None \<Rightarrow> st | Some n \<Rightarrow> st\<lparr>tx_acks := (n, b) # tx_acks st\<rparr>)"

text \<open>\<open>child.wait()\<close> returned.\<close>

definition sup_exit :: "bool \<Rightarrow> nat \<Rightarrow> string \<Rightarrow> tx_state \<Rightarrow> tx_state" where
  "sup_exit clean clk sid st =
     (case im_get (tx_sups st) sid of
        None \<Rightarrow> st
      | Some u \<Rightarrow>
          if su_slot u = Running
          then if clean then set_slot sid u Completed st
               else set_slot sid (u\<lparr>su_last_run := clk - su_spawned u\<rparr>) Crashed st
          else st)"

text \<open>
  \<open>ctl.recv()\<close> in the three places a supervisor listens.  A command that ends a running child kills
  it first (\<open>kill_child\<close>), so the child is gone when the step is over.
\<close>

definition listens :: "sup_slot \<Rightarrow> bool" where
  "listens p = (case p of Running \<Rightarrow> True | Completed \<Rightarrow> True | Backoff _ \<Rightarrow> True | _ \<Rightarrow> False)"

definition sup_recv :: "string \<Rightarrow> tx_state \<Rightarrow> tx_state" where
  "sup_recv sid st =
     (case im_get (tx_sups st) sid of
        None \<Rightarrow> st
      | Some u \<Rightarrow>
          if listens (su_slot u)
          then (case su_queue u of
                  [] \<Rightarrow> st
                | Restart a # q \<Rightarrow> set_slot sid (u\<lparr>su_queue := q\<rparr>) (Respawning SeekMode (Some a)) st
                | Shutdown # q \<Rightarrow> end_supervisor sid st)
          else st)"

text \<open>The channel closed without a \<open>Shutdown\<close>: no one holds the session any more.\<close>

definition session_held :: "string \<Rightarrow> tx_state \<Rightarrow> bool" where
  "session_held sid st \<longleftrightarrow> sid \<in> fst ` set (tx_sessions st) \<or> list_ex (\<lambda>(_, x, _). x = sid) (tx_stops st)
     \<or> list_ex (\<lambda>(_, k). case sk_phase k of Superseding x _ \<Rightarrow> x = sid | _ \<Rightarrow> False) (tx_starts st)"

definition sup_closed :: "string \<Rightarrow> tx_state \<Rightarrow> tx_state" where
  "sup_closed sid st =
     (case im_get (tx_sups st) sid of
        None \<Rightarrow> st
      | Some u \<Rightarrow> if listens (su_slot u) \<and> su_queue u = [] \<and> \<not> session_held sid st then end_supervisor sid st else st)"

definition sup_crash :: "string \<Rightarrow> tx_state \<Rightarrow> tx_state" where
  "sup_crash sid st =
     (case im_get (tx_sups st) sid of
        None \<Rightarrow> st
      | Some u \<Rightarrow>
          if su_slot u = Crashed
          then (case im_get (tx_sessions st) sid of
                  None \<Rightarrow> end_supervisor sid st
                | Some s \<Rightarrow>
                    let restarts = effective_restart_count (ts_restarts s) (su_last_run u) in
                    if restarts \<ge> max_restarts
                    then end_supervisor sid (remove_dir (ts_dir s) (release_permit (ts_permit s) (take_session sid st)))
                    else set_slot sid (u\<lparr>su_last_run := 0\<rparr>) (Backoff (restarts + 1))
                           (put_session sid (s\<lparr>ts_restarts := restarts + 1\<rparr>) st))
          else st)"

text \<open>The backoff of \<open>backoff_ms\<close> is over.\<close>

definition sup_timer :: "string \<Rightarrow> tx_state \<Rightarrow> tx_state" where
  "sup_timer sid st =
     (case im_get (tx_sups st) sid of
        None \<Rightarrow> st
      | Some u \<Rightarrow> (case su_slot u of Backoff _ \<Rightarrow> set_slot sid u (Respawning CrashMode None) st | _ \<Rightarrow> st))"

section \<open>respawn\<close>

definition respawn_gone :: "string \<Rightarrow> nat option \<Rightarrow> tx_state \<Rightarrow> tx_state" where
  "respawn_gone sid a st = end_supervisor sid (send_ack a False st)"

definition sup_snapshot :: "string \<Rightarrow> tx_state \<Rightarrow> tx_state" where
  "sup_snapshot sid st =
     (case im_get (tx_sups st) sid of
        None \<Rightarrow> st
      | Some u \<Rightarrow>
          (case su_slot u of
             Respawning m a \<Rightarrow>
               (case im_get (tx_sessions st) sid of
                  None \<Rightarrow> respawn_gone sid a st
                | Some s \<Rightarrow> set_slot sid u (Snapped m a s) st)
           | _ \<Rightarrow> st))"

text \<open>
  What the respawn decides from the session it read (\<open>s\<close>) and the directory: the start number it
  passes, the first new segment, the offset, whether it is on the grid, and the directory left.
\<close>

definition respawn_target ::
  "(string \<Rightarrow> f64 list option) \<Rightarrow> respawn_mode \<Rightarrow> tx_session \<Rightarrow> dir \<Rightarrow> nat \<times> nat \<times> nat \<times> bool option \<times> dir" where
  "respawn_target kf m s d =
     (case m of
        CrashMode \<Rightarrow>
          (let (start_arg, next, d') = crash_resume d (ts_number s)
           in (start_arg, next, crash_resume_secs (ts_start s) (ts_number s) next, None, d'))
      | SeekMode \<Rightarrow>
          (case grid_start kf (ts_plan s) (ts_input s) (ts_duration s) (ts_start s) of
             Some (eff, n) \<Rightarrow> (n, n, eff, Some True, d)
           | None \<Rightarrow>
               let next = (case max_segment_index d of None \<Rightarrow> ts_number s | Some i \<Rightarrow> max (i + 1) (ts_number s))
               in (next, next, ts_start s, Some False, d)))"

definition respawned :: "respawn_mode \<Rightarrow> nat \<Rightarrow> nat \<Rightarrow> bool option \<Rightarrow> tx_session \<Rightarrow> tx_session" where
  "respawned m next spawn_secs grid1 s =
     s\<lparr>ts_start := spawn_secs, ts_number := next,
       ts_junctions := (if m = CrashMode then ts_junctions s @ [next] else []),
       ts_on_grid := (case grid1 of None \<Rightarrow> ts_on_grid s | Some g \<Rightarrow> g)\<rparr>"

definition write_dir :: "string \<Rightarrow> dir \<Rightarrow> tx_state \<Rightarrow> tx_state" where
  "write_dir p d st = (if tx_fs st p = None then st else st\<lparr>tx_fs := (tx_fs st)(p := Some d)\<rparr>)"

definition sup_persist :: "(string \<Rightarrow> f64 list option) \<Rightarrow> string \<Rightarrow> tx_state \<Rightarrow> tx_state" where
  "sup_persist kf sid st =
     (case im_get (tx_sups st) sid of
        None \<Rightarrow> st
      | Some u \<Rightarrow>
          (case su_slot u of
             Snapped m a s0 \<Rightarrow>
               (let (start_arg, next, spawn_secs, grid1, d) = respawn_target kf m s0 (read_dir st (ts_dir s0));
                    st1 = write_dir (ts_dir s0) d st
                in case im_get (tx_sessions st) sid of
                     None \<Rightarrow> respawn_gone sid a st1
                   | Some s \<Rightarrow>
                       set_slot sid u (Launching a s0 start_arg spawn_secs)
                         (write_dir (ts_dir s0) (if m = CrashMode then d else clear_pipeline_outputs d)
                           (put_session sid (respawned m next spawn_secs grid1 s) st1)))
           | _ \<Rightarrow> st))"

definition sup_launch :: "bool \<Rightarrow> bool \<Rightarrow> nat \<Rightarrow> string \<Rightarrow> tx_state \<Rightarrow> tx_state" where
  "sup_launch mkdir_ok spawn_ok clk sid st =
     (case im_get (tx_sups st) sid of
        None \<Rightarrow> st
      | Some u \<Rightarrow>
          (case su_slot u of
             Launching a s0 start_arg spawn_secs \<Rightarrow>
               if \<not> mkdir_ok then send_ack a False (set_slot sid (u\<lparr>su_last_run := 0\<rparr>) Crashed st)
               else if \<not> spawn_ok
               then send_ack a False (set_slot sid (u\<lparr>su_last_run := 0\<rparr>) Crashed (create_dir (ts_dir s0) st))
               else if im_get (tx_sessions st) sid = None then respawn_gone sid a (remove_dir (ts_dir s0) st)
               else send_ack a True (set_slot sid (u\<lparr>su_spawned := clk\<rparr>) Running (create_dir (ts_dir s0) st))
           | _ \<Rightarrow> st))"

text \<open>What the child of a \<open>Launching\<close> supervisor is started with.\<close>

definition respawn_args :: "tx_config \<Rightarrow> sup_slot \<Rightarrow> string list option" where
  "respawn_args C p = (case p of Launching _ s0 start_arg spawn_secs \<Rightarrow> Some (child_args C s0 spawn_secs start_arg) | _ \<Rightarrow> None)"

section \<open>The machine\<close>

text \<open>The last event is ffmpeg writing a directory: its contents become anything.\<close>

datatype tx_event =
  EStart nat start_opts
| EMatch "(string, tx_session) imap" nat nat
| ESupersede nat
| EClaim nat nat
| ESpawn "string \<Rightarrow> f64 list option" bool bool nat nat
| ECancel nat
| EStop nat string
| EStopEnd bool nat
| EHeartbeat nat string
| ESeek nat nat string nat
| EBackfill "string \<Rightarrow> f64 list option" nat nat string nat
| EBackfillEnd string
| EExit bool nat string
| ERecv string
| EClosed string
| ECrash string
| ETimer string
| ESnapshot string
| EPersist "string \<Rightarrow> f64 list option" string
| ELaunch bool bool nat string
| EWrite string dir

definition iteration_order :: "(string, tx_session) imap \<Rightarrow> (string, tx_session) imap \<Rightarrow> (string, tx_session) imap" where
  "iteration_order m n = (if set m = set n \<and> distinct m then m else n)"

fun tx_step :: "tx_config \<Rightarrow> tx_state \<Rightarrow> tx_event \<Rightarrow> tx_state" where
  "tx_step C st (EStart tid o1) = snd (start_begin C tid o1 st)"
| "tx_step C st (EMatch m now tid) = snd (start_match (iteration_order m) now tid st)"
| "tx_step C st (ESupersede tid) = start_supersede tid st"
| "tx_step C st (EClaim now tid) = snd (start_claim C now tid st)"
| "tx_step C st (ESpawn kf a b clk tid) = snd (start_spawn C kf a b clk tid st)"
| "tx_step C st (ECancel tid) = start_cancel tid st"
| "tx_step C st (EStop tid sid) = stop_begin tid sid st"
| "tx_step C st (EStopEnd c tid) = stop_end c tid st"
| "tx_step C st (EHeartbeat now sid) = snd (tx_heartbeat now sid st)"
| "tx_step C st (ESeek ack now sid secs) = snd (seek_begin ack now sid secs st)"
| "tx_step C st (EBackfill kf ack now sid index) = snd (backfill_begin kf ack now sid index st)"
| "tx_step C st (EBackfillEnd sid) = backfill_end sid st"
| "tx_step C st (EExit clean clk sid) = sup_exit clean clk sid st"
| "tx_step C st (ERecv sid) = sup_recv sid st"
| "tx_step C st (EClosed sid) = sup_closed sid st"
| "tx_step C st (ECrash sid) = sup_crash sid st"
| "tx_step C st (ETimer sid) = sup_timer sid st"
| "tx_step C st (ESnapshot sid) = sup_snapshot sid st"
| "tx_step C st (EPersist kf sid) = sup_persist kf sid st"
| "tx_step C st (ELaunch a b clk sid) = sup_launch a b clk sid st"
| "tx_step C st (EWrite p d) = write_dir p d st"

definition tx_run :: "tx_config \<Rightarrow> tx_event list \<Rightarrow> tx_state" where
  "tx_run C evs = foldl (tx_step C) new_manager evs"

end
