(* ===== verification/Tx_Permits.thy ===== *)
theory Tx_Permits
  imports Tx_Supervisor
begin

text \<open>
  The session manager's invariants over any interleaving of its tasks: who holds the limiter's permits,
  which starts are past their gate, and which supervisor writes which directory.
\<close>

section \<open>Sums over maps\<close>

definition weight :: "('v \<Rightarrow> nat) \<Rightarrow> ('k, 'v) imap \<Rightarrow> nat" where
  "weight f m = sum_list (map (f \<circ> snd) m)"

lemma weight_Nil [simp]: "weight f [] = 0"
  by (simp add: weight_def)

lemma weight_Cons [simp]: "weight f (p # m) = f (snd p) + weight f m"
  by (simp add: weight_def)

lemma weight_insert_new: "im_get m k = None \<Longrightarrow> weight f (im_insert k v m) = weight f m + f v"
  by (induction m) auto

lemma weight_insert_old: "im_wf m \<Longrightarrow> im_get m k = Some v0 \<Longrightarrow> weight f (im_insert k v m) + f v0 = weight f m + f v"
  by (induction m) auto

lemma weight_remove: "im_wf m \<Longrightarrow> im_get m k = Some v \<Longrightarrow> weight f (im_remove k m) + f v = weight f m"
proof (induction m)
  case (Cons p m)
  then show ?case by (cases p) (auto simp: delete_notin_dom dest: map_of_eq_None_iff [THEN iffD2])
qed simp

section \<open>Permits\<close>

fun phase_weight :: "(bool \<Rightarrow> nat) \<Rightarrow> start_phase \<Rightarrow> nat" where
  "phase_weight w (Superseding sid s) = w (ts_permit s)"
| "phase_weight w (Spawning sid now p) = w p"
| "phase_weight w _ = 0"

definition held :: "(bool \<Rightarrow> nat) \<Rightarrow> tx_state \<Rightarrow> nat" where
  "held w st = weight (w \<circ> ts_permit) (tx_sessions st) + weight (\<lambda>(_, s). w (ts_permit s)) (tx_stops st)
     + weight (\<lambda>k. phase_weight w (sk_phase k)) (tx_starts st)"

definition maps_wf :: "tx_state \<Rightarrow> bool" where
  "maps_wf st \<longleftrightarrow> im_wf (tx_sessions st) \<and> im_wf (tx_stops st) \<and> im_wf (tx_starts st) \<and> im_wf (tx_sups st)"

definition permits_ok :: "tx_config \<Rightarrow> tx_state \<Rightarrow> bool" where
  "permits_ok C st \<longleftrightarrow> maps_wf st \<and> tx_total st = held (\<lambda>_. 1) st \<and> tx_cpu st = held of_bool st
     \<and> tx_total st \<le> max_total (tc_caps C) \<and> tx_cpu st \<le> max_cpu (tc_caps C)"

text \<open>The fields the permits depend on, and the pieces that leave them alone.\<close>

definition same_holders :: "tx_state \<Rightarrow> tx_state \<Rightarrow> bool" where
  "same_holders st st' \<longleftrightarrow> tx_total st' = tx_total st \<and> tx_cpu st' = tx_cpu st \<and> tx_starts st' = tx_starts st
     \<and> tx_stops st' = tx_stops st \<and> (im_wf (tx_sups st) \<longrightarrow> im_wf (tx_sups st'))
     \<and> (im_wf (tx_sessions st) \<longrightarrow> im_wf (tx_sessions st')
          \<and> (\<forall>w. weight (w \<circ> ts_permit) (tx_sessions st') = weight (w \<circ> ts_permit) (tx_sessions st)))"

lemma same_holders_ok: "same_holders st st' \<Longrightarrow> permits_ok C st \<Longrightarrow> permits_ok C st'"
  by (simp add: same_holders_def permits_ok_def maps_wf_def held_def)

lemma same_holders_refl [intro, simp]: "same_holders st st"
  by (simp add: same_holders_def)

lemma same_holders_trans: "same_holders a b \<Longrightarrow> same_holders b c \<Longrightarrow> same_holders a c"
  by (auto simp: same_holders_def)

lemma same_holders_put:
  assumes "im_get (tx_sessions st) sid = Some s" "ts_permit s' = ts_permit s"
  shows "same_holders st (put_session sid s' st)"
proof -
  have "weight (w \<circ> ts_permit) (im_insert sid s' (tx_sessions st)) = weight (w \<circ> ts_permit) (tx_sessions st)"
    if "im_wf (tx_sessions st)" for w
    using weight_insert_old [OF that assms(1), of "w \<circ> ts_permit" s'] assms(2) by simp
  then show ?thesis by (simp add: same_holders_def put_session_def)
qed

lemma same_holders_pieces [simp]:
  "same_holders st (set_slot sid u p st)" "same_holders st (end_supervisor sid st)" "same_holders st (send_ack a b st)"
  "same_holders st (remove_dir d st)" "same_holders st (create_dir d st)" "same_holders st (write_dir d x st)"
  "same_holders st (send_cmd sid c st)" "same_holders st (backfill_end sid st)"
  by (auto simp: same_holders_def set_slot_def end_supervisor_def send_ack_def remove_dir_def create_dir_def write_dir_def
      send_cmd_def backfill_end_def split: option.splits)

lemma same_holders_step [intro]:
  "same_holders st a \<Longrightarrow> same_holders st (set_slot sid u p a)" "same_holders st a \<Longrightarrow> same_holders st (end_supervisor sid a)"
  "same_holders st a \<Longrightarrow> same_holders st (send_ack x b a)" "same_holders st a \<Longrightarrow> same_holders st (remove_dir d a)"
  "same_holders st a \<Longrightarrow> same_holders st (create_dir d a)" "same_holders st a \<Longrightarrow> same_holders st (write_dir d y a)"
  "same_holders st a \<Longrightarrow> same_holders st (send_cmd sid c a)" "same_holders st a \<Longrightarrow> same_holders st (backfill_end sid a)"
  by (rule same_holders_trans, assumption, simp)+

section \<open>Every step keeps the permits\<close>

lemma sup_same_holders:
  "same_holders st (sup_exit clean clk sid st)" "same_holders st (sup_recv sid st)"
  "same_holders st (sup_closed sid st)" "same_holders st (sup_timer sid st)" "same_holders st (sup_snapshot sid st)"
  "same_holders st (sup_launch a b clk sid st)"
  by (auto simp: sup_exit_def sup_recv_def sup_closed_def sup_timer_def sup_snapshot_def sup_launch_def respawn_gone_def
      split: option.splits sup_slot.splits list.splits tx_cmd.splits)

lemma respawned_permit [simp]: "ts_permit (respawned m n t g s) = ts_permit s"
  by (simp add: respawned_def)

lemma sup_persist_holders: "same_holders st (sup_persist kf sid st)"
proof -
  have put: "same_holders st (put_session sid (respawned m n t g s) (write_dir p d st))"
    if "im_get (tx_sessions st) sid = Some s" for m n t g s p d
  proof -
    have "tx_sessions (write_dir p d st) = tx_sessions st" by (simp add: write_dir_def)
    then show ?thesis using that same_holders_put same_holders_trans same_holders_pieces(6) by (metis respawned_permit)
  qed
  show ?thesis
    unfolding sup_persist_def Let_def respawn_gone_def
    by (auto split: option.splits sup_slot.splits prod.splits intro!: same_holders_step put)
qed

lemma seek_holders: "same_holders st (snd (seek_begin ack now sid secs st))"
  by (auto simp: seek_begin_def Let_def split: option.splits intro!: same_holders_step same_holders_put)

lemma backfill_holders: "same_holders st (snd (backfill_begin kf ack now sid index st))"
proof -
  have "same_holders st (st\<lparr>tx_backfilling := l\<rparr>)" for l by (simp add: same_holders_def)
  then have "same_holders st (snd (seek_begin ack now sid secs (st\<lparr>tx_backfilling := l\<rparr>)))" for secs l
    using same_holders_trans seek_holders by blast
  then show ?thesis by (auto simp: backfill_begin_def split: option.splits)
qed

lemma heartbeat_holders: "same_holders st (snd (tx_heartbeat now sid st))"
  by (auto simp: tx_heartbeat_def split: option.splits intro!: same_holders_put)

lemma maps_wf_pieces [simp]:
  "maps_wf st \<Longrightarrow> maps_wf (set_task tid k p st)" "maps_wf st \<Longrightarrow> maps_wf (end_task tid st)"
  "maps_wf st \<Longrightarrow> maps_wf (take_session sid st)" "maps_wf st \<Longrightarrow> maps_wf (put_session sid s st)"
  "maps_wf (release_permit b st) = maps_wf st" "maps_wf (remove_dir d st) = maps_wf st"
  "maps_wf (create_dir d st) = maps_wf st" "maps_wf st \<Longrightarrow> maps_wf (send_cmd sid c st)"
  "maps_wf st \<Longrightarrow> maps_wf (end_supervisor sid st)"
  by (simp_all add: maps_wf_def set_task_def end_task_def take_session_def put_session_def release_permit_def
      remove_dir_def create_dir_def send_cmd_def end_supervisor_def split: option.splits)

lemma held_pieces [simp]:
  "held w (release_permit b st) = held w st" "held w (remove_dir d st) = held w st" "held w (create_dir d st) = held w st"
  "held w (send_cmd sid c st) = held w st" "held w (end_supervisor sid st) = held w st"
  by (simp_all add: held_def release_permit_def remove_dir_def create_dir_def send_cmd_def end_supervisor_def split: option.splits)

lemma counter_pieces [simp]:
  "tx_total (remove_dir d st) = tx_total st" "tx_total (create_dir d st) = tx_total st"
  "tx_total (send_cmd sid c st) = tx_total st" "tx_total (end_supervisor sid st) = tx_total st"
  "tx_total (set_task tid k p st) = tx_total st" "tx_total (end_task tid st) = tx_total st"
  "tx_total (take_session sid st) = tx_total st" "tx_total (put_session sid s st) = tx_total st"
  "tx_cpu (remove_dir d st) = tx_cpu st" "tx_cpu (create_dir d st) = tx_cpu st"
  "tx_cpu (send_cmd sid c st) = tx_cpu st" "tx_cpu (end_supervisor sid st) = tx_cpu st"
  "tx_cpu (set_task tid k p st) = tx_cpu st" "tx_cpu (end_task tid st) = tx_cpu st"
  "tx_cpu (take_session sid st) = tx_cpu st" "tx_cpu (put_session sid s st) = tx_cpu st"
  by (simp_all add: set_task_def end_task_def take_session_def put_session_def remove_dir_def create_dir_def send_cmd_def
      end_supervisor_def split: option.splits)

lemma held_set_task:
  "maps_wf st \<Longrightarrow> im_get (tx_starts st) tid = Some k \<Longrightarrow>
   held w (set_task tid k p st) + phase_weight w (sk_phase k) = held w st + phase_weight w p"
  using weight_insert_old [of "tx_starts st" tid k "\<lambda>k. phase_weight w (sk_phase k)" "k\<lparr>sk_phase := p\<rparr>"]
  by (simp add: held_def set_task_def maps_wf_def)

lemma held_end_task:
  "maps_wf st \<Longrightarrow> im_get (tx_starts st) tid = Some k \<Longrightarrow> held w (end_task tid st) + phase_weight w (sk_phase k) = held w st"
  using weight_remove [of "tx_starts st" tid k "\<lambda>k. phase_weight w (sk_phase k)"]
  by (simp add: held_def end_task_def maps_wf_def)

lemma held_take:
  "maps_wf st \<Longrightarrow> im_get (tx_sessions st) sid = Some s \<Longrightarrow> held w (take_session sid st) + w (ts_permit s) = held w st"
  using weight_remove [of "tx_sessions st" sid s "w \<circ> ts_permit"] by (simp add: held_def take_session_def maps_wf_def)

lemma held_put_new:
  "im_get (tx_sessions st) sid = None \<Longrightarrow> held w (put_session sid s st) = held w st + w (ts_permit s)"
  using weight_insert_new [of "tx_sessions st" sid "w \<circ> ts_permit" s] by (simp add: held_def put_session_def)

text \<open>Giving a permit back: the holder is gone and the counters follow.\<close>

lemma permits_okI_release:
  assumes "permits_ok C st" "maps_wf st'" "tx_total st' = tx_total st" "tx_cpu st' = tx_cpu st"
    and "held (\<lambda>_. 1) st' + 1 = held (\<lambda>_. 1) st" "held of_bool st' + of_bool b = held of_bool st"
  shows "permits_ok C (release_permit b st')"
  using assms by (cases b) (auto simp: permits_ok_def release_permit_def held_def maps_wf_def)

lemma permits_okI_same:
  assumes "permits_ok C st" "maps_wf st'" "tx_total st' = tx_total st" "tx_cpu st' = tx_cpu st"
    and "\<And>w. held w st' = held w st"
  shows "permits_ok C st'"
  using assms by (auto simp: permits_ok_def)

lemma permits_wf: "permits_ok C st \<Longrightarrow> maps_wf st"
  by (simp add: permits_ok_def)

lemma set_task_get:
  "im_get (tx_sessions (set_task tid k p st)) = im_get (tx_sessions st)"
  "im_get (tx_sessions (end_task tid st)) = im_get (tx_sessions st)"
  "im_get (tx_sessions (create_dir d st)) = im_get (tx_sessions st)"
  by (simp_all add: set_task_def end_task_def create_dir_def)

text \<open>Moving between phases that hold nothing.\<close>

lemma set_task_ok:
  assumes "permits_ok C st" "im_get (tx_starts st) tid = Some k" "\<And>w. phase_weight w (sk_phase k) = phase_weight w p"
  shows "permits_ok C (set_task tid k p st)"
proof (rule permits_okI_same [OF assms(1)])
  show "held w (set_task tid k p st) = held w st" for w
    using held_set_task [OF permits_wf [OF assms(1)] assms(2), of w p] assms(3) [of w] by simp
qed (simp_all add: permits_wf [OF assms(1)])

lemma end_task_ok:
  assumes "permits_ok C st" "im_get (tx_starts st) tid = Some k" "\<And>w. phase_weight w (sk_phase k) = 0"
  shows "permits_ok C (end_task tid st)"
proof (rule permits_okI_same [OF assms(1)])
  show "held w (end_task tid st) = held w st" for w
    using held_end_task [OF permits_wf [OF assms(1)] assms(2), of w] assms(3) [of w] by simp
qed (simp_all add: permits_wf [OF assms(1)])

lemma end_task_release:
  assumes "permits_ok C st" "im_get (tx_starts st) tid = Some k" "\<And>w. phase_weight w (sk_phase k) = w b"
  shows "permits_ok C (release_permit b (end_task tid st))"
  using held_end_task [OF permits_wf [OF assms(1)] assms(2), of "\<lambda>_. 1"]
    held_end_task [OF permits_wf [OF assms(1)] assms(2), of of_bool] permits_wf [OF assms(1)]
  by (intro permits_okI_release [OF assms(1)]) (simp_all add: assms(3))

lemma start_begin_ok:
  assumes "permits_ok C st"
  shows "permits_ok C (snd (start_begin C tid o1 st))"
proof (cases "tid \<in> fst ` set (tx_starts st)")
  case False
  then have new: "im_get (tx_starts st) tid = None" by (simp add: map_of_eq_None_iff)
  have "weight (\<lambda>k. phase_weight w (sk_phase k)) (im_insert tid \<lparr>sk_opts = o1, sk_phase = Waiting\<rparr> (tx_starts st))
      = weight (\<lambda>k. phase_weight w (sk_phase k)) (tx_starts st)" for w
    using weight_insert_new [OF new, of "\<lambda>k. phase_weight w (sk_phase k)" "\<lparr>sk_opts = o1, sk_phase = Waiting\<rparr>"] by simp
  then show ?thesis using assms by (auto simp: start_begin_def Let_def permits_ok_def held_def maps_wf_def)
qed (use assms in \<open>simp add: start_begin_def\<close>)

lemma start_match_ok:
  assumes "permits_ok C st"
  shows "permits_ok C (snd (start_match ord now tid st))"
  using assms set_task_ok [OF assms, of tid] end_task_ok [OF assms, of tid]
  by (auto simp: start_match_def split: option.splits bool.splits)

lemma start_supersede_ok:
  assumes ok: "permits_ok C st"
  shows "permits_ok C (start_supersede tid st)"
proof (cases "im_get (tx_starts st) tid")
  case (Some k)
  note wf = permits_wf [OF ok]
  show ?thesis
  proof (cases "sk_phase k")
    case (Stale sid)
    show ?thesis
    proof (cases "im_get (tx_sessions st) sid")
      case None
      then show ?thesis using Some Stale set_task_ok [OF ok Some, of Claiming] by (simp add: start_supersede_def)
    next
      case (Some s)
      let ?a = "set_task tid k (Superseding sid s) st"
      have "held w (take_session sid ?a) = held w st" for w
        using held_set_task [OF wf \<open>im_get (tx_starts st) tid = Some k\<close>, of w "Superseding sid s"] Stale
          held_take [of ?a sid s w] wf Some by (simp add: set_task_get)
      then have "permits_ok C (take_session sid ?a)" using wf by (intro permits_okI_same [OF ok]) simp_all
      then have "permits_ok C (send_cmd sid Shutdown (take_session sid ?a))"
        by (rule same_holders_ok [OF same_holders_pieces(7)])
      then show ?thesis using \<open>im_get (tx_starts st) tid = Some k\<close> Stale Some by (simp add: start_supersede_def)
    qed
  next
    case (Superseding sid s)
    have "permits_ok C (release_permit (ts_permit s) (set_task tid k Claiming st))"
      using held_set_task [OF wf Some, of "\<lambda>_. 1" Claiming] held_set_task [OF wf Some, of of_bool Claiming] wf Superseding
      by (intro permits_okI_release [OF ok]) simp_all
    then show ?thesis using Some Superseding same_holders_ok [OF same_holders_pieces(4)]
      by (simp add: start_supersede_def)
  qed (use Some ok in \<open>simp_all add: start_supersede_def\<close>)
qed (use ok in \<open>simp add: start_supersede_def\<close>)

section \<open>Sessions and supervisors\<close>

text \<open>
  A registered session is within the restart cap, on the grid if its video is re-encoded, and has a
  supervisor that no \<open>Shutdown\<close> is on its way to; a supervisor whose session
  is gone has one in its queue; and whatever a supervisor remembers of its session has its directory.
\<close>

fun slot_dir :: "sup_slot \<Rightarrow> string option" where
  "slot_dir (Snapped m a s) = Some (ts_dir s)"
| "slot_dir (Launching a s n t) = Some (ts_dir s)"
| "slot_dir _ = None"

fun slot_plan :: "sup_slot \<Rightarrow> transcode_plan option" where
  "slot_plan (Snapped m a s) = Some (ts_plan s)"
| "slot_plan _ = None"

definition sup_at :: "string \<Rightarrow> string \<Rightarrow> bool \<Rightarrow> supervisor option \<Rightarrow> bool" where
  "sup_at base sid registered u \<longleftrightarrow>
     (case u of
        None \<Rightarrow> \<not> registered
      | Some u \<Rightarrow> registered = (Shutdown \<notin> set (su_queue u))
          \<and> (slot_dir (su_slot u) = None \<or> slot_dir (su_slot u) = Some (session_dir base sid)))"

definition reg_at :: "string \<Rightarrow> string \<Rightarrow> tx_session option \<Rightarrow> supervisor option \<Rightarrow> bool" where
  "reg_at base sid s u \<longleftrightarrow> sup_at base sid (s \<noteq> None) u
     \<and> (case s of None \<Rightarrow> True | Some s \<Rightarrow> ts_dir s = session_dir base sid \<and> ts_restarts s \<le> max_restarts
          \<and> (reencodes_video (ts_plan s) \<longrightarrow> ts_on_grid s)
          \<and> (case u of None \<Rightarrow> True | Some u \<Rightarrow> slot_plan (su_slot u) = None \<or> slot_plan (su_slot u) = Some (ts_plan s)))"

definition reg_inv :: "tx_config \<Rightarrow> tx_state \<Rightarrow> bool" where
  "reg_inv C st \<longleftrightarrow>
     (\<forall>sid. reg_at (tc_tmp_root C) sid (im_get (tx_sessions st) sid) (im_get (tx_sups st) sid))"

lemma get_pieces [simp]:
  "im_get (tx_sessions (put_session sid s st)) = (im_get (tx_sessions st))(sid \<mapsto> s)"
  "im_get (tx_sups (put_session sid s st)) = im_get (tx_sups st)"
  "im_get (tx_sessions (take_session sid st)) = (im_get (tx_sessions st))(sid := None)"
  "im_get (tx_sups (take_session sid st)) = im_get (tx_sups st)"
  "im_get (tx_sessions (set_slot sid u p st)) = im_get (tx_sessions st)"
  "im_get (tx_sups (set_slot sid u p st)) = (im_get (tx_sups st))(sid \<mapsto> u\<lparr>su_slot := p\<rparr>)"
  "im_get (tx_sessions (end_supervisor sid st)) = im_get (tx_sessions st)"
  "im_get (tx_sups (end_supervisor sid st)) = (im_get (tx_sups st))(sid := None)"
  "im_get (tx_sessions (set_task tid k ph st)) = im_get (tx_sessions st)"
  "im_get (tx_sups (set_task tid k ph st)) = im_get (tx_sups st)"
  "im_get (tx_sessions (end_task tid st)) = im_get (tx_sessions st)"
  "im_get (tx_sups (end_task tid st)) = im_get (tx_sups st)"
  by (simp_all add: put_session_def take_session_def set_slot_def end_supervisor_def set_task_def end_task_def
      update_conv' delete_conv')

lemma map_pieces [simp]:
  "tx_sessions (release_permit b st) = tx_sessions st" "tx_sups (release_permit b st) = tx_sups st"
  "tx_sessions (remove_dir d st) = tx_sessions st" "tx_sups (remove_dir d st) = tx_sups st"
  "tx_sessions (create_dir d st) = tx_sessions st" "tx_sups (create_dir d st) = tx_sups st"
  "tx_sessions (write_dir d x st) = tx_sessions st" "tx_sups (write_dir d x st) = tx_sups st"
  "tx_sessions (send_ack a b st) = tx_sessions st" "tx_sups (send_ack a b st) = tx_sups st"
  "tx_sessions (backfill_end sid st) = tx_sessions st" "tx_sups (backfill_end sid st) = tx_sups st"
  "tx_sessions (send_cmd sid c st) = tx_sessions st"
  by (simp_all add: release_permit_def remove_dir_def create_dir_def write_dir_def send_ack_def backfill_end_def send_cmd_def
      split: option.splits)

lemma send_cmd_get [simp]:
  "im_get (tx_sups (send_cmd sid c st)) =
     (case im_get (tx_sups st) sid of None \<Rightarrow> im_get (tx_sups st)
      | Some u \<Rightarrow> (im_get (tx_sups st))(sid \<mapsto> u\<lparr>su_queue := su_queue u @ [c]\<rparr>))"
  by (auto simp: send_cmd_def update_conv' split: option.splits)

lemma reg_invD: "reg_inv C st \<Longrightarrow> reg_at (tc_tmp_root C) sid (im_get (tx_sessions st) sid) (im_get (tx_sups st) sid)"
  by (simp add: reg_inv_def)

text \<open>A step that touches one session only has that one to account for.\<close>

lemma reg_inv_one:
  assumes "reg_inv C st"
    and "\<And>x. x \<noteq> sid \<Longrightarrow> im_get (tx_sessions st') x = im_get (tx_sessions st) x \<and> im_get (tx_sups st') x = im_get (tx_sups st) x"
    and "reg_at (tc_tmp_root C) sid (im_get (tx_sessions st) sid) (im_get (tx_sups st) sid) \<Longrightarrow>
         reg_at (tc_tmp_root C) sid (im_get (tx_sessions st') sid) (im_get (tx_sups st') sid)"
  shows "reg_inv C st'"
proof -
  have "reg_at (tc_tmp_root C) x (im_get (tx_sessions st') x) (im_get (tx_sups st') x)" for x
    using reg_invD [OF assms(1), of x] assms(2) [of x] assms(3) by (cases "x = sid") auto
  then show ?thesis by (simp add: reg_inv_def)
qed

lemmas reg_simps = reg_at_def sup_at_def

text \<open>The supervisor's defensive exit is never taken.\<close>

lemma sup_closed_dead:
  assumes "reg_inv C st"
  shows "sup_closed sid st = st"
proof -
  have "im_get (tx_sessions st) sid = None" if "\<not> session_held sid st"
    using that by (simp add: session_held_def map_of_eq_None_iff)
  then show ?thesis using reg_invD [OF assms, of sid] by (auto simp: sup_closed_def reg_simps split: option.splits)
qed

lemma sup_steps_reg:
  assumes "reg_inv C st"
  shows "reg_inv C (sup_exit clean clk sid st)" "reg_inv C (sup_recv sid st)" "reg_inv C (sup_closed sid st)"
    "reg_inv C (sup_crash sid st)" "reg_inv C (sup_timer sid st)" "reg_inv C (sup_snapshot sid st)"
proof -
  show "reg_inv C (sup_exit clean clk sid st)"
    by (rule reg_inv_one [OF assms, of sid])
       (auto simp: sup_exit_def reg_simps split: option.splits)
  show "reg_inv C (sup_recv sid st)"
    by (rule reg_inv_one [OF assms, of sid])
       (auto simp: sup_recv_def reg_simps split: option.splits list.splits tx_cmd.splits)
  show "reg_inv C (sup_closed sid st)" using assms by (simp add: sup_closed_dead)
  show "reg_inv C (sup_crash sid st)"
    by (rule reg_inv_one [OF assms, of sid]) (auto simp: sup_crash_def reg_simps Let_def split: option.splits)
  show "reg_inv C (sup_timer sid st)"
    by (rule reg_inv_one [OF assms, of sid]) (auto simp: sup_timer_def reg_simps split: option.splits sup_slot.splits)
  show "reg_inv C (sup_snapshot sid st)"
    by (rule reg_inv_one [OF assms, of sid])
       (auto simp: sup_snapshot_def respawn_gone_def reg_simps split: option.splits sup_slot.splits)
qed

lemma respawned_dir [simp]:
  "ts_dir (respawned m n t g s) = ts_dir s" "ts_restarts (respawned m n t g s) = ts_restarts s"
  by (simp_all add: respawned_def)

lemma reencode_grid: "reencodes_video plan \<Longrightarrow> grid_start kf plan input duration start \<noteq> None"
  by (simp add: grid_start_def Let_def)

lemma respawned_grid:
  assumes "respawn_target kf m s0 d = (sa, n, t, g, d')" "ts_plan s0 = ts_plan s"
    and "reencodes_video (ts_plan s) \<Longrightarrow> ts_on_grid s" "reencodes_video (ts_plan (respawned m n t g s))"
  shows "ts_on_grid (respawned m n t g s)"
proof (cases m)
  case SeekMode
  have "reencodes_video (ts_plan s0)" using assms(2,4) by (simp add: respawned_def)
  then obtain e k where "grid_start kf (ts_plan s0) (ts_input s0) (ts_duration s0) (ts_start s0) = Some (e, k)"
    using reencode_grid [of "ts_plan s0" kf] by fastforce
  then show ?thesis using assms(1) SeekMode by (auto simp: respawn_target_def respawned_def)
next
  case CrashMode
  then show ?thesis using assms by (auto simp: respawn_target_def respawned_def split: prod.splits)
qed

lemma respawned_plan [simp]: "ts_plan (respawned m n t g s) = ts_plan s"
  by (simp add: respawned_def)

lemma sup_persist_reg:
  assumes "reg_inv C st"
  shows "reg_inv C (sup_persist kf sid st)"
proof (rule reg_inv_one [OF assms, of sid])
  let ?b = "tc_tmp_root C"
  assume at: "reg_at ?b sid (im_get (tx_sessions st) sid) (im_get (tx_sups st) sid)"
  show "reg_at ?b sid (im_get (tx_sessions (sup_persist kf sid st)) sid) (im_get (tx_sups (sup_persist kf sid st)) sid)"
    using at respawned_grid [where kf = kf]
    by (auto simp: sup_persist_def respawn_gone_def reg_simps Let_def split: option.splits sup_slot.splits prod.splits)
qed (auto simp: sup_persist_def respawn_gone_def Let_def split: option.splits sup_slot.splits prod.splits)

lemma sup_launch_reg:
  assumes "reg_inv C st"
  shows "reg_inv C (sup_launch a b clk sid st)"
  by (rule reg_inv_one [OF assms, of sid])
     (auto simp: sup_launch_def respawn_gone_def reg_simps split: option.splits sup_slot.splits)

lemma seek_reg:
  assumes "reg_inv C st"
  shows "reg_inv C (snd (seek_begin ack now sid secs st))"
  by (rule reg_inv_one [OF assms, of sid])
     (auto simp: seek_begin_def reg_simps Let_def split: option.splits)

lemma backfill_reg:
  assumes "reg_inv C st"
  shows "reg_inv C (snd (backfill_begin kf ack now sid index st))"
proof -
  have "reg_inv C (st\<lparr>tx_backfilling := l\<rparr>)" for l using assms by (simp add: reg_inv_def)
  then show ?thesis using assms seek_reg by (auto simp: backfill_begin_def split: option.splits)
qed

lemma heartbeat_reg:
  assumes "reg_inv C st"
  shows "reg_inv C (snd (tx_heartbeat now sid st))"
  by (rule reg_inv_one [OF assms, of sid]) (auto simp: tx_heartbeat_def reg_simps split: option.splits)

lemma stop_begin_reg:
  assumes "reg_inv C st"
  shows "reg_inv C (stop_begin tid sid st)"
  by (rule reg_inv_one [OF assms, of sid]) (auto simp: stop_begin_def reg_simps split: option.splits)

lemma start_supersede_reg:
  assumes "reg_inv C st"
  shows "reg_inv C (start_supersede tid st)"
proof (cases "\<exists>k sid. im_get (tx_starts st) tid = Some k \<and> sk_phase k = Stale sid")
  case True
  then obtain k sid where "im_get (tx_starts st) tid = Some k" "sk_phase k = Stale sid" by blast
  then show ?thesis
    by (intro reg_inv_one [OF assms, of sid]) (auto simp: start_supersede_def reg_simps split: option.splits)
next
  case False
  then have "im_get (tx_sessions (start_supersede tid st)) = im_get (tx_sessions st)
      \<and> im_get (tx_sups (start_supersede tid st)) = im_get (tx_sups st)"
    by (auto simp: start_supersede_def split: option.splits start_phase.splits)
  then show ?thesis using assms by (simp add: reg_inv_def)
qed

text \<open>The rest of the start changes neither map, until the session is registered.\<close>

lemma start_steps_reg:
  assumes "reg_inv C st"
  shows "reg_inv C (snd (start_begin C tid o1 st))" "reg_inv C (snd (start_match ord now tid st))"
    "reg_inv C (snd (start_claim C now tid st))" "reg_inv C (start_cancel tid st)" "reg_inv C (stop_end c tid st)"
  using assms
  by (auto simp: start_begin_def start_match_def start_claim_def start_cancel_def stop_end_def Let_def reg_inv_def
      split: option.splits bool.splits sum.splits prod.splits start_phase.splits)

section \<open>Session identifiers are used once\<close>

definition seq_of :: "string \<Rightarrow> nat" where
  "seq_of s = dec_val (rev (takeWhile (\<lambda>c. c \<noteq> CHR ''-'') (rev s)))"

lemma seq_of_suffix: "seq_of (a @ ''-'' @ dec_nat n) = n"
proof -
  have "takeWhile (\<lambda>c. c \<noteq> CHR ''-'') (rev (dec_nat n) @ CHR ''-'' # rev a) = rev (dec_nat n)"
  proof (subst takeWhile_append2)
    show "x \<noteq> CHR ''-''" if "x \<in> set (rev (dec_nat n))" for x
      using that dec_nat_digits is_digit_minus by (metis set_rev)
  qed simp
  then show ?thesis by (simp add: seq_of_def dec_val_dec_nat)
qed

lemma seq_of_id [simp]: "seq_of (make_session_id k i s t n) = n"
  using seq_of_suffix [of "''tx:'' @ sanitize k @ '':'' @ dec_int i @ '':'' @ sanitize s @ '':'' @ dec_nat t" n]
  by (simp add: make_session_id_def)

definition is_session_id :: "string \<Rightarrow> bool" where
  "is_session_id sid \<longleftrightarrow> (\<exists>k i s t n. sid = make_session_id k i s t n)"

lemma session_dir_inj:
  assumes "is_session_id x" "is_session_id y" "session_dir base x = session_dir base y"
  shows "seq_of x = seq_of y"
  using assms session_dir_seq by (fastforce simp: is_session_id_def)

fun spawning_id :: "start_phase \<Rightarrow> string option" where
  "spawning_id (Spawning sid now p) = Some sid"
| "spawning_id _ = None"

text \<open>A supervisor, or a start about to spawn one, uses an identifier.\<close>

fun uses :: "tx_state \<Rightarrow> string + nat \<Rightarrow> string \<Rightarrow> bool" where
  "uses st (Inl x) sid \<longleftrightarrow> x = sid \<and> im_get (tx_sups st) sid \<noteq> None"
| "uses st (Inr tid) sid \<longleftrightarrow> (\<exists>k. im_get (tx_starts st) tid = Some k \<and> spawning_id (sk_phase k) = Some sid)"

definition fresh_inv :: "tx_state \<Rightarrow> bool" where
  "fresh_inv st \<longleftrightarrow> (\<forall>x sid. uses st x sid \<longrightarrow> is_session_id sid \<and> seq_of sid < tx_seq st)
     \<and> (\<forall>x y sid sid'. uses st x sid \<and> uses st y sid' \<and> seq_of sid = seq_of sid' \<longrightarrow> x = y)"

lemma fresh_invD:
  assumes "fresh_inv st"
  shows "uses st x sid \<Longrightarrow> is_session_id sid \<and> seq_of sid < tx_seq st"
    and "uses st x sid \<Longrightarrow> uses st y sid' \<Longrightarrow> seq_of sid = seq_of sid' \<Longrightarrow> x = y"
  using assms unfolding fresh_inv_def by blast+

lemma fresh_inv_shrink:
  assumes "fresh_inv st" "tx_seq st' = tx_seq st" "\<And>x sid. uses st' x sid \<Longrightarrow> uses st x sid"
  shows "fresh_inv st'"
  using assms unfolding fresh_inv_def by metis

lemma fresh_inv_fields:
  assumes "fresh_inv st" "tx_seq st' = tx_seq st" "tx_starts st' = tx_starts st"
    and "\<And>x. im_get (tx_sups st') x \<noteq> None \<Longrightarrow> im_get (tx_sups st) x \<noteq> None"
  shows "fresh_inv st'"
proof (rule fresh_inv_shrink [OF assms(1,2)])
  show "uses st x sid" if "uses st' x sid" for x sid using that assms(3) assms(4) by (cases x) auto
qed

lemma seq_pieces [simp]:
  "tx_seq (put_session sid s st) = tx_seq st" "tx_seq (take_session sid st) = tx_seq st"
  "tx_seq (set_slot sid u p st) = tx_seq st" "tx_seq (end_supervisor sid st) = tx_seq st"
  "tx_seq (set_task tid k ph st) = tx_seq st" "tx_seq (end_task tid st) = tx_seq st"
  "tx_seq (release_permit b st) = tx_seq st" "tx_seq (remove_dir d st) = tx_seq st"
  "tx_seq (create_dir d st) = tx_seq st" "tx_seq (write_dir d x st) = tx_seq st"
  "tx_seq (send_ack a b st) = tx_seq st" "tx_seq (backfill_end sid st) = tx_seq st" "tx_seq (send_cmd sid c st) = tx_seq st"
  "tx_starts (put_session sid s st) = tx_starts st" "tx_starts (take_session sid st) = tx_starts st"
  "tx_starts (set_slot sid u p st) = tx_starts st" "tx_starts (end_supervisor sid st) = tx_starts st"
  "tx_starts (release_permit b st) = tx_starts st" "tx_starts (remove_dir d st) = tx_starts st"
  "tx_starts (create_dir d st) = tx_starts st" "tx_starts (write_dir d x st) = tx_starts st"
  "tx_starts (send_ack a b st) = tx_starts st" "tx_starts (backfill_end sid st) = tx_starts st"
  "tx_starts (send_cmd sid c st) = tx_starts st"
  by (simp_all add: put_session_def take_session_def set_slot_def end_supervisor_def set_task_def end_task_def
      release_permit_def remove_dir_def create_dir_def write_dir_def send_ack_def backfill_end_def send_cmd_def
      split: option.splits)

lemma start_task_get [simp]:
  "im_get (tx_starts (set_task tid k ph st)) = (im_get (tx_starts st))(tid \<mapsto> k\<lparr>sk_phase := ph\<rparr>)"
  "im_get (tx_starts (end_task tid st)) = (im_get (tx_starts st))(tid := None)"
  by (simp_all add: set_task_def end_task_def update_conv' delete_conv')

text \<open>Steps of supervisors and of requests on existing sessions start nothing.\<close>

definition starts_nothing :: "tx_state \<Rightarrow> tx_state \<Rightarrow> bool" where
  "starts_nothing st st' \<longleftrightarrow> tx_seq st' = tx_seq st \<and> tx_starts st' = tx_starts st
     \<and> (\<forall>x. im_get (tx_sups st') x \<noteq> None \<longrightarrow> im_get (tx_sups st) x \<noteq> None)"

lemma starts_nothing_fresh: "starts_nothing st st' \<Longrightarrow> fresh_inv st \<Longrightarrow> fresh_inv st'"
  using fresh_inv_fields [of st st'] by (simp add: starts_nothing_def)

lemma starts_nothing_steps:
  "starts_nothing st (sup_exit clean clk sid st)" "starts_nothing st (sup_recv sid st)" "starts_nothing st (sup_closed sid st)"
  "starts_nothing st (sup_crash sid st)" "starts_nothing st (sup_timer sid st)" "starts_nothing st (sup_snapshot sid st)"
  "starts_nothing st (sup_launch a b clk sid st)" "starts_nothing st (snd (tx_heartbeat now sid st))"
  "starts_nothing st (snd (seek_begin ack now sid secs st))" "starts_nothing st (backfill_end sid st)"
  "starts_nothing st (write_dir d x st)"
  by (auto simp: starts_nothing_def sup_exit_def sup_recv_def sup_closed_def sup_crash_def sup_timer_def sup_snapshot_def
      sup_launch_def tx_heartbeat_def seek_begin_def respawn_gone_def Let_def
      split: option.splits sup_slot.splits list.splits tx_cmd.splits if_splits)

lemma starts_nothing_persist: "starts_nothing st (sup_persist kf sid st)"
  by (auto simp: starts_nothing_def sup_persist_def respawn_gone_def Let_def
      split: option.splits sup_slot.splits prod.splits if_splits)

lemma starts_nothing_backfill: "starts_nothing st (snd (backfill_begin kf ack now sid index st))"
proof -
  have "starts_nothing (st\<lparr>tx_backfilling := l\<rparr>) x \<Longrightarrow> starts_nothing st x" for l x by (simp add: starts_nothing_def)
  then have "starts_nothing st (snd (seek_begin ack now sid secs (st\<lparr>tx_backfilling := l\<rparr>)))" for secs l
    using starts_nothing_steps(9) by blast
  then show ?thesis by (auto simp: backfill_begin_def starts_nothing_def split: option.splits)
qed

lemma starts_nothing_stop: "starts_nothing st (stop_begin tid sid st)" "starts_nothing st (stop_end c tid st)"
  by (auto simp: starts_nothing_def stop_begin_def stop_end_def Let_def split: option.splits if_splits)

text \<open>The steps of a start.\<close>

lemma start_begin_fresh:
  assumes "fresh_inv st"
  shows "fresh_inv (snd (start_begin C tid o1 st))"
proof (rule fresh_inv_shrink [OF assms])
  show "tx_seq (snd (start_begin C tid o1 st)) = tx_seq st" by (simp add: start_begin_def Let_def)
  show "uses st x sid" if "uses (snd (start_begin C tid o1 st)) x sid" for x sid
    using that by (cases x) (auto simp: start_begin_def Let_def update_conv' split: if_splits)
qed

lemma set_task_fresh:
  assumes "fresh_inv st" "im_get (tx_starts st) tid = Some k" "spawning_id p = None"
  shows "fresh_inv (set_task tid k p st)"
proof (rule fresh_inv_shrink [OF assms(1)])
  show "uses st x sid" if "uses (set_task tid k p st) x sid" for x sid
    using that assms(3) by (cases x) (auto split: if_splits)
qed simp

lemma end_task_fresh:
  assumes "fresh_inv st"
  shows "fresh_inv (end_task tid st)"
proof (rule fresh_inv_shrink [OF assms(1)])
  show "uses st x sid" if "uses (end_task tid st) x sid" for x sid
    using that by (cases x) (auto split: if_splits)
qed simp

lemma start_match_fresh: "fresh_inv st \<Longrightarrow> fresh_inv (snd (start_match ord now tid st))"
  by (auto simp: start_match_def end_task_fresh set_task_fresh split: option.splits bool.splits)

lemma starts_nothing_pieces [simp]:
  "starts_nothing st (release_permit b st)" "starts_nothing st (remove_dir d st)" "starts_nothing st (create_dir d st)"
  "starts_nothing st (send_cmd sid c st)" "starts_nothing st (take_session sid st)"
  by (auto simp: starts_nothing_def split: option.splits)

lemma fresh_pieces [intro]:
  "fresh_inv st \<Longrightarrow> fresh_inv (release_permit b st)" "fresh_inv st \<Longrightarrow> fresh_inv (remove_dir d st)"
  "fresh_inv st \<Longrightarrow> fresh_inv (create_dir d st)" "fresh_inv st \<Longrightarrow> fresh_inv (send_cmd sid c st)"
  "fresh_inv st \<Longrightarrow> fresh_inv (take_session sid st)"
  by (rule starts_nothing_fresh; simp)+

lemma start_supersede_fresh: "fresh_inv st \<Longrightarrow> fresh_inv (start_supersede tid st)"
  by (auto simp: start_supersede_def set_task_fresh split: option.splits start_phase.splits intro!: fresh_pieces)

lemma start_cancel_fresh: "fresh_inv st \<Longrightarrow> fresh_inv (start_cancel tid st)"
  by (auto simp: start_cancel_def end_task_fresh split: option.splits start_phase.splits)

lemma start_claim_fresh:
  assumes inv: "fresh_inv st"
  shows "fresh_inv (snd (start_claim C now tid st))"
proof (cases "im_get (tx_starts st) tid")
  case (Some k)
  show ?thesis
  proof (cases "sk_phase k = Claiming \<and> (\<exists>p. seq_try_acquire (tc_caps C) (cpu_charge C (sk_opts k)) (tx_total st) (tx_cpu st) = Inr p)")
    case True
    then obtain t c where acq: "seq_try_acquire (tc_caps C) (cpu_charge C (sk_opts k)) (tx_total st) (tx_cpu st) = Inr (t, c)"
      by (metis surj_pair)
    let ?id = "make_session_id (so_kind (sk_opts k)) (so_media_id (sk_opts k)) (so_sub (sk_opts k)) now (tx_seq st)"
    let ?st' = "snd (start_claim C now tid st)"
    have st': "?st' = set_task tid k (Spawning ?id now (cpu_charge C (sk_opts k)))
        (st\<lparr>tx_total := t, tx_cpu := c, tx_seq := tx_seq st + 1\<rparr>)"
      using Some True acq by (simp add: start_claim_def Let_def)
    have seq': "tx_seq ?st' = tx_seq st + 1" unfolding st' by simp
    have uses': "uses ?st' x sid \<Longrightarrow> uses st x sid \<or> (x = Inr tid \<and> sid = ?id)" for x sid
      unfolding st' by (cases x) (auto split: if_splits)
    have "is_session_id ?id" unfolding is_session_id_def by blast
    then have new: "is_session_id ?id" "seq_of ?id = tx_seq st" by simp_all
    have one: "is_session_id sid \<and> seq_of sid < tx_seq ?st'" if "uses ?st' x sid" for x sid
      using uses' [OF that] fresh_invD(1) [OF inv, of x sid] new seq' by auto
    have lt: "seq_of sid \<noteq> tx_seq st" if "uses st x sid" for x sid
      using fresh_invD(1) [OF inv that] by simp
    have "x = y" if u: "uses ?st' x sid" "uses ?st' y sid'" "seq_of sid = seq_of sid'" for x y sid sid'
      using uses' [OF u(1)]
    proof
      assume x: "uses st x sid"
      show ?thesis using uses' [OF u(2)]
      proof
        assume "uses st y sid'"
        then show ?thesis using fresh_invD(2) [OF inv x] u(3) by blast
      qed (use lt [OF x] new(2) u(3) in simp)
    next
      assume x: "x = Inr tid \<and> sid = ?id"
      show ?thesis using uses' [OF u(2)]
      proof
        assume "uses st y sid'"
        then show ?thesis using lt [of y sid'] new(2) u(3) x by simp
      qed (use x in simp)
    qed
    with one show ?thesis unfolding fresh_inv_def by blast
  next
    case False
    then have "snd (start_claim C now tid st) \<in> {st, end_task tid st}"
      using Some by (auto simp: start_claim_def Let_def split: sum.splits)
    then show ?thesis using inv end_task_fresh by auto
  qed
qed (use inv in \<open>simp add: start_claim_def\<close>)

text \<open>Registering a session: its identifier is new, so it displaces nothing.\<close>

lemma spawning_unregistered:
  assumes "fresh_inv st" "reg_inv C st" "im_get (tx_starts st) tid = Some k" "sk_phase k = Spawning sid now p"
  shows "im_get (tx_sups st) sid = None" "im_get (tx_sessions st) sid = None"
proof -
  have "uses st (Inr tid) sid" using assms(3,4) by simp
  then have "\<not> uses st (Inl sid) sid" using assms(1) unfolding fresh_inv_def by blast
  then show "im_get (tx_sups st) sid = None" by simp
  then show "im_get (tx_sessions st) sid = None" using reg_invD [OF assms(2), of sid] by (auto simp: reg_simps)
qed

definition spawn_registered :: "tx_config \<Rightarrow> (string \<Rightarrow> f64 list option) \<Rightarrow> nat \<Rightarrow> start_task \<Rightarrow> string \<Rightarrow> nat \<Rightarrow> bool \<Rightarrow> nat \<Rightarrow> tx_state \<Rightarrow> tx_state" where
  "spawn_registered C kf tid k sid now p clk st =
     (let o1 = sk_opts k; st1 = put_session sid (make_session C o1 sid now p
            (grid_start kf (so_plan o1) (so_input o1) (so_duration o1) (so_start o1)))
          (end_task tid (create_dir (session_dir (tc_tmp_root C) sid) st))
      in st1\<lparr>tx_sups := im_insert sid (new_supervisor clk) (tx_sups st1)\<rparr>)"

lemma start_spawn_cases:
  obtains "snd (start_spawn C kf a b clk tid st) = st"
  | k sid now p where "im_get (tx_starts st) tid = Some k" "sk_phase k = Spawning sid now p"
      "snd (start_spawn C kf a b clk tid st) = release_permit p (end_task tid st)"
  | k sid now p where "im_get (tx_starts st) tid = Some k" "sk_phase k = Spawning sid now p"
      "snd (start_spawn C kf a b clk tid st)
        = release_permit p (end_task tid (create_dir (session_dir (tc_tmp_root C) sid) st))"
  | k sid now p where "im_get (tx_starts st) tid = Some k" "sk_phase k = Spawning sid now p"
      "snd (start_spawn C kf a b clk tid st) = spawn_registered C kf tid k sid now p clk st"
proof (cases "im_get (tx_starts st) tid")
  case (Some k)
  show thesis
  proof (cases "sk_phase k")
    case (Spawning sid now p)
    show thesis using that(2-4) [OF Some Spawning] Some Spawning
      by (cases a; cases b) (simp_all add: start_spawn_def spawn_registered_def Let_def)
  qed (use that(1) Some in \<open>simp_all add: start_spawn_def\<close>)
qed (use that(1) in \<open>simp add: start_spawn_def\<close>)

lemma make_session_fields [simp]:
  "ts_dir (make_session C o1 sid now p g) = session_dir (tc_tmp_root C) sid"
  "ts_permit (make_session C o1 sid now p g) = p" "ts_restarts (make_session C o1 sid now p g) = 0"
  by (simp_all add: make_session_def split: prod.split)

lemma make_session_grid:
  "reencodes_video (ts_plan (make_session C o1 sid now p (grid_start kf (so_plan o1) (so_input o1) (so_duration o1) (so_start o1))))
   \<longrightarrow> ts_on_grid (make_session C o1 sid now p (grid_start kf (so_plan o1) (so_input o1) (so_duration o1) (so_start o1)))"
  using reencode_grid [of "so_plan o1" kf] by (simp add: make_session_def split: prod.split)

lemma spawn_registered_get:
  assumes "sk_phase k = Spawning sid now p"
  shows "im_get (tx_sups (spawn_registered C kf tid k sid now p clk st)) = (im_get (tx_sups st))(sid \<mapsto> new_supervisor clk)"
    "im_get (tx_starts (spawn_registered C kf tid k sid now p clk st)) = (im_get (tx_starts st))(tid := None)"
    "tx_seq (spawn_registered C kf tid k sid now p clk st) = tx_seq st"
    "\<exists>s. ts_dir s = session_dir (tc_tmp_root C) sid \<and> ts_restarts s = 0 \<and> (reencodes_video (ts_plan s) \<longrightarrow> ts_on_grid s)
      \<and> im_get (tx_sessions (spawn_registered C kf tid k sid now p clk st)) = (im_get (tx_sessions st))(sid \<mapsto> s)"
proof -
  show "im_get (tx_sups (spawn_registered C kf tid k sid now p clk st)) = (im_get (tx_sups st))(sid \<mapsto> new_supervisor clk)"
    by (simp add: spawn_registered_def Let_def update_conv' put_session_def end_task_def create_dir_def)
  show "im_get (tx_starts (spawn_registered C kf tid k sid now p clk st)) = (im_get (tx_starts st))(tid := None)"
    by (simp add: spawn_registered_def Let_def delete_conv' put_session_def end_task_def create_dir_def)
  show "tx_seq (spawn_registered C kf tid k sid now p clk st) = tx_seq st"
    by (simp add: spawn_registered_def Let_def)
  show "\<exists>s. ts_dir s = session_dir (tc_tmp_root C) sid \<and> ts_restarts s = 0 \<and> (reencodes_video (ts_plan s) \<longrightarrow> ts_on_grid s)
      \<and> im_get (tx_sessions (spawn_registered C kf tid k sid now p clk st)) = (im_get (tx_sessions st))(sid \<mapsto> s)"
    by (intro exI [of _ "make_session C (sk_opts k) sid now p
          (grid_start kf (so_plan (sk_opts k)) (so_input (sk_opts k)) (so_duration (sk_opts k)) (so_start (sk_opts k)))"])
       (simp add: spawn_registered_def Let_def update_conv' put_session_def end_task_def create_dir_def make_session_grid)
qed

lemma start_spawn_reg:
  assumes "fresh_inv st" "reg_inv C st"
  shows "reg_inv C (snd (start_spawn C kf a b clk tid st))"
proof (cases rule: start_spawn_cases [of C kf a b clk tid st])
  case (4 k sid now p)
  obtain s where s: "ts_dir s = session_dir (tc_tmp_root C) sid" "ts_restarts s = 0" "reencodes_video (ts_plan s) \<longrightarrow> ts_on_grid s"
      "im_get (tx_sessions (spawn_registered C kf tid k sid now p clk st)) = (im_get (tx_sessions st))(sid \<mapsto> s)"
    using spawn_registered_get(4) [OF 4(2)] by blast
  show ?thesis unfolding 4(3)
    by (rule reg_inv_one [OF assms(2), of sid])
       (simp_all add: s spawn_registered_get(1) [OF 4(2)] reg_simps new_supervisor_def)
qed (use assms in \<open>simp_all add: reg_inv_def\<close>)

lemma start_spawn_fresh:
  assumes inv: "fresh_inv st"
  shows "fresh_inv (snd (start_spawn C kf a b clk tid st))"
proof (cases rule: start_spawn_cases [of C kf a b clk tid st])
  case (4 k sid now p)
  let ?st' = "spawn_registered C kf tid k sid now p clk st"
  note get = spawn_registered_get [OF 4(2)]
  have old: "uses st (Inr tid) sid" using 4(1,2) by simp
  have sim: "uses ?st' x y \<Longrightarrow> uses st (if x = Inl sid then Inr tid else x) y \<and> (x = Inl sid \<longrightarrow> y = sid)" for x y
    using old get(1,2) by (cases x) (auto split: if_splits)
  have tid: "\<not> uses ?st' (Inr tid) y" for y using get(2) by simp
  have one: "is_session_id y \<and> seq_of y < tx_seq ?st'" if "uses ?st' x y" for x y
    using sim [OF that] inv get(3) by (auto simp: fresh_inv_def)
  have two: "x = x'" if u: "uses ?st' x y" "uses ?st' x' y'" "seq_of y = seq_of y'" for x x' y y'
  proof -
    have "(if x = Inl sid then Inr tid else x) = (if x' = Inl sid then Inr tid else x')"
      using sim [OF u(1)] sim [OF u(2)] u(3) inv unfolding fresh_inv_def by blast
    moreover have "x \<noteq> Inr tid" "x' \<noteq> Inr tid" using u(1,2) tid by blast+
    ultimately show ?thesis by (simp split: if_splits)
  qed
  show ?thesis unfolding 4(3) fresh_inv_def using one two by blast
qed (use inv end_task_fresh fresh_pieces in \<open>simp_all\<close>)

lemma start_spawn_ok:
  assumes ok: "permits_ok C st" and "fresh_inv st" "reg_inv C st"
  shows "permits_ok C (snd (start_spawn C kf a b clk tid st))"
proof (cases rule: start_spawn_cases [of C kf a b clk tid st])
  case (2 k sid now p)
  show ?thesis unfolding 2(3) by (rule end_task_release [OF ok 2(1)]) (simp only: 2(2) phase_weight.simps)
next
  case (3 k sid now p)
  have "permits_ok C (create_dir (session_dir (tc_tmp_root C) sid) st)"
    using same_holders_ok [OF same_holders_pieces(5) ok] .
  moreover have "im_get (tx_starts (create_dir (session_dir (tc_tmp_root C) sid) st)) tid = Some k" using 3(1) by simp
  ultimately show ?thesis unfolding 3(3) by (rule end_task_release) (simp only: 3(2) phase_weight.simps)
next
  case (4 k sid now p)
  let ?s = "make_session C (sk_opts k) sid now p
      (grid_start kf (so_plan (sk_opts k)) (so_input (sk_opts k)) (so_duration (sk_opts k)) (so_start (sk_opts k)))"
  let ?a = "create_dir (session_dir (tc_tmp_root C) sid) st"
  let ?b = "end_task tid ?a" and ?c = "put_session sid ?s (end_task tid ?a)"
  have a: "permits_ok C ?a" using same_holders_ok [OF same_holders_pieces(5) ok] .
  note wf = permits_wf [OF a]
  have none: "im_get (tx_sessions ?b) sid = None"
    using spawning_unregistered(2) [OF assms(2,3) 4(1,2)] by simp
  have "held w ?c = held w ?a" for w
    using held_put_new [OF none, of w ?s] held_end_task [OF wf, of tid k w] 4(1,2) by simp
  then have "permits_ok C ?c" using wf by (intro permits_okI_same [OF a]) simp_all
  then show ?thesis unfolding 4(3)
    by (auto simp: spawn_registered_def Let_def permits_ok_def held_def maps_wf_def)
qed (use ok in simp)

section \<open>The remaining holders\<close>

lemma start_cancel_ok:
  assumes ok: "permits_ok C st"
  shows "permits_ok C (start_cancel tid st)"
proof (cases "im_get (tx_starts st) tid")
  case (Some k)
  show ?thesis
    by (cases "sk_phase k")
       (simp_all add: start_cancel_def Some end_task_ok [OF ok Some] end_task_release [OF ok Some])
qed (use ok in \<open>simp add: start_cancel_def\<close>)

lemma stop_begin_ok:
  assumes ok: "permits_ok C st"
  shows "permits_ok C (stop_begin tid sid st)"
proof (cases "im_get (tx_sessions st) sid")
  case (Some s)
  show ?thesis
  proof (cases "tid \<in> fst ` set (tx_stops st)")
    case False
    then have new: "im_get (tx_stops st) tid = None" by (simp add: map_of_eq_None_iff)
    let ?a = "st\<lparr>tx_stops := im_insert tid (sid, s) (tx_stops st)\<rparr>"
    have wf: "maps_wf ?a" using permits_wf [OF ok] by (simp add: maps_wf_def)
    have "held w ?a = held w st + w (ts_permit s)" for w
      using weight_insert_new [OF new, of "\<lambda>(_, s). w (ts_permit s)" "(sid, s)"] by (simp add: held_def)
    moreover have "held w (take_session sid ?a) + w (ts_permit s) = held w ?a" for w
      by (rule held_take [OF wf]) (simp add: Some)
    ultimately have "held w (take_session sid ?a) = held w st" for w by (metis add_right_cancel)
    then have "permits_ok C (take_session sid ?a)" using wf by (intro permits_okI_same [OF ok]) simp_all
    then show ?thesis using Some False same_holders_ok [OF same_holders_pieces(7)] by (simp add: stop_begin_def)
  qed (use ok Some in \<open>simp add: stop_begin_def\<close>)
qed (use ok in \<open>simp add: stop_begin_def\<close>)

lemma stop_end_ok:
  assumes ok: "permits_ok C st"
  shows "permits_ok C (stop_end c tid st)"
proof (cases "im_get (tx_stops st) tid")
  case (Some p)
  obtain sid s where p: "p = (sid, s)" by force
  let ?a = "st\<lparr>tx_stops := im_remove tid (tx_stops st)\<rparr>"
  have h: "held w ?a + w (ts_permit s) = held w st" for w
    using weight_remove [of "tx_stops st" tid p "\<lambda>(_, s). w (ts_permit s)"] permits_wf [OF ok] Some p
    by (simp add: held_def maps_wf_def)
  then have "permits_ok C (release_permit (ts_permit s) ?a)"
    using permits_wf [OF ok] h [of "\<lambda>_. 1"] h [of of_bool]
    by (intro permits_okI_release [OF ok]) (simp_all add: maps_wf_def)
  then show ?thesis using Some p same_holders_ok [OF same_holders_pieces(4)] by (simp add: stop_end_def Let_def)
qed (use ok in \<open>simp add: stop_end_def\<close>)

lemma sup_crash_ok:
  assumes ok: "permits_ok C st"
  shows "permits_ok C (sup_crash sid st)"
proof (cases "im_get (tx_sups st) sid")
  case (Some u)
  show ?thesis
  proof (cases "im_get (tx_sessions st) sid")
    case None
    then show ?thesis using Some ok same_holders_ok [OF same_holders_pieces(2)] by (simp add: sup_crash_def)
  next
    case s: (Some s)
    let ?r = "effective_restart_count (ts_restarts s) (su_last_run u)"
    have "permits_ok C (put_session sid (s\<lparr>ts_restarts := ?r + 1\<rparr>) st)"
      using same_holders_ok [OF same_holders_put [OF s] ok] by simp
    moreover have "permits_ok C (release_permit (ts_permit s) (take_session sid st))"
      using held_take [OF permits_wf [OF ok] s, of "\<lambda>_. 1"] held_take [OF permits_wf [OF ok] s, of of_bool] permits_wf [OF ok]
      by (intro permits_okI_release [OF ok]) simp_all
    ultimately show ?thesis using Some s ok same_holders_ok [OF same_holders_pieces(1)] same_holders_ok [OF same_holders_pieces(2)]
        same_holders_ok [OF same_holders_pieces(4)]
      by (simp add: sup_crash_def Let_def)
  qed
qed (use ok in \<open>simp add: sup_crash_def\<close>)

lemma start_claim_ok:
  assumes ok: "permits_ok C st"
  shows "permits_ok C (snd (start_claim C now tid st))"
proof (cases "im_get (tx_starts st) tid")
  case (Some k)
  let ?b = "cpu_charge C (sk_opts k)"
  show ?thesis
  proof (cases "sk_phase k = Claiming")
    case True
    show ?thesis
    proof (cases "seq_try_acquire (tc_caps C) ?b (tx_total st) (tx_cpu st)")
      case (Inl e)
      then show ?thesis using end_task_ok [OF ok Some] Some True by (simp add: start_claim_def Let_def)
    next
      case (Inr p)
      obtain t c where p: "p = (t, c)" by force
      have acq: "t = tx_total st + 1" "c = tx_cpu st + of_bool ?b" "t \<le> max_total (tc_caps C)" "c \<le> max_cpu (tc_caps C)"
        using Inr p ok by (auto simp: seq_try_acquire_def permits_ok_def split: if_splits)
      define id1 where "id1 = make_session_id (so_kind (sk_opts k)) (so_media_id (sk_opts k)) (so_sub (sk_opts k)) now (tx_seq st)"
      let ?a = "st\<lparr>tx_total := t, tx_cpu := c, tx_seq := tx_seq st + 1\<rparr>"
      have wf: "maps_wf ?a" using permits_wf [OF ok] by (simp add: maps_wf_def)
      have "held w (set_task tid k (Spawning id1 now ?b) ?a) = held w st + w ?b" for w
        using held_set_task [OF wf, of tid k w "Spawning id1 now ?b"] Some True by (simp add: held_def)
      then have "permits_ok C (set_task tid k (Spawning id1 now ?b) ?a)"
        using ok acq maps_wf_pieces(1) [OF wf] by (simp add: permits_ok_def)
      then show ?thesis using Some True Inr p by (simp add: start_claim_def Let_def id1_def)
    qed
  qed (use ok Some in \<open>simp add: start_claim_def\<close>)
qed (use ok in \<open>simp add: start_claim_def\<close>)

section \<open>Gates\<close>

definition past_gate :: "tx_state \<Rightarrow> nat \<Rightarrow> string \<Rightarrow> bool" where
  "past_gate st tid key \<longleftrightarrow>
     (\<exists>k. im_get (tx_starts st) tid = Some k \<and> sk_phase k \<noteq> Waiting \<and> coalesce_key (sk_opts k) = key)"

definition gate_inv :: "tx_state \<Rightarrow> bool" where
  "gate_inv st \<longleftrightarrow> (\<forall>key tid tid'. past_gate st tid key \<and> past_gate st tid' key \<longrightarrow> tid = tid')"

lemma gate_shrink: "gate_inv st \<Longrightarrow> (\<And>tid key. past_gate st' tid key \<Longrightarrow> past_gate st tid key) \<Longrightarrow> gate_inv st'"
  unfolding gate_inv_def by blast

lemma gate_fields: "gate_inv st \<Longrightarrow> tx_starts st' = tx_starts st \<Longrightarrow> gate_inv st'"
  by (simp add: gate_inv_def past_gate_def)

lemma start_begin_gate: "gate_inv st \<Longrightarrow> gate_inv (snd (start_begin C tid o1 st))"
  by (erule gate_shrink) (auto simp: past_gate_def start_begin_def Let_def update_conv' split: if_splits)

lemma end_task_gate: "gate_inv st \<Longrightarrow> gate_inv (end_task tid st)"
  by (erule gate_shrink) (auto simp: past_gate_def split: if_splits)

lemma set_task_gate:
  assumes "gate_inv st" "im_get (tx_starts st) tid = Some k" "sk_phase k \<noteq> Waiting"
  shows "gate_inv (set_task tid k p st)"
  using assms by (intro gate_shrink [OF assms(1)]) (auto simp: past_gate_def split: if_splits)

lemma gate_freeD: "gate_free o1 st \<Longrightarrow> \<not> past_gate st tid (coalesce_key o1)"
  by (auto simp: gate_free_def past_gate_def list_all_iff dest: map_of_SomeD)

lemma pass_gate:
  assumes inv: "gate_inv st" and get: "im_get (tx_starts st) tid = Some k" and free: "gate_free (sk_opts k) st"
  shows "gate_inv (set_task tid k p st)"
proof -
  have "past_gate st x key \<or> (x = tid \<and> key = coalesce_key (sk_opts k))" if "past_gate (set_task tid k p st) x key" for x key
    using that get by (auto simp: past_gate_def split: if_splits)
  then show ?thesis using inv gate_freeD [OF free] unfolding gate_inv_def by blast
qed

lemma start_match_gate: "gate_inv st \<Longrightarrow> gate_inv (snd (start_match ord now tid st))"
  by (auto simp: start_match_def end_task_gate pass_gate split: option.splits bool.splits)

lemma gate_pieces [simp]:
  "gate_inv (release_permit b st) = gate_inv st" "gate_inv (remove_dir d st) = gate_inv st"
  "gate_inv (create_dir d st) = gate_inv st" "gate_inv (send_cmd sid c st) = gate_inv st"
  "gate_inv (take_session sid st) = gate_inv st"
  by (simp_all add: gate_inv_def past_gate_def)

lemma start_supersede_gate: "gate_inv st \<Longrightarrow> gate_inv (start_supersede tid st)"
  by (auto simp: start_supersede_def set_task_gate split: option.splits start_phase.splits)

lemma start_claim_gate: "gate_inv st \<Longrightarrow> gate_inv (snd (start_claim C now tid st))"
proof (cases "im_get (tx_starts st) tid")
  case (Some k)
  assume inv: "gate_inv st"
  have same: "gate_inv (st\<lparr>tx_total := t, tx_cpu := c, tx_seq := n\<rparr>)" for t c n
    using inv by (rule gate_fields) simp
  show ?thesis
    using inv same Some set_task_gate [where st = "st\<lparr>tx_total := t, tx_cpu := c, tx_seq := n\<rparr>" for t c n]
    by (auto simp: start_claim_def Let_def end_task_gate split: sum.splits prod.splits)
qed (simp add: start_claim_def)

lemma start_spawn_gate: "gate_inv st \<Longrightarrow> gate_inv (snd (start_spawn C kf a b clk tid st))"
proof (cases rule: start_spawn_cases [of C kf a b clk tid st])
  case (4 k sid now p)
  assume "gate_inv st"
  then have "gate_inv (end_task tid st)" by (rule end_task_gate)
  then show ?thesis unfolding 4(3) by (rule gate_shrink) (auto simp: past_gate_def spawn_registered_get(2) [OF 4(2)])
qed (simp_all add: end_task_gate)

lemma start_cancel_gate: "gate_inv st \<Longrightarrow> gate_inv (start_cancel tid st)"
  by (auto simp: start_cancel_def end_task_gate split: option.splits start_phase.splits)

lemma starts_nothing_gate: "starts_nothing st st' \<Longrightarrow> gate_inv st \<Longrightarrow> gate_inv st'"
  by (auto simp: starts_nothing_def intro: gate_fields)

section \<open>Any interleaving\<close>

definition tx_inv :: "tx_config \<Rightarrow> tx_state \<Rightarrow> bool" where
  "tx_inv C st \<longleftrightarrow> permits_ok C st \<and> reg_inv C st \<and> fresh_inv st \<and> gate_inv st"

lemma tx_inv_quiet:
  assumes "tx_inv C st" "permits_ok C st'" "reg_inv C st'" "starts_nothing st st'"
  shows "tx_inv C st'"
  using assms starts_nothing_fresh starts_nothing_gate by (auto simp: tx_inv_def)

lemma write_dir_reg: "reg_inv C st \<Longrightarrow> reg_inv C (write_dir d x st)" "reg_inv C st \<Longrightarrow> reg_inv C (backfill_end sid st)"
  by (simp_all add: reg_inv_def)

lemma tx_inv_step: "tx_inv C st \<Longrightarrow> tx_inv C (tx_step C st e)"
proof -
  assume inv: "tx_inv C st"
  then have ok: "permits_ok C st" and reg: "reg_inv C st" and fresh: "fresh_inv st" and gate: "gate_inv st"
    by (simp_all add: tx_inv_def)
  note quiet = tx_inv_quiet [OF inv]
  note holders = same_holders_ok [OF _ ok]
  show ?thesis
  proof (cases e)
    case (EStart tid o1)
    then show ?thesis using start_begin_ok [OF ok] start_steps_reg(1) [OF reg] start_begin_fresh [OF fresh] start_begin_gate [OF gate]
      by (simp add: tx_inv_def)
  next
    case (EMatch m now tid)
    then show ?thesis using start_match_ok [OF ok] start_steps_reg(2) [OF reg] start_match_fresh [OF fresh] start_match_gate [OF gate]
      by (simp add: tx_inv_def)
  next
    case (ESupersede tid)
    then show ?thesis using start_supersede_ok [OF ok] start_supersede_reg [OF reg] start_supersede_fresh [OF fresh]
        start_supersede_gate [OF gate] by (simp add: tx_inv_def)
  next
    case (EClaim now tid)
    then show ?thesis using start_claim_ok [OF ok] start_steps_reg(3) [OF reg] start_claim_fresh [OF fresh] start_claim_gate [OF gate]
      by (simp add: tx_inv_def)
  next
    case (ESpawn kf a b clk tid)
    then show ?thesis using start_spawn_ok [OF ok fresh reg] start_spawn_reg [OF fresh reg] start_spawn_fresh [OF fresh]
        start_spawn_gate [OF gate] by (simp add: tx_inv_def)
  next
    case (ECancel tid)
    then show ?thesis using start_cancel_ok [OF ok] start_steps_reg(4) [OF reg] start_cancel_fresh [OF fresh] start_cancel_gate [OF gate]
      by (simp add: tx_inv_def)
  next
    case (EStop tid sid)
    then show ?thesis using quiet [OF stop_begin_ok [OF ok] stop_begin_reg [OF reg] starts_nothing_stop(1)] by simp
  next
    case (EStopEnd c tid)
    then show ?thesis using quiet [OF stop_end_ok [OF ok] start_steps_reg(5) [OF reg] starts_nothing_stop(2)] by simp
  next
    case (EHeartbeat now sid)
    then show ?thesis using quiet [OF holders [OF heartbeat_holders] heartbeat_reg [OF reg] starts_nothing_steps(8)] by simp
  next
    case (ESeek ack now sid secs)
    then show ?thesis using quiet [OF holders [OF seek_holders] seek_reg [OF reg] starts_nothing_steps(9)] by simp
  next
    case (EBackfill kf ack now sid index)
    then show ?thesis using quiet [OF holders [OF backfill_holders] backfill_reg [OF reg] starts_nothing_backfill] by simp
  next
    case (EBackfillEnd sid)
    then show ?thesis using quiet [OF holders [OF same_holders_pieces(8)] write_dir_reg(2) [OF reg] starts_nothing_steps(10)] by simp
  next
    case (EExit clean clk sid)
    then show ?thesis using quiet [OF holders [OF sup_same_holders(1)] sup_steps_reg(1) [OF reg] starts_nothing_steps(1)] by simp
  next
    case (ERecv sid)
    then show ?thesis using quiet [OF holders [OF sup_same_holders(2)] sup_steps_reg(2) [OF reg] starts_nothing_steps(2)] by simp
  next
    case (EClosed sid)
    then show ?thesis using quiet [OF holders [OF sup_same_holders(3)] sup_steps_reg(3) [OF reg] starts_nothing_steps(3)] by simp
  next
    case (ECrash sid)
    then show ?thesis using quiet [OF sup_crash_ok [OF ok] sup_steps_reg(4) [OF reg] starts_nothing_steps(4)] by simp
  next
    case (ETimer sid)
    then show ?thesis using quiet [OF holders [OF sup_same_holders(4)] sup_steps_reg(5) [OF reg] starts_nothing_steps(5)] by simp
  next
    case (ESnapshot sid)
    then show ?thesis using quiet [OF holders [OF sup_same_holders(5)] sup_steps_reg(6) [OF reg] starts_nothing_steps(6)] by simp
  next
    case (EPersist kf sid)
    then show ?thesis using quiet [OF holders [OF sup_persist_holders] sup_persist_reg [OF reg] starts_nothing_persist] by simp
  next
    case (ELaunch a b clk sid)
    then show ?thesis using quiet [OF holders [OF sup_same_holders(6)] sup_launch_reg [OF reg] starts_nothing_steps(7)] by simp
  next
    case (EWrite p d)
    then show ?thesis using quiet [OF holders [OF same_holders_pieces(6)] write_dir_reg(1) [OF reg] starts_nothing_steps(11)] by simp
  qed
qed

lemma tx_inv_new: "tx_inv C new_manager"
  by (simp add: tx_inv_def new_manager_def permits_ok_def maps_wf_def held_def reg_inv_def reg_simps fresh_inv_def gate_inv_def
      past_gate_def) (auto simp: uses.simps elim: uses.elims)

interpretation tx: machine "tx_step C" "tx_inv C" for C
  by unfold_locales (rule tx_inv_step)

lemma tx_run_inv: "tx_inv C (tx_run C evs)"
  unfolding tx_run_def by (rule tx.inv_run [OF tx_inv_new])

end
