(* ===== verification/Tx_Manager.thy ===== *)
theory Tx_Manager
  imports Tx_Permits
begin

text \<open>What the session manager guarantees: the properties of \<open>Tx_Supervisor\<close>'s machine over all its runs.\<close>

section \<open>Permits and gates\<close>

fun holds_permit :: "start_phase \<Rightarrow> bool option" where
  "holds_permit (Superseding sid s) = Some (ts_permit s)"
| "holds_permit (Spawning sid now p) = Some p"
| "holds_permit _ = None"

text \<open>The CPU flags of the permits in use: of live sessions, of sessions being stopped and of starts.\<close>

definition permits_in_use :: "tx_state \<Rightarrow> bool list" where
  "permits_in_use st = map (ts_permit \<circ> snd) (tx_sessions st) @ map (ts_permit \<circ> snd \<circ> snd) (tx_stops st)
     @ List.map_filter (holds_permit \<circ> sk_phase \<circ> snd) (tx_starts st)"

definition starts_past_gate :: "tx_state \<Rightarrow> string list" where
  "starts_past_gate st =
     map (coalesce_key \<circ> sk_opts \<circ> snd) (filter (\<lambda>(_, k). sk_phase k \<noteq> Waiting) (tx_starts st))"

lemma weight_permits: "weight (w \<circ> ts_permit) m = sum_list (map w (map (ts_permit \<circ> snd) m))"
  by (induction m) auto

lemma weight_stops: "weight (\<lambda>(_, s). w (ts_permit s)) m = sum_list (map w (map (ts_permit \<circ> snd \<circ> snd) m))"
  by (induction m) auto

lemma weight_starts:
  "weight (\<lambda>k. phase_weight w (sk_phase k)) m = sum_list (map w (List.map_filter (holds_permit \<circ> sk_phase \<circ> snd) m))"
proof (induction m)
  case (Cons p m)
  obtain tid k where p: "p = (tid, k)" by force
  then show ?case using Cons by (cases "sk_phase k") (simp_all add: List.map_filter_def)
qed (simp add: List.map_filter_def)

lemma held_in_use: "held w st = sum_list (map w (permits_in_use st))"
  by (simp add: held_def permits_in_use_def weight_permits weight_stops weight_starts)

lemma sum_ones: "(\<Sum>_\<leftarrow>xs. Suc 0) = length xs"
  by (induction xs) auto

lemma sum_flags: "sum_list (map of_bool xs) = length (filter (\<lambda>b. b) xs)"
  by (induction xs) auto

lemma gate_distinct:
  assumes "im_wf m"
    and "\<And>tid tid' k k'. (tid, k) \<in> set m \<Longrightarrow> (tid', k') \<in> set m \<Longrightarrow> P k \<Longrightarrow> P k' \<Longrightarrow> f k = f k' \<Longrightarrow> tid = tid'"
  shows "distinct (map (f \<circ> snd) (filter (\<lambda>(_, k). P k) m))"
  using assms
proof (induction m)
  case (Cons p m)
  obtain tid k where p: "p = (tid, k)" by force
  have IH: "distinct (map (f \<circ> snd) (filter (\<lambda>(_, k). P k) m))"
    using Cons.prems by (intro Cons.IH) auto
  have "f k \<noteq> f k'" if "P k" "(tid', k') \<in> set m" "P k'" for tid' k'
  proof
    assume "f k = f k'"
    then have "tid = tid'" using Cons.prems(2) [of tid k tid' k'] p that by simp
    then show False using Cons.prems(1) p that(2) by (auto simp: image_iff)
  qed
  then have "P k \<longrightarrow> f k \<notin> set (map (f \<circ> snd) (filter (\<lambda>(_, k). P k) m))" by force
  then show ?case using IH p unfolding comp_def by auto
qed simp

text \<open>
  C4. Whatever grants, stops, seeks, crashes and disconnects interleave, the limiter's counters are
  exactly the permits held by live sessions, by sessions being stopped and by starts between their claim
  and their end; so no permit leaks and neither cap is exceeded; and no two starts of the same title are
  past its gate at once, so simultaneous grants cannot both miss each other and take two slots.
\<close>

theorem session_permits:
  "tx_total (tx_run C evs) = length (permits_in_use (tx_run C evs))
   \<and> tx_cpu (tx_run C evs) = length (filter (\<lambda>b. b) (permits_in_use (tx_run C evs)))
   \<and> length (permits_in_use (tx_run C evs)) \<le> max_total (tc_caps C)
   \<and> length (filter (\<lambda>b. b) (permits_in_use (tx_run C evs))) \<le> max_cpu (tc_caps C)
   \<and> distinct (starts_past_gate (tx_run C evs))"
proof -
  have inv: "tx_inv C (tx_run C evs)" by (rule tx_run_inv)
  then have "permits_ok C (tx_run C evs)" and gate: "gate_inv (tx_run C evs)" by (simp_all add: tx_inv_def)
  moreover have "distinct (starts_past_gate (tx_run C evs))"
    unfolding starts_past_gate_def comp_assoc [symmetric]
  proof (rule gate_distinct [where f = "coalesce_key \<circ> sk_opts" and P = "\<lambda>k. sk_phase k \<noteq> Waiting"])
    show wf: "im_wf (tx_starts (tx_run C evs))" using calculation(1) by (simp add: permits_ok_def maps_wf_def)
    show "tid = tid'" if "(tid, k) \<in> set (tx_starts (tx_run C evs))" "(tid', k') \<in> set (tx_starts (tx_run C evs))"
      "sk_phase k \<noteq> Waiting" "sk_phase k' \<noteq> Waiting" "(coalesce_key \<circ> sk_opts) k = (coalesce_key \<circ> sk_opts) k'" for tid tid' k k'
      using gate that wf unfolding gate_inv_def past_gate_def by (metis comp_apply map_of_is_SomeI)
  qed
  ultimately show ?thesis by (simp add: permits_ok_def held_in_use sum_flags sum_ones)
qed

section \<open>Encoders and directories\<close>

lemma map_keys_get: "x \<in> fst ` set m \<longleftrightarrow> im_get m x \<noteq> None"
  by (simp add: map_of_eq_None_iff)

text \<open>
  C5. In every run each supervisor, hence each encoder it runs, has a directory of its own; every
  registered session has its directory and a supervisor, to which no \<open>Shutdown\<close> is on its way; and a
  supervisor whose session is gone has one in its queue: no encoder is left without a session, and no
  session without an encoder task.
\<close>

theorem encoders_own_their_dirs:
  "distinct (map (session_dir (tc_tmp_root C) \<circ> fst) (tx_sups (tx_run C evs)))
   \<and> list_all (\<lambda>(sid, s). ts_dir s = session_dir (tc_tmp_root C) sid \<and> sid \<in> fst ` set (tx_sups (tx_run C evs)))
       (tx_sessions (tx_run C evs))
   \<and> list_all (\<lambda>(sid, u). (Shutdown \<in> set (su_queue u)) = (sid \<notin> fst ` set (tx_sessions (tx_run C evs))))
       (tx_sups (tx_run C evs))"
proof -
  let ?st = "tx_run C evs"
  have inv: "tx_inv C ?st" by (rule tx_run_inv)
  then have reg: "reg_inv C ?st" and fresh: "fresh_inv ?st" and wf: "maps_wf ?st" by (simp_all add: tx_inv_def permits_ok_def)
  have "inj_on (session_dir (tc_tmp_root C)) (fst ` set (tx_sups ?st))"
  proof (rule inj_onI)
    fix x y assume xy: "x \<in> fst ` set (tx_sups ?st)" "y \<in> fst ` set (tx_sups ?st)"
      "session_dir (tc_tmp_root C) x = session_dir (tc_tmp_root C) y"
    then have u: "uses ?st (Inl x) x" "uses ?st (Inl y) y" by (simp_all add: map_keys_get)
    then have "seq_of x = seq_of y" using fresh_invD(1) [OF fresh] session_dir_inj xy(3) by blast
    then show "x = y" using fresh_invD(2) [OF fresh u] by simp
  qed
  then have "distinct (map (session_dir (tc_tmp_root C) \<circ> fst) (tx_sups ?st))"
    using wf by (simp add: distinct_map maps_wf_def comp_inj_on)
  moreover have A: "ts_dir s = session_dir (tc_tmp_root C) sid \<and> sid \<in> fst ` set (tx_sups ?st)"
    if "(sid, s) \<in> set (tx_sessions ?st)" for sid s
  proof -
    have "im_get (tx_sessions ?st) sid = Some s" using that wf by (simp add: maps_wf_def)
    then show ?thesis using reg_invD [OF reg, of sid] by (auto simp: reg_simps map_keys_get split: option.splits)
  qed
  moreover have B: "(Shutdown \<in> set (su_queue u)) = (sid \<notin> fst ` set (tx_sessions ?st))"
    if "(sid, u) \<in> set (tx_sups ?st)" for sid u
  proof -
    have "im_get (tx_sups ?st) sid = Some u" using that wf by (simp add: maps_wf_def)
    then show ?thesis using reg_invD [OF reg, of sid] by (auto simp: reg_simps map_keys_get split: option.splits)
  qed
  moreover have "list_all (\<lambda>(sid, s). ts_dir s = session_dir (tc_tmp_root C) sid \<and> sid \<in> fst ` set (tx_sups ?st)) (tx_sessions ?st)"
    unfolding list_all_iff using A by blast
  moreover have "list_all (\<lambda>(sid, u). (Shutdown \<in> set (su_queue u)) = (sid \<notin> fst ` set (tx_sessions ?st))) (tx_sups ?st)"
    unfolding list_all_iff using B by blast
  ultimately show ?thesis by blast
qed

section \<open>Crash loops end\<close>

text \<open>
  One round of a crash loop: the child leaves the directory as \<open>d\<close> and dies at \<open>exit_at\<close>; the supervisor
  counts the crash, waits, and launches another at \<open>launch_at\<close>, which may fail in either way.  If the
  previous launch failed there is no child to die and the first two events do nothing to the supervisor.
\<close>

record crash_round =
  cr_dir :: dir
  cr_exit_at :: nat
  cr_kf :: "string \<Rightarrow> f64 list option"
  cr_mkdir :: bool
  cr_spawn :: bool
  cr_launch_at :: nat

definition round_events :: "string \<Rightarrow> string \<Rightarrow> crash_round \<Rightarrow> tx_event list" where
  "round_events sid d r =
     [EWrite d (cr_dir r), EExit False (cr_exit_at r) sid, ECrash sid, ETimer sid, ESnapshot sid,
      EPersist (cr_kf r) sid, ELaunch (cr_mkdir r) (cr_spawn r) (cr_launch_at r) sid]"

fun short_lived :: "nat \<Rightarrow> crash_round list \<Rightarrow> bool" where
  "short_lived spawned [] = True"
| "short_lived spawned (r # rs) = (cr_exit_at r < spawned + healthy_run_reset \<and> short_lived (cr_launch_at r) rs)"

text \<open>In a crash loop that has used \<open>k\<close> restarts, with \<open>t\<close> the launch of the current child, if any.\<close>

definition looping :: "string \<Rightarrow> string \<Rightarrow> nat \<Rightarrow> nat \<Rightarrow> tx_state \<Rightarrow> bool" where
  "looping sid d k t st \<longleftrightarrow>
     (\<exists>u s. im_get (tx_sups st) sid = Some u \<and> im_get (tx_sessions st) sid = Some s \<and> ts_restarts s = k \<and> ts_dir s = d
        \<and> (su_slot u = Running \<and> su_spawned u = t \<or> su_slot u = Crashed \<and> su_last_run u < healthy_run_reset))"

definition torn_down :: "string \<Rightarrow> string \<Rightarrow> tx_state \<Rightarrow> bool" where
  "torn_down sid d st \<longleftrightarrow> im_get (tx_sups st) sid = None \<and> im_get (tx_sessions st) sid = None \<and> tx_fs st d = None"

definition others_kept :: "string \<Rightarrow> tx_state \<Rightarrow> tx_state \<Rightarrow> bool" where
  "others_kept sid st st' \<longleftrightarrow> tx_starts st' = tx_starts st \<and> tx_stops st' = tx_stops st
     \<and> (\<forall>x. x = sid \<or> im_get (tx_sessions st') x = im_get (tx_sessions st) x \<and> im_get (tx_sups st') x = im_get (tx_sups st) x)"

lemma others_kept_refl [simp]: "others_kept sid st st"
  by (simp add: others_kept_def)

lemma others_kept_trans: "others_kept sid a b \<Longrightarrow> others_kept sid b c \<Longrightarrow> others_kept sid a c"
  unfolding others_kept_def by metis

lemma stops_pieces [simp]:
  "tx_stops (put_session sid s st) = tx_stops st" "tx_stops (take_session sid st) = tx_stops st"
  "tx_stops (set_slot sid u p st) = tx_stops st" "tx_stops (end_supervisor sid st) = tx_stops st"
  "tx_stops (release_permit b st) = tx_stops st" "tx_stops (remove_dir d st) = tx_stops st"
  "tx_stops (create_dir d st) = tx_stops st" "tx_stops (write_dir d x st) = tx_stops st"
  "tx_stops (send_ack a b st) = tx_stops st"
  by (simp_all add: put_session_def take_session_def set_slot_def end_supervisor_def release_permit_def remove_dir_def
      create_dir_def write_dir_def send_ack_def split: option.splits)

lemma others_kept_steps:
  "others_kept sid st (write_dir d x st)" "others_kept sid st (sup_exit clean clk sid st)"
  "others_kept sid st (sup_crash sid st)" "others_kept sid st (sup_timer sid st)" "others_kept sid st (sup_snapshot sid st)"
  "others_kept sid st (sup_launch a b clk sid st)"
  by (auto simp: others_kept_def sup_exit_def sup_crash_def sup_timer_def sup_snapshot_def sup_launch_def respawn_gone_def
      Let_def split: option.splits sup_slot.splits)

lemma others_kept_persist: "others_kept sid st (sup_persist kf sid st)"
  by (auto simp: others_kept_def sup_persist_def respawn_gone_def Let_def split: option.splits sup_slot.splits prod.splits)

lemma total_pieces [simp]:
  "tx_total (set_slot sid u p st) = tx_total st" "tx_total (write_dir d x st) = tx_total st"
  "tx_total (send_ack a b st) = tx_total st"
  by (simp_all add: set_slot_def write_dir_def send_ack_def split: option.splits)

lemma total_kept:
  "tx_total (sup_exit clean clk sid st) = tx_total st" "tx_total (sup_timer sid st) = tx_total st"
  "tx_total (sup_snapshot sid st) = tx_total st" "tx_total (sup_launch a b clk sid st) = tx_total st"
  by (auto simp: sup_exit_def sup_timer_def sup_snapshot_def sup_launch_def respawn_gone_def
      split: option.splits sup_slot.splits)

lemma total_kept_persist: "tx_total (sup_persist kf sid st) = tx_total st"
  by (auto simp: sup_persist_def respawn_gone_def Let_def split: option.splits sup_slot.splits prod.splits)

text \<open>The two halves of a round: up to the crash, and the respawn.\<close>

definition after_exit :: "string \<Rightarrow> string \<Rightarrow> crash_round \<Rightarrow> tx_state \<Rightarrow> tx_state" where
  "after_exit sid d r st = sup_exit False (cr_exit_at r) sid (write_dir d (cr_dir r) st)"

definition respawn_run :: "string \<Rightarrow> crash_round \<Rightarrow> tx_state \<Rightarrow> tx_state" where
  "respawn_run sid r st =
     sup_launch (cr_mkdir r) (cr_spawn r) (cr_launch_at r) sid (sup_persist (cr_kf r) sid (sup_snapshot sid (sup_timer sid st)))"

lemma round_run: "foldl (tx_step C) st (round_events sid d r) = respawn_run sid r (sup_crash sid (after_exit sid d r st))"
  by (simp add: round_events_def respawn_run_def after_exit_def)

lemma half_kept:
  "others_kept sid st (after_exit sid d r st)" "tx_total (after_exit sid d r st) = tx_total st"
  "others_kept sid st (respawn_run sid r st)" "tx_total (respawn_run sid r st) = tx_total st"
proof -
  show "others_kept sid st (after_exit sid d r st)" "tx_total (after_exit sid d r st) = tx_total st"
    unfolding after_exit_def by (rule others_kept_trans [OF others_kept_steps(1,2)], simp add: total_kept)
  show "others_kept sid st (respawn_run sid r st)" unfolding respawn_run_def
    by (rule others_kept_trans [OF others_kept_trans [OF others_kept_steps(4)
          others_kept_trans [OF others_kept_steps(5) others_kept_persist]] others_kept_steps(6)])
  show "tx_total (respawn_run sid r st) = tx_total st"
    by (simp add: respawn_run_def total_kept total_kept_persist)
qed

lemma looping_exit:
  assumes "looping sid d k t st" "cr_exit_at r < t + healthy_run_reset"
  obtains u s where "im_get (tx_sups (after_exit sid d r st)) sid = Some u" "su_slot u = Crashed"
    "su_last_run u < healthy_run_reset" "im_get (tx_sessions (after_exit sid d r st)) sid = Some s" "ts_restarts s = k" "ts_dir s = d"
  using assms by (auto simp: looping_def after_exit_def sup_exit_def healthy_run_reset_def)

lemma crash_again:
  assumes "im_get (tx_sups st) sid = Some u" "su_slot u = Crashed" "su_last_run u < healthy_run_reset"
    and "im_get (tx_sessions st) sid = Some s" "ts_restarts s < max_restarts"
  shows "sup_crash sid st = set_slot sid (u\<lparr>su_last_run := 0\<rparr>) (Backoff (ts_restarts s + 1))
           (put_session sid (s\<lparr>ts_restarts := ts_restarts s + 1\<rparr>) st)"
  using assms by (simp add: sup_crash_def effective_restart_count_def Let_def)

lemma crash_at_cap:
  assumes "im_get (tx_sups st) sid = Some u" "su_slot u = Crashed" "su_last_run u < healthy_run_reset"
    and "im_get (tx_sessions st) sid = Some s" "max_restarts \<le> ts_restarts s"
  shows "sup_crash sid st
    = end_supervisor sid (remove_dir (ts_dir s) (release_permit (ts_permit s) (take_session sid st)))"
  using assms by (simp add: sup_crash_def effective_restart_count_def)

lemma respawn_loops:
  assumes "im_get (tx_sups st) sid = Some u" "su_slot u = Backoff n"
    and "im_get (tx_sessions st) sid = Some s" "ts_restarts s = k" "ts_dir s = d"
  shows "looping sid d k (cr_launch_at r) (respawn_run sid r st)"
proof -
  let ?a = "sup_timer sid st" and ?b = "sup_snapshot sid (sup_timer sid st)"
  let ?c = "sup_persist (cr_kf r) sid ?b"
  have "im_get (tx_sups ?a) sid = Some (u\<lparr>su_slot := Respawning CrashMode None\<rparr>)" "im_get (tx_sessions ?a) = im_get (tx_sessions st)"
    using assms by (simp_all add: sup_timer_def)
  then have b: "im_get (tx_sups ?b) sid = Some (u\<lparr>su_slot := Snapped CrashMode None s\<rparr>)"
      "im_get (tx_sessions ?b) = im_get (tx_sessions st)"
    using assms(3) by (simp_all add: sup_snapshot_def)
  obtain sa n t g x where target: "respawn_target (cr_kf r) CrashMode s (read_dir ?b (ts_dir s)) = (sa, n, t, g, x)"
    by (metis prod_cases5)
  have c: "im_get (tx_sups ?c) sid = Some (u\<lparr>su_slot := Launching None s sa t\<rparr>)"
      "im_get (tx_sessions ?c) sid = Some (respawned CrashMode n t g s)"
    using b assms(3) target by (simp_all add: sup_persist_def Let_def)
  have "ts_restarts (respawned CrashMode n t g s) = k" using assms(4) by (simp add: respawned_def)
  then show ?thesis using c assms(5)
    by (auto simp: respawn_run_def sup_launch_def looping_def send_ack_def healthy_run_reset_def)
qed

lemma torn_down_stays:
  assumes "torn_down sid d st"
  shows "foldl (tx_step C) st (concat (map (round_events sid d) rs)) = st"
proof (induction rs)
  case (Cons r rs)
  have "foldl (tx_step C) st (round_events sid d r) = st"
    using assms by (simp add: round_events_def torn_down_def write_dir_def sup_exit_def sup_crash_def sup_timer_def
        sup_snapshot_def sup_persist_def sup_launch_def)
  then show ?case using Cons by simp
qed simp

lemma fs_pieces: "tx_fs (end_supervisor sid st) = tx_fs st" "tx_fs (remove_dir d st) = (tx_fs st)(d := None)"
  by (simp_all add: end_supervisor_def remove_dir_def)

lemma crash_loop_torn_down:
  assumes "looping sid d k t st" "short_lived t rs" "max_restarts < k + length rs" "k \<le> max_restarts" "0 < tx_total st"
  shows "torn_down sid d (foldl (tx_step C) st (concat (map (round_events sid d) rs)))
    \<and> tx_total (foldl (tx_step C) st (concat (map (round_events sid d) rs))) + 1 = tx_total st
    \<and> others_kept sid st (foldl (tx_step C) st (concat (map (round_events sid d) rs)))"
  using assms
proof (induction rs arbitrary: k t st)
  case (Cons r rs)
  let ?a = "after_exit sid d r st"
  have "cr_exit_at r < t + healthy_run_reset" using Cons.prems(2) by simp
  then obtain u s where a: "im_get (tx_sups ?a) sid = Some u" "su_slot u = Crashed" "su_last_run u < healthy_run_reset"
      "im_get (tx_sessions ?a) sid = Some s" "ts_restarts s = k" "ts_dir s = d"
    by (rule looping_exit [OF Cons.prems(1)])
  let ?b = "sup_crash sid ?a" and ?c = "respawn_run sid r (sup_crash sid ?a)"
  have run: "foldl (tx_step C) st (concat (map (round_events sid d) (r # rs)))
      = foldl (tx_step C) ?c (concat (map (round_events sid d) rs))"
    by (simp add: round_run)
  have kept: "others_kept sid st ?c"
    by (rule others_kept_trans [OF half_kept(1) others_kept_trans [OF others_kept_steps(3) half_kept(3)]])
  show ?case
  proof (cases "k < max_restarts")
    case True
    have b: "?b = set_slot sid (u\<lparr>su_last_run := 0\<rparr>) (Backoff (k + 1)) (put_session sid (s\<lparr>ts_restarts := k + 1\<rparr>) ?a)"
      using crash_again [OF a(1-4)] a(5) True by simp
    have "looping sid d (k + 1) (cr_launch_at r) ?c"
      by (rule respawn_loops [where u = "u\<lparr>su_last_run := 0, su_slot := Backoff (k + 1)\<rparr>" and n = "k + 1"
            and s = "s\<lparr>ts_restarts := k + 1\<rparr>"]) (simp_all add: b a(6))
    moreover have total: "tx_total ?c = tx_total st" by (simp add: half_kept b)
    ultimately have "torn_down sid d (foldl (tx_step C) ?c (concat (map (round_events sid d) rs)))
        \<and> tx_total (foldl (tx_step C) ?c (concat (map (round_events sid d) rs))) + 1 = tx_total ?c
        \<and> others_kept sid ?c (foldl (tx_step C) ?c (concat (map (round_events sid d) rs)))"
      using Cons.prems True Cons.IH [of "k + 1" "cr_launch_at r" ?c] by simp
    then show ?thesis unfolding run using total others_kept_trans [OF kept] by simp
  next
    case False
    have b: "?b = end_supervisor sid (remove_dir d (release_permit (ts_permit s) (take_session sid ?a)))"
      using crash_at_cap [OF a(1-4)] a(5,6) False by simp
    then have down: "torn_down sid d ?b" by (simp add: torn_down_def fs_pieces)
    then have c: "?c = ?b"
      by (simp add: respawn_run_def torn_down_def sup_timer_def sup_snapshot_def sup_persist_def sup_launch_def)
    have "tx_total ?b + 1 = tx_total st"
      using Cons.prems(5) by (simp add: b release_permit_def half_kept)
    then show ?thesis unfolding run using torn_down_stays [OF down, of C rs] down kept c by simp
  qed
qed simp

text \<open>
  C6. A crash loop ends.  If every child of a session dies within a minute of its launch, whether the
  launches in between succeed or fail, then after at most four crashes (one more than the restarts it has
  left) the session is gone with its supervisor and its directory, its slot is free again, and nothing
  else has changed.
\<close>

theorem crash_loop_ends:
  assumes "im_get (tx_sups (tx_run C evs)) sid = Some u" "su_slot u = Running"
    and "im_get (tx_sessions (tx_run C evs)) sid = Some s"
    and "short_lived (su_spawned u) rs" "max_restarts < ts_restarts s + length rs"
  shows "torn_down sid (ts_dir s) (foldl (tx_step C) (tx_run C evs) (concat (map (round_events sid (ts_dir s)) rs)))
    \<and> tx_total (foldl (tx_step C) (tx_run C evs) (concat (map (round_events sid (ts_dir s)) rs))) + 1 = tx_total (tx_run C evs)
    \<and> others_kept sid (tx_run C evs) (foldl (tx_step C) (tx_run C evs) (concat (map (round_events sid (ts_dir s)) rs)))"
proof (rule crash_loop_torn_down)
  show "looping sid (ts_dir s) (ts_restarts s) (su_spawned u) (tx_run C evs)" using assms(1-3) by (auto simp: looping_def)
  have "reg_inv C (tx_run C evs)" using tx_run_inv by (simp add: tx_inv_def)
  then show "ts_restarts s \<le> max_restarts" using reg_invD [of C _ sid] assms(3) by (fastforce simp: reg_simps)
  have "permits_ok C (tx_run C evs)" using tx_run_inv by (simp add: tx_inv_def)
  then have "tx_total (tx_run C evs) = held (\<lambda>_. 1) (tx_run C evs)" "maps_wf (tx_run C evs)" by (simp_all add: permits_ok_def)
  then show "0 < tx_total (tx_run C evs)" using held_take [OF _ assms(3), of "\<lambda>_. 1"] by linarith
qed (use assms in simp_all)

section \<open>A run with one live session\<close>

definition demo_conf :: tx_config where
  "demo_conf = \<lparr>tc_caps = default_caps, tc_tmp_root = ''/scratch'', tc_encoder = Cpu, tc_roots = [], tc_vaapi = False,
     tc_alt_audio = False\<rparr>"

definition demo_opts :: start_opts where
  "demo_opts = \<lparr>so_kind = ''movie'', so_media_id = 7, so_sub = ''u'', so_input = ''/m.mkv'', so_plan = demo_copy_plan,
     so_start = 0, so_codec = Some ''hevc'', so_profile = None, so_avg = None, so_client_max = None, so_duration = Some 20,
     so_owner = Some ''u'', so_subtitle = None, so_tracks = []\<rparr>"

definition demo_sid :: string where "demo_sid = make_session_id ''movie'' 7 ''u'' 5 0"

definition demo_session :: tx_session where
  "demo_session = make_session demo_conf demo_opts demo_sid 5 False (Some (0, 0))"

definition demo_events :: "tx_event list" where
  "demo_events = [EStart 0 demo_opts, EMatch [] 5 0, EClaim 5 0, ESpawn demo_kf True True 100 0]"

lemma demo_live_run:
  "tx_sessions (tx_run demo_conf demo_events) = [(demo_sid, demo_session)]"
  "tx_sups (tx_run demo_conf demo_events) = [(demo_sid, new_supervisor 100)]"
  by (simp_all add: tx_run_def demo_events_def new_manager_def start_begin_def start_match_def start_claim_def start_spawn_def
      is_source_path_allowed_def demo_conf_def demo_opts_def Let_def gate_free_def find_owner_title_session_def
      iteration_order_def set_task_def end_task_def create_dir_def put_session_def cpu_charge_def seq_try_acquire_def
      default_caps_def demo_copy_plan_def demo_session_def demo_sid_def grid_start_def)

definition demo_round :: crash_round where
  "demo_round = \<lparr>cr_dir = [], cr_exit_at = 900, cr_kf = demo_kf, cr_mkdir = True, cr_spawn = True, cr_launch_at = 200\<rparr>"

lemma crash_loop_ends_witness:
  "torn_down demo_sid (ts_dir demo_session) (foldl (tx_step demo_conf) (tx_run demo_conf demo_events)
     (concat (map (round_events demo_sid (ts_dir demo_session)) [demo_round, demo_round, demo_round, demo_round])))"
  using crash_loop_ends [of demo_conf demo_events demo_sid "new_supervisor 100" demo_session
      "[demo_round, demo_round, demo_round, demo_round]"]
  by (simp add: demo_live_run new_supervisor_def demo_round_def healthy_run_reset_def max_restarts_def demo_session_def
      make_session_def)

section \<open>Seeks\<close>

text \<open>The supervisor's path from a command in its queue to a new child, with nothing else in between.\<close>

definition respawn_path :: "(string \<Rightarrow> f64 list option) \<Rightarrow> nat \<Rightarrow> string \<Rightarrow> tx_event list" where
  "respawn_path kf clk sid = [ERecv sid, ESnapshot sid, EPersist kf sid, ELaunch True True clk sid]"

definition seek_target :: "(string \<Rightarrow> f64 list option) \<Rightarrow> tx_session \<Rightarrow> nat \<Rightarrow> (nat \<times> nat) option" where
  "seek_target kf s secs = grid_start kf (ts_plan s) (ts_input s) (ts_duration s) secs"

lemma respawn_path_lands:
  assumes "im_get (tx_sups st) sid = Some u" "listens (su_slot u)" "su_queue u = Restart ack # q"
    and "im_get (tx_sessions st) sid = Some s" "seek_target kf s (ts_start s) = Some (eff, n)"
  shows "im_get (tx_sessions (foldl (tx_step C) st (respawn_path kf clk sid))) sid = Some (respawned SeekMode n eff (Some True) s)"
    and "im_get (tx_sups (foldl (tx_step C) st (respawn_path kf clk sid))) sid
      = Some (u\<lparr>su_queue := q, su_slot := Running, su_spawned := clk\<rparr>)"
    and "(ack, True) \<in> set (tx_acks (foldl (tx_step C) st (respawn_path kf clk sid)))"
proof -
  let ?a = "sup_recv sid st" and ?b = "sup_snapshot sid (sup_recv sid st)"
  let ?c = "sup_persist kf sid (sup_snapshot sid (sup_recv sid st))"
  have a: "im_get (tx_sups ?a) sid = Some (u\<lparr>su_queue := q, su_slot := Respawning SeekMode (Some ack)\<rparr>)"
      "im_get (tx_sessions ?a) sid = Some s"
    using assms(1-4) by (simp_all add: sup_recv_def)
  have b: "im_get (tx_sups ?b) sid = Some (u\<lparr>su_queue := q, su_slot := Snapped SeekMode (Some ack) s\<rparr>)"
      "im_get (tx_sessions ?b) sid = Some s"
    using a by (simp_all add: sup_snapshot_def)
  have c: "im_get (tx_sups ?c) sid = Some (u\<lparr>su_queue := q, su_slot := Launching (Some ack) s n eff\<rparr>)"
      "im_get (tx_sessions ?c) sid = Some (respawned SeekMode n eff (Some True) s)"
    using b assms(5) by (simp_all add: sup_persist_def respawn_target_def seek_target_def Let_def)
  have run: "foldl (tx_step C) st (respawn_path kf clk sid) = sup_launch True True clk sid ?c"
    by (simp add: respawn_path_def)
  show "im_get (tx_sessions (foldl (tx_step C) st (respawn_path kf clk sid))) sid = Some (respawned SeekMode n eff (Some True) s)"
    "im_get (tx_sups (foldl (tx_step C) st (respawn_path kf clk sid))) sid
      = Some (u\<lparr>su_queue := q, su_slot := Running, su_spawned := clk\<rparr>)"
    "(ack, True) \<in> set (tx_acks (foldl (tx_step C) st (respawn_path kf clk sid)))"
    using c unfolding run by (simp_all add: sup_launch_def send_ack_def)
qed

text \<open>An undisturbed seek: the session runs from the grid point of its target, and the answer is yes.\<close>

lemma seek_lands:
  assumes "im_get (tx_sups st) sid = Some u" "su_slot u = Running" "su_queue u = []"
    and "im_get (tx_sessions st) sid = Some s" "seek_target kf s secs = Some (eff, n)"
  shows "(ack, True) \<in> set (tx_acks (foldl (tx_step C) st (ESeek ack now sid secs # respawn_path kf clk sid)))
    \<and> im_get (tx_sessions (foldl (tx_step C) st (ESeek ack now sid secs # respawn_path kf clk sid))) sid
      = Some (respawned SeekMode n eff (Some True) (s\<lparr>ts_start := secs, ts_last_seen := now\<rparr>))"
proof -
  let ?a = "snd (seek_begin ack now sid secs st)"
  have a: "im_get (tx_sups ?a) sid = Some (u\<lparr>su_queue := [Restart ack]\<rparr>)"
      "im_get (tx_sessions ?a) sid = Some (s\<lparr>ts_start := secs, ts_last_seen := now\<rparr>)"
    using assms(1,3,4) by (simp_all add: seek_begin_def)
  have t: "seek_target kf (s\<lparr>ts_start := secs, ts_last_seen := now\<rparr>) secs = Some (eff, n)"
    using assms(5) by (simp add: seek_target_def)
  show ?thesis
    using respawn_path_lands [of ?a sid "u\<lparr>su_queue := [Restart ack]\<rparr>" ack "[]"
        "s\<lparr>ts_start := secs, ts_last_seen := now\<rparr>" kf eff n C clk] a t assms(2)
    by (simp add: listens_def)
qed

lemma reencode_target:
  "reencodes_video (ts_plan s) \<Longrightarrow>
   seek_target kf s secs = Some (secs div hls_segment_secs * hls_segment_secs, secs div hls_segment_secs)"
  by (auto simp: seek_target_def grid_start_def hls_segment_secs_def Let_def)

text \<open>
  A seek can be lost although it is answered with success.  \<open>respawn\<close> reads the position in one lock
  scope and writes it back in another; a seek that sets its target in between is overwritten: when the
  first respawn is done, the supervisor takes the second seek's command, respawns at the position of the
  first, and acknowledges the second.
\<close>

theorem overwritten_seek:
  assumes "im_get (tx_sups st) sid = Some u" "su_slot u = Snapped SeekMode (Some ack1) s1" "su_queue u = []"
    and "im_get (tx_sessions st) sid = Some s" "reencodes_video (ts_plan s1)" "ts_plan s = ts_plan s1"
  shows "case im_get (tx_sessions (foldl (tx_step C) st
        ([ESeek ack2 now sid secs2, EPersist kf sid, ELaunch True True clk sid] @ respawn_path kf clk2 sid))) sid of
      None \<Rightarrow> False
    | Some s' \<Rightarrow> ts_start s' = ts_start s1 div hls_segment_secs * hls_segment_secs
        \<and> (ack2, True) \<in> set (tx_acks (foldl (tx_step C) st
            ([ESeek ack2 now sid secs2, EPersist kf sid, ELaunch True True clk sid] @ respawn_path kf clk2 sid)))"
proof -
  let ?n = "ts_start s1 div hls_segment_secs" and ?eff = "ts_start s1 div hls_segment_secs * hls_segment_secs"
  let ?a = "snd (seek_begin ack2 now sid secs2 st)"
  let ?b = "sup_persist kf sid ?a" and ?c = "sup_launch True True clk sid (sup_persist kf sid ?a)"
  let ?s = "respawned SeekMode ?n ?eff (Some True) (s\<lparr>ts_start := secs2, ts_last_seen := now\<rparr>)"
  have a: "im_get (tx_sups ?a) sid = Some (u\<lparr>su_queue := [Restart ack2]\<rparr>)"
      "im_get (tx_sessions ?a) sid = Some (s\<lparr>ts_start := secs2, ts_last_seen := now\<rparr>)"
    using assms(1,3,4) by (simp_all add: seek_begin_def)
  have "respawn_target kf SeekMode s1 d = (?n, ?n, ?eff, Some True, d)" for d
    using reencode_target [OF assms(5), of kf] by (simp add: respawn_target_def seek_target_def)
  then have b: "im_get (tx_sups ?b) sid = Some (u\<lparr>su_queue := [Restart ack2], su_slot := Launching (Some ack1) s1 ?n ?eff\<rparr>)"
      "im_get (tx_sessions ?b) sid = Some ?s"
    using a assms(2) by (simp_all add: sup_persist_def Let_def)
  have c: "im_get (tx_sups ?c) sid = Some (u\<lparr>su_queue := [Restart ack2], su_slot := Running, su_spawned := clk\<rparr>)"
      "im_get (tx_sessions ?c) sid = Some ?s"
    using b by (simp_all add: sup_launch_def)
  have s: "ts_start ?s = ?eff" "reencodes_video (ts_plan ?s)" using assms(5,6) by (simp_all add: respawned_def)
  have "seek_target kf ?s (ts_start ?s) = Some (?eff, ?n)"
    using reencode_target [OF s(2), of kf ?eff] s(1) by (simp add: hls_segment_secs_def)
  from respawn_path_lands [OF c(1) _ _ c(2) this, of ack2 "[]" C clk2]
  show ?thesis by (simp add: listens_def respawned_def)
qed

definition demo_encode_opts :: start_opts where
  "demo_encode_opts = demo_opts\<lparr>so_plan := Transcode (VEncodeH264 None False None None) ACopy SNone MpegTs 0 [] [] ''codec''\<rparr>"

definition demo_seek_events :: "tx_event list" where
  "demo_seek_events = [EStart 0 demo_encode_opts, EMatch [] 5 0, EClaim 5 0, ESpawn demo_kf True True 100 0,
     ESeek 1 6 demo_sid 10, ERecv demo_sid, ESnapshot demo_sid]"

definition demo_seek_session :: tx_session where
  "demo_seek_session = (make_session demo_conf demo_encode_opts demo_sid 5 True (Some (0, 0)))\<lparr>ts_start := 10, ts_last_seen := 6\<rparr>"

lemma demo_seek_run:
  "tx_sessions (tx_run demo_conf demo_seek_events) = [(demo_sid, demo_seek_session)]"
  "tx_sups (tx_run demo_conf demo_seek_events)
    = [(demo_sid, (new_supervisor 100)\<lparr>su_slot := Snapped SeekMode (Some 1) demo_seek_session\<rparr>)]"
  by (simp_all add: tx_run_def demo_seek_events_def new_manager_def start_begin_def start_match_def start_claim_def
      start_spawn_def is_source_path_allowed_def demo_conf_def demo_opts_def demo_encode_opts_def Let_def gate_free_def
      find_owner_title_session_def iteration_order_def set_task_def end_task_def create_dir_def put_session_def
      cpu_charge_def uses_full_hw_pipeline_def seq_try_acquire_def default_caps_def demo_seek_session_def demo_sid_def
      grid_start_def new_supervisor_def seek_begin_def send_cmd_def sup_recv_def listens_def sup_snapshot_def set_slot_def)

text \<open>The player seeks to 10 and then to 500 seconds; both are acknowledged and it is left at 10.\<close>

lemma overwritten_seek_witness:
  "case im_get (tx_sessions (foldl (tx_step demo_conf) (tx_run demo_conf demo_seek_events)
        ([ESeek 2 7 demo_sid 500, EPersist demo_kf demo_sid, ELaunch True True 300 demo_sid] @ respawn_path demo_kf 400 demo_sid))) demo_sid of
      None \<Rightarrow> False
    | Some s' \<Rightarrow> ts_start s' = 10
        \<and> (2, True) \<in> set (tx_acks (foldl (tx_step demo_conf) (tx_run demo_conf demo_seek_events)
            ([ESeek 2 7 demo_sid 500, EPersist demo_kf demo_sid, ELaunch True True 300 demo_sid] @ respawn_path demo_kf 400 demo_sid)))"
proof -
  let ?st = "tx_run demo_conf demo_seek_events"
  have "im_get (tx_sups ?st) demo_sid = Some ((new_supervisor 100)\<lparr>su_slot := Snapped SeekMode (Some 1) demo_seek_session\<rparr>)"
    "im_get (tx_sessions ?st) demo_sid = Some demo_seek_session"
    by (simp_all add: demo_seek_run)
  moreover have "reencodes_video (ts_plan demo_seek_session)"
    by (simp add: demo_seek_session_def make_session_def demo_encode_opts_def)
  moreover have e: "ts_start demo_seek_session div hls_segment_secs * hls_segment_secs = 10"
    by (simp add: demo_seek_session_def hls_segment_secs_def)
  ultimately show ?thesis
    using overwritten_seek [where st = ?st and sid = demo_sid and C = demo_conf and s = demo_seek_session
        and ?s1.0 = demo_seek_session and u = "(new_supervisor 100)\<lparr>su_slot := Snapped SeekMode (Some 1) demo_seek_session\<rparr>"
        and ?ack1.0 = 1 and ?ack2.0 = 2 and now = 7 and ?secs2.0 = 500 and kf = demo_kf and clk = 300 and ?clk2.0 = 400]
    unfolding e by (simp add: new_supervisor_def)
qed

section \<open>Backfills\<close>

fun ends_backfill :: "string \<Rightarrow> tx_event \<Rightarrow> bool" where
  "ends_backfill sid (EBackfillEnd x) = (x = sid)"
| "ends_backfill sid _ = False"

lemma backfilling_pieces [simp]:
  "tx_backfilling (put_session sid s st) = tx_backfilling st" "tx_backfilling (take_session sid st) = tx_backfilling st"
  "tx_backfilling (set_slot sid u p st) = tx_backfilling st" "tx_backfilling (end_supervisor sid st) = tx_backfilling st"
  "tx_backfilling (set_task tid k ph st) = tx_backfilling st" "tx_backfilling (end_task tid st) = tx_backfilling st"
  "tx_backfilling (release_permit b st) = tx_backfilling st" "tx_backfilling (remove_dir d st) = tx_backfilling st"
  "tx_backfilling (create_dir d st) = tx_backfilling st" "tx_backfilling (write_dir d x st) = tx_backfilling st"
  "tx_backfilling (send_ack a b st) = tx_backfilling st" "tx_backfilling (send_cmd sid c st) = tx_backfilling st"
  by (simp_all add: put_session_def take_session_def set_slot_def end_supervisor_def set_task_def end_task_def
      release_permit_def remove_dir_def create_dir_def write_dir_def send_ack_def send_cmd_def split: option.splits)

lemma backfilling_step:
  assumes "sid \<in> set (tx_backfilling st)" "\<not> ends_backfill sid e"
  shows "sid \<in> set (tx_backfilling (tx_step C st e))"
proof (cases e)
  case (EStart tid o1)
  then show ?thesis using assms(1) by (auto simp: start_begin_def Let_def)
next
  case (ESpawn kf a b clk tid)
  show ?thesis unfolding ESpawn using assms(1)
    by (cases rule: start_spawn_cases [of C kf a b clk tid st]) (simp_all add: spawn_registered_def Let_def)
next
  case (EClaim now tid)
  then show ?thesis using assms(1) by (auto simp: start_claim_def Let_def split: option.splits sum.splits prod.splits)
next
  case (EBackfill kf ack now x index)
  then show ?thesis using assms(1) by (auto simp: backfill_begin_def seek_begin_def Let_def split: option.splits)
qed (use assms in \<open>auto simp: start_match_def start_supersede_def start_cancel_def stop_begin_def stop_end_def
    tx_heartbeat_def seek_begin_def backfill_end_def sup_exit_def sup_recv_def sup_closed_def sup_crash_def sup_timer_def
    sup_snapshot_def sup_persist_def sup_launch_def respawn_gone_def Let_def
    split: option.splits bool.splits start_phase.splits sup_slot.splits list.splits tx_cmd.splits prod.splits\<close>)

lemma backfilling_run:
  "sid \<in> set (tx_backfilling st) \<Longrightarrow> list_all (\<lambda>e. \<not> ends_backfill sid e) evs \<Longrightarrow>
   sid \<in> set (tx_backfilling (foldl (tx_step C) st evs))"
proof (induction evs arbitrary: st)
  case (Cons e evs)
  then show ?case using backfilling_step [of sid st e C] by simp
qed simp

text \<open>
  A backfill whose request is dropped while it waits for the seek never takes the session out of the set
  again; from then on every backfill of that session is refused.
\<close>

lemma abandoned_backfill:
  assumes "sid \<in> set (tx_backfilling st)" "list_all (\<lambda>e. \<not> ends_backfill sid e) evs"
  shows "fst (backfill_begin kf ack now sid index (foldl (tx_step C) st evs)) = Some False"
  using backfilling_run [OF assms, of C] by (auto simp: backfill_begin_def split: option.splits)

end
