(* ===== verification/Principal.thy ===== *)
theory Principal
  imports Jwe Text
begin

text \<open>
  The internal-principal gate of the backend services: \<open>crates/media-core/src/auth.rs\<close> and
  \<open>config.rs\<close> (posture), the same gate in \<open>crates/transcoder/src/routes.rs\<close> and
  \<open>crates/iptv/src/api.rs\<close>, and the per-session and admin checks built on it.  A request that passes is
  admitted with or without verified claims; HTTP plumbing and logging are left out.
\<close>

section \<open>Posture\<close>

datatype principal_mode = Off | Log | Enforce

definition parse_mode :: "string \<Rightarrow> string + principal_mode" where
  "parse_mode s =
     (let m = to_lower (rtrim s) in
      if m = [] \<or> m = ''off'' then Inr Off
      else if m = ''log'' then Inr Log
      else if m = ''enforce'' then Inr Enforce
      else Inl m)"

text \<open>\<open>MEDIA_INTERNAL_PRINCIPAL_MODE\<close>, else the recommender's, else empty.\<close>

definition mode_from_env :: "(string \<Rightarrow> string option) \<Rightarrow> string + principal_mode" where
  "mode_from_env env =
     parse_mode (case env ''MEDIA_INTERNAL_PRINCIPAL_MODE'' of
        Some s \<Rightarrow> s
      | None \<Rightarrow> (case env ''RECOMMENDER_INTERNAL_PRINCIPAL_MODE'' of Some s \<Rightarrow> s | None \<Rightarrow> []))"

definition secret_from_env :: "(string \<Rightarrow> string option) \<Rightarrow> string option" where
  "secret_from_env env = (case env ''INTERNAL_PRINCIPAL_SECRET'' of None \<Rightarrow> None | Some s \<Rightarrow> if s = [] then None else Some s)"

datatype posture_check = PostureOk | PostureWarn | PostureReject

definition classify_posture :: "string \<Rightarrow> principal_mode \<Rightarrow> bool \<Rightarrow> posture_check" where
  "classify_posture host mode has_secret =
     (if mode = Enforce \<and> \<not> has_secret then PostureReject
      else if \<not> (host = ''127.0.0.1'' \<or> host = ''::1'' \<or> host = ''localhost'') \<and> mode \<noteq> Enforce then PostureWarn
      else PostureOk)"

definition validate_posture :: "string \<Rightarrow> principal_mode \<Rightarrow> bool \<Rightarrow> bool" where
  "validate_posture host mode has_secret \<longleftrightarrow> classify_posture host mode has_secret \<noteq> PostureReject"

definition require_media_root :: "principal_mode \<Rightarrow> bool \<Rightarrow> bool \<Rightarrow> bool" where
  "require_media_root mode media_roots_empty allow_any \<longleftrightarrow> \<not> (mode \<noteq> Off \<and> media_roots_empty \<and> \<not> allow_any)"

text \<open>The transcoder's boot: the mode and secret it will run with, or the reason it refuses to.\<close>

datatype boot_error = BadMode string | NoSecret | NoMediaRoot

definition build_from_env :: "(string \<Rightarrow> string option) \<Rightarrow> bool \<Rightarrow> boot_error + (principal_mode \<times> string option)" where
  "build_from_env env media_roots_empty =
     result_bind (map_err BadMode (mode_from_env env)) (\<lambda>mode.
       let secret = secret_from_env env in
       if mode = Enforce \<and> secret = None then Inl NoSecret
       else if \<not> require_media_root mode media_roots_empty (env ''TRANSCODER_ALLOW_ANY_PATH'' = Some ''1'') then Inl NoMediaRoot
       else Inr (mode, secret))"

section \<open>Verification\<close>

text \<open>The process-wide memo of derived keys, by secret.\<close>

type_synonym key_cache = "(string, string) imap"

definition derived_key :: "jwe_lib \<Rightarrow> string \<Rightarrow> key_cache \<Rightarrow> string \<times> key_cache" where
  "derived_key L secret cache =
     (case im_get cache secret of
        Some k \<Rightarrow> (k, cache)
      | None \<Rightarrow> (let k = derive_key L secret info_internal_principal in (k, im_insert secret k cache)))"

definition verify_with_key :: "jwe_lib \<Rightarrow> string \<Rightarrow> string \<Rightarrow> int \<Rightarrow> internal_error + internal_claims" where
  "verify_with_key L key token now =
     result_bind (internal_decrypt L [internal_kid \<mapsto> key] token) (\<lambda>claims.
     result_bind (internal_time_window claims now) (\<lambda>_. Inr claims))"

definition verify_principal ::
  "jwe_lib \<Rightarrow> string \<Rightarrow> string \<Rightarrow> int \<Rightarrow> key_cache \<Rightarrow> (internal_error + internal_claims) \<times> key_cache" where
  "verify_principal L secret token now cache =
     (let (key, cache') = derived_key L secret cache in (verify_with_key L key token now, cache'))"

section \<open>The three layers\<close>

definition bearer_token :: "headers \<Rightarrow> string option" where
  "bearer_token h =
     Option.bind (header_get h ''authorization'') (\<lambda>v. Option.bind (header_to_str v) (strip_prefix ''Bearer ''))"

datatype admission = Admit "internal_claims option" | Refuse

text \<open>media-core and the transcoder: with the gate off nothing is read.\<close>

definition principal_layer ::
  "jwe_lib \<Rightarrow> principal_mode \<Rightarrow> string option \<Rightarrow> headers \<Rightarrow> int \<Rightarrow> key_cache \<Rightarrow> admission \<times> key_cache" where
  "principal_layer L mode secret h now cache =
     (if mode = Off then (Admit None, cache)
      else case (bearer_token h, secret) of
        (Some tok, Some sec) \<Rightarrow>
          (case verify_principal L sec tok now cache of
             (Inr claims, cache') \<Rightarrow> (Admit (Some claims), cache')
           | (Inl e, cache') \<Rightarrow> (if mode = Enforce then Refuse else Admit None, cache'))
      | _ \<Rightarrow> (if mode = Enforce then Refuse else Admit None, cache))"

definition result_ok :: "'e + 'a \<Rightarrow> 'a option" where
  "result_ok r = (case r of Inl _ \<Rightarrow> None | Inr x \<Rightarrow> Some x)"

text \<open>iptv: the token is verified in every mode, and a good one always counts.\<close>

definition iptv_principal_layer ::
  "jwe_lib \<Rightarrow> principal_mode \<Rightarrow> string option \<Rightarrow> headers \<Rightarrow> int \<Rightarrow> key_cache \<Rightarrow> admission \<times> key_cache" where
  "iptv_principal_layer L mode secret h now cache =
     (let (verified, cache') =
        (case (bearer_token h, secret) of
           (Some tok, Some sec) \<Rightarrow> (case verify_principal L sec tok now cache of (r, c) \<Rightarrow> (result_ok r, c))
         | _ \<Rightarrow> (None, cache))
      in (case verified of
            Some claims \<Rightarrow> Admit (Some claims)
          | None \<Rightarrow> if mode = Enforce then Refuse else Admit None, cache'))"

section \<open>What claims allow\<close>

definition session_authorized :: "internal_claims option \<Rightarrow> string option \<Rightarrow> bool" where
  "session_authorized claims own \<longleftrightarrow>
     (case claims of None \<Rightarrow> True | Some c \<Rightarrow> ic_role c = ''admin'' \<or> own = Some (ic_sub c))"

section \<open>Facts\<close>

definition cache_ok :: "jwe_lib \<Rightarrow> key_cache \<Rightarrow> bool" where
  "cache_ok L cache \<longleftrightarrow> list_all (\<lambda>(s, k). k = derive_key L s info_internal_principal) cache"

lemma cache_ok_get: "cache_ok L cache \<Longrightarrow> im_get cache s = Some k \<Longrightarrow> k = derive_key L s info_internal_principal"
  by (auto simp: cache_ok_def list_all_iff dest: map_of_SomeD)

lemma cache_ok_insert: "cache_ok L cache \<Longrightarrow> cache_ok L (im_insert s (derive_key L s info_internal_principal) cache)"
  by (induction cache) (auto simp: cache_ok_def)

lemma derived_key_ok:
  assumes "cache_ok L cache"
  shows "fst (derived_key L s cache) = derive_key L s info_internal_principal \<and> cache_ok L (snd (derived_key L s cache))"
  using assms cache_ok_get cache_ok_insert by (auto simp: derived_key_def Let_def split: option.split)

lemma verify_principal_memo:
  assumes "cache_ok L cache"
  shows "fst (verify_principal L secret token now cache) = verify_with_key L (derive_key L secret info_internal_principal) token now"
    "cache_ok L (snd (verify_principal L secret token now cache))"
  using derived_key_ok [OF assms, of secret] by (auto simp: verify_principal_def split: prod.split)

text \<open>What an accepted principal token is.\<close>

definition genuine_principal :: "jwe_lib \<Rightarrow> string \<Rightarrow> string \<Rightarrow> int \<Rightarrow> internal_claims \<Rightarrow> bool" where
  "genuine_principal L secret token now c \<longleftrightarrow>
     (\<exists>nonce plain h x iv ct tag body tagb.
        split_on (CHR ''.'') token = [h, x, iv, ct, tag]
      \<and> jl_b64d L iv = Some nonce \<and> length nonce = 12 \<and> jl_b64d L ct = Some body \<and> jl_b64d L tag = Some tagb
      \<and> body @ tagb = jl_seal L (derive_key L secret info_internal_principal) nonce h plain
      \<and> Option.bind (jl_parse L plain) internal_of = Some c)
     \<and> ic_iss c = ''eex'' \<and> now \<le> ic_exp c"

lemma verify_genuine:
  assumes L: "jwe_laws L" and v: "verify_with_key L (derive_key L secret info_internal_principal) token now = Inr c"
  shows "genuine_principal L secret token now c"
proof -
  let ?key = "derive_key L secret info_internal_principal"
  obtain hd' b plain where plain: "decrypt_with_key L ?key token = Inr plain"
    and c: "Option.bind (jl_parse L plain) internal_of = Some c" "ic_iss c = ''eex''" "now \<le> ic_exp c"
    using v by (auto simp: verify_with_key_def internal_decrypt_def internal_time_window_def result_simps split: if_splits)
  obtain x nonce iv ct tag where parts: "split_on (CHR ''.'') token = [hd (split_on (CHR ''.'') token), x, iv, ct, tag]"
    and sealed: "jl_b64d L iv = Some nonce" "length nonce = 12" "jl_b64d L tag \<noteq> None"
      "map_option (\<lambda>c. c @ the (jl_b64d L tag)) (jl_b64d L ct) = Some (jl_seal L ?key nonce (hd (split_on (CHR ''.'') token)) plain)"
    using decrypt_with_key_Inr [OF L plain] by metis
  obtain body tagb where "jl_b64d L ct = Some body" "jl_b64d L tag = Some tagb"
    "body @ tagb = jl_seal L ?key nonce (hd (split_on (CHR ''.'') token)) plain"
    using sealed by auto
  then show ?thesis unfolding genuine_principal_def using parts sealed(1,2) c by blast
qed

definition admits_genuine :: "jwe_lib \<Rightarrow> string option \<Rightarrow> headers \<Rightarrow> int \<Rightarrow> admission \<Rightarrow> bool" where
  "admits_genuine L secret h now a \<longleftrightarrow>
     (case a of
        Refuse \<Rightarrow> True
      | Admit None \<Rightarrow> False
      | Admit (Some c) \<Rightarrow>
          (case (bearer_token h, secret) of (Some tok, Some sec) \<Rightarrow> genuine_principal L sec tok now c | _ \<Rightarrow> False))"



end
