(* ===== verification/Tx_Routes.thy ===== *)
theory Tx_Routes
  imports Principal Tx_Manager
begin

text \<open>
  \<open>crates/transcoder/src/routes.rs\<close>: the HTTP surface of the transcoder over the session manager.  A
  handler is a function of the verified claims the principal layer left, the request and the manager's
  state; its answer keeps the status and what the body carries.  Deserialization, headers other than the
  ones decided on, and the streaming of files are left out.
\<close>

section \<open>Grants\<close>

record grant_file =
  gf_path :: string
  gf_container :: "string option"
  gf_size :: int
  gf_duration :: "int option"
  gf_video_codec :: "string option"
  gf_height :: "int option"
  gf_profile :: "string option"
  gf_hdr :: "string option"
  gf_audio_json :: string
  gf_subtitle_json :: string

definition into_row :: "grant_file \<Rightarrow> media_file" where
  "into_row g =
     \<lparr>mf_id = 0, mf_path = gf_path g, mf_size = gf_size g, mf_mtime = [], mf_container = gf_container g,
      mf_duration = gf_duration g, mf_video_codec = gf_video_codec g, mf_height = gf_height g, mf_profile = gf_profile g,
      mf_hdr = gf_hdr g, mf_audio_json = gf_audio_json g, mf_subtitle_json = gf_subtitle_json g, mf_scanned_at = []\<rparr>"

record grant_request =
  gr_file :: grant_file
  gr_caps :: client_caps
  gr_kind :: string
  gr_media_id :: int
  gr_sub :: string
  gr_start :: nat
  gr_force :: bool

definition ffprobe_bin :: "string \<Rightarrow> string" where
  "ffprobe_bin ffmpeg = (case strip_suffix ''ffmpeg'' ffmpeg of Some p \<Rightarrow> p @ ''ffprobe'' | None \<Rightarrow> ''ffprobe'')"

definition u32_of_int :: "int \<Rightarrow> nat option" where
  "u32_of_int i = (if 0 \<le> i \<and> i < 2 ^ 32 then Some (nat i) else None)"

definition source_avg_kbps :: "int \<Rightarrow> int option \<Rightarrow> nat option" where
  "source_avg_kbps bytes dur =
     (case dur of
        Some d \<Rightarrow> if bytes > 0 \<and> d > 0 then u32_of_int (saturating_mul8 bytes div d div 1000) else None
      | None \<Rightarrow> None)"

definition client_max_kbps :: "client_caps \<Rightarrow> nat option" where
  "client_max_kbps c =
     (case cc_max_bitrate c of None \<Rightarrow> None | Some bps \<Rightarrow> if bps > 0 then u32_of_int (bps div 1000) else None)"

definition is_hevc_src :: "media_file \<Rightarrow> bool" where
  "is_hevc_src f = (case mf_video_codec f of None \<Rightarrow> False | Some c \<Rightarrow> to_lower (rtrim c) \<in> {''hevc'', ''h265''})"

definition hdr_unlabeled :: "media_file \<Rightarrow> bool" where
  "hdr_unlabeled f = (case mf_hdr f of None \<Rightarrow> True | Some h \<Rightarrow> rtrim h = [])"

text \<open>
  What a grant comes to before the manager starts anything, with the paths ffprobe was run on;
  \<open>probe_dv\<close> is the answer of the Dolby Vision probe for a path.
\<close>

datatype grant_plan =
  GForbidden
| GNoVideo
| GDirect string
| GStart start_opts

definition grant_row :: "(string \<Rightarrow> bool) \<Rightarrow> media_file \<Rightarrow> media_file \<times> string list" where
  "grant_row probe_dv f =
     (if is_hevc_src f \<and> hdr_unlabeled f
      then (if probe_dv (mf_path f) then f\<lparr>mf_hdr := Some ''Dolby Vision''\<rparr> else f, [mf_path f])
      else (f, []))"

definition grant_opts :: "media_lib \<Rightarrow> string option \<Rightarrow> grant_request \<Rightarrow> media_file \<Rightarrow> transcode_plan \<Rightarrow> start_opts" where
  "grant_opts M own req row plan =
     \<lparr>so_kind = gr_kind req, so_media_id = gr_media_id req, so_sub = gr_sub req, so_input = gf_path (gr_file req),
      so_plan = plan, so_start = gr_start req, so_codec = mf_video_codec row, so_profile = mf_profile row,
      so_avg = source_avg_kbps (mf_size row) (mf_duration row), so_client_max = client_max_kbps (gr_caps req),
      so_duration = mf_duration row, so_owner = own, so_subtitle = plan_sidecar_subtitle M row,
      so_tracks = audio_tracks M row\<rparr>"

definition grant_prepare ::
  "(string \<Rightarrow> string option) \<Rightarrow> media_lib \<Rightarrow> string list \<Rightarrow> (string \<Rightarrow> bool) \<Rightarrow> internal_claims option \<Rightarrow> grant_request \<Rightarrow> grant_plan \<times> string list" where
  "grant_prepare env M roots probe_dv claims req =
     (if \<not> is_source_path_allowed roots (gf_path (gr_file req)) then (GForbidden, [])
      else if rtrim (opt_text (gf_video_codec (gr_file req))) = [] then (GNoVideo, [])
      else let (row, probed) = grant_row probe_dv (into_row (gr_file req));
               plan = (if gr_force req then plan_transcode_forced env M row (gr_caps req)
                       else plan_transcode env M row (gr_caps req))
        in case plan of
             DirectPlay reason \<Rightarrow> (GDirect reason, probed)
           | Transcode _ _ _ _ _ _ _ _ \<Rightarrow> (GStart (grant_opts M (map_option ic_sub claims) req row plan), probed))"

text \<open>The answer to a start, as the route phrases it.\<close>

datatype grant_answer =
  GaDirect string
| GaSession string "(string \<times> sidecar_subtitle) option" "string option"
| GaNoVideo
| GaBusy bool
| GaForbidden
| GaError

definition session_url :: "string \<Rightarrow> string \<Rightarrow> string" where
  "session_url sid asset = ''/api/transcode/session/'' @ sid @ ''/'' @ asset"

definition audio_master_name :: string where "audio_master_name = ''master.m3u8''"

definition grant_result :: "tx_state \<Rightarrow> start_opts \<Rightarrow> start_error + string \<Rightarrow> grant_answer" where
  "grant_result st o1 r =
     (case r of
        Inr sid \<Rightarrow> GaSession sid
          (map_option (\<lambda>s. (session_url sid sidecar_subtitle_name, s)) (so_subtitle o1))
          (map_option (\<lambda>_. session_url sid audio_master_name)
            (Option.bind (im_get (tx_sessions st) sid) web_master))
      | Inl (SeBusy b) \<Rightarrow> GaBusy (cpu_cap b)
      | Inl (SeForbidden _) \<Rightarrow> GaForbidden
      | Inl _ \<Rightarrow> GaError)"

definition warm_status :: "string list \<Rightarrow> string \<Rightarrow> nat" where
  "warm_status roots path =
     (if rtrim path = [] then 422 else if \<not> is_source_path_allowed roots path then 403 else 202)"

section \<open>Requests on a session\<close>

datatype gate_answer = NotFound | Forbidden | Pass

definition session_gate :: "internal_claims option \<Rightarrow> tx_state \<Rightarrow> string \<Rightarrow> gate_answer" where
  "session_gate claims st sid =
     (case session_owner st sid of
        None \<Rightarrow> NotFound
      | Some own \<Rightarrow> if session_authorized claims own then Pass else Forbidden)"

definition session_heartbeat :: "internal_claims option \<Rightarrow> nat \<Rightarrow> string \<Rightarrow> tx_state \<Rightarrow> nat \<times> tx_state" where
  "session_heartbeat claims now sid st =
     (case session_gate claims st sid of
        NotFound \<Rightarrow> (404, st)
      | Forbidden \<Rightarrow> (403, st)
      | Pass \<Rightarrow> (case tx_heartbeat now sid st of (True, st') \<Rightarrow> (200, st') | (False, st') \<Rightarrow> (404, st')))"

text \<open>The first half of a seek, up to the wait for the supervisor; and its answer.\<close>

definition session_seek :: "internal_claims option \<Rightarrow> nat \<Rightarrow> nat \<Rightarrow> string \<Rightarrow> nat \<Rightarrow> tx_state \<Rightarrow> nat option \<times> tx_state" where
  "session_seek claims ack now sid secs st =
     (case session_gate claims st sid of
        NotFound \<Rightarrow> (Some 404, st)
      | Forbidden \<Rightarrow> (Some 403, st)
      | Pass \<Rightarrow> (None, snd (seek_begin ack now sid secs st)))"

definition seek_answer :: "bool \<Rightarrow> tx_state \<Rightarrow> string \<Rightarrow> nat" where
  "seek_answer sought st sid = (if sought then 200 else if session_owner st sid \<noteq> None then 503 else 404)"

definition session_stop :: "internal_claims option \<Rightarrow> nat \<Rightarrow> string \<Rightarrow> tx_state \<Rightarrow> nat \<times> tx_state" where
  "session_stop claims tid sid st =
     (case session_gate claims st sid of
        NotFound \<Rightarrow> (200, st)
      | Forbidden \<Rightarrow> (403, st)
      | Pass \<Rightarrow> (200, stop_begin tid sid st))"

section \<open>Playlists and assets\<close>

definition is_native_hls_client :: "headers \<Rightarrow> bool" where
  "is_native_hls_client h =
     (case Option.bind (header_get h ''user-agent'') header_to_str of
        None \<Rightarrow> False
      | Some ua \<Rightarrow> str_contains ua ''AppleCoreMedia'' \<or> str_contains ua ''CoreMedia'')"

text \<open>What is served: a playlist made in memory, or the file of a name in the session's directory.\<close>

datatype served =
  Document string
| FileOf string
| Status nat

definition session_manifest ::
  "tx_config \<Rightarrow> bool \<Rightarrow> (string \<Rightarrow> f64 list option) \<Rightarrow> internal_claims option \<Rightarrow> bool \<Rightarrow> tx_state \<Rightarrow> string \<Rightarrow> served" where
  "session_manifest C trickplay kf claims native st sid =
     (case session_gate claims st sid of
        NotFound \<Rightarrow> Status 404
      | Forbidden \<Rightarrow> Status 403
      | Pass \<Rightarrow>
          (case im_get (tx_sessions st) sid of
             None \<Rightarrow> Status 404
           | Some s \<Rightarrow>
               (case (if trickplay \<and> native then trickplay_master C s else None) of
                  Some m \<Rightarrow> Document m
                | None \<Rightarrow>
                    (case (if native then native_master C kf s else None) of
                       Some m \<Rightarrow> Document m
                     | None \<Rightarrow>
                         (case (if native then vod_manifest kf s else None) of
                            Some m \<Rightarrow> Document m
                          | None \<Rightarrow>
                              (case Option.bind (tx_fs st (ts_dir s)) (\<lambda>d. map_of d ''index.m3u8'') of
                                 None \<Rightarrow> Status 503
                               | Some _ \<Rightarrow> FileOf (manifest_path s)))))))"

text \<open>The documents that are names of the session but not files.\<close>

definition synthesized ::
  "bool \<Rightarrow> (string \<Rightarrow> f64 list option) \<Rightarrow> tx_session \<Rightarrow> string \<Rightarrow> served option" where
  "synthesized trickplay kf s segment =
     (let doc = (\<lambda>x. Some (case x of None \<Rightarrow> Status 404 | Some m \<Rightarrow> Document m)) in
      if segment = media_playlist_name then doc (vod_manifest kf s)
      else if segment = subs_playlist_name then doc (session_subs_playlist s)
      else if trickplay \<and> segment = iframe_playlist_name then doc (trickplay_iframe s)
      else if segment = audio_master_name then map_option Document (web_master s)
      else None)"

definition thumb_request :: "string \<Rightarrow> bool" where
  "thumb_request segment \<longleftrightarrow> starts_with ''thumb_'' segment \<and> ends_with ''.jpg'' segment"

text \<open>Whether a missing file is waited for, and which request first asks for a backfill.\<close>

definition waits_for :: "bool \<Rightarrow> string \<Rightarrow> bool" where
  "waits_for native segment \<longleftrightarrow>
     (native \<and> (segment_index segment \<noteq> None \<or> segment = sidecar_subtitle_name \<or> segment = ''init.mp4''))
     \<or> is_audio_rendition_asset segment"

definition asks_backfill :: "bool \<Rightarrow> string \<Rightarrow> bool \<Rightarrow> nat option" where
  "asks_backfill native segment present = (if native \<and> \<not> present then segment_index segment else None)"

definition segment_content_type :: "string \<Rightarrow> string" where
  "segment_content_type segment =
     (if ends_with ''.m4s'' segment then ''video/iso.segment''
      else if ends_with ''.mp4'' segment then ''video/mp4''
      else if ends_with ''.vtt'' segment then ''text/vtt''
      else if ends_with ''.jpg'' segment then ''image/jpeg''
      else ''video/mp2t'')"

text \<open>The whole route, once any wait is over; \<open>thumb\<close> is the outcome of the JPEG conversion.\<close>

definition session_segment ::
  "bool \<Rightarrow> (string \<Rightarrow> f64 list option) \<Rightarrow> bool \<Rightarrow> internal_claims option \<Rightarrow> nat \<Rightarrow> tx_state \<Rightarrow> string \<Rightarrow> string \<Rightarrow> served \<times> tx_state" where
  "session_segment trickplay kf thumb claims now st sid segment =
     (case session_gate claims st sid of
        NotFound \<Rightarrow> (Status 404, st)
      | Forbidden \<Rightarrow> (Status 403, st)
      | Pass \<Rightarrow>
          (case im_get (tx_sessions st) sid of
             None \<Rightarrow> (Status 404, st)
           | Some s \<Rightarrow>
               (case synthesized trickplay kf s segment of
                  Some d \<Rightarrow> (d, st)
                | None \<Rightarrow>
                    if thumb_request segment \<and> \<not> thumb then (Status 404, st)
                    else case asset_path (ts_dir s) segment of
                      None \<Rightarrow> (Status 404, st)
                    | Some p \<Rightarrow>
                        (let st' = snd (tx_heartbeat now sid st) in
                         case Option.bind (tx_fs st (ts_dir s)) (\<lambda>d. map_of d segment) of
                           None \<Rightarrow> (Status 404, st')
                         | Some body \<Rightarrow>
                             (if ends_with ''.m3u8'' segment \<and> is_audio_rendition_asset segment then Document body else FileOf p,
                              st')))))"

section \<open>The inventory\<close>

datatype session_view =
  FullView session_info
| OwnerView string string int nat

definition owner_view :: "session_info \<Rightarrow> session_view" where
  "owner_view i = OwnerView (si_id i) (si_kind i) (si_media_id i) (si_start i)"

definition sessions_route :: "internal_claims option \<Rightarrow> tx_state \<Rightarrow> session_view list \<times> nat \<times> nat" where
  "sessions_route claims st =
     (let infos = list_infos st in
      (case claims of
         Some c \<Rightarrow>
           if ic_role c \<noteq> ''admin'' then map owner_view (filter (\<lambda>i. si_owner i = Some (ic_sub c)) infos)
           else map FullView infos
       | None \<Rightarrow> map FullView infos, tx_total st, tx_cpu st))"

section \<open>What a caller can reach\<close>

fun view_id :: "session_view \<Rightarrow> string" where
  "view_id (FullView i) = si_id i"
| "view_id (OwnerView i k m t) = i"

definition listed_ids :: "internal_claims option \<Rightarrow> tx_state \<Rightarrow> string list" where
  "listed_ids claims st = map view_id (fst (sessions_route claims st))"

text \<open>Every route answers a refusal or "gone" and leaves the manager as it was.\<close>

definition locked_out ::
  "tx_config \<Rightarrow> bool \<Rightarrow> (string \<Rightarrow> f64 list option) \<Rightarrow> internal_claims option \<Rightarrow> tx_state \<Rightarrow> string \<Rightarrow> nat \<Rightarrow> bool" where
  "locked_out C trickplay kf claims st sid secs \<longleftrightarrow>
     session_heartbeat claims secs sid st \<in> {(403, st), (404, st)}
     \<and> session_seek claims secs secs sid secs st \<in> {(Some 403, st), (Some 404, st)}
     \<and> session_stop claims secs sid st \<in> {(403, st), (200, st)}
     \<and> session_manifest C trickplay kf claims True st sid \<in> {Status 403, Status 404}
     \<and> session_manifest C trickplay kf claims False st sid \<in> {Status 403, Status 404}"

lemma gate_passes:
  "session_gate claims st sid = Pass \<longleftrightarrow>
     (\<exists>s. im_get (tx_sessions st) sid = Some s \<and> session_authorized claims (ts_owner s))"
  by (auto simp: session_gate_def session_owner_def split: option.splits)

lemma listed_ids_owned:
  "listed_ids claims st = map fst (filter (\<lambda>(_, s). session_authorized claims (ts_owner s)) (tx_sessions st))"
  unfolding listed_ids_def sessions_route_def list_infos_def
  by (induction "tx_sessions st" arbitrary: st rule: list.induct; cases claims)
    (auto simp: session_authorized_def session_info_of_def owner_view_def Let_def comp_def filter_map split_def)

lemma listed_iff:
  assumes "im_wf (tx_sessions st)"
  shows "session_gate claims st sid = Pass \<longleftrightarrow> sid \<in> set (listed_ids claims st)"
  using assms by (force simp: gate_passes listed_ids_owned image_iff)

lemma not_passed:
  assumes "session_gate claims st sid \<noteq> Pass"
  shows "locked_out C trickplay kf claims st sid secs"
    "session_segment trickplay kf thumb claims now st sid segment \<in> {(Status 403, st), (Status 404, st)}"
  using assms
  by (auto simp: locked_out_def session_heartbeat_def session_seek_def session_stop_def session_manifest_def
      session_segment_def split: gate_answer.splits)


section \<open>Advertised playlists\<close>

lemma duration_range:
  assumes "known_duration d = Some x" "case d of None \<Rightarrow> True | Some n \<Rightarrow> n < 2 ^ 63"
  obtains q where "x = Fin q" "1 / 2 \<le> q" "q \<le> 2 ^ 64"
proof -
  obtain n where n: "d = Some n" "0 < n" "n < 2 ^ 63" "x = rnd (of_int n)"
    using assms by (auto simp: known_duration_def f_of_int_def split: option.splits if_splits)
  have lo: "(1 :: rat) \<le> of_int n" using n(2) by simp
  have hi: "(of_int n :: rat) \<le> 2 ^ 63" using n(3) by (metis of_int_le_iff of_int_numeral of_int_power less_imp_le)
  have "(2 :: rat) powi - 1074 \<le> of_int n" by (rule order_trans [OF _ lo]) (simp add: power_int_minus inverse_le_1_iff)
  moreover have "(of_int n :: rat) \<le> 2 ^ 1000" by (rule order_trans [OF hi]) simp
  ultimately obtain q where q: "rnd (of_int n) = Fin q" "of_int n / 2 \<le> q" "q \<le> 2 * of_int n" by (rule rnd_pos)
  then show thesis using that [of q] n(4) lo hi by simp
qed

lemma cell_count:
  assumes "1 / 2 \<le> q" "q \<le> 2 ^ 64" "1 \<le> k" "k \<le> 64"
  shows "0 < f_to_u64 (fceil (fdiv (Fin q) (Fin k)))"
proof -
  have k: "0 < k" using assms by simp
  have lo: "1 / 128 \<le> q / k" using assms by (simp add: field_simps)
  have hi: "q / k \<le> 2 ^ 64" using assms by (simp add: field_simps order_trans [of q "2 ^ 64"])
  have "(2 :: rat) powi - 1074 \<le> q / k" by (rule order_trans [OF _ lo]) (simp add: power_int_minus field_simps)
  moreover have "q / k \<le> 2 ^ 1000" by (rule order_trans [OF hi]) simp
  ultimately obtain v where v: "rnd (q / k) = Fin v" "0 < v" by (rule rnd_pos)
  have "1 \<le> \<lceil>v\<rceil>" using v(2) by simp
  then have "1 \<le> trunc_int (of_int \<lceil>v\<rceil>)" by (simp add: trunc_int_def)
  then show ?thesis using v k by (simp add: fceil_def f_to_u64_def sat_int_def)
qed

text \<open>A name resolves when the segment route answers it with a document made in memory.\<close>

definition resolves ::
  "bool \<Rightarrow> (string \<Rightarrow> f64 list option) \<Rightarrow> internal_claims option \<Rightarrow> tx_state \<Rightarrow> string \<Rightarrow> string \<Rightarrow> bool" where
  "resolves trickplay kf claims st sid name \<longleftrightarrow>
     (case fst (session_segment trickplay kf False claims 0 st sid name) of
        Document _ \<Rightarrow> True | FileOf _ \<Rightarrow> False | Status _ \<Rightarrow> False)"

lemma grid_media_playlist:
  assumes "reencodes_video (ts_plan s)" "ts_on_grid s" "known_duration (ts_duration s) = Some x"
    "case ts_duration s of None \<Rightarrow> True | Some n \<Rightarrow> n < 2 ^ 63"
  shows "vod_manifest kf s \<noteq> None" "trickplay_iframe s \<noteq> None"
proof -
  obtain q where q: "x = Fin q" "1 / 2 \<le> q" "q \<le> 2 ^ 64" using duration_range [OF assms(3,4)] .
  have seg: "seg_secs = Fin (of_nat hls_segment_secs)" "1 \<le> hls_segment_secs" "hls_segment_secs \<le> 64"
    by (simp_all add: hls_segment_secs_def f_of_int_exact)
  have ten: "f_of_int (int trickplay_interval_secs) = Fin 10" by (simp add: trickplay_interval_secs_def f_of_int_exact)
  have c1: "0 < f_to_u64 (fceil (fdiv x seg_secs))"
    unfolding q(1) seg(1) by (rule cell_count [OF q(2,3)]) (simp_all add: hls_segment_secs_def)
  have c2: "0 < f_to_u64 (fceil (fdiv x (f_of_int (int trickplay_interval_secs))))"
    unfolding q(1) ten by (rule cell_count [OF q(2,3)]) simp_all
  have ok: "is_finite x" "\<not> fle x (Fin 0)" using q by simp_all
  show "vod_manifest kf s \<noteq> None"
    using assms(1-3) c1 ok by (simp add: vod_manifest_def synthesize_def Let_def)
  show "trickplay_iframe s \<noteq> None"
    using assms(1,3) c2 ok by (simp add: trickplay_iframe_def iframe_playlist_def Let_def)
qed

lemma subs_resolve:
  assumes "ts_subtitle s \<noteq> None" "known_duration (ts_duration s) = Some x"
    "case ts_duration s of None \<Rightarrow> True | Some n \<Rightarrow> n < 2 ^ 63"
  shows "session_subs_playlist s \<noteq> None"
proof -
  obtain q where "x = Fin q" "1 / 2 \<le> q" using duration_range [OF assms(2,3)] .
  then show ?thesis using assms(1,2) by (simp add: session_subs_playlist_def subs_playlist_def)
qed

definition i64_duration :: "tx_session \<Rightarrow> bool" where
  "i64_duration s \<longleftrightarrow> (case ts_duration s of None \<Rightarrow> True | Some n \<Rightarrow> n < 2 ^ 63)"

lemma run_on_grid:
  assumes "im_get (tx_sessions (tx_run C evs)) sid = Some s" "reencodes_video (ts_plan s)"
  shows "ts_on_grid s"
proof -
  have "reg_inv C (tx_run C evs)" using tx_run_inv [of C evs] by (simp add: tx_inv_def)
  from reg_invD [OF this, of sid] show ?thesis using assms by (simp add: reg_at_def)
qed

lemma resolves_named:
  assumes "session_gate claims st sid = Pass" "im_get (tx_sessions st) sid = Some s"
  shows "resolves trickplay kf claims st sid media_playlist_name \<longleftrightarrow> vod_manifest kf s \<noteq> None"
    "resolves trickplay kf claims st sid subs_playlist_name \<longleftrightarrow> session_subs_playlist s \<noteq> None"
    "resolves True kf claims st sid iframe_playlist_name \<longleftrightarrow> trickplay_iframe s \<noteq> None"
  using assms
  by (auto simp: resolves_def session_segment_def synthesized_def Let_def media_playlist_name_def subs_playlist_name_def
      iframe_playlist_name_def split: option.splits)

lemma manifest_document:
  assumes "session_manifest C trickplay kf claims native st sid = Document m" "im_get (tx_sessions st) sid = Some s"
  shows "session_gate claims st sid = Pass"
    "(trickplay \<and> trickplay_master C s = Some m) \<or> native_master C kf s = Some m \<or> vod_manifest kf s = Some m"
  using assms by (auto simp: session_manifest_def split: gate_answer.splits option.splits if_splits)

text \<open>
  C14. The playlists a player is pointed at exist: whenever the manifest route answers a master playlist
  in any run, the media playlist it names, the subtitle playlist if it lists a subtitle and the thumbnail
  playlist if it announces one are each answered with a document by the segment route, for the same caller
  at the same moment; the other document the route can answer is the media playlist itself.
\<close>

theorem advertised_playlists_resolve:
  assumes "session_manifest C trickplay kf claims native (tx_run C evs) sid = Document m"
    "im_get (tx_sessions (tx_run C evs)) sid = Some s" "i64_duration s"
  shows "vod_manifest kf s = Some m
    \<or> (\<exists>iframe audio. m = master (bandwidth_bps s) None iframe (ts_subtitle s) audio
        \<and> resolves trickplay kf claims (tx_run C evs) sid media_playlist_name
        \<and> (ts_subtitle s = None \<or> resolves trickplay kf claims (tx_run C evs) sid subs_playlist_name)
        \<and> (iframe = False \<or> resolves trickplay kf claims (tx_run C evs) sid iframe_playlist_name))"
proof -
  let ?st = "tx_run C evs"
  have pass: "session_gate claims ?st sid = Pass" by (rule manifest_document(1) [OF assms(1,2)])
  note named = resolves_named [OF pass assms(2)]
  note dur = assms(3) [unfolded i64_duration_def]
  consider (trick) "trickplay" "trickplay_master C s = Some m" | (native) "native_master C kf s = Some m"
    | (vod) "vod_manifest kf s = Some m"
    using manifest_document(2) [OF assms(1,2)] by blast
  then show ?thesis
  proof cases
    case trick
    then obtain x audio where x: "reencodes_video (ts_plan s)" "known_duration (ts_duration s) = Some x"
      and m: "m = master (bandwidth_bps s) None True (ts_subtitle s) audio"
      by (auto simp: trickplay_master_def split: if_splits)
    note docs = grid_media_playlist [OF x(1) run_on_grid [OF assms(2) x(1)] x(2) dur]
    have media: "resolves trickplay kf claims ?st sid media_playlist_name" using docs(1) named(1) by blast
    moreover have "resolves trickplay kf claims ?st sid iframe_playlist_name" using docs(2) named(3) trick(1) by simp
    moreover have "ts_subtitle s = None \<or> resolves trickplay kf claims ?st sid subs_playlist_name"
      using subs_resolve [OF _ x(2) dur] named(2) by blast
    ultimately show ?thesis using m by blast
  next
    case native
    then obtain audio d where m: "m = master (bandwidth_bps s) None False (ts_subtitle s) audio" and v: "vod_manifest kf s = Some d"
      by (auto simp: native_master_def bind_eq_Some_conv split: if_splits)
    then obtain x where "known_duration (ts_duration s) = Some x"
      by (auto simp: vod_manifest_def bind_eq_Some_conv split: if_splits)
    have "ts_subtitle s = None \<or> resolves trickplay kf claims ?st sid subs_playlist_name"
      using subs_resolve [OF _ \<open>known_duration (ts_duration s) = Some x\<close> dur] named(2) by blast
    moreover have "resolves trickplay kf claims ?st sid media_playlist_name" using v named(1) by blast
    ultimately show ?thesis using m by blast
  qed blast
qed

lemma advertised_playlists_resolve_witness:
  "\<exists>m. session_manifest demo_conf True demo_kf None True (tx_run demo_conf demo_seek_events) demo_sid = Document m
     \<and> (vod_manifest demo_kf demo_seek_session = Some m
       \<or> (\<exists>iframe audio. m = master (bandwidth_bps demo_seek_session) None iframe (ts_subtitle demo_seek_session) audio
           \<and> resolves True demo_kf None (tx_run demo_conf demo_seek_events) demo_sid media_playlist_name
           \<and> (iframe = False \<or> resolves True demo_kf None (tx_run demo_conf demo_seek_events) demo_sid iframe_playlist_name)))"
proof -
  let ?st = "tx_run demo_conf demo_seek_events"
  let ?m = "master (bandwidth_bps demo_seek_session) None True None []"
  have get: "im_get (tx_sessions ?st) demo_sid = Some demo_seek_session" by (simp add: demo_seek_run)
  have re: "reencodes_video (ts_plan demo_seek_session)" "ts_duration demo_seek_session = Some 20" "ts_subtitle demo_seek_session = None"
    by (simp_all add: demo_seek_session_def make_session_def demo_encode_opts_def demo_opts_def)
  have tm: "trickplay_master demo_conf demo_seek_session = Some ?m"
    using re by (simp add: trickplay_master_def alt_audio_renditions_def demo_conf_def known_duration_def)
  have man: "session_manifest demo_conf True demo_kf None True ?st demo_sid = Document ?m"
    using get tm by (simp add: session_manifest_def session_gate_def session_owner_def session_authorized_def)
  have dur: "i64_duration demo_seek_session" by (simp add: i64_duration_def re(2))
  from man advertised_playlists_resolve [OF man get dur] show ?thesis by blast
qed

end
