(* ===== verification/Members.thy ===== *)
theory Members
  imports Session
begin

text \<open>
  The allowlist of \<open>server.db\<close>: \<open>crates/auth/src/members.rs\<close>, \<open>invites.rs\<close> and the admission gate of
  \<open>signin.rs\<close>.  A table is an insertion-ordered map on its primary key and a statement or an immediate
  transaction is one step, as SQLite runs them.  Timestamps are the stored texts, compared as texts;
  the clock reading of a call (\<open>now_iso\<close>), the random code and its SHA-256 are arguments.
\<close>

section \<open>Tables\<close>

text \<open>\<open>UPDATE .. SET f WHERE P\<close> and the number of rows it affects.\<close>

definition sql_update :: "('k \<Rightarrow> 'v \<Rightarrow> bool) \<Rightarrow> ('v \<Rightarrow> 'v) \<Rightarrow> ('k, 'v) imap \<Rightarrow> ('k, 'v) imap" where
  "sql_update P f m = map (\<lambda>(k, v). (k, if P k v then f v else v)) m"

definition rows_affected :: "('k \<Rightarrow> 'v \<Rightarrow> bool) \<Rightarrow> ('k, 'v) imap \<Rightarrow> nat" where
  "rows_affected P m = length (filter (\<lambda>(k, v). P k v) m)"

lemma sql_update_get [simp]:
  "im_get (sql_update P f m) k = map_option (\<lambda>v. if P k v then f v else v) (im_get m k)"
  by (induction m) (auto simp: sql_update_def)

lemma sql_update_keys [simp]: "map fst (sql_update P f m) = map fst m"
  by (induction m) (auto simp: sql_update_def)

lemma rows_affected_key:
  "im_wf m \<Longrightarrow> rows_affected (\<lambda>k v. k = key \<and> P v) m =
     (case im_get m key of None \<Rightarrow> 0 | Some v \<Rightarrow> if P v then 1 else 0)"
proof (induction m)
  case (Cons p m)
  obtain k v where p: "p = (k, v)" by force
  show ?case
  proof (cases "k = key")
    case True
    then have "rows_affected (\<lambda>k v. k = key \<and> P v) m = 0"
      using Cons.prems p by (auto simp: rows_affected_def filter_empty_conv image_iff)
    then show ?thesis using True p by (simp add: rows_affected_def)
  qed (use Cons p in \<open>simp add: rows_affected_def\<close>)
qed (simp add: rows_affected_def)

text \<open>\<open>Ord for str\<close>: bytes, lexicographically.\<close>

fun str_lt :: "string \<Rightarrow> string \<Rightarrow> bool" where
  "str_lt _ [] \<longleftrightarrow> False"
| "str_lt [] (_ # _) \<longleftrightarrow> True"
| "str_lt (a # as) (b # bs) \<longleftrightarrow>
     (of_char a :: nat) < of_char b \<or> (a = b \<and> str_lt as bs)"

definition valid_sub :: "string \<Rightarrow> bool" where
  "valid_sub s \<longleftrightarrow> (case parse_sub s of Inl _ \<Rightarrow> False | Inr _ \<Rightarrow> True)"

record member_row =
  mb_display :: "string option"
  mb_role :: role
  mb_mode :: string
  mb_invited :: "string option"
  mb_joined :: string
  mb_revoked :: "string option"

record invite =
  iv_by :: string
  iv_label :: "string option"
  iv_role :: role
  iv_expires :: "string option"
  iv_max :: int
  iv_used :: int
  iv_created :: string
  iv_revoked :: "string option"

record auth_db =
  ad_members :: "(string, member_row) imap"
  ad_invites :: "(string, invite) imap"

section \<open>Who is let in\<close>

datatype member_state = StAllowed | StRevoked | StNotMember

definition member_status :: "auth_db \<Rightarrow> string list \<Rightarrow> string \<Rightarrow> member_state" where
  "member_status db admin_subs sub =
     (if \<not> valid_sub sub then StNotMember
      else if sub \<in> set admin_subs then StAllowed
      else case im_get (ad_members db) sub of
        Some m \<Rightarrow> if mb_revoked m = None then StAllowed else StRevoked
      | None \<Rightarrow> StNotMember)"

definition is_member :: "auth_db \<Rightarrow> string \<Rightarrow> member_row option" where
  "is_member db sub =
     (if \<not> valid_sub sub then None
      else Option.bind (im_get (ad_members db) sub) (\<lambda>m. if mb_revoked m = None then Some m else None))"

definition effective_role :: "auth_db \<Rightarrow> string list \<Rightarrow> string \<Rightarrow> role" where
  "effective_role db admin_subs sub =
     (if sub \<in> set admin_subs then Admin
      else case is_member db sub of
        Some m \<Rightarrow> if mb_role m = Admin then Admin else User
      | None \<Rightarrow> User)"

definition active_row :: "auth_db \<Rightarrow> string \<Rightarrow> member_row option" where
  "active_row db sub =
     Option.bind (im_get (ad_members db) sub) (\<lambda>m. if mb_revoked m = None then Some m else None)"

section \<open>Revocation\<close>

definition revoke_row :: "string \<Rightarrow> string \<Rightarrow> auth_db \<Rightarrow> auth_db" where
  "revoke_row now sub db = db\<lparr>ad_members :=
     sql_update (\<lambda>k m. k = sub \<and> mb_revoked m = None) (\<lambda>m. m\<lparr>mb_revoked := Some now\<rparr>) (ad_members db)\<rparr>"

definition revoke_invites_of :: "string \<Rightarrow> string \<Rightarrow> auth_db \<Rightarrow> auth_db" where
  "revoke_invites_of now sub db = db\<lparr>ad_invites :=
     sql_update (\<lambda>_ i. iv_by i = sub \<and> iv_revoked i = None) (\<lambda>i. i\<lparr>iv_revoked := Some now\<rparr>) (ad_invites db)\<rparr>"

datatype safe_revocation = SrRevoked | SrNotFound | SrOwner | SrOwnSub | SrActorNotAdmin

definition revoke_safely ::
  "string list \<Rightarrow> string \<Rightarrow> string \<Rightarrow> string \<Rightarrow> auth_db \<Rightarrow> safe_revocation \<times> auth_db" where
  "revoke_safely admin_subs now target actor db =
     (if \<not> valid_sub target then (SrNotFound, db)
      else if target \<in> set admin_subs then (SrOwner, db)
      else if target = actor then (SrOwnSub, db)
      else if active_row db target = None then (SrNotFound, db)
      else if actor \<notin> set admin_subs
              \<and> (\<not> valid_sub actor \<or> map_option mb_role (active_row db actor) \<noteq> Some Admin)
      then (SrActorNotAdmin, db)
      else if rows_affected (\<lambda>k m. k = target \<and> mb_revoked m = None) (ad_members db) \<noteq> 1 then (SrNotFound, db)
      else (SrRevoked, revoke_invites_of now target (revoke_row now target db)))"

datatype self_revocation = SfRevoked | SfAlreadyRevoked | SfLastAdmin

definition other_rows :: "auth_db \<Rightarrow> string \<Rightarrow> (string \<times> role) list" where
  "other_rows db sub =
     map (\<lambda>(s, m). (s, mb_role m)) (filter (\<lambda>(s, m). mb_revoked m = None \<and> s \<noteq> sub) (ad_members db))"

definition other_admins :: "auth_db \<Rightarrow> string list \<Rightarrow> string \<Rightarrow> nat" where
  "other_admins db admin_subs sub =
     length (filter (\<lambda>(s, r). r = Admin \<or> s \<in> set admin_subs) (other_rows db sub))
     + length (filter (\<lambda>a. a \<notin> fst ` set (other_rows db sub)) admin_subs)"

definition revoke_self :: "string list \<Rightarrow> string \<Rightarrow> string \<Rightarrow> auth_db \<Rightarrow> self_revocation \<times> auth_db" where
  "revoke_self admin_subs now sub db =
     (if \<not> valid_sub sub then (SfAlreadyRevoked, db)
      else if sub \<in> set admin_subs then (SfLastAdmin, db)
      else case active_row db sub of
        None \<Rightarrow> (SfAlreadyRevoked, db)
      | Some m \<Rightarrow>
          if mb_role m = Admin \<and> other_admins db admin_subs sub = 0 then (SfLastAdmin, db)
          else (SfRevoked, revoke_invites_of now sub (revoke_row now sub db)))"

section \<open>Invites\<close>

record issue_options =
  io_label :: "string option"
  io_expires :: "string option"
  io_max :: int
  io_role :: role

datatype issue_error = IeInvalidSub | IeDb

definition issue :: "(string \<Rightarrow> string) \<Rightarrow> string \<Rightarrow> string \<Rightarrow> string \<Rightarrow> issue_options \<Rightarrow> auth_db
    \<Rightarrow> (issue_error + string) \<times> auth_db" where
  "issue hash_code code now admin_sub o1 db =
     (if \<not> valid_sub admin_sub then (Inl IeInvalidSub, db)
      else if im_get (ad_invites db) (hash_code code) \<noteq> None then (Inl IeDb, db)
      else (Inr code, db\<lparr>ad_invites := im_insert (hash_code code)
        \<lparr>iv_by = admin_sub, iv_label = io_label o1, iv_role = io_role o1, iv_expires = io_expires o1,
         iv_max = max (io_max o1) 1, iv_used = 0, iv_created = now, iv_revoked = None\<rparr> (ad_invites db)\<rparr>))"

datatype redeem_outcome = RdCreated | RdAlreadyMember | RdInvalid | RdExpired | RdExhausted | RdRevoked

definition expired_at :: "string option \<Rightarrow> string \<Rightarrow> bool" where
  "expired_at e now \<longleftrightarrow> (case e of None \<Rightarrow> False | Some t \<Rightarrow> str_lt t now)"

definition has_use :: "string \<Rightarrow> string \<Rightarrow> invite \<Rightarrow> bool" where
  "has_use hash k i \<longleftrightarrow> k = hash \<and> iv_used i < iv_max i"

definition granted_row :: "string \<Rightarrow> string option \<Rightarrow> auth_mode \<Rightarrow> invite \<Rightarrow> member_row" where
  "granted_row now display mode i =
     \<lparr>mb_display = display, mb_role = iv_role i, mb_mode = mode_str mode, mb_invited = Some (iv_by i),
      mb_joined = now, mb_revoked = None\<rparr>"

definition redeem ::
  "(string \<Rightarrow> string) \<Rightarrow> string \<Rightarrow> string \<Rightarrow> string \<Rightarrow> string option \<Rightarrow> auth_mode \<Rightarrow> auth_db \<Rightarrow> redeem_outcome \<times> auth_db" where
  "redeem hash_code now code sub display mode db =
     (if \<not> valid_sub sub then (RdInvalid, db)
      else let hash = hash_code code in
        case im_get (ad_invites db) hash of
          None \<Rightarrow> (RdInvalid, db)
        | Some i \<Rightarrow>
            if iv_revoked i \<noteq> None then (RdRevoked, db)
            else if (case im_get (ad_members db) (iv_by i) of None \<Rightarrow> False | Some m \<Rightarrow> mb_revoked m \<noteq> None)
            then (RdRevoked, db)
            else if expired_at (iv_expires i) now then (RdExpired, db)
            else if (case im_get (ad_members db) sub of None \<Rightarrow> False | Some m \<Rightarrow> mb_revoked m = None)
            then (RdAlreadyMember, db)
            else if iv_used i \<ge> iv_max i then (RdExhausted, db)
            else let db1 = db\<lparr>ad_members := im_insert sub (granted_row now display mode i) (ad_members db)\<rparr>
              in if rows_affected (has_use hash) (ad_invites db1) = 0 then (RdExhausted, db)
                 else (RdCreated, db1\<lparr>ad_invites :=
                   sql_update (has_use hash) (\<lambda>i. i\<lparr>iv_used := iv_used i + 1\<rparr>) (ad_invites db1)\<rparr>))"

datatype invite_status = IsActive | IsExpired | IsExhausted | IsRevoked

definition status_of :: "string \<Rightarrow> invite \<Rightarrow> invite_status" where
  "status_of now i =
     (if iv_revoked i \<noteq> None then IsRevoked
      else if expired_at (iv_expires i) now then IsExpired
      else if iv_used i \<ge> iv_max i then IsExhausted
      else IsActive)"

definition lower_hex_char :: "char \<Rightarrow> bool" where
  "lower_hex_char c \<longleftrightarrow> c \<in> set ''0123456789abcdef''"

definition revoke_invite :: "string \<Rightarrow> string \<Rightarrow> auth_db \<Rightarrow> bool \<times> auth_db" where
  "revoke_invite now hash_prefix db =
     (if hash_prefix = [] \<or> length hash_prefix > 64 \<or> \<not> list_all lower_hex_char hash_prefix then (False, db)
      else case filter (\<lambda>(h, _). starts_with hash_prefix h) (ad_invites db) of
        [(h, i)] \<Rightarrow>
          if iv_revoked i = None
          then (rows_affected (\<lambda>k j. k = h \<and> iv_revoked j = None) (ad_invites db) > 0,
                db\<lparr>ad_invites := sql_update (\<lambda>k j. k = h \<and> iv_revoked j = None)
                     (\<lambda>j. j\<lparr>iv_revoked := Some now\<rparr>) (ad_invites db)\<rparr>)
          else (False, db)
      | _ \<Rightarrow> (False, db))"

section \<open>Admission\<close>

text \<open>\<open>admit_or_reason\<close>: the gate every provider goes through once the identity is proven.\<close>

definition refusal :: "redeem_outcome \<Rightarrow> string option" where
  "refusal r =
     (case r of RdCreated \<Rightarrow> None | RdAlreadyMember \<Rightarrow> None
      | RdInvalid \<Rightarrow> Some ''invite_invalid'' | RdExpired \<Rightarrow> Some ''invite_expired''
      | RdExhausted \<Rightarrow> Some ''invite_used'' | RdRevoked \<Rightarrow> Some ''invite_revoked'')"

definition admit_or_reason ::
  "(string \<Rightarrow> string) \<Rightarrow> string list \<Rightarrow> string \<Rightarrow> string \<Rightarrow> string option \<Rightarrow> string \<Rightarrow> auth_mode \<Rightarrow> auth_db
    \<Rightarrow> string option \<times> auth_db" where
  "admit_or_reason hash_code admin_subs now sub code display mode db =
     (if member_status db admin_subs sub = StAllowed then (None, db)
      else case code of
        None \<Rightarrow> (Some ''no_invite'', db)
      | Some c \<Rightarrow>
          if c = [] then (Some ''no_invite'', db)
          else case redeem hash_code now c sub (Some display) mode db of (r, db') \<Rightarrow> (refusal r, db'))"

section \<open>Any sequence of calls\<close>

datatype auth_event =
  AIssue string string string issue_options
| ARedeem string string string "string option" auth_mode
| ARevokeInvite string string
| ARevokeMember string string string
| ARevokeSelf string string

fun auth_step :: "(string \<Rightarrow> string) \<Rightarrow> string list \<Rightarrow> auth_db \<Rightarrow> auth_event \<Rightarrow> auth_db" where
  "auth_step H A db (AIssue code now by o1) = snd (issue H code now by o1 db)"
| "auth_step H A db (ARedeem now code sub display mode) = snd (redeem H now code sub display mode db)"
| "auth_step H A db (ARevokeInvite now pre) = snd (revoke_invite now pre db)"
| "auth_step H A db (ARevokeMember now target actor) = snd (revoke_safely A now target actor db)"
| "auth_step H A db (ARevokeSelf now sub) = snd (revoke_self A now sub db)"

abbreviation auth_run :: "(string \<Rightarrow> string) \<Rightarrow> string list \<Rightarrow> auth_event list \<Rightarrow> auth_db \<Rightarrow> auth_db" where
  "auth_run H A evs db \<equiv> foldl (auth_step H A) db evs"

text \<open>The calls of a run that created a member, by the hash of the code and the sub.\<close>

fun creation :: "(string \<Rightarrow> string) \<Rightarrow> auth_db \<Rightarrow> auth_event \<Rightarrow> (string \<times> string) option" where
  "creation H db (ARedeem now code sub display mode) =
     (if fst (redeem H now code sub display mode db) = RdCreated then Some (H code, sub) else None)"
| "creation H db _ = None"

fun creations :: "(string \<Rightarrow> string) \<Rightarrow> string list \<Rightarrow> auth_event list \<Rightarrow> auth_db \<Rightarrow> (string \<times> string) list" where
  "creations H A [] db = []"
| "creations H A (e # evs) db =
     (case creation H db e of None \<Rightarrow> [] | Some p \<Rightarrow> [p]) @ creations H A evs (auth_step H A db e)"

definition db_ok :: "auth_db \<Rightarrow> bool" where
  "db_ok db \<longleftrightarrow> im_wf (ad_members db) \<and> im_wf (ad_invites db)
     \<and> list_all (\<lambda>(s, _). valid_sub s) (ad_members db)
     \<and> list_all (\<lambda>(_, i). iv_used i \<le> iv_max i) (ad_invites db)"

lemma list_all_get: "im_wf m \<Longrightarrow> list_all (\<lambda>(k, v). P k v) m \<longleftrightarrow> (\<forall>k v. im_get m k = Some v \<longrightarrow> P k v)"
  by (auto simp: list_all_iff)

lemma db_ok_iff:
  "db_ok db \<longleftrightarrow> im_wf (ad_members db) \<and> im_wf (ad_invites db)
     \<and> (\<forall>s m. im_get (ad_members db) s = Some m \<longrightarrow> valid_sub s)
     \<and> (\<forall>h i. im_get (ad_invites db) h = Some i \<longrightarrow> iv_used i \<le> iv_max i)"
  unfolding db_ok_def using list_all_get [where P = "\<lambda>s _. valid_sub s"] list_all_get [where P = "\<lambda>_ i. iv_used i \<le> iv_max i"]
  by blast

lemma members_get [simp]:
  "im_get (ad_members (revoke_row now sub db)) s =
     map_option (\<lambda>m. if s = sub \<and> mb_revoked m = None then m\<lparr>mb_revoked := Some now\<rparr> else m) (im_get (ad_members db) s)"
  "ad_members (revoke_invites_of now sub db) = ad_members db"
  "ad_invites (revoke_row now sub db) = ad_invites db"
  "im_get (ad_invites (revoke_invites_of now sub db)) h =
     map_option (\<lambda>i. if iv_by i = sub \<and> iv_revoked i = None then i\<lparr>iv_revoked := Some now\<rparr> else i) (im_get (ad_invites db) h)"
  by (simp_all add: revoke_row_def revoke_invites_of_def)

lemma tables_wf [simp]:
  "im_wf (ad_members (revoke_row now sub db)) = im_wf (ad_members db)"
  "im_wf (ad_invites (revoke_invites_of now sub db)) = im_wf (ad_invites db)"
  by (simp_all add: revoke_row_def revoke_invites_of_def)

text \<open>What each call does to the two tables.\<close>

lemma revoke_safely_cases:
  "(fst (revoke_safely A now target actor db) \<noteq> SrRevoked \<and> snd (revoke_safely A now target actor db) = db)
   \<or> (revoke_safely A now target actor db = (SrRevoked, revoke_invites_of now target (revoke_row now target db))
      \<and> valid_sub target \<and> target \<notin> set A \<and> target \<noteq> actor \<and> active_row db target \<noteq> None
      \<and> (actor \<in> set A \<or> (\<exists>a. active_row db actor = Some a \<and> mb_role a = Admin)))"
  by (auto simp: revoke_safely_def)

lemma revoke_self_cases:
  "snd (revoke_self A now sub db) = db
   \<or> (snd (revoke_self A now sub db) = revoke_invites_of now sub (revoke_row now sub db) \<and> sub \<notin> set A
      \<and> (\<exists>m. active_row db sub = Some m \<and> (mb_role m \<noteq> Admin \<or> other_admins db A sub \<noteq> 0)))"
  by (auto simp: revoke_self_def split: option.split)

lemma issue_cases:
  "snd (issue H code now by1 o1 db) = db
   \<or> (\<exists>i. snd (issue H code now by1 o1 db) = db\<lparr>ad_invites := im_insert (H code) i (ad_invites db)\<rparr>
      \<and> im_get (ad_invites db) (H code) = None \<and> iv_used i \<le> iv_max i)"
  by (auto simp: issue_def)

lemma revoke_invite_cases:
  "snd (revoke_invite now pre db) = db
   \<or> (\<exists>h. snd (revoke_invite now pre db) = db\<lparr>ad_invites := sql_update (\<lambda>k j. k = h \<and> iv_revoked j = None)
                 (\<lambda>j. j\<lparr>iv_revoked := Some now\<rparr>) (ad_invites db)\<rparr>)"
  by (auto simp: revoke_invite_def split: list.split)

lemma redeem_cases:
  "(\<exists>r. redeem H now code sub display mode db = (r, db) \<and> r \<noteq> RdCreated)
   \<or> (\<exists>i. redeem H now code sub display mode db =
        (RdCreated, db\<lparr>ad_members := im_insert sub (granted_row now display mode i) (ad_members db),
           ad_invites := sql_update (has_use (H code)) (\<lambda>i. i\<lparr>iv_used := iv_used i + 1\<rparr>) (ad_invites db)\<rparr>)
      \<and> valid_sub sub \<and> im_get (ad_invites db) (H code) = Some i \<and> iv_revoked i = None \<and> iv_used i < iv_max i
      \<and> active_row db sub = None)"
  by (auto simp: redeem_def Let_def active_row_def split: option.split)

lemma auth_step_ok: "db_ok db \<Longrightarrow> db_ok (auth_step H A db e)"
proof (cases e)
  case (AIssue code now by1 o1)
  assume "db_ok db"
  with issue_cases [of H code now by1 o1 db] AIssue show ?thesis by (auto simp: db_ok_iff update_conv' simp del: map_of_eq_Some_iff split: if_splits)
next
  case (ARedeem now code sub display mode)
  assume "db_ok db"
  with redeem_cases [of H now code sub display mode db] ARedeem show ?thesis
    by (auto simp: db_ok_iff update_conv' has_use_def simp del: map_of_eq_Some_iff split: if_splits)
next
  case (ARevokeInvite now pre)
  assume "db_ok db"
  with revoke_invite_cases [of now pre db] ARevokeInvite show ?thesis by (auto simp: db_ok_iff simp del: map_of_eq_Some_iff)
next
  case (ARevokeMember now target actor)
  assume "db_ok db"
  with revoke_safely_cases [of A now target actor db] ARevokeMember show ?thesis by (auto simp: db_ok_iff simp del: map_of_eq_Some_iff)
next
  case (ARevokeSelf now sub)
  assume "db_ok db"
  with revoke_self_cases [of A now sub db] ARevokeSelf show ?thesis by (auto simp: db_ok_iff simp del: map_of_eq_Some_iff)
qed

interpretation auth: machine "auth_step H A" db_ok for H A
  by unfold_locales (rule auth_step_ok)

section \<open>An administrator remains\<close>

definition is_admin_row :: "auth_db \<Rightarrow> string \<Rightarrow> bool" where
  "is_admin_row db s \<longleftrightarrow> (case active_row db s of None \<Rightarrow> False | Some m \<Rightarrow> mb_role m = Admin)"

definition has_admin :: "string list \<Rightarrow> auth_db \<Rightarrow> bool" where
  "has_admin A db \<longleftrightarrow> A \<noteq> [] \<or> list_ex (is_admin_row db) (map fst (ad_members db))"

lemma active_row_simps:
  "active_row (revoke_row now sub db) s = (if s = sub then None else active_row db s)"
  "active_row (revoke_invites_of now sub db) s = active_row db s"
  "active_row (db\<lparr>ad_invites := x\<rparr>) s = active_row db s"
  by (cases "im_get (ad_members db) s"; simp add: active_row_def revoke_invites_of_def)+

lemma active_row_key: "active_row db s = Some m \<Longrightarrow> s \<in> fst ` set (ad_members db)"
  by (auto simp: active_row_def bind_eq_Some_conv dest!: map_of_SomeD intro: image_eqI [where x = "(s, _)"] split: if_splits)

lemma has_admin_iff: "has_admin A db \<longleftrightarrow> A \<noteq> [] \<or> (\<exists>s. is_admin_row db s)"
proof -
  have "s \<in> fst ` set (ad_members db)" if "is_admin_row db s" for s
    using that active_row_key by (auto simp: is_admin_row_def split: option.splits)
  then show ?thesis by (auto simp: has_admin_def list_ex_iff)
qed

lemma other_admin_row:
  assumes "im_wf (ad_members db)" "other_admins db [] sub \<noteq> 0"
  shows "\<exists>s. s \<noteq> sub \<and> is_admin_row db s"
proof -
  obtain s m where "(s, m) \<in> set (ad_members db)" "mb_revoked m = None" "s \<noteq> sub" "mb_role m = Admin"
    using assms(2) by (auto simp: other_admins_def other_rows_def filter_empty_conv)
  then have "is_admin_row db s" using assms(1) by (simp add: is_admin_row_def active_row_def)
  then show ?thesis using \<open>s \<noteq> sub\<close> by blast
qed

lemma active_row_grant:
  "s \<noteq> sub \<Longrightarrow> active_row (db\<lparr>ad_members := im_insert sub m (ad_members db)\<rparr>) s = active_row db s"
  by (simp add: active_row_def update_conv')

lemma has_admin_step: "db_ok db \<Longrightarrow> has_admin A db \<Longrightarrow> has_admin A (auth_step H A db e)"
proof (cases "A = []")
  case True
  assume ok: "db_ok db" and "has_admin A db"
  then obtain a where a: "is_admin_row db a" using True by (auto simp: has_admin_iff)
  have "\<exists>s. is_admin_row (auth_step H [] db e) s"
  proof (cases e)
    case (AIssue code now by1 o1)
    then show ?thesis using issue_cases [of H code now by1 o1 db] a by (auto simp: is_admin_row_def active_row_simps)
  next
    case (ARedeem now code sub display mode)
    then show ?thesis using redeem_cases [of H now code sub display mode db] a
      by (cases "sub = a") (auto simp: is_admin_row_def active_row_simps active_row_def update_conv')
  next
    case (ARevokeInvite now pre)
    then show ?thesis using revoke_invite_cases [of now pre db] a by (auto simp: is_admin_row_def active_row_simps)
  next
    case (ARevokeMember now target actor)
    from revoke_safely_cases [of "[]" now target actor db] show ?thesis
    proof (elim disjE conjE)
      assume "revoke_safely [] now target actor db = (SrRevoked, revoke_invites_of now target (revoke_row now target db))"
        "target \<noteq> actor" "\<exists>a. active_row db actor = Some a \<and> mb_role a = Admin"
      then have "is_admin_row (auth_step H [] db e) actor"
        using ARevokeMember by (auto simp: is_admin_row_def active_row_simps)
      then show ?thesis by blast
    qed (use a ARevokeMember in auto)
  next
    case (ARevokeSelf now sub)
    from revoke_self_cases [of "[]" now sub db] show ?thesis
    proof (elim disjE conjE exE)
      fix m assume r: "snd (revoke_self [] now sub db) = revoke_invites_of now sub (revoke_row now sub db)"
        "active_row db sub = Some m" "mb_role m \<noteq> Admin"
      then have "a \<noteq> sub" using a by (auto simp: is_admin_row_def)
      then have "is_admin_row (auth_step H [] db e) a" using a r ARevokeSelf by (simp add: is_admin_row_def active_row_simps)
      then show ?thesis by blast
    next
      assume r: "snd (revoke_self [] now sub db) = revoke_invites_of now sub (revoke_row now sub db)"
        and "other_admins db [] sub \<noteq> 0"
      then obtain s where "s \<noteq> sub" "is_admin_row db s" using other_admin_row ok by (auto simp: db_ok_def)
      then have "is_admin_row (auth_step H [] db e) s" using r ARevokeSelf by (simp add: is_admin_row_def active_row_simps)
      then show ?thesis by blast
    qed (use a ARevokeSelf in auto)
  qed
  then show ?thesis using True by (simp add: has_admin_iff)
qed (simp add: has_admin_def)

lemma admin_run: "db_ok db \<Longrightarrow> has_admin A db \<Longrightarrow> has_admin A (auth_run H A evs db) \<and> db_ok (auth_run H A evs db)"
  by (induction evs arbitrary: db) (simp_all add: has_admin_step auth_step_ok)

text \<open>
  C20. The household cannot lock itself out: from a store with an administrator (an \<open>ADMIN_SUBS\<close> owner
  or an active admin row), whatever sequence of invitations, redemptions, revocations by administrators
  and account deletions follows, in whatever order racing requests serialise, some sub is admitted by the
  allowlist and has the admin role.
\<close>

theorem admin_remains:
  assumes "db_ok db" "list_all valid_sub A" "has_admin A db"
  shows "list_ex (\<lambda>s. member_status (auth_run H A evs db) A s = StAllowed \<and> effective_role (auth_run H A evs db) A s = Admin)
    (A @ map fst (ad_members (auth_run H A evs db)))"
proof -
  let ?db = "auth_run H A evs db"
  have ok: "db_ok ?db" "has_admin A ?db" using admin_run [OF assms(1,3)] by blast+
  show ?thesis
  proof (cases A)
    case (Cons a A')
    then show ?thesis using assms(2) by (simp add: member_status_def effective_role_def)
  next
    case Nil
    then obtain s m where s: "active_row ?db s = Some m" "mb_role m = Admin"
      using ok(2) by (auto simp: has_admin_iff is_admin_row_def split: option.splits)
    then have get: "im_get (ad_members ?db) s = Some m" "mb_revoked m = None"
      by (auto simp: active_row_def bind_eq_Some_conv split: if_splits)
    have "valid_sub s" using ok(1) get(1) unfolding db_ok_iff by blast
    then have "member_status ?db A s = StAllowed \<and> effective_role ?db A s = Admin"
      using get s(2) Nil by (simp add: member_status_def effective_role_def is_member_def)
    moreover have "s \<in> set (map fst (ad_members ?db))" using active_row_key [OF s(1)] by simp
    ultimately show ?thesis by (auto simp: list_ex_iff)
  qed
qed

section \<open>Uses of an invite\<close>

definition spent :: "string \<Rightarrow> (string \<times> string) list \<Rightarrow> nat" where
  "spent h ps = length (filter (\<lambda>(g, _). g = h) ps)"

lemma invite_step:
  assumes "im_get (ad_invites db) h = Some i"
  shows "\<exists>j. im_get (ad_invites (auth_step H A db e)) h = Some j \<and> iv_max j = iv_max i \<and> iv_by j = iv_by i
     \<and> (iv_revoked i \<noteq> None \<longrightarrow> iv_revoked j \<noteq> None)
     \<and> iv_used j = iv_used i + int (spent h (case creation H db e of None \<Rightarrow> [] | Some p \<Rightarrow> [p]))"
proof (cases e)
  case (AIssue code now by1 o1)
  then show ?thesis using issue_cases [of H code now by1 o1 db] assms
    by (auto simp: update_conv' spent_def)
next
  case (ARedeem now code sub display mode)
  then show ?thesis using redeem_cases [of H now code sub display mode db] assms
    by (auto simp: spent_def has_use_def)
next
  case (ARevokeInvite now pre)
  then show ?thesis using revoke_invite_cases [of now pre db] assms by (auto simp: spent_def)
next
  case (ARevokeMember now target actor)
  then show ?thesis using revoke_safely_cases [of A now target actor db] assms by (auto simp: spent_def)
next
  case (ARevokeSelf now sub)
  then show ?thesis using revoke_self_cases [of A now sub db] assms by (auto simp: spent_def)
qed

lemma invite_run:
  assumes "im_get (ad_invites db) h = Some i"
  shows "\<exists>j. im_get (ad_invites (auth_run H A evs db)) h = Some j \<and> iv_max j = iv_max i \<and> iv_by j = iv_by i
     \<and> (iv_revoked i \<noteq> None \<longrightarrow> iv_revoked j \<noteq> None)
     \<and> iv_used j = iv_used i + int (spent h (creations H A evs db))"
  using assms
proof (induction evs arbitrary: db i)
  case (Cons e evs)
  obtain j where j: "im_get (ad_invites (auth_step H A db e)) h = Some j" "iv_max j = iv_max i" "iv_by j = iv_by i"
    "iv_revoked i \<noteq> None \<longrightarrow> iv_revoked j \<noteq> None"
    "iv_used j = iv_used i + int (spent h (case creation H db e of None \<Rightarrow> [] | Some p \<Rightarrow> [p]))"
    using invite_step [OF Cons.prems] by blast
  from Cons.IH [OF j(1)] j(2-5) show ?case by (auto simp: spent_def)
qed (simp add: spent_def)

text \<open>
  An invite admits at most \<open>max_uses\<close> members: over any run the redemptions of its code that
  created or re-granted_row a membership are counted one by one in \<open>used_count\<close>, and together with the uses
  it had before never exceed the bound it was issued with.
\<close>

theorem invite_uses_bounded:
  assumes "db_ok db" "im_get (ad_invites db) h = Some i"
  shows "iv_used i + int (spent h (creations H A evs db)) \<le> iv_max i
    \<and> map_option iv_used (im_get (ad_invites (auth_run H A evs db)) h) = Some (iv_used i + int (spent h (creations H A evs db)))"
proof -
  obtain j where j: "im_get (ad_invites (auth_run H A evs db)) h = Some j" "iv_max j = iv_max i"
    "iv_used j = iv_used i + int (spent h (creations H A evs db))"
    using invite_run [OF assms(2), of H A evs] by blast
  have "db_ok (auth_run H A evs db)" by (rule auth.inv_run [OF assms(1)])
  then have "iv_used j \<le> iv_max j" using j(1) unfolding db_ok_iff by blast
  then show ?thesis using j by simp
qed

section \<open>A revoked member\<close>

definition row_revoked :: "auth_db \<Rightarrow> string \<Rightarrow> bool" where
  "row_revoked db s \<longleftrightarrow> (case im_get (ad_members db) s of None \<Rightarrow> False | Some m \<Rightarrow> mb_revoked m \<noteq> None)"

lemma row_revoked_status: "valid_sub t \<Longrightarrow> t \<notin> set A \<Longrightarrow> row_revoked db t \<Longrightarrow> member_status db A t = StRevoked"
  by (cases "im_get (ad_members db) t") (auto simp: member_status_def row_revoked_def)

lemma row_revoked_step:
  assumes "row_revoked db t"
  shows "row_revoked (auth_step H A db e) t \<or> map_option snd (creation H db e) = Some t"
proof (cases e)
  case (AIssue code now by1 o1)
  then show ?thesis using issue_cases [of H code now by1 o1 db] assms by (auto simp: row_revoked_def)
next
  case (ARedeem now code sub display mode)
  then show ?thesis using redeem_cases [of H now code sub display mode db] assms
    by (cases "sub = t") (auto simp: row_revoked_def update_conv')
next
  case (ARevokeInvite now pre)
  then show ?thesis using revoke_invite_cases [of now pre db] assms by (auto simp: row_revoked_def)
next
  case (ARevokeMember now target actor)
  then show ?thesis using revoke_safely_cases [of A now target actor db] assms
    by (auto simp: row_revoked_def split: option.splits)
next
  case (ARevokeSelf now sub)
  then show ?thesis using revoke_self_cases [of A now sub db] assms
    by (auto simp: row_revoked_def split: option.splits)
qed

lemma row_revoked_run:
  "row_revoked db t \<Longrightarrow> row_revoked (auth_run H A evs db) t \<or> t \<in> set (map snd (creations H A evs db))"
proof (induction evs arbitrary: db)
  case (Cons e evs)
  then show ?case using row_revoked_step [OF Cons.prems, of H A e] by fastforce
qed simp

lemma revoked_invite_unspent:
  "im_get (ad_invites db) h = Some i \<Longrightarrow> iv_revoked i \<noteq> None \<Longrightarrow> h \<notin> set (map fst (creations H A evs db))"
proof (induction evs arbitrary: db i)
  case (Cons e evs)
  have "h \<notin> set (map fst (case creation H db e of None \<Rightarrow> [] | Some p \<Rightarrow> [p]))"
  proof (cases e)
    case (ARedeem now code sub display mode)
    then show ?thesis using redeem_cases [of H now code sub display mode db] Cons.prems by auto
  qed simp_all
  moreover obtain j where "im_get (ad_invites (auth_step H A db e)) h = Some j" "iv_revoked j \<noteq> None"
    using invite_step [OF Cons.prems(1), of H A e] Cons.prems(2) by blast
  then have "h \<notin> set (map fst (creations H A evs (auth_step H A db e)))" by (rule Cons.IH)
  ultimately show ?case by (simp only: creations.simps map_append set_append Un_iff) blast
qed simp

text \<open>
  Revocation holds and dies with nobody: from the moment an administrator's revocation of a member
  succeeds, the allowlist answers revoked for that sub until some invite is redeemed for the very same
  sub again, and no invite the member had issued ever admits anyone, whatever else happens.
\<close>

theorem revoked_member_stays_out:
  assumes "db_ok db" "fst (revoke_safely A now t actor db) = SrRevoked"
  defines "db1 \<equiv> snd (revoke_safely A now t actor db)"
  shows "(member_status (auth_run H A evs db1) A t = StRevoked \<or> t \<in> set (map snd (creations H A evs db1)))
    \<and> list_all (\<lambda>(h, i). iv_by i \<noteq> t \<or> h \<notin> set (map fst (creations H A evs db1))) (ad_invites db1)"
proof
  have db1: "db1 = revoke_invites_of now t (revoke_row now t db)" and t: "valid_sub t" "t \<notin> set A" "active_row db t \<noteq> None"
    using revoke_safely_cases [of A now t actor db] assms(2) by (auto simp: db1_def)
  have "row_revoked db1 t" using t(3) by (cases "im_get (ad_members db) t") (auto simp: db1 row_revoked_def active_row_def)
  then have "row_revoked (auth_run H A evs db1) t \<or> t \<in> set (map snd (creations H A evs db1))" by (rule row_revoked_run)
  then show "member_status (auth_run H A evs db1) A t = StRevoked \<or> t \<in> set (map snd (creations H A evs db1))"
    using row_revoked_status [OF t(1,2)] by blast
  have "im_wf (ad_invites db1)" using assms(1) by (simp add: db1 db_ok_def)
  moreover have "h \<notin> set (map fst (creations H A evs db1))" if "im_get (ad_invites db1) h = Some i" "iv_by i = t" for h i
  proof -
    have "iv_revoked i \<noteq> None"
      using that unfolding db1 members_get by (cases "im_get (ad_invites db) h") (auto split: if_split_asm)
    then show ?thesis by (rule revoked_invite_unspent [OF that(1)])
  qed
  ultimately show "list_all (\<lambda>(h, i). iv_by i \<noteq> t \<or> h \<notin> set (map fst (creations H A evs db1))) (ad_invites db1)"
    unfolding list_all_get [OF \<open>im_wf (ad_invites db1)\<close>] by blast
qed

section \<open>A small household\<close>

definition demo_row :: "role \<Rightarrow> member_row" where
  "demo_row r = \<lparr>mb_display = None, mb_role = r, mb_mode = ''plex'', mb_invited = None, mb_joined = ''2026'', mb_revoked = None\<rparr>"

definition demo_invite :: invite where
  "demo_invite = \<lparr>iv_by = ''plex:2'', iv_label = None, iv_role = User, iv_expires = None, iv_max = 1, iv_used = 0,
     iv_created = ''2026'', iv_revoked = None\<rparr>"

definition demo_db :: auth_db where
  "demo_db = \<lparr>ad_members = [(''plex:1'', demo_row Admin), (''plex:2'', demo_row Admin)], ad_invites = [(''h'', demo_invite)]\<rparr>"

lemma demo_db_ok: "db_ok demo_db"
  by code_simp

text \<open>Two administrators delete their accounts one after the other: the second is refused.\<close>

lemma admin_remains_witness:
  "list_ex (\<lambda>s. member_status (auth_run id [] [ARevokeSelf ''t'' ''plex:1'', ARevokeSelf ''t'' ''plex:2''] demo_db) [] s = StAllowed
      \<and> effective_role (auth_run id [] [ARevokeSelf ''t'' ''plex:1'', ARevokeSelf ''t'' ''plex:2''] demo_db) [] s = Admin)
    ([] @ map fst (ad_members (auth_run id [] [ARevokeSelf ''t'' ''plex:1'', ARevokeSelf ''t'' ''plex:2''] demo_db)))"
proof -
  have "has_admin [] demo_db" by code_simp
  then show ?thesis by (rule admin_remains [OF demo_db_ok, rotated]) simp
qed

text \<open>Two sign-ins race for a single-use invite: one is created.\<close>

lemma invite_uses_bounded_witness:
  "creations id [] [ARedeem ''t'' ''h'' ''plex:3'' None MPlex, ARedeem ''t'' ''h'' ''plex:4'' None MPlex] demo_db = [(''h'', ''plex:3'')]
   \<and> map_option iv_used (im_get (ad_invites (auth_run id []
       [ARedeem ''t'' ''h'' ''plex:3'' None MPlex, ARedeem ''t'' ''h'' ''plex:4'' None MPlex] demo_db)) ''h'') = Some 1"
proof -
  let ?evs = "[ARedeem ''t'' ''h'' ''plex:3'' None MPlex, ARedeem ''t'' ''h'' ''plex:4'' None MPlex]"
  have c: "creations id [] ?evs demo_db = [(''h'', ''plex:3'')]" by code_simp
  have "im_get (ad_invites demo_db) ''h'' = Some demo_invite" by (simp add: demo_db_def)
  note used = conjunct2 [OF invite_uses_bounded [OF demo_db_ok this, of id "[]" ?evs], unfolded c]
  have "iv_used demo_invite + int (spent ''h'' [(''h'', ''plex:3'')]) = 1" by (simp add: spent_def demo_invite_def)
  with used c show ?thesis by (simp only: simp_thms)
qed

lemma revoked_member_stays_out_witness:
  "creations id [] [ARedeem ''t'' ''h'' ''plex:3'' None MPlex] (snd (revoke_safely [] ''t'' ''plex:2'' ''plex:1'' demo_db)) = []
   \<and> member_status (auth_run id [] [ARedeem ''t'' ''h'' ''plex:3'' None MPlex]
       (snd (revoke_safely [] ''t'' ''plex:2'' ''plex:1'' demo_db))) [] ''plex:2'' = StRevoked"
proof -
  have r: "fst (revoke_safely [] ''t'' ''plex:2'' ''plex:1'' demo_db) = SrRevoked" by code_simp
  have c: "creations id [] [ARedeem ''t'' ''h'' ''plex:3'' None MPlex] (snd (revoke_safely [] ''t'' ''plex:2'' ''plex:1'' demo_db)) = []"
    by code_simp
  show ?thesis
    using revoked_member_stays_out [OF demo_db_ok r, of id "[ARedeem ''t'' ''h'' ''plex:3'' None MPlex]"]
    unfolding c by (simp only: list.map list.set empty_iff simp_thms)
qed

end
