(* ===== verification/Utf8.thy ===== *)
theory Utf8
  imports Text
begin

text \<open>
  What the sources use of Rust's UTF-8 texts beyond ASCII: \<open>String::from_utf8\<close> and
  \<open>from_utf8_lossy\<close>; and splitting at CR LF.
\<close>

section \<open>UTF-8\<close>

text \<open>
  The ranges the bytes after the first one must lie in; the number of bytes that do so, and whether
  all of them do.
\<close>

fun utf8_tail :: "(nat \<times> nat) list \<Rightarrow> nat list \<Rightarrow> nat \<Rightarrow> bool \<times> nat" where
  "utf8_tail [] r n = (True, n)"
| "utf8_tail (q # qs) [] n = (False, n)"
| "utf8_tail (q # qs) (b # r) n =
     (if fst q \<le> b \<and> b \<le> snd q then utf8_tail qs r (n + 1) else (False, n))"

text \<open>One character, or the longest prefix of an ill-formed one.\<close>

fun utf8_step :: "nat list \<Rightarrow> bool \<times> nat" where
  "utf8_step [] = (True, 0)"
| "utf8_step (a # r) =
     (let c = (0x80, 0xBF) in
      if a < 0x80 then (True, 1)
      else if 0xC2 \<le> a \<and> a \<le> 0xDF then utf8_tail [c] r 1
      else if a = 0xE0 then utf8_tail [(0xA0, 0xBF), c] r 1
      else if a = 0xED then utf8_tail [(0x80, 0x9F), c] r 1
      else if 0xE1 \<le> a \<and> a \<le> 0xEF then utf8_tail [c, c] r 1
      else if a = 0xF0 then utf8_tail [(0x90, 0xBF), c, c] r 1
      else if 0xF1 \<le> a \<and> a \<le> 0xF3 then utf8_tail [c, c, c] r 1
      else if a = 0xF4 then utf8_tail [(0x80, 0x8F), c, c] r 1
      else (False, 1))"

lemma utf8_tail_grows: "n \<le> snd (utf8_tail qs r n)"
proof (induction qs r n rule: utf8_tail.induct)
  case (3 q qs b r n)
  then show ?case by (auto intro: le_trans [of n "n + 1"])
qed simp_all

lemma utf8_step_pos: "s \<noteq> [] \<Longrightarrow> 0 < snd (utf8_step s)"
proof (cases s)
  case (Cons a r)
  have "1 \<le> snd (utf8_tail qs r 1)" for qs by (rule utf8_tail_grows)
  then have "0 < snd (utf8_tail qs r 1)" for qs using less_le_trans zero_less_one by blast
  then show ?thesis using Cons by (simp add: Let_def)
qed simp

text \<open>The replacement character U+FFFD.\<close>

definition replacement :: string where
  "replacement = [CHR 0xEF, CHR 0xBF, CHR 0xBD]"

function utf8_lossy :: "string \<Rightarrow> string" where
  "utf8_lossy s =
     (if s = [] then []
      else let (ok, n) = utf8_step (map of_char s)
        in (if ok then take n s else replacement) @ utf8_lossy (drop n s))"
  by pat_completeness auto

termination
proof (relation "measure length")
  fix s :: string and x :: "bool \<times> nat" and ok n
  assume "s \<noteq> []" "x = utf8_step (map of_char s)" "(ok, n) = x"
  then have "0 < n" using utf8_step_pos [of "map of_char s"] by (metis map_is_Nil_conv snd_conv)
  then show "(drop n s, s) \<in> measure length" using \<open>s \<noteq> []\<close> by simp
qed simp

declare utf8_lossy.simps [simp del]

function utf8_ok :: "string \<Rightarrow> bool" where
  "utf8_ok s =
     (if s = [] then True
      else let (ok, n) = utf8_step (map of_char s) in if ok then utf8_ok (drop n s) else False)"
  by pat_completeness auto

termination
proof (relation "measure length")
  fix s :: string and x :: "bool \<times> nat" and ok n
  assume "s \<noteq> []" "x = utf8_step (map of_char s)" "(ok, n) = x" "ok"
  then have "0 < n" using utf8_step_pos [of "map of_char s"] by (metis map_is_Nil_conv snd_conv)
  then show "(drop n s, s) \<in> measure length" using \<open>s \<noteq> []\<close> by simp
qed simp

declare utf8_ok.simps [simp del]

text \<open>A well-formed text is its own lossy reading.\<close>

lemma utf8_lossy_id: "utf8_ok s \<Longrightarrow> utf8_lossy s = s"
proof (induction s rule: utf8_ok.induct)
  case (1 s)
  obtain ok n where st: "utf8_step (map of_char s) = (ok, n)" by force
  show ?case
  proof (cases "s = []")
    case True
    then show ?thesis by (simp add: utf8_lossy.simps)
  next
    case False
    then have "ok" "utf8_ok (drop n s)" using 1(2) st by (simp_all add: utf8_ok.simps [of s] split: if_splits)
    moreover have "utf8_lossy (drop n s) = drop n s"
      using 1(1) [OF False refl st [symmetric]] calculation by simp
    ultimately show ?thesis using False st by (simp add: utf8_lossy.simps [of s])
  qed
qed

section \<open>Characters and white space\<close>

text \<open>A UTF-8 text as its characters: a continuation byte belongs to the character before it.\<close>

definition cont_byte :: "char \<Rightarrow> bool" where
  "cont_byte c \<longleftrightarrow> 128 \<le> (of_char c :: nat) \<and> (of_char c :: nat) < 192"

function utf8_chars :: "string \<Rightarrow> string list" where
  "utf8_chars [] = []"
| "utf8_chars (c # s) = (c # takeWhile cont_byte s) # utf8_chars (dropWhile cont_byte s)"
  by pat_completeness auto

termination
  by (relation "measure length") (simp_all add: le_imp_less_Suc length_dropWhile_le)

definition js_space :: "string \<Rightarrow> bool" where
  "js_space c \<longleftrightarrow>
     (case map of_char c :: nat list of
        [a] \<Rightarrow> a = 32 \<or> (9 \<le> a \<and> a \<le> 13)
      | [a, b] \<Rightarrow> a = 0xC2 \<and> b = 0xA0
      | [a, b, d] \<Rightarrow> (a = 0xE1 \<and> b = 0x9A \<and> d = 0x80)
          \<or> (a = 0xE2 \<and> b = 0x80 \<and> ((0x80 \<le> d \<and> d \<le> 0x8A) \<or> d \<in> {0xA8, 0xA9, 0xAF}))
          \<or> (a = 0xE2 \<and> b = 0x81 \<and> d = 0x9F) \<or> (a = 0xE3 \<and> b = 0x80 \<and> d = 0x80)
          \<or> (a = 0xEF \<and> b = 0xBB \<and> d = 0xBF)
      | _ \<Rightarrow> False)"

definition js_trim :: "string \<Rightarrow> string" where
  "js_trim s = concat (rev (dropWhile js_space (rev (dropWhile js_space (utf8_chars s)))))"

text \<open>\<open>str::trim\<close>: Unicode white space.\<close>

definition unicode_space :: "string \<Rightarrow> bool" where
  "unicode_space c \<longleftrightarrow> (js_space c \<and> map of_char c \<noteq> [0xEF, 0xBB, 0xBF :: nat]) \<or> map of_char c = [0xC2, 0x85 :: nat]"

definition str_trim :: "string \<Rightarrow> string" where
  "str_trim s = concat (rev (dropWhile unicode_space (rev (dropWhile unicode_space (utf8_chars s)))))"

section \<open>Lines\<close>

text \<open>\<open>split("\r\n")\<close>.\<close>

fun split_crlf :: "string \<Rightarrow> string list" where
  "split_crlf (a # b # s) =
     (if a = CHR 0x0D \<and> b = CHR 0x0A then [] # split_crlf s
      else (case split_crlf (b # s) of [] \<Rightarrow> [[a]] | p # ps \<Rightarrow> (a # p) # ps))"
| "split_crlf s = [s]"

text \<open>The first position of a substring, as the text before it and the text after it.\<close>

fun cut_at :: "string \<Rightarrow> string \<Rightarrow> (string \<times> string) option" where
  "cut_at p s =
     (if starts_with p s then Some ([], drop (length p) s)
      else (case s of [] \<Rightarrow> None | c # r \<Rightarrow> map_option (\<lambda>(a, b). (c # a, b)) (cut_at p r)))"

declare cut_at.simps [simp del]

end
