(* ===== verification/Devices.thy ===== *)
theory Devices
  imports Members Utf8
begin

text \<open>
  Paired devices: \<open>crates/auth/src/device_tokens.rs\<close> (the rows behind the 180-day bearer tokens),
  \<open>devices.rs\<close> (self-service and admin routes on them) and \<open>device_link.rs\<close> (pairing by a code shown on
  a TV and claimed on the web).  \<open>isot\<close> renders unix seconds as the stored text and \<open>dt\<close> is the text of
  \<open>datetime('now')\<close>; random values (codes, ULIDs, nonces, the server id) are arguments.  A route that
  awaits between reading a row and a guarded update is two steps.  The sign-in limiter in front of the
  pairing routes is \<open>Rate_Limit\<close>'s and not repeated here.
\<close>

section \<open>JavaScript white space\<close>

section \<open>Tables\<close>

record token_row =
  tk_sub :: string
  tk_device :: string
  tk_name :: string
  tk_username :: "string option"
  tk_platform :: string
  tk_server :: string
  tk_kid :: string
  tk_issued :: string
  tk_expires :: string
  tk_seen :: "string option"
  tk_version :: "string option"

record link_row =
  lk_device :: string
  lk_name :: string
  lk_platform :: string
  lk_expires :: int
  lk_sub :: "string option"
  lk_username :: "string option"
  lk_role :: "string option"
  lk_mode :: "string option"
  lk_consumed :: "int option"

record device_db =
  dd_tokens :: "(string, token_row) imap"
  dd_revoked :: "(string, string \<times> string) imap"
  dd_links :: "(string, link_row) imap"
  dd_server :: "string option"

definition ensure_server_id :: "string \<Rightarrow> device_db \<Rightarrow> string \<times> device_db" where
  "ensure_server_id uuid db =
     (case dd_server db of Some i \<Rightarrow> (i, db) | None \<Rightarrow> (uuid, db\<lparr>dd_server := Some uuid\<rparr>))"

section \<open>Device tokens\<close>

record mint_input =
  mi_sub :: string
  mi_role :: role
  mi_mode :: auth_mode
  mi_device :: string
  mi_platform :: string
  mi_name :: string
  mi_username :: "string option"
  mi_server :: string

datatype mint_error = MeInvalidSub | MeDb

definition device_mint ::
  "jwe_lib \<Rightarrow> (int \<Rightarrow> string) \<Rightarrow> string \<Rightarrow> string \<Rightarrow> string \<Rightarrow> int \<Rightarrow> mint_input \<Rightarrow> device_db
    \<Rightarrow> (mint_error + string) \<times> device_db" where
  "device_mint L isot key nonce jti now i db =
     (if \<not> valid_sub (mi_sub i) then (Inl MeInvalidSub, db)
      else let expiry = wrap64 (now + device_ttl_secs);
               claims = \<lparr>dc_aud = ''device'', dc_iss = ''eex'', dc_sub = mi_sub i, dc_role = role_str (mi_role i),
                 dc_auth_mode = mode_str (mi_mode i), dc_device_id = mi_device i, dc_platform = mi_platform i,
                 dc_server = mi_server i, dc_jti = jti, dc_iat = now, dc_nbf = now, dc_exp = expiry\<rparr>
        in if im_get (dd_tokens db) jti \<noteq> None then (Inl MeDb, db)
           else (Inr (device_encrypt L nonce key device_kid claims),
             db\<lparr>dd_tokens := im_insert jti
               \<lparr>tk_sub = mi_sub i, tk_device = mi_device i, tk_name = mi_name i, tk_username = mi_username i,
                tk_platform = mi_platform i, tk_server = mi_server i, tk_kid = device_kid,
                tk_issued = isot now, tk_expires = isot expiry, tk_seen = None, tk_version = None\<rparr> (dd_tokens db)\<rparr>))"

definition token_live :: "(int \<Rightarrow> string) \<Rightarrow> int \<Rightarrow> string \<Rightarrow> device_db \<Rightarrow> bool" where
  "token_live isot now jti db \<longleftrightarrow>
     (case im_get (dd_tokens db) jti of None \<Rightarrow> False | Some r \<Rightarrow> str_lt (isot now) (tk_expires r))
     \<and> im_get (dd_revoked db) jti = None"

definition device_verify ::
  "jwe_lib \<Rightarrow> (int \<Rightarrow> string) \<Rightarrow> (string \<rightharpoonup> string) \<Rightarrow> string \<Rightarrow> int \<Rightarrow> device_db \<Rightarrow> device_claims option" where
  "device_verify L isot keys token now db =
     (case device_decrypt L keys token of
        Inl _ \<Rightarrow> None
      | Inr c \<Rightarrow>
          if role_parse (dc_role c) = None \<or> mode_parse (dc_auth_mode c) = None then None
          else if device_time_window c now \<noteq> Inr () then None
          else if token_live isot now (dc_jti c) db then Some c else None)"

text \<open>\<open>INSERT OR IGNORE INTO device_token_revocations\<close>.\<close>

definition insert_revocation :: "string \<Rightarrow> string \<Rightarrow> string \<Rightarrow> (string, string \<times> string) imap \<Rightarrow> (string, string \<times> string) imap" where
  "insert_revocation dt reason jti m = (if im_get m jti = None then im_insert jti (dt, reason) m else m)"

definition device_revoke :: "string \<Rightarrow> string \<Rightarrow> string \<Rightarrow> device_db \<Rightarrow> device_db" where
  "device_revoke dt jti reason db = db\<lparr>dd_revoked := insert_revocation dt reason jti (dd_revoked db)\<rparr>"

definition tokens_of :: "string \<Rightarrow> device_db \<Rightarrow> string list" where
  "tokens_of sub db = map fst (filter (\<lambda>(_, r). tk_sub r = sub) (dd_tokens db))"

definition cascade_revoke_for_sub :: "string \<Rightarrow> string \<Rightarrow> string \<Rightarrow> device_db \<Rightarrow> nat \<times> device_db" where
  "cascade_revoke_for_sub dt sub reason db =
     (length (tokens_of sub db), db\<lparr>dd_revoked := fold (insert_revocation dt reason) (tokens_of sub db) (dd_revoked db)\<rparr>)"

definition sweep_expired :: "string \<Rightarrow> device_db \<Rightarrow> nat \<times> device_db" where
  "sweep_expired now db =
     (length (filter (\<lambda>(_, r). str_lt (tk_expires r) now) (dd_tokens db)),
      db\<lparr>dd_tokens := filter (\<lambda>(_, r). \<not> str_lt (tk_expires r) now) (dd_tokens db)\<rparr>)"

section \<open>Managing devices\<close>

definition revoke_own :: "string \<Rightarrow> string \<Rightarrow> string \<Rightarrow> device_db \<Rightarrow> bool \<times> device_db" where
  "revoke_own dt sub jti db =
     (if map_option tk_sub (im_get (dd_tokens db) jti) \<noteq> Some sub then (False, db)
      else (True, device_revoke dt jti ''self_revoke'' db))"

definition revoke_any :: "string \<Rightarrow> string \<Rightarrow> device_db \<Rightarrow> bool \<times> device_db" where
  "revoke_any dt jti db =
     (if im_get (dd_tokens db) jti = None then (False, db) else (True, device_revoke dt jti ''admin_revoke'' db))"

definition active_of :: "string \<Rightarrow> device_db \<Rightarrow> string list" where
  "active_of sub db = filter (\<lambda>jti. im_get (dd_revoked db) jti = None) (tokens_of sub db)"

definition revoke_all_own :: "string \<Rightarrow> string \<Rightarrow> device_db \<Rightarrow> nat \<times> device_db" where
  "revoke_all_own dt sub db =
     (length (active_of sub db),
      db\<lparr>dd_revoked := fold (insert_revocation dt ''self_logout_everywhere'') (active_of sub db) (dd_revoked db)\<rparr>)"

text \<open>\<open>js_len\<close> of a UTF-8 text: a character of four bytes is two UTF-16 units.\<close>

definition js_len :: "string \<Rightarrow> nat" where
  "js_len s = sum_list (map (\<lambda>c. if length c = 4 then 2 else 1) (utf8_chars s))"

datatype rename_result = RnBad string | RnNotFound | RnOk string

definition new_name :: "jvalue \<Rightarrow> string + string" where
  "new_name body =
     (case Option.bind (json_get ''device_name'' body) as_str of
        None \<Rightarrow> Inl ''device_name (string) required''
      | Some n \<Rightarrow>
          if js_trim n = [] \<or> js_len (js_trim n) > 128 then Inl ''device_name must be 1-128 chars''
          else Inr (js_trim n))"

definition rename_device :: "string \<Rightarrow> string option \<Rightarrow> jvalue \<Rightarrow> device_db \<Rightarrow> rename_result \<times> device_db" where
  "rename_device jti sub body db =
     (case new_name body of
        Inl m \<Rightarrow> (RnBad m, db)
      | Inr name \<Rightarrow>
          (let P = (\<lambda>k r. k = jti \<and> (sub = None \<or> sub = Some (tk_sub r))) in
           if rows_affected P (dd_tokens db) = 0 then (RnNotFound, db)
           else (RnOk name, db\<lparr>dd_tokens := sql_update P (\<lambda>r. r\<lparr>tk_name := name\<rparr>) (dd_tokens db)\<rparr>)))"

section \<open>Pairing by code\<close>

definition code_alphabet :: string where "code_alphabet = ''ABCDEFGHJKLMNPQRSTUVWXYZ23456789''"

definition code_length :: nat where "code_length = 8"

definition link_code_ttl_secs :: int where "link_code_ttl_secs = 600"

definition generate_code :: "nat list \<Rightarrow> string" where
  "generate_code bytes = map (\<lambda>b. code_alphabet ! (b mod length code_alphabet)) (take code_length bytes)"

text \<open>\<open>str::to_uppercase\<close> is the argument \<open>upper\<close> (it maps some non-ASCII letters to ASCII ones).\<close>

definition normalize_code :: "(string \<Rightarrow> string) \<Rightarrow> jvalue option \<Rightarrow> string" where
  "normalize_code upper raw =
     (case Option.bind raw as_str of
        None \<Rightarrow> []
      | Some s \<Rightarrow> concat (filter (\<lambda>c. \<not> js_space c \<and> c \<noteq> ''-'') (utf8_chars (upper (js_trim s)))))"

definition code_shape :: "string \<Rightarrow> bool" where
  "code_shape code \<longleftrightarrow> length code = code_length
     \<and> list_all (\<lambda>c. let b = of_char c :: nat in (65 \<le> b \<and> b \<le> 90) \<or> (50 \<le> b \<and> b \<le> 57)) code"

definition text_field :: "jvalue \<Rightarrow> string \<Rightarrow> string" where
  "text_field body k = (case Option.bind (json_get k body) as_str of None \<Rightarrow> [] | Some s \<Rightarrow> js_trim s)"

datatype link_reply =
  LrBad string
| LrStarted string
| LrUnknown
| LrExpired
| LrAlready
| LrClaimed string string
| LrDenied string
| LrPending
| LrAuthorized string string string role string
| LrError

definition link_start :: "int \<Rightarrow> string \<Rightarrow> jvalue \<Rightarrow> device_db \<Rightarrow> link_reply \<times> device_db" where
  "link_start now code body db =
     (let device = text_field body ''device_id''; name = text_field body ''device_name'';
          platform = text_field body ''device_platform''
      in if device = [] \<or> name = [] \<or> platform = [] then (LrBad ''missing_device_fields'', db)
         else let db1 = db\<lparr>dd_links := filter (\<lambda>(_, r). \<not> lk_expires r < wrap64 (now - link_code_ttl_secs)) (dd_links db)\<rparr>
           in if im_get (dd_links db1) code \<noteq> None then (LrError, db1)
              else (LrStarted code, db1\<lparr>dd_links := im_insert code
                \<lparr>lk_device = device, lk_name = name, lk_platform = platform,
                 lk_expires = wrap64 (now + link_code_ttl_secs), lk_sub = None, lk_username = None, lk_role = None,
                 lk_mode = None, lk_consumed = None\<rparr> (dd_links db1)\<rparr>))"

text \<open>\<open>claim\<close>: what the row it read decides, then the guarded update.\<close>

definition claim_read :: "(string \<Rightarrow> string) \<Rightarrow> int \<Rightarrow> jvalue \<Rightarrow> device_db \<Rightarrow> link_reply + (string \<times> link_row)" where
  "claim_read upper now body db =
     (let code = normalize_code upper (json_get ''code'' body) in
      if \<not> code_shape code then Inl (LrBad ''invalid_code'')
      else case im_get (dd_links db) code of
        None \<Rightarrow> Inl LrUnknown
      | Some r \<Rightarrow> if lk_expires r < now then Inl LrExpired
                  else if lk_sub r \<noteq> None then Inl LrAlready else Inr (code, r))"

definition unclaimed :: "string \<Rightarrow> string \<Rightarrow> link_row \<Rightarrow> bool" where
  "unclaimed code k r \<longleftrightarrow> k = code \<and> lk_sub r = None"

definition claim_bind :: "user_session \<Rightarrow> string \<times> link_row \<Rightarrow> device_db \<Rightarrow> link_reply \<times> device_db" where
  "claim_bind s task db =
     (case task of (code, r0) \<Rightarrow>
        if rows_affected (unclaimed code) (dd_links db) = 0 then (LrAlready, db)
        else (LrClaimed (lk_name r0) (lk_platform r0),
          db\<lparr>dd_links := sql_update (unclaimed code)
            (\<lambda>r. r\<lparr>lk_sub := Some (us_sub s), lk_username := Some (us_username s), lk_role := Some (role_str (us_role s)),
               lk_mode := Some (mode_str (us_mode s))\<rparr>) (dd_links db)\<rparr>))"

text \<open>\<open>poll\<close>: the read and its early answers, then the guarded consumption and the mint.\<close>

record poll_task =
  pt_code :: string
  pt_row :: link_row
  pt_sub :: string
  pt_mode :: auth_mode

definition poll_read :: "(string \<Rightarrow> string) \<Rightarrow> int \<Rightarrow> jvalue \<Rightarrow> device_db \<Rightarrow> link_reply + poll_task" where
  "poll_read upper now body db =
     (let code = normalize_code upper (json_get ''code'' body); device = text_field body ''device_id'' in
      if \<not> code_shape code \<or> device = [] then Inl (LrBad ''invalid_request'')
      else case im_get (dd_links db) code of
        None \<Rightarrow> Inl (LrDenied ''unknown_code'')
      | Some r \<Rightarrow>
          if lk_device r \<noteq> device \<or> lk_consumed r \<noteq> None then Inl (LrDenied ''unknown_code'')
          else if lk_expires r < now then Inl (LrDenied ''expired'')
          else (case lk_sub r of
            None \<Rightarrow> Inl LrPending
          | Some sub \<Rightarrow>
              (case Option.bind (lk_mode r) mode_parse of
                 None \<Rightarrow> Inl (LrDenied ''unknown_code'')
               | Some mode \<Rightarrow> Inr \<lparr>pt_code = code, pt_row = r, pt_sub = sub, pt_mode = mode\<rparr>)))"

definition unconsumed :: "string \<Rightarrow> string \<Rightarrow> link_row \<Rightarrow> bool" where
  "unconsumed code k r \<longleftrightarrow> k = code \<and> lk_consumed r = None"

definition claimed_role :: "link_row \<Rightarrow> role" where
  "claimed_role r = (case Option.bind (lk_role r) role_parse of None \<Rightarrow> User | Some x \<Rightarrow> x)"

definition claimed_name :: "poll_task \<Rightarrow> string" where
  "claimed_name t = (case lk_username (pt_row t) of None \<Rightarrow> pt_sub t | Some u \<Rightarrow> u)"

definition poll_commit ::
  "jwe_lib \<Rightarrow> (int \<Rightarrow> string) \<Rightarrow> string option \<Rightarrow> string \<Rightarrow> string \<Rightarrow> string \<Rightarrow> int \<Rightarrow> poll_task \<Rightarrow> device_db
    \<Rightarrow> link_reply \<times> device_db" where
  "poll_commit L isot key uuid nonce jti now t db =
     (case key of
        None \<Rightarrow> (LrError, db)
      | Some key \<Rightarrow>
          if rows_affected (unconsumed (pt_code t)) (dd_links db) = 0 then (LrDenied ''unknown_code'', db)
          else (let db1 = db\<lparr>dd_links := sql_update (unconsumed (pt_code t)) (\<lambda>r. r\<lparr>lk_consumed := Some now\<rparr>) (dd_links db)\<rparr>;
                    (server, db2) = ensure_server_id uuid db1;
                    (token, db3) = device_mint L isot key nonce jti now
                      \<lparr>mi_sub = pt_sub t, mi_role = claimed_role (pt_row t), mi_mode = pt_mode t,
                       mi_device = lk_device (pt_row t), mi_platform = lk_platform (pt_row t), mi_name = lk_name (pt_row t),
                       mi_username = Some (claimed_name t), mi_server = server\<rparr> db2
                in case token of
                     Inl _ \<Rightarrow> (LrError, db3)
                   | Inr tok \<Rightarrow> (LrAuthorized tok server (pt_sub t) (claimed_role (pt_row t)) (claimed_name t), db3)))"

section \<open>Any interleaving\<close>

text \<open>
  The store, the calls between their read and their write, and three logs that only the statements
  read: the codes shown with their device, the codes bound with the member, the tokens issued.
\<close>

record link_env =
  le_jwe :: jwe_lib
  le_iso :: "int \<Rightarrow> string"
  le_key :: "string option"
  le_upper :: "string \<Rightarrow> string"

record link_state =
  ls_db :: device_db
  ls_claims :: "(nat, user_session \<times> string \<times> link_row) imap"
  ls_polls :: "(nat, poll_task) imap"
  ls_shown :: "(string \<times> string) list"
  ls_bound :: "(string \<times> string) list"
  ls_issued :: "(string \<times> string \<times> string) list"

datatype device_event =
  LStart int string jvalue
| LClaimRead nat user_session int jvalue
| LClaimBind nat
| LPollRead nat int jvalue
| LPollCommit nat string string string int
| LMint string string int mint_input
| LRevoke string string string
| LCascade string string string
| LLogoutAll string string
| LSweep string
| LRename string "string option" jvalue

definition with_db :: "device_db \<Rightarrow> link_state \<Rightarrow> link_state" where
  "with_db db st = st\<lparr>ls_db := db\<rparr>"

fun device_step :: "link_env \<Rightarrow> link_state \<Rightarrow> device_event \<Rightarrow> link_state" where
  "device_step E st (LStart now code body) =
     (case link_start now code body (ls_db st) of
        (LrStarted c, db) \<Rightarrow> (with_db db st)\<lparr>ls_shown := (c, text_field body ''device_id'') # ls_shown st\<rparr>
      | (_, db) \<Rightarrow> with_db db st)"
| "device_step E st (LClaimRead tid s now body) =
     (case claim_read (le_upper E) now body (ls_db st) of
        Inl _ \<Rightarrow> st
      | Inr t \<Rightarrow> st\<lparr>ls_claims := im_insert tid (s, t) (ls_claims st)\<rparr>)"
| "device_step E st (LClaimBind tid) =
     (case im_get (ls_claims st) tid of
        None \<Rightarrow> st
      | Some (s, t) \<Rightarrow>
          (let st1 = st\<lparr>ls_claims := im_remove tid (ls_claims st)\<rparr> in
           case claim_bind s t (ls_db st) of
             (LrClaimed _ _, db) \<Rightarrow> (with_db db st1)\<lparr>ls_bound := (fst t, us_sub s) # ls_bound st\<rparr>
           | (_, db) \<Rightarrow> with_db db st1))"
| "device_step E st (LPollRead tid now body) =
     (case poll_read (le_upper E) now body (ls_db st) of
        Inl _ \<Rightarrow> st
      | Inr t \<Rightarrow> st\<lparr>ls_polls := im_insert tid t (ls_polls st)\<rparr>)"
| "device_step E st (LPollCommit tid uuid nonce jti now) =
     (case im_get (ls_polls st) tid of
        None \<Rightarrow> st
      | Some t \<Rightarrow>
          (let st1 = st\<lparr>ls_polls := im_remove tid (ls_polls st)\<rparr> in
           case poll_commit (le_jwe E) (le_iso E) (le_key E) uuid nonce jti now t (ls_db st) of
             (LrAuthorized _ _ sub _ _, db) \<Rightarrow>
               (with_db db st1)\<lparr>ls_issued := (pt_code t, sub, lk_device (pt_row t)) # ls_issued st\<rparr>
           | (_, db) \<Rightarrow> with_db db st1))"
| "device_step E st (LMint nonce jti now i) =
     (case le_key E of
        None \<Rightarrow> st
      | Some key \<Rightarrow> with_db (snd (device_mint (le_jwe E) (le_iso E) key nonce jti now i (ls_db st))) st)"
| "device_step E st (LRevoke dt jti reason) = with_db (device_revoke dt jti reason (ls_db st)) st"
| "device_step E st (LCascade dt sub reason) = with_db (snd (cascade_revoke_for_sub dt sub reason (ls_db st))) st"
| "device_step E st (LLogoutAll dt sub) = with_db (snd (revoke_all_own dt sub (ls_db st))) st"
| "device_step E st (LSweep now) = with_db (snd (sweep_expired now (ls_db st))) st"
| "device_step E st (LRename jti sub body) = with_db (snd (rename_device jti sub body (ls_db st))) st"

abbreviation device_run :: "link_env \<Rightarrow> device_event list \<Rightarrow> link_state \<Rightarrow> link_state" where
  "device_run E evs st \<equiv> foldl (device_step E) st evs"

definition fresh_links :: link_state where
  "fresh_links = \<lparr>ls_db = \<lparr>dd_tokens = [], dd_revoked = [], dd_links = [], dd_server = None\<rparr>, ls_claims = [], ls_polls = [],
     ls_shown = [], ls_bound = [], ls_issued = []\<rparr>"

section \<open>One code, one member, one token\<close>

definition row_ok :: "(string \<times> string) list \<Rightarrow> (string \<times> string) list \<Rightarrow> (string \<times> string \<times> string) list \<Rightarrow> string \<Rightarrow> link_row \<Rightarrow> bool" where
  "row_ok shown bound issued c r \<longleftrightarrow> (c, lk_device r) \<in> set shown
     \<and> (case lk_sub r of None \<Rightarrow> c \<notin> fst ` set bound | Some s \<Rightarrow> (c, s) \<in> set bound)
     \<and> (lk_consumed r = None \<longrightarrow> c \<notin> fst ` set issued)"

definition logs_ok :: "(string \<times> string) list \<Rightarrow> (string \<times> string) list \<Rightarrow> (string \<times> string \<times> string) list \<Rightarrow> bool" where
  "logs_ok shown bound issued \<longleftrightarrow>
     distinct (map fst bound) \<and> fst ` set bound \<subseteq> fst ` set shown \<and> distinct (map fst issued)
     \<and> (\<forall>(c, s, d) \<in> set issued. (c, s) \<in> set bound \<and> (c, d) \<in> set shown)"

definition poll_ok :: "(string \<times> string) list \<Rightarrow> (string \<times> string) list \<Rightarrow> poll_task \<Rightarrow> bool" where
  "poll_ok shown bound t \<longleftrightarrow> (pt_code t, pt_sub t) \<in> set bound \<and> (pt_code t, lk_device (pt_row t)) \<in> set shown"

definition link_inv :: "link_state \<Rightarrow> bool" where
  "link_inv st \<longleftrightarrow>
     im_wf (dd_links (ls_db st))
     \<and> (\<forall>c r. im_get (dd_links (ls_db st)) c = Some r \<longrightarrow> row_ok (ls_shown st) (ls_bound st) (ls_issued st) c r)
     \<and> (\<forall>tid t. im_get (ls_polls st) tid = Some t \<longrightarrow> poll_ok (ls_shown st) (ls_bound st) t)
     \<and> logs_ok (ls_shown st) (ls_bound st) (ls_issued st)"

lemma links_kept [simp]:
  "dd_links (device_revoke dt jti reason db) = dd_links db"
  "dd_links (snd (cascade_revoke_for_sub dt sub reason db)) = dd_links db"
  "dd_links (snd (revoke_all_own dt sub db)) = dd_links db"
  "dd_links (snd (sweep_expired nows db)) = dd_links db"
  "dd_links (snd (rename_device jti osub body db)) = dd_links db"
  "dd_links (snd (device_mint L isot key nonce jti now i db)) = dd_links db"
  "dd_links (snd (ensure_server_id uuid db)) = dd_links db"
  by (auto simp: device_revoke_def cascade_revoke_for_sub_def revoke_all_own_def sweep_expired_def rename_device_def
      device_mint_def ensure_server_id_def Let_def split: option.splits sum.splits)

lemma link_inv_links:
  assumes "link_inv st" "dd_links db = dd_links (ls_db st)"
  shows "link_inv (with_db db st)"
  using assms by (simp add: link_inv_def with_db_def)

text \<open>Removing rows and finished tasks only drops obligations.\<close>

lemma link_inv_purge: "link_inv st \<Longrightarrow> dd_links db = filter (\<lambda>(c, r). P r) (dd_links (ls_db st)) \<Longrightarrow> link_inv (with_db db st)"
proof -
  assume inv: "link_inv st" and db: "dd_links db = filter (\<lambda>(c, r). P r) (dd_links (ls_db st))"
  then have wf: "im_wf (dd_links (ls_db st))" by (simp add: link_inv_def)
  then have "im_get (dd_links (ls_db st)) c = Some r" if "im_get (dd_links db) c = Some r" for c r
    using that db by (auto simp: im_get_filter [where P = "\<lambda>_ r. P r"] split: option.splits if_splits)
  moreover have "im_wf (dd_links db)" using wf db by simp
  ultimately show ?thesis using inv by (simp add: link_inv_def with_db_def del: map_of_eq_Some_iff)
qed

lemma link_inv_start:
  assumes inv: "link_inv st" and r: "link_start now code body (ls_db st) = (r, db)"
  shows "(case r of LrStarted c \<Rightarrow> c \<notin> fst ` set (ls_shown st) \<longrightarrow>
            link_inv ((with_db db st)\<lparr>ls_shown := (c, text_field body ''device_id'') # ls_shown st\<rparr>)
          | _ \<Rightarrow> link_inv (with_db db st))"
proof -
  let ?db1 = "(ls_db st)\<lparr>dd_links := filter (\<lambda>(_, r). \<not> lk_expires r < wrap64 (now - link_code_ttl_secs)) (dd_links (ls_db st))\<rparr>"
  have inv1: "link_inv (with_db ?db1 st)" by (rule link_inv_purge [OF inv]) simp
  from r consider "(r, db) = (LrBad ''missing_device_fields'', ls_db st)" | "(r, db) = (LrError, ?db1)"
    | row where "r = LrStarted code" "db = ?db1\<lparr>dd_links := im_insert code row (dd_links ?db1)\<rparr>"
        "lk_device row = text_field body ''device_id''" "lk_sub row = None" "lk_consumed row = None"
    by (auto simp: link_start_def Let_def split: if_splits)
  then show ?thesis
  proof cases
    case 1
    then show ?thesis using inv by (simp add: with_db_def)
  next
    case 2
    then show ?thesis using inv1 by simp
  next
    case 3
    have "link_inv ((with_db db st)\<lparr>ls_shown := (code, text_field body ''device_id'') # ls_shown st\<rparr>)"
      if fresh: "code \<notin> fst ` set (ls_shown st)"
    proof -
      have logs: "logs_ok (ls_shown st) (ls_bound st) (ls_issued st)" using inv by (simp add: link_inv_def)
      then have out: "code \<notin> fst ` set (ls_bound st)" "code \<notin> fst ` set (ls_issued st)"
        using fresh by (auto simp: logs_ok_def image_iff) fastforce+
      have "row_ok ((code, text_field body ''device_id'') # ls_shown st) (ls_bound st) (ls_issued st) c r'"
        if "im_get (dd_links db) c = Some r'" for c r'
      proof (cases "c = code")
        case True
        then show ?thesis using that 3 out by (simp add: update_conv' row_ok_def)
      next
        case False
        then have "im_get (dd_links ?db1) c = Some r'" using that 3 by (simp add: update_conv' del: map_of_eq_Some_iff)
        then have "row_ok (ls_shown st) (ls_bound st) (ls_issued st) c r'" using inv1 unfolding link_inv_def with_db_def by simp
        then show ?thesis by (simp add: row_ok_def)
      qed
      moreover have "logs_ok ((code, text_field body ''device_id'') # ls_shown st) (ls_bound st) (ls_issued st)"
        using logs by (auto simp: logs_ok_def)
      ultimately show ?thesis using inv1 3 by (simp add: link_inv_def with_db_def poll_ok_def del: map_of_eq_Some_iff)
    qed
    then show ?thesis using 3(1) by simp
  qed
qed

lemma unaffected: "rows_affected P m \<noteq> 0 \<Longrightarrow> \<exists>k v. (k, v) \<in> set m \<and> P k v"
  by (auto simp: rows_affected_def filter_empty_conv)

lemma link_inv_claim:
  assumes inv: "link_inv st" and r: "claim_bind u (code, r0) (ls_db st) = (r, db)"
  shows "(case r of LrClaimed _ _ \<Rightarrow> link_inv ((with_db db st)\<lparr>ls_bound := (code, us_sub u) # ls_bound st\<rparr>)
          | _ \<Rightarrow> link_inv (with_db db st))"
proof (cases "rows_affected (unclaimed code) (dd_links (ls_db st)) = 0")
  case True
  then have "r = LrAlready" "db = ls_db st" using r by (simp_all add: claim_bind_def)
  then show ?thesis using inv by (simp add: with_db_def)
next
  case False
  let ?f = "\<lambda>r. r\<lparr>lk_sub := Some (us_sub u), lk_username := Some (us_username u), lk_role := Some (role_str (us_role u)),
               lk_mode := Some (mode_str (us_mode u))\<rparr>"
  have r: "r = LrClaimed (lk_name r0) (lk_platform r0)"
    and db: "dd_links db = sql_update (unclaimed code) ?f (dd_links (ls_db st))"
    using r False by (auto simp: claim_bind_def)
  have wf: "im_wf (dd_links (ls_db st))"
    and rows: "\<And>c r. im_get (dd_links (ls_db st)) c = Some r \<Longrightarrow> row_ok (ls_shown st) (ls_bound st) (ls_issued st) c r"
    and logs: "logs_ok (ls_shown st) (ls_bound st) (ls_issued st)"
    and polls: "\<And>tid t. im_get (ls_polls st) tid = Some t \<Longrightarrow> poll_ok (ls_shown st) (ls_bound st) t"
    using inv unfolding link_inv_def by blast+
  obtain row where row: "im_get (dd_links (ls_db st)) code = Some row" "lk_sub row = None"
    using unaffected [OF False] wf by (auto simp: unclaimed_def)
  then have free: "code \<notin> fst ` set (ls_bound st)" and shown: "code \<in> fst ` set (ls_shown st)"
    using rows [OF row(1)] by (auto simp: row_ok_def image_iff intro!: bexI)
  have "row_ok (ls_shown st) ((code, us_sub u) # ls_bound st) (ls_issued st) c r'" if get: "im_get (dd_links db) c = Some r'" for c r'
  proof -
    obtain r1 where r1: "im_get (dd_links (ls_db st)) c = Some r1" "r' = (if unclaimed code c r1 then ?f r1 else r1)"
      using get by (auto simp: db simp del: map_of_eq_Some_iff)
    have ok1: "row_ok (ls_shown st) (ls_bound st) (ls_issued st) c r1" by (rule rows [OF r1(1)])
    show ?thesis
    proof (cases "c = code")
      case True
      then have "r1 = row" using r1(1) row(1) by simp
      then show ?thesis using True r1(2) row(2) ok1 by (simp add: unclaimed_def row_ok_def)
    next
      case False
      then show ?thesis using r1(2) ok1 by (auto simp: unclaimed_def row_ok_def split: option.splits)
    qed
  qed
  moreover have "logs_ok (ls_shown st) ((code, us_sub u) # ls_bound st) (ls_issued st)"
    using logs free shown by (auto simp: logs_ok_def)
  moreover have "poll_ok (ls_shown st) ((code, us_sub u) # ls_bound st) t" if "im_get (ls_polls st) tid = Some t" for tid t
    using polls [OF that] by (simp add: poll_ok_def)
  moreover have "im_wf (dd_links db)" using wf by (simp add: db)
  ultimately show ?thesis by (simp add: r link_inv_def with_db_def del: map_of_eq_Some_iff)
qed

lemma poll_read_row:
  assumes "poll_read upper now body db = Inr t"
  shows "\<exists>r. im_get (dd_links db) (pt_code t) = Some r \<and> pt_row t = r \<and> lk_sub r = Some (pt_sub t)"
  using assms by (auto simp: poll_read_def Let_def split: if_splits option.splits)

lemma poll_commit_cases:
  assumes "poll_commit L isot key uuid nonce jti now t db = (r, db')"
  shows "(dd_links db' = dd_links db \<and> (\<forall>a b c d e. r \<noteq> LrAuthorized a b c d e))
    \<or> (rows_affected (unconsumed (pt_code t)) (dd_links db) \<noteq> 0
       \<and> dd_links db' = sql_update (unconsumed (pt_code t)) (\<lambda>r. r\<lparr>lk_consumed := Some now\<rparr>) (dd_links db)
       \<and> (\<forall>a b c d e. r = LrAuthorized a b c d e \<longrightarrow> c = pt_sub t))"
proof -
  have m: "dd_links d2 = dd_links d1" if "device_mint L isot k nonce jti now i d1 = (x, d2)" for k i d1 x d2
    using links_kept(6) [of L isot k nonce jti now i d1] that by simp
  have e: "dd_links d2 = dd_links d1" if "ensure_server_id uuid d1 = (x, d2)" for d1 x d2
    using links_kept(7) [of uuid d1] that by simp
  show ?thesis using assms
    by (auto simp: poll_commit_def Let_def dest!: m e split: option.splits if_splits prod.splits sum.splits)
qed

lemma link_inv_commit:
  assumes inv: "link_inv st" and task: "poll_ok (ls_shown st) (ls_bound st) t"
    and r: "poll_commit L isot key uuid nonce jti now t (ls_db st) = (r, db)"
  shows "(case r of LrAuthorized _ _ sub _ _ \<Rightarrow>
            link_inv ((with_db db st)\<lparr>ls_issued := (pt_code t, sub, lk_device (pt_row t)) # ls_issued st\<rparr>)
          | _ \<Rightarrow> link_inv (with_db db st))"
proof (cases "dd_links db = dd_links (ls_db st) \<and> (\<forall>a b c d e. r \<noteq> LrAuthorized a b c d e)")
  case True
  then have "link_inv (with_db db st)" using inv link_inv_links by blast
  then show ?thesis using True by (cases r) simp_all
next
  case False
  let ?f = "\<lambda>r. r\<lparr>lk_consumed := Some now\<rparr>"
  have hit: "rows_affected (unconsumed (pt_code t)) (dd_links (ls_db st)) \<noteq> 0"
    and db: "dd_links db = sql_update (unconsumed (pt_code t)) ?f (dd_links (ls_db st))"
    and who: "\<And>a b c d e. r = LrAuthorized a b c d e \<Longrightarrow> c = pt_sub t"
    using poll_commit_cases [OF r] False by blast+
  have wf: "im_wf (dd_links (ls_db st))"
    and rows: "\<And>c r. im_get (dd_links (ls_db st)) c = Some r \<Longrightarrow> row_ok (ls_shown st) (ls_bound st) (ls_issued st) c r"
    and logs: "logs_ok (ls_shown st) (ls_bound st) (ls_issued st)"
    and polls: "\<And>tid t. im_get (ls_polls st) tid = Some t \<Longrightarrow> poll_ok (ls_shown st) (ls_bound st) t"
    using inv unfolding link_inv_def by blast+
  obtain row where row: "im_get (dd_links (ls_db st)) (pt_code t) = Some row" "lk_consumed row = None"
    using unaffected [OF hit] wf by (auto simp: unconsumed_def)
  then have free: "pt_code t \<notin> fst ` set (ls_issued st)" using rows [OF row(1)] by (simp add: row_ok_def)
  define issued where "issued = (pt_code t, pt_sub t, lk_device (pt_row t)) # ls_issued st"
  have new: "row_ok (ls_shown st) (ls_bound st) issued c r'" if get: "im_get (dd_links db) c = Some r'" for c r'
  proof -
    obtain r1 where r1: "im_get (dd_links (ls_db st)) c = Some r1" "r' = (if unconsumed (pt_code t) c r1 then ?f r1 else r1)"
      using get by (auto simp: db simp del: map_of_eq_Some_iff)
    have ok1: "row_ok (ls_shown st) (ls_bound st) (ls_issued st) c r1" by (rule rows [OF r1(1)])
    show ?thesis using r1(2) ok1 by (cases "c = pt_code t") (auto simp: unconsumed_def row_ok_def issued_def)
  qed
  then have old: "row_ok (ls_shown st) (ls_bound st) (ls_issued st) c r'" if "im_get (dd_links db) c = Some r'" for c r'
    using that by (fastforce simp: row_ok_def issued_def)
  have wf': "im_wf (dd_links db)" using wf by (simp add: db)
  have "logs_ok (ls_shown st) (ls_bound st) issued"
    using logs free task by (auto simp: logs_ok_def issued_def poll_ok_def)
  then have "link_inv ((with_db db st)\<lparr>ls_issued := issued\<rparr>)" "link_inv (with_db db st)"
    using new old wf' polls logs by (simp_all add: link_inv_def with_db_def del: map_of_eq_Some_iff)
  then show ?thesis using who by (cases r) (simp_all add: issued_def)
qed

text \<open>While no code has been drawn twice the invariant holds.\<close>

definition codes_fresh :: "link_state \<Rightarrow> bool" where
  "codes_fresh st \<longleftrightarrow> distinct (map fst (ls_shown st))"

lemma with_db_fields [simp]:
  "ls_db (with_db db st) = db" "ls_shown (with_db db st) = ls_shown st" "ls_bound (with_db db st) = ls_bound st"
  "ls_issued (with_db db st) = ls_issued st" "ls_polls (with_db db st) = ls_polls st"
  by (simp_all add: with_db_def)

lemma link_inv_polls:
  "link_inv st \<Longrightarrow> link_inv (st\<lparr>ls_polls := im_remove tid (ls_polls st)\<rparr>)"
  "link_inv st \<Longrightarrow> link_inv (st\<lparr>ls_claims := x\<rparr>)"
  by (auto simp: link_inv_def delete_conv' simp del: map_of_eq_Some_iff split: if_splits)

lemma link_inv_poll:
  assumes "link_inv st" "poll_read upper now body (ls_db st) = Inr t"
  shows "link_inv (st\<lparr>ls_polls := im_insert tid t (ls_polls st)\<rparr>)"
proof -
  obtain r where r: "im_get (dd_links (ls_db st)) (pt_code t) = Some r" "pt_row t = r" "lk_sub r = Some (pt_sub t)"
    using poll_read_row [OF assms(2)] by blast
  then have "row_ok (ls_shown st) (ls_bound st) (ls_issued st) (pt_code t) r" using assms(1) unfolding link_inv_def by blast
  then have "poll_ok (ls_shown st) (ls_bound st) t" using r by (simp add: row_ok_def poll_ok_def)
  then show ?thesis using assms(1) by (simp add: link_inv_def update_conv' del: map_of_eq_Some_iff)
qed

lemma shown_grows: "\<exists>xs. ls_shown (device_step E st e) = xs @ ls_shown st"
proof (cases e)
  case (LStart now code body)
  then show ?thesis by (auto split: link_reply.split prod.split)
qed (auto simp: Let_def split: sum.split option.split link_reply.split prod.split)

lemma device_step_inv:
  assumes inv: "link_inv st" and fresh: "codes_fresh (device_step E st e)"
  shows "link_inv (device_step E st e)"
proof (cases e)
  case (LStart now code body)
  obtain r db where r: "link_start now code body (ls_db st) = (r, db)" by force
  show ?thesis using link_inv_start [OF inv r] fresh LStart r
    by (cases r) (simp_all add: codes_fresh_def)
next
  case (LClaimRead tid u now body)
  then show ?thesis using inv link_inv_polls(2) by (simp split: sum.split)
next
  case (LClaimBind tid)
  show ?thesis
  proof (cases "im_get (ls_claims st) tid")
    case (Some x)
    obtain u code r0 where x: "x = (u, code, r0)" by (cases x) auto
    let ?st1 = "st\<lparr>ls_claims := im_remove tid (ls_claims st)\<rparr>"
    obtain r db where r: "claim_bind u (code, r0) (ls_db st) = (r, db)" by force
    have "link_inv ?st1" by (rule link_inv_polls(2) [OF inv])
    from link_inv_claim [OF this, of u code r0 r db] r show ?thesis
      using LClaimBind Some x by (cases r) (simp_all add: Let_def)
  qed (use inv LClaimBind in simp)
next
  case (LPollRead tid now body)
  then show ?thesis using inv link_inv_poll by (simp split: sum.split)
next
  case (LPollCommit tid uuid nonce jti now)
  show ?thesis
  proof (cases "im_get (ls_polls st) tid")
    case (Some t)
    let ?st1 = "st\<lparr>ls_polls := im_remove tid (ls_polls st)\<rparr>"
    obtain r db where r: "poll_commit (le_jwe E) (le_iso E) (le_key E) uuid nonce jti now t (ls_db st) = (r, db)" by force
    have ok: "poll_ok (ls_shown ?st1) (ls_bound ?st1) t" using inv Some unfolding link_inv_def by simp
    have "link_inv ?st1" by (rule link_inv_polls(1) [OF inv])
    from link_inv_commit [OF this ok, of "le_jwe E" "le_iso E" "le_key E" uuid nonce jti now r db] r show ?thesis
      using LPollCommit Some by (cases r) (simp_all add: Let_def)
  qed (use inv LPollCommit in simp)
next
  case (LMint nonce jti now i)
  then show ?thesis using inv link_inv_links by (simp split: option.split)
qed (use inv link_inv_links in simp_all)

lemma link_inv_run: "link_inv st \<Longrightarrow> codes_fresh (device_run E evs st) \<Longrightarrow> link_inv (device_run E evs st)"
proof (induction evs arbitrary: st)
  case (Cons e evs)
  have "\<exists>xs. ls_shown (device_run E evs s) = xs @ ls_shown s" for s
  proof (induction evs arbitrary: s)
    case (Cons a evs)
    then show ?case using shown_grows [of E s a] by (metis append_assoc foldl_Cons)
  qed simp
  then have "codes_fresh (device_step E st e)" using Cons.prems(2) by (metis codes_fresh_def distinct_append foldl_Cons map_append)
  then show ?case using Cons by (simp add: device_step_inv)
qed simp

text \<open>
  C22. A pairing code buys one device token at most, for one member.  Whatever claims and polls race, as
  long as no code is drawn twice: each code is bound by at most one claim and answered with at most one
  token, and that token is for the member whose claim bound the code and the device that showed it.
\<close>

theorem pairing_code_once:
  assumes "codes_fresh (device_run E evs fresh_links)"
  shows "distinct (map fst (ls_bound (device_run E evs fresh_links)))
    \<and> distinct (map fst (ls_issued (device_run E evs fresh_links)))
    \<and> list_all (\<lambda>(c, sub, dev). (c, sub) \<in> set (ls_bound (device_run E evs fresh_links))
        \<and> (c, dev) \<in> set (ls_shown (device_run E evs fresh_links))) (ls_issued (device_run E evs fresh_links))"
proof -
  have "link_inv fresh_links" by (simp add: link_inv_def fresh_links_def logs_ok_def)
  then have "link_inv (device_run E evs fresh_links)" using assms by (rule link_inv_run)
  then show ?thesis by (auto simp: link_inv_def logs_ok_def list_all_iff)
qed

section \<open>Revocation is final\<close>

lemma insert_revocation_get:
  "im_get (insert_revocation dt reason jti m) k \<noteq> None \<longleftrightarrow> k = jti \<or> im_get m k \<noteq> None"
  by (auto simp: insert_revocation_def update_conv')

lemma fold_revocations_get:
  "im_get (fold (insert_revocation dt reason) js m) k \<noteq> None \<longleftrightarrow> k \<in> set js \<or> im_get m k \<noteq> None"
proof (induction js arbitrary: m)
  case (Cons j js)
  show ?case unfolding fold_Cons comp_apply Cons.IH insert_revocation_get by auto
qed simp

definition is_revoked :: "string \<Rightarrow> device_db \<Rightarrow> bool" where
  "is_revoked jti db \<longleftrightarrow> im_get (dd_revoked db) jti \<noteq> None"

lemma revoked_kept:
  "is_revoked k (device_revoke dt jti reason db) \<longleftrightarrow> k = jti \<or> is_revoked k db"
  "is_revoked k (snd (cascade_revoke_for_sub dt sub reason db)) \<longleftrightarrow> k \<in> set (tokens_of sub db) \<or> is_revoked k db"
  "is_revoked k (snd (revoke_all_own dt sub db)) \<longleftrightarrow> k \<in> set (active_of sub db) \<or> is_revoked k db"
  "is_revoked k (snd (sweep_expired nows db)) = is_revoked k db"
  "is_revoked k (snd (rename_device jti osub body db)) = is_revoked k db"
  "is_revoked k (snd (device_mint L isot key nonce jti now i db)) = is_revoked k db"
  "is_revoked k (snd (ensure_server_id uuid db)) = is_revoked k db"
  "is_revoked k (snd (link_start now code body db)) = is_revoked k db"
  "is_revoked k (snd (claim_bind u t db)) = is_revoked k db"
proof -
  have "dd_revoked (device_revoke dt jti reason db) = insert_revocation dt reason jti (dd_revoked db)"
    by (simp add: device_revoke_def)
  then show "is_revoked k (device_revoke dt jti reason db) \<longleftrightarrow> k = jti \<or> is_revoked k db"
    by (simp only: is_revoked_def insert_revocation_get)
  have "dd_revoked (snd (cascade_revoke_for_sub dt sub reason db))
      = fold (insert_revocation dt reason) (tokens_of sub db) (dd_revoked db)"
    by (simp add: cascade_revoke_for_sub_def)
  then show "is_revoked k (snd (cascade_revoke_for_sub dt sub reason db)) \<longleftrightarrow> k \<in> set (tokens_of sub db) \<or> is_revoked k db"
    by (simp only: is_revoked_def fold_revocations_get)
  have "dd_revoked (snd (revoke_all_own dt sub db))
      = fold (insert_revocation dt ''self_logout_everywhere'') (active_of sub db) (dd_revoked db)"
    by (simp add: revoke_all_own_def)
  then show "is_revoked k (snd (revoke_all_own dt sub db)) \<longleftrightarrow> k \<in> set (active_of sub db) \<or> is_revoked k db"
    by (simp only: is_revoked_def fold_revocations_get)
qed (auto simp: is_revoked_def sweep_expired_def rename_device_def device_mint_def ensure_server_id_def Let_def
      link_start_def claim_bind_def split: option.split sum.split prod.split)

lemma revoked_commit:
  "is_revoked k db \<Longrightarrow> is_revoked k (snd (poll_commit L isot key uuid nonce jti now t db))"
proof -
  assume k: "is_revoked k db"
  have m: "is_revoked k d2" if "device_mint L isot x nonce jti now i d1 = (y, d2)" "is_revoked k d1" for x i d1 y d2
    using revoked_kept(6) [of k L isot x nonce jti now i d1] that by simp
  have e: "is_revoked k d2" if "ensure_server_id uuid d1 = (x, d2)" "is_revoked k d1" for d1 x d2
    using revoked_kept(7) [of k uuid d1] that by simp
  have u: "is_revoked k (db\<lparr>dd_links := x\<rparr>)" for x using k by (simp add: is_revoked_def)
  show ?thesis using k u
    by (auto simp: poll_commit_def Let_def intro: m e split: option.split sum.split prod.split)
qed

lemma revoked_step: "is_revoked k (ls_db st) \<Longrightarrow> is_revoked k (ls_db (device_step E st e))"
proof (cases e)
  case (LStart now code body)
  assume "is_revoked k (ls_db st)"
  then have "is_revoked k (snd (link_start now code body (ls_db st)))" by (simp add: revoked_kept)
  then show ?thesis using LStart by (auto split: prod.split link_reply.split)
next
  case (LClaimBind tid)
  assume "is_revoked k (ls_db st)"
  then have "is_revoked k (snd (claim_bind u t (ls_db st)))" for u t by (simp add: revoked_kept)
  then show ?thesis using LClaimBind \<open>is_revoked k (ls_db st)\<close>
    by (auto simp: Let_def split: option.split prod.split link_reply.split) (metis snd_conv)+
next
  case (LPollCommit tid uuid nonce jti now)
  assume k: "is_revoked k (ls_db st)"
  then have "is_revoked k (snd (poll_commit (le_jwe E) (le_iso E) (le_key E) uuid nonce jti now t (ls_db st)))" for t
    by (rule revoked_commit)
  then show ?thesis using LPollCommit k
    by (auto simp: Let_def split: option.split prod.split link_reply.split) (metis snd_conv)+
qed (auto simp: revoked_kept split: sum.split option.split)

lemma revoked_run: "is_revoked k (ls_db st) \<Longrightarrow> is_revoked k (ls_db (device_run E evs st))"
  by (induction evs arbitrary: st) (simp_all add: revoked_step)

text \<open>
  C23. A cascade kills every device token of a member for good: no token that had a row for that sub when
  the cascade ran (or was revoked before) verifies again, with whatever keys, at whatever time, after
  whatever mints, renames, sweeps and pairings follow.
\<close>

theorem cascade_is_final:
  assumes "jti \<in> set (tokens_of sub (ls_db st)) \<or> is_revoked jti (ls_db st)"
  shows "map_option dc_jti (device_verify L isot keys token now (ls_db (device_run E evs (device_step E st (LCascade dt sub reason)))))
    \<noteq> Some jti"
proof -
  have "is_revoked jti (ls_db (device_step E st (LCascade dt sub reason)))" using assms by (simp add: revoked_kept)
  then have "is_revoked jti (ls_db (device_run E evs (device_step E st (LCascade dt sub reason))))" by (rule revoked_run)
  then show ?thesis
    by (auto simp: device_verify_def token_live_def is_revoked_def split: sum.split)
qed

section \<open>A pairing\<close>

definition null_jwe :: jwe_lib where
  "null_jwe = \<lparr>jl_b64e = (\<lambda>_. []), jl_b64d = (\<lambda>_. None), jl_print = (\<lambda>_. []), jl_parse = (\<lambda>_. None),
     jl_seal = (\<lambda>_ _ _ _. []), jl_open = (\<lambda>_ _ _ _. None), jl_hkdf = (\<lambda>_ _. [])\<rparr>"

definition demo_env :: link_env where
  "demo_env = \<lparr>le_jwe = null_jwe, le_iso = (\<lambda>_. ''t''), le_key = Some ''k'', le_upper = id\<rparr>"

definition demo_device_body :: jvalue where
  "demo_device_body = JObj [(''device_id'', JStr ''d''), (''device_name'', JStr ''TV''), (''device_platform'', JStr ''tvos''),
     (''code'', JStr ''ABCDEFGH'')]"

definition demo_member :: user_session where
  "demo_member = \<lparr>us_sub = ''plex:3'', us_username = ''m'', us_role = User, us_mode = MPlex, us_plex_token = None\<rparr>"

definition demo_pairing :: "device_event list" where
  "demo_pairing = [LStart 0 ''ABCDEFGH'' demo_device_body, LClaimRead 0 demo_member 1 demo_device_body,
     LClaimRead 1 demo_member 1 demo_device_body, LClaimBind 0, LClaimBind 1,
     LPollRead 0 2 demo_device_body, LPollRead 1 2 demo_device_body,
     LPollCommit 0 ''u'' ''n'' ''j0'' 2, LPollCommit 1 ''u'' ''n'' ''j1'' 2]"

lemma demo_pairing_issued:
  "codes_fresh (device_run demo_env demo_pairing fresh_links)
   \<and> ls_issued (device_run demo_env demo_pairing fresh_links) = [(''ABCDEFGH'', ''plex:3'', ''d'')]"
  by code_simp

lemma pairing_code_once_witness:
  "distinct (map fst (ls_bound (device_run demo_env demo_pairing fresh_links)))
   \<and> list_all (\<lambda>(c, sub, dev). (c, sub) \<in> set (ls_bound (device_run demo_env demo_pairing fresh_links)))
       [(''ABCDEFGH'', ''plex:3'', ''d'')]"
  using pairing_code_once [of demo_env demo_pairing] demo_pairing_issued by (simp only: list.pred_inject split_conv simp_thms)

lemma cascade_is_final_witness:
  "map_option dc_jti (device_verify null_jwe (\<lambda>_. ''t'') Map.empty ''t'' 5 (ls_db (device_run demo_env [LSweep ''1'']
      (device_step demo_env (device_run demo_env demo_pairing fresh_links) (LCascade ''now'' ''plex:3'' ''member_revoked''))))) \<noteq> Some ''j0''"
proof -
  have "''j0'' \<in> set (tokens_of ''plex:3'' (ls_db (device_run demo_env demo_pairing fresh_links)))" by code_simp
  then show ?thesis by (intro cascade_is_final disjI1)
qed

end
