(* ===== verification/Reconcile.thy ===== *)
theory Reconcile
  imports Devices
begin

text \<open>
  \<open>crates/auth/src/reconcile.rs\<close>: who is calling.  A request carries a Bearer device token or the
  session cookie, and each is checked again against the live store.  The allowlist read and the role
  read of one request are separate statements, so they take the store as each finds it (\<open>db1\<close>, \<open>db2\<close>).
  plex.tv's answer and the SHA-256 fingerprint of its token are arguments; the lock that makes
  concurrent probes share one call is not modelled.
\<close>

section \<open>The plex.tv gate\<close>

definition gate_ttl_secs :: int where "gate_ttl_secs = 15 * 60"

definition gate_max_entries :: nat where "gate_max_entries = 1000"

record gate_entry =
  ge_checked :: int
  ge_seq :: nat
  ge_fp :: string
  ge_server :: string

record plex_gate =
  pg_seq :: nat
  pg_entries :: "(string, gate_entry) imap"

definition gate_fresh :: "plex_gate \<Rightarrow> string \<Rightarrow> string \<Rightarrow> string \<Rightarrow> int \<Rightarrow> bool" where
  "gate_fresh g sub fp server now \<longleftrightarrow>
     (case im_get (pg_entries g) sub of
        None \<Rightarrow> False
      | Some e \<Rightarrow> wrap64 (now - ge_checked e) < gate_ttl_secs \<and> ge_fp e = fp \<and> ge_server e = server)"

definition oldest_entry :: "(string, gate_entry) imap \<Rightarrow> string option" where
  "oldest_entry m = (case m of [] \<Rightarrow> None
     | p # ps \<Rightarrow> Some (fst (fold (\<lambda>q best. if ge_seq (snd q) < ge_seq (snd best) then q else best) ps p)))"

definition gate_set :: "string \<Rightarrow> string \<Rightarrow> string \<Rightarrow> int \<Rightarrow> plex_gate \<Rightarrow> plex_gate" where
  "gate_set sub fp server now g =
     (let m = im_insert sub \<lparr>ge_checked = now, ge_seq = pg_seq g + 1, ge_fp = fp, ge_server = server\<rparr> (pg_entries g)
      in g\<lparr>pg_seq := pg_seq g + 1,
           pg_entries := (if length m > gate_max_entries
             then (case oldest_entry m of None \<Rightarrow> m | Some k \<Rightarrow> im_remove k m) else m)\<rparr>)"

datatype plex_probe = ProbeOk | ProbeHttp nat | ProbeNetwork

definition plex_token_live :: "string \<Rightarrow> string \<Rightarrow> string \<Rightarrow> int \<Rightarrow> plex_probe \<Rightarrow> plex_gate \<Rightarrow> bool \<times> plex_gate" where
  "plex_token_live sub fp server now probe g =
     (if gate_fresh g sub fp server now then (True, g)
      else if probe = ProbeHttp 401 \<or> probe = ProbeHttp 403 then (False, g)
      else (True, gate_set sub fp server now g))"

section \<open>Requests\<close>

record auth_env =
  ae_jwe :: jwe_lib
  ae_iso :: "int \<Rightarrow> string"
  ae_utf8 :: "string \<Rightarrow> bool"
  ae_fp :: "string \<Rightarrow> string"
  ae_admins :: "string list"
  ae_session_key :: string
  ae_device_keys :: "(string \<rightharpoonup> string) option"
  ae_plex_server :: "string option"

record auth_live =
  lv_dev :: device_db
  lv_gate :: plex_gate

record auth_principal =
  pr_session :: user_session
  pr_device :: "device_claims option"

datatype rejection = RjUnauthenticated | RjAccessRevoked | RjInvalidBearer | RjAdminOnly

definition denial_reason :: "member_state \<Rightarrow> string" where
  "denial_reason s = (if s = StRevoked then ''member_revoked'' else ''not_member'')"

definition cascade_on_denial :: "string \<Rightarrow> string \<Rightarrow> string \<Rightarrow> auth_live \<Rightarrow> auth_live" where
  "cascade_on_denial dt sub reason st = st\<lparr>lv_dev := snd (cascade_revoke_for_sub dt sub reason (lv_dev st))\<rparr>"

definition reconcile_cookie ::
  "auth_env \<Rightarrow> auth_db \<Rightarrow> auth_db \<Rightarrow> plex_probe \<Rightarrow> string \<Rightarrow> int \<Rightarrow> user_session \<Rightarrow> auth_live \<Rightarrow> user_session option \<times> auth_live" where
  "reconcile_cookie E db1 db2 probe dt now s st =
     (let status = member_status db1 (ae_admins E) (us_sub s);
          admitted = (\<lambda>st. (Some (s\<lparr>us_role := effective_role db2 (ae_admins E) (us_sub s)\<rparr>), st))
      in if status \<noteq> StAllowed then (None, cascade_on_denial dt (us_sub s) (denial_reason status) st)
         else case (us_mode s, ae_plex_server E, us_plex_token s) of
           (MPlex, Some server, Some token) \<Rightarrow>
             (case plex_token_live (us_sub s) (ae_fp E token) server now probe (lv_gate st) of
                (live, g) \<Rightarrow>
                  if live then admitted (st\<lparr>lv_gate := g\<rparr>)
                  else (None, cascade_on_denial dt (us_sub s) ''plex_auth_revoked'' (st\<lparr>lv_gate := g\<rparr>)))
         | _ \<Rightarrow> admitted st)"

definition touch_row :: "string \<Rightarrow> string option \<Rightarrow> string \<Rightarrow> device_db \<Rightarrow> device_db" where
  "touch_row dt version jti db = db\<lparr>dd_tokens := sql_update (\<lambda>k _. k = jti)
     (\<lambda>r. r\<lparr>tk_seen := Some dt, tk_version := (case version of None \<Rightarrow> tk_version r | Some v \<Rightarrow> Some v)\<rparr>) (dd_tokens db)\<rparr>"

definition reconcile_bearer ::
  "auth_env \<Rightarrow> auth_db \<Rightarrow> auth_db \<Rightarrow> string \<Rightarrow> device_claims \<Rightarrow> string option \<Rightarrow> auth_live \<Rightarrow> user_session option \<times> auth_live" where
  "reconcile_bearer E db1 db2 dt c version st =
     (let status = member_status db1 (ae_admins E) (dc_sub c) in
      if status \<noteq> StAllowed then (None, cascade_on_denial dt (dc_sub c) (denial_reason status) st)
      else let st1 = st\<lparr>lv_dev := touch_row dt version (dc_jti c) (lv_dev st)\<rparr> in
        case (map_option tk_name (im_get (dd_tokens (lv_dev st)) (dc_jti c)), mode_parse (dc_auth_mode c)) of
          (Some name, Some mode) \<Rightarrow>
            (Some \<lparr>us_sub = dc_sub c, us_username = name, us_role = effective_role db2 (ae_admins E) (dc_sub c),
                   us_mode = mode, us_plex_token = None\<rparr>, st1)
        | _ \<Rightarrow> (None, st1))"

text \<open>\<open>bearer\<close>: absent or another scheme, or a Bearer whose token may be unreadable.\<close>

definition bearer :: "(string \<Rightarrow> bool) \<Rightarrow> headers \<Rightarrow> string option option" where
  "bearer utf8 h =
     Option.bind (header_get h ''authorization'') (\<lambda>v.
       map_option (\<lambda>rest. if utf8 rest \<and> str_trim rest \<noteq> [] then Some (str_trim rest) else None)
         (strip_prefix ''Bearer '' (trim_ascii v)))"

definition authenticate ::
  "auth_env \<Rightarrow> auth_db \<Rightarrow> auth_db \<Rightarrow> plex_probe \<Rightarrow> string \<Rightarrow> int \<Rightarrow> headers \<Rightarrow> auth_live \<Rightarrow> (rejection + auth_principal) \<times> auth_live" where
  "authenticate E db1 db2 probe dt now h st =
     (case bearer (ae_utf8 E) h of
        Some tok \<Rightarrow>
          (case (tok, ae_device_keys E) of
             (Some token, Some keys) \<Rightarrow>
               (case device_verify (ae_jwe E) (ae_iso E) keys token now (lv_dev st) of
                  None \<Rightarrow> (Inl RjInvalidBearer, st)
                | Some c \<Rightarrow>
                    (case reconcile_bearer E db1 db2 dt c (Option.bind (header_get h ''x-app-version'') header_to_str) st of
                       (Some s, st') \<Rightarrow> (Inr \<lparr>pr_session = s, pr_device = Some c\<rparr>, st')
                     | (None, st') \<Rightarrow> (Inl RjInvalidBearer, st')))
           | _ \<Rightarrow> (Inl RjInvalidBearer, st))
      | None \<Rightarrow>
          (case Option.bind (read_cookie h) (\<lambda>t. session_verify (ae_jwe E) (ae_session_key E) t now) of
             None \<Rightarrow> (Inl RjUnauthenticated, st)
           | Some s \<Rightarrow>
               (case reconcile_cookie E db1 db2 probe dt now s st of
                  (Some s', st') \<Rightarrow> (Inr \<lparr>pr_session = s', pr_device = None\<rparr>, st')
                | (None, st') \<Rightarrow> (Inl RjAccessRevoked, st'))))"

text \<open>\<open>RequireAdmin\<close>: authenticated first, then an administrator.\<close>

definition require_admin_extractor :: "(rejection + auth_principal) \<Rightarrow> rejection + auth_principal" where
  "require_admin_extractor r =
     result_bind r (\<lambda>p. if us_role (pr_session p) \<noteq> Admin then Inl RjAdminOnly else Inr p)"

section \<open>Live answers\<close>

definition live_principal :: "auth_env \<Rightarrow> auth_db \<Rightarrow> auth_db \<Rightarrow> int \<Rightarrow> headers \<Rightarrow> auth_live \<Rightarrow> auth_principal \<Rightarrow> bool" where
  "live_principal E db1 db2 now h st p \<longleftrightarrow>
     member_status db1 (ae_admins E) (us_sub (pr_session p)) = StAllowed
     \<and> us_role (pr_session p) = effective_role db2 (ae_admins E) (us_sub (pr_session p))
     \<and> (case pr_device p of
          None \<Rightarrow> bearer (ae_utf8 E) h = None
        | Some c \<Rightarrow> dc_sub c = us_sub (pr_session p) \<and> token_live (ae_iso E) now (dc_jti c) (lv_dev st))"

lemma cookie_live:
  assumes "reconcile_cookie E db1 db2 probe dt now s st = (Some s', st')"
  shows "us_sub s' = us_sub s" "member_status db1 (ae_admins E) (us_sub s) = StAllowed"
    "us_role s' = effective_role db2 (ae_admins E) (us_sub s)"
  using assms
  by (auto simp: reconcile_cookie_def Let_def split: if_splits option.splits auth_mode.splits prod.splits)

lemma bearer_live:
  assumes "reconcile_bearer E db1 db2 dt c version st = (Some s, st')"
  shows "us_sub s = dc_sub c" "member_status db1 (ae_admins E) (dc_sub c) = StAllowed"
    "us_role s = effective_role db2 (ae_admins E) (dc_sub c)"
  using assms by (auto simp: reconcile_bearer_def Let_def split: if_splits option.splits)

lemma verified_live: "device_verify L isot keys token now db = Some c \<Longrightarrow> token_live isot now (dc_jti c) db"
  by (auto simp: device_verify_def split: sum.splits if_splits)

lemma authenticate_live:
  assumes "authenticate E db1 db2 probe dt now h st = (Inr p, st')"
  shows "live_principal E db1 db2 now h st p"
  using assms
  by (auto simp: authenticate_def live_principal_def verified_live bearer_live cookie_live
      split: option.splits prod.splits)


text \<open>A verified cookie of \<open>t\<close>, presented without a Bearer.\<close>

definition presents_cookie :: "auth_env \<Rightarrow> headers \<Rightarrow> int \<Rightarrow> string \<Rightarrow> bool" where
  "presents_cookie E h now t \<longleftrightarrow> bearer (ae_utf8 E) h = None
     \<and> map_option us_sub (Option.bind (read_cookie h) (\<lambda>k. session_verify (ae_jwe E) (ae_session_key E) k now)) = Some t"

lemma cascade_revokes:
  "list_all (\<lambda>jti. is_revoked jti (snd (cascade_revoke_for_sub dt sub reason db))) (tokens_of sub db)"
  using revoked_kept(2) [of _ dt sub reason db] by (simp add: list_all_iff)

lemma cookie_shut_out:
  assumes "member_status db1 (ae_admins E) t \<noteq> StAllowed" "presents_cookie E h now t"
    "authenticate E db1 db2 probe dt now h st = (r, st')"
  shows "r = Inl RjAccessRevoked \<and> list_all (\<lambda>jti. is_revoked jti (lv_dev st')) (tokens_of t (lv_dev st))"
proof -
  from assms(2) obtain s where s: "bearer (ae_utf8 E) h = None"
      "Option.bind (read_cookie h) (\<lambda>k. session_verify (ae_jwe E) (ae_session_key E) k now) = Some s" "us_sub s = t"
    by (auto simp: presents_cookie_def)
  have "reconcile_cookie E db1 db2 probe dt now s st
      = (None, cascade_on_denial dt t (denial_reason (member_status db1 (ae_admins E) t)) st)"
    using assms(1) s(3) by (simp add: reconcile_cookie_def)
  with assms(3) s(1,2) have "r = Inl RjAccessRevoked"
      "st' = cascade_on_denial dt t (denial_reason (member_status db1 (ae_admins E) t)) st"
    by (simp_all add: authenticate_def)
  then show ?thesis by (simp add: cascade_on_denial_def cascade_revokes)
qed



section \<open>A cookie that outlives its member\<close>

definition demo_members :: "(string \<times> jvalue) list" where
  "demo_members = [(''alg'', JStr ''dir''), (''enc'', JStr ''A256GCM''), (''sub'', JStr ''plex:2''),
     (''username'', JStr ''two''), (''role'', JStr ''admin''), (''auth_mode'', JStr ''plex''), (''exp'', JInt 900)]"

definition open_jwe :: jwe_lib where
  "open_jwe = null_jwe\<lparr>
     jl_b64d := (\<lambda>s. Some (if s = ''i'' then replicate 12 (CHR 0x00) else if s = ''t'' then replicate 16 (CHR 0x00) else [])),
     jl_parse := (\<lambda>_. Some (JObj demo_members)),
     jl_open := (\<lambda>_ _ _ _. Some [])\<rparr>"

definition demo_auth :: auth_env where
  "demo_auth = \<lparr>ae_jwe = open_jwe, ae_iso = (\<lambda>_. ''t''), ae_utf8 = (\<lambda>_. True), ae_fp = id, ae_admins = [],
     ae_session_key = ''k'', ae_device_keys = None, ae_plex_server = None\<rparr>"

definition demo_live :: auth_live where
  "demo_live = \<lparr>lv_dev = ls_db (device_run demo_env demo_pairing fresh_links), lv_gate = \<lparr>pg_seq = 0, pg_entries = []\<rparr>\<rparr>"

definition demo_request :: headers where
  "demo_request = [(''cookie'', ''eex.session=h..i.c.t'')]"

lemma demo_cookie:
  "session_verify open_jwe ''k'' ''h..i.c.t'' 5
     = Some \<lparr>us_sub = ''plex:2'', us_username = ''two'', us_role = Admin, us_mode = MPlex, us_plex_token = None\<rparr>"
proof -
  have header: "Option.bind (jl_b64d open_jwe (hd (split_on CHR ''.'' ''h..i.c.t''))) (read_map open_jwe)
      = Some (map_of (rev demo_members))"
    by (simp add: open_jwe_def read_map_def)
  have plain: "decrypt_with_key open_jwe ''k'' ''h..i.c.t'' = Inr []" by code_simp
  have claims: "read_map open_jwe [] = Some (map_of (rev demo_members))" by (simp add: open_jwe_def read_map_def)
  have ok: "session_header_ok (map_of (rev demo_members))" by code_simp
  have sub: "sub_of ''plex:2'' = Some ''plex:2''" by code_simp
  have live: "\<not> fle (f_of_int 900) (f_of_int 5)" by (simp add: flt_exact)
  show ?thesis
    unfolding session_verify_def header bind.simps plain sum.case claims
    by (simp add: ok del: map_of.simps) (simp add: demo_members_def date_claim_def map_text_def live sub role_parse_def mode_parse_def)
qed

lemma demo_requests:
  "bearer (\<lambda>_. True) demo_request = None" "read_cookie demo_request = Some ''h..i.c.t''"
  by code_simp+


end
