(* ===== verification/Playlist.thy ===== *)
theory Playlist
  imports Stream_Token Members Utf8
begin

text \<open>
  \<open>crates/iptv/src/playlist.rs\<close>: signing and checking stream tokens under the clock, the 90-day
  playlist tokens with their table, the M3U for external players and the base URL minted links start
  with.  Random ids, rendered times and the \<open>url\<close> crate's reading of an origin are arguments; the
  rows of the channel query come as SQLite returns them.
\<close>

section \<open>Tokens under the clock\<close>

definition playlist_rid :: string where "playlist_rid = ''iptv-channels-all''"

definition playlist_ttl_secs :: int where "playlist_ttl_secs = 90 * 24 * 3600"

definition channel_token_ttl_secs :: int where "channel_token_ttl_secs = 300"

definition minted_claims :: "stream_kind \<Rightarrow> string \<Rightarrow> string \<Rightarrow> int \<Rightarrow> string \<Rightarrow> int \<Rightarrow> stream_claims" where
  "minted_claims k rid sub ttl jti now =
     \<lparr>c_exp = wrap64 (now + ttl), c_iat = now, c_jti = jti, c_k = k, c_nbf = now, c_rid = rid, c_sub = sub, c_v = 1\<rparr>"

definition iptv_sign :: "token_lib \<Rightarrow> string \<Rightarrow> stream_kind \<Rightarrow> string \<Rightarrow> string \<Rightarrow> int \<Rightarrow> string option \<Rightarrow> string \<Rightarrow> int \<Rightarrow> string" where
  "iptv_sign L secret k rid sub ttl jti ulid now =
     sign L secret (minted_claims k rid sub ttl (case jti of None \<Rightarrow> ulid | Some j \<Rightarrow> j) now)"

definition legacy :: "token_error \<Rightarrow> string" where
  "legacy e =
     (case e of
        Expired \<Rightarrow> ''expired_token''
      | NotYetValid \<Rightarrow> ''token_not_yet_valid''
      | UnsupportedVersion \<Rightarrow> ''token_version_unsupported''
      | BadPayload \<Rightarrow> ''token_version_unsupported''
      | _ \<Rightarrow> ''invalid_signature'')"

definition err_as :: "('e \<Rightarrow> 'f) \<Rightarrow> 'e + 'a \<Rightarrow> 'f + 'a" where
  "err_as f r = map_sum f id r"

definition iptv_verify :: "token_lib \<Rightarrow> string \<Rightarrow> string \<Rightarrow> int \<Rightarrow> string + stream_claims" where
  "iptv_verify L secret token now =
     result_bind (err_as legacy (verify L secret token)) (\<lambda>claims.
     result_bind (err_as legacy (enforce_time_window claims now)) (\<lambda>_.
       Inr claims))"

section \<open>The table of playlist tokens\<close>

record playlist_row =
  pl_sub :: string
  pl_device :: "string option"
  pl_issued :: string
  pl_expires :: string
  pl_revoked :: "string option"

type_synonym playlist_db = "(string, playlist_row) imap"

record minted =
  pm_jti :: string
  pm_device :: "string option"
  pm_url :: string
  pm_expires :: string

definition playlist_mint ::
  "token_lib \<Rightarrow> (int \<Rightarrow> string) \<Rightarrow> string \<Rightarrow> string \<Rightarrow> string option \<Rightarrow> string \<Rightarrow> string \<Rightarrow> int \<Rightarrow> playlist_db
    \<Rightarrow> minted option \<times> playlist_db" where
  "playlist_mint L isot secret sub device base_url jti now db =
     (let expires = isot (now + playlist_ttl_secs);
          token = iptv_sign L secret Playlist playlist_rid sub playlist_ttl_secs (Some jti) [] now
      in if im_get db jti \<noteq> None then (None, db)
         else (Some \<lparr>pm_jti = jti, pm_device = device, pm_url = base_url @ ''/api/iptv/playlist.m3u?t='' @ token, pm_expires = expires\<rparr>,
           im_insert jti \<lparr>pl_sub = sub, pl_device = device, pl_issued = isot now, pl_expires = expires, pl_revoked = None\<rparr> db))"

record token_view =
  tv_jti :: string
  tv_row :: playlist_row
  tv_revoked :: bool

definition view_of :: "string \<times> playlist_row \<Rightarrow> token_view" where
  "view_of p = \<lparr>tv_jti = fst p, tv_row = snd p, tv_revoked = (pl_revoked (snd p) \<noteq> None)\<rparr>"

datatype playlist_revocation = PvRevoked | PvNotFound | PvForbidden | PvAlreadyRevoked

definition unrevoked :: "(string \<Rightarrow> playlist_row \<Rightarrow> bool) \<Rightarrow> string \<Rightarrow> playlist_row \<Rightarrow> bool" where
  "unrevoked P k r \<longleftrightarrow> P k r \<and> pl_revoked r = None"

definition set_revoked :: "string \<Rightarrow> (string \<Rightarrow> playlist_row \<Rightarrow> bool) \<Rightarrow> playlist_db \<Rightarrow> playlist_db" where
  "set_revoked now P db = sql_update (unrevoked P) (\<lambda>r. r\<lparr>pl_revoked := Some now\<rparr>) db"

text \<open>\<open>revoke\<close>: the row as it was read, and the table the guarded update finds.\<close>

definition playlist_revoke ::
  "string \<Rightarrow> string \<Rightarrow> string \<Rightarrow> bool \<Rightarrow> playlist_row option \<Rightarrow> playlist_db \<Rightarrow> playlist_revocation \<times> playlist_db" where
  "playlist_revoke now jti sub is_admin row db =
     (case row of
        None \<Rightarrow> (PvNotFound, db)
      | Some r \<Rightarrow>
          if pl_sub r \<noteq> sub \<and> \<not> is_admin then (PvForbidden, db)
          else (if rows_affected (unrevoked (\<lambda>k _. k = jti)) db = 0 \<and> pl_revoked r \<noteq> None then PvAlreadyRevoked else PvRevoked,
                set_revoked now (\<lambda>k _. k = jti) db))"

definition playlist_revoke_all :: "string \<Rightarrow> string \<Rightarrow> playlist_db \<Rightarrow> nat \<times> playlist_db" where
  "playlist_revoke_all now sub db =
     (rows_affected (unrevoked (\<lambda>_ r. pl_sub r = sub)) db, set_revoked now (\<lambda>_ r. pl_sub r = sub) db)"

record refused =
  rf_error :: string
  rf_detail :: "string option"

definition playlist_authorize :: "token_lib \<Rightarrow> string \<Rightarrow> string \<Rightarrow> int \<Rightarrow> playlist_db \<Rightarrow> refused + string" where
  "playlist_authorize L secret token now db =
     (let invalid = (\<lambda>d. Inl \<lparr>rf_error = ''invalid_token'', rf_detail = Some d\<rparr>);
          refuse = (\<lambda>e. Inl \<lparr>rf_error = e, rf_detail = None\<rparr>)
      in case iptv_verify L secret token now of
           Inl d \<Rightarrow> invalid d
         | Inr c \<Rightarrow>
             if c_k c \<noteq> Playlist then invalid ''kind_mismatch''
             else if c_rid c \<noteq> playlist_rid then invalid ''resource_mismatch''
             else (case im_get db (c_jti c) of
               None \<Rightarrow> refuse ''token_not_found''
             | Some r \<Rightarrow> if pl_revoked r \<noteq> None then refuse ''token_revoked'' else Inr (c_sub c)))"

section \<open>The M3U\<close>

definition m3u_space :: "char \<Rightarrow> bool" where
  "m3u_space c \<longleftrightarrow> c = CHR 0x0D \<or> c = CHR 0x0A \<or> c = CHR 0x09"

fun collapse :: "bool \<Rightarrow> string \<Rightarrow> string" where
  "collapse in_ws [] = []"
| "collapse in_ws (c # s) =
     (if m3u_space c then (if in_ws then collapse True s else CHR '' '' # collapse True s)
      else (if c = CHR 0x22 then CHR 0x27 else c) # collapse False s)"

definition escape_m3u_attr :: "string \<Rightarrow> string" where
  "escape_m3u_attr v = str_trim (collapse False v)"

record m3u_row =
  mr_id :: int
  mr_name :: string
  mr_icon :: "string option"
  mr_epg :: "string option"
  mr_group :: "string option"

definition or_default :: "string \<Rightarrow> string option \<Rightarrow> string" where
  "or_default d v = (case v of None \<Rightarrow> d | Some s \<Rightarrow> s)"

definition attr_quoted :: "string \<Rightarrow> string" where
  "attr_quoted s = CHR 0x22 # s @ [CHR 0x22]"

definition extinf :: "m3u_row \<Rightarrow> string" where
  "extinf r =
     (let name = escape_m3u_attr (mr_name r) in
      ''#EXTINF:-1 tvg-id='' @ attr_quoted (escape_m3u_attr (or_default [] (mr_epg r)))
      @ '' tvg-name='' @ attr_quoted name
      @ '' tvg-logo='' @ attr_quoted (escape_m3u_attr (or_default [] (mr_icon r)))
      @ '' group-title='' @ attr_quoted (escape_m3u_attr (or_default ''Other'' (mr_group r))) @ '','' @ name)"

definition channel_url :: "token_lib \<Rightarrow> string \<Rightarrow> string \<Rightarrow> string \<Rightarrow> int \<Rightarrow> m3u_row \<Rightarrow> string \<Rightarrow> string" where
  "channel_url L secret sub base_url now r ulid =
     base_url @ ''/api/iptv/stream/live/'' @ dec_int (mr_id r) @ ''.ts?t=''
     @ iptv_sign L secret Live (dec_int (mr_id r)) sub channel_token_ttl_secs None ulid now"

definition newline :: string where "newline = [nl]"

fun build_m3u :: "token_lib \<Rightarrow> string \<Rightarrow> string \<Rightarrow> string \<Rightarrow> int \<Rightarrow> (m3u_row \<times> string) list \<Rightarrow> string" where
  "build_m3u L secret sub base_url now rows =
     ''#EXTM3U'' @ newline
     @ concat (map (\<lambda>(r, ulid). extinf r @ newline @ channel_url L secret sub base_url now r ulid @ newline) rows)"

section \<open>Where minted links point\<close>

definition first_value :: "string option \<Rightarrow> string" where
  "first_value v = (case v of None \<Rightarrow> [] | Some s \<Rightarrow> trim_by rust_space (hd (split_on (CHR '','') s)))"

definition after_colon :: "string \<Rightarrow> (string \<times> string) option" where
  "after_colon s =
     (case split_once (CHR '':'') (rev s) of None \<Rightarrow> None | Some (a, b) \<Rightarrow> Some (rev b, rev a))"

definition hostname_of :: "string \<Rightarrow> string" where
  "hostname_of host =
     (let lower = to_lower host in
      case after_colon lower of
        Some (h, port) \<Rightarrow> if port \<noteq> [] \<and> list_all is_digit port then h else lower
      | None \<Rightarrow> lower)"

definition is_allowed_public_host :: "(string \<Rightarrow> string option) \<Rightarrow> string \<Rightarrow> string list \<Rightarrow> bool" where
  "is_allowed_public_host origin_host host allowed_origins \<longleftrightarrow>
     list_ex (\<lambda>origin. case map_option to_lower (origin_host origin) of
          None \<Rightarrow> False
        | Some h \<Rightarrow> hostname_of host = h \<or> ends_with (''.'' @ h) (hostname_of host)) allowed_origins"

definition public_base_url ::
  "(string \<Rightarrow> string option) \<Rightarrow> (string \<Rightarrow> string option) \<Rightarrow> headers \<Rightarrow> string list \<Rightarrow> string" where
  "public_base_url origin_host origin_text h allowed_origins =
     (let header = (\<lambda>n. Option.bind (header_get h n) header_to_str);
          request_host = or_default ''localhost'' (header ''host'');
          forwarded = to_lower (first_value (header ''x-forwarded-proto''));
          proto = (if forwarded = ''http'' \<or> forwarded = ''https'' then forwarded else ''http'');
          host1 = first_value (header ''x-forwarded-host'');
          host2 = (if host1 = [] then first_value (header ''host'') else host1);
          host = (if host2 = [] \<or> list_ex (\<lambda>c. rust_space c \<or> c = CHR ''/'' \<or> c = CHR 0x5C) host2 then request_host else host2)
      in if allowed_origins = [] \<or> is_allowed_public_host origin_host host allowed_origins then proto @ ''://'' @ host
         else case List.map_filter origin_text allowed_origins of
           o1 # _ \<Rightarrow> o1
         | [] \<Rightarrow> proto @ ''://'' @ request_host)"


section \<open>Lifetime of a minted token\<close>

lemma minted_window:
  assumes "0 \<le> ttl" "ttl \<le> max_ttl_secs" "is_i64 (now + ttl)" "is_i64 now" "is_i64 (clock + 30)" "is_i64 (clock - 5)"
  shows "enforce_time_window (minted_claims k rid sub ttl jti now) clock =
    (if clock + 30 < now then Inl NotYetValid else if clock - 5 > now + ttl then Inl Expired else Inr ())"
  using assms by (simp add: enforce_time_window_def minted_claims_def wrap64_id nbf_skew_secs_def exp_skew_secs_def
      is_i64_def max_ttl_secs_def)

lemma minted_verify:
  assumes "b64_laws L" "json_reads L (minted_claims k rid sub ttl (case jti of None \<Rightarrow> ulid | Some j \<Rightarrow> j) now)"
    "0 \<le> ttl" "ttl \<le> max_ttl_secs" "is_i64 now" "is_i64 (now + ttl)" "is_i64 (clock + 30)" "is_i64 (clock - 5)"
  shows "iptv_verify L secret (iptv_sign L secret k rid sub ttl jti ulid now) clock =
    (if clock < now - 30 then Inl ''token_not_yet_valid''
     else if now + ttl + 5 < clock then Inl ''expired_token''
     else Inr (minted_claims k rid sub ttl (case jti of None \<Rightarrow> ulid | Some j \<Rightarrow> j) now))"
proof -
  let ?c = "minted_claims k rid sub ttl (case jti of None \<Rightarrow> ulid | Some j \<Rightarrow> j) now"
  have "wf_claims ?c" using assms(5,6) by (simp add: wf_claims_def minted_claims_def wrap64_id)
  with assms(1,2) have "verify L secret (iptv_sign L secret k rid sub ttl jti ulid now) = Inr ?c"
    by (simp add: iptv_sign_def verify_Inr split_token_sign parse_canonical_claims)
  moreover have "enforce_time_window ?c clock =
      (if clock + 30 < now then Inl NotYetValid else if clock - 5 > now + ttl then Inl Expired else Inr ())"
    by (rule minted_window [OF assms(3,4,6,5,7,8)])
  ultimately show ?thesis by (auto simp: iptv_verify_def err_as_def legacy_def)
qed

text \<open>
  A link lives from 30 seconds before it is minted until 5 seconds after its lifetime ends: at every
  clock reading in between, the token a service signs verifies to exactly the claims it was minted with,
  before that it is not yet valid, after that it is expired, and nothing else is ever answered.
\<close>

theorem minted_token_lifetime:
  assumes "b64_laws L" "json_reads L (minted_claims k rid sub ttl (case jti of None \<Rightarrow> ulid | Some j \<Rightarrow> j) now)"
    "0 \<le> ttl" "ttl \<le> max_ttl_secs" "is_i64 now" "is_i64 (now + ttl)" "is_i64 (clock + 30)" "is_i64 (clock - 5)"
  shows "iptv_verify L secret (iptv_sign L secret k rid sub ttl jti ulid now) clock =
    (if clock < now - 30 then Inl ''token_not_yet_valid''
     else if now + ttl + 5 < clock then Inl ''expired_token''
     else Inr (minted_claims k rid sub ttl (case jti of None \<Rightarrow> ulid | Some j \<Rightarrow> j) now))"
  by (rule minted_verify [OF assms])

definition demo_link_lib :: token_lib where
  "demo_link_lib = demo_lib\<lparr>json_parse := (\<lambda>t. Some (claims_json (minted_claims Live ''7'' ''plex:3'' 300 ''u'' 1000)))\<rparr>"

lemma minted_token_lifetime_witness:
  "iptv_verify demo_link_lib ''key'' (iptv_sign demo_link_lib ''key'' Live ''7'' ''plex:3'' 300 None ''u'' 1000) 1305
     = Inr (minted_claims Live ''7'' ''plex:3'' 300 ''u'' 1000)
   \<and> iptv_verify demo_link_lib ''key'' (iptv_sign demo_link_lib ''key'' Live ''7'' ''plex:3'' 300 None ''u'' 1000) 1306
     = Inl ''expired_token''"
proof -
  have b: "b64_laws demo_link_lib" using demo_b64_laws by (simp add: b64_laws_def demo_link_lib_def)
  have j: "json_reads demo_link_lib (minted_claims Live ''7'' ''plex:3'' 300 (case None of None \<Rightarrow> ''u'' | Some j \<Rightarrow> j) 1000)"
    by (simp add: json_reads_def demo_link_lib_def)
  show ?thesis
    using minted_token_lifetime [OF b j, of 1305 "''key''"] minted_token_lifetime [OF b j, of 1306 "''key''"]
    by (simp add: max_ttl_secs_def is_i64_def)
qed

section \<open>Revocation\<close>

datatype playlist_event =
  PMint string "string option" string string int
| PRevoke string string string bool "playlist_row option"
| PRevokeAll string string

fun playlist_step :: "token_lib \<Rightarrow> (int \<Rightarrow> string) \<Rightarrow> string \<Rightarrow> playlist_db \<Rightarrow> playlist_event \<Rightarrow> playlist_db" where
  "playlist_step L isot secret db (PMint sub device base jti now) = snd (playlist_mint L isot secret sub device base jti now db)"
| "playlist_step L isot secret db (PRevoke now jti sub adm row) = snd (playlist_revoke now jti sub adm row db)"
| "playlist_step L isot secret db (PRevokeAll now sub) = snd (playlist_revoke_all now sub db)"

abbreviation playlist_run :: "token_lib \<Rightarrow> (int \<Rightarrow> string) \<Rightarrow> string \<Rightarrow> playlist_event list \<Rightarrow> playlist_db \<Rightarrow> playlist_db" where
  "playlist_run L isot secret evs db \<equiv> foldl (playlist_step L isot secret) db evs"

definition token_dead :: "string \<Rightarrow> playlist_db \<Rightarrow> bool" where
  "token_dead jti db \<longleftrightarrow> (case im_get db jti of None \<Rightarrow> False | Some r \<Rightarrow> pl_revoked r \<noteq> None)"

lemma token_dead_set: "token_dead j (set_revoked now P db)
    \<longleftrightarrow> (case im_get db j of None \<Rightarrow> False | Some r \<Rightarrow> P j r \<or> pl_revoked r \<noteq> None)"
  by (auto simp: token_dead_def set_revoked_def unrevoked_def split: option.split)

lemma token_dead_kept: "token_dead j db \<Longrightarrow> token_dead j (set_revoked now P db)"
  unfolding token_dead_set by (auto simp: token_dead_def split: option.splits)

lemma token_dead_step: "token_dead j db \<Longrightarrow> token_dead j (playlist_step L isot secret db e)"
proof (cases e)
  case (PMint sub device base jti now)
  assume "token_dead j db"
  then show ?thesis using PMint
    by (cases "j = jti"; cases "im_get db jti") (auto simp: playlist_mint_def token_dead_def Let_def update_conv')
qed (auto simp: playlist_revoke_def playlist_revoke_all_def token_dead_kept split: option.split)

lemma token_dead_run: "token_dead j db \<Longrightarrow> token_dead j (playlist_run L isot secret evs db)"
  by (induction evs arbitrary: db) (simp_all add: token_dead_step)

lemma token_dead_refused:
  assumes "token_dead j db" "iptv_verify L secret token now = Inr c" "c_jti c = j"
  shows "\<exists>e. playlist_authorize L secret token now db = Inl e"
  using assms by (auto simp: playlist_authorize_def token_dead_def Let_def split: option.splits)

text \<open>
  A revoked playlist link is dead for good: once a revocation of a token has been answered as done (or as
  done before), or its member has been cut off, no presentation of a token with that id is authorized, at
  any time and after whatever mints and revocations follow; and what is authorized is always a playlist
  token with a row of its own that is not revoked.
\<close>

theorem revoked_playlist_refused:
  assumes "(fst (playlist_revoke now jti sub adm (im_get db jti) db) \<in> {PvRevoked, PvAlreadyRevoked}
        \<and> db1 = snd (playlist_revoke now jti sub adm (im_get db jti) db))
      \<or> (map_option pl_sub (im_get db jti) = Some sub \<and> db1 = snd (playlist_revoke_all now sub db))"
  shows "(case iptv_verify L secret token clock of
      Inl _ \<Rightarrow> isl (playlist_authorize L secret token clock (playlist_run L isot secret evs db1))
    | Inr c \<Rightarrow> if c_jti c = jti \<or> c_k c \<noteq> Playlist \<or> c_rid c \<noteq> playlist_rid
        \<or> im_get (playlist_run L isot secret evs db1) (c_jti c) = None
        then isl (playlist_authorize L secret token clock (playlist_run L isot secret evs db1))
        else token_dead (c_jti c) (playlist_run L isot secret evs db1)
          \<or> playlist_authorize L secret token clock (playlist_run L isot secret evs db1) = Inr (c_sub c))"
proof -
  let ?db = "playlist_run L isot secret evs db1"
  have "token_dead jti db1" using assms
    by (auto simp: playlist_revoke_def playlist_revoke_all_def token_dead_set split: option.splits if_splits)
  then have dead: "token_dead jti ?db" by (rule token_dead_run)
  show ?thesis
  proof (cases "iptv_verify L secret token clock")
    case (Inr c)
    have "isl (playlist_authorize L secret token clock ?db)" if "c_jti c = jti"
      using token_dead_refused [OF dead Inr that] by auto
    then show ?thesis using Inr by (auto simp: playlist_authorize_def token_dead_def Let_def split: option.split)
  qed (simp add: playlist_authorize_def Let_def)
qed

definition demo_playlist_lib :: token_lib where
  "demo_playlist_lib = demo_lib\<lparr>json_parse :=
     (\<lambda>t. Some (claims_json (minted_claims Playlist playlist_rid ''plex:3'' playlist_ttl_secs ''u'' 1000)))\<rparr>"

definition demo_playlist_token :: string where
  "demo_playlist_token = iptv_sign demo_playlist_lib ''key'' Playlist playlist_rid ''plex:3'' playlist_ttl_secs (Some ''u'') [] 1000"

definition demo_playlists :: playlist_db where
  "demo_playlists = [(''u'', \<lparr>pl_sub = ''plex:3'', pl_device = None, pl_issued = [], pl_expires = [], pl_revoked = None\<rparr>)]"

lemma revoked_playlist_refused_witness:
  "playlist_authorize demo_playlist_lib ''key'' demo_playlist_token 2000 demo_playlists = Inr ''plex:3''
   \<and> isl (playlist_authorize demo_playlist_lib ''key'' demo_playlist_token 2000
       (snd (playlist_revoke ''t'' ''u'' ''plex:3'' False (im_get demo_playlists ''u'') demo_playlists)))"
proof -
  let ?c = "minted_claims Playlist playlist_rid ''plex:3'' playlist_ttl_secs ''u'' 1000"
  have b: "b64_laws demo_playlist_lib" using demo_b64_laws by (simp add: b64_laws_def demo_playlist_lib_def)
  have j: "json_reads demo_playlist_lib (minted_claims Playlist playlist_rid ''plex:3'' playlist_ttl_secs
      (case Some ''u'' of None \<Rightarrow> [] | Some j \<Rightarrow> j) 1000)"
    by (simp add: json_reads_def demo_playlist_lib_def)
  have v: "iptv_verify demo_playlist_lib ''key'' demo_playlist_token 2000 = Inr ?c"
    using minted_verify [OF b j, of 2000 "''key''"]
    by (simp add: demo_playlist_token_def max_ttl_secs_def is_i64_def playlist_ttl_secs_def)
  have r: "fst (playlist_revoke ''t'' ''u'' ''plex:3'' False (im_get demo_playlists ''u'') demo_playlists) \<in> {PvRevoked, PvAlreadyRevoked}"
    by code_simp
  have "isl (playlist_authorize demo_playlist_lib ''key'' demo_playlist_token 2000
       (playlist_run demo_playlist_lib (\<lambda>_. []) ''key'' [] (snd (playlist_revoke ''t'' ''u'' ''plex:3'' False (im_get demo_playlists ''u'') demo_playlists))))"
    using revoked_playlist_refused [OF disjI1 [OF conjI [OF r refl]], of demo_playlist_lib "''key''" demo_playlist_token 2000 "\<lambda>_. []" "[]"]
    by (simp add: v minted_claims_def)
  moreover have "playlist_authorize demo_playlist_lib ''key'' demo_playlist_token 2000 demo_playlists = Inr ''plex:3''"
    unfolding playlist_authorize_def v by (simp add: minted_claims_def demo_playlists_def)
  ultimately show ?thesis by simp
qed

section \<open>The M3U cannot be broken by a name\<close>

lemma utf8_chars_concat: "concat (utf8_chars s) = s"
  by (induction s rule: utf8_chars.induct) simp_all

lemma set_dropWhile_concat: "set (concat (rev (dropWhile p (rev (dropWhile q cs))))) \<subseteq> set (concat cs)"
  by (auto dest!: set_dropWhileD)

lemma str_trim_subset: "set (str_trim s) \<subseteq> set s"
  unfolding str_trim_def using set_dropWhile_concat [of unicode_space unicode_space "utf8_chars s"]
  by (simp only: utf8_chars_concat)

lemma collapse_clean: "c \<in> set (collapse b s) \<Longrightarrow> \<not> m3u_space c \<and> c \<noteq> CHR 0x22"
  by (induction b s rule: collapse.induct) (auto simp: m3u_space_def split: if_splits)

lemma escape_clean: "c \<in> set (escape_m3u_attr v) \<Longrightarrow> c \<noteq> CHR 0x0D \<and> c \<noteq> nl \<and> c \<noteq> CHR 0x09 \<and> c \<noteq> CHR 0x22"
  using collapse_clean str_trim_subset unfolding escape_m3u_attr_def m3u_space_def nl_def by blast

lemma extinf_clean: "CHR 0x0D \<notin> set (extinf r)" "nl \<notin> set (extinf r)" "CHR 0x09 \<notin> set (extinf r)"
  using escape_clean by (auto simp: extinf_def Let_def attr_quoted_def) (auto simp: nl_def)

lemma count_free: "CHR 0x22 \<notin> set s \<Longrightarrow> count_list s (CHR 0x22) = 0"
  by (simp add: count_list_0_iff)

lemma extinf_quotes: "count_list (extinf r) (CHR 0x22) = 8"
proof -
  have "count_list (escape_m3u_attr v) (CHR 0x22) = 0" for v using escape_clean by (intro count_free) blast
  then show ?thesis by (simp add: extinf_def Let_def attr_quoted_def)
qed

text \<open>
  No provider text can break the playlist: whatever the channel names, logos, guide ids and group names
  hold, the M3U is its header followed, for every channel of the query and nothing else, by one
  \<open>#EXTINF\<close> line, free of carriage returns and tabs and with exactly the eight quotes of its four attributes, and
  one line with the channel's URL.
\<close>

theorem m3u_lines:
  assumes "\<forall>x. nl \<notin> set (b64_encode L x)" "nl \<notin> set base_url"
  shows "split_on nl (build_m3u L secret sub base_url now rows)
      = ''#EXTM3U'' # concat (map (\<lambda>(r, ulid). [extinf r, channel_url L secret sub base_url now r ulid]) rows) @ [[]]
    \<and> list_all (\<lambda>(r, _). starts_with ''#EXTINF:-1 '' (extinf r) \<and> CHR 0x0D \<notin> set (extinf r) \<and> CHR 0x09 \<notin> set (extinf r)
        \<and> count_list (extinf r) (CHR 0x22) = 8) rows"
proof
  have digits: "nl \<notin> set (dec_int i)" for i
    using dec_int_chars [of nl i] by (auto simp: is_digit_def nl_def)
  have url: "nl \<notin> set (channel_url L secret sub base_url now r ulid)" for r ulid
    using assms digits by (auto simp: channel_url_def iptv_sign_def sign_def Let_def nl_def)
  have rows: "split_on nl (concat (map (\<lambda>(r, ulid). extinf r @ newline @ channel_url L secret sub base_url now r ulid @ newline) rs))
      = concat (map (\<lambda>(r, ulid). [extinf r, channel_url L secret sub base_url now r ulid]) rs) @ [[]]" for rs
  proof (induction rs)
    case (Cons p rs)
    then show ?case using url extinf_clean(2) by (cases p) (simp add: newline_def split_on_append)
  qed simp
  have "nl \<notin> set ''#EXTM3U''" by (simp add: nl_def)
  from split_on_append [OF this] show "split_on nl (build_m3u L secret sub base_url now rows)
      = ''#EXTM3U'' # concat (map (\<lambda>(r, ulid). [extinf r, channel_url L secret sub base_url now r ulid]) rows) @ [[]]"
    using rows [of rows] by (simp add: newline_def)
  show "list_all (\<lambda>(r, _). starts_with ''#EXTINF:-1 '' (extinf r) \<and> CHR 0x0D \<notin> set (extinf r) \<and> CHR 0x09 \<notin> set (extinf r)
        \<and> count_list (extinf r) (CHR 0x22) = 8) rows"
    using extinf_clean(1,3) extinf_quotes by (auto simp: list_all_iff extinf_def Let_def starts_with_def)
qed

definition demo_rows :: "(m3u_row \<times> string) list" where
  "demo_rows = [(\<lparr>mr_id = 7, mr_name = ''News'' @ [nl] @ ''http://evil/'', mr_icon = Some (''x'' @ [CHR 0x22] @ '',y''), mr_epg = None,
      mr_group = None\<rparr>, ''u'')]"

lemma m3u_lines_witness:
  "length (split_on nl (build_m3u demo_lib ''key'' ''plex:3'' ''http://h'' 1000 demo_rows)) = 4
   \<and> list_all (\<lambda>(r, _). starts_with ''#EXTINF:-1 '' (extinf r) \<and> CHR 0x0D \<notin> set (extinf r) \<and> CHR 0x09 \<notin> set (extinf r)
        \<and> count_list (extinf r) (CHR 0x22) = 8) demo_rows"
proof -
  have "hex_char d \<noteq> nl" if "d < 16" for d
  proof -
    have "\<forall>d\<in>set [0..<16]. hex_char d \<noteq> nl" by code_simp
    then show ?thesis using that by simp
  qed
  then have "nl \<notin> set (hex_encode x)" for x
    using of_char_nibble by (auto simp: hex_encode_def eq_commute [of nl])
  then have b: "\<forall>x. nl \<notin> set (b64_encode demo_lib x)" by (simp add: demo_lib_def)
  have h: "nl \<notin> set ''http://h''" by (simp add: nl_def)
  show ?thesis using m3u_lines [OF b h, of "''key''" "''plex:3''" 1000 demo_rows] by (simp add: demo_rows_def)
qed

section \<open>A host that is not one\<close>

text \<open>
  The host test looks at the end of the text only, and of the characters that end a URL's authority just
  the slashes are refused: a forwarded host with a question mark or a number sign passes as a subdomain of
  an allowed origin, and the minted URL points at what is in front of it.
\<close>

lemma forged_host_passes:
  "is_allowed_public_host (\<lambda>_. Some ''media.example'') ''evil.test?.media.example'' [''https://media.example'']
   \<and> public_base_url (\<lambda>_. Some ''media.example'') (\<lambda>o1. Some o1)
       [(''x-forwarded-proto'', ''https''), (''x-forwarded-host'', ''evil.test?.media.example'')] [''https://media.example'']
     = ''https://evil.test?.media.example''"
  by code_simp

end
