(* ===== verification/Ssrf.thy ===== *)
theory Ssrf
  imports Utf8 "HOL-Library.Word"
begin

unbundle bit_operations_syntax

text \<open>
  Which addresses the services dial: \<open>crates/media-core/src/ssrf_guard.rs\<close>, \<open>fetch_guarded\<close> of
  \<open>crates/iptv/src/xtream.rs\<close> and \<open>crates/iptv/src/egress.rs\<close>.  The URL type and its parser are the
  \<open>url\<close> crate's: a parsed URL is the record of what the code asks of it, parsing and joining are
  arguments, and so are the resolver's and the upstreams' answers, one per hop.  \<open>IpAddr::from_str\<close>
  is the standard library's and is written out.
\<close>

section \<open>Addresses\<close>

datatype ip_addr = V4 nat nat nat nat | V6 "16 word list"

text \<open>\<open>Parser::read_number\<close>: at most so many digits of the radix, no leading zero unless allowed.\<close>

definition digit_in :: "nat \<Rightarrow> char \<Rightarrow> nat option" where
  "digit_in radix c =
     (let b = of_char c :: nat;
          d = (if 48 \<le> b \<and> b \<le> 57 then b - 48 else if 97 \<le> b \<and> b \<le> 102 then b - 87
               else if 65 \<le> b \<and> b \<le> 70 then b - 55 else 16)
      in if d < radix then Some d else None)"

definition read_number :: "nat \<Rightarrow> nat \<Rightarrow> bool \<Rightarrow> nat \<Rightarrow> string \<Rightarrow> (nat \<times> string) option" where
  "read_number radix digits zeros bound s =
     (let ds = takeWhile (\<lambda>c. digit_in radix c \<noteq> None) s;
          n = foldl (\<lambda>a c. radix * a + the (digit_in radix c)) 0 ds
      in if ds = [] \<or> length ds > digits \<or> (\<not> zeros \<and> hd ds = CHR ''0'' \<and> length ds > 1) \<or> bound \<le> n then None
         else Some (n, drop (length ds) s))"

definition read_separator :: "char \<Rightarrow> nat \<Rightarrow> (string \<Rightarrow> ('a \<times> string) option) \<Rightarrow> string \<Rightarrow> ('a \<times> string) option" where
  "read_separator sep i inner s =
     (if i = 0 then inner s else case s of [] \<Rightarrow> None | c # r \<Rightarrow> if c = sep then inner r else None)"

definition read_octet :: "nat \<Rightarrow> string \<Rightarrow> (nat \<times> string) option" where
  "read_octet i = read_separator (CHR ''.'') i (read_number 10 3 False 256)"

definition read_ipv4 :: "string \<Rightarrow> ((nat \<times> nat \<times> nat \<times> nat) \<times> string) option" where
  "read_ipv4 s =
     Option.bind (read_octet 0 s) (\<lambda>(a, s). Option.bind (read_octet 1 s) (\<lambda>(b, s).
     Option.bind (read_octet 2 s) (\<lambda>(c, s). Option.bind (read_octet 3 s) (\<lambda>(d, s). Some ((a, b, c, d), s)))))"

text \<open>
  \<open>read_groups\<close> at index \<open>i\<close> with so many groups left: the last two may be a dotted IPv4 address.
\<close>

fun read_groups :: "nat \<Rightarrow> nat \<Rightarrow> string \<Rightarrow> (16 word list \<times> bool) \<times> string" where
  "read_groups 0 i s = (([], False), s)"
| "read_groups (Suc left) i s =
     (case (if left > 0 then read_separator (CHR '':'') i read_ipv4 s else None) of
        Some ((a, b, c, d), r) \<Rightarrow> (([of_nat (256 * a + b), of_nat (256 * c + d)], True), r)
      | None \<Rightarrow>
          (case read_separator (CHR '':'') i (read_number 16 4 True 65536) s of
             None \<Rightarrow> (([], False), s)
           | Some (g, r) \<Rightarrow> (case read_groups left (i + 1) r of ((gs, q), r') \<Rightarrow> ((of_nat g # gs, q), r'))))"

definition read_ipv6 :: "string \<Rightarrow> (16 word list \<times> string) option" where
  "read_ipv6 s =
     (case read_groups 8 0 s of
        ((head, v4), r) \<Rightarrow>
          if length head = 8 then Some (head, r)
          else if v4 then None
          else case strip_prefix ''::'' r of
            None \<Rightarrow> None
          | Some r' \<Rightarrow>
              (case read_groups (8 - (length head + 1)) 0 r' of
                 ((tail, _), r'') \<Rightarrow> Some (head @ replicate (8 - length head - length tail) 0 @ tail, r'')))"

definition ip_from_str :: "string \<Rightarrow> ip_addr option" where
  "ip_from_str s =
     (case read_ipv4 s of
        Some ((a, b, c, d), r) \<Rightarrow> if r = [] then Some (V4 a b c d) else None
      | None \<Rightarrow>
          (case read_ipv6 s of
             Some (gs, r) \<Rightarrow> if r = [] then Some (V6 gs) else None
           | None \<Rightarrow> None))"

section \<open>Private ranges\<close>

definition is_private_v4 :: "nat \<Rightarrow> nat \<Rightarrow> nat \<Rightarrow> bool" where
  "is_private_v4 a b c \<longleftrightarrow>
     a = 10 \<or> a = 127 \<or> a = 0 \<or> (a = 169 \<and> b = 254) \<or> (a = 172 \<and> 16 \<le> b \<and> b \<le> 31) \<or> (a = 192 \<and> b = 168)
     \<or> (a = 192 \<and> b = 0 \<and> c = 0) \<or> (a = 192 \<and> b = 88 \<and> c = 99) \<or> (a = 198 \<and> (b = 18 \<or> b = 19))
     \<or> (a = 100 \<and> 64 \<le> b \<and> b \<le> 127) \<or> (224 \<le> a \<and> a \<le> 255)"

text \<open>\<open>Ipv6Addr::to_ipv4\<close>: the mapped and the compatible forms.\<close>

definition to_ipv4 :: "16 word list \<Rightarrow> (nat \<times> nat \<times> nat \<times> nat) option" where
  "to_ipv4 g =
     (if take 5 g = replicate 5 0 \<and> (g ! 5 = 0 \<or> g ! 5 = 0xFFFF)
      then Some (unat (g ! 6) div 256, unat (g ! 6) mod 256, unat (g ! 7) div 256, unat (g ! 7) mod 256)
      else None)"

definition is_private_v6 :: "16 word list \<Rightarrow> bool" where
  "is_private_v6 g \<longleftrightarrow>
     g = replicate 7 0 @ [1] \<or> g = replicate 8 0
     \<or> (case to_ipv4 g of
          Some (a, b, c, d) \<Rightarrow> is_private_v4 a b c
        | None \<Rightarrow> g ! 0 AND 0xFE00 = 0xFC00 \<or> g ! 0 AND 0xFFC0 = 0xFE80 \<or> g ! 0 AND 0xFFC0 = 0xFEC0
                  \<or> (g ! 0 = 0x0064 \<and> g ! 1 = 0xFF9B))"

fun is_private_ip :: "ip_addr \<Rightarrow> bool" where
  "is_private_ip (V4 a b c d) = is_private_v4 a b c"
| "is_private_ip (V6 g) = is_private_v6 g"

section \<open>The guard\<close>

record url =
  ur_scheme :: string
  ur_host :: "string option"
  ur_port :: "nat option"
  ur_known_port :: "nat option"
  ur_path :: string
  ur_query :: "string option"

type_synonym resolver = "string \<Rightarrow> nat \<Rightarrow> ip_addr list option"

definition is_internal_hostname :: "string \<Rightarrow> bool" where
  "is_internal_hostname host \<longleftrightarrow>
     (let h = to_lower (rev (dropWhile ((=) (CHR ''.'')) (rev host))) in
      h = [] \<or> h = ''localhost'' \<or> CHR ''.'' \<notin> set h \<or> ends_with ''.local'' h \<or> ends_with ''.internal'' h)"

definition bare_host :: "string \<Rightarrow> string" where
  "bare_host host =
     (case strip_prefix ''['' host of
        None \<Rightarrow> host
      | Some h \<Rightarrow> if ends_with '']'' h then butlast h else host)"

datatype guard_error =
  NotHttp | NoHost | PrivateLiteral string | InternalName string | DnsFailed string | NoRecords string
| ResolvesPrivate string ip_addr

definition known_port :: "url \<Rightarrow> nat" where
  "known_port u = (case ur_known_port u of None \<Rightarrow> 80 | Some p \<Rightarrow> p)"

definition guard_url :: "resolver \<Rightarrow> url \<Rightarrow> guard_error + unit" where
  "guard_url dns u =
     (if ur_scheme u \<noteq> ''http'' \<and> ur_scheme u \<noteq> ''https'' then Inl NotHttp
      else case ur_host u of
        None \<Rightarrow> Inl NoHost
      | Some host \<Rightarrow>
          (let bare = bare_host host in
           case ip_from_str bare of
             Some ip \<Rightarrow> if is_private_ip ip then Inl (PrivateLiteral bare) else Inr ()
           | None \<Rightarrow>
               if is_internal_hostname bare then Inl (InternalName bare)
               else case dns bare (known_port u) of
                 None \<Rightarrow> Inl (DnsFailed bare)
               | Some addrs \<Rightarrow>
                   if addrs = [] then Inl (NoRecords bare)
                   else (case find is_private_ip addrs of
                     Some ip \<Rightarrow> Inl (ResolvesPrivate bare ip)
                   | None \<Rightarrow> Inr ())))"

section \<open>Fetching with the redirects driven by hand\<close>

definition max_redirects :: nat where "max_redirects = 5"

record response =
  rs_status :: nat
  rs_location :: "string option"
  rs_length :: "nat option"
  rs_type :: "string option"
  rs_headers :: "(string \<times> string) list"
  rs_body :: "string option list"

record net =
  nt_parse :: "string \<Rightarrow> url option"
  nt_join :: "url \<Rightarrow> string \<Rightarrow> url option"
  nt_dns :: "nat \<Rightarrow> resolver"
  nt_send :: "nat \<Rightarrow> url \<Rightarrow> string option \<Rightarrow> response option"

datatype fetch_error = FeBlocked guard_error | FeFailed | FeBadRedirect | FeTooManyRedirects

fun is_blocked :: "fetch_error \<Rightarrow> bool" where
  "is_blocked (FeBlocked _) = True"
| "is_blocked FeTooManyRedirects = True"
| "is_blocked _ = False"

definition is_redirection :: "nat \<Rightarrow> bool" where
  "is_redirection s \<longleftrightarrow> 300 \<le> s \<and> s < 400"

definition location_of :: "response \<Rightarrow> string option" where
  "location_of r = (if is_redirection (rs_status r) then Option.bind (rs_location r) header_to_str else None)"

text \<open>The hops still allowed; the answer comes with the URLs that were dialed.\<close>

fun fetch_hops :: "net \<Rightarrow> string option \<Rightarrow> bool \<Rightarrow> nat list \<Rightarrow> url \<Rightarrow> (fetch_error + url \<times> response) \<times> (nat \<times> url) list" where
  "fetch_hops N rng guard_first [] u = (Inl FeTooManyRedirects, [])"
| "fetch_hops N rng guard_first (hop # hops) u =
     (case (if hop > 0 \<or> guard_first then guard_url (nt_dns N hop) u else Inr ()) of
        Inl e \<Rightarrow> (Inl (FeBlocked e), [])
      | Inr _ \<Rightarrow>
          (case nt_send N hop u rng of
             None \<Rightarrow> (Inl FeFailed, [(hop, u)])
           | Some r \<Rightarrow>
               (case location_of r of
                  None \<Rightarrow> (Inr (u, r), [(hop, u)])
                | Some loc \<Rightarrow>
                    (case nt_join N u loc of
                       None \<Rightarrow> (Inl FeBadRedirect, [(hop, u)])
                     | Some u' \<Rightarrow> map_prod id ((#) (hop, u)) (fetch_hops N rng guard_first hops u')))))"

definition fetch_guarded :: "net \<Rightarrow> url \<Rightarrow> string option \<Rightarrow> bool \<Rightarrow> (fetch_error + url \<times> response) \<times> (nat \<times> url) list" where
  "fetch_guarded N u rng guard_first = fetch_hops N rng guard_first [0..<max_redirects + 1] u"

section \<open>The egress proxy of ffmpeg\<close>

definition max_head :: nat where "max_head = 16 * 1024"

definition head_end :: string where
  "head_end = [CHR 0x0D, CHR 0x0A, CHR 0x0D, CHR 0x0A]"

text \<open>One element per read; an empty one is the end of the stream, a failed read is \<open>None\<close>.\<close>

fun read_head :: "string \<Rightarrow> string option list \<Rightarrow> (string \<times> string) option" where
  "read_head buf [] = None"
| "read_head buf (None # rs) = None"
| "read_head buf (Some chunk # rs) =
     (if chunk = [] then None
      else let b = buf @ chunk in
        case cut_at head_end b of
          Some (h, rest) \<Rightarrow> if utf8_ok h then Some (h, rest) else None
        | None \<Rightarrow> if length b > max_head then None else read_head b rs)"

definition authority :: "url \<Rightarrow> string" where
  "authority u =
     (case (ur_host u, ur_port u) of
        (Some h, Some p) \<Rightarrow> h @ '':'' @ dec_nat p
      | (Some h, None) \<Rightarrow> h
      | _ \<Rightarrow> [])"

definition allowed :: "resolver \<Rightarrow> url \<Rightarrow> string option \<Rightarrow> bool" where
  "allowed dns u trusted \<longleftrightarrow> trusted = Some (authority u) \<or> guard_url dns u = Inr ()"

definition crlf :: string where "crlf = [CHR 0x0D, CHR 0x0A]"

definition nth_word :: "string list \<Rightarrow> nat \<Rightarrow> string" where
  "nth_word ws i = (if i < length ws then ws ! i else [])"

definition header_name :: "string \<Rightarrow> string" where
  "header_name line = to_lower (str_trim (hd (split_on (CHR '':'') line)))"

definition kept_header :: "string \<Rightarrow> bool" where
  "kept_header line \<longleftrightarrow> header_name line \<notin> {''proxy-connection'', ''proxy-authorization'', ''connection''}"

definition origin_head :: "string \<Rightarrow> url \<Rightarrow> string list \<Rightarrow> string" where
  "origin_head method u lines =
     method @ '' '' @ ur_path u @ (case ur_query u of None \<Rightarrow> [] | Some q \<Rightarrow> ''?'' @ q) @ '' HTTP/1.1'' @ crlf
     @ concat (map (\<lambda>l. if kept_header l then l @ crlf else []) (filter (\<lambda>l. l \<noteq> []) lines))
     @ ''Connection: close'' @ crlf @ crlf"

datatype egress_reply =
  EgBadRequest
| EgForbidden
| EgTunnel url
| EgForward url string

definition egress_handle :: "net \<Rightarrow> string option \<Rightarrow> string option list \<Rightarrow> egress_reply \<times> string" where
  "egress_handle N trusted reads =
     (case read_head [] reads of
        None \<Rightarrow> (EgBadRequest, [])
      | Some (h, rest) \<Rightarrow>
          (let lines = split_crlf h;
               ws = split_on (CHR '' '') (hd lines);
               method = nth_word ws 0; target = nth_word ws 1;
               connect = eq_ci method ''CONNECT''
           in case nt_parse N (if connect then ''https://'' @ target else target) of
                None \<Rightarrow> (EgBadRequest, [])
              | Some u \<Rightarrow>
                  if (\<not> connect \<and> ur_scheme u \<noteq> ''http'') \<or> \<not> allowed (nt_dns N 0) u trusted
                  then (EgForbidden, [])
                  else (if connect then EgTunnel u else EgForward u (origin_head method u (tl lines)), rest)))"


section \<open>The ranges as CIDR blocks\<close>

text \<open>A CIDR block is its first address and its prefix length, over addresses of so many bits.\<close>

definition in_net :: "nat \<Rightarrow> nat \<Rightarrow> nat \<times> nat \<Rightarrow> bool" where
  "in_net bits n block \<longleftrightarrow> n div 2 ^ (bits - snd block) = fst block div 2 ^ (bits - snd block)"

definition v4_num :: "nat \<Rightarrow> nat \<Rightarrow> nat \<Rightarrow> nat \<Rightarrow> nat" where
  "v4_num a b c d = 16777216 * a + 65536 * b + 256 * c + d"

definition reserved_v4 :: "(nat \<times> nat) list" where
  "reserved_v4 =
     [(v4_num 10 0 0 0, 8), (v4_num 127 0 0 0, 8), (v4_num 0 0 0 0, 8), (v4_num 169 254 0 0, 16),
      (v4_num 172 16 0 0, 12), (v4_num 192 168 0 0, 16), (v4_num 192 0 0 0, 24), (v4_num 192 88 99 0, 24),
      (v4_num 198 18 0 0, 15), (v4_num 100 64 0 0, 10), (v4_num 224 0 0 0, 4), (v4_num 240 0 0 0, 4)]"

lemma v4_prefixes:
  assumes "a < 256" "b < 256" "c < 256" "d < (256 :: nat)"
  shows "v4_num a b c d div 268435456 = a div 16" "v4_num a b c d div 16777216 = a"
    "v4_num a b c d div 4194304 = 4 * a + b div 64" "v4_num a b c d div 1048576 = 16 * a + b div 16"
    "v4_num a b c d div 131072 = 128 * a + b div 2" "v4_num a b c d div 65536 = 256 * a + b"
    "v4_num a b c d div 256 = 65536 * a + 256 * b + c"
proof -
  have d: "v4_num a b c d div 256 = 65536 * a + 256 * b + c" using assms by (simp add: v4_num_def)
  then show "v4_num a b c d div 256 = 65536 * a + 256 * b + c" .
  have "v4_num a b c d div 65536 = v4_num a b c d div 256 div 256" by (simp add: div_mult2_eq)
  then show c: "v4_num a b c d div 65536 = 256 * a + b" using assms by (simp add: d)
  have "v4_num a b c d div 131072 = v4_num a b c d div 65536 div 2" by (simp add: div_mult2_eq)
  then show "v4_num a b c d div 131072 = 128 * a + b div 2" by (simp add: c)
  have "v4_num a b c d div 1048576 = v4_num a b c d div 65536 div 16" by (simp add: div_mult2_eq)
  then show "v4_num a b c d div 1048576 = 16 * a + b div 16" by (simp add: c)
  have "v4_num a b c d div 4194304 = v4_num a b c d div 65536 div 64" by (simp add: div_mult2_eq)
  then show "v4_num a b c d div 4194304 = 4 * a + b div 64" by (simp add: c)
  have "v4_num a b c d div 16777216 = v4_num a b c d div 65536 div 256" by (simp add: div_mult2_eq)
  then show a: "v4_num a b c d div 16777216 = a" using assms by (simp add: c)
  have "v4_num a b c d div 268435456 = v4_num a b c d div 16777216 div 16" by (simp add: div_mult2_eq)
  then show "v4_num a b c d div 268435456 = a div 16" by (simp add: a)
qed

lemma div_between: "0 < n \<Longrightarrow> b div n = q \<longleftrightarrow> n * q \<le> b \<and> b < n * Suc q" for b :: nat
  by (metis div_nat_eqI dividend_less_times_div times_div_less_eq_dividend mult_Suc_right add.commute)

lemma positional: "b < n \<Longrightarrow> y < n \<Longrightarrow> n * a + b = n * x + y \<longleftrightarrow> a = x \<and> b = (y :: nat)"
  by (metis div_mult_self4 div_less mod_less mod_mult_self4 add.commute add.right_neutral less_nat_zero_code mult.commute)

lemma private_v4_exact:
  assumes "a < 256" "b < 256" "c < 256" "d < 256"
  shows "is_private_v4 a b c \<longleftrightarrow> list_ex (in_net 32 (v4_num a b c d)) reserved_v4"
proof -
  have nets: "list_ex (in_net 32 (v4_num a b c d)) reserved_v4 \<longleftrightarrow>
      a = 10 \<or> a = 127 \<or> a = 0 \<or> 256 * a + b = 256 * 169 + 254 \<or> 16 * a + b div 16 = 16 * 172 + 1
      \<or> 256 * a + b = 256 * 192 + 168 \<or> 65536 * a + 256 * b + c = 65536 * 192
      \<or> 65536 * a + 256 * b + c = 65536 * 192 + 256 * 88 + 99 \<or> 128 * a + b div 2 = 128 * 198 + 9
      \<or> 4 * a + b div 64 = 4 * 100 + 1 \<or> a div 16 = 14 \<or> a div 16 = 15"
    using assms by (simp add: reserved_v4_def in_net_def v4_prefixes v4_num_def [of 10] v4_num_def [of 127]
      v4_num_def [of 0] v4_num_def [of 169] v4_num_def [of 172] v4_num_def [of 192] v4_num_def [of 198] v4_num_def [of 100]
      v4_num_def [of 224] v4_num_def [of 240])
  have q: "b div 16 < 16" "b div 2 < 128" "b div 64 < 4" using assms(2) by simp_all
  have e1: "b div 16 = 1 \<longleftrightarrow> 16 \<le> b \<and> b \<le> 31" "b div 2 = 9 \<longleftrightarrow> b = 18 \<or> b = 19" "b div 64 = 1 \<longleftrightarrow> 64 \<le> b \<and> b \<le> 127"
      "a div 16 = 14 \<or> a div 16 = 15 \<longleftrightarrow> 224 \<le> a \<and> a \<le> 255"
    by (auto simp: div_between)
  have e2: "256 * a + b = 256 * 169 + 254 \<longleftrightarrow> a = 169 \<and> b = 254" "256 * a + b = 256 * 192 + 168 \<longleftrightarrow> a = 192 \<and> b = 168"
    using assms(2) by (simp_all only: positional)
  have e3: "16 * a + b div 16 = 16 * 172 + 1 \<longleftrightarrow> a = 172 \<and> b div 16 = 1" by (rule positional [OF q(1)]) simp
  have e4: "128 * a + b div 2 = 128 * 198 + 9 \<longleftrightarrow> a = 198 \<and> b div 2 = 9" by (rule positional [OF q(2)]) simp
  have e5: "4 * a + b div 64 = 4 * 100 + 1 \<longleftrightarrow> a = 100 \<and> b div 64 = 1" by (rule positional [OF q(3)]) simp
  have e6: "256 * (256 * a + b) + c = 256 * (256 * 192 + 0) + 0 \<longleftrightarrow> 256 * a + b = 256 * 192 + 0 \<and> c = 0"
      "256 * (256 * a + b) + c = 256 * (256 * 192 + 88) + 99 \<longleftrightarrow> 256 * a + b = 256 * 192 + 88 \<and> c = 99"
    by (rule positional; use assms(3) in simp)+
  have e7: "256 * a + b = 256 * 192 + 0 \<longleftrightarrow> a = 192 \<and> b = 0" "256 * a + b = 256 * 192 + 88 \<longleftrightarrow> a = 192 \<and> b = 88"
    by (rule positional; use assms(2) in simp)+
  have e8: "65536 * a + 256 * b + c = 65536 * 192 \<longleftrightarrow> a = 192 \<and> b = 0 \<and> c = 0"
      "65536 * a + 256 * b + c = 65536 * 192 + 256 * 88 + 99 \<longleftrightarrow> a = 192 \<and> b = 88 \<and> c = 99"
    using e6 [unfolded e7] by simp_all
  show ?thesis unfolding nets is_private_v4_def e2 e3 e4 e5 e8 e1 by (simp only: conj_assoc disj_assoc)
qed

definition v6_num :: "16 word list \<Rightarrow> nat" where
  "v6_num g = foldl (\<lambda>n w. 65536 * n + unat w) 0 g"

definition reserved_v6 :: "(nat \<times> nat) list" where
  "reserved_v6 =
     [(1, 128), (0, 128), (0xFC00 * 2 ^ 112, 7), (0xFE80 * 2 ^ 112, 10), (0xFEC0 * 2 ^ 112, 10), (0x64FF9B * 2 ^ 96, 32)]"

definition wf_ip :: "ip_addr \<Rightarrow> bool" where
  "wf_ip ip = (case ip of V4 a b c d \<Rightarrow> a < 256 \<and> b < 256 \<and> c < 256 \<and> d < 256 | V6 g \<Rightarrow> length g = 8)"

text \<open>The blocked addresses; an IPv4 address inside an IPv6 one counts as itself.\<close>

definition reserved :: "ip_addr \<Rightarrow> bool" where
  "reserved ip =
     (case ip of
        V4 a b c d \<Rightarrow> list_ex (in_net 32 (v4_num a b c d)) reserved_v4
      | V6 g \<Rightarrow> list_ex (in_net 128 (v6_num g)) reserved_v6
               \<or> (v6_num g div 2 ^ 32 \<in> {0, 0xFFFF} \<and> list_ex (in_net 32 (v6_num g mod 2 ^ 32)) reserved_v4))"

lemma v6_num_snoc: "v6_num (g @ [w]) = 65536 * v6_num g + unat w"
  by (simp add: v6_num_def)

lemma unat_16: "unat (w :: 16 word) < 65536"
  using unsigned_less [of w] by simp

lemma v6_num_div: "v6_num (g @ h) div 65536 ^ length h = v6_num g"
proof (induction h rule: rev_induct)
  case (snoc w h)
  have "v6_num (g @ h @ [w]) div 65536 ^ length (h @ [w]) = v6_num ((g @ h) @ [w]) div 65536 div 65536 ^ length h"
    by (simp add: div_mult2_eq)
  also have "\<dots> = v6_num (g @ h) div 65536 ^ length h" using unat_16 [of w] by (simp only: v6_num_snoc) simp
  finally show ?case using snoc by simp
qed simp

lemma high_bits: "w AND NOT (mask k) = v AND NOT (mask k) \<longleftrightarrow> drop_bit k w = drop_bit k (v :: 'a :: len word)"
proof
  assume *: "w AND NOT (mask k) = v AND NOT (mask k)"
  show "drop_bit k w = drop_bit k v"
  proof (rule bit_word_eqI)
    fix n
    have "bit (w AND NOT (mask k)) (k + n) = bit (v AND NOT (mask k)) (k + n)" by (simp only: *)
    moreover assume "n < LENGTH('a)"
    ultimately show "bit (drop_bit k w) n = bit (drop_bit k v) n"
      using bit_imp_le_length [of w "k + n"] bit_imp_le_length [of v "k + n"]
      by (auto simp: bit_simps)
  qed
next
  assume *: "drop_bit k w = drop_bit k v"
  show "w AND NOT (mask k) = v AND NOT (mask k)"
  proof (rule bit_word_eqI)
    fix n assume "n < LENGTH('a)"
    have "bit (drop_bit k w) (n - k) = bit (drop_bit k v) (n - k)" by (simp only: *)
    then show "bit (w AND NOT (mask k)) n = bit (v AND NOT (mask k)) n" by (auto simp: bit_simps)
  qed
qed

lemma high_mask:
  "w AND 0xFE00 = 0xFC00 \<longleftrightarrow> unat w div 512 = 126" "w AND 0xFFC0 = 0xFE80 \<longleftrightarrow> unat w div 64 = 1018"
  "w AND 0xFFC0 = 0xFEC0 \<longleftrightarrow> unat w div 64 = 1019" for w :: "16 word"
proof -
  have d: "drop_bit k w = v \<longleftrightarrow> unat w div 2 ^ k = unat v" for k and v :: "16 word"
    by (metis unat_drop_bit_eq drop_bit_eq_div word_unat_eq_iff)
  have m9: "NOT (mask 9) = (0xFE00 :: 16 word)" by (transfer, simp add: mask_numeral)
  have m6: "NOT (mask 6) = (0xFFC0 :: 16 word)" by (transfer, simp add: mask_numeral)
  have "w AND 0xFE00 = 0xFC00 \<longleftrightarrow> drop_bit 9 w = 126"
    using high_bits [of w 9 "0xFC00"] by (simp add: m6 m9)
  then show "w AND 0xFE00 = 0xFC00 \<longleftrightarrow> unat w div 512 = 126" by (simp add: d)
  have "w AND 0xFFC0 = 0xFE80 \<longleftrightarrow> drop_bit 6 w = 1018"
    using high_bits [of w 6 "0xFE80"] by (simp add: m6 m9)
  then show "w AND 0xFFC0 = 0xFE80 \<longleftrightarrow> unat w div 64 = 1018" by (simp add: d)
  have "w AND 0xFFC0 = 0xFEC0 \<longleftrightarrow> drop_bit 6 w = 1019"
    using high_bits [of w 6 "0xFEC0"] by (simp add: m6 m9)
  then show "w AND 0xFFC0 = 0xFEC0 \<longleftrightarrow> unat w div 64 = 1019" by (simp add: d)
qed



lemma v6_num_inj: "length g = length h \<Longrightarrow> v6_num g = v6_num h \<longleftrightarrow> g = h"
proof (induction g arbitrary: h rule: rev_induct)
  case (snoc w g)
  then obtain v h' where h: "h = h' @ [v]" "length g = length h'" by (cases h rule: rev_cases) auto
  have "v6_num (g @ [w]) = v6_num (h' @ [v]) \<longleftrightarrow> v6_num g = v6_num h' \<and> unat w = unat v"
    unfolding v6_num_snoc by (rule positional [OF unat_16 unat_16])
  then show ?case using snoc.IH [OF h(2)] by (simp add: h(1) word_unat_eq_iff)
qed simp

lemma eight: "length g = 8 \<Longrightarrow> \<exists>a b c d e f x y. g = [a, b, c, d, e, f, x, y]"
  by (auto simp: length_Suc_conv numeral_eq_Suc)

lemma zeros:
  "replicate 5 z = [z, z, z, z, z]" "replicate 6 z = [z, z, z, z, z, z]" "replicate 7 z = [z, z, z, z, z, z, z]"
  "replicate 8 z = [z, z, z, z, z, z, z, z]"
  by (simp_all add: numeral_eq_Suc)

lemma v6_prefixes:
  assumes "length g = 8"
  shows "v6_num g div 2 ^ 121 = unat (g ! 0) div 512" "v6_num g div 2 ^ 118 = unat (g ! 0) div 64"
    "v6_num g div 2 ^ 96 = v6_num [g ! 0, g ! 1]" "v6_num g div 2 ^ 32 = v6_num (take 6 g)"
    "v6_num g mod 2 ^ 32 = v4_num (unat (g ! 6) div 256) (unat (g ! 6) mod 256) (unat (g ! 7) div 256) (unat (g ! 7) mod 256)"
proof -
  from eight [OF assms] obtain a b c d e f x y where g: "g = [a, b, c, d, e, f, x, y]" by blast
  have p: "v6_num g div 65536 ^ 7 = unat a"
    using v6_num_div [of "[a]" "[b, c, d, e, f, x, y]"] by (simp add: g v6_num_def)
  have "v6_num g div 2 ^ 121 = v6_num g div 65536 ^ 7 div 512" by (simp add: div_mult2_eq)
  then show "v6_num g div 2 ^ 121 = unat (g ! 0) div 512" by (simp only: p) (simp add: g)
  have "v6_num g div 2 ^ 118 = v6_num g div 65536 ^ 7 div 64" by (simp add: div_mult2_eq)
  then show "v6_num g div 2 ^ 118 = unat (g ! 0) div 64" by (simp only: p) (simp add: g)
  show "v6_num g div 2 ^ 96 = v6_num [g ! 0, g ! 1]"
    using v6_num_div [of "[a, b]" "[c, d, e, f, x, y]"] by (simp add: g)
  show q: "v6_num g div 2 ^ 32 = v6_num (take 6 g)"
    using v6_num_div [of "[a, b, c, d, e, f]" "[x, y]"] by (simp add: g)
  have "v6_num g = 65536 * (65536 * v6_num [a, b, c, d, e, f] + unat x) + unat y"
    using v6_num_snoc [of "[a, b, c, d, e, f, x]" y] v6_num_snoc [of "[a, b, c, d, e, f]" x] by (simp add: g)
  then have "v6_num g = (65536 * unat x + unat y) + 2 ^ 32 * v6_num [a, b, c, d, e, f]" by simp
  then have "v6_num g mod 2 ^ 32 = (65536 * unat x + unat y) mod 2 ^ 32" by (simp only: mod_mult_self2)
  also have "\<dots> = 65536 * unat x + unat y" using unat_16 [of x] unat_16 [of y] by (intro mod_less) simp
  also have "\<dots> = v4_num (unat x div 256) (unat x mod 256) (unat y div 256) (unat y mod 256)"
    using mult_div_mod_eq [of 256 "unat x"] mult_div_mod_eq [of 256 "unat y"] unfolding v4_num_def by linarith
  finally show "v6_num g mod 2 ^ 32 = v4_num (unat (g ! 6) div 256) (unat (g ! 6) mod 256) (unat (g ! 7) div 256) (unat (g ! 7) mod 256)"
    by (simp add: g)
qed

lemma to_ipv4_iff: "length g = 8 \<Longrightarrow> to_ipv4 g \<noteq> None \<longleftrightarrow> take 6 g = replicate 6 0 \<or> take 6 g = replicate 5 0 @ [0xFFFF]"
  using eight [of g] by (auto simp: to_ipv4_def zeros)

lemma private_v6_exact:
  assumes "length g = 8"
  shows "is_private_v6 g \<longleftrightarrow> reserved (V6 g)"
proof -
  note pre = v6_prefixes [OF assms]
  have one: "v6_num g = 1 \<longleftrightarrow> g = replicate 7 0 @ [1]" "v6_num g = 0 \<longleftrightarrow> g = replicate 8 0"
    using v6_num_inj [of g "replicate 7 0 @ [1]"] v6_num_inj [of g "replicate 8 0"] assms by (simp_all add: v6_num_def zeros)
  have nat64: "v6_num [g ! 0, g ! 1] = 0x64FF9B \<longleftrightarrow> g ! 0 = 0x64 \<and> g ! 1 = 0xFF9B"
    using v6_num_inj [of "[g ! 0, g ! 1]" "[0x64, 0xFF9B]"] by (simp add: v6_num_def)
  have nets: "list_ex (in_net 128 (v6_num g)) reserved_v6 \<longleftrightarrow>
      g = replicate 7 0 @ [1] \<or> g = replicate 8 0 \<or> unat (g ! 0) div 512 = 126
      \<or> unat (g ! 0) div 64 = 1018 \<or> unat (g ! 0) div 64 = 1019 \<or> (g ! 0 = 0x64 \<and> g ! 1 = 0xFF9B)"
    unfolding one [symmetric] nat64 [symmetric] pre [symmetric] by (simp add: reserved_v6_def in_net_def)
  have "v6_num (take 6 g) = 0 \<longleftrightarrow> take 6 g = replicate 6 0" "v6_num (take 6 g) = 0xFFFF \<longleftrightarrow> take 6 g = replicate 5 0 @ [0xFFFF]"
    using v6_num_inj [of "take 6 g" "replicate 6 0"] v6_num_inj [of "take 6 g" "replicate 5 0 @ [0xFFFF]"] assms
    by (simp_all add: v6_num_def zeros)
  then have mapped: "v6_num g div 2 ^ 32 \<in> {0, 0xFFFF} \<longleftrightarrow> to_ipv4 g \<noteq> None"
    unfolding pre to_ipv4_iff [OF assms] by simp
  have v4: "list_ex (in_net 32 (v6_num g mod 2 ^ 32)) reserved_v4
      \<longleftrightarrow> is_private_v4 (unat (g ! 6) div 256) (unat (g ! 6) mod 256) (unat (g ! 7) div 256)"
    unfolding pre using unat_16 [of "g ! 6"] unat_16 [of "g ! 7"] by (intro private_v4_exact [symmetric]) simp_all
  have res: "reserved (V6 g) \<longleftrightarrow> list_ex (in_net 128 (v6_num g)) reserved_v6
      \<or> (to_ipv4 g \<noteq> None \<and> is_private_v4 (unat (g ! 6) div 256) (unat (g ! 6) mod 256) (unat (g ! 7) div 256))"
    unfolding reserved_def ip_addr.case mapped v4 ..
  show ?thesis
  proof (cases "to_ipv4 g")
    case None
    then show ?thesis unfolding res nets by (simp add: is_private_v6_def high_mask)
  next
    case (Some q)
    then have q: "q = (unat (g ! 6) div 256, unat (g ! 6) mod 256, unat (g ! 7) div 256, unat (g ! 7) mod 256)" "g ! 0 = 0"
      using eight [OF assms] by (auto simp: to_ipv4_def zeros split: if_splits)
    then show ?thesis using Some unfolding res nets by (simp add: is_private_v6_def)
  qed
qed

lemma private_exact: "wf_ip ip \<Longrightarrow> is_private_ip ip \<longleftrightarrow> reserved ip"
  by (cases ip) (simp_all add: wf_ip_def private_v6_exact private_v4_exact reserved_def)

lemma read_octet_bound: "read_octet i s = Some (n, r) \<Longrightarrow> n < 256"
  by (auto simp: read_octet_def read_separator_def read_number_def Let_def split: if_splits list.splits)

lemma read_ipv4_wf: "read_ipv4 s = Some ((a, b, c, d), r) \<Longrightarrow> a < 256 \<and> b < 256 \<and> c < 256 \<and> d < 256"
  by (auto simp: read_ipv4_def bind_eq_Some_conv dest!: read_octet_bound)

lemma read_groups_length: "read_groups left i s = ((gs, q), r) \<Longrightarrow> length gs \<le> left"
proof (induction left i s arbitrary: gs q r rule: read_groups.induct)
  case (2 left i s)
  then show ?case by (fastforce split: if_splits option.splits prod.splits)
qed simp

lemma ip_from_str_wf: "ip_from_str s = Some ip \<Longrightarrow> wf_ip ip"
proof (cases "read_ipv4 s")
  case (Some p)
  assume "ip_from_str s = Some ip"
  then show ?thesis using Some read_ipv4_wf [of s]
    by (cases p) (auto simp: ip_from_str_def wf_ip_def split: if_splits)
next
  case None
  assume "ip_from_str s = Some ip"
  then obtain g where g: "read_ipv6 s = Some (g, [])" "ip = V6 g"
    using None by (auto simp: ip_from_str_def split: option.splits if_splits)
  obtain h v r where h: "read_groups 8 0 s = ((h, v), r)" by (metis prod.exhaust)
  have "length h \<le> 8" using read_groups_length [OF h] by simp
  then have "length g = 8"
    using g(1) h by (auto simp: read_ipv6_def split: if_splits option.splits prod.splits dest!: read_groups_length)
  then show ?thesis using g(2) by (simp add: wf_ip_def)
qed

section \<open>Public targets\<close>

text \<open>Outside every blocked range, by the table.\<close>

definition public_ip :: "ip_addr \<Rightarrow> bool" where
  "public_ip ip \<longleftrightarrow> \<not> (wf_ip ip \<and> reserved ip)"

text \<open>
  A web URL whose host is a public address, or a name that is no service or LAN name and all of whose
  addresses, at least one, are public.
\<close>

definition public_target :: "resolver \<Rightarrow> url \<Rightarrow> bool" where
  "public_target dns u \<longleftrightarrow> (ur_scheme u = ''http'' \<or> ur_scheme u = ''https'')
     \<and> (case ur_host u of
          None \<Rightarrow> False
        | Some host \<Rightarrow>
            (case ip_from_str (bare_host host) of
               Some ip \<Rightarrow> public_ip ip
             | None \<Rightarrow> \<not> is_internal_hostname (bare_host host)
                 \<and> (case dns (bare_host host) (known_port u) of
                      None \<Rightarrow> False
                    | Some ips \<Rightarrow> ips \<noteq> [] \<and> list_all public_ip ips)))"

lemma guard_public: "guard_url dns u = Inr () \<Longrightarrow> public_target dns u"
  by (auto simp: guard_url_def public_target_def public_ip_def private_exact Let_def find_None_iff list_all_iff
      split: if_splits option.splits)

lemma fetch_hops_Cons:
  "fetch_hops N rng g (hop # hops) u = (res, ds) \<Longrightarrow>
     ((\<exists>e. res = Inl e) \<and> ds = [])
     \<or> ((hop = 0 \<and> \<not> g \<or> public_target (nt_dns N hop) u)
        \<and> (((\<exists>e. res = Inl e) \<and> ds = [(hop, u)])
           \<or> (\<exists>r. res = Inr (u, r) \<and> location_of r = None \<and> ds = [(hop, u)])
           \<or> (\<exists>v es. fetch_hops N rng g hops v = (res, es) \<and> ds = (hop, u) # es)))"
  by (cases "fetch_hops N rng g hops (the (nt_join N u (the (location_of (the (nt_send N hop u rng))))))")
    (auto simp: guard_public split: if_splits sum.splits option.splits)

lemma fetch_hops_ok:
  "fetch_hops N rng g hops u = (res, ds) \<Longrightarrow> 0 \<notin> set hops \<Longrightarrow>
     list_all (\<lambda>(hop, v). hop \<noteq> 0 \<and> public_target (nt_dns N hop) v) ds \<and> length ds \<le> length hops
     \<and> (case res of Inl _ \<Rightarrow> True | Inr (v, r) \<Rightarrow> location_of r = None \<and> ds \<noteq> [] \<and> snd (last ds) = v)"
proof (induction hops arbitrary: u res ds)
  case (Cons hop hops)
  show ?case using fetch_hops_Cons [OF Cons.prems(1)] Cons.prems(2)
  proof (elim disjE conjE exE)
    fix v es
    assume *: "fetch_hops N rng g hops v = (res, es)" "ds = (hop, u) # es" "public_target (nt_dns N hop) u"
    show ?thesis using Cons.IH [OF *(1)] Cons.prems(2) *(2,3) by (auto split: sum.splits)
  qed auto
qed simp

text \<open>
  C24. A fetch stays outside the private network: every URL dialed for it, the first one included unless
  it is the operator's panel, is http or https and its host is a public address or a name that resolved,
  at that hop, to public addresses only; there are at most six dials, and the answer handed back is that
  of the last URL dialed and is no redirect that could still be followed.
\<close>

theorem fetch_stays_public:
  assumes "fetch_guarded N u rng guard_first = (res, dialed)"
  shows "list_all (\<lambda>(hop, v). if hop = 0 \<and> \<not> guard_first then v = u else public_target (nt_dns N hop) v) dialed
    \<and> length dialed \<le> 6
    \<and> (case res of Inl _ \<Rightarrow> True | Inr (v, r) \<Rightarrow> location_of r = None \<and> dialed \<noteq> [] \<and> snd (last dialed) = v)"
proof -
  have "[0..<max_redirects + 1] = 0 # [1..<6]" by (simp add: max_redirects_def upt_rec)
  then have f: "fetch_hops N rng guard_first (0 # [1..<6]) u = (res, dialed)" using assms by (simp add: fetch_guarded_def)
  from fetch_hops_Cons [OF f] show ?thesis
  proof (elim disjE conjE exE)
    fix v es
    assume *: "fetch_hops N rng guard_first [1..<6] v = (res, es)" "dialed = (0, u) # es"
    have "list_all (\<lambda>(hop, v). hop \<noteq> 0 \<and> public_target (nt_dns N hop) v) es \<and> length es \<le> 5
        \<and> (case res of Inl _ \<Rightarrow> True | Inr (v, r) \<Rightarrow> location_of r = None \<and> es \<noteq> [] \<and> snd (last es) = v)"
      using fetch_hops_ok [OF *(1)] by simp
    moreover assume "0 = (0 :: nat)" "\<not> guard_first"
    ultimately show ?thesis using *(2) by (auto simp: list_all_iff split: sum.splits)
  next
    fix v es
    assume *: "fetch_hops N rng guard_first [1..<6] v = (res, es)" "dialed = (0, u) # es"
    have "list_all (\<lambda>(hop, v). hop \<noteq> 0 \<and> public_target (nt_dns N hop) v) es \<and> length es \<le> 5
        \<and> (case res of Inl _ \<Rightarrow> True | Inr (v, r) \<Rightarrow> location_of r = None \<and> es \<noteq> [] \<and> snd (last es) = v)"
      using fetch_hops_ok [OF *(1)] by simp
    moreover assume "public_target (nt_dns N 0) u"
    ultimately show ?thesis using *(2) by (auto simp: list_all_iff split: sum.splits)
  qed auto
qed



section \<open>A demonstration network\<close>

definition site :: "string \<Rightarrow> url" where
  "site h = \<lparr>ur_scheme = ''http'', ur_host = Some h, ur_port = None, ur_known_port = Some 80, ur_path = ''/x'', ur_query = None\<rparr>"

text \<open>A panel that redirects to the metadata service of a cloud, written as a mapped IPv6 literal.\<close>

definition demo_net :: net where
  "demo_net = \<lparr>nt_parse = (\<lambda>t. Some (site t)), nt_join = (\<lambda>_ l. Some (site l)), nt_dns = (\<lambda>_ _ _. Some [V4 93 184 216 34]),
     nt_send = (\<lambda>_ _ _. Some \<lparr>rs_status = 302, rs_location = Some ''[::ffff:169.254.169.254]'', rs_length = None, rs_type = None, rs_headers = [],
       rs_body = []\<rparr>)\<rparr>"

lemmas read_groups_numeral = read_groups.simps(2) [of "pred_numeral v" for v, folded numeral_eq_Suc]

lemma replicate_numeral: "replicate (numeral v) x = x # replicate (pred_numeral v) x"
  by (simp add: numeral_eq_Suc)

lemmas ip_eval = read_groups_numeral read_separator_def read_number_def digit_in_def read_octet_def read_ipv4_def
  read_ipv6_def ip_from_str_def strip_prefix_def starts_with_def replicate_numeral Let_def

lemma metadata_ip: "ip_from_str ''::ffff:169.254.169.254'' = Some (V6 [0, 0, 0, 0, 0, 0xFFFF, 0xA9FE, 0xA9FE])"
  by (simp add: ip_eval)

lemma metadata_private: "is_private_v6 [0, 0, 0, 0, 0, 0xFFFF, 0xA9FE, 0xA9FE]"
  by (simp add: is_private_v6_def to_ipv4_def is_private_v4_def zeros)

lemma fetch_stays_public_witness:
  "fetch_guarded demo_net (site ''10.0.0.2'') None False
     = (Inl (FeBlocked (PrivateLiteral ''::ffff:169.254.169.254'')), [(0, site ''10.0.0.2'')])
   \<and> list_all (\<lambda>(hop, v). if hop = 0 \<and> \<not> False then v = site ''10.0.0.2'' else public_target (nt_dns demo_net hop) v)
       [(0, site ''10.0.0.2'')]"
proof -
  have hops: "[0..<max_redirects + 1] = [0, 1, 2, 3, 4, 5]" by (simp add: max_redirects_def upt_rec)
  have bare: "bare_host ''[::ffff:169.254.169.254]'' = ''::ffff:169.254.169.254''"
    by (simp add: bare_host_def strip_prefix_def starts_with_def ends_with_def)
  have loc: "header_to_str ''[::ffff:169.254.169.254]'' = Some ''[::ffff:169.254.169.254]''"
    by (simp add: header_to_str_def visible_def)
  have f: "fetch_guarded demo_net (site ''10.0.0.2'') None False
     = (Inl (FeBlocked (PrivateLiteral ''::ffff:169.254.169.254'')), [(0, site ''10.0.0.2'')])"
    unfolding fetch_guarded_def hops
    by (simp add: demo_net_def site_def location_of_def is_redirection_def loc guard_url_def bare metadata_ip metadata_private)
  show ?thesis using f fetch_stays_public [OF f] by blast
qed



section \<open>What the egress proxy lets out\<close>

fun no_crlf :: "string \<Rightarrow> bool" where
  "no_crlf (a # b # s) \<longleftrightarrow> \<not> (a = CHR 0x0D \<and> b = CHR 0x0A) \<and> no_crlf (b # s)"
| "no_crlf s \<longleftrightarrow> True"

lemma split_crlf_line: "no_crlf l \<Longrightarrow> split_crlf (l @ crlf @ s) = l # split_crlf s"
  by (induction l rule: no_crlf.induct) (auto simp: crlf_def)

lemma split_crlf_head: "\<exists>ps. split_crlf (b # s) = [] # ps \<or> (\<exists>p. split_crlf (b # s) = (b # p) # ps)"
  by (cases s) (auto split: list.split)

lemma split_crlf_pieces: "l \<in> set (split_crlf s) \<Longrightarrow> no_crlf l"
proof (induction s arbitrary: l rule: split_crlf.induct)
  case (1 a b s)
  show ?case
  proof (cases "a = CHR 0x0D \<and> b = CHR 0x0A")
    case False
    then show ?thesis using 1 split_crlf_head [of b s] by (auto split: if_splits)
  qed (use 1 in auto)
qed auto

text \<open>What the \<open>url\<close> crate guarantees of a parsed URL: no carriage return or line feed is left in it.\<close>

definition clean_url :: "url \<Rightarrow> bool" where
  "clean_url u \<longleftrightarrow> CHR 0x0D \<notin> set (ur_path u) \<and> (case ur_query u of None \<Rightarrow> True | Some q \<Rightarrow> CHR 0x0D \<notin> set q)"

lemma no_cr_no_crlf: "CHR 0x0D \<notin> set b \<Longrightarrow> no_crlf b"
  by (induction b rule: no_crlf.induct) auto

lemma no_crlf_append: "no_crlf a \<Longrightarrow> CHR 0x0D \<notin> set b \<Longrightarrow> (CHR 0x0A \<notin> set (take 1 b)) \<Longrightarrow> no_crlf (a @ b)"
proof (induction a)
  case Nil
  then show ?case by (simp add: no_cr_no_crlf)
next
  case (Cons x a)
  then show ?case by (cases a; cases b) (auto simp: no_cr_no_crlf)
qed

definition proxy_only :: "string \<Rightarrow> bool" where
  "proxy_only line \<longleftrightarrow> \<not> kept_header line"

lemma origin_lines:
  assumes "no_crlf m" "clean_url u" "list_all no_crlf lines"
  shows "filter proxy_only (tl (split_crlf (origin_head m u lines))) = [''Connection: close'']
    \<and> filter (\<lambda>l. \<not> proxy_only l) (butlast (butlast (tl (split_crlf (origin_head m u lines))))) = filter kept_header (filter (\<lambda>l. l \<noteq> []) lines)"
proof -
  define q where "q = (case ur_query u of None \<Rightarrow> [] | Some q \<Rightarrow> ''?'' @ q)"
  have "CHR 0x0D \<notin> set ('' '' @ ur_path u @ q @ '' HTTP/1.1'')"
    using assms(2) by (auto simp: q_def clean_url_def split: option.splits)
  then have first: "no_crlf (m @ '' '' @ ur_path u @ q @ '' HTTP/1.1'')" by (intro no_crlf_append [OF assms(1)]) simp_all
  have rest: "split_crlf (concat (map (\<lambda>l. if kept_header l then l @ crlf else []) ls) @ ''Connection: close'' @ crlf @ crlf)
      = filter kept_header ls @ [''Connection: close'', [], []]" if "list_all no_crlf ls" for ls
    using that
  proof (induction ls)
    case Nil
    have "no_crlf ''Connection: close''" by simp
    from split_crlf_line [OF this, of crlf] show ?case by (simp add: crlf_def)
  qed (auto simp: split_crlf_line)
  have "split_crlf (origin_head m u lines)
      = (m @ '' '' @ ur_path u @ q @ '' HTTP/1.1'') # filter kept_header (filter (\<lambda>l. l \<noteq> []) lines) @ [''Connection: close'', [], []]"
    using split_crlf_line [OF first] rest [of "filter (\<lambda>l. l \<noteq> []) lines"] assms(3)
    by (simp add: origin_head_def q_def list_all_iff)
  moreover have "proxy_only ''Connection: close''" "\<not> proxy_only []" by code_simp+
  ultimately show ?thesis by (simp add: proxy_only_def filter_False butlast_append)
qed

lemma no_crlf_prefix: "no_crlf (a @ b) \<Longrightarrow> no_crlf a"
  by (induction a rule: no_crlf.induct) auto

lemma split_crlf_nonempty: "split_crlf s \<noteq> []"
  by (cases s rule: split_crlf.cases) (auto split: list.split)

lemma method_clean: "no_crlf (nth_word (split_on (CHR '' '') (hd (split_crlf s))) 0)"
proof -
  obtain p ps where ps: "split_on (CHR '' '') (hd (split_crlf s)) = p # ps"
    by (cases "split_on (CHR '' '') (hd (split_crlf s))") simp_all
  from split_on_join [OF this] have "hd (split_crlf s) = p @ concat (map ((#) (CHR '' '')) ps)" by simp
  moreover have "no_crlf (hd (split_crlf s))" by (rule split_crlf_pieces [OF hd_in_set [OF split_crlf_nonempty]])
  ultimately have "no_crlf p" using no_crlf_prefix by metis
  then show ?thesis by (simp add: nth_word_def ps)
qed


definition demo_reads :: "string option list" where
  "demo_reads = [Some (''GET http://10.0.0.2/x HTTP/1.1'' @ crlf @ ''Connection: keep-alive'' @ crlf @ ''Range: bytes=0-'' @ crlf @ crlf)]"

definition demo_forward :: string where
  "demo_forward = ''GET /x HTTP/1.1'' @ crlf @ ''Range: bytes=0-'' @ crlf @ ''Connection: close'' @ crlf @ crlf"

definition panel_net :: net where
  "panel_net = demo_net\<lparr>nt_parse := (\<lambda>_. Some (site ''10.0.0.2''))\<rparr>"


end
