(* ===== verification/Hls.thy ===== *)
theory Hls
  imports Playlist Ssrf
begin

text \<open>
  \<open>crates/iptv/src/hls.rs\<close>: the on-demand HLS proxy.  Every URL of an upstream playlist is replaced by a
  signed segment URL of this service; the playlist is fetched under the SSRF guard, a deadline and a size
  limit.  \<open>Url::parse(base).join(reference)\<close> is the argument \<open>join\<close>, the fetch's \<open>net\<close> is
  \<open>Ssrf\<close>'s, and whether the deadline passes first is an argument.
\<close>

section \<open>Owners\<close>

definition segment_path :: string where "segment_path = ''/api/iptv/stream/segment''"

record owner =
  ow_kind :: string
  ow_id :: string

definition word_byte :: "char \<Rightarrow> bool" where
  "word_byte c \<longleftrightarrow> (let b = of_char c :: nat in
     (48 \<le> b \<and> b \<le> 57) \<or> (65 \<le> b \<and> b \<le> 90) \<or> (97 \<le> b \<and> b \<le> 122) \<or> c = CHR ''_'' \<or> c = CHR ''-'')"

definition is_word_id :: "string \<Rightarrow> bool" where
  "is_word_id s \<longleftrightarrow> s \<noteq> [] \<and> list_all word_byte s"

definition owner_query :: "owner option \<Rightarrow> string" where
  "owner_query o1 = (case o1 of None \<Rightarrow> [] | Some w \<Rightarrow> ''&ok='' @ ow_kind w @ ''&oid='' @ ow_id w)"

definition parse_owner :: "string option \<Rightarrow> string option \<Rightarrow> owner option" where
  "parse_owner kind ident =
     Option.bind kind (\<lambda>k.
       if k = ''vod'' \<or> k = ''series''
       then Option.bind ident (\<lambda>i. if is_word_id i then Some \<lparr>ow_kind = k, ow_id = i\<rparr> else None)
       else None)"

section \<open>Rewriting\<close>

definition resolve :: "(string \<Rightarrow> string \<Rightarrow> string option) \<Rightarrow> string \<Rightarrow> string \<Rightarrow> string" where
  "resolve join base reference = (case join base reference of None \<Rightarrow> reference | Some u \<Rightarrow> u)"

definition is_quote :: "char \<Rightarrow> bool" where
  "is_quote c \<longleftrightarrow> c = CHR 0x22 \<or> c = CHR 0x27"

text \<open>
  \<open>URI="([^"']+)"|URI='([^"']+)'\<close> at the start of a text: the quote, the URI and what follows.  The
  class excludes both quotes, so the run of the class is maximal and the next character decides.
\<close>

definition uri_match :: "string \<Rightarrow> (char \<times> string \<times> string) option" where
  "uri_match s =
     Option.bind (strip_prefix ''URI='' s) (\<lambda>r.
       case r of
         [] \<Rightarrow> None
       | q # t \<Rightarrow>
           if \<not> is_quote q then None
           else (let u = takeWhile (\<lambda>c. \<not> is_quote c) t; rest = dropWhile (\<lambda>c. \<not> is_quote c) t
             in if u \<noteq> [] \<and> rest \<noteq> [] \<and> hd rest = q then Some (q, u, tl rest) else None))"

lemma uri_match_Some:
  assumes "uri_match s = Some (q, u, r)"
  shows "s = ''URI='' @ q # u @ q # r \<and> is_quote q \<and> u \<noteq> [] \<and> list_all (\<lambda>c. \<not> is_quote c) u"
proof -
  from assms obtain r0 where r0: "s = ''URI='' @ r0"
      "(case r0 of [] \<Rightarrow> None | q # t \<Rightarrow>
          if \<not> is_quote q then None
          else (let u = takeWhile (\<lambda>c. \<not> is_quote c) t; rest = dropWhile (\<lambda>c. \<not> is_quote c) t
            in if u \<noteq> [] \<and> rest \<noteq> [] \<and> hd rest = q then Some (q, u, tl rest) else None)) = Some (q, u, r)"
    by (auto simp: uri_match_def bind_eq_Some_conv strip_prefix_Some)
  then obtain q' t where "r0 = q' # t" by (cases r0) simp_all
  with r0 have t: "s = ''URI='' @ q # t" "is_quote q" "u = takeWhile (\<lambda>c. \<not> is_quote c) t" "u \<noteq> []"
      "dropWhile (\<lambda>c. \<not> is_quote c) t = q # r"
    by (auto simp: Let_def simp del: dropWhile_eq_Nil_conv split: if_splits)
  then have "t = u @ q # r" by (metis takeWhile_dropWhile_id)
  then show ?thesis using t by (auto simp: list_all_iff dest: set_takeWhileD)
qed

lemma uri_match_shorter: "uri_match s = Some (q, u, r) \<Longrightarrow> length r < length s"
  by (auto dest: uri_match_Some)

fun has_uri :: "string \<Rightarrow> bool" where
  "has_uri [] \<longleftrightarrow> uri_match [] \<noteq> None"
| "has_uri (c # s) \<longleftrightarrow> uri_match (c # s) \<noteq> None \<or> has_uri s"

text \<open>\<open>replace_all\<close>: leftmost matches, none overlapping.\<close>

function replace_uris :: "(string \<Rightarrow> string) \<Rightarrow> string \<Rightarrow> string" where
  "replace_uris f s =
     (case uri_match s of
        Some (q, u, r) \<Rightarrow> ''URI='' @ q # f u @ q # replace_uris f r
      | None \<Rightarrow> (case s of [] \<Rightarrow> [] | c # t \<Rightarrow> c # replace_uris f t))"
  by pat_completeness auto

termination
  by (relation "measure (length \<circ> snd)") (auto dest: uri_match_shorter)

declare replace_uris.simps [simp del]

lemma uri_match_Nil [simp]: "uri_match [] = None"
  by (simp add: uri_match_def strip_prefix_def starts_with_def)

lemma replace_uris_Nil [simp]: "replace_uris f [] = []"
  by (simp add: replace_uris.simps)

lemma replace_uris_skip: "uri_match (c # t) = None \<Longrightarrow> replace_uris f (c # t) = c # replace_uris f t"
  by (simp add: replace_uris.simps [of f "c # t"])

lemma replace_uris_hit: "uri_match s = Some (q, u, r) \<Longrightarrow> replace_uris f s = ''URI='' @ q # f u @ q # replace_uris f r"
  by (simp add: replace_uris.simps [of f s])

definition drop_cr :: "string \<Rightarrow> string" where
  "drop_cr l = (if l \<noteq> [] \<and> last l = CHR 0x0D then butlast l else l)"

definition proxied_url :: "string \<Rightarrow> (string \<Rightarrow> string) \<Rightarrow> string \<Rightarrow> string \<Rightarrow> string" where
  "proxied_url pre mk oq upstream = pre @ ''?u='' @ mk upstream @ oq"

definition rewrite_manifest_line ::
  "(string \<Rightarrow> string \<Rightarrow> string option) \<Rightarrow> string \<Rightarrow> (string \<Rightarrow> string) \<Rightarrow> string \<Rightarrow> string \<Rightarrow> string \<Rightarrow> string" where
  "rewrite_manifest_line join base mk pre oq line =
     (if starts_with ''#'' line \<and> has_uri line
      then replace_uris (\<lambda>u. proxied_url pre mk oq (resolve join base u)) line
      else if line = [] \<or> starts_with ''#'' line then line
      else proxied_url pre mk oq (resolve join base line))"

definition rewrite_manifest ::
  "(string \<Rightarrow> string \<Rightarrow> string option) \<Rightarrow> string \<Rightarrow> string \<Rightarrow> (string \<Rightarrow> string) \<Rightarrow> string \<Rightarrow> owner option \<Rightarrow> string" where
  "rewrite_manifest join manifest base mk pre o1 =
     join_with [nl] (map (rewrite_manifest_line join base mk pre (owner_query o1) \<circ> drop_cr) (split_on nl manifest))"

section \<open>Fetching\<close>

datatype reply = RpError nat string | RpBody string

definition upstream_status :: "nat \<Rightarrow> reply" where
  "upstream_status s = RpError 502 (''upstream_'' @ dec_nat s)"

text \<open>The chunks of a body under a limit; a failed read is \<open>None\<close>.\<close>

datatype capped = CapText string | CapTooLarge | CapFailed

fun read_capped :: "nat \<Rightarrow> string \<Rightarrow> string option list \<Rightarrow> capped" where
  "read_capped limit buf [] = CapText buf"
| "read_capped limit buf (None # cs) = CapFailed"
| "read_capped limit buf (Some c # cs) =
     (if length (buf @ c) > limit then CapTooLarge else read_capped limit (buf @ c) cs)"

record rewriter =
  rw_net :: net
  rw_text :: "url \<Rightarrow> string"
  rw_join :: "string \<Rightarrow> string \<Rightarrow> string option"
  rw_sign :: "string \<Rightarrow> string"
  rw_max :: nat

definition fetch_and_rewrite :: "rewriter \<Rightarrow> bool \<Rightarrow> string \<Rightarrow> owner option \<Rightarrow> reply" where
  "fetch_and_rewrite R timed_out upstream o1 =
     (case nt_parse (rw_net R) upstream of
        None \<Rightarrow> RpError 400 ''bad_upstream''
      | Some u \<Rightarrow>
          if timed_out then RpError 504 ''upstream_timeout''
          else case fst (fetch_guarded (rw_net R) u None True) of
            Inl e \<Rightarrow> if is_blocked e then RpError 400 ''bad_upstream'' else RpError 500 ''internal_error''
          | Inr (v, r) \<Rightarrow>
              if \<not> (200 \<le> rs_status r \<and> rs_status r < 300) then upstream_status (rs_status r)
              else if (case rs_length r of None \<Rightarrow> False | Some n \<Rightarrow> n > rw_max R) then RpError 502 ''manifest_too_large''
              else (case read_capped (rw_max R) [] (rs_body r) of
                CapTooLarge \<Rightarrow> RpError 502 ''manifest_too_large''
              | CapFailed \<Rightarrow> RpError 500 ''internal_error''
              | CapText b \<Rightarrow>
                  RpBody (rewrite_manifest (rw_join R) (utf8_lossy b) (rw_text R v) (rw_sign R) segment_path o1)))"

section \<open>No upstream URL in the clear\<close>

text \<open>The URIs a line carries in its attributes.\<close>

function uris :: "string \<Rightarrow> string list" where
  "uris s =
     (case uri_match s of
        Some (q, u, r) \<Rightarrow> u # uris r
      | None \<Rightarrow> (case s of [] \<Rightarrow> [] | c # t \<Rightarrow> uris t))"
  by pat_completeness auto

termination
  by (relation "measure length") (auto dest: uri_match_shorter)

declare uris.simps [simp del]

lemma uris_Nil [simp]: "uris [] = []"
  by (simp add: uris.simps)

lemma uris_skip: "uri_match (c # t) = None \<Longrightarrow> uris (c # t) = uris t"
  by (simp add: uris.simps [of "c # t"])

lemma uris_hit: "uri_match s = Some (q, u, r) \<Longrightarrow> uris s = u # uris r"
  by (simp add: uris.simps [of s])

lemma quote_split: "is_quote (last w) \<Longrightarrow> w \<noteq> [] \<Longrightarrow>
   takeWhile (\<lambda>c. \<not> is_quote c) (w @ x) = takeWhile (\<lambda>c. \<not> is_quote c) w
   \<and> dropWhile (\<lambda>c. \<not> is_quote c) (w @ x) = dropWhile (\<lambda>c. \<not> is_quote c) w @ x
   \<and> dropWhile (\<lambda>c. \<not> is_quote c) w \<noteq> []"
  by (induction w) (auto split: if_splits)

lemma uri_match_prefix:
  assumes "6 \<le> length w" "is_quote (last w)"
  shows "uri_match (w @ x) = None \<longleftrightarrow> uri_match (w @ y) = None"
proof -
  have "uri_match (w @ x) = None \<longleftrightarrow> (take 4 w \<noteq> ''URI='' \<or> \<not> is_quote (w ! 4)
      \<or> takeWhile (\<lambda>c. \<not> is_quote c) (drop 5 w) = [] \<or> hd (dropWhile (\<lambda>c. \<not> is_quote c) (drop 5 w)) \<noteq> w ! 4)" for x
  proof -
    have len: "length ''URI='' = 4" by simp
    have w: "drop 4 w = w ! 4 # drop 5 w" using assms(1) using Cons_nth_drop_Suc [of 4 w] assms(1) by simp
    have "drop 5 w \<noteq> []" "is_quote (last (drop 5 w))" using assms by (auto simp: last_drop)
    note q = quote_split [OF this(2,1), of x]
    have "strip_prefix ''URI='' (w @ x) = (if take 4 w = ''URI='' then Some (w ! 4 # drop 5 w @ x) else None)"
      using assms(1) w unfolding strip_prefix_def starts_with_def len by simp
    then show ?thesis using q by (auto simp: uri_match_def Let_def)
  qed
  then show ?thesis by blast
qed

lemma replace_shape:
  "replace_uris f s = s \<or> (\<exists>a q x y. s = a @ ''URI='' @ q # x \<and> replace_uris f s = a @ ''URI='' @ q # y \<and> is_quote q)"
proof (induction f s rule: replace_uris.induct)
  case (1 f s)
  show ?case
  proof (cases "uri_match s")
    case None
    show ?thesis
    proof (cases s)
      case (Cons c t)
      have "replace_uris f s = c # replace_uris f t" using None Cons by (simp add: replace_uris_skip)
      note step = this
      show ?thesis using 1(1) [OF None Cons]
      proof (elim disjE exE conjE)
        fix a q x y
        assume "t = a @ ''URI='' @ q # x" "replace_uris f t = a @ ''URI='' @ q # y" "is_quote q"
        then have "s = (c # a) @ ''URI='' @ q # x \<and> replace_uris f s = (c # a) @ ''URI='' @ q # y \<and> is_quote q"
          using step Cons by simp
        then show ?thesis by blast
      qed (use step Cons in simp)
    qed simp
  next
    case (Some p)
    obtain q u r where p: "p = (q, u, r)" by (cases p)
    have "replace_uris f s = [] @ ''URI='' @ q # (f u @ q # replace_uris f r)" using Some p by (simp add: replace_uris_hit)
    moreover have "s = [] @ ''URI='' @ q # (u @ q # r)" "is_quote q" using uri_match_Some [OF Some [unfolded p]] by simp_all
    ultimately show ?thesis by blast
  qed
qed

lemma replace_keeps_None:
  assumes "uri_match (c # s) = None"
  shows "uri_match (c # replace_uris f s) = None"
  using replace_shape [of f s]
proof (elim disjE exE conjE)
  fix a q x y
  assume s: "s = a @ ''URI='' @ q # x" "replace_uris f s = a @ ''URI='' @ q # y" "is_quote q"
  have "uri_match ((c # a @ ''URI='' @ [q]) @ x) = None \<longleftrightarrow> uri_match ((c # a @ ''URI='' @ [q]) @ y) = None"
    by (rule uri_match_prefix) (use s(3) in auto)
  then show ?thesis using assms s(1,2) by simp
qed (simp add: assms)

lemma uri_match_build: "is_quote q \<Longrightarrow> u \<noteq> [] \<Longrightarrow> list_all (\<lambda>c. \<not> is_quote c) u \<Longrightarrow> uri_match (''URI='' @ q # u @ q # r) = Some (q, u, r)"
  by (simp add: uri_match_def strip_prefix_def starts_with_def Let_def list_all_iff takeWhile_append2 dropWhile_append2)

definition plain :: "string \<Rightarrow> bool" where
  "plain u \<longleftrightarrow> u \<noteq> [] \<and> list_all (\<lambda>c. \<not> is_quote c) u"

lemma uris_replace:
  assumes "\<And>u. plain (f u)"
  shows "uris (replace_uris f s) = map f (uris s)"
  using assms
proof (induction f s rule: replace_uris.induct)
  case (1 f s)
  show ?case
  proof (cases "uri_match s")
    case None
    show ?thesis
    proof (cases s)
      case (Cons c t)
      have "replace_uris f s = c # replace_uris f t" using None Cons by (simp add: replace_uris_skip)
      moreover have "uri_match (c # replace_uris f t) = None" by (rule replace_keeps_None) (use None Cons in simp)
      ultimately have "uris (replace_uris f s) = uris (replace_uris f t)" by (simp add: uris_skip)
      then show ?thesis using 1(1) [OF None Cons 1(3)] None Cons by (simp add: uris_skip)
    qed simp
  next
    case (Some p)
    obtain q u r where p: "p = (q, u, r)" by (cases p)
    have q: "is_quote q" using uri_match_Some [OF Some [unfolded p]] by simp
    have "replace_uris f s = ''URI='' @ q # f u @ q # replace_uris f r" using Some p by (simp add: replace_uris_hit)
    moreover have "uri_match (''URI='' @ q # f u @ q # replace_uris f r) = Some (q, f u, replace_uris f r)"
      by (rule uri_match_build [OF q]) (use 1(3) [of u] in \<open>simp_all add: plain_def\<close>)
    ultimately have "uris (replace_uris f s) = f u # uris (replace_uris f r)" by (simp add: uris_hit del: append.simps)
    then show ?thesis using 1(2) [OF Some p [symmetric] refl 1(3)] Some p by (simp add: uris_hit)
  qed
qed

lemma replace_nl: "(\<And>u. nl \<notin> set (f u)) \<Longrightarrow> nl \<notin> set s \<Longrightarrow> nl \<notin> set (replace_uris f s)"
proof (induction f s rule: replace_uris.induct)
  case (1 f s)
  show ?case
  proof (cases "uri_match s")
    case None
    then show ?thesis using 1 by (cases s) (auto simp: replace_uris_skip)
  next
    case (Some p)
    obtain q u r where p: "p = (q, u, r)" by (cases p)
    have "nl \<notin> set r" "nl \<noteq> q" using uri_match_Some [OF Some [unfolded p]] 1(4) by auto
    then show ?thesis using 1(2) [OF Some p [symmetric] refl 1(3)] 1(3) Some p by (simp add: replace_uris_hit) (simp add: nl_def)
  qed
qed

lemma join_lines: "list_all (\<lambda>l. nl \<notin> set l) ls \<Longrightarrow> ls \<noteq> [] \<Longrightarrow> split_on nl (join_with [nl] ls) = ls"
  by (induction "[nl]" ls rule: join_with.induct) (simp_all add: split_on_free split_on_append)

definition tag :: "string \<Rightarrow> bool" where
  "tag l \<longleftrightarrow> starts_with ''#'' l"


definition demo_manifest :: string where
  "demo_manifest = ''#EXT-X-KEY:METHOD=AES-128,URI='' @ [CHR 0x22] @ ''k.bin'' @ [CHR 0x22, CHR 0x0D, nl] @ ''seg1.ts'' @ [nl]"

definition demo_rewritten :: string where
  "demo_rewritten = rewrite_manifest (\<lambda>_ r. Some (''http://up/'' @ r)) demo_manifest ''b'' (\<lambda>u. map (\<lambda>_. CHR ''T'') u) segment_path
     (Some \<lparr>ow_kind = ''vod'', ow_id = ''7''\<rparr>)"


text \<open>
  A URI that holds the other quote character is no match of the expression, so its line is passed through as
  it came, upstream host and credentials included.
\<close>

lemma quote_in_uri_leaks:
  "rewrite_manifest_line (\<lambda>_ r. Some r) ''b'' (\<lambda>_. ''T'') segment_path []
     (''#EXT-X-MAP:URI='' @ [CHR 0x22] @ ''http://up/user/pass/it'' @ [CHR 0x27] @ ''s.mp4'' @ [CHR 0x22])
   = ''#EXT-X-MAP:URI='' @ [CHR 0x22] @ ''http://up/user/pass/it'' @ [CHR 0x27] @ ''s.mp4'' @ [CHR 0x22]"
  by code_simp

section \<open>Limits\<close>

lemma read_capped_bound: "read_capped limit buf cs = CapText b \<Longrightarrow> length buf \<le> limit \<Longrightarrow> length b \<le> limit"
  by (induction limit buf cs rule: read_capped.induct) (auto split: if_splits)

lemma fetched_body:
  assumes "fetch_and_rewrite R timed_out upstream o1 = RpBody body"
  shows "\<not> timed_out \<and> (\<exists>u v r b. nt_parse (rw_net R) upstream = Some u \<and> fst (fetch_guarded (rw_net R) u None True) = Inr (v, r)
    \<and> read_capped (rw_max R) [] (rs_body r) = CapText b \<and> length b \<le> rw_max R
    \<and> body = rewrite_manifest (rw_join R) (utf8_lossy b) (rw_text R v) (rw_sign R) segment_path o1)"
  using assms read_capped_bound [of "rw_max R" "[]"]
  by (auto simp: fetch_and_rewrite_def upstream_status_def split: option.splits if_splits sum.splits capped.splits)

end
