(* ===== verification/Streams.thy ===== *)
theory Streams
  imports Hls Remux_Map Tracker
begin

text \<open>
  \<open>crates/iptv/src/streams.rs\<close>: grants and the non-remux byte routes.  The slots are \<open>Tracker\<close>'s and the
  remux index \<open>Remux_Map\<close>'s; here are the leases of the raw live proxies, the memory of dead feeds, the
  panel probe, the token checks and each route.  Instants are nanoseconds, the tracker's clock
  milliseconds.  Database answers, upstream answers, random ids and \<open>js_date\<close> (chrono) are arguments.
\<close>

section \<open>State\<close>

definition second :: nat where "second = 1000000000"

definition idle_ms :: nat where "idle_ms = 30000"

definition dead_feed_clean_eof :: nat where "dead_feed_clean_eof = 60 * second"

definition dead_feed_memory :: nat where "dead_feed_memory = 10 * 60 * second"

definition dead_feed_strikes_to_tag :: nat where "dead_feed_strikes_to_tag = 2"

definition probe_ok_ttl :: nat where "probe_ok_ttl = 60 * second"

definition redacted :: string where "redacted = ''another household member''"

record raw_lease =
  rl_id :: nat
  rl_sub :: string
  rl_stream :: string

record dead_feeds =
  df_dead :: "string \<rightharpoonup> nat"
  df_strikes :: "string \<rightharpoonup> nat \<times> nat"

definition no_dead_feeds :: dead_feeds where
  "no_dead_feeds = \<lparr>df_dead = Map.empty, df_strikes = Map.empty\<rparr>"

text \<open>A cancellation token is the id of its lease; \<open>sm_cancelled\<close> are the cancelled ones.\<close>

record streams =
  sm_tracker :: tracker
  sm_live :: live_state
  sm_dead :: dead_feeds
  sm_leases :: "(string, raw_lease) imap"
  sm_lease_ids :: nat
  sm_cancelled :: "nat set"
  sm_ok_until :: "nat option"

section \<open>Dead feeds\<close>

definition is_dead :: "string \<Rightarrow> nat \<Rightarrow> dead_feeds \<Rightarrow> bool \<times> dead_feeds" where
  "is_dead stream now d =
     (case df_dead d stream of
        Some e \<Rightarrow> if e > now then (True, d) else (False, d\<lparr>df_dead := (df_dead d)(stream := None)\<rparr>)
      | None \<Rightarrow> (False, d))"

definition strike :: "string \<Rightarrow> nat \<Rightarrow> dead_feeds \<Rightarrow> dead_feeds" where
  "strike stream now d =
     (let count = (case df_strikes d stream of
          Some (n, e) \<Rightarrow> if e > now then n + 1 else 1
        | None \<Rightarrow> 1)
      in if count < dead_feed_strikes_to_tag
         then d\<lparr>df_strikes := (df_strikes d)(stream \<mapsto> (count, now + dead_feed_memory))\<rparr>
         else \<lparr>df_dead = (df_dead d)(stream \<mapsto> now + dead_feed_memory), df_strikes = (df_strikes d)(stream := None)\<rparr>)"

section \<open>Leases\<close>

record lease_handle =
  lh_key :: string
  lh_id :: nat

definition lease_key :: "string \<Rightarrow> string \<Rightarrow> string" where
  "lease_key sub stream = sub @ ''|'' @ stream"

definition begin_raw_live :: "string \<Rightarrow> string \<Rightarrow> streams \<Rightarrow> lease_handle \<times> streams" where
  "begin_raw_live sub stream st =
     (let key = lease_key sub stream; i = sm_lease_ids st; prev = im_get (sm_leases st) key
      in (\<lparr>lh_key = key, lh_id = i\<rparr>,
          st\<lparr>sm_lease_ids := i + 1,
             sm_leases := im_insert key \<lparr>rl_id = i, rl_sub = sub, rl_stream = stream\<rparr> (sm_leases st),
             sm_cancelled := (case prev of None \<Rightarrow> sm_cancelled st | Some p \<Rightarrow> insert (rl_id p) (sm_cancelled st))\<rparr>))"

definition stop_raw_live :: "string \<Rightarrow> string \<Rightarrow> streams \<Rightarrow> streams" where
  "stop_raw_live sub stream st =
     (case im_get (sm_leases st) (lease_key sub stream) of
        None \<Rightarrow> st
      | Some l \<Rightarrow> st\<lparr>sm_leases := im_remove (lease_key sub stream) (sm_leases st),
                     sm_cancelled := insert (rl_id l) (sm_cancelled st)\<rparr>)"

definition other_lease :: "string \<Rightarrow> string option \<Rightarrow> raw_lease \<Rightarrow> bool" where
  "other_lease sub keep l \<longleftrightarrow> rl_sub l = sub \<and> keep \<noteq> Some (rl_stream l)"

definition stop_other_raw_lives :: "string \<Rightarrow> string option \<Rightarrow> streams \<Rightarrow> streams" where
  "stop_other_raw_lives sub keep st =
     st\<lparr>sm_leases := filter (\<lambda>(_, l). \<not> other_lease sub keep l) (sm_leases st),
        sm_cancelled := sm_cancelled st \<union> rl_id ` snd ` set (filter (\<lambda>(_, l). other_lease sub keep l) (sm_leases st))\<rparr>"

definition is_current :: "lease_handle \<Rightarrow> streams \<Rightarrow> bool" where
  "is_current h st \<longleftrightarrow> map_option rl_id (im_get (sm_leases st) (lh_key h)) = Some (lh_id h)"

definition dispose :: "lease_handle \<Rightarrow> streams \<Rightarrow> bool \<times> streams" where
  "dispose h st =
     (if is_current h st then (True, st\<lparr>sm_leases := im_remove (lh_key h) (sm_leases st)\<rparr>) else (False, st))"

text \<open>\<open>release\<close> of \<open>live_ts\<close>: the slot goes only with the lease that is still its own.\<close>

definition release_lease :: "lease_handle \<Rightarrow> string \<Rightarrow> streams \<Rightarrow> streams" where
  "release_lease h session st =
     (case dispose h st of (own, st') \<Rightarrow> if own then st'\<lparr>sm_tracker := release (sm_tracker st') session\<rparr> else st')"

section \<open>The panel\<close>

record iptv_config =
  ic_host :: string
  ic_user :: string
  ic_pass :: string
  ic_secret :: string
  ic_streams :: nat
  ic_upstream :: nat
  ic_live_ttl :: int
  ic_ondemand_ttl :: int

record creds =
  cr_host :: string
  cr_user :: string
  cr_pass :: string

definition creds_of :: "iptv_config \<Rightarrow> creds option" where
  "creds_of c =
     (if ic_host c = [] \<or> ic_user c = [] \<or> ic_pass c = [] then None
      else Some \<lparr>cr_host = rev (dropWhile ((=) (CHR ''/'')) (rev (ic_host c))), cr_user = ic_user c, cr_pass = ic_pass c\<rparr>)"

definition success :: "nat \<Rightarrow> bool" where
  "success s \<longleftrightarrow> 200 \<le> s \<and> s < 300"

text \<open>\<open>probe\<close> is the status of the account endpoint, \<open>None\<close> for a timeout or a refused hop, and
  \<open>probed\<close> the instant it answered.\<close>

definition panel_up :: "iptv_config \<Rightarrow> nat \<Rightarrow> nat \<Rightarrow> nat option \<Rightarrow> streams \<Rightarrow> bool \<times> streams" where
  "panel_up c now probed probe st =
     (if creds_of c = None then (False, st)
      else if (case sm_ok_until st of None \<Rightarrow> False | Some t \<Rightarrow> now < t) then (True, st)
      else if (case probe of None \<Rightarrow> False | Some s \<Rightarrow> success s)
           then (True, st\<lparr>sm_ok_until := Some (probed + probe_ok_ttl)\<rparr>)
           else (False, st))"

section \<open>Tokens\<close>

record principal_claims =
  pc_sub :: string
  pc_role :: string

record widget_view =
  sv_session :: session
  sv_resolved :: "string option"
  sv_hidden :: bool

datatype stream_reply =
  RyError nat string
| RyUnauthorized string "string option"
| RyLimit nat nat "widget_view list"
| RySourceUnavailable
| RyDvrSession
| RyReleased string
| RySessions string "widget_view list"
| RyGrant string string "string option" "string option"

definition is_digits :: "string \<Rightarrow> bool" where
  "is_digits s \<longleftrightarrow> s \<noteq> [] \<and> list_all is_digit s"

definition positive_minutes :: "string \<Rightarrow> nat option" where
  "positive_minutes s =
     (if is_digits s \<and> 0 < dec_val s \<and> dec_val s \<le> 9007199254740991 then Some (dec_val s) else None)"

definition client_ip :: "headers \<Rightarrow> string option" where
  "client_ip h =
     (let get = (\<lambda>k. Option.bind (header_get h k) header_to_str) in
      case Option.bind (get ''cf-connecting-ip'') (\<lambda>s. if trim_by rust_space s \<noteq> [] then Some (trim_by rust_space s) else None) of
        Some cf \<Rightarrow> Some cf
      | None \<Rightarrow> Option.bind (get ''x-forwarded-for'') (\<lambda>s.
          find (\<lambda>x. x \<noteq> []) (map (trim_by rust_space) (split_on (CHR '','') s))))"

definition caller :: "principal_claims option \<Rightarrow> stream_reply + string \<times> bool" where
  "caller claims = ok_or (RyUnauthorized ''unauthorized'' None) (map_option (\<lambda>c. (pc_sub c, pc_role c = ''admin'')) claims)"

definition member_sub :: "principal_claims option \<Rightarrow> string \<Rightarrow> stream_reply + string" where
  "member_sub claims token_sub =
     (case parse_sub token_sub of
        Inl _ \<Rightarrow> Inl (RyUnauthorized ''invalid_token'' (Some ''sub_invalid_format''))
      | Inr p \<Rightarrow>
          if (case claims of None \<Rightarrow> False | Some c \<Rightarrow> pc_sub c \<noteq> sub_raw p)
          then Inl (RyUnauthorized ''invalid_token'' (Some ''sub_mismatch''))
          else Inr (sub_raw p))"

definition check_stream_token ::
  "token_lib \<Rightarrow> iptv_config \<Rightarrow> principal_claims option \<Rightarrow> string \<Rightarrow> stream_kind \<Rightarrow> string option \<Rightarrow> int
    \<Rightarrow> stream_reply + string \<times> string" where
  "check_stream_token L c claims token k rid clock =
     (case iptv_verify L (ic_secret c) token clock of
        Inl d \<Rightarrow> Inl (RyUnauthorized ''invalid_token'' (Some d))
      | Inr t \<Rightarrow>
          if c_k t \<noteq> k \<or> (case rid of None \<Rightarrow> False | Some r \<Rightarrow> r \<noteq> c_rid t)
          then Inl (RyUnauthorized (if rid = None then ''invalid_token'' else ''token_mismatch'') None)
          else result_bind (member_sub claims (c_sub t)) (\<lambda>sub. Inr (sub, c_rid t)))"

section \<open>Slots\<close>

text \<open>The names the sessions widget shows, from the catalog tables.\<close>

record catalog_names =
  cn_channel :: "int \<Rightarrow> string option"
  cn_vod :: "int \<Rightarrow> string option"
  cn_episode :: "string \<Rightarrow> (string option \<times> int) option"
  cn_series :: "int \<Rightarrow> string option"
  cn_num :: "string \<Rightarrow> int option"

definition em_dash :: string where "em_dash = [CHR 0x20, CHR 0xE2, CHR 0x80, CHR 0x94, CHR 0x20]"

definition session_title :: "catalog_names \<Rightarrow> kind \<Rightarrow> string \<Rightarrow> string option" where
  "session_title N k rid =
     (case k of
        KLive \<Rightarrow> Option.bind (cn_num N rid) (cn_channel N)
      | KRemux \<Rightarrow> Option.bind (cn_num N rid) (cn_channel N)
      | KCatchup \<Rightarrow> Option.bind (cn_num N (hd (split_on (CHR ''|'') rid))) (cn_channel N)
      | KVod \<Rightarrow> Option.bind (cn_num N rid) (cn_vod N)
      | KSeries \<Rightarrow> Option.bind (cn_episode N rid) (\<lambda>(title, series_id).
          case cn_series N series_id of
            Some series \<Rightarrow>
              (case title of
                 Some t \<Rightarrow> Some (if t = [] then series else series @ em_dash @ t)
               | None \<Rightarrow> Some series)
          | None \<Rightarrow> title))"

definition enrich :: "catalog_names \<Rightarrow> session list \<Rightarrow> string \<Rightarrow> bool \<Rightarrow> widget_view list" where
  "enrich N ss caller_sub admin = map (\<lambda>s.
     let resolved = (case se_title s of Some t \<Rightarrow> Some t | None \<Rightarrow> session_title N (se_kind s) (se_resource s)) in
     if \<not> admin \<and> se_sub s \<noteq> caller_sub
     then \<lparr>sv_session = s\<lparr>se_sub := [], se_ip := None, se_title := Some redacted\<rparr>, sv_resolved = Some redacted, sv_hidden = True\<rparr>
     else \<lparr>sv_session = s, sv_resolved = resolved, sv_hidden = False\<rparr>) ss"

definition limit_429 :: "catalog_names \<Rightarrow> limit \<Rightarrow> string \<Rightarrow> bool \<Rightarrow> stream_reply" where
  "limit_429 N l caller_sub admin = RyLimit (lt_limit l) (lt_current l) (enrich N (lt_sessions l) caller_sub admin)"

definition live_kind_cap :: "iptv_config \<Rightarrow> nat" where
  "live_kind_cap c = min (ic_streams c) (ic_upstream c)"

fun kind_name :: "kind \<Rightarrow> string" where
  "kind_name KLive = ''live''"
| "kind_name KVod = ''vod''"
| "kind_name KSeries = ''series''"
| "kind_name KCatchup = ''catchup''"
| "kind_name KRemux = ''remux''"

definition on_tracker :: "(tracker \<Rightarrow> 'a \<times> tracker) \<Rightarrow> streams \<Rightarrow> 'a \<times> streams" where
  "on_tracker f st = (case f (sm_tracker st) of (a, tk) \<Rightarrow> (a, st\<lparr>sm_tracker := tk\<rparr>))"

definition hold_slot :: "catalog_names \<Rightarrow> headers \<Rightarrow> string \<Rightarrow> kind \<Rightarrow> string \<Rightarrow> nat \<Rightarrow> streams \<Rightarrow> stream_reply option \<times> streams" where
  "hold_slot N h sub k rid ms st =
     (case on_tracker (\<lambda>tk. heartbeat_by_resource tk ms sub k rid) st of
        (beat, st1) \<Rightarrow>
          if beat then (None, st1)
          else (case on_tracker (\<lambda>tk. try_acquire tk ms
              \<lparr>aq_sub = sub, aq_session = kind_name k @ '':'' @ rid @ '':'' @ sub @ '':'' @ dec_nat ms, aq_kind = k, aq_resource = rid,
               aq_ip = client_ip h, aq_title = session_title N k rid, aq_kind_cap = None, aq_replace_live = False\<rparr>) st1 of
            (Inr _, st2) \<Rightarrow> (None, st2)
          | (Inl l, st2) \<Rightarrow> (Some (limit_429 N l sub False), st2)))"

section \<open>The sessions widget\<close>

definition iptv_sessions :: "catalog_names \<Rightarrow> principal_claims option \<Rightarrow> nat \<Rightarrow> streams \<Rightarrow> stream_reply \<times> streams" where
  "iptv_sessions N claims ms st =
     (case caller claims of
        Inl r \<Rightarrow> (r, st)
      | Inr (sub, admin) \<Rightarrow>
          (case on_tracker (\<lambda>tk. list_sessions tk ms) st of
             (ss, st1) \<Rightarrow> (RySessions sub (enrich N (filter (\<lambda>s. admin \<or> se_sub s = sub) ss) sub True), st1)))"

text \<open>The remux sessions a call asks to stop are the third component.\<close>

definition release_session ::
  "remux_view \<Rightarrow> principal_claims option \<Rightarrow> string \<Rightarrow> nat \<Rightarrow> streams \<Rightarrow> stream_reply \<times> streams \<times> (string \<times> string) list" where
  "release_session R claims sid ms st =
     (case caller claims of
        Inl r \<Rightarrow> (r, st, [])
      | Inr (sub, admin) \<Rightarrow>
          (case on_tracker (\<lambda>tk. list_sessions tk ms) st of
             (ss, st1) \<Rightarrow>
               (case find (\<lambda>s. se_id s = sid) ss of
                  None \<Rightarrow> (RyError 404 ''not_found'', st1, [])
                | Some t \<Rightarrow>
                    if \<not> admin \<and> se_sub t \<noteq> sub then (RyError 403 ''forbidden'', st1, [])
                    else if starts_with ''dvr:'' (se_sub t) then (RyDvrSession, st1, [])
                    else (let st2 = st1\<lparr>sm_tracker := release (sm_tracker st1) sid\<rparr> in
                      case se_kind t of
                        KLive \<Rightarrow> (RyReleased sid, stop_raw_live (se_sub t) (se_resource t) st2, [])
                      | KRemux \<Rightarrow>
                          (case get_active R (se_resource t) (se_sub t) (sm_live st2) of
                             (None, lv) \<Rightarrow> (RyReleased sid, st2\<lparr>sm_live := lv\<rparr>, [])
                           | (Some e, lv) \<Rightarrow>
                               (case forget (se_resource t) (se_sub t) (le_session e) lv of
                                  (lv', stops) \<Rightarrow> (RyReleased sid, st2\<lparr>sm_live := lv'\<rparr>, stops)))
                      | _ \<Rightarrow> (RyReleased sid, st2, [])))))"

section \<open>Grants\<close>

text \<open>What a request brings besides its path: the clocks, the probe's answer and fresh ids.\<close>

record request_env =
  rq_lib :: token_lib
  rq_config :: iptv_config
  rq_names :: catalog_names
  rq_claims :: "principal_claims option"
  rq_headers :: headers
  rq_mono :: nat
  rq_ms :: nat
  rq_clock :: int
  rq_probe :: "nat option"
  rq_probed :: nat
  rq_uuid :: string
  rq_ulid :: string

definition grant_token :: "request_env \<Rightarrow> stream_kind \<Rightarrow> string \<Rightarrow> string \<Rightarrow> int \<Rightarrow> string" where
  "grant_token Q k rid sub ttl = iptv_sign (rq_lib Q) (ic_secret (rq_config Q)) k rid sub ttl None (rq_ulid Q) (rq_clock Q)"

definition live_grant ::
  "request_env \<Rightarrow> remux_view \<Rightarrow> string \<Rightarrow> bool \<Rightarrow> bool \<Rightarrow> streams \<Rightarrow> stream_reply \<times> streams \<times> (string \<times> string) list" where
  "live_grant Q R sid remux preview st =
     (if \<not> is_digits sid then (RyError 400 ''invalid_id'', st, [])
      else case panel_up (rq_config Q) (rq_mono Q) (rq_probed Q) (rq_probe Q) st of
        (up, st1) \<Rightarrow>
          if \<not> up then (RySourceUnavailable, st1, [])
          else case caller (rq_claims Q) of
            Inl r \<Rightarrow> (r, st1, [])
          | Inr (sub, admin) \<Rightarrow>
              (case (if preview \<and> remux then on_tracker (\<lambda>tk. find_session tk (rq_ms Q) sub KRemux sid) st1 else (None, st1)) of
                 (found, st2) \<Rightarrow>
                   (let borrowed = (found \<noteq> None);
                        session = ''live:'' @ sid @ '':'' @ sub @ '':'' @ rq_uuid Q;
                        (acquired, st3) =
                          (if borrowed then (Inr (), st2)
                           else on_tracker (\<lambda>tk. try_acquire tk (rq_ms Q)
                             \<lparr>aq_sub = sub, aq_session = session, aq_kind = (if remux then KRemux else KLive), aq_resource = sid,
                              aq_ip = client_ip (rq_headers Q), aq_title = session_title (rq_names Q) KLive sid,
                              aq_kind_cap = Some (live_kind_cap (rq_config Q)), aq_replace_live = \<not> preview\<rparr>) st2)
                    in case acquired of
                         Inl l \<Rightarrow> (limit_429 (rq_names Q) l sub admin, st3, [])
                       | Inr _ \<Rightarrow>
                           (let (st4, stops) =
                              (if preview then (st3, [])
                               else (let st' = stop_other_raw_lives sub None st3 in
                                 case drop_others sub (if remux then sid else []) (sm_live st') of
                                   (_, lv, ss) \<Rightarrow> (st'\<lparr>sm_live := lv\<rparr>, ss)));
                              ttl = ic_live_ttl (rq_config Q);
                              url = (if remux
                                then ''/api/iptv/stream/live/'' @ sid @ ''/remux/index.m3u8?t='' @ grant_token Q Remux sid sub ttl
                                else ''/api/iptv/stream/live/'' @ sid @ ''.ts?t='' @ grant_token Q Live sid sub ttl)
                            in (RyGrant url (if remux then ''hls'' else ''mpegts'') None (if borrowed then None else Some session),
                                st4, stops)))))"

definition day_ms :: int where "day_ms = 24 * 60 * 60 * 1000"

definition catchup_rid :: "string \<Rightarrow> string \<Rightarrow> nat \<Rightarrow> string" where
  "catchup_rid sid start duration = sid @ ''|'' @ start @ ''|'' @ dec_nat duration"

text \<open>\<open>row\<close> is the channel's \<open>tv_archive\<close> and \<open>tv_archive_duration\<close>.\<close>

definition catchup_grant ::
  "request_env \<Rightarrow> (string \<Rightarrow> int option) \<Rightarrow> (int \<times> int option) option \<Rightarrow> string \<Rightarrow> string \<Rightarrow> string \<Rightarrow> streams
    \<Rightarrow> stream_reply \<times> streams" where
  "catchup_grant Q js_date row sid start_utc duration_min st =
     (if \<not> is_digits sid then (RyError 400 ''invalid_id'', st)
      else case (if start_utc = [] then None else js_date start_utc, positive_minutes duration_min) of
        (Some start, Some duration) \<Rightarrow>
          if CHR ''|'' \<in> set start_utc then (RyError 400 ''rid_invalid'', st)
          else (case row of
            None \<Rightarrow> (RyError 404 ''not_found'', st)
          | Some (archive, days) \<Rightarrow>
              if archive \<noteq> 1 then (RyError 400 ''catchup_unavailable'', st)
              else if start < int (rq_ms Q) - (case days of None \<Rightarrow> 7 | Some d \<Rightarrow> d) * day_ms
              then (RyError 400 ''beyond_archive_window'', st)
              else (case panel_up (rq_config Q) (rq_mono Q) (rq_probed Q) (rq_probe Q) st of
                (up, st1) \<Rightarrow>
                  if \<not> up then (RySourceUnavailable, st1)
                  else case caller (rq_claims Q) of
                    Inl r \<Rightarrow> (r, st1)
                  | Inr (sub, admin) \<Rightarrow>
                      (let rid = catchup_rid sid start_utc duration;
                           session = ''catchup:'' @ sid @ '':'' @ start_utc @ '':'' @ sub @ '':'' @ dec_nat (rq_ms Q)
                       in case on_tracker (\<lambda>tk. try_acquire tk (rq_ms Q)
                            \<lparr>aq_sub = sub, aq_session = session, aq_kind = KCatchup, aq_resource = rid,
                             aq_ip = client_ip (rq_headers Q), aq_title = session_title (rq_names Q) KCatchup rid,
                             aq_kind_cap = None, aq_replace_live = False\<rparr>) st1 of
                          (Inl l, st2) \<Rightarrow> (limit_429 (rq_names Q) l sub admin, st2)
                        | (Inr _, st2) \<Rightarrow>
                            (RyGrant (''/api/iptv/stream/catchup/'' @ sid @ ''/'' @ encode_uri_component start_utc @ ''/''
                                @ dec_nat duration @ ''.ts?t='' @ grant_token Q Catchup rid sub (ic_ondemand_ttl (rq_config Q)))
                              ''mpegts'' None (Some session), st2))))
      | _ \<Rightarrow> (RyError 400 ''invalid_params'', st))"

definition mime :: "string \<Rightarrow> bool \<Rightarrow> string" where
  "mime ext hls =
     (if hls then ''application/vnd.apple.mpegurl''
      else if ext = ''mkv'' then ''video/x-matroska'' else ''video/mp4'')"

definition on_demand_grant :: "request_env \<Rightarrow> stream_kind \<Rightarrow> string \<Rightarrow> string \<Rightarrow> string option \<Rightarrow> string \<Rightarrow> stream_reply" where
  "on_demand_grant Q k sid sub ext session =
     (let e = to_lower (or_default ''mp4'' ext); hls = (e = ''m3u8'')
      in RyGrant (''/api/iptv/stream/'' @ as_wire k @ ''/'' @ sid @ ''/'' @ e @ ''?t='' @ grant_token Q k sid sub (ic_ondemand_ttl (rq_config Q)))
           (if hls then ''hls'' else ''progressive'') (Some (mime e hls)) (Some session))"

text \<open>\<open>vod_grant\<close> and \<open>series_grant\<close>: the row gives the title (VOD) and the container extension.\<close>

definition vod_grant ::
  "request_env \<Rightarrow> bool \<Rightarrow> (string option \<times> string option) option \<Rightarrow> string \<Rightarrow> streams \<Rightarrow> stream_reply \<times> streams" where
  "vod_grant Q series row sid st =
     (let k = (if series then KSeries else KVod) in
      if \<not> (if series then is_word_id sid else is_digits sid) then (RyError 400 ''invalid_id'', st)
      else case caller (rq_claims Q) of
        Inl r \<Rightarrow> (r, st)
      | Inr (sub, admin) \<Rightarrow>
          (case row of
             None \<Rightarrow> (RyError 404 ''not_found'', st)
           | Some (title, ext) \<Rightarrow>
               (case panel_up (rq_config Q) (rq_mono Q) (rq_probed Q) (rq_probe Q) st of
                  (up, st1) \<Rightarrow>
                    if \<not> up then (RySourceUnavailable, st1)
                    else (let session = kind_name k @ '':'' @ sid @ '':'' @ sub @ '':'' @ dec_nat (rq_ms Q) in
                      case on_tracker (\<lambda>tk. try_acquire tk (rq_ms Q)
                          \<lparr>aq_sub = sub, aq_session = session, aq_kind = k, aq_resource = sid, aq_ip = client_ip (rq_headers Q),
                           aq_title = (if series then session_title (rq_names Q) KSeries sid else title),
                           aq_kind_cap = None, aq_replace_live = False\<rparr>) st1 of
                        (Inl l, st2) \<Rightarrow> (limit_429 (rq_names Q) l sub admin, st2)
                      | (Inr _, st2) \<Rightarrow> (on_demand_grant Q (if series then Series else Vod) sid sub ext session, st2)))))"

end
