(* ===== verification/Stream_Bytes.thy ===== *)
theory Stream_Bytes
  imports Streams
begin

text \<open>
  The byte routes of \<open>crates/iptv/src/streams.rs\<close>: the watched body and its hooks, the raw live proxy with
  its drain and its walk over the sibling feeds, catch-up, VOD and series bytes, the live remux playlist
  and segments, and the signed HLS segments.  What the rest of the process does while a route waits is an
  argument (\<open>others\<close>, a function on the state); upstream answers are \<open>Ssrf\<close>'s \<open>net\<close>.
\<close>

section \<open>The watched body\<close>

definition heartbeat_throttle :: nat where "heartbeat_throttle = 5 * second"

definition drain_wait :: nat where "drain_wait = 6 * second"

text \<open>The hooks of a body, by the route that made it.\<close>

record raw_watch =
  rv_lease :: lease_handle
  rv_session :: string
  rv_sub :: string
  rv_stream :: string
  rv_feed :: string
  rv_dialed :: nat

datatype watch =
  NoWatch
| RawWatch raw_watch
| CatchupWatch string string
| DemandWatch kind string string

definition release_resource :: "string \<Rightarrow> kind \<Rightarrow> string \<Rightarrow> streams \<Rightarrow> streams" where
  "release_resource sub k rid st = snd (on_tracker (\<lambda>tk. release_by_resource tk sub k rid) st)"

fun on_abort :: "watch \<Rightarrow> streams \<Rightarrow> streams" where
  "on_abort NoWatch st = st"
| "on_abort (RawWatch v) st = release_lease (rv_lease v) (rv_session v) st"
| "on_abort (CatchupWatch sub rid) st = release_resource sub KCatchup rid st"
| "on_abort (DemandWatch k sub rid) st = release_resource sub k rid st"

fun beat :: "watch \<Rightarrow> nat \<Rightarrow> streams \<Rightarrow> bool \<times> streams" where
  "beat (RawWatch v) ms st =
     (if \<not> is_current (rv_lease v) st then (False, st)
      else case on_tracker (\<lambda>tk. has_session tk ms (rv_session v)) st of
        (has, st1) \<Rightarrow>
          if \<not> has then (False, st1)
          else (True, snd (on_tracker (\<lambda>tk. heartbeat_by_resource tk ms (rv_sub v) KLive (rv_stream v)) st1)))"
| "beat (CatchupWatch sub rid) ms st = (True, snd (on_tracker (\<lambda>tk. heartbeat_by_resource tk ms sub KCatchup rid) st))"
| "beat _ ms st = (True, st)"

fun on_eof :: "watch \<Rightarrow> nat \<Rightarrow> streams \<Rightarrow> streams" where
  "on_eof (RawWatch v) now st =
     (if \<not> is_current (rv_lease v) st then st
      else release_lease (rv_lease v) (rv_session v)
        (if now - rv_dialed v \<le> dead_feed_clean_eof then st\<lparr>sm_dead := strike (rv_feed v) now (sm_dead st)\<rparr> else st))"
| "on_eof _ now st = st"

fun beats :: "watch \<Rightarrow> bool" where
  "beats (RawWatch _) = True"
| "beats (CatchupWatch _ _) = True"
| "beats _ = False"

record body =
  bd_watch :: watch
  bd_beat :: "nat option"
  bd_open :: bool
  bd_failed :: bool

definition watched_body :: "watch \<Rightarrow> body" where
  "watched_body w = \<lparr>bd_watch = w, bd_beat = None, bd_open = True, bd_failed = False\<rparr>"

text \<open>
  What the client's next pull finds: a chunk, the clean end, an upstream error, or a channel the pump closed
  (a stop).  \<open>EvDrop\<close> is the client gone.
\<close>

datatype body_event = EvChunk string | EvEof | EvError | EvClosed | EvDrop

definition close_body :: "body \<Rightarrow> streams \<Rightarrow> body \<times> string option \<times> streams" where
  "close_body b st = (b\<lparr>bd_open := False\<rparr>, None, on_abort (bd_watch b) st)"

definition body_step :: "body \<Rightarrow> nat \<times> nat \<times> body_event \<Rightarrow> streams \<Rightarrow> body \<times> string option \<times> streams" where
  "body_step b ev st =
     (case ev of (now, ms, e) \<Rightarrow>
        if \<not> bd_open b then (b, None, st)
        else if bd_failed b then close_body b st
        else case e of
          EvChunk c \<Rightarrow>
            if beats (bd_watch b) \<and> (case bd_beat b of None \<Rightarrow> True | Some t \<Rightarrow> heartbeat_throttle \<le> now - t)
            then (case beat (bd_watch b) ms st of
                    (alive, st1) \<Rightarrow>
                      if alive then (b\<lparr>bd_beat := Some now\<rparr>, Some c, st1) else close_body (b\<lparr>bd_beat := Some now\<rparr>) st1)
            else (b, Some c, st)
        | EvEof \<Rightarrow> (b\<lparr>bd_open := False\<rparr>, None, on_eof (bd_watch b) now st)
        | EvError \<Rightarrow> (b\<lparr>bd_failed := True\<rparr>, None, st)
        | EvClosed \<Rightarrow> close_body b st
        | EvDrop \<Rightarrow> close_body b st)"

section \<open>Replies\<close>

datatype byte_reply =
  BySimple stream_reply
| ByInternal
| ByRewritten reply
| ByPlaylist string
| ByFile string
| ByOffline
| ByWarming
| ByStream nat string "(string \<times> string) list" body

definition proxied_headers :: "response \<Rightarrow> (string \<times> string) list" where
  "proxied_headers r =
     List.map_filter (\<lambda>n. map_option (Pair n) (map_of (rs_headers r) n)) [''content-length'', ''content-range'', ''accept-ranges'']"

definition proxied :: "response \<Rightarrow> string \<Rightarrow> watch \<Rightarrow> byte_reply" where
  "proxied r content_type w = ByStream (rs_status r) content_type (proxied_headers r) (watched_body w)"

definition simple :: "nat \<Rightarrow> string \<Rightarrow> byte_reply" where
  "simple status e = BySimple (RyError status e)"

section \<open>Raw live\<close>

definition ts_stem :: "string \<Rightarrow> string option" where
  "ts_stem file = (if ends_with ''.ts'' file then Some (take (length file - 3) file) else None)"

definition live_slot :: "request_env \<Rightarrow> string \<Rightarrow> string \<Rightarrow> streams \<Rightarrow> (stream_reply + string) \<times> streams" where
  "live_slot Q sub sid st =
     (case on_tracker (\<lambda>tk. find_session tk (rq_ms Q) sub KLive sid) st of
        (Some s, st1) \<Rightarrow> (Inr (se_id s), st1)
      | (None, st1) \<Rightarrow>
          (let session = ''live:'' @ sid @ '':'' @ sub @ '':'' @ rq_uuid Q in
           case on_tracker (\<lambda>tk. try_acquire tk (rq_ms Q)
               \<lparr>aq_sub = sub, aq_session = session, aq_kind = KLive, aq_resource = sid, aq_ip = client_ip (rq_headers Q),
                aq_title = session_title (rq_names Q) KLive sid, aq_kind_cap = Some (live_kind_cap (rq_config Q)),
                aq_replace_live = False\<rparr>) st1 of
             (Inl l, st2) \<Rightarrow> (Inl (limit_429 (rq_names Q) l sub False), st2)
           | (Inr _, st2) \<Rightarrow> (Inr session, st2)))"

definition live_admit :: "request_env \<Rightarrow> string \<Rightarrow> string \<Rightarrow> streams \<Rightarrow> (stream_reply + string \<times> string \<times> string) \<times> streams" where
  "live_admit Q file token st =
     (case ts_stem file of
        None \<Rightarrow> (Inl (RyError 404 ''not_found''), st)
      | Some sid \<Rightarrow>
          if sid = [] then (Inl (RyError 404 ''not_found''), st)
          else (case check_stream_token (rq_lib Q) (rq_config Q) (rq_claims Q) token Live (Some sid) (rq_clock Q) of
            Inl r \<Rightarrow> (Inl r, st)
          | Inr (sub, _) \<Rightarrow>
              (case live_slot Q sub sid st of
                 (Inl r, st1) \<Rightarrow> (Inl r, st1)
               | (Inr session, st1) \<Rightarrow>
                   (Inr (sid, sub, session), snd (on_tracker (\<lambda>tk. heartbeat_by_resource tk (rq_ms Q) sub KLive sid) st1)))))"

text \<open>
  The wait for draining sockets.  A poll is the number of provider connections, what the others do during the
  100 ms after it, and the clock then; the list ends where \<open>drain_wait\<close> is over.  \<open>False\<close> when the slot is gone.
\<close>

fun live_drain :: "nat \<Rightarrow> string \<Rightarrow> (nat \<times> (streams \<Rightarrow> streams) \<times> nat) list \<Rightarrow> streams \<Rightarrow> bool \<times> streams" where
  "live_drain cap session [] st = (True, st)"
| "live_drain cap session ((n, others, ms) # ps) st =
     (if n \<le> cap then (True, st)
      else case on_tracker (\<lambda>tk. has_session tk ms session) (others st) of
        (has, st1) \<Rightarrow> if has then live_drain cap session ps st1 else (False, st1))"

definition feed_url :: "creds \<Rightarrow> string \<Rightarrow> string" where
  "feed_url c feed =
     cr_host c @ ''/live/'' @ encode_uri_component (cr_user c) @ ''/'' @ encode_uri_component (cr_pass c) @ ''/'' @ feed @ ''.ts''"

datatype dialed = Dialed string response | NoFeed | Superseded | Broken

text \<open>
  One pass over the candidates.  \<open>clk\<close> is the instant a candidate is looked up, \<open>others\<close> what the process does
  while it is dialed; a lease cancelled by then drops the dial, whatever the answer.
\<close>

fun live_dial ::
  "net \<Rightarrow> (string \<Rightarrow> nat) \<Rightarrow> (string \<Rightarrow> streams \<Rightarrow> streams) \<Rightarrow> creds \<Rightarrow> lease_handle \<Rightarrow> string list \<Rightarrow> streams \<Rightarrow> dialed \<times> streams" where
  "live_dial N clk others c h [] st = (NoFeed, st)"
| "live_dial N clk others c h (f # fs) st =
     (case is_dead f (clk f) (sm_dead st) of
        (dead, d) \<Rightarrow>
          (let st1 = st\<lparr>sm_dead := d\<rparr> in
           if dead then live_dial N clk others c h fs st1
           else case nt_parse N (feed_url c f) of
             None \<Rightarrow> (Broken, st1)
           | Some u \<Rightarrow>
               (let st2 = others f st1 in
                if lh_id h \<in> sm_cancelled st2 then (Superseded, st2)
                else case fst (fetch_guarded N u None False) of
                  Inr (_, r) \<Rightarrow> if success (rs_status r) then (Dialed f r, st2) else live_dial N clk others c h fs st2
                | Inl e \<Rightarrow> if is_blocked e then live_dial N clk others c h fs st2 else (Broken, st2))))"

record live_env =
  le_polls :: "(nat \<times> (streams \<Rightarrow> streams) \<times> nat) list"
  le_upstream :: nat
  le_listed :: nat
  le_feeds :: "string list option"
  le_net :: net
  le_at :: "string \<Rightarrow> nat"
  le_others :: "string \<Rightarrow> streams \<Rightarrow> streams"
  le_dialed_at :: nat

definition live_headers :: "(string \<times> string) list" where
  "live_headers = [(''cache-control'', ''no-store, no-transform''), (''x-accel-buffering'', ''no'')]"

text \<open>From the lease on: every way out but the body runs the abort hook, which drops lease and slot.\<close>

definition live_proxy :: "live_env \<Rightarrow> creds \<Rightarrow> string list \<Rightarrow> string \<Rightarrow> string \<Rightarrow> string \<Rightarrow> streams \<Rightarrow> byte_reply \<times> streams" where
  "live_proxy E c feeds sid sub session st =
     (case begin_raw_live sub sid st of
        (h, st1) \<Rightarrow>
          (case live_dial (le_net E) (le_at E) (le_others E) c h feeds st1 of
             (Broken, st2) \<Rightarrow> (ByInternal, release_lease h session st2)
           | (Superseded, st2) \<Rightarrow> (simple 410 ''session_gone'', release_lease h session (release_lease h session st2))
           | (NoFeed, st2) \<Rightarrow> (simple 503 ''channel_offline_upstream'', release_lease h session st2)
           | (Dialed f r, st2) \<Rightarrow>
               (ByStream 200 ''video/mp2t'' live_headers (watched_body (RawWatch \<lparr>rv_lease = h, rv_session = session,
                  rv_sub = sub, rv_stream = sid, rv_feed = f, rv_dialed = le_dialed_at E\<rparr>)), st2)))"

definition live_ts :: "request_env \<Rightarrow> live_env \<Rightarrow> string \<Rightarrow> string \<Rightarrow> streams \<Rightarrow> byte_reply \<times> streams" where
  "live_ts Q E file token st =
     (case live_admit Q file token st of
        (Inl r, st1) \<Rightarrow> (BySimple r, st1)
      | (Inr (sid, sub, session), st1) \<Rightarrow>
          (case live_drain (ic_upstream (rq_config Q)) session (le_polls E) st1 of
             (False, st2) \<Rightarrow> (simple 410 ''session_gone'', st2)
           | (True, st2) \<Rightarrow>
               if le_upstream E > ic_upstream (rq_config Q)
               then (case on_tracker (\<lambda>tk. list_sessions tk (rq_ms Q)) (st2\<lparr>sm_tracker := release (sm_tracker st2) session\<rparr>) of
                       (ss, st3) \<Rightarrow>
                         (BySimple (RyLimit (ic_upstream (rq_config Q)) (le_listed E) (enrich (rq_names Q) ss sub False)), st3))
               else (case creds_of (rq_config Q) of
                 None \<Rightarrow> (ByInternal, st2)
               | Some c \<Rightarrow>
                   (case le_feeds E of
                      None \<Rightarrow> (ByInternal, st2)
                    | Some feeds \<Rightarrow> live_proxy E c feeds sid sub session st2))))"

section \<open>Catch-up\<close>

text \<open>\<open>start\<close> parses and prints the start instant (chrono) as the panel's \<open>%Y-%m-%d:%H-%M\<close>.\<close>

definition fetch_reply ::
  "net \<Rightarrow> url \<Rightarrow> string option \<Rightarrow> bool \<Rightarrow> (response \<Rightarrow> byte_reply) \<Rightarrow> byte_reply" where
  "fetch_reply N u rng guard_first answer =
     (case fst (fetch_guarded N u rng guard_first) of
        Inr (_, r) \<Rightarrow> if success (rs_status r) then answer r else ByRewritten (upstream_status (rs_status r))
      | Inl e \<Rightarrow> if is_blocked e then simple 400 ''bad_upstream'' else ByInternal)"

definition catchup_url :: "creds \<Rightarrow> string \<Rightarrow> string \<Rightarrow> nat \<Rightarrow> string" where
  "catchup_url c sid start duration =
     cr_host c @ ''/streaming/timeshift.php?username='' @ encode_uri_component (cr_user c) @ ''&password=''
       @ encode_uri_component (cr_pass c) @ ''&stream='' @ sid @ ''&start='' @ start @ ''&duration='' @ dec_nat duration"

definition catchup_ts ::
  "request_env \<Rightarrow> net \<Rightarrow> (string \<Rightarrow> string option) \<Rightarrow> string \<Rightarrow> string \<Rightarrow> string \<Rightarrow> string \<Rightarrow> streams \<Rightarrow> byte_reply \<times> streams" where
  "catchup_ts Q N start_of sid start_utc file token st =
     (if \<not> is_digits sid then (simple 400 ''invalid_id'', st)
      else case (Option.bind (ts_stem file) positive_minutes, start_of start_utc) of
        (Some duration, Some start) \<Rightarrow>
          (let rid = catchup_rid sid start_utc duration in
           case check_stream_token (rq_lib Q) (rq_config Q) (rq_claims Q) token Catchup (Some rid) (rq_clock Q) of
             Inl r \<Rightarrow> (BySimple r, st)
           | Inr (sub, _) \<Rightarrow>
               (case hold_slot (rq_names Q) (rq_headers Q) sub KCatchup rid (rq_ms Q) st of
                  (Some r, st1) \<Rightarrow> (BySimple r, st1)
                | (None, st1) \<Rightarrow>
                    (case creds_of (rq_config Q) of
                       None \<Rightarrow> (ByInternal, st1)
                     | Some c \<Rightarrow>
                         (case nt_parse N (catchup_url c sid start duration) of
                            None \<Rightarrow> (simple 400 ''bad_upstream'', st1)
                          | Some u \<Rightarrow>
                              (fetch_reply N u None False
                                 (\<lambda>r. ByStream 200 ''video/mp2t'' [(''cache-control'', ''no-store'')] (watched_body (CatchupWatch sub rid))),
                               st1)))))
      | _ \<Rightarrow> (simple 400 ''invalid_params'', st))"

section \<open>VOD and series bytes\<close>

text \<open>\<open>str::to_lowercase\<close> as far as an ASCII result goes: the Kelvin sign lowers to k.\<close>

fun lower_kelvin :: "string \<Rightarrow> string" where
  "lower_kelvin (a # b # c # s) =
     (if [a, b, c] = [CHR 0xE2, CHR 0x84, CHR 0xAA] then CHR ''k'' # lower_kelvin s else a # lower_kelvin (b # c # s))"
| "lower_kelvin s = s"

definition lower_or_digit :: "char \<Rightarrow> bool" where
  "lower_or_digit c \<longleftrightarrow> is_digit c \<or> (let b = of_char c :: nat in 97 \<le> b \<and> b \<le> 122)"

definition ext_ok :: "string \<Rightarrow> bool" where
  "ext_ok e \<longleftrightarrow> 1 \<le> length e \<and> length e \<le> 5 \<and> list_all lower_or_digit e"

definition demand_url :: "creds \<Rightarrow> kind \<Rightarrow> string \<Rightarrow> string \<Rightarrow> string" where
  "demand_url c k sid ext =
     cr_host c @ ''/'' @ (if k = KVod then ''movie'' else ''series'') @ ''/'' @ encode_uri_component (cr_user c) @ ''/''
       @ encode_uri_component (cr_pass c) @ ''/'' @ sid @ ''.'' @ ext"

definition range_header :: "headers \<Rightarrow> string option" where
  "range_header h = Option.bind (header_get h ''range'') header_to_str"

definition on_demand_bytes ::
  "request_env \<Rightarrow> rewriter \<Rightarrow> bool \<Rightarrow> kind \<Rightarrow> string \<Rightarrow> string \<Rightarrow> string \<Rightarrow> streams \<Rightarrow> byte_reply \<times> streams" where
  "on_demand_bytes Q R timed_out k sid raw_ext token st =
     (let ext = to_lower (lower_kelvin raw_ext) in
      if \<not> is_word_id sid \<or> \<not> ext_ok ext then (simple 400 ''invalid_id'', st)
      else case check_stream_token (rq_lib Q) (rq_config Q) (rq_claims Q) token (if k = KVod then Vod else Series) (Some sid) (rq_clock Q) of
        Inl r \<Rightarrow> (BySimple r, st)
      | Inr (sub, _) \<Rightarrow>
          (case hold_slot (rq_names Q) (rq_headers Q) sub k sid (rq_ms Q) st of
             (Some r, st1) \<Rightarrow> (BySimple r, st1)
           | (None, st1) \<Rightarrow>
               (case creds_of (rq_config Q) of
                  None \<Rightarrow> (ByInternal, st1)
                | Some c \<Rightarrow>
                    if ext = ''m3u8''
                    then (ByRewritten (fetch_and_rewrite R timed_out (demand_url c k sid ext)
                      (Some \<lparr>ow_kind = (if k = KVod then ''vod'' else ''series''), ow_id = sid\<rparr>)), st1)
                    else (case nt_parse (rw_net R) (demand_url c k sid ext) of
                      None \<Rightarrow> (simple 400 ''bad_upstream'', st1)
                    | Some u \<Rightarrow>
                        (let w = DemandWatch k sub sid in
                         (fetch_reply (rw_net R) u (range_header (rq_headers Q)) False (\<lambda>r. proxied r (mime ext False) w), st1))))))"

section \<open>Live remux\<close>

definition start_segments :: nat where "start_segments = 4"

definition manifest_wait :: nat where "manifest_wait = 15 * second"

definition remux_unavailable :: "remux_view \<Rightarrow> string list \<Rightarrow> byte_reply" where
  "remux_unavailable R candidates = (if is_offline R candidates then ByOffline else ByWarming)"

definition on_live :: "(live_state \<Rightarrow> 'a \<times> live_state) \<Rightarrow> streams \<Rightarrow> 'a \<times> streams" where
  "on_live f st = (case f (sm_live st) of (a, lv) \<Rightarrow> (a, st\<lparr>sm_live := lv\<rparr>))"

text \<open>
  The wait for a starting window.  A poll is the playlist file as it is, what the others do in the 200 ms after,
  the clocks then and what \<open>remux.rs\<close> answers then; the list ends with \<open>manifest_wait\<close>.
\<close>

record manifest_poll =
  mp_file :: "string \<Rightarrow> string option"
  mp_others :: "streams \<Rightarrow> streams"
  mp_ms :: nat
  mp_mono :: nat
  mp_view :: remux_view

fun await_manifest ::
  "ensure_opts \<Rightarrow> string \<Rightarrow> live_entry \<Rightarrow> manifest_poll list \<Rightarrow> streams \<Rightarrow> (byte_reply + live_entry) \<times> streams" where
  "await_manifest os session e [] st = (Inr e, st)"
| "await_manifest os session e (p # ps) st =
     (if manifest_ready (mp_file p (le_manifest e)) start_segments then (Inr e, st)
      else case on_tracker (\<lambda>tk. has_session tk (mp_ms p) session) (mp_others p st) of
        (has, st1) \<Rightarrow>
          if \<not> has then (Inl (simple 410 ''session_gone''), st1)
          else (case on_live (ensure (mp_view p) os (mp_mono p)) st1 of
            (Inl _, st2) \<Rightarrow> (Inl ByInternal, st2)
          | (Inr None, st2) \<Rightarrow> (Inr e, st2)
          | (Inr (Some e'), st2) \<Rightarrow> await_manifest os session e' ps st2))"

record remux_env =
  re_view :: remux_view
  re_feeds :: "string list option"
  re_polls :: "manifest_poll list"
  re_file :: "string \<Rightarrow> string option"
  re_mint :: "string \<Rightarrow> nat \<Rightarrow> string \<Rightarrow> string"
  re_end_ms :: nat
  re_end_clock :: int

text \<open>The feed check a poll may start is \<open>feed_verify\<close>'s and only redirects later (\<open>others\<close>).\<close>

definition remux_serve ::
  "request_env \<Rightarrow> remux_env \<Rightarrow> string \<Rightarrow> string \<Rightarrow> string \<Rightarrow> string list \<Rightarrow> ensure_opts \<Rightarrow> session \<Rightarrow> live_entry \<Rightarrow> streams
    \<Rightarrow> byte_reply \<times> streams" where
  "remux_serve Q E sid token sub candidates os reservation e0 st =
     (case await_manifest os (se_id reservation) e0 (re_polls E) st of
        (Inl r, st1) \<Rightarrow> (r, st1)
      | (Inr e, st1) \<Rightarrow>
          (case re_file E (le_manifest e) of
             None \<Rightarrow> (remux_unavailable (re_view E) candidates, st1)
           | Some s \<Rightarrow>
               (case on_tracker (\<lambda>tk. has_session tk (re_end_ms E) (se_id reservation)) st1 of
                  (has, st2) \<Rightarrow>
                    if \<not> has then (simple 410 ''session_gone'', st2)
                    else (case check_stream_token (rq_lib Q) (rq_config Q) (rq_claims Q) token Remux (Some sid) (re_end_clock E) of
                      Inl r \<Rightarrow> (BySimple r, st2)
                    | Inr _ \<Rightarrow>
                        (case on_live (rewrite_live (re_mint E sub) s sid (le_session e) sub) st2 of
                           (playlist, st3) \<Rightarrow> (ByPlaylist playlist, st3))))))"

definition remux_manifest :: "request_env \<Rightarrow> remux_env \<Rightarrow> string \<Rightarrow> string \<Rightarrow> streams \<Rightarrow> byte_reply \<times> streams" where
  "remux_manifest Q E sid token st =
     (if \<not> is_digits sid then (simple 400 ''invalid_id'', st)
      else case check_stream_token (rq_lib Q) (rq_config Q) (rq_claims Q) token Remux (Some sid) (rq_clock Q) of
        Inl r \<Rightarrow> (BySimple r, st)
      | Inr (sub, _) \<Rightarrow>
          (case on_tracker (\<lambda>tk. heartbeat_by_resource tk (rq_ms Q) sub KRemux sid) st of
             (False, st1) \<Rightarrow> (simple 410 ''session_gone'', st1)
           | (True, st1) \<Rightarrow>
               (case on_tracker (\<lambda>tk. find_session tk (rq_ms Q) sub KRemux sid) st1 of
                  (None, st2) \<Rightarrow> (simple 410 ''session_gone'', st2)
                | (Some reservation, st2) \<Rightarrow>
                    (case creds_of (rq_config Q) of
                       None \<Rightarrow> (ByInternal, st2)
                     | Some c \<Rightarrow>
                         (case on_live (get_active (re_view E) sid sub) st2 of
                            (active, st3) \<Rightarrow>
                              (case (if active = None then re_feeds E else Some []) of
                                 None \<Rightarrow> (ByInternal, st3)
                               | Some candidates \<Rightarrow>
                                   (let os = \<lparr>eo_stream = sid, eo_sub = sub, eo_feeds = candidates, eo_url = feed_url c\<rparr> in
                                    case on_live (ensure (re_view E) os (rq_mono Q)) st3 of
                                      (Inl _, st4) \<Rightarrow> (ByInternal, st4)
                                    | (Inr None, st4) \<Rightarrow> (remux_unavailable (re_view E) candidates, st4)
                                    | (Inr (Some e), st4) \<Rightarrow> remux_serve Q E sid token sub candidates os reservation e st4)))))))"

text \<open>\<open>file\<close> tells which files exist under a session's directory.\<close>

definition remux_seg ::
  "request_env \<Rightarrow> remux_view \<Rightarrow> (string \<Rightarrow> bool) \<Rightarrow> string \<Rightarrow> string \<Rightarrow> streams \<Rightarrow> byte_reply \<times> streams" where
  "remux_seg Q R file sid token st =
     (if \<not> is_digits sid then (simple 400 ''invalid_id'', st)
      else case check_stream_token (rq_lib Q) (rq_config Q) (rq_claims Q) token Remux None (rq_clock Q) of
        Inl r \<Rightarrow> (BySimple r, st)
      | Inr (sub, rid) \<Rightarrow>
          (case segment_resource rid of
             None \<Rightarrow> (simple 400 ''bad_resource'', st)
           | Some (session, seg) \<Rightarrow>
               (case on_tracker (\<lambda>tk. heartbeat_by_resource tk (rq_ms Q) sub KRemux sid) st of
                  (False, st1) \<Rightarrow> (simple 410 ''session_gone'', st1)
                | (True, st1) \<Rightarrow>
                    (case on_live (get_active R sid sub) st1 of
                       (None, st2) \<Rightarrow> (simple 410 ''session_gone'', st2)
                     | (Some e, st2) \<Rightarrow>
                         if le_session e \<noteq> session then (simple 410 ''session_gone'', st2)
                         else if file (le_dir e @ ''/'' @ seg) then (ByFile (le_dir e @ ''/'' @ seg), st2)
                         else (simple 404 ''segment_gone'', st2)))))"

section \<open>Signed segments\<close>

definition segment_bytes :: "request_env \<Rightarrow> (string \<Rightarrow> rewriter) \<Rightarrow> bool \<Rightarrow> string \<Rightarrow> string option \<Rightarrow> string option \<Rightarrow> streams
    \<Rightarrow> byte_reply \<times> streams" where
  "segment_bytes Q RR timed_out token ok oid st =
     (case iptv_verify (rq_lib Q) (ic_secret (rq_config Q)) token (rq_clock Q) of
        Inl d \<Rightarrow> (BySimple (RyUnauthorized ''invalid_token'' (Some d)), st)
      | Inr t \<Rightarrow>
          if c_k t \<noteq> Segment then (BySimple (RyUnauthorized ''invalid_token'' (Some ''kind_mismatch'')), st)
          else (case member_sub (rq_claims Q) (c_sub t) of
            Inl r \<Rightarrow> (BySimple r, st)
          | Inr sub \<Rightarrow>
              (let own = parse_owner ok oid in
               case (case own of
                       None \<Rightarrow> (None, st)
                     | Some w \<Rightarrow> hold_slot (rq_names Q) (rq_headers Q) sub (if ow_kind w = ''vod'' then KVod else KSeries) (ow_id w) (rq_ms Q) st) of
                 (Some r, st1) \<Rightarrow> (BySimple r, st1)
               | (None, st1) \<Rightarrow>
                   (let N = rw_net (RR sub) in
                    case nt_parse N (c_rid t) of
                      None \<Rightarrow> (simple 400 ''bad_upstream'', st1)
                    | Some u \<Rightarrow>
                        if ends_with ''.m3u8'' (to_lower (ur_path u))
                        then (ByRewritten (fetch_and_rewrite (RR sub) timed_out (c_rid t) own), st1)
                        else (fetch_reply N u (range_header (rq_headers Q)) True (\<lambda>r. proxied r
                          (case rs_type r of None \<Rightarrow> ''application/octet-stream'' | Some ct \<Rightarrow> ct) NoWatch), st1)))))"

end
