(* ===== verification/Stream_Safety.thy ===== *)
theory Stream_Safety
  imports Stream_Bytes
begin

text \<open>
  What the routes of \<open>crates/iptv/src/streams.rs\<close> keep: one physical proxy per viewer and channel whatever
  order leases are taken, stopped and dropped in; a replaced or refused stream that cannot take a slot down
  with it; a feed that is only given up after two fast ends; and a grant that admits its bytes.
\<close>

section \<open>Leases\<close>

datatype lease_op =
  LBegin string string
| LStop string string
| LStopOthers string "string option"
| LDispose lease_handle

text \<open>The state, the handles issued so far and the ids of the leases dropped by their own handle.\<close>

type_synonym lease_log = "streams \<times> lease_handle list \<times> nat set"

fun lease_step :: "lease_log \<Rightarrow> lease_op \<Rightarrow> lease_log" where
  "lease_step (st, hs, gone) (LBegin sub stream) = (case begin_raw_live sub stream st of (h, st') \<Rightarrow> (st', hs @ [h], gone))"
| "lease_step (st, hs, gone) (LStop sub stream) = (stop_raw_live sub stream st, hs, gone)"
| "lease_step (st, hs, gone) (LStopOthers sub keep) = (stop_other_raw_lives sub keep st, hs, gone)"
| "lease_step (st, hs, gone) (LDispose h) =
     (case dispose h st of (own, st') \<Rightarrow> (st', hs, if own then insert (lh_id h) gone else gone))"

definition lease_inv :: "lease_log \<Rightarrow> bool" where
  "lease_inv s \<longleftrightarrow> (case s of (st, hs, gone) \<Rightarrow>
     im_wf (sm_leases st)
   \<and> (\<forall>k l. im_get (sm_leases st) k = Some l
        \<longrightarrow> \<lparr>lh_key = k, lh_id = rl_id l\<rparr> \<in> set hs \<and> rl_id l \<notin> sm_cancelled st \<and> rl_id l \<notin> gone)
   \<and> (\<forall>h\<in>set hs. is_current h st \<or> lh_id h \<in> sm_cancelled st \<or> lh_id h \<in> gone)
   \<and> (\<forall>i\<in>lh_id ` set hs \<union> sm_cancelled st \<union> gone. i < sm_lease_ids st)
   \<and> distinct (map lh_id hs))"

lemma is_current_iff: "is_current h st \<longleftrightarrow> (\<exists>l. im_get (sm_leases st) (lh_key h) = Some l \<and> rl_id l = lh_id h)"
  by (auto simp: is_current_def)

lemma issued_unique: "distinct (map lh_id hs) \<Longrightarrow> h \<in> set hs \<Longrightarrow> g \<in> set hs \<Longrightarrow> lh_id h = lh_id g \<Longrightarrow> h = g"
  by (auto simp: distinct_map dest: inj_onD)

lemma lease_invD:
  assumes "lease_inv (st, hs, gone)"
  shows lease_wf: "im_wf (sm_leases st)"
    and lease_entry: "im_get (sm_leases st) k = Some l
      \<Longrightarrow> \<lparr>lh_key = k, lh_id = rl_id l\<rparr> \<in> set hs \<and> rl_id l \<notin> sm_cancelled st \<and> rl_id l \<notin> gone"
    and lease_issued: "h \<in> set hs \<Longrightarrow> is_current h st \<or> lh_id h \<in> sm_cancelled st \<or> lh_id h \<in> gone"
    and lease_bound: "i \<in> lh_id ` set hs \<union> sm_cancelled st \<union> gone \<Longrightarrow> i < sm_lease_ids st"
    and lease_distinct: "distinct (map lh_id hs)"
  using assms unfolding lease_inv_def prod.case by (elim conjE, blast)+

lemma lease_entry_bound: "lease_inv (st, hs, gone) \<Longrightarrow> im_get (sm_leases st) k = Some l \<Longrightarrow> rl_id l < sm_lease_ids st"
  using lease_entry [of st hs gone k l] lease_bound [of st hs gone "rl_id l"]
  by (metis UnI1 image_eqI lease_handle.select_convs(2))

lemma lease_ids_differ:
  assumes "lease_inv (st, hs, gone)" "im_get (sm_leases st) k = Some l" "im_get (sm_leases st) k' = Some l'" "k \<noteq> k'"
  shows "rl_id l \<noteq> rl_id l'"
  using assms issued_unique [of hs "\<lparr>lh_key = k, lh_id = rl_id l\<rparr>" "\<lparr>lh_key = k', lh_id = rl_id l'\<rparr>"]
  by (auto simp: lease_inv_def)

text \<open>
  Every operation removes some leases, each cancelled or dropped by its handle, and may add a fresh one; the
  invariant follows from the map of what is left.
\<close>

lemma lease_inv_shrink:
  assumes inv: "lease_inv (st, hs, gone)"
    and wf: "im_wf (sm_leases st')" and ids: "sm_lease_ids st' = sm_lease_ids st"
    and sub: "im_get (sm_leases st') \<subseteq>\<^sub>m im_get (sm_leases st)"
    and cut: "\<And>k l. im_get (sm_leases st) k = Some l \<Longrightarrow>
       im_get (sm_leases st') k = (if rl_id l \<in> sm_cancelled st' \<union> gone' then None else Some l)"
    and grow: "sm_cancelled st \<union> gone \<subseteq> sm_cancelled st' \<union> gone'"
      "sm_cancelled st' \<union> gone' \<subseteq> sm_cancelled st \<union> gone \<union> rl_id ` ran (im_get (sm_leases st))"
  shows "lease_inv (st', hs, gone')"
proof -
  have left: "im_get (sm_leases st) k = Some l \<and> rl_id l \<notin> sm_cancelled st' \<union> gone'"
    if "im_get (sm_leases st') k = Some l" for k l
  proof -
    from sub that have "im_get (sm_leases st) k = Some l" by (auto simp: map_le_def dom_def)
    with cut [OF this] that show ?thesis by (auto split: if_splits)
  qed
  have cur: "is_current h st' \<or> lh_id h \<in> sm_cancelled st' \<or> lh_id h \<in> gone'" if "h \<in> set hs" for h
  proof (cases "is_current h st")
    case True
    then obtain l where l: "im_get (sm_leases st) (lh_key h) = Some l" "rl_id l = lh_id h" by (auto simp: is_current_iff)
    with cut [OF l(1)] show ?thesis by (auto simp: is_current_iff)
  next
    case False
    with inv that have "lh_id h \<in> sm_cancelled st \<union> gone" by (auto simp: lease_inv_def)
    with grow(1) show ?thesis by auto
  qed
  have bound: "i < sm_lease_ids st'" if "i \<in> lh_id ` set hs \<union> sm_cancelled st' \<union> gone'" for i
  proof -
    from that grow(2) consider "i \<in> lh_id ` set hs \<union> sm_cancelled st \<union> gone" | "i \<in> rl_id ` ran (im_get (sm_leases st))"
      by blast
    then show ?thesis unfolding ids
      by cases (rule lease_bound [OF inv], assumption, use lease_entry_bound [OF inv] in \<open>auto simp: ran_def\<close>)
  qed
  have entry: "\<lparr>lh_key = k, lh_id = rl_id l\<rparr> \<in> set hs \<and> rl_id l \<notin> sm_cancelled st' \<and> rl_id l \<notin> gone'"
    if "im_get (sm_leases st') k = Some l" for k l
    using left [OF that] inv by (simp add: lease_inv_def)
  have "distinct (map lh_id hs)" using inv by (simp add: lease_inv_def)
  with wf cur entry bound show ?thesis
    unfolding lease_inv_def prod.case by blast
qed

lemma lease_inv_begin:
  assumes inv: "lease_inv (st, hs, gone)"
  shows "lease_inv (lease_step (st, hs, gone) (LBegin sub stream))"
proof -
  let ?k = "lease_key sub stream" and ?i = "sm_lease_ids st" and ?M = "im_get (sm_leases st)"
  let ?C = "case ?M ?k of None \<Rightarrow> sm_cancelled st | Some p \<Rightarrow> insert (rl_id p) (sm_cancelled st)"
  let ?new = "\<lparr>rl_id = ?i, rl_sub = sub, rl_stream = stream\<rparr>"
  have old: "\<lparr>lh_key = k, lh_id = rl_id l\<rparr> \<in> set hs \<and> rl_id l \<notin> ?C \<and> rl_id l \<notin> gone" if "?M k = Some l" "k \<noteq> ?k" for k l
    using inv that lease_ids_differ [OF inv that(1)] by (auto simp: lease_inv_def split: option.splits)
  have bound: "i < ?i" if "i \<in> ?C \<union> gone \<union> lh_id ` set hs" for i
  proof -
    have "rl_id p < ?i" if "?M ?k = Some p" for p using inv that by (force simp: lease_inv_def)
    with inv that show ?thesis by (auto simp: lease_inv_def split: option.splits)
  qed
  have cur: "(\<exists>l. (?M(?k \<mapsto> ?new)) (lh_key h) = Some l \<and> rl_id l = lh_id h) \<or> lh_id h \<in> ?C \<or> lh_id h \<in> gone"
    if "h \<in> set hs" for h
    using inv that by (auto simp: lease_inv_def is_current_iff split: option.splits)
  have "im_wf (im_insert ?k ?new (sm_leases st))" using inv by (simp add: lease_inv_def)
  moreover have "distinct (map lh_id (hs @ [\<lparr>lh_key = ?k, lh_id = ?i\<rparr>]))"
    using inv bound by (fastforce simp: lease_inv_def)
  moreover have "?i \<notin> ?C" "?i \<notin> gone" using bound by blast+
  ultimately show ?thesis
    using old cur bound
    by (auto simp: begin_raw_live_def Let_def lease_inv_def is_current_iff update_conv' less_SucI)
qed

lemma lease_inv_step:
  assumes inv: "lease_inv s"
  shows "lease_inv (lease_step s p)"
proof -
  obtain st hs gone where s: "s = (st, hs, gone)" by (cases s)
  have wf: "im_wf (sm_leases st)" using inv by (simp add: lease_inv_def s)
  have alive: "rl_id l \<notin> sm_cancelled st \<union> gone" if "im_get (sm_leases st) k = Some l" for k l
    using inv that by (auto simp: lease_inv_def s)
  show ?thesis
  proof (cases p)
    case (LBegin sub stream)
    with lease_inv_begin inv show ?thesis unfolding s LBegin by blast
  next
    case (LStop sub stream)
    show ?thesis
    proof (cases "im_get (sm_leases st) (lease_key sub stream)")
      case None
      with inv show ?thesis by (simp add: s LStop stop_raw_live_def)
    next
      case (Some l)
      have "lease_inv (stop_raw_live sub stream st, hs, gone)"
        by (rule lease_inv_shrink [OF inv [unfolded s]])
          (use wf alive Some lease_ids_differ [OF inv [unfolded s] Some, THEN not_sym] in
            \<open>auto simp: stop_raw_live_def delete_conv' map_le_def ran_def simp del: map_of_eq_Some_iff\<close>)
      then show ?thesis by (simp add: s LStop)
    qed
  next
    case (LStopOthers sub keep)
    have "lease_inv (stop_other_raw_lives sub keep st, hs, gone)"
    proof (rule lease_inv_shrink [OF inv [unfolded s]])
      fix k l assume kl: "im_get (sm_leases st) k = Some l"
      have "rl_id l \<in> rl_id ` snd ` set (filter (\<lambda>(_, l). other_lease sub keep l) (sm_leases st)) \<longleftrightarrow> other_lease sub keep l"
      proof
        assume "rl_id l \<in> rl_id ` snd ` set (filter (\<lambda>(_, l). other_lease sub keep l) (sm_leases st))"
        then obtain k' l' where "(k', l') \<in> set (sm_leases st)" "other_lease sub keep l'" "rl_id l = rl_id l'" by auto
        moreover from this wf have "im_get (sm_leases st) k' = Some l'" by simp
        moreover from this calculation kl have "k = k'" using lease_ids_differ [OF inv [unfolded s] kl, of k' l'] by blast
        ultimately show "other_lease sub keep l" using kl by simp
      qed (use kl in \<open>force dest: map_of_SomeD\<close>)
      with kl alive [OF kl] wf show "im_get (sm_leases (stop_other_raw_lives sub keep st)) k =
          (if rl_id l \<in> sm_cancelled (stop_other_raw_lives sub keep st) \<union> gone then None else Some l)"
        by (simp add: stop_other_raw_lives_def im_get_filter)
    qed (use wf in \<open>auto simp: stop_other_raw_lives_def im_get_filter map_le_def dom_def ran_def split: option.splits if_splits\<close>)
    then show ?thesis by (simp add: s LStopOthers)
  next
    case (LDispose h)
    show ?thesis
    proof (cases "is_current h st")
      case False
      with inv show ?thesis by (simp add: s LDispose dispose_def)
    next
      case True
      then obtain l where l: "im_get (sm_leases st) (lh_key h) = Some l" "rl_id l = lh_id h" by (auto simp: is_current_iff)
      from l(1) have "rl_id l \<in> rl_id ` ran (im_get (sm_leases st))" by (intro imageI ranI)
      note ran = this [unfolded l(2)]
      have "lease_inv (snd (dispose h st), hs, insert (lh_id h) gone)"
        by (rule lease_inv_shrink [OF inv [unfolded s]])
          (use wf alive l True ran lease_ids_differ [OF inv [unfolded s] l(1), THEN not_sym] in
            \<open>auto simp: dispose_def delete_conv' map_le_def simp del: map_of_eq_Some_iff\<close>)
      with True show ?thesis by (simp add: s LDispose dispose_def)
    qed
  qed
qed

interpretation lease_machine: machine lease_step lease_inv
  by unfold_locales (rule lease_inv_step)

definition no_leases :: "streams \<Rightarrow> bool" where
  "no_leases st \<longleftrightarrow> sm_leases st = [] \<and> sm_cancelled st = {}"

lemma no_leases_inv: "no_leases st \<Longrightarrow> lease_inv (st, [], {})"
  by (simp add: no_leases_def lease_inv_def)

definition running :: "lease_log \<Rightarrow> lease_handle list" where
  "running s = (case s of (st, hs, gone) \<Rightarrow> filter (\<lambda>h. lh_id h \<notin> sm_cancelled st \<and> lh_id h \<notin> gone) hs)"

lemma running_current: "lease_inv (st, hs, gone) \<Longrightarrow> h \<in> set hs \<Longrightarrow> h \<in> set (running (st, hs, gone)) \<longleftrightarrow> is_current h st"
  by (fastforce simp: lease_inv_def running_def is_current_iff)

text \<open>
  C35. One physical proxy per viewer and channel.  Whatever order raw live proxies are begun, stopped from the
  sessions widget, stopped by a channel change and torn down in, the proxies that were neither told to stop
  nor have torn down are exactly the ones the lease table names, and no two of them are of the same viewer and
  channel.
\<close>

theorem one_raw_proxy_per_channel:
  assumes "no_leases st" "foldl lease_step (st, [], {}) ops = (st', hs, gone)"
  shows "distinct (map lh_key (running (st', hs, gone)))
    \<and> list_all (\<lambda>h. (h \<in> set (running (st', hs, gone))) = is_current h st') hs
    \<and> length (running (st', hs, gone)) = length (sm_leases st')"
proof -
  have inv: "lease_inv (st', hs, gone)" using lease_machine.inv_run [OF no_leases_inv [OF assms(1)], of ops] assms(2) by simp
  let ?R = "running (st', hs, gone)"
  have cur: "\<And>h. h \<in> set ?R \<Longrightarrow> is_current h st' \<and> h \<in> set hs" using running_current [OF inv] by (auto simp: running_def)
  have "distinct ?R" using inv by (simp add: lease_inv_def running_def distinct_map)
  have inj: "inj_on lh_key (set ?R)"
  proof (rule inj_onI)
    fix h g assume hg: "h \<in> set ?R" "g \<in> set ?R" "lh_key h = lh_key g"
    with cur [OF hg(1)] cur [OF hg(2)] have "lh_id h = lh_id g" by (auto simp: is_current_def)
    with issued_unique [OF lease_distinct [OF inv]] hg cur show "h = g" by blast
  qed
  have "fst ` set (sm_leases st') = lh_key ` set ?R"
  proof (intro equalityI subsetI)
    fix k assume "k \<in> fst ` set (sm_leases st')"
    then obtain l where l: "im_get (sm_leases st') k = Some l" by (metis map_of_eq_None_iff not_None_eq)
    with lease_entry [OF inv] have "\<lparr>lh_key = k, lh_id = rl_id l\<rparr> \<in> set ?R" by (simp add: running_def)
    then show "k \<in> lh_key ` set ?R" by force
  next
    fix k assume "k \<in> lh_key ` set ?R"
    with cur show "k \<in> fst ` set (sm_leases st')" by (force simp: is_current_iff dest: map_of_SomeD)
  qed
  moreover have "length (sm_leases st') = card (fst ` set (sm_leases st'))"
    using distinct_card [OF lease_wf [OF inv]] by simp
  ultimately have "length ?R = length (sm_leases st')"
    using distinct_card [OF \<open>distinct ?R\<close>] card_image [OF inj] by simp
  with \<open>distinct ?R\<close> inj show ?thesis using running_current [OF inv] by (auto simp: distinct_map list_all_iff)
qed


definition idle_streams :: streams where
  "idle_streams = \<lparr>sm_tracker = new_tracker 3 60, sm_live = new_live_map, sm_dead = no_dead_feeds,
     sm_leases = [], sm_lease_ids = 0, sm_cancelled = {}, sm_ok_until = None\<rparr>"

definition demo_lease_ops :: "lease_op list" where
  "demo_lease_ops = [LBegin ''u'' ''7'', LBegin ''u'' ''8'', LBegin ''u'' ''7'', LDispose \<lparr>lh_key = ''u|7'', lh_id = 0\<rparr>,
     LStopOthers ''u'' (Some ''7'')]"

text \<open>A retune: the first proxy of channel 7 is replaced, and its late teardown leaves the second one running.\<close>

lemma one_raw_proxy_per_channel_witness:
  "let s = foldl lease_step (idle_streams, [], {}) demo_lease_ops
   in running s = [\<lparr>lh_key = ''u|7'', lh_id = 2\<rparr>] \<and> distinct (map lh_key (running s)) \<and> length (sm_leases (fst s)) = 1"
proof -
  have n: "no_leases idle_streams" by (simp add: no_leases_def idle_streams_def)
  obtain st hs gone where s: "foldl lease_step (idle_streams, [], {}) demo_lease_ops = (st, hs, gone)"
    by (metis prod_cases3)
  have r: "running (foldl lease_step (idle_streams, [], {}) demo_lease_ops) = [\<lparr>lh_key = ''u|7'', lh_id = 2\<rparr>]" by code_simp
  from one_raw_proxy_per_channel [OF n s] r show ?thesis by (simp add: s)
qed

section \<open>Dead feeds\<close>

datatype feed_event = FeStrike string nat | FeQuery string nat

fun feed_step :: "dead_feeds \<Rightarrow> feed_event \<Rightarrow> dead_feeds" where
  "feed_step d (FeStrike f t) = strike f t d"
| "feed_step d (FeQuery f t) = snd (is_dead f t d)"

fun strikes_of :: "string \<Rightarrow> feed_event list \<Rightarrow> nat list" where
  "strikes_of f [] = []"
| "strikes_of f (FeStrike g t # es) = (if g = f then t # strikes_of f es else strikes_of f es)"
| "strikes_of f (FeQuery g t # es) = strikes_of f es"

definition struck_twice :: "nat list \<Rightarrow> nat \<Rightarrow> bool" where
  "struck_twice ts e \<longleftrightarrow> (\<exists>pre a b post. ts = pre @ a # b # post \<and> b < a + dead_feed_memory \<and> e = b + dead_feed_memory)"

lemma strikes_of_append [simp]: "strikes_of f (xs @ ys) = strikes_of f xs @ strikes_of f ys"
  by (induction f xs rule: strikes_of.induct) simp_all

lemma struck_twice_more: "struck_twice ts e \<Longrightarrow> struck_twice (ts @ us) e"
  unfolding struck_twice_def by (metis append.assoc append_Cons)

lemma struck_twice_now: "b < a + dead_feed_memory \<Longrightarrow> struck_twice (ts @ [a] @ [b]) (b + dead_feed_memory)"
  unfolding struck_twice_def by (metis append_Cons append_Nil)

definition feed_inv :: "string \<Rightarrow> feed_event list \<Rightarrow> dead_feeds \<Rightarrow> bool" where
  "feed_inv f es d \<longleftrightarrow>
     (\<forall>e. df_dead d f = Some e \<longrightarrow> struck_twice (strikes_of f es) e)
   \<and> (\<forall>n e. df_strikes d f = Some (n, e) \<longrightarrow> n = 1 \<and> (\<exists>ts a. strikes_of f es = ts @ [a] \<and> e = a + dead_feed_memory))"

lemma feed_inv_step: "feed_inv f es d \<Longrightarrow> feed_inv f (es @ [ev]) (feed_step d ev)"
proof (cases ev)
  case (FeQuery g t)
  assume "feed_inv f es d"
  then show ?thesis by (auto simp: FeQuery feed_inv_def is_dead_def split: option.splits if_splits)
next
  case (FeStrike g t)
  assume inv: "feed_inv f es d"
  show ?thesis
  proof (cases "g = f")
    case False
    with inv show ?thesis by (auto simp: FeStrike feed_inv_def strike_def Let_def)
  next
    case True
    show ?thesis
    proof (cases "df_strikes d f")
      case None
      with inv True show ?thesis
        by (auto simp: FeStrike feed_inv_def strike_def Let_def dead_feed_strikes_to_tag_def struck_twice_more)
    next
      case (Some ne)
      with inv obtain ts a where ne: "ne = (1, a + dead_feed_memory)" "strikes_of f es = ts @ [a]"
        by (cases ne) (auto simp: feed_inv_def)
      show ?thesis
      proof (cases "t < a + dead_feed_memory")
        case True
        with ne Some \<open>g = f\<close> inv struck_twice_now [OF True, of ts] show ?thesis
          by (simp add: FeStrike feed_inv_def strike_def Let_def dead_feed_strikes_to_tag_def)
      next
        case False
        with ne Some \<open>g = f\<close> inv show ?thesis
          using struck_twice_more [of "ts @ [a]" _ "[t]"]
          by (auto simp: FeStrike feed_inv_def strike_def Let_def dead_feed_strikes_to_tag_def)
      qed
    qed
  qed
qed

lemma feed_inv_run: "feed_inv f es (foldl feed_step no_dead_feeds es)"
  by (induction es rule: rev_induct) (simp_all add: feed_inv_step, simp add: feed_inv_def no_dead_feeds_def)

text \<open>
  A feed is only given up after two fast ends.  However strikes and lookups of any feeds interleave, a feed
  that a lookup calls dead has two consecutive strikes less than ten minutes apart, and the second is less than
  ten minutes old; and two such strikes in a row, the first of them the feed's first ever, do make it dead for
  exactly that time.
\<close>

theorem dead_after_two_strikes:
  assumes "d = foldl feed_step no_dead_feeds es"
  shows "(fst (is_dead f now d) \<longrightarrow> (\<exists>e. struck_twice (strikes_of f es) e \<and> now < e))
    \<and> (strikes_of f es = [] \<and> b < a + dead_feed_memory
        \<longrightarrow> fst (is_dead f now (strike f b (strike f a d))) = (now < b + dead_feed_memory))"
proof -
  have inv: "feed_inv f es d" using assms feed_inv_run by simp
  have "df_dead d f = None \<and> df_strikes d f = None" if "strikes_of f es = []"
    using inv that by (cases "df_strikes d f") (auto simp: feed_inv_def struck_twice_def)
  with inv show ?thesis
    by (auto simp: is_dead_def feed_inv_def strike_def Let_def dead_feed_strikes_to_tag_def split: option.splits if_splits)
qed

lemma dead_after_two_strikes_witness:
  "let d = foldl feed_step no_dead_feeds [FeStrike ''7'' 5, FeQuery ''7'' 6, FeStrike ''8'' 7]
   in \<not> fst (is_dead ''7'' 8 d) \<and> fst (is_dead ''9'' (20 + 3) (strike ''9'' 20 (strike ''9'' 10 d)))"
proof -
  let ?es = "[FeStrike ''7'' 5, FeQuery ''7'' 6, FeStrike ''8'' 7]"
  have "\<not> struck_twice [5] e" for e by (auto simp: struck_twice_def Cons_eq_append_conv)
  with dead_after_two_strikes [OF refl, of "''7''" 8 ?es 0 0] dead_after_two_strikes [OF refl, of "''9''" 23 ?es 20 10]
  show ?thesis by (simp add: dead_feed_memory_def second_def)
qed


section \<open>Replaced and refused streams\<close>

fun body_run :: "body \<Rightarrow> (nat \<times> nat \<times> body_event) list \<Rightarrow> streams \<Rightarrow> body \<times> streams" where
  "body_run b [] st = (b, st)"
| "body_run b (e # es) st = (case body_step b e st of (b', _, st') \<Rightarrow> body_run b' es st')"

lemma stale_release: "\<not> is_current h st \<Longrightarrow> release_lease h session st = st"
  by (simp add: release_lease_def dispose_def)

lemma stale_step:
  assumes "bd_watch b = RawWatch v" "\<not> is_current (rv_lease v) st" "body_step b e st = (b', c, st')"
  shows "bd_watch b' = RawWatch v \<and> st' = st"
  using assms
  by (auto simp: body_step_def close_body_def stale_release split: prod.splits body_event.splits if_splits option.splits)

lemma stale_run: "bd_watch b = RawWatch v \<Longrightarrow> \<not> is_current (rv_lease v) st \<Longrightarrow> snd (body_run b es st) = st"
proof (induction es arbitrary: b)
  case (Cons e es)
  obtain b' c st' where s: "body_step b e st = (b', c, st')" by (metis prod_cases3)
  with stale_step [OF Cons.prems s] Cons show ?case by simp
qed simp

lemma begin_replaces:
  "lh_key h = lease_key sub stream \<Longrightarrow> lh_id h < sm_lease_ids st \<Longrightarrow> \<not> is_current h (snd (begin_raw_live sub stream st))"
  by (simp add: begin_raw_live_def Let_def is_current_def update_conv')

text \<open>
  C38. A replaced stream cannot hurt its successor.  Once a viewer's channel is taken over by a new proxy,
  whatever still happens to an older body of that channel (chunks, its end, an error, a stop, the client
  leaving) changes neither a slot nor a lease nor the memory of dead feeds, and the old body passes no chunk
  on when its heartbeat is due.
\<close>

theorem replaced_body_harmless:
  assumes "bd_watch b = RawWatch v" "lh_key (rv_lease v) = lease_key sub stream" "lh_id (rv_lease v) < sm_lease_ids st"
    and "st' = snd (begin_raw_live sub stream st)"
  shows "snd (body_run b es st') = st'
    \<and> (if case bd_beat b of None \<Rightarrow> True | Some t \<Rightarrow> heartbeat_throttle \<le> now - t
       then fst (snd (body_step b (now, ms, EvChunk c) st')) = None else True)"
proof -
  have stale: "\<not> is_current (rv_lease v) st'" using begin_replaces [OF assms(2,3)] assms(4) by simp
  show ?thesis using stale_run [OF assms(1) stale] assms(1) stale
    by (auto simp: body_step_def close_body_def split: option.splits)
qed

definition old_body :: body where
  "old_body = watched_body (RawWatch \<lparr>rv_lease = \<lparr>lh_key = ''u|7'', lh_id = 0\<rparr>, rv_session = ''s'', rv_sub = ''u'', rv_stream = ''7'',
     rv_feed = ''7'', rv_dialed = 0\<rparr>)"

lemma replaced_body_harmless_witness:
  "let st = snd (begin_raw_live ''u'' ''7'' idle_streams); st' = snd (begin_raw_live ''u'' ''7'' st)
   in snd (body_run old_body [(9, 0, EvChunk ''x''), (10, 0, EvEof)] st') = st'
    \<and> fst (snd (body_step old_body (9, 0, EvChunk ''x'') st')) = None"
proof -
  let ?st = "snd (begin_raw_live ''u'' ''7'' idle_streams)"
  let ?v = "\<lparr>rv_lease = \<lparr>lh_key = ''u|7'', lh_id = 0\<rparr>, rv_session = ''s'', rv_sub = ''u'', rv_stream = ''7'',
      rv_feed = ''7'', rv_dialed = 0\<rparr>"
  have w: "bd_watch old_body = RawWatch ?v" "bd_beat old_body = None" by (simp_all add: old_body_def watched_body_def)
  have k: "lh_key (rv_lease ?v) = lease_key ''u'' ''7''" by (simp add: lease_key_def)
  have i: "lh_id (rv_lease ?v) < sm_lease_ids ?st" by (simp add: begin_raw_live_def Let_def idle_streams_def)
  from replaced_body_harmless [OF w(1) k i refl, of "[(9, 0, EvChunk ''x''), (10, 0, EvEof)]" 9 0 "''x''"]
  show ?thesis unfolding Let_def w(2) by simp
qed

lemma release_lease_current [simp]: "\<not> is_current h (release_lease h session st)"
  by (simp add: release_lease_def dispose_def) (simp add: is_current_def delete_conv')

lemma release_lease_frees: "is_current h st \<Longrightarrow> im_get (tk_sessions (sm_tracker (release_lease h session st))) session = None"
  by (simp add: release_lease_def dispose_def release_def delete_conv')

lemma live_dial_keeps:
  assumes "\<And>f s. is_current h s \<Longrightarrow> is_current h (others f s)"
  shows "is_current h st \<Longrightarrow> is_current h (snd (live_dial N clk others c h fs st))"
proof (induction fs arbitrary: st)
  case (Cons f fs)
  obtain dead d where d: "is_dead f (clk f) (sm_dead st) = (dead, d)" by fastforce
  have "is_current h (st\<lparr>sm_dead := d\<rparr>)" using Cons.prems by (simp add: is_current_def)
  with Cons.IH assms show ?case
    by (auto simp: d Let_def split: option.splits sum.splits)
qed simp

lemma watched_body_eq [simp]: "watched_body w = watched_body w' \<longleftrightarrow> w = w'"
  by (simp add: watched_body_def)

fun is_stream :: "byte_reply \<Rightarrow> bool" where
  "is_stream (ByStream _ _ _ _) = True"
| "is_stream _ = False"


definition dead_net :: net where
  "dead_net = \<lparr>nt_parse = (\<lambda>_. None), nt_join = (\<lambda>_ _. None), nt_dns = (\<lambda>_ _ _. None), nt_send = (\<lambda>_ _ _. None)\<rparr>"

definition demo_live_env :: live_env where
  "demo_live_env = \<lparr>le_polls = [], le_upstream = 0, le_listed = 0, le_feeds = Some [''7''], le_net = dead_net, le_at = (\<lambda>_. 0),
     le_others = (\<lambda>_ s. s), le_dialed_at = 0\<rparr>"



section \<open>Grants and the slots they hold\<close>

lemma find_entry_exists: "(i, s) \<in> set ss \<Longrightarrow> matching sub k rid s \<Longrightarrow> find_entry ss sub k rid \<noteq> None"
  by (auto simp: find_entry_def find_None_iff)

lemma acquired_is_held:
  assumes ok: "sessions_ok (tk_sessions tk)" and t: "try_acquire tk now a = (Inr (), tk')"
    and named: "\<forall>s. im_get (tk_sessions tk) (aq_session a) = Some s \<longrightarrow> matching (aq_sub a) (aq_kind a) (aq_resource a) s"
  shows "find_entry (tk_sessions tk') (aq_sub a) (aq_kind a) (aq_resource a) \<noteq> None"
proof -
  let ?ss = "tk_sessions (sweep_locked tk now)"
  have okss: "sessions_ok ?ss" by (rule sweep_ok [OF ok])
  have adm: "tk_sessions tk' = snd (admit (tk_cap tk) a now ?ss)" "fst (admit (tk_cap tk) a now ?ss) = Inr ()"
    using try_acquire_admit [OF ok, of now a] t by auto
  show ?thesis
  proof (cases rule: admit_cases [of ?ss a "tk_cap tk" now])
    case (known s)
    then have "(aq_session a, s) \<in> set (tk_sessions tk)" by (auto simp: sweep_locked_def dest: map_of_SomeD)
    with ok named have "matching (aq_sub a) (aq_kind a) (aq_resource a) (s\<lparr>se_seen := now\<rparr>)"
      by (auto simp: sessions_ok_def matching_def)
    with known adm okss show ?thesis
      by (intro find_entry_exists [of "aq_session a" "s\<lparr>se_seen := now\<rparr>"]) (auto simp: set_im_insert sessions_ok_def)
  next
    case (refused l)
    with adm show ?thesis by simp
  next
    case granted
    have "matching (aq_sub a) (aq_kind a) (aq_resource a) (new_session a now)" by (simp add: matching_def new_session_def)
    with granted adm show ?thesis
      by (intro find_entry_exists [of "aq_session a" "new_session a now"]) auto
  qed
qed

lemma held_slot_admits:
  "find_entry (tk_sessions (sm_tracker st)) sub k rid \<noteq> None \<Longrightarrow> fst (hold_slot N h sub k rid ms st) = None"
  by (auto simp: hold_slot_def on_tracker_def heartbeat_by_resource_def split: option.splits)

definition demand_kind :: "bool \<Rightarrow> kind" where
  "demand_kind series = (if series then KSeries else KVod)"

definition token_kind :: "bool \<Rightarrow> stream_kind" where
  "token_kind series = (if series then Series else Vod)"

definition acquire_of_grant :: "request_env \<Rightarrow> bool \<Rightarrow> string \<Rightarrow> string \<Rightarrow> string option \<Rightarrow> acquire" where
  "acquire_of_grant Q series sid sub title =
     \<lparr>aq_sub = sub, aq_session = kind_name (demand_kind series) @ '':'' @ sid @ '':'' @ sub @ '':'' @ dec_nat (rq_ms Q),
      aq_kind = demand_kind series, aq_resource = sid, aq_ip = client_ip (rq_headers Q),
      aq_title = (if series then session_title (rq_names Q) KSeries sid else title), aq_kind_cap = None, aq_replace_live = False\<rparr>"

lemma acquire_of_grant_fields [simp]:
  "aq_sub (acquire_of_grant Q series sid sub title) = sub" "aq_kind (acquire_of_grant Q series sid sub title) = demand_kind series"
  "aq_resource (acquire_of_grant Q series sid sub title) = sid"
  by (simp_all add: acquire_of_grant_def)

lemma panel_up_tracker: "panel_up c now probed probe st = (up, st') \<Longrightarrow> sm_tracker st' = sm_tracker st"
  by (auto simp: panel_up_def split: if_splits)

lemma caller_not_grant: "caller claims \<noteq> Inl (RyGrant u p m s)"
  by (cases claims) (simp_all add: caller_def)

lemma vod_grant_granted:
  assumes g: "vod_grant Q series row sid st = (RyGrant u p m (Some session), st')"
  shows "\<exists>sub admin title ext. caller (rq_claims Q) = Inr (sub, admin)
    \<and> try_acquire (sm_tracker st) (rq_ms Q) (acquire_of_grant Q series sid sub title) = (Inr (), sm_tracker st')
    \<and> session = aq_session (acquire_of_grant Q series sid sub title)
    \<and> RyGrant u p m (Some session) = on_demand_grant Q (token_kind series) sid sub ext session"
proof -
  have k: "(if series then KSeries else KVod) = demand_kind series" "(if series then Series else Vod) = token_kind series"
    by (simp_all add: demand_kind_def token_kind_def)
  have ok: "if series then is_word_id sid else is_digits sid"
  proof (rule ccontr)
    assume "\<not> (if series then is_word_id sid else is_digits sid)"
    then have "vod_grant Q series row sid st = (RyError 400 ''invalid_id'', st)" by (simp add: vod_grant_def)
    with g show False by simp
  qed
  then have okF: "(\<not> (if series then is_word_id sid else is_digits sid)) = False" by simp
  have step: "vod_grant Q series row sid st = (case caller (rq_claims Q) of Inl r \<Rightarrow> (r, st) | Inr (sub, admin) \<Rightarrow>
      (case row of None \<Rightarrow> (RyError 404 ''not_found'', st) | Some (title, ext) \<Rightarrow>
        (case panel_up (rq_config Q) (rq_mono Q) (rq_probed Q) (rq_probe Q) st of (up, st1) \<Rightarrow>
           if \<not> up then (RySourceUnavailable, st1)
           else case on_tracker (\<lambda>tk. try_acquire tk (rq_ms Q) (acquire_of_grant Q series sid sub title)) st1 of
             (Inl l, st2) \<Rightarrow> (limit_429 (rq_names Q) l sub admin, st2)
           | (Inr _, st2) \<Rightarrow> (on_demand_grant Q (token_kind series) sid sub ext
               (aq_session (acquire_of_grant Q series sid sub title)), st2))))"
    by (simp only: vod_grant_def Let_def k okF if_False acquire_of_grant_def acquire.simps)
  from g obtain sub admin where c: "caller (rq_claims Q) = Inr (sub, admin)"
    by (cases "caller (rq_claims Q)") (auto simp: step caller_not_grant)
  from g obtain title ext where r: "row = Some (title, ext)"
    using step c by (cases row) auto
  obtain up st1 where p: "panel_up (rq_config Q) (rq_mono Q) (rq_probed Q) (rq_probe Q) st = (up, st1)" by fastforce
  have up using g step c r p by (cases up) auto
  obtain res tk where t: "try_acquire (sm_tracker st) (rq_ms Q) (acquire_of_grant Q series sid sub title) = (res, tk)" by fastforce
  show ?thesis
    using g step c r p t \<open>up\<close> panel_up_tracker [OF p]
    by (cases res) (auto simp: on_tracker_def limit_429_def on_demand_grant_def Let_def)
qed

text \<open>
  C36. A grant admits its bytes.  The URL a VOD or series grant answers carries a token which, from 30 seconds
  before it was signed to 5 seconds after its lifetime, the byte route accepts for the same viewer, title and
  kind; and right after the grant the byte route finds the viewer's slot held, so it is never refused for
  capacity.
\<close>

theorem granted_bytes_admitted:
  assumes "vod_grant Q series row sid st = (RyGrant url p m (Some session), st')"
    and "caller (rq_claims Q) = Inr (sub, admin)" "parse_sub sub = Inr ps" "sessions_ok (tk_sessions (sm_tracker st))"
    and "\<forall>s. im_get (tk_sessions (sm_tracker st)) session = Some s \<longrightarrow> matching sub (demand_kind series) sid s"
    and "b64_laws (rq_lib Q)" "ttl = ic_ondemand_ttl (rq_config Q)"
      "json_reads (rq_lib Q) (minted_claims (token_kind series) sid sub ttl (rq_ulid Q) (rq_clock Q))"
    and "0 \<le> ttl" "ttl \<le> max_ttl_secs" "is_i64 (rq_clock Q)" "is_i64 (rq_clock Q + ttl)" "is_i64 (clock + 30)" "is_i64 (clock - 5)"
      "rq_clock Q - 30 \<le> clock" "clock \<le> rq_clock Q + ttl + 5"
  shows "\<exists>path token. url = path @ ''?t='' @ token
      \<and> check_stream_token (rq_lib Q) (rq_config Q) (rq_claims Q) token (token_kind series) (Some sid) clock = Inr (sub, sid)
      \<and> fst (hold_slot N h sub (demand_kind series) sid ms st') = None"
proof -
  obtain title ext where t: "try_acquire (sm_tracker st) (rq_ms Q) (acquire_of_grant Q series sid sub title) = (Inr (), sm_tracker st')"
      and session: "session = aq_session (acquire_of_grant Q series sid sub title)"
      and u: "RyGrant url p m (Some session) = on_demand_grant Q (token_kind series) sid sub ext session"
    using vod_grant_granted [OF assms(1)] assms(2) by auto
  have v: "iptv_verify (rq_lib Q) (ic_secret (rq_config Q)) (grant_token Q (token_kind series) sid sub ttl) clock
      = Inr (minted_claims (token_kind series) sid sub ttl (rq_ulid Q) (rq_clock Q))"
    using minted_verify [OF assms(6), of "token_kind series" sid sub ttl "rq_ulid Q" None "rq_clock Q" clock "ic_secret (rq_config Q)"]
      assms(8-) by (simp add: grant_token_def)
  from assms(2) obtain c where c: "rq_claims Q = Some c" "pc_sub c = sub" by (auto simp: caller_def result_simps split: option.splits)
  have check: "check_stream_token (rq_lib Q) (rq_config Q) (rq_claims Q) (grant_token Q (token_kind series) sid sub ttl)
      (token_kind series) (Some sid) clock = Inr (sub, sid)"
    using c assms(3) parse_sub_raw [OF assms(3)]
    by (simp add: check_stream_token_def v minted_claims_def member_sub_def)
  have held: "fst (hold_slot N h sub (demand_kind series) sid ms st') = None"
    using acquired_is_held [OF assms(4) t] assms(5) by (intro held_slot_admits) (simp add: session)
  from u obtain path where "url = path @ ''?t='' @ grant_token Q (token_kind series) sid sub ttl"
    unfolding on_demand_grant_def Let_def assms(7) [symmetric] by (metis append.assoc stream_reply.inject(6))
  with check held show ?thesis by blast
qed

definition demo_grant_lib :: token_lib where
  "demo_grant_lib = demo_lib\<lparr>json_parse := (\<lambda>t. Some (claims_json (minted_claims Vod ''7'' ''plex:3'' 300 ''u'' 1000)))\<rparr>"

definition demo_request :: request_env where
  "demo_request = \<lparr>rq_lib = demo_grant_lib,
     rq_config = \<lparr>ic_host = ''http://p'', ic_user = ''x'', ic_pass = ''y'', ic_secret = ''key'', ic_streams = 2, ic_upstream = 2,
       ic_live_ttl = 60, ic_ondemand_ttl = 300\<rparr>,
     rq_names = \<lparr>cn_channel = (\<lambda>_. None), cn_vod = (\<lambda>_. None), cn_episode = (\<lambda>_. None), cn_series = (\<lambda>_. None), cn_num = (\<lambda>_. None)\<rparr>,
     rq_claims = Some \<lparr>pc_sub = ''plex:3'', pc_role = ''member''\<rparr>, rq_headers = [], rq_mono = 0, rq_ms = 7, rq_clock = 1000,
     rq_probe = Some 200, rq_probed = 0, rq_uuid = ''id'', rq_ulid = ''u''\<rparr>"

lemma granted_bytes_admitted_witness:
  "let (r, st) = vod_grant demo_request False (Some (None, None)) ''7'' idle_streams
   in \<exists>path token p m session. r = RyGrant (path @ ''?t='' @ token) p m session
     \<and> check_stream_token demo_grant_lib (rq_config demo_request) (rq_claims demo_request) token Vod (Some ''7'') 1200 = Inr (''plex:3'', ''7'')
     \<and> fst (hold_slot (rq_names demo_request) [] ''plex:3'' KVod ''7'' 8 st) = None"
proof -
  let ?Q = demo_request
  obtain r st where g: "vod_grant ?Q False (Some (None, None)) ''7'' idle_streams = (r, st)" by fastforce
  have c: "caller (rq_claims ?Q) = Inr (''plex:3'', False)" by (simp add: demo_request_def caller_def)
  have "\<exists>u p m session. r = RyGrant u p m (Some session)" using g
    by (auto simp: vod_grant_def on_demand_grant_def Let_def on_tracker_def c is_digits_def is_digit_def panel_up_def creds_of_def
        demo_request_def caller_def idle_streams_def success_def try_acquire_def sweep_locked_def new_tracker_def)
  then obtain u p m session where r: "r = RyGrant u p m (Some session)" by blast
  have s: "parse_sub ''plex:3'' = Inr \<lparr>sub_provider = Plex, sub_id = ''3'', sub_raw = ''plex:3''\<rparr>" by code_simp
  have e: "tk_sessions (sm_tracker idle_streams) = []" by (simp add: idle_streams_def new_tracker_def)
  have b: "b64_laws (rq_lib ?Q)" using demo_b64_laws by (simp add: b64_laws_def demo_request_def demo_grant_lib_def)
  have j: "json_reads (rq_lib ?Q) (minted_claims (token_kind False) ''7'' ''plex:3'' 300 (rq_ulid ?Q) (rq_clock ?Q))"
    by (simp add: json_reads_def demo_grant_lib_def demo_request_def token_kind_def)
  have "\<exists>path token. u = path @ ''?t='' @ token
      \<and> check_stream_token (rq_lib ?Q) (rq_config ?Q) (rq_claims ?Q) token (token_kind False) (Some ''7'') 1200 = Inr (''plex:3'', ''7'')
      \<and> fst (hold_slot (rq_names ?Q) [] ''plex:3'' (demand_kind False) ''7'' 8 st) = None"
    by (rule granted_bytes_admitted [OF g [unfolded r] c s _ _ b _ j])
      (simp_all add: e sessions_ok_def demo_request_def max_ttl_secs_def is_i64_def)
  moreover have "rq_lib ?Q = demo_grant_lib" by (simp add: demo_request_def)
  ultimately show ?thesis unfolding Let_def g r prod.case token_kind_def demand_kind_def if_False by auto
qed

text \<open>A segment request without the \<open>ok\<close> and \<open>oid\<close> parameters, which no signature covers, takes no slot.\<close>

lemma unowned_segment: "snd (segment_bytes Q RR timed_out token None idq st) = st"
  by (auto simp: segment_bytes_def parse_owner_def Let_def split: sum.splits option.splits)

text \<open>Two range requests of one title share a slot; the first one dropped releases it under the other.\<close>

lemma first_range_releases:
  assumes "sessions_ok (tk_sessions (sm_tracker st))" "bd_watch b = DemandWatch k sub rid" "bd_open b"
  shows "find_entry (tk_sessions (sm_tracker (snd (snd (body_step b (now, ms, EvDrop) st))))) sub k rid = None"
proof -
  have *: "find_entry (filter (\<lambda>(j, _). j \<noteq> i) ss) sub k rid = None"
    if "sessions_ok ss" "find_entry ss sub k rid = Some (i, s)" for ss i s
  proof -
    have "(i, s) \<in> set ss" "matching sub k rid s" using that(2) by (auto simp: find_entry_def find_Some_iff dest: nth_mem)
    then have u: "(j, t) \<in> set ss \<Longrightarrow> matching sub k rid t \<Longrightarrow> j = i" for j t
    proof -
      assume "(j, t) \<in> set ss" "matching sub k rid t"
      moreover have inj: "inj_on (tuple_of \<circ> snd) (set ss)" using that(1) by (simp add: sessions_ok_def distinct_map)
      ultimately have "(j, t) = (i, s)" using \<open>(i, s) \<in> set ss\<close> \<open>matching sub k rid s\<close>
        by (intro inj_onD [OF inj]) (auto simp: matching_def tuple_of_def)
      then show ?thesis by simp
    qed
    show ?thesis by (auto simp: find_entry_def find_None_iff dest: u)
  qed
  have "im_remove i ss = filter (\<lambda>(j, _). j \<noteq> i) ss" for i and ss :: "(string, session) imap"
    unfolding AList.delete_eq by (rule filter_cong) auto
  note removed = this * [OF assms(1)]
  show ?thesis
  proof (cases "find_entry (tk_sessions (sm_tracker st)) sub k rid")
    case None
    with assms show ?thesis
      by (simp add: body_step_def close_body_def release_resource_def on_tracker_def release_by_resource_def)
  next
    case (Some p)
    obtain i s where p: "p = (i, s)" by (cases p)
    with Some find_entry_get [OF assms(1), of sub k rid i s] have "(i, s) \<in> set (tk_sessions (sm_tracker st))"
      by (auto dest: map_of_SomeD)
    with assms(1) have "se_id s = i" by (rule sessions_ok_id)
    with assms Some p removed show ?thesis
      by (simp add: body_step_def close_body_def release_resource_def on_tracker_def release_by_resource_def)
  qed
qed

end
