(* ===== verification/Remux.thy ===== *)
theory Remux
  imports Streams
begin

text \<open>
  \<open>crates/iptv/src/remux.rs\<close>: the registry of live ffmpeg children and the supervisor of each.  The
  registry's lock is the grain of interleaving: every operation below runs under it or touches only one
  supervisor's own variables.  Instants are nanoseconds.  What the operating system answers (whether a
  directory or a process could be made, what a child prints and how it exits) and the tracker's count of raw
  live slots are arguments; \<open>rm_alive\<close> is a ghost: the children that run and may hold a provider socket.
  ffmpeg's own lines are ASCII, so \<open>\d\<close>, \<open>\w\<close> and \<open>\s\<close> are read as their ASCII ranges.
\<close>

section \<open>Constants\<close>

definition reencode_memory :: nat where "reencode_memory = 6 * 3600 * second"

definition ts_storm_lines :: nat where "ts_storm_lines = 30"

definition ts_jump_relaunch_us :: nat where "ts_jump_relaunch_us = 3600000000"

definition capture_timeout :: nat where "capture_timeout = 60 * second"

record timings =
  tm_stall :: nat
  tm_relaunch_floor :: nat
  tm_storm_window :: nat
  tm_dead_lifetime :: nat
  tm_kill_grace :: nat
  tm_idle :: nat
  tm_sweep_every :: nat

definition default_timings :: timings where
  "default_timings = \<lparr>tm_stall = 12 * second, tm_relaunch_floor = 20 * second, tm_storm_window = 10 * second,
     tm_dead_lifetime = dead_feed_clean_eof, tm_kill_grace = 5 * second, tm_idle = remux_idle_ms * 1000000,
     tm_sweep_every = 5 * second\<rparr>"

section \<open>Reading ffmpeg's lines\<close>

definition is_word :: "char \<Rightarrow> bool" where
  "is_word c \<longleftrightarrow> (let b = of_char c :: nat in
     (48 \<le> b \<and> b \<le> 57) \<or> (65 \<le> b \<and> b \<le> 90) \<or> (97 \<le> b \<and> b \<le> 122) \<or> c = CHR ''_'')"

definition digits_then :: "string \<Rightarrow> (string \<times> string) option" where
  "digits_then s = (let d = takeWhile is_digit s in if d = [] then None else Some (d, dropWhile is_digit s))"

fun last_codec :: "string \<Rightarrow> string option" where
  "last_codec [] = None"
| "last_codec (c # s) =
     (case last_codec s of
        Some v \<Rightarrow> Some v
      | None \<Rightarrow>
          (case strip_prefix '': Video: '' (c # s) of
             None \<Rightarrow> None
           | Some r \<Rightarrow> (let w = takeWhile is_word r in if w = [] then None else Some w)))"

text \<open>\<open>VIDEO_RE\<close>: the leftmost stream header, and the last codec after it on the line.\<close>

fun video_codec :: "string \<Rightarrow> string option" where
  "video_codec [] = None"
| "video_codec (c # s) =
     (case Option.bind (strip_prefix ''Stream #'' (c # s)) (\<lambda>r. Option.bind (digits_then r) (\<lambda>(_, r).
             Option.bind (strip_prefix '':'' r) (\<lambda>r. Option.bind (digits_then r) (\<lambda>(_, r). last_codec r)))) of
        Some v \<Rightarrow> Some v
      | None \<Rightarrow> video_codec s)"

fun seg_name_ahead :: "string \<Rightarrow> bool" where
  "seg_name_ahead [] \<longleftrightarrow> False"
| "seg_name_ahead (c # s) \<longleftrightarrow>
     (case Option.bind (strip_prefix ''seg_'' (c # s)) digits_then of
        Some (_, r) \<Rightarrow> starts_with (''.ts'' @ [CHR 0x27] @ '' for writing'') r
      | None \<Rightarrow> False)
   \<or> (c \<noteq> CHR 0x27 \<and> seg_name_ahead s)"

fun opens_segment :: "string \<Rightarrow> bool" where
  "opens_segment [] \<longleftrightarrow> False"
| "opens_segment (c # s) \<longleftrightarrow>
     (case strip_prefix (''Opening '' @ [CHR 0x27]) (c # s) of None \<Rightarrow> False | Some r \<Rightarrow> seg_name_ahead r) \<or> opens_segment s"

text \<open>\<open>JUMP_RE\<close>: the first jump on the line, whose size is exact as a double where it matters.\<close>

fun jump_of :: "string \<Rightarrow> int option" where
  "jump_of [] = None"
| "jump_of (c # s) =
     (case Option.bind (strip_prefix ''timestamp discontinuity (stream id='' (c # s)) (\<lambda>r.
             Option.bind (digits_then r) (\<lambda>(_, r). Option.bind (strip_prefix ''): '' r) (\<lambda>r.
               (case strip_prefix ''-'' r of
                  Some r' \<Rightarrow> map_option (\<lambda>(d, _). - int (dec_val d)) (digits_then r')
                | None \<Rightarrow> map_option (\<lambda>(d, _). int (dec_val d)) (digits_then r))))) of
        Some v \<Rightarrow> Some v
      | None \<Rightarrow> jump_of s)"

datatype stderr_verdict = VLog bool | VReencode string | VKill

record probe =
  pb_reencode :: bool
  pb_saw_output :: bool
  pb_codec_decided :: bool
  pb_storm_count :: nat
  pb_storm_start :: "nat option"

definition new_probe :: "bool \<Rightarrow> probe" where
  "new_probe re = \<lparr>pb_reencode = re, pb_saw_output = False, pb_codec_decided = False, pb_storm_count = 0, pb_storm_start = None\<rparr>"

definition storm_or_log :: "nat \<Rightarrow> string \<Rightarrow> nat \<Rightarrow> probe \<Rightarrow> stderr_verdict \<times> probe" where
  "storm_or_log window line now p =
     (if str_contains line ''timestamp discontinuity''
      then if \<bar>case jump_of line of None \<Rightarrow> 0 | Some j \<Rightarrow> j\<bar> > int ts_jump_relaunch_us then (VKill, p)
      else (let p1 = (if case pb_storm_start p of None \<Rightarrow> True | Some s \<Rightarrow> now - s > window
                      then p\<lparr>pb_storm_start := Some now, pb_storm_count := 0\<rparr> else p);
                p2 = p1\<lparr>pb_storm_count := pb_storm_count p1 + 1\<rparr>
            in if pb_storm_count p2 \<ge> ts_storm_lines then (VKill, p2) else (VLog (opens_segment line), p2))
      else (VLog (opens_segment line), p))"

definition probe_line :: "nat \<Rightarrow> string \<Rightarrow> nat \<Rightarrow> probe \<Rightarrow> stderr_verdict \<times> probe" where
  "probe_line window line now p =
     (let p1 = (if starts_with ''Output #'' line then p\<lparr>pb_saw_output := True\<rparr> else p);
          codec = (if \<not> pb_codec_decided p1 \<and> \<not> pb_saw_output p1 \<and> \<not> pb_reencode p1
                   then map_option to_lower (video_codec line) else None);
          p2 = (if codec = None then p1 else p1\<lparr>pb_codec_decided := True\<rparr>)
      in case codec of
           Some c \<Rightarrow> if c \<noteq> ''h264'' \<and> c \<noteq> ''avc'' then (VReencode c, p2) else storm_or_log window line now p2
         | None \<Rightarrow> storm_or_log window line now p2)"

section \<open>Hiding the credentials in a line\<close>

function replace_str :: "string \<Rightarrow> string \<Rightarrow> string \<Rightarrow> string" where
  "replace_str v w s =
     (case s of
        [] \<Rightarrow> []
      | c # t \<Rightarrow>
          if v = [] then s
          else (case strip_prefix v s of Some r \<Rightarrow> w @ replace_str v w r | None \<Rightarrow> c # replace_str v w t))"
  by pat_completeness auto

termination
  by (relation "measure (\<lambda>(v, w, s). length s)") (auto simp: strip_prefix_Some)

declare replace_str.simps [simp del]

definition hide_value :: "string \<Rightarrow> string \<Rightarrow> string" where
  "hide_value v s =
     (if v = [] then s
      else (let s1 = replace_str v ''REDACTED'' s; e = encode_uri_component v
            in if e \<noteq> v then replace_str e ''REDACTED'' s1 else s1))"

definition no_slash_space :: "char \<Rightarrow> bool" where
  "no_slash_space c \<longleftrightarrow> c \<noteq> CHR ''/'' \<and> \<not> rust_space c"

text \<open>A run of characters other than a slash and white space, and the slash after it.\<close>

definition path_piece :: "string \<Rightarrow> (string \<times> string) option" where
  "path_piece s =
     (let p = takeWhile no_slash_space s; r = dropWhile no_slash_space s
      in if p \<noteq> [] \<and> starts_with ''/'' r then Some (p, tl r) else None)"

text \<open>\<open>PATH_CREDS_RE\<close>: what is kept (the scheme, the host and one more piece) and the rest after user and password.\<close>

definition path_creds :: "string \<Rightarrow> (string \<times> string) option" where
  "path_creds s =
     Option.bind (strip_prefix ''http'' s) (\<lambda>r.
       (let (h, r) = (case strip_prefix ''s'' r of Some r' \<Rightarrow> (''https'', r') | None \<Rightarrow> (''http'', r)) in
        Option.bind (strip_prefix ''://'' r) (\<lambda>r.
        Option.bind (path_piece r) (\<lambda>(host, r).
        Option.bind (path_piece r) (\<lambda>(kind, r).
        Option.bind (path_piece r) (\<lambda>(_, r).
        Option.bind (path_piece r) (\<lambda>(_, r).
          Some (h @ ''://'' @ host @ ''/'' @ kind @ ''/'', r))))))))"

lemma path_piece_shorter: "path_piece s = Some (p, r) \<Longrightarrow> length r < length s"
proof -
  assume p: "path_piece s = Some (p, r)"
  then have "r = tl (dropWhile no_slash_space s)" "dropWhile no_slash_space s \<noteq> []"
    by (auto simp: path_piece_def Let_def starts_with_def simp del: dropWhile_eq_Nil_conv split: if_splits)
  then show ?thesis using length_dropWhile_le [of no_slash_space s] by (cases "dropWhile no_slash_space s") auto
qed

lemma path_creds_shorter: "path_creds s = Some (k, r) \<Longrightarrow> length r < length s"
  by (auto simp: path_creds_def bind_eq_Some_conv strip_prefix_Some Let_def split: option.splits
      dest!: path_piece_shorter)

function hide_path :: "string \<Rightarrow> string" where
  "hide_path s =
     (case s of
        [] \<Rightarrow> []
      | c # t \<Rightarrow>
          (case path_creds s of
             Some (k, r) \<Rightarrow> k @ ''REDACTED/REDACTED/'' @ hide_path r
           | None \<Rightarrow> c # hide_path t))"
  by pat_completeness auto

termination
  by (relation "measure length") (auto dest: path_creds_shorter)

declare hide_path.simps [simp del]

definition value_char :: "char \<Rightarrow> bool" where
  "value_char c \<longleftrightarrow> c \<noteq> CHR ''&'' \<and> \<not> rust_space c"

text \<open>\<open>USER_RE\<close> and \<open>PASS_RE\<close>: a query parameter of that name.\<close>

function hide_param :: "string \<Rightarrow> string \<Rightarrow> string" where
  "hide_param name s =
     (case s of
        [] \<Rightarrow> []
      | c # t \<Rightarrow>
          (case (if c = CHR ''?'' \<or> c = CHR ''&'' then strip_prefix (name @ ''='') t else None) of
             Some r \<Rightarrow> c # name @ ''=REDACTED'' @ hide_param name (dropWhile value_char r)
           | None \<Rightarrow> c # hide_param name t))"
  by pat_completeness auto

termination
  by (relation "measure (length \<circ> snd)")
    (auto simp: strip_prefix_Some split: if_splits intro!: le_less_trans [OF length_dropWhile_le])

declare hide_param.simps [simp del]

definition scrub :: "string \<Rightarrow> string \<Rightarrow> string \<Rightarrow> string" where
  "scrub line user pass =
     hide_param ''password'' (hide_param ''username'' (hide_path (hide_value pass (hide_value user line))))"


section \<open>The registry\<close>

record remux_session =
  xs_stream :: string
  xs_sub :: string
  xs_started :: nat
  xs_seen :: nat
  xs_child :: nat

record remux_plan =
  xp_session :: string
  xp_stream :: string
  xp_dir :: string
  xp_manifest :: string
  xp_upstream :: string
  xp_reencode :: bool
  xp_proxy :: "string list"

text \<open>One supervisor: its current launch and the watchdogs of it; \<open>su_term\<close> is a SIGTERM order not yet taken.\<close>

record remux_task =
  su_plan :: remux_plan
  su_child :: nat
  su_spawned :: nat
  su_probe :: probe
  su_stall :: "nat option"
  su_term_kill :: "nat option"
  su_killed :: bool
  su_relaunch :: bool
  su_term :: bool

record remux_conf =
  rc_cap :: nat
  rc_tmp :: string
  rc_preset :: string
  rc_threads :: nat
  rc_height :: nat
  rc_user :: string
  rc_pass :: string
  rc_times :: timings

record remux =
  rm_sessions :: "(string, remux_session) imap"
  rm_draining :: "nat set"
  rm_aux :: "nat set"
  rm_reencode :: "string \<rightharpoonup> nat"
  rm_activity :: nat
  rm_ids :: nat
  rm_dead :: dead_feeds
  rm_tasks :: "(string, remux_task) imap"
  rm_alive :: "nat set"

definition new_remux :: "nat \<Rightarrow> dead_feeds \<Rightarrow> remux" where
  "new_remux now d =
     \<lparr>rm_sessions = [], rm_draining = {}, rm_aux = {}, rm_reencode = Map.empty, rm_activity = now, rm_ids = 0,
      rm_dead = d, rm_tasks = [], rm_alive = {}\<rparr>"

definition upstream_count :: "nat \<Rightarrow> remux \<Rightarrow> nat" where
  "upstream_count raw r = length (rm_sessions r) + card (rm_draining r) + card (rm_aux r) + raw"

definition viewer_upstream_count :: "nat \<Rightarrow> remux \<Rightarrow> nat" where
  "viewer_upstream_count raw r = length (rm_sessions r) + raw"

definition note_activity :: "nat \<Rightarrow> remux \<Rightarrow> remux" where
  "note_activity now r = r\<lparr>rm_activity := max (rm_activity r) now\<rparr>"

definition preempt :: "remux \<Rightarrow> nat \<times> remux" where
  "preempt r = (card (rm_aux r), r\<lparr>rm_aux := {}, rm_draining := rm_draining r \<union> rm_aux r\<rparr>)"

definition yield_aux :: "remux_conf \<Rightarrow> nat \<Rightarrow> remux \<Rightarrow> remux" where
  "yield_aux K raw r =
     (if rm_aux r = {} \<or> rc_cap K = 0 \<or> upstream_count raw r < rc_cap K then r else snd (preempt r))"

text \<open>The test of the wait that follows; the wait itself changes nothing.\<close>

definition yield_over :: "remux_conf \<Rightarrow> nat \<Rightarrow> remux \<Rightarrow> bool" where
  "yield_over K raw r \<longleftrightarrow> rm_draining r = {} \<or> upstream_count raw r < rc_cap K"

definition needs_reencode :: "string \<Rightarrow> nat \<Rightarrow> remux \<Rightarrow> bool \<times> remux" where
  "needs_reencode stream now r =
     (case rm_reencode r stream of
        Some e \<Rightarrow> if e > now then (True, r) else (False, r\<lparr>rm_reencode := (rm_reencode r)(stream := None)\<rparr>)
      | None \<Rightarrow> (False, r))"

definition remux_listed :: "remux \<Rightarrow> (string \<times> remux_session) list" where
  "remux_listed r = sort_key (\<lambda>(_, s). xs_started s) (rm_sessions r)"

definition is_active :: "string \<Rightarrow> remux \<Rightarrow> bool" where
  "is_active sid r \<longleftrightarrow> im_get (rm_sessions r) sid \<noteq> None"

definition remux_heartbeat :: "string \<Rightarrow> nat \<Rightarrow> remux \<Rightarrow> remux" where
  "remux_heartbeat sid now r =
     (case im_get (rm_sessions r) sid of
        None \<Rightarrow> r
      | Some s \<Rightarrow> note_activity now (r\<lparr>rm_sessions := im_insert sid (s\<lparr>xs_seen := now\<rparr>) (rm_sessions r)\<rparr>))"

definition order_term :: "string \<Rightarrow> remux \<Rightarrow> remux" where
  "order_term sid r =
     (case im_get (rm_tasks r) sid of
        None \<Rightarrow> r
      | Some t \<Rightarrow> r\<lparr>rm_tasks := im_insert sid (t\<lparr>su_term := True\<rparr>) (rm_tasks r)\<rparr>)"

definition stop_locked :: "nat \<Rightarrow> string \<Rightarrow> remux \<Rightarrow> remux" where
  "stop_locked now sid r =
     (case im_get (rm_sessions r) sid of
        None \<Rightarrow> r
      | Some s \<Rightarrow> note_activity now (order_term sid
          (r\<lparr>rm_sessions := im_remove sid (rm_sessions r), rm_draining := insert (xs_child s) (rm_draining r)\<rparr>)))"

definition sweep_idle :: "remux_conf \<Rightarrow> nat \<Rightarrow> remux \<Rightarrow> remux" where
  "sweep_idle K now r =
     fold (stop_locked now) (map fst (filter (\<lambda>(_, s). now - xs_seen s > tm_idle (rc_times K)) (rm_sessions r))) r"

text \<open>\<open>drain\<close> up to its wait, which only reads.\<close>

definition drain_all :: "nat \<Rightarrow> remux \<Rightarrow> remux" where
  "drain_all now r = fold (stop_locked now) (map fst (rm_sessions r)) r"

section \<open>Starting\<close>

definition assert_http :: "(string \<Rightarrow> string option) \<Rightarrow> string \<Rightarrow> string + unit" where
  "assert_http scheme upstream =
     (case scheme upstream of
        None \<Rightarrow> Inl ''remux upstream URL is not a valid URL''
      | Some s \<Rightarrow>
          if s = ''http'' \<or> s = ''https'' then Inr () else Inl (''remux upstream protocol not allowed: '' @ s @ '':''))"

definition safe_id_part :: "string \<Rightarrow> string" where
  "safe_id_part v = map (\<lambda>ch. if length ch = 1 \<and> (is_word (hd ch) \<or> hd ch \<in> set ''.-'') then hd ch else CHR ''_'') (utf8_chars v)"

definition remux_session_id :: "string \<Rightarrow> string \<Rightarrow> nat \<Rightarrow> string" where
  "remux_session_id stream sub ms = ''remux:'' @ stream @ '':'' @ safe_id_part sub @ '':'' @ dec_nat ms"

definition remux_dir :: "remux_conf \<Rightarrow> string \<Rightarrow> string" where
  "remux_dir K sid = rc_tmp K @ ''/'' @ map (\<lambda>c. if c = CHR '':'' \<or> c = CHR ''/'' then CHR ''_'' else c) sid"

definition remux_args :: "remux_conf \<Rightarrow> string \<Rightarrow> remux_plan \<Rightarrow> bool \<Rightarrow> string list" where
  "remux_args K protocols p resume =
     [''-hide_banner'', ''-loglevel'', ''info'', ''-nostats'', ''-nostdin'', ''-protocol_whitelist'', ''file,'' @ protocols]
   @ xp_proxy p
   @ [''-fflags'', ''+discardcorrupt+genpts+igndts'', ''-probesize'', ''10M'', ''-analyzeduration'', ''10M'',
      ''-rw_timeout'', ''15000000'', ''-user_agent'', ''IPTVSmarters'', ''-i'', xp_upstream p]
   @ (if xp_reencode p
      then [''-c:v'', ''libx264'', ''-preset'', rc_preset K, ''-pix_fmt'', ''yuv420p'', ''-g'', ''48'',
            ''-force_key_frames'', ''expr:gte(t,n_forced*2)'', ''-threads'', dec_nat (rc_threads K), ''-vf'',
            ''scale=-2:min('' @ dec_nat (rc_height K) @ [CHR 0x5C] @ '',ih)'']
      else [''-c:v'', ''copy''])
   @ [''-c:a'', ''aac'', ''-ac'', ''2'', ''-b:a'', ''160k'', ''-avoid_negative_ts'', ''make_zero'',
      ''-max_muxing_queue_size'', ''1024'', ''-f'', ''hls'', ''-hls_time'', ''2'', ''-hls_list_size'', ''40'', ''-hls_flags'',
      (if resume then ''delete_segments+append_list+omit_endlist+discont_start'' else ''delete_segments+append_list+omit_endlist''),
      ''-hls_segment_filename'', ''seg_%05d.ts'', xp_manifest p]"

definition remux_started :: "remux_conf \<Rightarrow> string \<Rightarrow> started" where
  "remux_started K sid =
     \<lparr>sd_session = sid, sd_dir = remux_dir K sid, sd_manifest = remux_dir K sid @ ''/index.m3u8''\<rparr>"

definition plan_of :: "remux_conf \<Rightarrow> string \<Rightarrow> string \<Rightarrow> string \<Rightarrow> bool \<Rightarrow> string list \<Rightarrow> remux_plan" where
  "plan_of K sid stream upstream re proxy =
     \<lparr>xp_session = sid, xp_stream = stream, xp_dir = remux_dir K sid, xp_manifest = remux_dir K sid @ ''/index.m3u8'',
      xp_upstream = upstream, xp_reencode = re, xp_proxy = proxy\<rparr>"

text \<open>A launch: the id is taken only when the process exists.\<close>

definition launched :: "remux_plan \<Rightarrow> nat \<Rightarrow> nat \<Rightarrow> remux_task" where
  "launched p i now =
     \<lparr>su_plan = p, su_child = i, su_spawned = now, su_probe = new_probe (xp_reencode p), su_stall = None,
      su_term_kill = None, su_killed = False, su_relaunch = False, su_term = False\<rparr>"

definition register :: "remux_plan \<Rightarrow> string \<Rightarrow> nat \<Rightarrow> remux \<Rightarrow> remux" where
  "register p sub now r =
     (let i = rm_ids r in
      r\<lparr>rm_ids := i + 1, rm_alive := insert i (rm_alive r),
        rm_sessions := im_insert (xp_session p)
          \<lparr>xs_stream = xp_stream p, xs_sub = sub, xs_started = now, xs_seen = now, xs_child = i\<rparr> (rm_sessions r),
        rm_tasks := im_insert (xp_session p) (launched p i now) (rm_tasks r)\<rparr>)"

definition least_seen :: "(string, remux_session) imap \<Rightarrow> (string \<times> remux_session) option" where
  "least_seen ss =
     (case ss of [] \<Rightarrow> None | x # xs \<Rightarrow> Some (fold (\<lambda>y m. if xs_seen (snd y) < xs_seen (snd m) then y else m) xs x))"

definition evict_idle :: "remux_conf \<Rightarrow> nat \<Rightarrow> remux \<Rightarrow> remux" where
  "evict_idle K now r =
     (case least_seen (rm_sessions r) of
        Some (sid, s) \<Rightarrow> if now - xs_seen s > tm_idle (rc_times K) then stop_locked now sid r else r
      | None \<Rightarrow> r)"

record remux_call =
  rk_stream :: string
  rk_sub :: string
  rk_upstream :: string
  rk_reencode :: bool
  rk_scheme :: "string \<Rightarrow> string option"
  rk_raw :: nat
  rk_proxy :: "string list option"
  rk_millis :: nat
  rk_mkdir :: bool
  rk_spawn :: bool

definition remux_start :: "remux_conf \<Rightarrow> remux_call \<Rightarrow> nat \<Rightarrow> remux \<Rightarrow> (string + started option) \<times> remux" where
  "remux_start K q now r =
     (case assert_http (rk_scheme q) (rk_upstream q) of
        Inl e \<Rightarrow> (Inl e, r)
      | Inr _ \<Rightarrow>
          (let r1 = note_activity now r in
           if 0 < rc_cap K \<and> rc_cap K \<le> upstream_count (rk_raw q) r1
           then (case preempt r1 of
                   (n, r2) \<Rightarrow>
                     if 0 < n then (Inr None, r2)
                     else (Inr None, if rm_draining r2 = {} then evict_idle K now r2 else r2))
           else (case rk_proxy q of
                   None \<Rightarrow> (Inr None, r1)
                 | Some px \<Rightarrow>
                     (let sid = remux_session_id (rk_stream q) (rk_sub q) (rk_millis q);
                          p = plan_of K sid (rk_stream q) (rk_upstream q) (rk_reencode q) px
                      in if \<not> rk_mkdir q then (Inl ''remux dir'', r1)
                         else (Inr (Some (remux_started K sid)), if rk_spawn q then register p (rk_sub q) now r1 else r1)))))"

section \<open>Captures of the feed check\<close>

definition capture_aux :: "remux_conf \<Rightarrow> nat \<Rightarrow> bool \<Rightarrow> remux \<Rightarrow> bool \<times> remux" where
  "capture_aux K raw spawned r =
     (if 0 < rc_cap K \<and> rc_cap K \<le> upstream_count raw r then (False, r)
      else (True, if spawned
        then r\<lparr>rm_ids := rm_ids r + 1, rm_aux := insert (rm_ids r) (rm_aux r), rm_alive := insert (rm_ids r) (rm_alive r)\<rparr>
        else r))"

definition capture_exit :: "nat \<Rightarrow> remux \<Rightarrow> remux" where
  "capture_exit i r =
     r\<lparr>rm_aux := rm_aux r - {i}, rm_draining := rm_draining r - {i}, rm_alive := rm_alive r - {i}\<rparr>"

section \<open>The supervisor\<close>

definition fault :: "remux_conf \<Rightarrow> nat \<Rightarrow> remux_task \<Rightarrow> remux_task" where
  "fault K now t =
     t\<lparr>su_relaunch := pb_saw_output (su_probe t) \<and> tm_relaunch_floor (rc_times K) \<le> now - su_spawned t,
       su_killed := True, su_stall := None\<rparr>"

text \<open>The feed to remember as not H.264, if any, and the task after one line of stderr.\<close>

definition task_line :: "remux_conf \<Rightarrow> string \<Rightarrow> nat \<Rightarrow> remux_task \<Rightarrow> bool \<times> remux_task" where
  "task_line K raw now t =
     (let line = str_trim (scrub (utf8_lossy raw) (rc_user K) (rc_pass K)) in
      if su_killed t \<or> line = [] then (False, t)
      else case probe_line (tm_storm_window (rc_times K)) line now (su_probe t) of
        (VReencode _, p) \<Rightarrow> (True, t\<lparr>su_probe := p, su_killed := True, su_stall := None\<rparr>)
      | (VKill, p) \<Rightarrow> (False, fault K now (t\<lparr>su_probe := p\<rparr>))
      | (VLog arm, p) \<Rightarrow>
          (False, (if arm then t\<lparr>su_probe := p, su_stall := Some (now + tm_stall (rc_times K))\<rparr> else t\<lparr>su_probe := p\<rparr>)))"

definition put_task :: "string \<Rightarrow> remux_task \<Rightarrow> remux \<Rightarrow> remux" where
  "put_task sid t r = r\<lparr>rm_tasks := im_insert sid t (rm_tasks r)\<rparr>"

definition sup_line :: "remux_conf \<Rightarrow> string \<Rightarrow> string \<Rightarrow> nat \<Rightarrow> remux \<Rightarrow> remux" where
  "sup_line K sid raw now r =
     (case im_get (rm_tasks r) sid of
        None \<Rightarrow> r
      | Some t \<Rightarrow>
          (case task_line K raw now t of
             (re, t') \<Rightarrow> put_task sid t'
               (if re then r\<lparr>rm_reencode := (rm_reencode r)(xp_stream (su_plan t) \<mapsto> now + reencode_memory)\<rparr> else r)))"

definition sup_stalled :: "remux_conf \<Rightarrow> string \<Rightarrow> nat \<Rightarrow> remux \<Rightarrow> remux" where
  "sup_stalled K sid now r =
     (case im_get (rm_tasks r) sid of
        None \<Rightarrow> r
      | Some t \<Rightarrow>
          (case su_stall t of
             None \<Rightarrow> r
           | Some e \<Rightarrow> if e \<le> now then put_task sid (fault K now t) r else r))"

definition sup_signal :: "remux_conf \<Rightarrow> string \<Rightarrow> nat \<Rightarrow> remux \<Rightarrow> remux" where
  "sup_signal K sid now r =
     (case im_get (rm_tasks r) sid of
        None \<Rightarrow> r
      | Some t \<Rightarrow>
          if su_term t
          then put_task sid (t\<lparr>su_term := False,
            su_term_kill := Some (case su_term_kill t of None \<Rightarrow> now + tm_kill_grace (rc_times K) | Some e \<Rightarrow> e)\<rparr>) r
          else r)"

definition sup_grace_over :: "string \<Rightarrow> nat \<Rightarrow> remux \<Rightarrow> remux" where
  "sup_grace_over sid now r =
     (case im_get (rm_tasks r) sid of
        None \<Rightarrow> r
      | Some t \<Rightarrow>
          (case su_term_kill t of
             None \<Rightarrow> r
           | Some e \<Rightarrow> if e \<le> now then put_task sid (t\<lparr>su_term_kill := None\<rparr>) r else r))"

text \<open>
  The child's exit, under the lock: \<open>code\<close> is the exit code (\<open>None\<close> after a signal), \<open>spawned\<close> whether a
  relaunch, when one is due, got a process.
\<close>

definition remux_exit :: "remux_conf \<Rightarrow> string \<Rightarrow> int option \<Rightarrow> bool \<Rightarrow> nat \<Rightarrow> remux \<Rightarrow> remux" where
  "remux_exit K sid code spawned now r =
     (case im_get (rm_tasks r) sid of
        None \<Rightarrow> r
      | Some t \<Rightarrow>
          (let c = su_child t; torn_down = c \<in> rm_draining r;
               r1 = r\<lparr>rm_draining := rm_draining r - {c}, rm_alive := rm_alive r - {c},
                 rm_dead := (if code = Some 0 \<and> \<not> torn_down \<and> now - su_spawned t < tm_dead_lifetime (rc_times K)
                             then strike (xp_stream (su_plan t)) now (rm_dead r) else rm_dead r)\<rparr>;
               live = (case im_get (rm_sessions r) sid of None \<Rightarrow> False | Some s \<Rightarrow> xs_child s = c)
           in if su_relaunch t \<and> live \<and> spawned
              then (let i = rm_ids r1 in
                r1\<lparr>rm_ids := i + 1, rm_alive := insert i (rm_alive r1),
                   rm_sessions := (case im_get (rm_sessions r1) sid of None \<Rightarrow> rm_sessions r1
                     | Some s \<Rightarrow> im_insert sid (s\<lparr>xs_child := i\<rparr>) (rm_sessions r1)),
                   rm_tasks := im_insert sid ((launched (su_plan t) i now)\<lparr>su_term := su_term t\<rparr>) (rm_tasks r1)\<rparr>)
              else r1\<lparr>rm_sessions := (if live then im_remove sid (rm_sessions r1) else rm_sessions r1),
                      rm_tasks := im_remove sid (rm_tasks r1)\<rparr>))"


section \<open>What the live index asks of it\<close>

definition remux_view_of :: "remux_conf \<Rightarrow> remux_call \<Rightarrow> nat \<Rightarrow> remux \<Rightarrow> remux_view" where
  "remux_view_of K q now r =
     \<lparr>rx_active = (\<lambda>sid. is_active sid r), rx_dead = (\<lambda>f. fst (is_dead f now (rm_dead r))),
      rx_reencode = (\<lambda>f. fst (needs_reencode f now r)),
      rx_start = (\<lambda>stream sub upstream re. fst (remux_start K
        (q\<lparr>rk_stream := stream, rk_sub := sub, rk_upstream := upstream, rk_reencode := re\<rparr>) now r))\<rparr>"

section \<open>Runs of the registry\<close>

datatype remux_op =
  RStart remux_call
| RStop string
| RHeartbeat string
| RSweep
| RDrain
| RPreempt
| RYield nat
| RCapture nat bool
| RCaptureExit nat
| RReencode string
| RLine string string
| RStalled string
| RSignal string
| RGrace string
| RExit string "int option" bool

fun remux_do :: "remux_conf \<Rightarrow> remux_op \<Rightarrow> nat \<Rightarrow> remux \<Rightarrow> remux" where
  "remux_do K (RStart q) now r = snd (remux_start K q now r)"
| "remux_do K (RStop sid) now r = stop_locked now sid r"
| "remux_do K (RHeartbeat sid) now r = remux_heartbeat sid now r"
| "remux_do K RSweep now r = sweep_idle K now r"
| "remux_do K RDrain now r = drain_all now r"
| "remux_do K RPreempt now r = snd (preempt r)"
| "remux_do K (RYield raw) now r = yield_aux K raw r"
| "remux_do K (RCapture raw ok) now r = snd (capture_aux K raw ok r)"
| "remux_do K (RCaptureExit i) now r = capture_exit i r"
| "remux_do K (RReencode f) now r = snd (needs_reencode f now r)"
| "remux_do K (RLine sid raw) now r = sup_line K sid raw now r"
| "remux_do K (RStalled sid) now r = sup_stalled K sid now r"
| "remux_do K (RSignal sid) now r = sup_signal K sid now r"
| "remux_do K (RGrace sid) now r = sup_grace_over sid now r"
| "remux_do K (RExit sid code ok) now r = remux_exit K sid code ok now r"

definition child_map :: "remux \<Rightarrow> (string \<rightharpoonup> nat)" where
  "child_map r = map_option xs_child \<circ> im_get (rm_sessions r)"

definition task_map :: "remux \<Rightarrow> (string \<rightharpoonup> nat)" where
  "task_map r = map_option su_child \<circ> im_get (rm_tasks r)"

text \<open>
  What the world keeps: two starts of one channel and viewer never fall into the same millisecond
  (\<open>remux_map\<close> waits seconds between them), so an id is not reused; and only a capture ends as a capture.
\<close>

fun remux_may :: "remux_conf \<Rightarrow> remux_op \<Rightarrow> remux \<Rightarrow> bool" where
  "remux_may K (RStart q) r \<longleftrightarrow>
     (let sid = remux_session_id (rk_stream q) (rk_sub q) (rk_millis q)
      in im_get (rm_sessions r) sid = None \<and> im_get (rm_tasks r) sid = None)"
| "remux_may K (RCaptureExit i) r \<longleftrightarrow> i \<notin> ran (task_map r)"
| "remux_may K _ r \<longleftrightarrow> True"

inductive remux_reachable :: "remux_conf \<Rightarrow> remux \<Rightarrow> bool" for K where
  remux_init: "remux_reachable K (new_remux now d)"
| remux_next: "remux_reachable K r \<Longrightarrow> remux_may K p r \<Longrightarrow> remux_reachable K (remux_do K p now r)"

section \<open>The invariant\<close>

text \<open>
  Sessions and supervisors as maps to children: every session has its supervisor, every supervisor's child is
  a session's or was signalled, no child is counted twice, and the counted children are the live ones.
\<close>

definition shape_ok :: "nat \<Rightarrow> (string \<rightharpoonup> nat) \<Rightarrow> (string \<rightharpoonup> nat) \<Rightarrow> nat set \<Rightarrow> nat set \<Rightarrow> nat set \<Rightarrow> nat \<Rightarrow> bool" where
  "shape_ok cap c t d a al n \<longleftrightarrow>
     c \<subseteq>\<^sub>m t \<and> ran t \<subseteq> ran c \<union> d \<and> inj_on t (dom t) \<and> d \<inter> ran c = {} \<and> a \<inter> ran t = {} \<and> a \<inter> d = {}
   \<and> al = ran c \<union> d \<union> a \<and> (\<forall>i\<in>al. i < n) \<and> finite (dom c) \<and> finite d \<and> finite a
   \<and> (0 < cap \<longrightarrow> card (dom c) + card d + card a \<le> cap)"

definition remux_inv :: "remux_conf \<Rightarrow> remux \<Rightarrow> bool" where
  "remux_inv K r \<longleftrightarrow> im_wf (rm_sessions r) \<and> im_wf (rm_tasks r)
     \<and> shape_ok (rc_cap K) (child_map r) (task_map r) (rm_draining r) (rm_aux r) (rm_alive r) (rm_ids r)"

lemma shape_inj: "inj_on t (dom t) \<Longrightarrow> t k = Some i \<Longrightarrow> t k' = Some i \<Longrightarrow> k = k'"
  by (erule inj_onD) auto

lemma ran_iff: "i \<in> ran t \<longleftrightarrow> (\<exists>k. t k = Some i)"
  by (simp add: ran_def)

lemma ran_without: "inj_on t (dom t) \<Longrightarrow> t k = Some i \<Longrightarrow> ran (t(k := None)) = ran t - {i}"
  by (rule set_eqI) (auto simp: ran_iff dest: shape_inj)

lemma le_value: "c \<subseteq>\<^sub>m t \<Longrightarrow> c k = Some i \<Longrightarrow> t k = Some i"
  by (metis domI map_le_def)

lemma ran_sub: "c \<subseteq>\<^sub>m t \<Longrightarrow> ran c \<subseteq> ran t"
  by (meson le_value ran_iff subsetI)

lemma le_inj: "c \<subseteq>\<^sub>m t \<Longrightarrow> inj_on t (dom t) \<Longrightarrow> inj_on c (dom c)"
  by (rule inj_onI) (metis domD le_value shape_inj)

text \<open>The invariant in the form the steps use: the four kinds of facts apart.\<close>

lemma shape_okI:
  assumes "c \<subseteq>\<^sub>m t" "ran t \<subseteq> ran c \<union> d" "inj_on t (dom t)"
    "d \<inter> ran c = {}" "a \<inter> ran t = {}" "a \<inter> d = {}" "al = ran c \<union> d \<union> a" "\<And>i. i \<in> al \<Longrightarrow> i < n"
    "finite (dom c)" "finite d" "finite a" "0 < cap \<Longrightarrow> card (dom c) + card d + card a \<le> cap"
  shows "shape_ok cap c t d a al n"
  using assms by (simp add: shape_ok_def)

lemma shape_okD:
  assumes "shape_ok cap c t d a al n"
  shows "c \<subseteq>\<^sub>m t" "ran t \<subseteq> ran c \<union> d" "inj_on t (dom t)"
    "d \<inter> ran c = {}" "a \<inter> ran t = {}" "a \<inter> d = {}" "al = ran c \<union> d \<union> a" "i \<in> al \<Longrightarrow> i < n"
    "finite (dom c)" "finite d" "finite a" "0 < cap \<Longrightarrow> card (dom c) + card d + card a \<le> cap"
    "ran c \<subseteq> ran t" "inj_on c (dom c)"
  using assms ran_sub [of c t] le_inj [of c t] unfolding shape_ok_def by blast+

lemma shape_stop:
  assumes s: "shape_ok cap c t d a al n" and k: "c k = Some i"
  shows "shape_ok cap (c(k := None)) t (insert i d) a al n"
proof -
  note D = shape_okD [OF s]
  have r: "ran (c(k := None)) = ran c - {i}" by (rule ran_without [OF D(14) k])
  have "i \<in> ran c" using k by (rule ranI)
  with D(4,13) have i: "i \<in> ran c" "i \<in> ran t" "i \<notin> d" by blast+
  have "Suc (card (dom c - {k})) = card (dom c)" using k D(9) by (intro card.remove [symmetric]) auto
  then have n: "card (dom (c(k := None))) + card (insert i d) = card (dom c) + card d" using D(10) i(3) by simp
  show ?thesis
  proof (rule shape_okI)
    show "c(k := None) \<subseteq>\<^sub>m t" using D(1) by (simp add: map_le_def)
    show "0 < cap \<Longrightarrow> card (dom (c(k := None))) + card (insert i d) + card a \<le> cap" using D(12) n by simp
  qed (use D i r in auto)
qed

lemma shape_preempt:
  assumes s: "shape_ok cap c t d a al n"
  shows "shape_ok cap c t (d \<union> a) {} al n"
proof -
  note D = shape_okD [OF s]
  have "card (d \<union> a) = card d + card a" using D(6,10,11) by (simp add: card_Un_disjoint Int_commute)
  then show ?thesis using D by (intro shape_okI) auto
qed

lemma shape_start:
  assumes s: "shape_ok cap c t d a al n" and k: "c k = None" "t k = None"
    and room: "0 < cap \<Longrightarrow> card (dom c) + card d + card a < cap"
  shows "shape_ok cap (c(k \<mapsto> n)) (t(k \<mapsto> n)) d a (insert n al) (n + 1)"
proof -
  note D = shape_okD [OF s]
  have r: "ran (c(k \<mapsto> n)) = insert n (ran c)" "ran (t(k \<mapsto> n)) = insert n (ran t)" using k by simp_all
  have n: "n \<notin> al" using D(8) by blast
  then have f: "n \<notin> ran t" "n \<notin> d" "n \<notin> a" using D(2,7) by auto
  show ?thesis
  proof (rule shape_okI)
    show "c(k \<mapsto> n) \<subseteq>\<^sub>m t(k \<mapsto> n)" using D(1) by (simp add: map_le_def)
    show "inj_on (t(k \<mapsto> n)) (dom (t(k \<mapsto> n)))"
    proof -
      have "inj_on t (insert k (dom t))" using D(3) k(2) by (auto simp: inj_on_insert domIff image_iff)
      moreover have "Some n \<notin> t ` insert k (dom t)" using f(1) k(2) by (auto simp: ran_iff image_iff)
      ultimately have "inj_on (t(k \<mapsto> n)) (insert k (dom t))" by (rule inj_on_fun_updI)
      then show ?thesis by simp
    qed
    show "0 < cap \<Longrightarrow> card (dom (c(k \<mapsto> n))) + card d + card a \<le> cap" using room D(9) k by (simp add: domIff)
    show "i \<in> insert n al \<Longrightarrow> i < n + 1" for i using D(8) [of i] by auto
  qed (use D f r in auto)
qed

lemma shape_capture:
  assumes s: "shape_ok cap c t d a al n" and room: "0 < cap \<Longrightarrow> card (dom c) + card d + card a < cap"
  shows "shape_ok cap c t d (insert n a) (insert n al) (n + 1)"
proof -
  note D = shape_okD [OF s]
  have n: "n \<notin> al" using D(8) by blast
  then have f: "n \<notin> ran t" "n \<notin> d" "n \<notin> a" using D(2,7) by auto
  show ?thesis
  proof (rule shape_okI)
    show "0 < cap \<Longrightarrow> card (dom c) + card d + card (insert n a) \<le> cap" using room D(11) f by simp
    show "i \<in> insert n al \<Longrightarrow> i < n + 1" for i using D(8) [of i] by auto
  qed (use D f in auto)
qed

lemma shape_capture_exit:
  assumes s: "shape_ok cap c t d a al n" and i: "i \<notin> ran t"
  shows "shape_ok cap c t (d - {i}) (a - {i}) (al - {i}) n"
proof -
  note D = shape_okD [OF s]
  have c: "i \<notin> ran c" using i D(13) by blast
  have "card (d - {i}) \<le> card d" "card (a - {i}) \<le> card a" using D(10,11) by (auto intro: card_mono)
  with D c i show ?thesis by (intro shape_okI) auto
qed

lemma shape_end:
  assumes s: "shape_ok cap c t d a al n" and t: "t k = Some i"
  shows "shape_ok cap (c(k := None)) (t(k := None)) (d - {i}) a (al - {i}) n"
proof -
  note D = shape_okD [OF s]
  have r: "ran (t(k := None)) = ran t - {i}" by (rule ran_without [OF D(3) t])
  have c: "ran (c(k := None)) = ran c - {i}"
  proof (cases "c k")
    case None
    have "i \<notin> ran c"
    proof
      assume "i \<in> ran c"
      then obtain k' where "c k' = Some i" by (auto simp: ran_iff)
      with le_value [OF D(1)] shape_inj [OF D(3) t] None show False by fastforce
    qed
    with None show ?thesis by (simp add: fun_upd_idem)
  next
    case (Some j)
    with t le_value [OF D(1)] have "j = i" by fastforce
    with Some show ?thesis by (intro ran_without [OF D(14)]) simp
  qed
  have "i \<in> ran t" using t by (rule ranI)
  with D(5) have i: "i \<in> ran t" "i \<notin> a" by blast+
  have m: "card (dom (c(k := None))) \<le> card (dom c)" "card (d - {i}) \<le> card d"
    using D(9,10) by (auto intro: card_mono)
  show ?thesis
  proof (rule shape_okI)
    show "c(k := None) \<subseteq>\<^sub>m t(k := None)" using D(1) by (simp add: map_le_def)
    show "inj_on (t(k := None)) (dom (t(k := None)))" using D(3) by (auto simp: inj_on_def)
    show "0 < cap \<Longrightarrow> card (dom (c(k := None))) + card (d - {i}) + card a \<le> cap" using D(12) m by linarith
  qed (use D i r c in auto)
qed

lemma shape_relaunch:
  assumes s: "shape_ok cap c t d a al n" and i: "t k = Some i" "c k = Some i"
  shows "shape_ok cap (c(k \<mapsto> n)) (t(k \<mapsto> n)) (d - {i}) a (insert n (al - {i})) (n + 1)"
proof -
  note D = shape_okD [OF s]
  have "card (dom c - {k}) < card (dom c)" using D(9) i(2) by (intro card_Diff1_less) auto
  moreover have "card (d - {i}) \<le> card d" using D(10) by (auto intro: card_mono)
  ultimately have room: "0 < cap \<Longrightarrow> card (dom (c(k := None))) + card (d - {i}) + card a < cap"
    using D(12) by simp
  have "shape_ok cap ((c(k := None))(k \<mapsto> n)) ((t(k := None))(k \<mapsto> n)) (d - {i}) a (insert n (al - {i})) (n + 1)"
    by (rule shape_start [OF shape_end [OF s i(1)] _ _ room]) auto
  then show ?thesis by simp
qed


section \<open>Every operation keeps it\<close>

lemma child_map_insert: "child_map (r\<lparr>rm_sessions := im_insert sid s (rm_sessions r)\<rparr>) = (child_map r)(sid \<mapsto> xs_child s)"
  by (auto simp: child_map_def update_conv' fun_eq_iff)

lemma task_map_insert: "task_map (r\<lparr>rm_tasks := im_insert sid t (rm_tasks r)\<rparr>) = (task_map r)(sid \<mapsto> su_child t)"
  by (auto simp: task_map_def update_conv' fun_eq_iff)

lemma map_fields:
  "child_map (r\<lparr>rm_tasks := x\<rparr>) = child_map r" "task_map (r\<lparr>rm_sessions := y\<rparr>) = task_map r"
  "child_map (r\<lparr>rm_activity := v\<rparr>) = child_map r" "task_map (r\<lparr>rm_activity := v\<rparr>) = task_map r"
  "child_map (r\<lparr>rm_draining := d\<rparr>) = child_map r" "task_map (r\<lparr>rm_draining := d\<rparr>) = task_map r"
  "child_map (r\<lparr>rm_aux := d\<rparr>) = child_map r" "task_map (r\<lparr>rm_aux := d\<rparr>) = task_map r"
  "child_map (r\<lparr>rm_alive := d\<rparr>) = child_map r" "task_map (r\<lparr>rm_alive := d\<rparr>) = task_map r"
  "child_map (r\<lparr>rm_ids := v\<rparr>) = child_map r" "task_map (r\<lparr>rm_ids := v\<rparr>) = task_map r"
  "child_map (r\<lparr>rm_reencode := f\<rparr>) = child_map r" "task_map (r\<lparr>rm_reencode := f\<rparr>) = task_map r"
  "child_map (r\<lparr>rm_dead := z\<rparr>) = child_map r" "task_map (r\<lparr>rm_dead := z\<rparr>) = task_map r"
  by (simp_all add: child_map_def task_map_def)

lemma dom_child_map: "im_wf (rm_sessions r) \<Longrightarrow> card (dom (child_map r)) = length (rm_sessions r)"
  using distinct_card [of "map fst (rm_sessions r)"] by (simp add: child_map_def dom_map_option_comp dom_map_of_conv_image_fst)

lemma inv_wf: "remux_inv K r \<Longrightarrow> im_wf (rm_sessions r)" "remux_inv K r \<Longrightarrow> im_wf (rm_tasks r)"
  by (simp_all add: remux_inv_def)

lemma count_shape: "remux_inv K r \<Longrightarrow> upstream_count raw r = card (dom (child_map r)) + card (rm_draining r) + card (rm_aux r) + raw"
  by (simp add: upstream_count_def remux_inv_def dom_child_map)

text \<open>An operation that keeps sessions' and supervisors' children and the counted sets keeps the invariant.\<close>

lemma inv_same:
  assumes "remux_inv K r" "im_wf (rm_sessions r')" "im_wf (rm_tasks r')" "child_map r' = child_map r" "task_map r' = task_map r"
    "rm_draining r' = rm_draining r" "rm_aux r' = rm_aux r" "rm_alive r' = rm_alive r" "rm_ids r' = rm_ids r"
  shows "remux_inv K r'"
  using assms by (simp add: remux_inv_def)

lemma put_task_inv:
  assumes inv: "remux_inv K r" and t: "im_get (rm_tasks r) sid = Some t" "su_child t' = su_child t"
  shows "remux_inv K (put_task sid t' r)"
proof (rule inv_same [OF inv])
  show "task_map (put_task sid t' r) = task_map r"
    using t unfolding put_task_def task_map_insert by (auto simp: task_map_def fun_eq_iff)
qed (use inv_wf [OF inv] in \<open>simp_all add: put_task_def map_fields\<close>)

lemma note_activity_inv: "remux_inv K r \<Longrightarrow> remux_inv K (note_activity now r)"
  by (frule inv_wf(1), frule inv_wf(2), erule inv_same) (simp_all add: note_activity_def map_fields)

lemma order_term_inv: "remux_inv K r \<Longrightarrow> remux_inv K (order_term sid r)"
  using put_task_inv [of K r sid] by (auto simp: order_term_def put_task_def split: option.splits)

lemma stop_inv:
  assumes inv: "remux_inv K r"
  shows "remux_inv K (stop_locked now sid r)"
proof (cases "im_get (rm_sessions r) sid")
  case None
  with inv show ?thesis by (simp add: stop_locked_def)
next
  case (Some s)
  let ?r = "r\<lparr>rm_sessions := im_remove sid (rm_sessions r), rm_draining := insert (xs_child s) (rm_draining r)\<rparr>"
  have c: "child_map (r\<lparr>rm_sessions := im_remove sid (rm_sessions r)\<rparr>) = (child_map r)(sid := None)"
    by (auto simp: child_map_def delete_conv' fun_eq_iff)
  have k: "child_map r sid = Some (xs_child s)" using Some by (simp add: child_map_def)
  have "remux_inv K ?r"
    using inv shape_stop [of "rc_cap K" "child_map r" "task_map r" "rm_draining r" "rm_aux r" "rm_alive r" "rm_ids r", OF _ k]
    unfolding remux_inv_def by (simp add: c map_fields)
  then show ?thesis using Some by (simp add: stop_locked_def note_activity_inv order_term_inv)
qed

lemma fold_stop_inv: "remux_inv K r \<Longrightarrow> remux_inv K (fold (stop_locked now) ids r)"
  by (induction ids arbitrary: r) (simp_all add: stop_inv)

lemma preempt_inv: "remux_inv K r \<Longrightarrow> remux_inv K (snd (preempt r))"
  using shape_preempt by (simp add: remux_inv_def preempt_def map_fields)

lemma register_inv:
  assumes inv: "remux_inv K r" and room: "0 < rc_cap K \<Longrightarrow> upstream_count raw r < rc_cap K"
    and fresh: "im_get (rm_sessions r) (xp_session p) = None" "im_get (rm_tasks r) (xp_session p) = None"
  shows "remux_inv K (register p sub now r)"
proof -
  have s: "shape_ok (rc_cap K) (child_map r) (task_map r) (rm_draining r) (rm_aux r) (rm_alive r) (rm_ids r)"
    using inv by (simp add: remux_inv_def)
  have n: "child_map r (xp_session p) = None" "task_map r (xp_session p) = None"
    using fresh by (simp_all add: child_map_def task_map_def)
  have "shape_ok (rc_cap K) ((child_map r)(xp_session p \<mapsto> rm_ids r)) ((task_map r)(xp_session p \<mapsto> rm_ids r))
      (rm_draining r) (rm_aux r) (insert (rm_ids r) (rm_alive r)) (rm_ids r + 1)"
    by (rule shape_start [OF s n]) (use room count_shape [OF inv, of raw] in simp)
  moreover have "child_map (register p sub now r) = (child_map r)(xp_session p \<mapsto> rm_ids r)"
    by (auto simp: register_def Let_def child_map_def update_conv' fun_eq_iff)
  moreover have "task_map (register p sub now r) = (task_map r)(xp_session p \<mapsto> rm_ids r)"
    by (auto simp: register_def Let_def task_map_def update_conv' fun_eq_iff launched_def)
  ultimately show ?thesis using inv by (simp add: remux_inv_def) (simp add: register_def Let_def)
qed

lemma note_activity_simps [simp]:
  "rm_sessions (note_activity now r) = rm_sessions r" "rm_tasks (note_activity now r) = rm_tasks r"
  "rm_alive (note_activity now r) = rm_alive r" "rm_draining (note_activity now r) = rm_draining r"
  "rm_aux (note_activity now r) = rm_aux r" "rm_dead (note_activity now r) = rm_dead r"
  "upstream_count raw (note_activity now r) = upstream_count raw r"
  by (simp_all add: note_activity_def upstream_count_def)

lemma evict_inv: "remux_inv K r \<Longrightarrow> remux_inv K (evict_idle K now r)"
  by (simp add: evict_idle_def stop_inv split: option.splits)

lemma start_inv:
  assumes inv: "remux_inv K r" and may: "remux_may K (RStart q) r"
  shows "remux_inv K (snd (remux_start K q now r))"
proof -
  let ?r = "note_activity now r"
  have i: "remux_inv K ?r" by (rule note_activity_inv [OF inv])
  have "remux_inv K (register (plan_of K (remux_session_id (rk_stream q) (rk_sub q) (rk_millis q)) (rk_stream q) (rk_upstream q)
      (rk_reencode q) px) (rk_sub q) now ?r)" if "\<not> (0 < rc_cap K \<and> rc_cap K \<le> upstream_count (rk_raw q) r)" for px
    by (rule register_inv [OF i, of "rk_raw q"]) (use that may in \<open>auto simp: plan_of_def Let_def\<close>)
  moreover note preempt_inv [OF i] evict_inv [OF preempt_inv [OF i]] i inv
  ultimately show ?thesis
    by (auto simp: remux_start_def Let_def preempt_def split: sum.splits option.splits)
qed

lemma capture_inv: "remux_inv K r \<Longrightarrow> remux_inv K (snd (capture_aux K raw ok r))"
  using shape_capture [of "rc_cap K" "child_map r" "task_map r" "rm_draining r" "rm_aux r" "rm_alive r" "rm_ids r"]
    count_shape [of K r raw]
  by (auto simp: capture_aux_def remux_inv_def map_fields)

lemma capture_exit_inv: "remux_inv K r \<Longrightarrow> i \<notin> ran (task_map r) \<Longrightarrow> remux_inv K (capture_exit i r)"
  using shape_capture_exit [of "rc_cap K" "child_map r" "task_map r" "rm_draining r" "rm_aux r" "rm_alive r" "rm_ids r" i]
  by (simp add: capture_exit_def remux_inv_def map_fields)

lemma exit_inv:
  assumes inv: "remux_inv K r"
  shows "remux_inv K (remux_exit K sid code ok now r)"
proof (cases "im_get (rm_tasks r) sid")
  case None
  with inv show ?thesis by (simp add: remux_exit_def)
next
  case (Some t)
  have s: "shape_ok (rc_cap K) (child_map r) (task_map r) (rm_draining r) (rm_aux r) (rm_alive r) (rm_ids r)"
    and wf: "im_wf (rm_sessions r)" "im_wf (rm_tasks r)"
    using inv by (simp_all add: remux_inv_def)
  have t: "task_map r sid = Some (su_child t)" using Some by (simp add: task_map_def)
  let ?live = "case im_get (rm_sessions r) sid of None \<Rightarrow> False | Some s \<Rightarrow> xs_child s = su_child t"
  show ?thesis
  proof (cases "su_relaunch t \<and> ?live \<and> ok")
    case True
    then obtain x where x: "im_get (rm_sessions r) sid = Some x" "xs_child x = su_child t" by (auto split: option.splits)
    then have c: "child_map r sid = Some (su_child t)" by (simp add: child_map_def)
    let ?r' = "remux_exit K sid code ok now r"
    have "child_map ?r' = (child_map r)(sid \<mapsto> rm_ids r)" "task_map ?r' = (task_map r)(sid \<mapsto> rm_ids r)"
      using True Some x by (auto simp: remux_exit_def Let_def child_map_def task_map_def update_conv' launched_def fun_eq_iff)
    moreover have "rm_draining ?r' = rm_draining r - {su_child t}" "rm_aux ?r' = rm_aux r" "rm_ids ?r' = rm_ids r + 1"
      "rm_alive ?r' = insert (rm_ids r) (rm_alive r - {su_child t})" "im_wf (rm_sessions ?r')" "im_wf (rm_tasks ?r')"
      using True Some x wf by (auto simp: remux_exit_def Let_def)
    ultimately show ?thesis using shape_relaunch [OF s t c] by (simp add: remux_inv_def)
  next
    case False
    let ?r' = "remux_exit K sid code ok now r"
    have f: "(su_relaunch t \<and> ?live \<and> ok) = False" using False by simp
    have e: "?r' = (let c = su_child t; r1 = r\<lparr>rm_draining := rm_draining r - {c}, rm_alive := rm_alive r - {c},
                 rm_dead := (if code = Some 0 \<and> \<not> c \<in> rm_draining r \<and> now - su_spawned t < tm_dead_lifetime (rc_times K)
                             then strike (xp_stream (su_plan t)) now (rm_dead r) else rm_dead r)\<rparr>
       in r1\<lparr>rm_sessions := (if ?live then im_remove sid (rm_sessions r1) else rm_sessions r1),
              rm_tasks := im_remove sid (rm_tasks r1)\<rparr>)"
      unfolding remux_exit_def Some option.case Let_def f if_False by simp
    have "child_map ?r' = (child_map r)(sid := None)"
    proof (cases "im_get (rm_sessions r) sid")
      case None
      then show ?thesis by (auto simp: e Let_def child_map_def fun_eq_iff)
    next
      case (Some x)
      then have "child_map r sid = Some (xs_child x)" by (simp add: child_map_def)
      with t le_value [OF shape_okD(1) [OF s]] have "xs_child x = su_child t" by fastforce
      with Some show ?thesis by (auto simp: e Let_def child_map_def delete_conv' fun_eq_iff)
    qed
    moreover have "task_map ?r' = (task_map r)(sid := None)" by (auto simp: e Let_def task_map_def delete_conv' fun_eq_iff)
    moreover have "rm_draining ?r' = rm_draining r - {su_child t}" "rm_aux ?r' = rm_aux r" "rm_ids ?r' = rm_ids r"
      "rm_alive ?r' = rm_alive r - {su_child t}" "im_wf (rm_sessions ?r')" "im_wf (rm_tasks ?r')"
      using wf by (auto simp: e Let_def)
    ultimately show ?thesis using shape_end [OF s t] by (simp add: remux_inv_def)
  qed
qed

lemma fault_child [simp]: "su_child (fault K now t) = su_child t"
  by (simp add: fault_def)

lemma task_line_child: "su_child (snd (task_line K raw now t)) = su_child t"
  by (auto simp: task_line_def Let_def split: stderr_verdict.splits prod.splits)

lemma heartbeat_inv:
  assumes inv: "remux_inv K r"
  shows "remux_inv K (remux_heartbeat sid now r)"
proof (cases "im_get (rm_sessions r) sid")
  case None
  with inv show ?thesis by (simp add: remux_heartbeat_def)
next
  case (Some s)
  have "remux_inv K (r\<lparr>rm_sessions := im_insert sid (s\<lparr>xs_seen := now\<rparr>) (rm_sessions r)\<rparr>)"
  proof (rule inv_same [OF inv])
    show "child_map (r\<lparr>rm_sessions := im_insert sid (s\<lparr>xs_seen := now\<rparr>) (rm_sessions r)\<rparr>) = child_map r"
      using Some unfolding child_map_insert by (auto simp: child_map_def fun_eq_iff)
  qed (use inv_wf [OF inv] in \<open>simp_all add: map_fields\<close>)
  with Some show ?thesis by (simp add: remux_heartbeat_def note_activity_inv)
qed

lemma sup_line_inv:
  assumes inv: "remux_inv K r"
  shows "remux_inv K (sup_line K sid raw now r)"
proof (cases "im_get (rm_tasks r) sid")
  case None
  with inv show ?thesis by (simp add: sup_line_def)
next
  case (Some t)
  obtain re t' where l: "task_line K raw now t = (re, t')" by fastforce
  have c: "su_child t' = su_child t" using task_line_child [of K raw now t] by (simp add: l)
  have "remux_inv K (r\<lparr>rm_reencode := f\<rparr>)" for f
    by (rule inv_same [OF inv]) (use inv_wf [OF inv] in \<open>simp_all add: map_fields\<close>)
  with put_task_inv [OF _ _ c] inv Some show ?thesis by (simp add: sup_line_def l)
qed

lemma remux_inv_step:
  assumes inv: "remux_inv K r" and may: "remux_may K p r"
  shows "remux_inv K (remux_do K p now r)"
proof (cases p)
  case (RStart q)
  with inv may start_inv show ?thesis by (simp del: remux_may.simps)
next
  case (RReencode f)
  have "remux_inv K (r\<lparr>rm_reencode := g\<rparr>)" for g
    by (rule inv_same [OF inv]) (use inv_wf [OF inv] in \<open>simp_all add: map_fields\<close>)
  with inv RReencode show ?thesis by (simp add: needs_reencode_def split: option.splits)
next
  case (RCaptureExit i)
  with inv may capture_exit_inv show ?thesis by simp
qed (use inv in \<open>auto simp: stop_inv heartbeat_inv sweep_idle_def drain_all_def fold_stop_inv preempt_inv yield_aux_def
  capture_inv sup_line_inv exit_inv sup_stalled_def sup_signal_def sup_grace_over_def split: option.splits
  intro!: put_task_inv\<close>)

lemma remux_new_inv: "remux_inv K (new_remux now d)"
  by (simp add: remux_inv_def new_remux_def shape_ok_def child_map_def task_map_def)

lemma reachable_remux_inv: "remux_reachable K r \<Longrightarrow> remux_inv K r"
  by (induction rule: remux_reachable.induct) (simp_all add: remux_new_inv remux_inv_step)


section \<open>Properties\<close>

lemma card_ran: "inj_on c (dom c) \<Longrightarrow> finite (dom c) \<Longrightarrow> card (ran c) = card (dom c)"
proof -
  assume "inj_on c (dom c)" "finite (dom c)"
  then have "card (c ` dom c) = card (dom c)" by (simp add: card_image)
  moreover have "c ` dom c = Some ` ran c" by (auto simp: ran_def dom_def image_iff) (metis)
  ultimately show ?thesis by (metis card_image inj_Some)
qed

lemma alive_counted:
  assumes "remux_inv K r"
  shows "finite (rm_alive r) \<and> card (rm_alive r) = upstream_count 0 r"
proof -
  have s: "shape_ok (rc_cap K) (child_map r) (task_map r) (rm_draining r) (rm_aux r) (rm_alive r) (rm_ids r)"
    using assms by (simp add: remux_inv_def)
  note D = shape_okD [OF s]
  have "finite (ran (child_map r))" using D(9) by (rule finite_ran)
  moreover have "rm_aux r \<inter> ran (child_map r) = {}" using D(5,13) by blast
  ultimately have "card (rm_alive r) = card (ran (child_map r)) + card (rm_draining r) + card (rm_aux r)"
    unfolding D(7) using D(4,6,10,11) by (subst card_Un_disjoint card_Un_disjoint; auto)+
  with \<open>finite (ran (child_map r))\<close> D(7,10,11) show ?thesis
    by (simp add: count_shape [OF assms] card_ran [OF D(14,9)])
qed

lemma stop_alive [simp]: "rm_alive (stop_locked now sid r) = rm_alive r"
  by (simp add: stop_locked_def order_term_def split: option.splits)

lemma evict_alive [simp]: "rm_alive (evict_idle K now r) = rm_alive r"
  by (simp add: evict_idle_def split: option.splits)

lemma start_refused: "remux_start K q now r = (res, r') \<Longrightarrow> (\<And>st. res \<noteq> Inr (Some st)) \<Longrightarrow> rm_alive r' = rm_alive r"
  by (auto simp: remux_start_def Let_def preempt_def split: sum.splits option.splits if_splits)

lemma start_room:
  assumes "remux_start K q now r = (Inr (Some st), r')" "0 < rc_cap K"
  shows "upstream_count (rk_raw q) r' \<le> rc_cap K"
proof -
  have reg: "upstream_count (rk_raw q) (register p sub now x) \<le> Suc (upstream_count (rk_raw q) x)" for p sub x
    by (simp add: register_def Let_def upstream_count_def length_im_insert)
  have room: "upstream_count (rk_raw q) r < rc_cap K"
    using assms by (auto simp: remux_start_def Let_def preempt_def split: sum.splits option.splits if_splits)
  from assms(1) have "r' = note_activity now r \<or> (\<exists>p. r' = register p (rk_sub q) now (note_activity now r))"
    by (auto simp: remux_start_def Let_def preempt_def split: sum.splits option.splits if_splits)
  with room show ?thesis by (auto intro!: order_trans [OF reg])
qed

text \<open>
  C39. The provider cap counts every socket and is never passed.  Whatever sessions start, stop, fault,
  relaunch and exit, and whatever captures run and are preempted, in any order: the children that may hold a
  provider socket are exactly the ones the registry counts, so there are never more of them than the cap; and
  a start that dials does so with room for it, raw live and recordings included.
\<close>

theorem upstream_cap_respected:
  assumes "remux_reachable K r" "0 < rc_cap K"
  shows "finite (rm_alive r) \<and> card (rm_alive r) = upstream_count 0 r \<and> card (rm_alive r) \<le> rc_cap K
    \<and> (case remux_start K q now r of
         (Inr (Some _), r') \<Rightarrow> upstream_count (rk_raw q) r' \<le> rc_cap K
       | (_, r') \<Rightarrow> rm_alive r' = rm_alive r)"
proof -
  have inv: "remux_inv K r" by (rule reachable_remux_inv [OF assms(1)])
  have "upstream_count 0 r \<le> rc_cap K"
    using inv assms(2) unfolding remux_inv_def by (simp add: count_shape [OF inv] shape_ok_def)
  moreover obtain res r' where st: "remux_start K q now r = (res, r')" by fastforce
  ultimately show ?thesis using alive_counted [OF inv] start_room [of K q now r _ r'] start_refused [OF st] assms(2)
    by (auto split: sum.splits option.splits)
qed

definition demo_conf :: remux_conf where
  "demo_conf = \<lparr>rc_cap = 1, rc_tmp = ''/t'', rc_preset = ''p'', rc_threads = 1, rc_height = 1, rc_user = ''x'', rc_pass = ''y'',
     rc_times = \<lparr>tm_stall = 12, tm_relaunch_floor = 20, tm_storm_window = 10, tm_dead_lifetime = 60, tm_kill_grace = 5,
       tm_idle = 90, tm_sweep_every = 5\<rparr>\<rparr>"

definition demo_call :: "string \<Rightarrow> remux_call" where
  "demo_call stream = \<lparr>rk_stream = stream, rk_sub = ''u'', rk_upstream = ''http://h'', rk_reencode = False,
     rk_scheme = (\<lambda>_. Some ''http''), rk_raw = 0, rk_proxy = Some [], rk_millis = 1, rk_mkdir = True, rk_spawn = True\<rparr>"

definition one_remux :: remux where
  "one_remux = remux_do demo_conf (RStart (demo_call ''7'')) 5 (new_remux 0 no_dead_feeds)"

lemma one_remux_reachable: "remux_reachable demo_conf one_remux"
  unfolding one_remux_def
  by (rule remux_next [OF remux_init]) (simp add: new_remux_def Let_def)

lemma upstream_cap_respected_witness:
  "card (rm_alive one_remux) = 1 \<and> fst (remux_start demo_conf (demo_call ''8'') 6 one_remux) = Inr None
   \<and> rm_alive (snd (remux_start demo_conf (demo_call ''8'') 6 one_remux)) = rm_alive one_remux"
proof -
  have n: "fst (remux_start demo_conf (demo_call ''8'') 6 one_remux) = Inr None" by code_simp
  have "0 < rc_cap demo_conf" "upstream_count 0 one_remux = 1" by code_simp+
  with upstream_cap_respected [OF one_remux_reachable, of "demo_call ''8''" 6] n show ?thesis
    by (cases "remux_start demo_conf (demo_call ''8'') 6 one_remux") auto
qed

text \<open>
  C40. A stopped session stays stopped and blames no feed.  Once a session is out of the registry while its
  ffmpeg still runs (it was stopped, swept, evicted or drained), its exit, however it looks, neither
  relaunches it nor touches another session nor strikes its feed; only its socket's place is given back.
\<close>

theorem stopped_session_ends:
  assumes "remux_reachable K r" "im_get (rm_sessions r) sid = None" "im_get (rm_tasks r) sid = Some t"
  shows "let r' = remux_exit K sid code ok now r in
      su_child t \<in> rm_draining r \<and> rm_draining r' = rm_draining r - {su_child t} \<and> rm_alive r' = rm_alive r - {su_child t}
    \<and> rm_sessions r' = rm_sessions r \<and> rm_dead r' = rm_dead r \<and> im_get (rm_tasks r') sid = None
    \<and> upstream_count raw r' + 1 = upstream_count raw r"
proof -
  have inv: "remux_inv K r" by (rule reachable_remux_inv [OF assms(1)])
  then have s: "shape_ok (rc_cap K) (child_map r) (task_map r) (rm_draining r) (rm_aux r) (rm_alive r) (rm_ids r)"
    by (simp add: remux_inv_def)
  note D = shape_okD [OF s]
  have t: "task_map r sid = Some (su_child t)" and c: "child_map r sid = None"
    using assms by (simp_all add: task_map_def child_map_def)
  have "su_child t \<notin> ran (child_map r)"
  proof
    assume "su_child t \<in> ran (child_map r)"
    then obtain k where k: "child_map r k = Some (su_child t)" by (auto simp: ran_iff)
    then have "task_map r k = Some (su_child t)" by (rule le_value [OF D(1)])
    then have "k = sid" using shape_inj [OF D(3) t] by simp
    with k c show False by simp
  qed
  moreover have "su_child t \<in> ran (task_map r)" using t by (rule ranI)
  ultimately have d: "su_child t \<in> rm_draining r" using D(2) by blast
  then have "card (rm_draining r - {su_child t}) + 1 = card (rm_draining r)"
    using D(10) by (metis Suc_eq_plus1 card.remove)
  with assms d show ?thesis
    by (simp add: remux_exit_def Let_def upstream_count_def delete_conv')
qed

lemma stopped_session_ends_witness:
  "let r = remux_do demo_conf (RStop (remux_session_id ''7'' ''u'' 1)) 6 one_remux;
       r' = remux_exit demo_conf (remux_session_id ''7'' ''u'' 1) (Some 0) True 7 r
   in rm_dead r' = rm_dead r \<and> upstream_count 0 r = 1 \<and> upstream_count 0 r' = 0"
proof -
  let ?sid = "remux_session_id ''7'' ''u'' 1"
  let ?r = "remux_do demo_conf (RStop ?sid) 6 one_remux"
  have r: "remux_reachable demo_conf ?r" by (rule remux_next [OF one_remux_reachable]) simp
  have n: "im_get (rm_sessions ?r) ?sid = None" by code_simp
  have "im_get (rm_tasks ?r) ?sid \<noteq> None" by code_simp
  then obtain t where t: "im_get (rm_tasks ?r) ?sid = Some t" by blast
  have "upstream_count 0 ?r = 1" by code_simp
  with stopped_session_ends [OF r n t, of "Some 0" True 7 0] show ?thesis by (simp add: Let_def)
qed

end
