(* ===== verification/Stores.thy ===== *)
theory Stores
  imports Devices Session Syncplay "HOL-Library.List_Lexorder" "HOL-Library.Char_ord"
begin

text \<open>
  \<open>crates/gateway/src/stores.rs\<close>: the per-user JSON documents.  One \<open>JsonStore\<close> is a file and a cache of
  what it holds; every call runs under the store's mutex, so a call is one step.  \<open>serde_json\<close> (printing a
  value, reading an object) is a parameter; which calls of the file system fail is an argument of each
  step.  The encrypted API keys at the end of the file are not modelled.
\<close>

section \<open>The store\<close>

record serde =
  sd_pretty :: "jvalue \<Rightarrow> string"
  sd_read :: "string \<Rightarrow> (string \<times> jvalue) list option"

datatype disk = NoFile | File string

text \<open>
  Whether the file can be read, and whether a write goes through (the directory, the temporary file and
  the rename; until the rename the file is the old one, and a failed write removes its temporary file).
\<close>

record store_io =
  io_read :: bool
  io_write :: bool

record 'a json_store =
  js_cell :: "'a option"
  js_disk :: disk

text \<open>The two functions a store is built with: its \<open>parse\<close> and the \<open>Serialize\<close> of its type.\<close>

record 'a doc =
  dc_parse :: "(string \<times> jvalue) list \<Rightarrow> 'a"
  dc_json :: "'a \<Rightarrow> jvalue"

definition new_store :: "disk \<Rightarrow> 'a json_store" where
  "new_store f = \<lparr>js_cell = None, js_disk = f\<rparr>"

definition js_read :: "serde \<Rightarrow> 'a doc \<Rightarrow> store_io \<Rightarrow> disk \<Rightarrow> 'a option" where
  "js_read lib d io f =
     (if \<not> io_read io then None
      else case f of
             NoFile \<Rightarrow> Some (dc_parse d [])
           | File b \<Rightarrow> (case sd_read lib (utf8_lossy b) of None \<Rightarrow> None | Some raw \<Rightarrow> Some (dc_parse d raw)))"

definition js_loaded :: "serde \<Rightarrow> 'a doc \<Rightarrow> store_io \<Rightarrow> 'a json_store \<Rightarrow> 'a option \<times> 'a json_store" where
  "js_loaded lib d io st =
     (case js_cell st of
        Some v \<Rightarrow> (Some v, st)
      | None \<Rightarrow> (case js_read lib d io (js_disk st) of None \<Rightarrow> (None, st) | Some v \<Rightarrow> (Some v, st\<lparr>js_cell := Some v\<rparr>)))"

definition js_persist :: "serde \<Rightarrow> 'a doc \<Rightarrow> store_io \<Rightarrow> 'a \<Rightarrow> disk \<Rightarrow> disk option" where
  "js_persist lib d io next f = (if io_write io then Some (File (sd_pretty lib (dc_json d next) @ [nl])) else None)"

text \<open>\<open>None\<close> from \<open>f\<close> writes nothing and is a success; the cache is swapped after the write only.\<close>

definition js_update :: "serde \<Rightarrow> 'a doc \<Rightarrow> store_io \<Rightarrow> ('a \<Rightarrow> 'a option) \<Rightarrow> 'a json_store \<Rightarrow> bool \<times> 'a json_store" where
  "js_update lib d io f st =
     (case js_loaded lib d io st of
        (None, st') \<Rightarrow> (False, st')
      | (Some current, st') \<Rightarrow>
          (case f current of
             None \<Rightarrow> (True, st')
           | Some next \<Rightarrow>
               (case js_persist lib d io next (js_disk st') of
                  None \<Rightarrow> (False, st')
                | Some disk \<Rightarrow> (True, st'\<lparr>js_cell := Some next, js_disk := disk\<rparr>))))"

text \<open>The process ends and another takes its place: the cache is gone, the file stays.\<close>

definition js_restart :: "'a json_store \<Rightarrow> 'a json_store" where
  "js_restart st = st\<lparr>js_cell := None\<rparr>"

section \<open>Titles\<close>

definition max_title_len :: nat where "max_title_len = 200"

definition max_watchlist_str_len :: nat where "max_watchlist_str_len = 512"

fun split_by :: "('a \<Rightarrow> bool) \<Rightarrow> 'a list \<Rightarrow> 'a list list" where
  "split_by P [] = [[]]"
| "split_by P (x # xs) =
     (if P x then [] # split_by P xs
      else case split_by P xs of [] \<Rightarrow> [[x]] | w # ws \<Rightarrow> (x # w) # ws)"

fun take_units :: "nat \<Rightarrow> string list \<Rightarrow> string list" where
  "take_units n [] = []"
| "take_units n (c # cs) =
     (let u = (if length c = 4 then 2 else 1) in if u > n then [] else c # take_units (n - u) cs)"

definition js_slice :: "string \<Rightarrow> nat \<Rightarrow> string" where
  "js_slice s n = concat (take_units n (utf8_chars s))"

definition control_blank :: "char \<Rightarrow> char" where
  "control_blank c = (if of_char c \<le> (31 :: nat) \<or> of_char c = (127 :: nat) then CHR '' '' else c)"

definition clean :: "string \<Rightarrow> nat \<Rightarrow> string" where
  "clean raw n =
     js_slice (join_with '' '' (filter (\<lambda>w. w \<noteq> []) (map concat (split_by js_space (utf8_chars (map control_blank raw)))))) n"

definition sanitize_title :: "string \<Rightarrow> string" where
  "sanitize_title raw = clean raw max_title_len"

definition sanitize_watchlist_str :: "string \<Rightarrow> string" where
  "sanitize_watchlist_str raw = clean raw max_watchlist_str_len"

definition str_of :: "jvalue option \<Rightarrow> string" where
  "str_of v = (case Option.bind v as_str of None \<Rightarrow> [] | Some s \<Rightarrow> s)"

section \<open>Rows and kinds\<close>

record id_title =
  it_id :: nat
  it_title :: string

definition normalize_id_title :: "jvalue \<Rightarrow> id_title option" where
  "normalize_id_title v =
     (case positive_int v of
        Some i \<Rightarrow> Some \<lparr>it_id = i, it_title = []\<rparr>
      | None \<Rightarrow>
          Option.bind (json_get ''id'' v) (\<lambda>w.
          Option.bind (positive_int w) (\<lambda>i.
            Some \<lparr>it_id = i, it_title = sanitize_title (str_of (json_get ''title'' v))\<rparr>)))"

fun as_arr :: "jvalue \<Rightarrow> jvalue list option" where
  "as_arr (JArr xs) = Some xs"
| "as_arr _ = None"

definition rows_of :: "jvalue option \<Rightarrow> jvalue list" where
  "rows_of v = (case Option.bind v as_arr of None \<Rightarrow> [] | Some xs \<Rightarrow> xs)"

text \<open>The first row of each id.\<close>

fun first_rows :: "('a \<Rightarrow> nat) \<Rightarrow> nat set \<Rightarrow> 'a list \<Rightarrow> 'a list" where
  "first_rows key seen [] = []"
| "first_rows key seen (e # es) =
     (if key e \<in> seen then first_rows key seen es else e # first_rows key (insert (key e) seen) es)"

definition normalize_id_title_list :: "jvalue option \<Rightarrow> id_title list" where
  "normalize_id_title_list v = first_rows it_id {} (List.map_filter normalize_id_title (rows_of v))"

datatype title_kind = KMovie | KTv

definition kind_parse :: "string \<Rightarrow> title_kind option" where
  "kind_parse s = (if s = ''movie'' then Some KMovie else if s = ''tv'' then Some KTv else None)"

fun kind_str :: "title_kind \<Rightarrow> string" where
  "kind_str KMovie = ''movie''"
| "kind_str KTv = ''tv''"

definition by_sub :: "(string \<times> jvalue) list \<Rightarrow> (jvalue \<Rightarrow> 'a) \<Rightarrow> (string, 'a) imap" where
  "by_sub raw f = map (\<lambda>(sub, v). (sub, f v)) (filter (\<lambda>(sub, _). sub \<noteq> []) raw)"

section \<open>Feedback: likes and dislikes of each member\<close>

datatype signal = Like | Dislike

definition signal_parse :: "string \<Rightarrow> signal option" where
  "signal_parse s = (if s = ''like'' then Some Like else if s = ''dislike'' then Some Dislike else None)"

fun signal_str :: "signal \<Rightarrow> string" where
  "signal_str Like = ''like''"
| "signal_str Dislike = ''dislike''"

record kind_lists =
  kl_liked :: "id_title list"
  kl_disliked :: "id_title list"

record user_feedback =
  uf_movie :: kind_lists
  uf_tv :: kind_lists

definition no_lists :: kind_lists where "no_lists = \<lparr>kl_liked = [], kl_disliked = []\<rparr>"

definition no_feedback :: user_feedback where "no_feedback = \<lparr>uf_movie = no_lists, uf_tv = no_lists\<rparr>"

fun uf_kind :: "title_kind \<Rightarrow> user_feedback \<Rightarrow> kind_lists" where
  "uf_kind KMovie u = uf_movie u"
| "uf_kind KTv u = uf_tv u"

fun uf_set_kind :: "title_kind \<Rightarrow> kind_lists \<Rightarrow> user_feedback \<Rightarrow> user_feedback" where
  "uf_set_kind KMovie l u = u\<lparr>uf_movie := l\<rparr>"
| "uf_set_kind KTv l u = u\<lparr>uf_tv := l\<rparr>"

type_synonym feedback_file = "(string, user_feedback) imap"

definition parse_kind_lists :: "jvalue option \<Rightarrow> kind_lists" where
  "parse_kind_lists v =
     \<lparr>kl_liked = normalize_id_title_list (Option.bind v (json_get ''liked'')),
      kl_disliked = normalize_id_title_list (Option.bind v (json_get ''disliked''))\<rparr>"

definition parse_feedback :: "(string \<times> jvalue) list \<Rightarrow> feedback_file" where
  "parse_feedback raw =
     by_sub raw (\<lambda>v. \<lparr>uf_movie = parse_kind_lists (json_get ''movie'' v), uf_tv = parse_kind_lists (json_get ''tv'' v)\<rparr>)"

text \<open>The derived \<open>Serialize\<close>: the fields under their names.\<close>

definition id_title_json :: "id_title \<Rightarrow> jvalue" where
  "id_title_json e = JObj [(''id'', JInt (int (it_id e))), (''title'', JStr (it_title e))]"

definition kind_lists_json :: "kind_lists \<Rightarrow> jvalue" where
  "kind_lists_json l =
     JObj [(''liked'', JArr (map id_title_json (kl_liked l))), (''disliked'', JArr (map id_title_json (kl_disliked l)))]"

definition user_feedback_json :: "user_feedback \<Rightarrow> jvalue" where
  "user_feedback_json u = JObj [(''movie'', kind_lists_json (uf_movie u)), (''tv'', kind_lists_json (uf_tv u))]"

definition feedback_json :: "feedback_file \<Rightarrow> jvalue" where
  "feedback_json f = JObj (map (\<lambda>(sub, u). (sub, user_feedback_json u)) f)"

definition feedback_doc :: "feedback_file doc" where
  "feedback_doc = \<lparr>dc_parse = parse_feedback, dc_json = feedback_json\<rparr>"

definition feedback_of :: "string \<Rightarrow> feedback_file \<Rightarrow> user_feedback" where
  "feedback_of sub f = (case im_get f sub of None \<Rightarrow> no_feedback | Some u \<Rightarrow> u)"

definition drop_id :: "nat \<Rightarrow> id_title list \<Rightarrow> id_title list" where
  "drop_id i l = filter (\<lambda>e. it_id e \<noteq> i) l"

definition set_in_lists :: "nat \<Rightarrow> string \<Rightarrow> signal option \<Rightarrow> kind_lists \<Rightarrow> kind_lists" where
  "set_in_lists i title sig l =
     (let known = map_option it_title (find (\<lambda>e. it_id e = i) (kl_liked l @ kl_disliked l));
          t = (if title = [] then (case known of None \<Rightarrow> [] | Some k \<Rightarrow> k) else title);
          entry = \<lparr>it_id = i, it_title = t\<rparr>
      in \<lparr>kl_liked = drop_id i (kl_liked l) @ (if sig = Some Like then [entry] else []),
          kl_disliked = drop_id i (kl_disliked l) @ (if sig = Some Dislike then [entry] else [])\<rparr>)"

definition set_in_file :: "string \<Rightarrow> title_kind \<Rightarrow> nat \<Rightarrow> string \<Rightarrow> signal option \<Rightarrow> feedback_file \<Rightarrow> feedback_file" where
  "set_in_file sub k i title sig f =
     (let u = feedback_of sub f
      in im_insert sub (uf_set_kind k (set_in_lists i title sig (uf_kind k u)) u) f)"

definition feedback_set :: "serde \<Rightarrow> store_io \<Rightarrow> string \<Rightarrow> title_kind \<Rightarrow> nat \<Rightarrow> string \<Rightarrow> signal option
    \<Rightarrow> feedback_file json_store \<Rightarrow> bool \<times> feedback_file json_store" where
  "feedback_set lib io sub k i title sig st =
     js_update lib feedback_doc io (\<lambda>f. Some (set_in_file sub k i (sanitize_title title) sig f)) st"

definition drop_user :: "string \<Rightarrow> (string, 'a) imap \<Rightarrow> (string, 'a) imap option" where
  "drop_user sub f = (case im_get f sub of None \<Rightarrow> None | Some _ \<Rightarrow> Some (im_remove sub f))"

definition feedback_clear_user :: "serde \<Rightarrow> store_io \<Rightarrow> string
    \<Rightarrow> feedback_file json_store \<Rightarrow> bool \<times> feedback_file json_store" where
  "feedback_clear_user lib io sub st = js_update lib feedback_doc io (drop_user sub) st"

text \<open>The first row of an id gets another title; nothing when it is absent or has it already.\<close>

fun retitle :: "nat \<Rightarrow> string \<Rightarrow> id_title list \<Rightarrow> id_title list option" where
  "retitle i title [] = None"
| "retitle i title (e # es) =
     (if it_id e = i then (if it_title e = title then None else Some (e\<lparr>it_title := title\<rparr> # es))
      else map_option ((#) e) (retitle i title es))"

definition retitle_liked :: "string \<Rightarrow> title_kind \<Rightarrow> nat \<Rightarrow> string \<Rightarrow> feedback_file \<Rightarrow> feedback_file option" where
  "retitle_liked sub k i title f =
     Option.bind (im_get f sub) (\<lambda>u.
     Option.bind (retitle i title (kl_liked (uf_kind k u))) (\<lambda>l.
       Some (im_insert sub (uf_set_kind k ((uf_kind k u)\<lparr>kl_liked := l\<rparr>) u) f)))"

definition update_liked_title_if_present :: "serde \<Rightarrow> store_io \<Rightarrow> string \<Rightarrow> title_kind \<Rightarrow> nat \<Rightarrow> string
    \<Rightarrow> feedback_file json_store \<Rightarrow> bool \<times> feedback_file json_store" where
  "update_liked_title_if_present lib io sub k i title st =
     (let t = sanitize_title title
      in if t = [] then (True, st) else js_update lib feedback_doc io (retitle_liked sub k i t) st)"

definition has_id :: "nat \<Rightarrow> id_title list \<Rightarrow> bool" where
  "has_id i l \<longleftrightarrow> list_ex (\<lambda>e. it_id e = i) l"

definition other_dislikes :: "string \<Rightarrow> title_kind \<Rightarrow> nat \<Rightarrow> feedback_file \<Rightarrow> bool" where
  "other_dislikes caller k i f \<longleftrightarrow> list_ex (\<lambda>(sub, u). sub \<noteq> caller \<and> has_id i (kl_disliked (uf_kind k u))) f"

section \<open>Rejections: the household veto\<close>

record rejections =
  rj_movie :: "id_title list"
  rj_tv :: "id_title list"

fun rj_kind :: "title_kind \<Rightarrow> rejections \<Rightarrow> id_title list" where
  "rj_kind KMovie r = rj_movie r"
| "rj_kind KTv r = rj_tv r"

fun rj_set_kind :: "title_kind \<Rightarrow> id_title list \<Rightarrow> rejections \<Rightarrow> rejections" where
  "rj_set_kind KMovie l r = r\<lparr>rj_movie := l\<rparr>"
| "rj_set_kind KTv l r = r\<lparr>rj_tv := l\<rparr>"

definition parse_rejections :: "(string \<times> jvalue) list \<Rightarrow> rejections" where
  "parse_rejections raw =
     \<lparr>rj_movie = normalize_id_title_list (map_of raw ''movie''), rj_tv = normalize_id_title_list (map_of raw ''tv'')\<rparr>"

definition rejections_json :: "rejections \<Rightarrow> jvalue" where
  "rejections_json r =
     JObj [(''movie'', JArr (map id_title_json (rj_movie r))), (''tv'', JArr (map id_title_json (rj_tv r)))]"

definition rejections_doc :: "rejections doc" where
  "rejections_doc = \<lparr>dc_parse = parse_rejections, dc_json = rejections_json\<rparr>"

definition add_rejection :: "title_kind \<Rightarrow> nat \<Rightarrow> string \<Rightarrow> rejections \<Rightarrow> rejections option" where
  "add_rejection k i title r =
     (case find (\<lambda>e. it_id e = i) (rj_kind k r) of
        None \<Rightarrow> Some (rj_set_kind k (rj_kind k r @ [\<lparr>it_id = i, it_title = title\<rparr>]) r)
      | Some e \<Rightarrow>
          if title = [] \<or> it_title e = title then None
          else map_option (\<lambda>l. rj_set_kind k l r) (retitle i title (rj_kind k r)))"

definition rejections_add :: "serde \<Rightarrow> store_io \<Rightarrow> title_kind \<Rightarrow> nat \<Rightarrow> string
    \<Rightarrow> rejections json_store \<Rightarrow> bool \<times> rejections json_store" where
  "rejections_add lib io k i title st = js_update lib rejections_doc io (add_rejection k i (sanitize_title title)) st"

definition update_title_if_present :: "serde \<Rightarrow> store_io \<Rightarrow> title_kind \<Rightarrow> nat \<Rightarrow> string
    \<Rightarrow> rejections json_store \<Rightarrow> bool \<times> rejections json_store" where
  "update_title_if_present lib io k i title st =
     (let t = sanitize_title title
      in if t = [] then (True, st)
         else js_update lib rejections_doc io (\<lambda>r. map_option (\<lambda>l. rj_set_kind k l r) (retitle i t (rj_kind k r))) st)"

definition remove_rejection :: "title_kind \<Rightarrow> nat \<Rightarrow> rejections \<Rightarrow> rejections option" where
  "remove_rejection k i r =
     (if \<not> has_id i (rj_kind k r) then None else Some (rj_set_kind k (drop_id i (rj_kind k r)) r))"

definition rejections_remove :: "serde \<Rightarrow> store_io \<Rightarrow> title_kind \<Rightarrow> nat
    \<Rightarrow> rejections json_store \<Rightarrow> bool \<times> rejections json_store" where
  "rejections_remove lib io k i st = js_update lib rejections_doc io (remove_rejection k i) st"

section \<open>Watchlists\<close>

record watch_entry =
  we_id :: nat
  we_title :: string
  we_added :: string
  we_poster :: "string option"

record user_watchlist =
  wl_movie :: "watch_entry list"
  wl_tv :: "watch_entry list"

definition no_watchlist :: user_watchlist where "no_watchlist = \<lparr>wl_movie = [], wl_tv = []\<rparr>"

fun wl_kind :: "title_kind \<Rightarrow> user_watchlist \<Rightarrow> watch_entry list" where
  "wl_kind KMovie u = wl_movie u"
| "wl_kind KTv u = wl_tv u"

fun wl_set_kind :: "title_kind \<Rightarrow> watch_entry list \<Rightarrow> user_watchlist \<Rightarrow> user_watchlist" where
  "wl_set_kind KMovie l u = u\<lparr>wl_movie := l\<rparr>"
| "wl_set_kind KTv l u = u\<lparr>wl_tv := l\<rparr>"

type_synonym watchlist_file = "(string, user_watchlist) imap"

definition normalize_watch_entry :: "jvalue \<Rightarrow> watch_entry option" where
  "normalize_watch_entry v =
     Option.bind (json_get ''id'' v) (\<lambda>w.
     Option.bind (positive_int w) (\<lambda>i.
       (let poster = sanitize_watchlist_str (str_of (json_get ''poster_path'' v));
            added = str_of (json_get ''added_at'' v)
        in Some \<lparr>we_id = i, we_title = sanitize_watchlist_str (str_of (json_get ''title'' v)),
                 we_added = (if added = [] then ''1970-01-01T00:00:00.000Z'' else added),
                 we_poster = (if poster = [] then None else Some poster)\<rparr>)))"

definition normalize_watch_list :: "jvalue option \<Rightarrow> watch_entry list" where
  "normalize_watch_list v = first_rows we_id {} (List.map_filter normalize_watch_entry (rows_of v))"

definition parse_watchlist :: "(string \<times> jvalue) list \<Rightarrow> watchlist_file" where
  "parse_watchlist raw =
     by_sub raw (\<lambda>v. \<lparr>wl_movie = normalize_watch_list (json_get ''movie'' v), wl_tv = normalize_watch_list (json_get ''tv'' v)\<rparr>)"

definition watch_entry_json :: "watch_entry \<Rightarrow> jvalue" where
  "watch_entry_json e =
     JObj ([(''id'', JInt (int (we_id e))), (''title'', JStr (we_title e)), (''added_at'', JStr (we_added e))]
           @ (case we_poster e of None \<Rightarrow> [] | Some p \<Rightarrow> [(''poster_path'', JStr p)]))"

definition watchlist_json :: "watchlist_file \<Rightarrow> jvalue" where
  "watchlist_json f =
     JObj (map (\<lambda>(sub, u). (sub, JObj [(''movie'', JArr (map watch_entry_json (wl_movie u))),
                                        (''tv'', JArr (map watch_entry_json (wl_tv u)))])) f)"

definition watchlist_doc :: "watchlist_file doc" where
  "watchlist_doc = \<lparr>dc_parse = parse_watchlist, dc_json = watchlist_json\<rparr>"

definition watchlist_of :: "string \<Rightarrow> watchlist_file \<Rightarrow> user_watchlist" where
  "watchlist_of sub f = (case im_get f sub of None \<Rightarrow> no_watchlist | Some u \<Rightarrow> u)"

fun upsert_entry :: "nat \<Rightarrow> string \<Rightarrow> string option \<Rightarrow> string \<Rightarrow> watch_entry list \<Rightarrow> watch_entry list" where
  "upsert_entry i title poster now [] = [\<lparr>we_id = i, we_title = title, we_added = now, we_poster = poster\<rparr>]"
| "upsert_entry i title poster now (e # es) =
     (if we_id e = i then e\<lparr>we_title := title, we_poster := poster\<rparr> # es
      else e # upsert_entry i title poster now es)"

definition watchlist_upsert :: "serde \<Rightarrow> store_io \<Rightarrow> string \<Rightarrow> string \<Rightarrow> title_kind \<Rightarrow> nat \<Rightarrow> string \<Rightarrow> string option
    \<Rightarrow> watchlist_file json_store \<Rightarrow> bool \<times> watchlist_file json_store" where
  "watchlist_upsert lib io now sub k i title poster_path st =
     (let t = sanitize_watchlist_str title;
          poster = (case map_option sanitize_watchlist_str poster_path of
                      None \<Rightarrow> None | Some p \<Rightarrow> if p = [] then None else Some p)
      in js_update lib watchlist_doc io
           (\<lambda>f. let u = watchlist_of sub f
                in Some (im_insert sub (wl_set_kind k (upsert_entry i t poster now (wl_kind k u)) u) f)) st)"

definition watchlist_clear_user :: "serde \<Rightarrow> store_io \<Rightarrow> string
    \<Rightarrow> watchlist_file json_store \<Rightarrow> bool \<times> watchlist_file json_store" where
  "watchlist_clear_user lib io sub st = js_update lib watchlist_doc io (drop_user sub) st"

definition remove_entry :: "string \<Rightarrow> title_kind \<Rightarrow> nat \<Rightarrow> watchlist_file \<Rightarrow> watchlist_file option" where
  "remove_entry sub k i f =
     Option.bind (im_get f sub) (\<lambda>u.
       (let l = filter (\<lambda>e. we_id e \<noteq> i) (wl_kind k u)
        in if length l = length (wl_kind k u) then None else Some (im_insert sub (wl_set_kind k l u) f)))"

definition watchlist_remove :: "serde \<Rightarrow> store_io \<Rightarrow> string \<Rightarrow> title_kind \<Rightarrow> nat
    \<Rightarrow> watchlist_file json_store \<Rightarrow> bool \<times> watchlist_file json_store" where
  "watchlist_remove lib io sub k i st = js_update lib watchlist_doc io (remove_entry sub k i) st"

section \<open>Policies\<close>

definition content_ratings :: "string list" where
  "content_ratings =
     [''G'', ''PG'', ''PG-13'', ''R'', ''NC-17'', ''TV-Y'', ''TV-Y7'', ''TV-G'', ''TV-PG'', ''TV-14'', ''TV-MA'']"

datatype gw_section = SLive | SDownloads | SArr

record gw_sections =
  sc_live :: bool
  sc_downloads :: bool
  sc_arr :: bool

fun section_allows :: "gw_sections \<Rightarrow> gw_section \<Rightarrow> bool" where
  "section_allows s SLive = sc_live s"
| "section_allows s SDownloads = sc_downloads s"
| "section_allows s SArr = sc_arr s"

record policy =
  pl_rating :: "string option"
  pl_sections :: "gw_sections option"
  pl_kid :: bool

definition open_policy :: policy where
  "open_policy = \<lparr>pl_rating = None, pl_sections = None, pl_kid = False\<rparr>"

type_synonym policies_file = "(string, policy) imap"

definition normalize_policy :: "jvalue \<Rightarrow> policy" where
  "normalize_policy v =
     (let allowed = (\<lambda>s k. json_get k s \<noteq> Some (JBool False))
      in \<lparr>pl_rating = (case Option.bind (json_get ''maxContentRating'' v) as_str of
                          None \<Rightarrow> None | Some r \<Rightarrow> if r \<in> set content_ratings then Some r else None),
          pl_sections = (case json_get ''allowedSections'' v of
                           None \<Rightarrow> None
                         | Some s \<Rightarrow>
                             if as_object s = None \<and> as_arr s = None then None
                             else Some \<lparr>sc_live = allowed s ''live'', sc_downloads = allowed s ''downloads'',
                                        sc_arr = allowed s ''arr''\<rparr>),
          pl_kid = (json_get ''kid'' v = Some (JBool True))\<rparr>)"

definition parse_policies :: "(string \<times> jvalue) list \<Rightarrow> policies_file" where
  "parse_policies raw = by_sub raw normalize_policy"

definition sections_json :: "gw_sections \<Rightarrow> jvalue" where
  "sections_json s =
     JObj [(''live'', JBool (sc_live s)), (''downloads'', JBool (sc_downloads s)), (''arr'', JBool (sc_arr s))]"

definition policy_json :: "policy \<Rightarrow> jvalue" where
  "policy_json p =
     JObj [(''maxContentRating'', (case pl_rating p of None \<Rightarrow> JNull | Some r \<Rightarrow> JStr r)),
           (''allowedSections'', (case pl_sections p of None \<Rightarrow> JNull | Some s \<Rightarrow> sections_json s)),
           (''kid'', JBool (pl_kid p))]"

definition policies_json :: "policies_file \<Rightarrow> jvalue" where
  "policies_json f = JObj (map (\<lambda>(sub, p). (sub, policy_json p)) f)"

definition policies_doc :: "policies_file doc" where
  "policies_doc = \<lparr>dc_parse = parse_policies, dc_json = policies_json\<rparr>"

definition effective_cap :: "policy \<Rightarrow> string option" where
  "effective_cap p = (case pl_rating p of Some r \<Rightarrow> Some r | None \<Rightarrow> if pl_kid p then Some ''PG'' else None)"

definition policy_of :: "string \<Rightarrow> policies_file \<Rightarrow> policy" where
  "policy_of sub f = (case im_get f sub of None \<Rightarrow> open_policy | Some p \<Rightarrow> p)"

definition policies_policy :: "serde \<Rightarrow> store_io \<Rightarrow> string
    \<Rightarrow> policies_file json_store \<Rightarrow> policy option \<times> policies_file json_store" where
  "policies_policy lib io sub st =
     (case js_loaded lib policies_doc io st of (v, st') \<Rightarrow> (map_option (policy_of sub) v, st'))"

definition policies_set :: "serde \<Rightarrow> store_io \<Rightarrow> string \<Rightarrow> policy
    \<Rightarrow> policies_file json_store \<Rightarrow> bool \<times> policies_file json_store" where
  "policies_set lib io sub p st = js_update lib policies_doc io (\<lambda>f. Some (im_insert sub p f)) st"

definition policies_remove :: "serde \<Rightarrow> store_io \<Rightarrow> string
    \<Rightarrow> policies_file json_store \<Rightarrow> bool \<times> policies_file json_store" where
  "policies_remove lib io sub st = js_update lib policies_doc io (drop_user sub) st"

text \<open>\<open>require_section\<close> and \<open>cap_blocks_unrated\<close>; \<open>None\<close> is the store's error (a 500).\<close>

definition require_section :: "serde \<Rightarrow> store_io \<Rightarrow> role \<Rightarrow> string \<Rightarrow> gw_section
    \<Rightarrow> policies_file json_store \<Rightarrow> bool option \<times> policies_file json_store" where
  "require_section lib io r sub sec st =
     (if r = Admin then (Some True, st)
      else case policies_policy lib io sub st of
             (None, st') \<Rightarrow> (None, st')
           | (Some p, st') \<Rightarrow>
               (Some (case pl_sections p of None \<Rightarrow> True | Some s \<Rightarrow> section_allows s sec), st'))"

definition cap_blocks_unrated :: "serde \<Rightarrow> store_io \<Rightarrow> role \<Rightarrow> string
    \<Rightarrow> policies_file json_store \<Rightarrow> bool option \<times> policies_file json_store" where
  "cap_blocks_unrated lib io r sub st =
     (if r = Admin then (Some False, st)
      else case policies_policy lib io sub st of
             (None, st') \<Rightarrow> (None, st')
           | (Some p, st') \<Rightarrow> (Some (effective_cap p \<noteq> None), st'))"

end
