(* ===== verification/Store_Laws.thy ===== *)
theory Store_Laws
  imports Stores "HOL-Library.Countable"
begin

text \<open>
  What the JSON stores of \<open>Stores\<close> keep across calls, failed reads and writes, and restarts.  The locale
  \<open>durable\<close> is the contract of a document type: what it is read back as.  Its four interpretations are the
  four documents.
\<close>

section \<open>What serde_json reads back\<close>

text \<open>A nested object is read into a \<open>BTreeMap\<close>: its members are sorted by key.\<close>

primrec by_key :: "'f json \<Rightarrow> 'f json" where
  "by_key JNull = JNull"
| "by_key (JBool b) = JBool b"
| "by_key (JInt i) = JInt i"
| "by_key (JFloat x) = JFloat x"
| "by_key (JStr s) = JStr s"
| "by_key (JArr xs) = JArr (map by_key xs)"
| "by_key (JObj m) = JObj (sort_key fst (map (map_prod id by_key) m))"

text \<open>The values the documents print to: no floats, integers a \<open>Value\<close> holds, each key once.\<close>

fun storable :: "'f json \<Rightarrow> bool" where
  "storable (JInt i) \<longleftrightarrow> - (2 ^ 63) \<le> i \<and> i < 2 ^ 64"
| "storable (JFloat _) \<longleftrightarrow> False"
| "storable (JArr xs) \<longleftrightarrow> (\<forall>x \<in> set xs. storable x)"
| "storable (JObj m) \<longleftrightarrow> im_wf m \<and> (\<forall>x \<in> set m. storable (snd x))"
| "storable _ \<longleftrightarrow> True"

definition serde_ok :: "serde \<Rightarrow> bool" where
  "serde_ok lib \<longleftrightarrow>
     (\<forall>m. storable (JObj m) \<longrightarrow>
        sd_read lib (utf8_lossy (sd_pretty lib (JObj m) @ [nl])) = Some (map (map_prod id by_key) m))
   \<and> (\<forall>s m. sd_read lib s = Some m \<longrightarrow> im_wf m)"

lemma serde_okD:
  assumes "serde_ok lib"
  shows "storable (JObj m) \<Longrightarrow>
      sd_read lib (utf8_lossy (sd_pretty lib (JObj m) @ [nl])) = Some (map (map_prod id by_key) m)"
    and "sd_read lib s = Some m \<Longrightarrow> im_wf m"
  using assms by (simp_all add: serde_ok_def)

lemma map_of_sort_key: "im_wf m \<Longrightarrow> map_of (sort_key fst m) = map_of m"
  by (rule map_of_eqI) (auto simp: distinct_map map_of_eq_Some_iff intro!: map_of_SomeD dest: map_of_SomeD)

lemma map_of_map_prod: "map_of (map (map_prod id f) m) k = map_option f (map_of m k)"
  by (induction m) auto

lemma keys_map_prod [simp]: "map fst (map (map_prod id f) m) = map fst m"
  by (induction m) auto

lemma json_get_by_key: "storable v \<Longrightarrow> json_get k (by_key v) = map_option by_key (json_get k v)"
  by (cases v) (simp_all add: json_get_def map_of_sort_key map_of_map_prod)

lemma as_arr_by_key [simp]: "as_arr (by_key v) = map_option (map by_key) (as_arr v)"
  by (cases v) simp_all

lemma as_str_by_key [simp]: "as_str (by_key v) = as_str v"
  by (cases v) simp_all

lemma as_f64_by_key [simp]: "as_f64 (by_key v) = as_f64 v"
  by (cases v) simp_all

lemma positive_int_by_key [simp]: "positive_int (by_key v) = positive_int v"
  by (simp add: positive_int_def)

section \<open>Ids\<close>

definition id_ok :: "nat \<Rightarrow> bool" where "id_ok i \<longleftrightarrow> 0 < i \<and> i \<le> 9007199254740991"

lemma positive_int_id: "id_ok i \<Longrightarrow> positive_int (JInt (int i)) = Some i"
proof -
  assume i: "id_ok i"
  then have "f_of_int (int i) = Fin (of_int (int i))" by (intro f_of_int_exact) (simp add: id_ok_def)
  moreover have "trunc_int (of_nat i :: rat) = int i" by (simp add: trunc_int_def)
  ultimately show ?thesis
    using i by (auto simp: positive_int_def id_ok_def max_safe_def f_to_u64_def sat_int_def fle_def le_less min_def)
qed

lemma id_ok_positive_int: "positive_int v = Some i \<Longrightarrow> id_ok i"
proof -
  assume "positive_int v = Some i"
  then obtain x where x: "feq (ffract x) (Fin 0)" "flt (Fin 0) x" "fle x max_safe" "i = f_to_u64 x"
    by (auto simp: positive_int_def split: option.splits if_splits bind_splits)
  then obtain r where r: "x = Fin r" by (cases x) (auto simp: max_safe_def fle_def)
  then have "r = of_int (trunc_int r)" "0 < r" "r \<le> 9007199254740991"
    using x by (auto simp: max_safe_def fle_def)
  moreover define n where "n = trunc_int r"
  ultimately have n: "r = of_int n" "0 < n" "n \<le> 9007199254740991" by auto
  have "trunc_int (of_int n :: rat) = n" using n(2) by (simp add: trunc_int_def)
  then have "i = nat n" using n x(4) r by (simp add: f_to_u64_def sat_int_def)
  then show ?thesis using n by (simp add: id_ok_def)
qed

section \<open>The contract of a document\<close>

definition all_io :: store_io where "all_io = \<lparr>io_read = True, io_write = True\<rparr>"

text \<open>
  \<open>obs\<close> is what a document means to its callers.  A store holds \<open>x\<close> when its file reads back as a good
  document that means \<open>x\<close>, and so does its cache, if it has one.
\<close>

definition holds :: "serde \<Rightarrow> 'a doc \<Rightarrow> ('a \<Rightarrow> bool) \<Rightarrow> ('a \<Rightarrow> 'o) \<Rightarrow> 'a json_store \<Rightarrow> 'o \<Rightarrow> bool" where
  "holds lib d good obs st x \<longleftrightarrow>
     (\<exists>v. js_read lib d all_io (js_disk st) = Some v \<and> good v \<and> obs v = x)
   \<and> (\<forall>v. js_cell st = Some v \<longrightarrow> good v \<and> obs v = x)"

lemma js_read_all: "js_read lib d io f = Some v \<Longrightarrow> js_read lib d all_io f = Some v"
  by (simp add: js_read_def all_io_def split: if_splits)

locale durable =
  fixes d :: "'a doc" and good :: "'a \<Rightarrow> bool" and obs :: "'a \<Rightarrow> 'o"
  assumes good_parse: "im_wf raw \<Longrightarrow> good (dc_parse d raw)"
    and storable_json: "good v \<Longrightarrow> storable (dc_json d v)"
    and object_json: "good v \<Longrightarrow> \<exists>m. dc_json d v = JObj m"
    and reload: "good v \<Longrightarrow> dc_json d v = JObj m \<Longrightarrow> obs (dc_parse d (map (map_prod id by_key) m)) = obs v"
begin

lemma read_written:
  assumes "serde_ok lib" "good v"
  shows "\<exists>w. js_read lib d all_io (File (sd_pretty lib (dc_json d v) @ [nl])) = Some w \<and> good w \<and> obs w = obs v"
proof -
  obtain m where m: "dc_json d v = JObj m" using object_json [OF assms(2)] by blast
  then have *: "storable (JObj m)" using storable_json [OF assms(2)] by simp
  then have "good (dc_parse d (map (map_prod id by_key) m))" by (intro good_parse) simp
  then show ?thesis using reload [OF assms(2) m] serde_okD(1) [OF assms(1) *] m
    by (simp add: js_read_def all_io_def)
qed

lemma holds_loaded:
  assumes "holds lib d good obs st x" "js_loaded lib d io st = (r, st')"
  shows "holds lib d good obs st' x" "js_disk st' = js_disk st"
    "r = Some v \<Longrightarrow> good v \<and> obs v = x \<and> js_cell st' = Some v"
proof -
  have "holds lib d good obs st' x \<and> js_disk st' = js_disk st \<and> (\<forall>v. r = Some v \<longrightarrow> good v \<and> obs v = x \<and> js_cell st' = Some v)"
  proof (cases "js_cell st")
    case None
    show ?thesis
    proof (cases "js_read lib d io (js_disk st)")
      case (Some w)
      with assms(1) have "good w" "obs w = x" by (auto simp: holds_def dest: js_read_all)
      then show ?thesis using assms None Some by (auto simp: js_loaded_def holds_def)
    qed (use assms None in \<open>auto simp: js_loaded_def\<close>)
  qed (use assms in \<open>auto simp: js_loaded_def holds_def\<close>)
  then show "holds lib d good obs st' x" "js_disk st' = js_disk st"
    "r = Some v \<Longrightarrow> good v \<and> obs v = x \<and> js_cell st' = Some v" by blast+
qed

lemma holds_update:
  assumes "serde_ok lib" "holds lib d good obs st x" "js_update lib d io f st = (b, st')"
    and f: "\<And>v. good v \<Longrightarrow> case f v of None \<Rightarrow> g (obs v) = obs v | Some w \<Rightarrow> good w \<and> obs w = g (obs v)"
  shows "holds lib d good obs st' (if b then g x else x)"
proof -
  obtain r s where rs: "js_loaded lib d io st = (r, s)" by fastforce
  note s = holds_loaded [OF assms(2) rs]
  show ?thesis
  proof (cases r)
    case None
    then show ?thesis using assms(3) s(1) rs by (simp add: js_update_def)
  next
    case (Some v)
    note v = s(3) [OF this] f [of v]
    show ?thesis
    proof (cases "f v")
      case None
      then show ?thesis using v assms(3) Some rs s(1) by (simp add: js_update_def)
    next
      case w: (Some w)
      then have "good w" "obs w = g x" using v by auto
      with read_written [OF assms(1), of w] show ?thesis
        using assms(3) Some rs s(1) w by (auto simp: js_update_def js_persist_def holds_def split: if_splits)
    qed
  qed
qed

lemma holds_readable:
  assumes "holds lib d good obs st x" "io_read io"
  shows "\<exists>v st'. js_loaded lib d io st = (Some v, st') \<and> obs v = x"
proof (cases "js_cell st")
  case None
  moreover have "js_read lib d io (js_disk st) = js_read lib d all_io (js_disk st)"
    using assms(2) by (simp add: js_read_def all_io_def)
  ultimately show ?thesis using assms(1) by (auto simp: js_loaded_def holds_def)
qed (use assms in \<open>auto simp: js_loaded_def holds_def\<close>)

lemma holds_restart: "holds lib d good obs st x \<Longrightarrow> holds lib d good obs (js_restart st) x"
  by (simp add: holds_def js_restart_def)

lemma holds_new: "holds lib d good obs (new_store NoFile) (obs (dc_parse d []))"
  by (simp add: holds_def new_store_def js_read_def all_io_def good_parse)

lemma holds_file:
  "serde_ok lib \<Longrightarrow> sd_read lib (utf8_lossy b) = Some raw \<Longrightarrow>
   holds lib d good obs (new_store (File b)) (obs (dc_parse d raw))"
  by (auto simp: holds_def new_store_def js_read_def all_io_def intro: good_parse dest: serde_okD(2))

end

section \<open>Rows\<close>

definition rows_ok :: "id_title list \<Rightarrow> bool" where
  "rows_ok l \<longleftrightarrow> distinct (map it_id l) \<and> (\<forall>e \<in> set l. id_ok (it_id e))"

definition ids_of :: "id_title list \<Rightarrow> nat set" where "ids_of l = it_id ` set l"

lemma first_rows_set: "set (first_rows key seen es) \<subseteq> set es"
  by (induction es arbitrary: seen) auto

lemma first_rows_keys: "key ` set (first_rows key seen es) = key ` set es - seen"
  by (induction es arbitrary: seen) auto

lemma first_rows_distinct: "distinct (map key (first_rows key seen es))"
  by (induction es arbitrary: seen) (auto simp: first_rows_keys)

lemma first_rows_id: "distinct (map key es) \<Longrightarrow> key ` set es \<inter> seen = {} \<Longrightarrow> first_rows key seen es = es"
  by (induction es arbitrary: seen) auto

lemma normalize_id_title_ok: "normalize_id_title v = Some e \<Longrightarrow> id_ok (it_id e)"
  by (auto simp: normalize_id_title_def dest: id_ok_positive_int split: option.splits bind_splits)

lemma set_map_filter: "set (List.map_filter f xs) = {y. \<exists>x \<in> set xs. f x = Some y}"
  by (induction xs) (auto simp: List.map_filter_simps split: option.splits)

lemma map_filter_map: "List.map_filter f (map g xs) = List.map_filter (f \<circ> g) xs"
  by (induction xs) (simp_all add: List.map_filter_simps comp_def split: option.split)

lemma map_filter_all_some: "(\<And>x. x \<in> set xs \<Longrightarrow> f x = Some (g x)) \<Longrightarrow> List.map_filter f xs = map g xs"
  by (induction xs) (auto simp: List.map_filter_simps)

lemma rows_ok_normalized: "rows_ok (normalize_id_title_list v)"
  using first_rows_set
  by (fastforce simp: rows_ok_def normalize_id_title_list_def first_rows_distinct set_map_filter
      dest: normalize_id_title_ok)

text \<open>A row read back: its id is the same, its title is cleaned once more.\<close>

definition cleaned :: "id_title \<Rightarrow> id_title" where "cleaned e = e\<lparr>it_title := sanitize_title (it_title e)\<rparr>"

lemma storable_id_title: "id_ok (it_id e) \<Longrightarrow> storable (id_title_json e)"
  by (simp add: id_title_json_def id_ok_def)

lemma normalize_id_title_json:
  "id_ok (it_id e) \<Longrightarrow> normalize_id_title (by_key (id_title_json e)) = Some (cleaned e)"
proof -
  assume e: "id_ok (it_id e)"
  have "positive_int (id_title_json e) = None" by (simp add: positive_int_def id_title_json_def)
  then show ?thesis
    using e storable_id_title [OF e]
    by (simp add: normalize_id_title_def json_get_by_key positive_int_id str_of_def cleaned_def)
       (simp add: id_title_json_def json_get_def positive_int_id)
qed

lemma rows_reload:
  assumes "rows_ok l"
  shows "normalize_id_title_list (Some (by_key (JArr (map id_title_json l)))) = map cleaned l"
proof -
  have "List.map_filter (normalize_id_title \<circ> by_key \<circ> id_title_json) l = map cleaned l"
    using assms by (intro map_filter_all_some) (simp add: rows_ok_def normalize_id_title_json)
  moreover have "distinct (map it_id (map cleaned l))"
    using assms by (simp add: rows_ok_def cleaned_def comp_def)
  ultimately show ?thesis
    by (simp add: normalize_id_title_list_def rows_of_def first_rows_id map_filter_map comp_assoc)
qed

lemma ids_of_cleaned [simp]: "ids_of (map cleaned l) = ids_of l"
  by (simp add: ids_of_def image_image cleaned_def)

section \<open>The feedback document\<close>

definition good_lists :: "kind_lists \<Rightarrow> bool" where
  "good_lists l \<longleftrightarrow> rows_ok (kl_liked l) \<and> rows_ok (kl_disliked l)"

definition good_feedback :: "feedback_file \<Rightarrow> bool" where
  "good_feedback f \<longleftrightarrow> im_wf f \<and> (\<forall>(sub, u) \<in> set f. sub \<noteq> [] \<and> good_lists (uf_movie u) \<and> good_lists (uf_tv u))"

text \<open>What a member has said: the ids liked and the ids disliked, of each kind.\<close>

type_synonym tastes = "string \<Rightarrow> title_kind \<Rightarrow> nat set \<times> nat set"

definition list_taste :: "kind_lists \<Rightarrow> nat set \<times> nat set" where
  "list_taste l = (ids_of (kl_liked l), ids_of (kl_disliked l))"

definition taste_of :: "feedback_file \<Rightarrow> tastes" where
  "taste_of f sub k = list_taste (uf_kind k (feedback_of sub f))"

definition put_signal :: "nat \<Rightarrow> signal option \<Rightarrow> nat set \<times> nat set \<Rightarrow> nat set \<times> nat set" where
  "put_signal i sig p =
     (fst p - {i} \<union> (if sig = Some Like then {i} else {}), snd p - {i} \<union> (if sig = Some Dislike then {i} else {}))"

definition set_taste :: "string \<Rightarrow> title_kind \<Rightarrow> nat \<Rightarrow> signal option \<Rightarrow> tastes \<Rightarrow> tastes" where
  "set_taste sub k i sig x = x(sub := (x sub)(k := put_signal i sig (x sub k)))"

definition clear_taste :: "string \<Rightarrow> tastes \<Rightarrow> tastes" where
  "clear_taste sub x = x(sub := (\<lambda>_. ({}, {})))"

lemma rows_ok_drop: "rows_ok l \<Longrightarrow> rows_ok (drop_id i l)"
  by (auto simp: rows_ok_def drop_id_def distinct_map_filter)

lemma rows_ok_snoc: "rows_ok l \<Longrightarrow> id_ok (it_id e) \<Longrightarrow> it_id e \<notin> ids_of l \<Longrightarrow> rows_ok (l @ [e])"
  by (auto simp: rows_ok_def ids_of_def)

lemma ids_of_drop [simp]: "ids_of (drop_id i l) = ids_of l - {i}"
  by (auto simp: ids_of_def drop_id_def)

lemma ids_of_append [simp]: "ids_of (a @ b) = ids_of a \<union> ids_of b"
  by (simp add: ids_of_def image_Un)

lemma ids_of_one [simp]: "ids_of [e] = {it_id e}" "ids_of [] = {}"
  by (simp_all add: ids_of_def)

lemma has_id_ids: "has_id i l \<longleftrightarrow> i \<in> ids_of l"
  by (auto simp: has_id_def ids_of_def list_ex_iff)

lemma retitle_ids: "retitle i t l = Some l' \<Longrightarrow> map it_id l' = map it_id l"
  by (induction l arbitrary: l') (auto split: if_splits)

lemma retitle_rows: "retitle i t l = Some l' \<Longrightarrow> ids_of l' = ids_of l \<and> (rows_ok l' \<longleftrightarrow> rows_ok l)"
proof -
  assume "retitle i t l = Some l'"
  then have *: "map it_id l' = map it_id l" by (rule retitle_ids)
  moreover from this have "it_id ` set l' = it_id ` set l" by (metis list.set_map)
  moreover have "list_all id_ok (map it_id l') = list_all id_ok (map it_id l)" by (simp only: *)
  then have "(\<forall>e \<in> set l'. id_ok (it_id e)) \<longleftrightarrow> (\<forall>e \<in> set l. id_ok (it_id e))"
    by (simp add: list_all_iff)
  ultimately show ?thesis by (simp add: rows_ok_def ids_of_def)
qed

lemma set_in_lists_ok:
  "good_lists l \<Longrightarrow> id_ok i \<Longrightarrow> good_lists (set_in_lists i t sig l)"
  "list_taste (set_in_lists i t sig l) = put_signal i sig (list_taste l)"
  by (auto simp: good_lists_def set_in_lists_def list_taste_def put_signal_def Let_def
      intro!: rows_ok_drop rows_ok_snoc)

lemma uf_kind_simps [simp]:
  "uf_kind k (uf_set_kind k' l u) = (if k = k' then l else uf_kind k u)"
  by (cases k; cases k') simp_all

lemma good_kind: "good_lists (uf_movie u) \<and> good_lists (uf_tv u) \<longleftrightarrow> (\<forall>k. good_lists (uf_kind k u))"
  by (metis title_kind.exhaust uf_kind.simps)

lemma rows_ok_Nil [simp]: "rows_ok []"
  by (simp add: rows_ok_def)

lemma uf_kind_no_feedback [simp]: "uf_kind k no_feedback = no_lists"
  by (cases k) (simp_all add: no_feedback_def)

lemma good_no_lists [simp]: "good_lists no_lists" "list_taste no_lists = ({}, {})"
  by (simp_all add: good_lists_def no_lists_def list_taste_def)

lemma good_user:
  "good_feedback f \<Longrightarrow> good_lists (uf_kind k (feedback_of sub f))"
  by (auto simp: good_feedback_def feedback_of_def good_kind dest: map_of_SomeD split: option.split)

lemma good_feedback_insert:
  "good_feedback f \<Longrightarrow> sub \<noteq> [] \<Longrightarrow> (\<And>k. good_lists (uf_kind k u)) \<Longrightarrow> good_feedback (im_insert sub u f)"
  by (auto simp: good_feedback_def good_kind set_im_insert)

lemma feedback_of_insert [simp]: "feedback_of s (im_insert sub u f) = (if s = sub then u else feedback_of s f)"
  by (simp add: feedback_of_def update_conv')

lemma set_in_file_ok:
  assumes "good_feedback f" "sub \<noteq> []" "id_ok i"
  shows "good_feedback (set_in_file sub k i t sig f)"
    "taste_of (set_in_file sub k i t sig f) = set_taste sub k i sig (taste_of f)"
  using assms good_user [OF assms(1)]
  by (auto simp: set_in_file_def Let_def set_in_lists_ok taste_of_def set_taste_def fun_eq_iff
      intro!: good_feedback_insert)

lemma feedback_of_remove: "im_wf f \<Longrightarrow> feedback_of s (im_remove sub f) = (if s = sub then no_feedback else feedback_of s f)"
  by (simp add: feedback_of_def delete_conv')

lemma drop_user_ok:
  assumes "good_feedback f"
  shows "case drop_user sub f of None \<Rightarrow> clear_taste sub (taste_of f) = taste_of f
         | Some w \<Rightarrow> good_feedback w \<and> taste_of w = clear_taste sub (taste_of f)"
proof (cases "im_get f sub")
  case None
  then show ?thesis by (simp add: drop_user_def clear_taste_def taste_of_def fun_eq_iff feedback_of_def)
next
  case (Some u)
  have "good_feedback (im_remove sub f)"
    using assms by (auto simp: good_feedback_def AList.delete_eq)
  then show ?thesis using Some assms
    by (auto simp: drop_user_def clear_taste_def taste_of_def fun_eq_iff feedback_of_remove good_feedback_def)
qed

lemma retitle_liked_ok:
  assumes "good_feedback f" "retitle_liked sub k i t f = Some w"
  shows "good_feedback w \<and> taste_of w = taste_of f"
proof -
  obtain u l where u: "im_get f sub = Some u" "retitle i t (kl_liked (uf_kind k u)) = Some l"
    and w: "w = im_insert sub (uf_set_kind k ((uf_kind k u)\<lparr>kl_liked := l\<rparr>) u) f"
    using assms(2) by (auto simp: retitle_liked_def split: bind_splits)
  have sub: "sub \<noteq> []" "feedback_of sub f = u" using assms(1) u(1)
    by (auto simp: good_feedback_def feedback_of_def dest: map_of_SomeD)
  show ?thesis
    using good_user [OF assms(1), of _ sub] retitle_rows [OF u(2)] sub assms(1)
    by (auto simp: w taste_of_def list_taste_def good_lists_def fun_eq_iff intro!: good_feedback_insert)
qed

text \<open>What the printed document is read back as.\<close>

definition cleaned_lists :: "kind_lists \<Rightarrow> kind_lists" where
  "cleaned_lists l = \<lparr>kl_liked = map cleaned (kl_liked l), kl_disliked = map cleaned (kl_disliked l)\<rparr>"

lemma storable_rows: "rows_ok l \<Longrightarrow> storable (JArr (map id_title_json l))"
  by (auto simp: rows_ok_def storable_id_title)

lemma storable_lists: "good_lists l \<Longrightarrow> storable (kind_lists_json l)"
  using storable_rows by (auto simp: good_lists_def kind_lists_json_def)

lemma storable_user: "good_lists (uf_movie u) \<Longrightarrow> good_lists (uf_tv u) \<Longrightarrow> storable (user_feedback_json u)"
  by (simp add: user_feedback_json_def storable_lists)

lemma parse_lists_reload: "good_lists l \<Longrightarrow> parse_kind_lists (Some (by_key (kind_lists_json l))) = cleaned_lists l"
  using rows_reload
  by (simp add: parse_kind_lists_def json_get_by_key storable_lists good_lists_def cleaned_lists_def)
     (simp add: kind_lists_json_def json_get_def)

lemma list_taste_cleaned [simp]: "list_taste (cleaned_lists l) = list_taste l"
  by (simp add: list_taste_def cleaned_lists_def)

definition cleaned_user :: "user_feedback \<Rightarrow> user_feedback" where
  "cleaned_user u = \<lparr>uf_movie = cleaned_lists (uf_movie u), uf_tv = cleaned_lists (uf_tv u)\<rparr>"

lemma uf_kind_cleaned [simp]: "uf_kind k (cleaned_user u) = cleaned_lists (uf_kind k u)"
  by (cases k) (simp_all add: cleaned_user_def)

lemma feedback_reload:
  assumes "good_feedback f" "feedback_json f = JObj m"
  shows "parse_feedback (map (map_prod id by_key) m) = map (map_prod id cleaned_user) f"
proof -
  have m: "m = map (\<lambda>(sub, u). (sub, user_feedback_json u)) f" using assms(2) by (simp add: feedback_json_def)
  have "by_sub (map (map_prod id by_key) m) g = map (\<lambda>(sub, u). (sub, g (by_key (user_feedback_json u)))) f"
    for g :: "jvalue \<Rightarrow> user_feedback"
    using assms(1) unfolding m
    by (induction f) (auto simp: by_sub_def good_feedback_def)
  moreover have "\<lparr>uf_movie = parse_kind_lists (json_get ''movie'' (by_key (user_feedback_json u))),
        uf_tv = parse_kind_lists (json_get ''tv'' (by_key (user_feedback_json u)))\<rparr> = cleaned_user u"
    if "(sub, u) \<in> set f" for sub u
    using assms(1) that
    by (auto simp: good_feedback_def json_get_by_key storable_user)
       (auto simp: json_get_def user_feedback_json_def parse_lists_reload cleaned_user_def)
  ultimately show ?thesis by (auto simp: parse_feedback_def)
qed

lemma feedback_of_map: "feedback_of sub (map (map_prod id g) f) =
    (case im_get f sub of None \<Rightarrow> no_feedback | Some u \<Rightarrow> g u)"
  by (simp add: feedback_of_def map_of_map_prod split: option.split)

lemma good_parse_feedback: "im_wf raw \<Longrightarrow> good_feedback (parse_feedback raw)"
  by (auto simp: good_feedback_def parse_feedback_def by_sub_def good_lists_def parse_kind_lists_def
      rows_ok_normalized comp_def case_prod_unfold distinct_map_filter)

interpretation fb: durable feedback_doc good_feedback taste_of
proof
  fix raw :: "(string \<times> jvalue) list"
  assume "im_wf raw"
  then show "good_feedback (dc_parse feedback_doc raw)" by (simp add: feedback_doc_def good_parse_feedback)
next
  fix f
  assume f: "good_feedback f"
  then show "storable (dc_json feedback_doc f)"
    by (auto simp: feedback_doc_def feedback_json_def good_feedback_def comp_def case_prod_unfold storable_user)
  show "\<exists>m. dc_json feedback_doc f = JObj m" by (simp add: feedback_doc_def feedback_json_def)
  fix m
  assume "dc_json feedback_doc f = JObj m"
  then have "parse_feedback (map (map_prod id by_key) m) = map (map_prod id cleaned_user) f"
    by (intro feedback_reload [OF f]) (simp add: feedback_doc_def)
  then show "taste_of (dc_parse feedback_doc (map (map_prod id by_key) m)) = taste_of f"
    by (simp add: feedback_doc_def taste_of_def fun_eq_iff feedback_of_map)
      (simp add: feedback_of_def split: option.split)
qed

section \<open>The rejections document\<close>

definition good_rejections :: "rejections \<Rightarrow> bool" where
  "good_rejections r \<longleftrightarrow> rows_ok (rj_movie r) \<and> rows_ok (rj_tv r)"

definition vetoes_of :: "rejections \<Rightarrow> title_kind \<Rightarrow> nat set" where
  "vetoes_of r k = ids_of (rj_kind k r)"

lemma rj_kind_simps [simp]: "rj_kind k (rj_set_kind k' l r) = (if k = k' then l else rj_kind k r)"
  by (cases k; cases k') simp_all

lemma good_rejections_kind: "good_rejections r \<longleftrightarrow> (\<forall>k. rows_ok (rj_kind k r))"
  unfolding good_rejections_def by (metis title_kind.exhaust rj_kind.simps)

interpretation rj: durable rejections_doc good_rejections vetoes_of
proof
  fix raw :: "(string \<times> jvalue) list"
  show "good_rejections (dc_parse rejections_doc raw)"
    by (simp add: rejections_doc_def good_rejections_def parse_rejections_def rows_ok_normalized)
next
  fix r
  assume r: "good_rejections r"
  then show "storable (dc_json rejections_doc r)"
    using storable_rows by (auto simp: rejections_doc_def rejections_json_def good_rejections_def)
  show "\<exists>m. dc_json rejections_doc r = JObj m" by (simp add: rejections_doc_def rejections_json_def)
  fix m
  assume "dc_json rejections_doc r = JObj m"
  then have m: "m = [(''movie'', JArr (map id_title_json (rj_movie r))), (''tv'', JArr (map id_title_json (rj_tv r)))]"
    by (simp add: rejections_doc_def rejections_json_def)
  have "parse_rejections (map (map_prod id by_key) m) = \<lparr>rj_movie = map cleaned (rj_movie r), rj_tv = map cleaned (rj_tv r)\<rparr>"
    using r rows_reload by (simp add: m parse_rejections_def good_rejections_def)
  moreover have "rj_kind k \<lparr>rj_movie = map cleaned (rj_movie r), rj_tv = map cleaned (rj_tv r)\<rparr> = map cleaned (rj_kind k r)" for k
    by (cases k) simp_all
  ultimately show "vetoes_of (dc_parse rejections_doc (map (map_prod id by_key) m)) = vetoes_of r"
    by (simp add: rejections_doc_def vetoes_of_def fun_eq_iff)
qed

lemma add_rejection_ok:
  assumes "good_rejections r" "id_ok i"
  shows "case add_rejection k i t r of None \<Rightarrow> (vetoes_of r)(k := insert i (vetoes_of r k)) = vetoes_of r
         | Some w \<Rightarrow> good_rejections w \<and> vetoes_of w = (vetoes_of r)(k := insert i (vetoes_of r k))"
proof (cases "find (\<lambda>e. it_id e = i) (rj_kind k r)")
  case None
  then have "i \<notin> ids_of (rj_kind k r)" by (auto simp: ids_of_def find_None_iff)
  then show ?thesis using None assms
    by (auto simp: add_rejection_def good_rejections_kind vetoes_of_def fun_eq_iff intro!: rows_ok_snoc)
next
  case (Some e)
  then have "i \<in> ids_of (rj_kind k r)" by (auto simp: ids_of_def dest: find_SomeD)
  moreover have "retitle i t l = Some l' \<Longrightarrow> ids_of l' = ids_of l \<and> (rows_ok l' \<longleftrightarrow> rows_ok l)" for l l'
    by (rule retitle_rows)
  ultimately show ?thesis using Some assms
    by (auto simp: add_rejection_def good_rejections_kind vetoes_of_def fun_eq_iff split: option.split)
qed

lemma remove_rejection_ok:
  assumes "good_rejections r"
  shows "case remove_rejection k i r of None \<Rightarrow> (vetoes_of r)(k := vetoes_of r k - {i}) = vetoes_of r
         | Some w \<Rightarrow> good_rejections w \<and> vetoes_of w = (vetoes_of r)(k := vetoes_of r k - {i})"
  using assms
  by (auto simp: remove_rejection_def has_id_ids good_rejections_kind vetoes_of_def fun_eq_iff rows_ok_drop)

lemma retitle_rejection_ok:
  assumes "good_rejections r"
  shows "case map_option (\<lambda>l. rj_set_kind k l r) (retitle i t (rj_kind k r)) of None \<Rightarrow> vetoes_of r = vetoes_of r
         | Some w \<Rightarrow> good_rejections w \<and> vetoes_of w = vetoes_of r"
  using assms retitle_rows
  by (fastforce simp: good_rejections_kind vetoes_of_def fun_eq_iff split: option.split)

section \<open>The policies document\<close>

definition good_policies :: "policies_file \<Rightarrow> bool" where
  "good_policies f \<longleftrightarrow> im_wf f \<and>
     (\<forall>(sub, p) \<in> set f. sub \<noteq> [] \<and> (\<forall>r. pl_rating p = Some r \<longrightarrow> r \<in> set content_ratings))"

lemma storable_policy: "storable (policy_json p)"
  by (auto simp: policy_json_def sections_json_def split: option.split)

lemma json_get_hit: "json_get k (JObj ((k', v) # m)) = (if k = k' then Some v else json_get k (JObj m))"
  by (simp add: json_get_def)

lemma storable_sections: "storable (sections_json s)"
  by (simp add: sections_json_def)

lemma normalize_policy_json:
  assumes "\<forall>r. pl_rating p = Some r \<longrightarrow> r \<in> set content_ratings"
  shows "normalize_policy (by_key (policy_json p)) = p"
proof -
  have "json_get k (by_key (sections_json s)) = Some (JBool False) \<longleftrightarrow> json_get k (sections_json s) = Some (JBool False)"
    for k s
    by (auto simp: json_get_by_key storable_sections) (auto simp: sections_json_def json_get_hit json_get_def split: if_splits)
  then show ?thesis
    using assms
    by (cases p; cases "pl_rating p"; cases "pl_sections p")
       (auto simp: normalize_policy_def json_get_by_key storable_policy policy_json_def json_get_hit
         Let_def sections_json_def)
qed

interpretation pl: durable policies_doc good_policies "\<lambda>f sub. policy_of sub f"
proof
  fix raw :: "(string \<times> jvalue) list"
  assume "im_wf raw"
  then show "good_policies (dc_parse policies_doc raw)"
    by (auto simp: policies_doc_def good_policies_def parse_policies_def by_sub_def comp_def case_prod_unfold
        distinct_map_filter normalize_policy_def Let_def split: option.splits if_splits)
next
  fix f
  assume f: "good_policies f"
  then show "storable (dc_json policies_doc f)"
    by (auto simp: policies_doc_def policies_json_def good_policies_def comp_def case_prod_unfold storable_policy)
  show "\<exists>m. dc_json policies_doc f = JObj m" by (simp add: policies_doc_def policies_json_def)
  fix m
  assume "dc_json policies_doc f = JObj m"
  then have "m = map (\<lambda>(sub, p). (sub, policy_json p)) f" by (simp add: policies_doc_def policies_json_def)
  then have "parse_policies (map (map_prod id by_key) m) = f"
    using f
    by (induction f arbitrary: m) (auto simp: parse_policies_def by_sub_def good_policies_def normalize_policy_json)
  then show "(\<lambda>sub. policy_of sub (dc_parse policies_doc (map (map_prod id by_key) m))) = (\<lambda>sub. policy_of sub f)"
    by (simp add: policies_doc_def)
qed

section \<open>The watchlist document\<close>

definition good_entries :: "watch_entry list \<Rightarrow> bool" where
  "good_entries l \<longleftrightarrow> distinct (map we_id l) \<and> (\<forall>e \<in> set l. id_ok (we_id e) \<and> we_added e \<noteq> [])"

definition good_watchlist :: "watchlist_file \<Rightarrow> bool" where
  "good_watchlist f \<longleftrightarrow> im_wf f \<and> (\<forall>(sub, u) \<in> set f. sub \<noteq> [] \<and> good_entries (wl_movie u) \<and> good_entries (wl_tv u))"

text \<open>What a list is for: which titles it has since when, in its order.\<close>

definition listed :: "watch_entry list \<Rightarrow> (nat \<times> string) list" where
  "listed l = map (\<lambda>e. (we_id e, we_added e)) l"

definition listed_of :: "watchlist_file \<Rightarrow> string \<Rightarrow> title_kind \<Rightarrow> (nat \<times> string) list" where
  "listed_of f sub k = listed (wl_kind k (watchlist_of sub f))"

definition cleaned_entry :: "watch_entry \<Rightarrow> watch_entry" where
  "cleaned_entry e =
     e\<lparr>we_title := sanitize_watchlist_str (we_title e),
       we_poster := (let p = sanitize_watchlist_str (case we_poster e of None \<Rightarrow> [] | Some p \<Rightarrow> p)
                     in if p = [] then None else Some p)\<rparr>"

lemma storable_entry: "id_ok (we_id e) \<Longrightarrow> storable (watch_entry_json e)"
  by (simp add: watch_entry_json_def id_ok_def split: option.split)

lemma clean_Nil [simp]: "sanitize_watchlist_str [] = []"
  by (simp add: sanitize_watchlist_str_def clean_def js_slice_def)

lemma normalize_entry_json:
  "id_ok (we_id e) \<Longrightarrow> we_added e \<noteq> [] \<Longrightarrow> normalize_watch_entry (by_key (watch_entry_json e)) = Some (cleaned_entry e)"
  by (simp add: normalize_watch_entry_def json_get_by_key storable_entry)
     (cases "we_poster e";
      simp add: watch_entry_json_def json_get_hit positive_int_id str_of_def cleaned_entry_def Let_def json_get_def)

lemma entries_reload:
  assumes "good_entries l"
  shows "normalize_watch_list (Some (by_key (JArr (map watch_entry_json l)))) = map cleaned_entry l"
proof -
  have "List.map_filter (normalize_watch_entry \<circ> (by_key \<circ> watch_entry_json)) l = map cleaned_entry l"
    using assms by (intro map_filter_all_some) (simp add: good_entries_def normalize_entry_json)
  moreover have "distinct (map we_id (map cleaned_entry l))"
    using assms by (simp add: good_entries_def cleaned_entry_def comp_def)
  ultimately show ?thesis
    by (simp add: normalize_watch_list_def rows_of_def first_rows_id map_filter_map comp_assoc)
qed

lemma good_entries_normalized: "good_entries (normalize_watch_list v)"
proof -
  have "id_ok (we_id e) \<and> we_added e \<noteq> []" if "normalize_watch_entry w = Some e" for w e
    using that by (auto simp: normalize_watch_entry_def Let_def dest: id_ok_positive_int split: bind_splits if_splits)
  then show ?thesis
    using first_rows_set [of we_id "{}"]
    by (fastforce simp: good_entries_def normalize_watch_list_def first_rows_distinct set_map_filter)
qed

definition cleaned_watchlist :: "user_watchlist \<Rightarrow> user_watchlist" where
  "cleaned_watchlist u = \<lparr>wl_movie = map cleaned_entry (wl_movie u), wl_tv = map cleaned_entry (wl_tv u)\<rparr>"

lemma wl_kind_cleaned [simp]: "wl_kind k (cleaned_watchlist u) = map cleaned_entry (wl_kind k u)"
  by (cases k) (simp_all add: cleaned_watchlist_def)

lemma listed_cleaned [simp]: "listed (map cleaned_entry l) = listed l"
  by (simp add: listed_def cleaned_entry_def comp_def)

definition user_watchlist_json :: "user_watchlist \<Rightarrow> jvalue" where
  "user_watchlist_json u =
     JObj [(''movie'', JArr (map watch_entry_json (wl_movie u))), (''tv'', JArr (map watch_entry_json (wl_tv u)))]"

lemma storable_watchlist: "good_entries (wl_movie u) \<Longrightarrow> good_entries (wl_tv u) \<Longrightarrow> storable (user_watchlist_json u)"
  by (auto simp: user_watchlist_json_def good_entries_def storable_entry)

lemma watchlist_reload:
  assumes "good_watchlist f" "m = map (\<lambda>(sub, u). (sub, user_watchlist_json u)) f"
  shows "parse_watchlist (map (map_prod id by_key) m) = map (map_prod id cleaned_watchlist) f"
proof -
  have "by_sub (map (map_prod id by_key) m) g = map (\<lambda>(sub, u). (sub, g (by_key (user_watchlist_json u)))) f"
    for g :: "jvalue \<Rightarrow> user_watchlist"
    using assms(1) unfolding assms(2)
    by (induction f) (auto simp: by_sub_def good_watchlist_def)
  moreover have "\<lparr>wl_movie = normalize_watch_list (json_get ''movie'' (by_key (user_watchlist_json u))),
        wl_tv = normalize_watch_list (json_get ''tv'' (by_key (user_watchlist_json u)))\<rparr> = cleaned_watchlist u"
    if u: "(sub, u) \<in> set f" for sub u
    using assms(1) u entries_reload
    by (auto simp: good_watchlist_def json_get_by_key storable_watchlist)
       (auto simp: user_watchlist_json_def json_get_hit cleaned_watchlist_def)
  ultimately show ?thesis by (auto simp: parse_watchlist_def)
qed

interpretation wl: durable watchlist_doc good_watchlist listed_of
proof
  fix raw :: "(string \<times> jvalue) list"
  assume "im_wf raw"
  then show "good_watchlist (dc_parse watchlist_doc raw)"
    by (auto simp: watchlist_doc_def good_watchlist_def parse_watchlist_def by_sub_def comp_def case_prod_unfold
        distinct_map_filter good_entries_normalized)
next
  fix f
  assume f: "good_watchlist f"
  have m: "dc_json watchlist_doc f = JObj (map (\<lambda>(sub, u). (sub, user_watchlist_json u)) f)"
    by (simp add: watchlist_doc_def watchlist_json_def user_watchlist_json_def)
  show "storable (dc_json watchlist_doc f)"
    unfolding m using f by (auto simp: good_watchlist_def comp_def case_prod_unfold storable_watchlist)
  show "\<exists>m. dc_json watchlist_doc f = JObj m" by (simp add: m)
  fix m'
  assume "dc_json watchlist_doc f = JObj m'"
  then have "parse_watchlist (map (map_prod id by_key) m') = map (map_prod id cleaned_watchlist) f"
    using m by (intro watchlist_reload [OF f]) simp
  then show "listed_of (dc_parse watchlist_doc (map (map_prod id by_key) m')) = listed_of f"
    by (simp add: watchlist_doc_def listed_of_def fun_eq_iff)
       (simp add: watchlist_of_def map_of_map_prod split: option.split)
qed

section \<open>Runs of the feedback store\<close>

datatype fb_op =
  FbSet store_io string title_kind nat string "signal option"
| FbClear store_io string
| FbRetitle store_io string title_kind nat string
| FbRead store_io
| FbRestart

fun fb_step :: "serde \<Rightarrow> fb_op \<Rightarrow> feedback_file json_store \<Rightarrow> bool \<times> feedback_file json_store" where
  "fb_step lib (FbSet io sub k i title sig) st = feedback_set lib io sub k i title sig st"
| "fb_step lib (FbClear io sub) st = feedback_clear_user lib io sub st"
| "fb_step lib (FbRetitle io sub k i title) st = update_liked_title_if_present lib io sub k i title st"
| "fb_step lib (FbRead io) st = (case js_loaded lib feedback_doc io st of (v, st') \<Rightarrow> (v \<noteq> None, st'))"
| "fb_step lib FbRestart st = (True, js_restart st)"

fun fb_run :: "serde \<Rightarrow> fb_op list \<Rightarrow> feedback_file json_store \<Rightarrow> bool list \<times> feedback_file json_store" where
  "fb_run lib [] st = ([], st)"
| "fb_run lib (p # ps) st =
     (case fb_step lib p st of (b, st') \<Rightarrow> case fb_run lib ps st' of (bs, st'') \<Rightarrow> (b # bs, st''))"

text \<open>The specification: an answered call has its effect, a failed one has none.\<close>

fun fb_effect :: "fb_op \<Rightarrow> tastes \<Rightarrow> tastes" where
  "fb_effect (FbSet io sub k i title sig) x = set_taste sub k i sig x"
| "fb_effect (FbClear io sub) x = clear_taste sub x"
| "fb_effect _ x = x"

definition acknowledged :: "fb_op list \<Rightarrow> bool list \<Rightarrow> tastes" where
  "acknowledged ops bs = fold (\<lambda>(p, b). if b then fb_effect p else id) (zip ops bs) (\<lambda>_ _. ({}, {}))"

text \<open>The routes pass ids from \<open>safe_positive\<close> and the sub of a session.\<close>

fun fb_ok :: "fb_op \<Rightarrow> bool" where
  "fb_ok (FbSet io sub k i title sig) \<longleftrightarrow> sub \<noteq> [] \<and> id_ok i"
| "fb_ok _ \<longleftrightarrow> True"

lemma fb_step_holds:
  assumes "serde_ok lib" "fb_ok p" "holds lib feedback_doc good_feedback taste_of st x" "fb_step lib p st = (b, st')"
  shows "holds lib feedback_doc good_feedback taste_of st' (if b then fb_effect p x else x)"
proof (cases p)
  case (FbSet io sub k i title sig)
  then have u: "js_update lib feedback_doc io (\<lambda>f. Some (set_in_file sub k i (sanitize_title title) sig f)) st = (b, st')"
    using assms(4) by (simp add: feedback_set_def)
  have "holds lib feedback_doc good_feedback taste_of st' (if b then set_taste sub k i sig x else x)"
    by (rule fb.holds_update [OF assms(1,3) u]) (use FbSet assms(2) set_in_file_ok in simp)
  then show ?thesis using FbSet by (cases b) simp_all
next
  case (FbClear io sub)
  then have u: "js_update lib feedback_doc io (drop_user sub) st = (b, st')"
    using assms(4) by (simp add: feedback_clear_user_def)
  have "holds lib feedback_doc good_feedback taste_of st' (if b then clear_taste sub x else x)"
    by (rule fb.holds_update [OF assms(1,3) u]) (rule drop_user_ok)
  then show ?thesis using FbClear by (cases b) simp_all
next
  case (FbRetitle io sub k i title)
  show ?thesis
  proof (cases "sanitize_title title = []")
    case True
    then show ?thesis using assms(3,4) FbRetitle by (simp add: update_liked_title_if_present_def)
  next
    case False
    then have u: "js_update lib feedback_doc io (retitle_liked sub k i (sanitize_title title)) st = (b, st')"
      using assms(4) FbRetitle by (simp add: update_liked_title_if_present_def Let_def)
    have "holds lib feedback_doc good_feedback taste_of st' (if b then id x else x)"
      by (rule fb.holds_update [OF assms(1,3) u]) (auto dest: retitle_liked_ok split: option.split)
    then show ?thesis using FbRetitle by (cases b) simp_all
  qed
next
  case (FbRead io)
  then show ?thesis
    using fb.holds_loaded(1) [OF assms(3)] assms(4) by (auto split: prod.splits)
next
  case FbRestart
  then show ?thesis using fb.holds_restart [OF assms(3)] assms(4) by simp
qed

lemma fb_run_holds:
  assumes "serde_ok lib" "list_all fb_ok ops" "holds lib feedback_doc good_feedback taste_of st x"
    "fb_run lib ops st = (bs, st')"
  shows "holds lib feedback_doc good_feedback taste_of st'
    (fold (\<lambda>(p, b). if b then fb_effect p else id) (zip ops bs) x)"
  using assms(2-4)
proof (induction ops arbitrary: st x bs)
  case (Cons p ops)
  obtain b s where step: "fb_step lib p st = (b, s)" by fastforce
  obtain bs' where rest: "fb_run lib ops s = (bs', st')" "bs = b # bs'"
    using Cons.prems(3) step by (auto split: prod.splits)
  have "holds lib feedback_doc good_feedback taste_of s (if b then fb_effect p x else x)"
    using fb_step_holds [OF assms(1) _ Cons.prems(2) step] Cons.prems(1) by simp
  from Cons.IH [OF _ this rest(1)] Cons.prems(1) show ?case
    unfolding rest(2) by (cases b) simp_all
qed simp

text \<open>
  C12. No answered like, dislike or clearing is ever lost, and no refused one leaves a trace.  Whatever
  signals, clearings, title repairs, reads, failed reads, failed writes and restarts of the process
  follow one another from an empty store, the document can be read once the file can, and what it says
  of every member is what the answered calls amount to.
\<close>

theorem signals_survive:
  assumes "serde_ok lib" "list_all fb_ok ops" "fb_run lib ops (new_store NoFile) = (bs, st)" "io_read io"
  shows "\<exists>f st'. js_loaded lib feedback_doc io st = (Some f, st') \<and> taste_of f = acknowledged ops bs"
proof -
  have "taste_of (dc_parse feedback_doc []) = (\<lambda>_ _. ({}, {}))"
    by (simp add: feedback_doc_def parse_feedback_def by_sub_def taste_of_def feedback_of_def fun_eq_iff)
  then have st: "holds lib feedback_doc good_feedback taste_of st (acknowledged ops bs)"
    using fb_run_holds [OF assms(1,2) fb.holds_new assms(3)] by (simp add: acknowledged_def)
  from fb.holds_readable [OF this assms(4)] show ?thesis by blast
qed

section \<open>A store library\<close>

instance f64 :: countable by countable_datatype

instance json :: (countable) countable by countable_datatype

definition demo_serde :: serde where
  "demo_serde =
     \<lparr>sd_pretty = (\<lambda>v. replicate (to_nat v) (CHR ''1'')),
      sd_read = (\<lambda>s. case from_nat (length s - 1) :: jvalue of
                       JObj m \<Rightarrow> if im_wf m then Some (map (map_prod id by_key) m) else None
                     | _ \<Rightarrow> None)\<rparr>"

lemma utf8_ok_ascii: "list_all (\<lambda>c. of_char c < (128 :: nat)) s \<Longrightarrow> utf8_ok s"
proof (induction s)
  case (Cons c s)
  then have "utf8_step (map of_char (c # s)) = (True, 1)" by simp
  then show ?case using Cons by (simp add: utf8_ok.simps [of "c # s"])
qed (simp add: utf8_ok.simps [of "[]"])

lemma demo_serde_ok: "serde_ok demo_serde"
proof -
  have "utf8_lossy (replicate n (CHR ''1'') @ [nl]) = replicate n (CHR ''1'') @ [nl]" for n
    by (rule utf8_lossy_id, rule utf8_ok_ascii) (simp add: nl_def list_all_iff)
  then show ?thesis
    by (auto simp: serde_ok_def demo_serde_def split: json.splits if_splits)
qed

definition failing_write :: store_io where "failing_write = \<lparr>io_read = True, io_write = False\<rparr>"

definition demo_signals :: "fb_op list" where
  "demo_signals =
     [FbSet all_io ''a'' KMovie 7 [] (Some Dislike), FbSet failing_write ''a'' KMovie 7 [] (Some Like), FbRestart]"

lemma demo_signals_run: "fst (fb_run demo_serde demo_signals (new_store NoFile)) = [True, False, True]"
  by (simp add: demo_signals_def feedback_set_def js_update_def js_loaded_def new_store_def js_read_def all_io_def
      failing_write_def js_persist_def feedback_doc_def parse_feedback_def by_sub_def Let_def)

lemma signals_survive_witness:
  "\<exists>f st'. js_loaded demo_serde feedback_doc all_io (snd (fb_run demo_serde demo_signals (new_store NoFile))) = (Some f, st')
     \<and> taste_of f ''a'' KMovie = ({}, {7})"
proof -
  obtain bs st where run: "fb_run demo_serde demo_signals (new_store NoFile) = (bs, st)" by fastforce
  have "list_all fb_ok demo_signals" by (simp add: demo_signals_def id_ok_def)
  from signals_survive [OF demo_serde_ok this run, of all_io]
  obtain f st' where f: "js_loaded demo_serde feedback_doc all_io st = (Some f, st')" "taste_of f = acknowledged demo_signals bs"
    by (auto simp: all_io_def)
  have "bs = [True, False, True]" using demo_signals_run run by simp
  then have "taste_of f ''a'' KMovie = ({}, {7})"
    using f(2) by (simp add: acknowledged_def demo_signals_def set_taste_def put_signal_def)
  then show ?thesis using f(1) run by simp
qed

section \<open>Edges\<close>

text \<open>The length is cut after the ends are trimmed, so a cut behind a word leaves the blank there.\<close>

lemma cut_leaves_blank: "clean ''ab c'' 3 = ''ab ''"
  by code_simp

text \<open>A file that cannot be parsed fails every change and is never overwritten.\<close>

lemma corrupt_file_kept:
  assumes "js_cell st = None" and "js_disk st = File b" and "sd_read lib (utf8_lossy b) = None"
  shows "js_update lib d io f st = (False, st)"
  using assms by (simp add: js_update_def js_loaded_def js_read_def)

end
