(* ===== verification/Taste.thy ===== *)
theory Taste
  imports Store_Laws
begin

text \<open>
  The feedback routes of \<open>crates/gateway/src/routes.rs\<close>: a like or a dislike is written to the member's
  feedback and, for a dislike, to the household's rejections.  A handler is a program that branches on
  what each store call answers; tasks of different titles interleave between the calls, and the lock of a
  title (\<open>ItemLocks\<close>, an async mutex per kind and id that stays in its map while anybody holds a clone)
  lets one task of that title run at a time.
\<close>

section \<open>Numbers as JavaScript reads them\<close>

definition parse_exponent :: "string \<Rightarrow> int option" where
  "parse_exponent s =
     (case s of
        [] \<Rightarrow> Some 0
      | c # r \<Rightarrow>
          if c \<noteq> CHR ''e'' \<and> c \<noteq> CHR ''E'' then None
          else (let d = (case r of [] \<Rightarrow> r | x # r' \<Rightarrow> if x = CHR ''+'' \<or> x = CHR ''-'' then r' else r)
                in if d = [] \<or> \<not> list_all is_digit d then None
                   else Some ((if r \<noteq> d \<and> hd r = CHR ''-'' then -1 else 1) * int (dec_val d))))"

text \<open>\<open>str::parse::<f64>\<close> of a text of digits, signs, points and exponent letters.\<close>

definition parse_decimal :: "string \<Rightarrow> f64 option" where
  "parse_decimal s =
     (let r = (case s of [] \<Rightarrow> s | x # s' \<Rightarrow> if x = CHR ''+'' \<or> x = CHR ''-'' then s' else s);
          whole = takeWhile is_digit r; r1 = dropWhile is_digit r;
          point = (r1 \<noteq> [] \<and> hd r1 = CHR ''.'');
          frac = (if point then takeWhile is_digit (tl r1) else []);
          r2 = (if point then dropWhile is_digit (tl r1) else r1)
      in if whole @ frac = [] then None
         else map_option (\<lambda>e. rnd ((if r \<noteq> s \<and> hd s = CHR ''-'' then -1 else 1)
                                   * of_nat (dec_val (whole @ frac)) * 10 powi (e - int (length frac))))
                (parse_exponent r2))"

definition js_str_number :: "string \<Rightarrow> f64" where
  "js_str_number s =
     (let t = js_trim s in
      if t = [] then Fin 0
      else if list_all (\<lambda>b. is_digit b \<or> b \<in> set ''+-.eE'') t
           then (case parse_decimal t of None \<Rightarrow> FNan | Some x \<Rightarrow> x)
      else if t = ''Infinity'' \<or> t = ''+Infinity'' then FInf True
      else if t = ''-Infinity'' then FInf False
      else FNan)"

definition js_number :: "jvalue option \<Rightarrow> f64" where
  "js_number v =
     (case v of
        None \<Rightarrow> FNan
      | Some JNull \<Rightarrow> Fin 0
      | Some (JBool b) \<Rightarrow> Fin (if b then 1 else 0)
      | Some (JInt i) \<Rightarrow> f_of_int i
      | Some (JFloat x) \<Rightarrow> x
      | Some (JStr s) \<Rightarrow> js_str_number s
      | Some (JArr _) \<Rightarrow> FNan
      | Some (JObj _) \<Rightarrow> FNan)"

definition safe_positive :: "f64 \<Rightarrow> nat option" where
  "safe_positive n =
     (if feq (ffract n) (Fin 0) \<and> flt (Fin 0) n \<and> fle n max_safe then Some (f_to_u64 n) else None)"

definition truthy :: "jvalue \<Rightarrow> bool" where
  "truthy v =
     (case v of
        JNull \<Rightarrow> False
      | JBool b \<Rightarrow> b
      | JInt i \<Rightarrow> \<not> feq (f_of_int i) (Fin 0)
      | JFloat x \<Rightarrow> \<not> feq x (Fin 0)
      | JStr s \<Rightarrow> s \<noteq> []
      | JArr _ \<Rightarrow> True
      | JObj _ \<Rightarrow> True)"

section \<open>The handlers\<close>

text \<open>What the recommender is told after a change.\<close>

datatype note_msg =
  NClearFeedback title_kind nat "signal option"
| NFeedback title_kind nat signal
| NRejection title_kind nat
| NClearRejection title_kind nat

text \<open>
  \<open>Done\<close> answers \<open>Ok\<close> or the store's error, whether the handler logged that its rollback failed too
  (split-brain), and the notes.
\<close>

datatype feed_prog =
  Done bool bool "note_msg list"
| GetUser string "user_feedback option \<Rightarrow> feed_prog"
| SetSignal string title_kind nat string "signal option" "bool \<Rightarrow> feed_prog"
| OtherDislikes string title_kind nat "bool option \<Rightarrow> feed_prog"
| VetoIds title_kind "nat set option \<Rightarrow> feed_prog"
| VetoAdd title_kind nat string "bool \<Rightarrow> feed_prog"
| VetoRemove title_kind nat "bool \<Rightarrow> feed_prog"

abbreviation failed :: feed_prog where "failed \<equiv> Done False False []"

definition signal_notes :: "bool \<Rightarrow> title_kind \<Rightarrow> nat \<Rightarrow> signal \<Rightarrow> signal option \<Rightarrow> bool \<Rightarrow> note_msg list" where
  "signal_notes recommender k i sig opposite cleared =
     (if \<not> recommender then []
      else (case opposite of None \<Rightarrow> [] | Some old \<Rightarrow> [NClearFeedback k i (Some old)])
         @ [NFeedback k i sig]
         @ (case sig of Dislike \<Rightarrow> [NRejection k i] | Like \<Rightarrow> if cleared then [NClearRejection k i] else []))"

definition put_dislike :: "bool \<Rightarrow> string \<Rightarrow> title_kind \<Rightarrow> nat \<Rightarrow> string \<Rightarrow> kind_lists \<Rightarrow> feed_prog" where
  "put_dislike recommender sub k i title mine =
     VetoIds k (\<lambda>r. case r of
       None \<Rightarrow> failed
     | Some ids \<Rightarrow> VetoAdd k i title (\<lambda>ok.
         if \<not> ok then failed
         else SetSignal sub k i title (Some Dislike) (\<lambda>ok.
           if ok then
             Done True False (signal_notes recommender k i Dislike
               (if has_id i (kl_liked mine) then Some Like else None) False)
           else if i \<in> ids then failed
           else OtherDislikes sub k i (\<lambda>r.
             if r \<noteq> Some False then failed
             else VetoRemove k i (\<lambda>ok. Done False (\<not> ok) [])))))"

definition put_like :: "bool \<Rightarrow> string \<Rightarrow> title_kind \<Rightarrow> nat \<Rightarrow> string \<Rightarrow> signal option \<Rightarrow> string option \<Rightarrow> feed_prog" where
  "put_like recommender sub k i title opposite cleared =
     SetSignal sub k i title (Some Like) (\<lambda>ok.
       if ok then Done True False (signal_notes recommender k i Like opposite (cleared \<noteq> None))
       else case cleared of
              None \<Rightarrow> failed
            | Some prior \<Rightarrow> VetoAdd k i prior (\<lambda>ok. Done False (\<not> ok) []))"

definition set_signal :: "bool \<Rightarrow> string \<Rightarrow> title_kind \<Rightarrow> nat \<Rightarrow> signal \<Rightarrow> string \<Rightarrow> feed_prog" where
  "set_signal recommender sub k i sig title =
     GetUser sub (\<lambda>r. case r of
       None \<Rightarrow> failed
     | Some u \<Rightarrow>
         (let mine = uf_kind k u in
          case sig of
            Dislike \<Rightarrow> put_dislike recommender sub k i title mine
          | Like \<Rightarrow>
              (case find (\<lambda>e. it_id e = i) (kl_disliked mine) of
                 None \<Rightarrow> put_like recommender sub k i title None None
               | Some prior \<Rightarrow> OtherDislikes sub k i (\<lambda>r. case r of
                     None \<Rightarrow> failed
                   | Some True \<Rightarrow> put_like recommender sub k i title (Some Dislike) None
                   | Some False \<Rightarrow> VetoRemove k i (\<lambda>ok.
                       if \<not> ok then failed
                       else put_like recommender sub k i title (Some Dislike) (Some (it_title prior)))))))"

definition clear_notes :: "bool \<Rightarrow> title_kind \<Rightarrow> nat \<Rightarrow> signal option \<Rightarrow> bool \<Rightarrow> note_msg list" where
  "clear_notes recommender k i actual removed =
     (if \<not> recommender then []
      else NClearFeedback k i actual # (if removed then [NClearRejection k i] else []))"

definition clear_signal :: "bool \<Rightarrow> string \<Rightarrow> title_kind \<Rightarrow> nat \<Rightarrow> feed_prog" where
  "clear_signal recommender sub k i =
     GetUser sub (\<lambda>r. case r of
       None \<Rightarrow> failed
     | Some u \<Rightarrow>
         (let mine = uf_kind k u;
              disliked = find (\<lambda>e. it_id e = i) (kl_disliked mine);
              liked = find (\<lambda>e. it_id e = i) (kl_liked mine);
              actual = (if disliked \<noteq> None then Some Dislike else if liked \<noteq> None then Some Like else None);
              prior = (case disliked of Some e \<Rightarrow> it_title e
                       | None \<Rightarrow> (case liked of Some e \<Rightarrow> it_title e | None \<Rightarrow> []));
              restore = SetSignal sub k i prior (Some Dislike) (\<lambda>ok. Done False (\<not> ok) [])
          in SetSignal sub k i [] None (\<lambda>ok.
               if \<not> ok then failed
               else if actual \<noteq> Some Dislike then Done True False (clear_notes recommender k i actual False)
               else OtherDislikes sub k i (\<lambda>r. case r of
                   None \<Rightarrow> restore
                 | Some True \<Rightarrow> Done True False (clear_notes recommender k i actual False)
                 | Some False \<Rightarrow> VetoRemove k i (\<lambda>ok.
                     if ok then Done True False (clear_notes recommender k i actual True) else restore)))))"

section \<open>Requests\<close>

text \<open>
  What a request comes to: refused at once, or a task of its title.  A body that cannot be read was
  answered by the reader (status and code).
\<close>

datatype feed_answer =
  FaErr nat string
| FaTask title_kind nat feed_prog

definition body_str :: "string \<Rightarrow> jvalue \<Rightarrow> string option" where
  "body_str k body = Option.bind (json_get k body) as_str"

definition feedback_post :: "bool \<Rightarrow> string \<Rightarrow> nat \<times> string + jvalue \<Rightarrow> feed_answer" where
  "feedback_post recommender sub read =
     (case read of
        Inl (status, code) \<Rightarrow> FaErr status code
      | Inr body \<Rightarrow>
          if \<not> truthy body then FaErr 400 ''invalid_body''
          else (case Option.bind (body_str ''type'' body) kind_parse of
                  None \<Rightarrow> FaErr 400 ''invalid_type''
                | Some k \<Rightarrow>
                    (case Option.bind (body_str ''signal'' body) signal_parse of
                       None \<Rightarrow> FaErr 400 ''invalid_signal''
                     | Some sig \<Rightarrow>
                         (case safe_positive (js_number (json_get ''tmdbId'' body)) of
                            None \<Rightarrow> FaErr 400 ''invalid_tmdbId''
                          | Some i \<Rightarrow>
                              FaTask k i (set_signal recommender sub k i sig
                                (case body_str ''title'' body of None \<Rightarrow> [] | Some t \<Rightarrow> t))))))"

definition feedback_delete :: "bool \<Rightarrow> string \<Rightarrow> string \<Rightarrow> string \<Rightarrow> string \<Rightarrow> feed_answer" where
  "feedback_delete recommender sub kind tmdb_id sig =
     (case kind_parse kind of
        None \<Rightarrow> FaErr 400 ''invalid_type''
      | Some k \<Rightarrow>
          if signal_parse sig = None then FaErr 400 ''invalid_signal''
          else (case safe_positive (js_str_number tmdb_id) of
                  None \<Rightarrow> FaErr 400 ''invalid_tmdbId''
                | Some i \<Rightarrow> FaTask k i (clear_signal recommender sub k i)))"

section \<open>Tasks\<close>

record taste_state =
  tt_feedback :: "feedback_file json_store"
  tt_rejections :: "rejections json_store"
  tt_tasks :: "(title_kind \<times> nat, feed_prog) imap"
  tt_torn :: "(title_kind \<times> nat) set"

definition taste_start :: taste_state where
  "taste_start = \<lparr>tt_feedback = new_store NoFile, tt_rejections = new_store NoFile, tt_tasks = [], tt_torn = {}\<rparr>"

text \<open>The next store call of a program, and what is left of the program.\<close>

fun prog_step :: "serde \<Rightarrow> store_io \<Rightarrow> feed_prog \<Rightarrow> taste_state \<Rightarrow> feed_prog \<times> taste_state" where
  "prog_step lib io (Done ok split notes) st = (Done ok split notes, st)"
| "prog_step lib io (GetUser sub c) st =
     (case js_loaded lib feedback_doc io (tt_feedback st) of
        (v, s) \<Rightarrow> (c (map_option (feedback_of sub) v), st\<lparr>tt_feedback := s\<rparr>))"
| "prog_step lib io (SetSignal sub k i title sig c) st =
     (case feedback_set lib io sub k i title sig (tt_feedback st) of (ok, s) \<Rightarrow> (c ok, st\<lparr>tt_feedback := s\<rparr>))"
| "prog_step lib io (OtherDislikes sub k i c) st =
     (case js_loaded lib feedback_doc io (tt_feedback st) of
        (v, s) \<Rightarrow> (c (map_option (other_dislikes sub k i) v), st\<lparr>tt_feedback := s\<rparr>))"
| "prog_step lib io (VetoIds k c) st =
     (case js_loaded lib rejections_doc io (tt_rejections st) of
        (v, s) \<Rightarrow> (c (map_option (\<lambda>r. it_id ` set (rj_kind k r)) v), st\<lparr>tt_rejections := s\<rparr>))"
| "prog_step lib io (VetoAdd k i title c) st =
     (case rejections_add lib io k i title (tt_rejections st) of (ok, s) \<Rightarrow> (c ok, st\<lparr>tt_rejections := s\<rparr>))"
| "prog_step lib io (VetoRemove k i c) st =
     (case rejections_remove lib io k i (tt_rejections st) of (ok, s) \<Rightarrow> (c ok, st\<lparr>tt_rejections := s\<rparr>))"

text \<open>
  What can happen: a request arrives, a running task makes its next call or ends, an account is erased,
  titles are repaired, the process is replaced.  A request whose title has a running task waits for the
  lock, so it has no step.  A restart cuts the running tasks off; their titles, and those whose rollback
  failed, are torn.
\<close>

datatype taste_op =
  TsRequest string feed_answer
| TsRun "title_kind \<times> nat" store_io
| TsEnd "title_kind \<times> nat"
| TsErase store_io string
| TsRetitleLiked store_io string title_kind nat string
| TsRetitleVeto store_io title_kind nat string
| TsRestart

fun taste_step :: "serde \<Rightarrow> taste_state \<Rightarrow> taste_op \<Rightarrow> taste_state" where
  "taste_step lib st (TsRequest sub (FaErr _ _)) = st"
| "taste_step lib st (TsRequest sub (FaTask k i p)) =
     (case im_get (tt_tasks st) (k, i) of
        Some _ \<Rightarrow> st
      | None \<Rightarrow> st\<lparr>tt_tasks := im_insert (k, i) p (tt_tasks st)\<rparr>)"
| "taste_step lib st (TsRun key io) =
     (case im_get (tt_tasks st) key of
        None \<Rightarrow> st
      | Some p \<Rightarrow> (case prog_step lib io p st of
                     (p', st') \<Rightarrow> st'\<lparr>tt_tasks := im_insert key p' (tt_tasks st')\<rparr>))"
| "taste_step lib st (TsEnd key) =
     (case im_get (tt_tasks st) key of
        Some (Done ok split notes) \<Rightarrow>
          st\<lparr>tt_tasks := im_remove key (tt_tasks st),
             tt_torn := (if split then insert key (tt_torn st) else tt_torn st)\<rparr>
      | _ \<Rightarrow> st)"
| "taste_step lib st (TsErase io sub) =
     st\<lparr>tt_feedback := snd (feedback_clear_user lib io sub (tt_feedback st))\<rparr>"
| "taste_step lib st (TsRetitleLiked io sub k i title) =
     st\<lparr>tt_feedback := snd (update_liked_title_if_present lib io sub k i title (tt_feedback st))\<rparr>"
| "taste_step lib st (TsRetitleVeto io k i title) =
     st\<lparr>tt_rejections := snd (update_title_if_present lib io k i title (tt_rejections st))\<rparr>"
| "taste_step lib st TsRestart =
     st\<lparr>tt_feedback := js_restart (tt_feedback st), tt_rejections := js_restart (tt_rejections st),
        tt_torn := tt_torn st \<union> fst ` set (tt_tasks st), tt_tasks := []\<rparr>"

definition taste_run :: "serde \<Rightarrow> taste_op list \<Rightarrow> taste_state" where
  "taste_run lib ops = foldl (taste_step lib) taste_start ops"

text \<open>The requests the routes make of a member: a sub is never empty.\<close>

fun taste_op_ok :: "taste_op \<Rightarrow> bool" where
  "taste_op_ok (TsRequest sub a) \<longleftrightarrow> sub \<noteq> []
     \<and> ((\<exists>r read. a = feedback_post r sub read) \<or> (\<exists>r kind i sig. a = feedback_delete r sub kind i sig))"
| "taste_op_ok _ \<longleftrightarrow> True"

section \<open>What a program may do to its title\<close>

text \<open>
  Of a title a program sees who dislikes it and whether it is vetoed.  \<open>prot p D V\<close>: from there, with
  members disappearing at any time (an erased account), the program ends with every dissent vetoed, or
  says that it could not.
\<close>

primrec prot :: "title_kind \<Rightarrow> nat \<Rightarrow> feed_prog \<Rightarrow> string set \<Rightarrow> bool \<Rightarrow> bool" where
  "prot k i (Done ok split notes) = (\<lambda>D V. split \<or> D = {} \<or> V)"
| "prot k i (GetUser sub c) = (\<lambda>D V. \<forall>D' \<subseteq> D. prot k i (c None) D' V \<and>
     (\<forall>u. (has_id i (kl_disliked (uf_kind k u)) \<longleftrightarrow> sub \<in> D') \<longrightarrow> prot k i (c (Some u)) D' V))"
| "prot k i (SetSignal sub k' i' title sig c) = (\<lambda>D V.
     (\<forall>D' \<subseteq> D. prot k i (c True) (if sig = Some Dislike then insert sub D' else D' - {sub}) V \<and> prot k i (c False) D' V))"
| "prot k i (OtherDislikes sub k' i' c) = (\<lambda>D V.
     (\<forall>D' \<subseteq> D. prot k i (c None) D' V \<and> prot k i (c (Some (D' - {sub} \<noteq> {}))) D' V))"
| "prot k i (VetoIds k' c) = (\<lambda>D V.
     (\<forall>D' \<subseteq> D. prot k i (c None) D' V \<and> (\<forall>ids. (i \<in> ids \<longleftrightarrow> V) \<longrightarrow> prot k i (c (Some ids)) D' V)))"
| "prot k i (VetoAdd k' i' title c) = (\<lambda>D V.
     (\<forall>D' \<subseteq> D. prot k i (c True) D' True \<and> prot k i (c False) D' V))"
| "prot k i (VetoRemove k' i' c) = (\<lambda>D V.
     (\<forall>D' \<subseteq> D. prot k i (c True) D' False \<and> prot k i (c False) D' V))"

lemma prot_mono: "prot k i p D V \<Longrightarrow> D' \<subseteq> D \<Longrightarrow> prot k i p D' V"
  by (cases p) auto

lemma find_has_id: "find (\<lambda>e. it_id e = i) l = None \<longleftrightarrow> \<not> has_id i l"
  by (auto simp: find_None_iff has_id_def list_ex_iff)

lemma find_Some_has_id: "find (\<lambda>e. it_id e = i) l = Some e \<Longrightarrow> has_id i l"
  using find_has_id [of i l] by simp

lemma prot_put_like:
  assumes "cleared = None \<longrightarrow> V \<or> D - {sub} = {} \<and> sub \<notin> D \<or> D = {}" "cleared \<noteq> None \<longrightarrow> D \<subseteq> {sub}"
  shows "prot k i (put_like r sub k i t old cleared) D V"
  using assms by (cases cleared) (auto simp: put_like_def)

lemma prot_set_signal:
  assumes "D = {} \<or> V"
  shows "prot k i (set_signal r sub k i sig t) D V"
proof (cases sig)
  case Like
  then show ?thesis using assms
    by (auto simp: set_signal_def find_has_id Let_def split: option.split bool.split intro!: prot_put_like)
next
  case Dislike
  then show ?thesis using assms
    by (auto simp: set_signal_def put_dislike_def Let_def)
qed

lemma prot_clear_signal:
  assumes "D = {} \<or> V"
  shows "prot k i (clear_signal r sub k i) D V"
  using assms
  by (auto simp: clear_signal_def find_has_id Let_def split: option.split bool.split dest!: find_Some_has_id) blast+

text \<open>Every call of a task is about its own title.\<close>

primrec own :: "title_kind \<Rightarrow> nat \<Rightarrow> feed_prog \<Rightarrow> bool" where
  "own k i (Done ok split notes) \<longleftrightarrow> True"
| "own k i (GetUser sub c) \<longleftrightarrow> (\<forall>r. own k i (c r))"
| "own k i (SetSignal sub k' i' title sig c) \<longleftrightarrow> k' = k \<and> i' = i \<and> sub \<noteq> [] \<and> (\<forall>r. own k i (c r))"
| "own k i (OtherDislikes sub k' i' c) \<longleftrightarrow> k' = k \<and> i' = i \<and> (\<forall>r. own k i (c r))"
| "own k i (VetoIds k' c) \<longleftrightarrow> k' = k \<and> (\<forall>r. own k i (c r))"
| "own k i (VetoAdd k' i' title c) \<longleftrightarrow> k' = k \<and> i' = i \<and> (\<forall>r. own k i (c r))"
| "own k i (VetoRemove k' i' c) \<longleftrightarrow> k' = k \<and> i' = i \<and> (\<forall>r. own k i (c r))"

lemma own_put_like: "sub \<noteq> [] \<Longrightarrow> own k i (put_like r sub k i t old cleared)"
  by (auto simp: put_like_def split: option.split)

lemma own_set_signal: "sub \<noteq> [] \<Longrightarrow> own k i (set_signal r sub k i sig t)"
  by (auto simp: set_signal_def put_dislike_def own_put_like Let_def split: option.split signal.split bool.split)

lemma own_clear_signal: "sub \<noteq> [] \<Longrightarrow> own k i (clear_signal r sub k i)"
  by (auto simp: clear_signal_def Let_def split: option.split bool.split)

section \<open>Every dissent is vetoed\<close>

definition dissent :: "tastes \<Rightarrow> title_kind \<Rightarrow> nat \<Rightarrow> string set" where
  "dissent x k i = {s. i \<in> snd (x s k)}"

abbreviation holds_feedback :: "serde \<Rightarrow> feedback_file json_store \<Rightarrow> tastes \<Rightarrow> bool" where
  "holds_feedback lib \<equiv> holds lib feedback_doc good_feedback taste_of"

abbreviation holds_vetoes :: "serde \<Rightarrow> rejections json_store \<Rightarrow> (title_kind \<Rightarrow> nat set) \<Rightarrow> bool" where
  "holds_vetoes lib \<equiv> holds lib rejections_doc good_rejections vetoes_of"

lemma dissent_set_taste:
  "dissent (set_taste sub k i sig x) k' i' =
     (if (k', i') = (k, i) then (if sig = Some Dislike then insert sub (dissent x k i) else dissent x k i - {sub})
      else dissent x k' i')"
  by (auto simp: dissent_def set_taste_def put_signal_def)

lemma dissent_clear_taste: "dissent (clear_taste sub x) k i \<subseteq> dissent x k i"
  by (auto simp: dissent_def clear_taste_def)

lemma feedback_set_holds:
  assumes "serde_ok lib" "holds_feedback lib st x" "feedback_set lib io sub k i t sig st = (ok, st')" "sub \<noteq> []" "id_ok i"
  shows "holds_feedback lib st' (if ok then set_taste sub k i sig x else x)"
  using fb_step_holds [OF assms(1) _ assms(2), of "FbSet io sub k i t sig" ok st'] assms(3-5)
  by (cases ok) simp_all

lemma rejections_add_holds:
  assumes "serde_ok lib" "holds_vetoes lib st y" "rejections_add lib io k i t st = (ok, st')" "id_ok i"
  shows "holds_vetoes lib st' (if ok then y(k := insert i (y k)) else y)"
  using rj.holds_update [OF assms(1,2), of io "add_rejection k i (sanitize_title t)" ok st' "\<lambda>y. y(k := insert i (y k))"]
    assms(3,4) add_rejection_ok
  by (simp add: rejections_add_def)

lemma rejections_remove_holds:
  assumes "serde_ok lib" "holds_vetoes lib st y" "rejections_remove lib io k i st = (ok, st')"
  shows "holds_vetoes lib st' (if ok then y(k := y k - {i}) else y)"
  using rj.holds_update [OF assms(1,2), of io "remove_rejection k i" ok st' "\<lambda>y. y(k := y k - {i})"]
    assms(3) remove_rejection_ok
  by (simp add: rejections_remove_def)

lemma update_title_holds:
  assumes "serde_ok lib" "holds_vetoes lib st y"
  shows "holds_vetoes lib (snd (update_title_if_present lib io k i t st)) y"
proof (cases "sanitize_title t = []")
  case True
  then show ?thesis using assms(2) by (simp add: update_title_if_present_def)
next
  case False
  obtain ok st' where u: "js_update lib rejections_doc io
      (\<lambda>r. map_option (\<lambda>l. rj_set_kind k l r) (retitle i (sanitize_title t) (rj_kind k r))) st = (ok, st')" by fastforce
  have "holds_vetoes lib st' (if ok then y else y)"
    by (rule rj.holds_update [OF assms u]) (rule retitle_rejection_ok)
  then show ?thesis using False u by (simp add: update_title_if_present_def Let_def)
qed

lemma other_dislikes_dissent:
  assumes "good_feedback f"
  shows "other_dislikes sub k i f \<longleftrightarrow> dissent (taste_of f) k i - {sub} \<noteq> {}"
proof -
  have "im_wf f" using assms by (simp add: good_feedback_def)
  then have "(\<exists>(s, u) \<in> set f. s \<noteq> sub \<and> P u) \<longleftrightarrow> (\<exists>s u. s \<noteq> sub \<and> im_get f s = Some u \<and> P u)" for P
    by (auto simp: case_prod_unfold) (force dest: map_of_SomeD)+
  then have "other_dislikes sub k i f \<longleftrightarrow>
      (\<exists>s u. s \<noteq> sub \<and> im_get f s = Some u \<and> has_id i (kl_disliked (uf_kind k u)))"
    by (simp add: other_dislikes_def list_ex_iff case_prod_unfold)
  moreover have "s \<in> dissent (taste_of f) k i \<longleftrightarrow> (\<exists>u. im_get f s = Some u \<and> has_id i (kl_disliked (uf_kind k u)))" for s
    by (auto simp: dissent_def taste_of_def list_taste_def feedback_of_def has_id_ids no_lists_def split: option.splits)
  ultimately show ?thesis by blast
qed

lemma has_id_dissent:
  "has_id i (kl_disliked (uf_kind k (feedback_of sub f))) \<longleftrightarrow> sub \<in> dissent (taste_of f) k i"
  by (simp add: dissent_def taste_of_def list_taste_def has_id_ids)

text \<open>One call of a task: what it leaves of the other titles, and of its own.\<close>

definition call_ok :: "serde \<Rightarrow> title_kind \<Rightarrow> nat \<Rightarrow> feed_prog \<Rightarrow> tastes \<Rightarrow> (title_kind \<Rightarrow> nat set)
    \<Rightarrow> feed_prog \<Rightarrow> taste_state \<Rightarrow> bool" where
  "call_ok lib k i p x y p' st' \<longleftrightarrow>
     (\<exists>x' y'. holds_feedback lib (tt_feedback st') x' \<and> holds_vetoes lib (tt_rejections st') y' \<and> own k i p'
        \<and> (\<forall>k' i'. (k', i') \<noteq> (k, i) \<longrightarrow> dissent x' k' i' = dissent x k' i' \<and> (i' \<in> y' k' \<longleftrightarrow> i' \<in> y k'))
        \<and> (prot k i p (dissent x k i) (i \<in> y k) \<longrightarrow> prot k i p' (dissent x' k i) (i \<in> y' k)))"

lemma call_okI:
  assumes "holds_feedback lib (tt_feedback st') x'" "holds_vetoes lib (tt_rejections st') y'" "own k i p'"
    "\<And>k' i'. (k', i') \<noteq> (k, i) \<Longrightarrow> dissent x' k' i' = dissent x k' i' \<and> (i' \<in> y' k' \<longleftrightarrow> i' \<in> y k')"
    "prot k i p (dissent x k i) (i \<in> y k) \<Longrightarrow> prot k i p' (dissent x' k i) (i \<in> y' k)"
  shows "call_ok lib k i p x y p' st'"
  using assms unfolding call_ok_def by blast

lemma prog_step_ok:
  assumes lib: "serde_ok lib" and i: "id_ok i" and own: "own k i p"
    and x: "holds_feedback lib (tt_feedback st) x" and y: "holds_vetoes lib (tt_rejections st) y"
    and step: "prog_step lib io p st = (p', st')"
  shows "call_ok lib k i p x y p' st' \<and> tt_tasks st' = tt_tasks st \<and> tt_torn st' = tt_torn st"
proof (cases p)
  case Done
  then show ?thesis using step x y by (auto intro!: call_okI [where x' = x and y' = y])
next
  case (GetUser sub c)
  obtain v s where v: "js_loaded lib feedback_doc io (tt_feedback st) = (v, s)" by fastforce
  note s = fb.holds_loaded [OF x v]
  have "prot k i (c (map_option (feedback_of sub) v)) (dissent x k i) (i \<in> y k)"
    if "prot k i p (dissent x k i) (i \<in> y k)"
    using that s(3) has_id_dissent GetUser by (cases v) auto
  then show ?thesis using step GetUser v own s(1) y by (auto intro!: call_okI [where x' = x and y' = y])
next
  case (SetSignal sub k' j title sig c)
  obtain ok s where v: "feedback_set lib io sub k i title sig (tt_feedback st) = (ok, s)" by fastforce
  define x' where "x' = (if ok then set_taste sub k i sig x else x)"
  have j: "k' = k" "j = i" "sub \<noteq> []" "\<forall>r. own k i (c r)" using own SetSignal by simp_all
  have h: "holds_feedback lib s x'" using feedback_set_holds [OF lib x v j(3) i] j by (simp add: x'_def)
  have others: "(k'', i'') \<noteq> (k, i) \<Longrightarrow> dissent x' k'' i'' = dissent x k'' i''" for k'' i''
    by (auto simp add: x'_def dissent_set_taste)
  have mine: "prot k i (c ok) (dissent x' k i) (i \<in> y k)" if "prot k i p (dissent x k i) (i \<in> y k)"
    using that SetSignal by (cases ok) (simp_all add: x'_def dissent_set_taste)
  have p': "p' = c ok" "st' = st\<lparr>tt_feedback := s\<rparr>" using step SetSignal v j by simp_all
  have "call_ok lib k i p x y p' st'"
    by (rule call_okI [where x' = x' and y' = y]) (use h y j others mine p' in simp_all)
  then show ?thesis using p' by simp
next
  case (OtherDislikes sub k' j c)
  obtain v s where v: "js_loaded lib feedback_doc io (tt_feedback st) = (v, s)" by fastforce
  note s = fb.holds_loaded [OF x v]
  have "prot k i (c (map_option (other_dislikes sub k i) v)) (dissent x k i) (i \<in> y k)"
    if "prot k i p (dissent x k i) (i \<in> y k)"
    using that s(3) other_dislikes_dissent OtherDislikes by (cases v) auto
  then show ?thesis using step OtherDislikes v own s(1) y by (auto intro!: call_okI [where x' = x and y' = y])
next
  case (VetoIds k' c)
  obtain v s where v: "js_loaded lib rejections_doc io (tt_rejections st) = (v, s)" by fastforce
  note s = rj.holds_loaded [OF y v]
  have "prot k i (c (map_option (\<lambda>r. it_id ` set (rj_kind k r)) v)) (dissent x k i) (i \<in> y k)"
    if "prot k i p (dissent x k i) (i \<in> y k)"
  proof -
    have p: "prot k i (c None) (dissent x k i) (i \<in> y k)"
      "(i \<in> ids \<longleftrightarrow> i \<in> y k) \<Longrightarrow> prot k i (c (Some ids)) (dissent x k i) (i \<in> y k)" for ids
      using that VetoIds by simp_all
    show ?thesis
    proof (cases v)
      case (Some r)
      then have "i \<in> it_id ` set (rj_kind k r) \<longleftrightarrow> i \<in> y k"
        using s(3) by (auto simp: vetoes_of_def ids_of_def)
      then show ?thesis using p(2) Some by simp
    qed (use p(1) in simp)
  qed
  then show ?thesis using step VetoIds v own s(1) x by (auto intro!: call_okI [where x' = x and y' = y])
next
  case (VetoAdd k' j title c)
  obtain ok s where v: "rejections_add lib io k i title (tt_rejections st) = (ok, s)" by fastforce
  from rejections_add_holds [OF lib y v i] show ?thesis
    using step VetoAdd v own x
    by (cases ok) (auto split: if_splits intro!: call_okI [where x' = x and y' = "if ok then y(k := insert i (y k)) else y"])
next
  case (VetoRemove k' j c)
  obtain ok s where v: "rejections_remove lib io k i (tt_rejections st) = (ok, s)" by fastforce
  from rejections_remove_holds [OF lib y v] show ?thesis
    using step VetoRemove v own x
    by (cases ok) (auto split: if_splits intro!: call_okI [where x' = x and y' = "if ok then y(k := y k - {i}) else y"])
qed

definition veto_inv :: "serde \<Rightarrow> taste_state \<Rightarrow> bool" where
  "veto_inv lib st \<longleftrightarrow>
     (\<exists>x y. holds_feedback lib (tt_feedback st) x \<and> holds_vetoes lib (tt_rejections st) y \<and> im_wf (tt_tasks st)
        \<and> (\<forall>k i p. im_get (tt_tasks st) (k, i) = Some p \<longrightarrow> id_ok i \<and> own k i p
              \<and> ((k, i) \<in> tt_torn st \<or> prot k i p (dissent x k i) (i \<in> y k)))
        \<and> (\<forall>k i. im_get (tt_tasks st) (k, i) = None \<longrightarrow> (k, i) \<in> tt_torn st \<or> dissent x k i = {} \<or> i \<in> y k))"

lemma veto_invI:
  assumes "holds_feedback lib (tt_feedback st) x" "holds_vetoes lib (tt_rejections st) y" "im_wf (tt_tasks st)"
    "\<And>k i p. im_get (tt_tasks st) (k, i) = Some p \<Longrightarrow> id_ok i \<and> own k i p
              \<and> ((k, i) \<in> tt_torn st \<or> prot k i p (dissent x k i) (i \<in> y k))"
    "\<And>k i. im_get (tt_tasks st) (k, i) = None \<Longrightarrow> (k, i) \<in> tt_torn st \<or> dissent x k i = {} \<or> i \<in> y k"
  shows "veto_inv lib st"
  using assms unfolding veto_inv_def by blast

lemma veto_invE:
  assumes "veto_inv lib st"
  obtains x y where "holds_feedback lib (tt_feedback st) x" "holds_vetoes lib (tt_rejections st) y" "im_wf (tt_tasks st)"
    "\<forall>k i p. im_get (tt_tasks st) (k, i) = Some p \<longrightarrow> id_ok i \<and> own k i p
              \<and> ((k, i) \<in> tt_torn st \<or> prot k i p (dissent x k i) (i \<in> y k))"
    "\<forall>k i. im_get (tt_tasks st) (k, i) = None \<longrightarrow> (k, i) \<in> tt_torn st \<or> dissent x k i = {} \<or> i \<in> y k"
  using assms unfolding veto_inv_def by blast

text \<open>A change that only takes dissent away, or keeps both views, keeps the invariant.\<close>

lemma veto_inv_less:
  assumes "veto_inv lib st"
    "\<And>y. holds_vetoes lib (tt_rejections st) y \<Longrightarrow> holds_vetoes lib (tt_rejections st') y"
    "\<And>x. holds_feedback lib (tt_feedback st) x \<Longrightarrow>
      \<exists>x'. holds_feedback lib (tt_feedback st') x' \<and> (\<forall>k i. dissent x' k i \<subseteq> dissent x k i)"
    "tt_tasks st' = tt_tasks st" "tt_torn st' = tt_torn st"
  shows "veto_inv lib st'"
proof -
  obtain x y where *: "holds_feedback lib (tt_feedback st) x" "holds_vetoes lib (tt_rejections st) y" "im_wf (tt_tasks st)"
    "\<forall>k i p. im_get (tt_tasks st) (k, i) = Some p \<longrightarrow> id_ok i \<and> own k i p
              \<and> ((k, i) \<in> tt_torn st \<or> prot k i p (dissent x k i) (i \<in> y k))"
    "\<forall>k i. im_get (tt_tasks st) (k, i) = None \<longrightarrow> (k, i) \<in> tt_torn st \<or> dissent x k i = {} \<or> i \<in> y k"
    by (rule veto_invE [OF assms(1)])
  from assms(3) [OF *(1)] obtain x' where x': "holds_feedback lib (tt_feedback st') x'" "\<And>k i. dissent x' k i \<subseteq> dissent x k i"
    by blast
  show ?thesis
  proof (rule veto_invI [OF x'(1) assms(2) [OF *(2)]])
    show "im_wf (tt_tasks st')" using *(3) assms(4) by simp
  next
    fix k i p
    assume "im_get (tt_tasks st') (k, i) = Some p"
    then show "id_ok i \<and> own k i p \<and> ((k, i) \<in> tt_torn st' \<or> prot k i p (dissent x' k i) (i \<in> y k))"
      using *(4) [rule_format, of k i p] assms(4,5) prot_mono [OF _ x'(2)] by auto
  next
    fix k i
    assume "im_get (tt_tasks st') (k, i) = None"
    then show "(k, i) \<in> tt_torn st' \<or> dissent x' k i = {} \<or> i \<in> y k"
      using *(5) [rule_format, of k i] assms(4,5) x'(2) [of k i] by auto
  qed
qed

lemma safe_positive_id: "safe_positive x = Some i \<Longrightarrow> id_ok i"
  using id_ok_positive_int [of "JFloat x" i] by (simp add: safe_positive_def positive_int_def)

lemma post_task:
  "feedback_post r sub read = FaTask k i p \<Longrightarrow> id_ok i \<and> (\<exists>sig t. p = set_signal r sub k i sig t)"
  by (auto simp: feedback_post_def dest: safe_positive_id split: sum.splits prod.splits if_splits option.splits)

lemma delete_task:
  "feedback_delete r sub kind t sig = FaTask k i p \<Longrightarrow> id_ok i \<and> p = clear_signal r sub k i"
  by (auto simp: feedback_delete_def dest: safe_positive_id split: if_splits option.splits)

lemma request_task:
  assumes "taste_op_ok (TsRequest sub (FaTask k i p))"
  shows "id_ok i \<and> own k i p \<and> (D = {} \<or> V \<longrightarrow> prot k i p D V)"
proof -
  have sub: "sub \<noteq> []" using assms by simp
  from assms consider (post) r read where "feedback_post r sub read = FaTask k i p"
    | (delete) r kind t sig where "feedback_delete r sub kind t sig = FaTask k i p"
    by (auto dest: sym)
  then show ?thesis
  proof cases
    case post
    from post_task [OF this] show ?thesis using own_set_signal [OF sub] prot_set_signal by blast
  next
    case delete
    from delete_task [OF this] show ?thesis using own_clear_signal [OF sub] prot_clear_signal by blast
  qed
qed

lemma erase_dissent:
  assumes "serde_ok lib" "holds_feedback lib st x"
  shows "\<exists>x'. holds_feedback lib (snd (feedback_clear_user lib io sub st)) x' \<and> (\<forall>k i. dissent x' k i \<subseteq> dissent x k i)"
proof -
  obtain ok st' where u: "feedback_clear_user lib io sub st = (ok, st')" by fastforce
  have "holds_feedback lib st' (if ok then clear_taste sub x else x)"
    using fb_step_holds [OF assms(1) _ assms(2), of "FbClear io sub" ok st'] u by (cases ok) simp_all
  then show ?thesis using u dissent_clear_taste by (cases ok) (simp_all, blast+)
qed

lemma retitle_dissent:
  assumes "serde_ok lib" "holds_feedback lib st x"
  shows "holds_feedback lib (snd (update_liked_title_if_present lib io sub k i t st)) x"
proof -
  obtain ok st' where u: "update_liked_title_if_present lib io sub k i t st = (ok, st')" by fastforce
  have "holds_feedback lib st' x"
    using fb_step_holds [OF assms(1) _ assms(2), of "FbRetitle io sub k i t" ok st'] u by (cases ok) simp_all
  then show ?thesis using u by simp
qed

lemma veto_inv_step:
  assumes lib: "serde_ok lib" and inv: "veto_inv lib st" and ok: "taste_op_ok op"
  shows "veto_inv lib (taste_step lib st op)"
proof (cases op)
  case (TsErase io sub)
  show ?thesis
    unfolding TsErase by (rule veto_inv_less [OF inv]) (simp_all add: erase_dissent [OF lib])
next
  case (TsRetitleLiked io sub k i t)
  show ?thesis
    unfolding TsRetitleLiked by (rule veto_inv_less [OF inv]) (auto dest: retitle_dissent [OF lib])
next
  case (TsRetitleVeto io k i t)
  show ?thesis
    unfolding TsRetitleVeto by (rule veto_inv_less [OF inv]) (auto intro: update_title_holds [OF lib])
next
  case TsRestart
  obtain x y where *: "holds_feedback lib (tt_feedback st) x" "holds_vetoes lib (tt_rejections st) y" "im_wf (tt_tasks st)"
    and rest: "\<forall>k i. im_get (tt_tasks st) (k, i) = None \<longrightarrow> (k, i) \<in> tt_torn st \<or> dissent x k i = {} \<or> i \<in> y k"
    using inv unfolding veto_inv_def by blast
  show ?thesis
  proof (rule veto_invI)
    show "holds_feedback lib (tt_feedback (taste_step lib st op)) x" using *(1) by (simp add: TsRestart fb.holds_restart)
    show "holds_vetoes lib (tt_rejections (taste_step lib st op)) y" using *(2) by (simp add: TsRestart rj.holds_restart)
    fix k i
    show "(k, i) \<in> tt_torn (taste_step lib st op) \<or> dissent x k i = {} \<or> i \<in> y k"
      using rest [rule_format, of k i] by (auto simp: TsRestart map_of_eq_None_iff)
  qed (simp_all add: TsRestart)
next
  case (TsEnd key)
  obtain k i where key: "key = (k, i)" by fastforce
  show ?thesis
  proof (cases "\<exists>b split ns. im_get (tt_tasks st) key = Some (Done b split ns)")
    case False
    then have "taste_step lib st op = st"
      by (cases "im_get (tt_tasks st) key") (auto simp: TsEnd split: feed_prog.split)
    then show ?thesis using inv by simp
  next
    case True
    then obtain b split ns where t: "im_get (tt_tasks st) (k, i) = Some (Done b split ns)" unfolding key by blast
    have st': "taste_step lib st op = st\<lparr>tt_tasks := im_remove (k, i) (tt_tasks st),
        tt_torn := (if split then insert (k, i) (tt_torn st) else tt_torn st)\<rparr>"
      using t by (simp add: TsEnd key)
    obtain x y where *: "holds_feedback lib (tt_feedback st) x" "holds_vetoes lib (tt_rejections st) y" "im_wf (tt_tasks st)"
      and tasks: "\<forall>k i p. im_get (tt_tasks st) (k, i) = Some p \<longrightarrow> id_ok i \<and> own k i p
                \<and> ((k, i) \<in> tt_torn st \<or> prot k i p (dissent x k i) (i \<in> y k))"
      and rest: "\<forall>k i. im_get (tt_tasks st) (k, i) = None \<longrightarrow> (k, i) \<in> tt_torn st \<or> dissent x k i = {} \<or> i \<in> y k"
      by (rule veto_invE [OF inv])
    show ?thesis
    proof (rule veto_invI)
      fix k' i' q
      assume q: "im_get (tt_tasks (taste_step lib st op)) (k', i') = Some q"
      then show "id_ok i' \<and> own k' i' q \<and> ((k', i') \<in> tt_torn (taste_step lib st op) \<or> prot k' i' q (dissent x k' i') (i' \<in> y k'))"
        using tasks [rule_format, of k' i' q] *(3) by (auto simp: st' delete_conv' split: if_splits)
    next
      fix k' i'
      assume q: "im_get (tt_tasks (taste_step lib st op)) (k', i') = None"
      show "(k', i') \<in> tt_torn (taste_step lib st op) \<or> dissent x k' i' = {} \<or> i' \<in> y k'"
      proof (cases "(k', i') = (k, i)")
        case True
        then show ?thesis using tasks [rule_format, OF t] by (auto simp: st')
      next
        case False
        then have "im_get (tt_tasks st) (k', i') = None" using q *(3) by (auto simp: st' delete_conv')
        then show ?thesis using rest by (auto simp: st')
      qed
    qed (use * in \<open>simp_all add: st'\<close>)
  qed
next
  case (TsRequest sub a)
  show ?thesis
  proof (cases a)
    case (FaTask k i p)
    note task = request_task [OF ok [unfolded TsRequest FaTask]]
    show ?thesis
    proof (cases "im_get (tt_tasks st) (k, i)")
      case None
      then have st': "taste_step lib st op = st\<lparr>tt_tasks := im_insert (k, i) p (tt_tasks st)\<rparr>"
        by (simp add: TsRequest FaTask)
      obtain x y where *: "holds_feedback lib (tt_feedback st) x" "holds_vetoes lib (tt_rejections st) y" "im_wf (tt_tasks st)"
        and tasks: "\<forall>k i p. im_get (tt_tasks st) (k, i) = Some p \<longrightarrow> id_ok i \<and> own k i p
                  \<and> ((k, i) \<in> tt_torn st \<or> prot k i p (dissent x k i) (i \<in> y k))"
        and rest: "\<forall>k i. im_get (tt_tasks st) (k, i) = None \<longrightarrow> (k, i) \<in> tt_torn st \<or> dissent x k i = {} \<or> i \<in> y k"
        by (rule veto_invE [OF inv])
      show ?thesis
      proof (rule veto_invI)
        fix k' i' q
        assume q: "im_get (tt_tasks (taste_step lib st op)) (k', i') = Some q"
        show "id_ok i' \<and> own k' i' q \<and> ((k', i') \<in> tt_torn (taste_step lib st op) \<or> prot k' i' q (dissent x k' i') (i' \<in> y k'))"
          using q tasks [rule_format, of k' i' q] task [of "dissent x k i" "i \<in> y k"] rest [rule_format, OF None]
          by (cases "(k', i') = (k, i)") (auto simp: st' update_conv')
      next
        fix k' i'
        assume q: "im_get (tt_tasks (taste_step lib st op)) (k', i') = None"
        then show "(k', i') \<in> tt_torn (taste_step lib st op) \<or> dissent x k' i' = {} \<or> i' \<in> y k'"
          using rest [rule_format, of k' i'] by (cases "(k', i') = (k, i)") (auto simp: st' update_conv')
      qed (use * in \<open>simp_all add: st'\<close>)
    qed (use inv TsRequest FaTask in simp)
  qed (use inv TsRequest in simp)
next
  case (TsRun key io)
  obtain k i where key: "key = (k, i)" by fastforce
  show ?thesis
  proof (cases "im_get (tt_tasks st) key")
    case (Some p)
    obtain p' st' where step: "prog_step lib io p st = (p', st')" by fastforce
    obtain x y where *: "holds_feedback lib (tt_feedback st) x" "holds_vetoes lib (tt_rejections st) y" "im_wf (tt_tasks st)"
      and tasks: "\<forall>k i p. im_get (tt_tasks st) (k, i) = Some p \<longrightarrow> id_ok i \<and> own k i p
                \<and> ((k, i) \<in> tt_torn st \<or> prot k i p (dissent x k i) (i \<in> y k))"
      and rest: "\<forall>k i. im_get (tt_tasks st) (k, i) = None \<longrightarrow> (k, i) \<in> tt_torn st \<or> dissent x k i = {} \<or> i \<in> y k"
      by (rule veto_invE [OF inv])
    have p: "id_ok i" "own k i p" "(k, i) \<in> tt_torn st \<or> prot k i p (dissent x k i) (i \<in> y k)"
      using tasks Some key by blast+
    note eff = prog_step_ok [OF lib p(1,2) *(1,2) step]
    then obtain x' y' where new: "holds_feedback lib (tt_feedback st') x'" "holds_vetoes lib (tt_rejections st') y'" "own k i p'"
      and others: "\<And>k' i'. (k', i') \<noteq> (k, i) \<Longrightarrow> dissent x' k' i' = dissent x k' i' \<and> (i' \<in> y' k' \<longleftrightarrow> i' \<in> y k')"
      and mine: "prot k i p (dissent x k i) (i \<in> y k) \<Longrightarrow> prot k i p' (dissent x' k i) (i \<in> y' k)"
      unfolding call_ok_def by blast
    have "taste_step lib st op = st'\<lparr>tt_tasks := im_insert (k, i) p' (tt_tasks st')\<rparr>"
      using TsRun Some step key by simp
    moreover have "veto_inv lib (st'\<lparr>tt_tasks := im_insert (k, i) p' (tt_tasks st')\<rparr>)"
    proof (rule veto_invI)
      fix k' i' q
      assume q: "im_get (tt_tasks (st'\<lparr>tt_tasks := im_insert (k, i) p' (tt_tasks st')\<rparr>)) (k', i') = Some q"
      show "id_ok i' \<and> own k' i' q \<and> ((k', i') \<in> tt_torn (st'\<lparr>tt_tasks := im_insert (k, i) p' (tt_tasks st')\<rparr>)
          \<or> prot k' i' q (dissent x' k' i') (i' \<in> y' k'))"
        using q p new(3) mine eff others [of k' i'] tasks [rule_format, of k' i' q]
        by (cases "(k', i') = (k, i)") (auto simp: update_conv')
    next
      fix k' i'
      assume q: "im_get (tt_tasks (st'\<lparr>tt_tasks := im_insert (k, i) p' (tt_tasks st')\<rparr>)) (k', i') = None"
      show "(k', i') \<in> tt_torn (st'\<lparr>tt_tasks := im_insert (k, i) p' (tt_tasks st')\<rparr>) \<or> dissent x' k' i' = {} \<or> i' \<in> y' k'"
        using q eff others [of k' i'] rest [rule_format, of k' i']
        by (cases "(k', i') = (k, i)") (auto simp: update_conv')
    qed (use new *(3) eff in simp_all)
    ultimately show ?thesis by simp
  qed (use inv TsRun in simp)
qed

lemma veto_inv_run:
  assumes "serde_ok lib" "veto_inv lib st" "list_all taste_op_ok ops"
  shows "veto_inv lib (foldl (taste_step lib) st ops)"
  using assms(2,3) by (induction ops arbitrary: st) (simp_all add: veto_inv_step [OF assms(1)])

lemma veto_inv_start: "veto_inv lib taste_start"
proof (rule veto_invI)
  show "holds_feedback lib (tt_feedback taste_start) (taste_of (dc_parse feedback_doc []))"
    by (simp add: taste_start_def fb.holds_new)
  show "holds_vetoes lib (tt_rejections taste_start) (vetoes_of (dc_parse rejections_doc []))"
    by (simp add: taste_start_def rj.holds_new)
  fix k i
  have "dissent (taste_of (dc_parse feedback_doc [])) k i = {}"
    by (simp add: feedback_doc_def parse_feedback_def by_sub_def taste_of_def feedback_of_def dissent_def)
  then show "(k, i) \<in> tt_torn taste_start \<or> dissent (taste_of (dc_parse feedback_doc [])) k i = {}
      \<or> i \<in> vetoes_of (dc_parse rejections_doc []) k" by simp
qed (simp_all add: taste_start_def)

text \<open>
  C11. A dislike always carries its household veto.  Whatever requests of whatever members interleave, call
  by call, with account erasures, title repairs, failed reads and writes of either file and restarts, a
  title with no task running is vetoed as long as some member dislikes it, unless a rollback of it failed
  as well (the split-brain the handler logs) or a restart cut its task off.
\<close>

theorem dislike_keeps_veto:
  assumes "serde_ok lib" "list_all taste_op_ok ops" "st = taste_run lib ops"
    "im_get (tt_tasks st) (k, i) = None" "(k, i) \<notin> tt_torn st"
    "js_loaded lib feedback_doc io (tt_feedback st) = (Some f, s)"
    "js_loaded lib rejections_doc io' (tt_rejections st) = (Some r, s')"
    "has_id i (kl_disliked (uf_kind k (feedback_of sub f)))"
  shows "has_id i (rj_kind k r)"
proof -
  have "veto_inv lib st"
    using veto_inv_run [OF assms(1) veto_inv_start assms(2)] by (simp add: assms(3) taste_run_def)
  then obtain x y where *: "holds_feedback lib (tt_feedback st) x" "holds_vetoes lib (tt_rejections st) y"
    and "dissent x k i = {} \<or> i \<in> y k"
    using assms(4,5) unfolding veto_inv_def by blast
  moreover have "sub \<in> dissent x k i"
    using fb.holds_loaded(3) [OF *(1) assms(6)] has_id_dissent assms(8) by simp
  moreover have "vetoes_of r = y" using rj.holds_loaded(3) [OF *(2) assms(7)] by blast
  ultimately show ?thesis by (auto simp: has_id_ids vetoes_of_def)
qed

definition demo_key :: "title_kind \<times> nat" where "demo_key = (KMovie, 7)"

definition demo_dislike :: taste_op where
  "demo_dislike =
     TsRequest ''a'' (feedback_post False ''a''
       (Inr (JObj [(''type'', JStr ''movie''), (''signal'', JStr ''dislike''), (''tmdbId'', JInt 7)])))"

definition demo_tastes :: "taste_op list" where
  "demo_tastes =
     [demo_dislike, TsRun demo_key all_io, TsRun demo_key all_io, TsRun demo_key all_io, TsRun demo_key all_io,
      TsEnd demo_key, TsErase failing_write ''a'']"

lemma demo_dislike_eq:
  "demo_dislike = TsRequest ''a'' (FaTask KMovie 7 (set_signal False ''a'' KMovie 7 Dislike []))"
proof -
  have "safe_positive (f_of_int 7) = Some 7"
    using f_of_int_exact [of 7] by (simp add: safe_positive_def trunc_int_def fle_def max_safe_def f_to_u64_def sat_int_def)
  then show ?thesis
    by (simp add: demo_dislike_def feedback_post_def truthy_def body_str_def json_get_def kind_parse_def
        signal_parse_def js_number_def)
qed

lemma demo_tastes_run:
  "im_get (tt_tasks (taste_run demo_serde demo_tastes)) (KMovie, 7) = None
   \<and> tt_torn (taste_run demo_serde demo_tastes) = {}
   \<and> (\<exists>f. js_cell (tt_feedback (taste_run demo_serde demo_tastes)) = Some f
          \<and> has_id 7 (kl_disliked (uf_kind KMovie (feedback_of ''a'' f))))
   \<and> (\<exists>r. js_cell (tt_rejections (taste_run demo_serde demo_tastes)) = Some r)"
  by (simp add: taste_run_def demo_tastes_def demo_dislike_eq taste_start_def demo_key_def failing_write_def
      set_signal_def put_dislike_def rejections_add_def feedback_set_def js_update_def js_loaded_def
      new_store_def js_read_def all_io_def js_persist_def feedback_doc_def parse_feedback_def by_sub_def
      rejections_doc_def parse_rejections_def normalize_id_title_list_def rows_of_def add_rejection_def Let_def
      feedback_clear_user_def drop_user_def set_in_file_def set_in_lists_def feedback_of_def no_feedback_def
      no_lists_def has_id_def drop_id_def List.map_filter_simps)

lemma dislike_keeps_veto_witness:
  "\<exists>r s. js_loaded demo_serde rejections_doc all_io (tt_rejections (taste_run demo_serde demo_tastes)) = (Some r, s)
     \<and> has_id 7 (rj_kind KMovie r)"
proof -
  obtain f r where f: "js_cell (tt_feedback (taste_run demo_serde demo_tastes)) = Some f"
      "has_id 7 (kl_disliked (uf_kind KMovie (feedback_of ''a'' f)))"
    and r: "js_cell (tt_rejections (taste_run demo_serde demo_tastes)) = Some r"
    using demo_tastes_run by blast
  have "list_all taste_op_ok demo_tastes"
    by (auto simp: demo_tastes_def demo_dislike_def)
  moreover have "js_loaded demo_serde feedback_doc all_io (tt_feedback (taste_run demo_serde demo_tastes))
      = (Some f, tt_feedback (taste_run demo_serde demo_tastes))" using f by (simp add: js_loaded_def)
  moreover have "js_loaded demo_serde rejections_doc all_io (tt_rejections (taste_run demo_serde demo_tastes))
      = (Some r, tt_rejections (taste_run demo_serde demo_tastes))" using r by (simp add: js_loaded_def)
  ultimately show ?thesis
    using dislike_keeps_veto [OF demo_serde_ok _ refl _ _ _ _ f(2)] demo_tastes_run by blast
qed

end
