(* ===== verification/Parental.thy ===== *)
theory Parental
  imports Taste Members Stream_Token
begin

text \<open>
  Parental controls: \<open>crates/gateway/src/parental.rs\<close> (the certification of a title against the caller's
  cap), the policy routes of \<open>routes.rs\<close>, the path normalisation of \<open>app.rs\<close> every request crosses first,
  and the gates of \<open>proxy/media.rs\<close>, \<open>proxy/iptv.rs\<close> and \<open>media_token.rs\<close>.  Who the caller is (\<open>authenticate\<close>)
  and what SQLite, Radarr and Sonarr answer are arguments.
\<close>

section \<open>Ratings\<close>

definition upper_char :: "char \<Rightarrow> char" where
  "upper_char c = (let n = of_char c :: nat in if 97 \<le> n \<and> n \<le> 122 then char_of (n - 32) else c)"

text \<open>
  \<open>to_uppercase\<close> of every other character keeps a byte no rating has: none of the letters of a rating is
  the upper case of a character outside ASCII.
\<close>

definition severity :: "string \<Rightarrow> nat option" where
  "severity rating =
     (let s = map upper_char (js_trim rating) in
      if s \<in> {''G'', ''TV-Y'', ''TV-G''} then Some 0
      else if s \<in> {''PG'', ''TV-Y7'', ''TV-PG''} then Some 1
      else if s \<in> {''PG-13'', ''TV-14''} then Some 2
      else if s \<in> {''R'', ''TV-MA''} then Some 3
      else if s = ''NC-17'' then Some 4
      else None)"

definition rating_allowed :: "string option \<Rightarrow> string option \<Rightarrow> bool" where
  "rating_allowed certification cap =
     (case cap of
        None \<Rightarrow> True
      | Some c \<Rightarrow>
          (case severity c of
             None \<Rightarrow> True
           | Some n \<Rightarrow>
               (case severity (case certification of None \<Rightarrow> [] | Some r \<Rightarrow> r) of
                  None \<Rightarrow> False
                | Some s \<Rightarrow> s \<le> n)))"

section \<open>Certifications\<close>

type_synonym cert_map = "(int, string option) imap"

record certs =
  ce_radarr :: "(nat \<times> cert_map) option"
  ce_sonarr :: "(nat \<times> cert_map) option"

definition cert_ttl :: nat where "cert_ttl = 10 * 60 * 1000000000"

datatype gw_title = TMovie | TEpisode | TTrack | TVideo

definition title_parse :: "string \<Rightarrow> gw_title option" where
  "title_parse kind =
     (if kind = ''movie'' then Some TMovie
      else if kind = ''episode'' then Some TEpisode
      else if kind = ''track'' then Some TTrack
      else if kind = ''video'' then Some TVideo
      else None)"

text \<open>A reply of Radarr or Sonarr: no connection, or a status with the body when it is JSON.\<close>

datatype arr_reply = ArrDown | ArrReply nat "jvalue option"

definition cert_row :: "string \<Rightarrow> jvalue \<Rightarrow> (int \<times> string option) option" where
  "cert_row key row =
     Option.bind (json_get key row) (\<lambda>v.
     Option.bind (as_f64 v) (\<lambda>f.
       if feq (ffract f) (Fin 0) then Some (f_to_i64 f, Option.bind (json_get ''certification'' row) as_str) else None))"

definition fetch_certs :: "string \<Rightarrow> arr_reply \<Rightarrow> cert_map option" where
  "fetch_certs key reply =
     (case reply of
        ArrDown \<Rightarrow> None
      | ArrReply status body \<Rightarrow>
          if \<not> (200 \<le> status \<and> status \<le> 299) then None
          else (case Option.bind body as_arr of
                  None \<Rightarrow> None
                | Some rows \<Rightarrow> Some (foldl (\<lambda>m (i, c). im_insert i c m) [] (List.map_filter (cert_row key) rows))))"

text \<open>
  \<open>media.db\<close>: whether it opens, and the external id of a row of either query; \<open>None\<close> outside is a failed
  query, \<open>None\<close> inside no row or a null.
\<close>

record media_db =
  md_open :: bool
  md_query :: "gw_title \<Rightarrow> f64 \<Rightarrow> int option option"

definition media_identity :: "media_db \<Rightarrow> gw_title \<Rightarrow> f64 \<Rightarrow> int option option" where
  "media_identity db kind x =
     (if \<not> md_open db then None
      else case x of Fin _ \<Rightarrow> md_query db kind x | _ \<Rightarrow> Some None)"

definition cached_certs :: "gw_title \<Rightarrow> certs \<Rightarrow> (nat \<times> cert_map) option" where
  "cached_certs kind c = (if kind = TMovie then ce_radarr c else ce_sonarr c)"

definition store_certs :: "gw_title \<Rightarrow> nat \<times> cert_map \<Rightarrow> certs \<Rightarrow> certs" where
  "store_certs kind e c = (if kind = TMovie then c\<lparr>ce_radarr := Some e\<rparr> else c\<lparr>ce_sonarr := Some e\<rparr>)"

definition cert_of :: "cert_map \<Rightarrow> int \<Rightarrow> string option" where
  "cert_of m ext = Option.bind (im_get m ext) id"

text \<open>The certification, \<open>None\<close> outside when it cannot be resolved; the clock is monotone nanoseconds.\<close>

definition certification :: "media_db \<Rightarrow> arr_reply \<Rightarrow> nat \<Rightarrow> gw_title \<Rightarrow> f64 \<Rightarrow> certs \<Rightarrow> string option option \<times> certs" where
  "certification db reply now kind x c =
     (case media_identity db kind x of
        None \<Rightarrow> (None, c)
      | Some None \<Rightarrow> (Some None, c)
      | Some (Some ext) \<Rightarrow>
          (case cached_certs kind c of
             Some (t, m) \<Rightarrow>
               if now - t < cert_ttl then (Some (cert_of m ext), c)
               else (case fetch_certs (if kind = TMovie then ''tmdbId'' else ''tvdbId'') reply of
                       Some m' \<Rightarrow> (Some (cert_of m' ext), store_certs kind (now, m') c)
                     | None \<Rightarrow> (Some (cert_of m ext), c))
           | None \<Rightarrow>
               (case fetch_certs (if kind = TMovie then ''tmdbId'' else ''tvdbId'') reply of
                  Some m' \<Rightarrow> (Some (cert_of m' ext), store_certs kind (now, m') c)
                | None \<Rightarrow> (None, c))))"

record parental =
  pr_policies :: "policies_file json_store"
  pr_certs :: certs

text \<open>What the world answers during one request.\<close>

record parental_world =
  pw_io :: store_io
  pw_db :: media_db
  pw_reply :: arr_reply
  pw_now :: nat

definition rating_blocked :: "serde \<Rightarrow> parental_world \<Rightarrow> role \<Rightarrow> string \<Rightarrow> gw_title \<Rightarrow> f64
    \<Rightarrow> parental \<Rightarrow> bool option \<times> parental" where
  "rating_blocked lib w r sub kind x st =
     (if r = Admin \<or> kind = TTrack then (Some False, st)
      else case policies_policy lib (pw_io w) sub (pr_policies st) of
        (None, s) \<Rightarrow> (None, st\<lparr>pr_policies := s\<rparr>)
      | (Some p, s) \<Rightarrow>
          (let st' = st\<lparr>pr_policies := s\<rparr> in
           case effective_cap p of
             None \<Rightarrow> (Some False, st')
           | Some cap \<Rightarrow>
               if kind = TVideo then (Some True, st')
               else (case certification (pw_db w) (pw_reply w) (pw_now w) kind x (pr_certs st') of
                       (Some cert, c) \<Rightarrow> (Some (\<not> rating_allowed cert (Some cap)), st'\<lparr>pr_certs := c\<rparr>)
                     | (None, c) \<Rightarrow> (Some True, st'\<lparr>pr_certs := c\<rparr>))))"

section \<open>The path every gate sees\<close>

definition is_single :: "string \<Rightarrow> bool" where
  "is_single s \<longleftrightarrow> s = ''.'' \<or> to_lower s = ''%2e''"

definition is_double :: "string \<Rightarrow> bool" where
  "is_double s \<longleftrightarrow> to_lower s \<in> {''..'', ''.%2e'', ''%2e.'', ''%2e%2e''}"

definition slashed :: "string \<Rightarrow> string" where
  "slashed p = map (\<lambda>c. if c = CHR 92 then CHR ''/'' else c) p"

text \<open>The loop over the segments; the last one leaves an empty segment behind when it is dropped.\<close>

fun drop_dots :: "string list \<Rightarrow> string list \<Rightarrow> string list" where
  "drop_dots out [] = out"
| "drop_dots out (s # ss) =
     (let out' = (if is_double s then butlast out else if is_single s then out else out @ [s])
      in if (is_double s \<or> is_single s) \<and> ss = [] then out' @ [[]] else drop_dots out' ss)"

definition dot_free :: "string \<Rightarrow> bool" where
  "dot_free p \<longleftrightarrow> (\<forall>s \<in> set (split_on (CHR ''/'') p). \<not> is_single s \<and> \<not> is_double s)"

definition remove_dots :: "string \<Rightarrow> string option" where
  "remove_dots path =
     (case strip_prefix ''/'' path of
        None \<Rightarrow> None
      | Some rest \<Rightarrow>
          (let segs = split_on (CHR ''/'') rest
           in if list_all (\<lambda>s. \<not> is_single s \<and> \<not> is_double s) segs then None
              else Some (''/'' @ join_with ''/'' (drop_dots [] segs))))"

definition remove_dot_segments :: "string \<Rightarrow> string option" where
  "remove_dot_segments path =
     (if CHR 92 \<in> set path
      then (let p = slashed path in Some (case remove_dots p of None \<Rightarrow> p | Some q \<Rightarrow> q))
      else remove_dots path)"

text \<open>\<open>normalize_path\<close>; that the rebuilt target parses again is the \<open>http\<close> crate's business.\<close>

definition edge_path :: "string \<Rightarrow> string" where
  "edge_path p = (case remove_dot_segments p of None \<Rightarrow> p | Some q \<Rightarrow> q)"

section \<open>Media tokens\<close>

definition direct_kind :: stream_kind where "direct_kind = Vod"

definition hls_kind :: stream_kind where "hls_kind = Remux"

definition media_rid :: "string \<Rightarrow> string \<Rightarrow> string" where
  "media_rid kind i = ''media:'' @ kind @ '':'' @ i"

definition session_rid :: "string \<Rightarrow> string" where
  "session_rid sid = ''media:session:'' @ sid"

text \<open>\<open>i64::try_from(ttl)\<close>, or what is left of \<open>i64\<close>; the clock is in epoch seconds.\<close>

definition media_sign :: "token_lib \<Rightarrow> string \<Rightarrow> int \<Rightarrow> string \<Rightarrow> string \<Rightarrow> string \<Rightarrow> stream_kind \<Rightarrow> nat \<Rightarrow> string" where
  "media_sign L secret now ulid sub rid k ttl =
     sign L secret
       \<lparr>c_exp = now + (if ttl < 2 ^ 63 then int ttl else 2 ^ 63 - 1 - now), c_iat = now, c_jti = ulid, c_k = k,
        c_nbf = now, c_rid = rid, c_sub = sub, c_v = 1\<rparr>"

datatype token_refusal = MtInvalid | MtKind | MtMismatch

fun refusal_str :: "token_refusal \<Rightarrow> string" where
  "refusal_str MtInvalid = ''invalid_token''"
| "refusal_str MtKind = ''token_kind''"
| "refusal_str MtMismatch = ''token_mismatch''"

definition media_verify :: "token_lib \<Rightarrow> string \<Rightarrow> int \<Rightarrow> string \<Rightarrow> stream_kind list \<Rightarrow> string option
    \<Rightarrow> token_refusal + string" where
  "media_verify L secret now token kinds rid =
     (case result_bind (verify L secret token) (\<lambda>c. result_bind (enforce_time_window c now) (\<lambda>_. Inr c)) of
        Inl _ \<Rightarrow> Inl MtInvalid
      | Inr c \<Rightarrow>
          if \<not> starts_with ''media:'' (c_rid c) then Inl MtKind
          else if kinds \<noteq> [] \<and> c_k c \<notin> set kinds then Inl MtKind
          else if rid \<noteq> None \<and> rid \<noteq> Some (c_rid c) then Inl MtMismatch
          else Inr (c_sub c))"

section \<open>The gate of the media proxy\<close>

text \<open>
  \<open>u8::from_str_radix(hex, 16)\<close> of two bytes, which takes a plus sign for the first; the result of the
  whole text must be UTF-8.
\<close>

definition hex_pair :: "char \<Rightarrow> char \<Rightarrow> char option" where
  "hex_pair a b =
     (let digit = (\<lambda>c. is_digit c \<or> (97 \<le> (of_char c :: nat) \<and> (of_char c :: nat) \<le> 102)
                        \<or> (65 \<le> (of_char c :: nat) \<and> (of_char c :: nat) \<le> 70));
          val = (\<lambda>c. if is_digit c then digit_val c else of_char (lower_char c) - 87 :: nat)
      in if \<not> digit b then None
         else if a = CHR ''+'' then Some (char_of (val b))
         else if \<not> digit a then None
         else Some (char_of (16 * val a + val b)))"

fun unescape_uri :: "string \<Rightarrow> string option" where
  "unescape_uri [] = Some []"
| "unescape_uri (c # s) =
     (if c = CHR ''%'' then
        (case s of
           a # b # r \<Rightarrow> (case hex_pair a b of None \<Rightarrow> None | Some x \<Rightarrow> map_option ((#) x) (unescape_uri r))
         | _ \<Rightarrow> None)
      else map_option ((#) c) (unescape_uri s))"

definition decode_uri_component :: "string \<Rightarrow> string option" where
  "decode_uri_component s =
     (case unescape_uri s of None \<Rightarrow> None | Some t \<Rightarrow> if utf8_ok t then Some t else None)"

definition kind_id :: "string \<Rightarrow> string \<Rightarrow> string list option \<Rightarrow> (string \<times> string) option" where
  "kind_id subpath lead kinds =
     Option.bind (strip_prefix lead subpath) (\<lambda>r.
     Option.bind (strip_prefix ''/'' r) (\<lambda>r.
     Option.bind (split_once (CHR ''/'') r) (\<lambda>(kind, r).
       (let i = takeWhile (\<lambda>c. c \<noteq> CHR ''/'' \<and> c \<noteq> CHR ''?'') r
        in if kind \<noteq> [] \<and> i \<noteq> [] \<and> (case kinds of None \<Rightarrow> True | Some ks \<Rightarrow> kind \<in> set ks)
           then Some (kind, i) else None))))"

text \<open>What a request carries: its path, the \<open>t\<close> parameter and what \<open>authenticate\<close> answers.\<close>

record media_request =
  mq_path :: string
  mq_token :: "string option"
  mq_session :: "nat \<times> string + role \<times> string"

record media_env =
  me_lib :: token_lib
  me_secret :: string
  me_clock :: int
  me_db :: auth_db
  me_admins :: "string list"

type_synonym refusal = "nat \<times> string"

definition require_member :: "media_env \<Rightarrow> string \<Rightarrow> refusal + unit" where
  "require_member E sub =
     (if member_status (me_db E) (me_admins E) sub = StAllowed then Inr () else Inl (401, ''access_revoked''))"

definition gate_rating :: "serde \<Rightarrow> parental_world \<Rightarrow> role \<times> string \<Rightarrow> string \<Rightarrow> string
    \<Rightarrow> parental \<Rightarrow> (refusal + unit) \<times> parental" where
  "gate_rating lib w a kind i st =
     (case title_parse kind of
        None \<Rightarrow> (Inr (), st)
      | Some title \<Rightarrow>
          (case rating_blocked lib w (fst a) (snd a) title (js_str_number i) st of
             (Some False, st') \<Rightarrow> (Inr (), st')
           | (Some True, st') \<Rightarrow> (Inl (403, ''rating_blocked''), st')
           | (None, st') \<Rightarrow> (Inl (500, ''internal''), st')))"

definition gated_title :: "string \<Rightarrow> (string \<times> string) option" where
  "gated_title subpath =
     (case kind_id subpath ''/subtitles'' (Some [''movie'', ''episode'']) of
        Some x \<Rightarrow> Some x
      | None \<Rightarrow> kind_id subpath ''/chapters'' (Some [''movie'', ''episode'', ''video'']))"

definition media_subpath :: "string \<Rightarrow> string" where
  "media_subpath p =
     (case strip_prefix ''/api/media'' p of None \<Rightarrow> ''/'' | Some r \<Rightarrow> if r = [] then ''/'' else r)"

text \<open>The caller a forward acts as: role and sub.\<close>

definition media_gate :: "serde \<Rightarrow> parental_world \<Rightarrow> media_env \<Rightarrow> media_request \<Rightarrow> parental
    \<Rightarrow> (refusal + role \<times> string) \<times> parental" where
  "media_gate lib w E q st =
     (case decode_uri_component (mq_path q) of
        None \<Rightarrow> (Inl (400, ''bad_path''), st)
      | Some decoded \<Rightarrow>
          (let subpath = media_subpath decoded;
               token = (case mq_token q of None \<Rightarrow> None | Some t \<Rightarrow> if t = [] then None else Some t);
               rated = (\<lambda>a kind i. case gate_rating lib w a kind i st of
                                     (Inl r, st') \<Rightarrow> (Inl r, st') | (Inr (), st') \<Rightarrow> (Inr a, st'))
           in case kind_id subpath ''/stream'' None of
                Some (kind, i) \<Rightarrow>
                  (case token of
                     Some t \<Rightarrow>
                       (case media_verify (me_lib E) (me_secret E) (me_clock E) t [direct_kind] (Some (media_rid kind i)) of
                          Inl r \<Rightarrow> (Inl (401, refusal_str r), st)
                        | Inr sub \<Rightarrow>
                            (case require_member E sub of Inl r \<Rightarrow> (Inl r, st) | Inr () \<Rightarrow> (Inr (User, sub), st)))
                   | None \<Rightarrow>
                       (case mq_session q of Inl r \<Rightarrow> (Inl r, st) | Inr a \<Rightarrow> rated a kind i))
              | None \<Rightarrow>
                  (case mq_session q of
                     Inl r \<Rightarrow> (Inl r, st)
                   | Inr a \<Rightarrow>
                       (case gated_title subpath of
                          Some (kind, i) \<Rightarrow> rated a kind i
                        | None \<Rightarrow>
                            if starts_with ''/youtube/'' subpath then
                              (case cap_blocks_unrated lib (pw_io w) (fst a) (snd a) (pr_policies st) of
                                 (Some False, s) \<Rightarrow> (Inr a, st\<lparr>pr_policies := s\<rparr>)
                               | (Some True, s) \<Rightarrow> (Inl (403, ''rating_blocked''), st\<lparr>pr_policies := s\<rparr>)
                               | (None, s) \<Rightarrow> (Inl (500, ''internal''), st\<lparr>pr_policies := s\<rparr>))
                            else (Inr a, st)))))"

text \<open>
  The start of \<open>playback\<close>: the gate of the proxy, then the two last segments of the path, decoded, and the
  cap; what follows mints a token for that title or hands its caller to the transcoder.
\<close>

definition playback_gate :: "serde \<Rightarrow> parental_world \<Rightarrow> media_env \<Rightarrow> media_request \<Rightarrow> parental
    \<Rightarrow> (refusal + (role \<times> string) \<times> gw_title \<times> string \<times> string) \<times> parental" where
  "playback_gate lib w E q st =
     (case media_gate lib w E q st of
        (Inl r, st') \<Rightarrow> (Inl r, st')
      | (Inr a, st') \<Rightarrow>
          (let segs = rev (split_on (CHR ''/'') (mq_path q));
               raw_id = hd segs;
               raw_kind = (case tl segs of [] \<Rightarrow> [] | k # _ \<Rightarrow> k)
           in case (decode_uri_component raw_kind, decode_uri_component raw_id) of
                (Some kind, Some i) \<Rightarrow>
                  (case title_parse kind of
                     None \<Rightarrow> (Inl (400, ''unknown media kind''), st')
                   | Some title \<Rightarrow>
                       (case rating_blocked lib w (fst a) (snd a) title (js_str_number i) st' of
                          (Some False, st'') \<Rightarrow> (Inr (a, title, kind, i), st'')
                        | (Some True, st'') \<Rightarrow> (Inl (403, ''rating_blocked''), st'')
                        | (None, st'') \<Rightarrow> (Inl (500, ''internal''), st'')))
              | _ \<Rightarrow> (Inl (400, ''bad_path''), st')))"

section \<open>The policy routes\<close>

definition parse_sections :: "jvalue \<Rightarrow> string + gw_sections" where
  "parse_sections v =
     (case as_object v of
        None \<Rightarrow> Inl ''invalid_allowedSections''
      | Some s \<Rightarrow>
          if list_ex (\<lambda>k. k \<notin> {''live'', ''downloads'', ''arr''}) (map fst s) then Inl ''unknown_section_key''
          else (let flag = (\<lambda>k. Option.bind (map_of s k) as_bool) in
                case (flag ''live'', flag ''downloads'', flag ''arr'') of
                  (Some l, Some d, Some a) \<Rightarrow> Inr \<lparr>sc_live = l, sc_downloads = d, sc_arr = a\<rparr>
                | _ \<Rightarrow> Inl ''invalid_allowedSections''))"

definition parse_policy :: "jvalue \<Rightarrow> string + policy" where
  "parse_policy raw =
     result_bind (ok_or ''invalid_body'' (as_object raw)) (\<lambda>m.
     if list_ex (\<lambda>k. k \<notin> {''maxContentRating'', ''allowedSections'', ''kid''}) (map fst m) then Inl ''unknown_key''
     else
     result_bind (case map_of m ''maxContentRating'' of
                    None \<Rightarrow> Inr None
                  | Some JNull \<Rightarrow> Inr None
                  | Some (JStr r) \<Rightarrow> if r \<in> set content_ratings then Inr (Some r) else Inl ''invalid_maxContentRating''
                  | Some _ \<Rightarrow> Inl ''invalid_maxContentRating'') (\<lambda>rating.
     result_bind (case map_of m ''kid'' of
                    None \<Rightarrow> Inr False
                  | Some (JBool b) \<Rightarrow> Inr b
                  | Some _ \<Rightarrow> Inl ''invalid_kid'') (\<lambda>kid.
     result_bind (case map_of m ''allowedSections'' of
                    None \<Rightarrow> Inr None
                  | Some JNull \<Rightarrow> Inr None
                  | Some v \<Rightarrow> result_bind (parse_sections v) (\<lambda>s. Inr (Some s))) (\<lambda>sections.
       Inr \<lparr>pl_rating = rating, pl_sections = sections, pl_kid = kid\<rparr>))))"

text \<open>\<open>PUT /api/users/:sub/policy\<close> of an admin: the stored policy, or a refusal.\<close>

definition set_policy :: "serde \<Rightarrow> store_io \<Rightarrow> store_io \<Rightarrow> string \<Rightarrow> refusal + jvalue \<Rightarrow> policies_file json_store
    \<Rightarrow> (refusal + policy) \<times> policies_file json_store" where
  "set_policy lib io io' sub read st =
     (if sub = [] then (Inl (400, ''invalid_sub''), st)
      else case read of
        Inl r \<Rightarrow> (Inl r, st)
      | Inr body \<Rightarrow>
          (case parse_policy body of
             Inl code \<Rightarrow> (Inl (400, code), st)
           | Inr p \<Rightarrow>
               (case policies_set lib io sub p st of
                  (False, st') \<Rightarrow> (Inl (500, ''internal''), st')
                | (True, st') \<Rightarrow>
                    (case policies_policy lib io' sub st' of
                       (None, st'') \<Rightarrow> (Inl (500, ''internal''), st'')
                     | (Some q, st'') \<Rightarrow> (Inr q, st'')))))"

definition own_policy :: "serde \<Rightarrow> store_io \<Rightarrow> string \<Rightarrow> policies_file json_store
    \<Rightarrow> (refusal + policy) \<times> policies_file json_store" where
  "own_policy lib io sub st =
     (case policies_policy lib io sub st of
        (None, st') \<Rightarrow> (Inl (500, ''internal''), st')
      | (Some p, st') \<Rightarrow> (Inr p, st'))"

section \<open>The gates of the iptv proxy\<close>

text \<open>The two expressions, over the segments of the path after \<open>/api/iptv\<close>.\<close>

definition iptv_subpath :: "string \<Rightarrow> string" where
  "iptv_subpath p =
     (case strip_prefix ''/api/iptv'' p of None \<Rightarrow> ''/'' | Some r \<Rightarrow> if r = [] then ''/'' else r)"

definition no_section :: "string \<Rightarrow> bool" where
  "no_section p \<longleftrightarrow>
     (case split_on (CHR ''/'') p of
        [e, s] \<Rightarrow> e = [] \<and> s = ''sessions''
      | [e, s, x] \<Rightarrow> e = [] \<and> (s = ''sessions'' \<and> x \<noteq> [] \<or> s = ''playlist'' \<and> x = ''tokens'')
      | [e, s, t, x] \<Rightarrow> e = [] \<and> s = ''playlist'' \<and> t = ''tokens'' \<and> x \<noteq> []
      | _ \<Rightarrow> False)"

definition capped_path :: "string \<Rightarrow> bool" where
  "capped_path p \<longleftrightarrow>
     (case split_on (CHR ''/'') p of
        [e, s, x] \<Rightarrow> e = [] \<and> s = ''playlist'' \<and> x = ''token''
      | [e, s, k, x, g] \<Rightarrow> e = [] \<and> s = ''stream'' \<and> k \<in> {''live'', ''catchup'', ''vod'', ''series''} \<and> x \<noteq> [] \<and> g = ''grant''
      | _ \<Rightarrow> False)"

definition live_section :: "serde \<Rightarrow> store_io \<Rightarrow> role \<times> string \<Rightarrow> policies_file json_store
    \<Rightarrow> (refusal + unit) \<times> policies_file json_store" where
  "live_section lib io a st =
     (case require_section lib io (fst a) (snd a) SLive st of
        (Some True, st') \<Rightarrow> (Inr (), st')
      | (Some False, st') \<Rightarrow> (Inl (403, ''section_blocked''), st')
      | (None, st') \<Rightarrow> (Inl (500, ''internal''), st'))"

definition cap_gate :: "serde \<Rightarrow> store_io \<Rightarrow> role \<times> string \<Rightarrow> policies_file json_store
    \<Rightarrow> (refusal + unit) \<times> policies_file json_store" where
  "cap_gate lib io a st =
     (case cap_blocks_unrated lib io (fst a) (snd a) st of
        (Some False, st') \<Rightarrow> (Inr (), st')
      | (Some True, st') \<Rightarrow> (Inl (403, ''rating_blocked''), st')
      | (None, st') \<Rightarrow> (Inl (500, ''internal''), st'))"

text \<open>\<open>session_route\<close> up to the forward.\<close>

definition iptv_gate :: "serde \<Rightarrow> store_io \<Rightarrow> bool \<Rightarrow> string \<Rightarrow> refusal + role \<times> string
    \<Rightarrow> policies_file json_store \<Rightarrow> (refusal + role \<times> string) \<times> policies_file json_store" where
  "iptv_gate lib io is_post path session st =
     (case session of
        Inl r \<Rightarrow> (Inl r, st)
      | Inr a \<Rightarrow>
          (let p = iptv_subpath path in
           case (if no_section p then (Inr (), st) else live_section lib io a st) of
             (Inl r, st') \<Rightarrow> (Inl r, st')
           | (Inr (), st') \<Rightarrow>
               (case (if is_post \<and> capped_path p then cap_gate lib io a st' else (Inr (), st')) of
                  (Inl r, st'') \<Rightarrow> (Inl r, st'')
                | (Inr (), st'') \<Rightarrow> (Inr a, st''))))"

text \<open>The recordings: listing, the grant and playing without a token, by whether the cap applies.\<close>

definition live_gates :: "serde \<Rightarrow> store_io \<Rightarrow> bool \<Rightarrow> refusal + role \<times> string \<Rightarrow> policies_file json_store
    \<Rightarrow> (refusal + role \<times> string) \<times> policies_file json_store" where
  "live_gates lib io capped session st =
     (case session of
        Inl r \<Rightarrow> (Inl r, st)
      | Inr a \<Rightarrow>
          (case live_section lib io a st of
             (Inl r, st') \<Rightarrow> (Inl r, st')
           | (Inr (), st') \<Rightarrow>
               (case (if capped then cap_gate lib io a st' else (Inr (), st')) of
                  (Inl r, st'') \<Rightarrow> (Inl r, st'')
                | (Inr (), st'') \<Rightarrow> (Inr a, st''))))"

section \<open>The title a path is served as\<close>

text \<open>
  The routes of media-core (\<open>routes/mod.rs\<close>) that answer with a title's bytes, subtitles or chapters: the
  router matches the segments of the forwarded path and decodes the two parameters with \<open>dec\<close>.
\<close>

definition served_title :: "(string \<Rightarrow> string option) \<Rightarrow> string \<Rightarrow> (string \<times> string \<times> string) option" where
  "served_title dec p =
     (let params = (\<lambda>lead k i. if k = [] \<or> i = [] then None
                               else Option.bind (dec k) (\<lambda>kind. Option.bind (dec i) (\<lambda>t. Some (lead, kind, t))))
      in case split_on (CHR ''/'') p of
           [e, a, m, lead, k, i] \<Rightarrow>
             if e = [] \<and> a = ''api'' \<and> m = ''media'' \<and> lead \<in> {''stream'', ''subtitles'', ''chapters''}
             then params lead k i else None
         | [e, a, m, lead, k, i, f] \<Rightarrow>
             if e = [] \<and> a = ''api'' \<and> m = ''media'' \<and> lead = ''subtitles'' \<and> f \<in> {''file'', ''download'', ''transcribe''}
             then params lead k i else None
         | _ \<Rightarrow> None)"

end
