(* ===== verification/Parental_Safety.thy ===== *)
theory Parental_Safety
  imports Parental
begin

text \<open>
  What the parental gates keep: every gate sees the path the services will route, and a capped profile
  passes for a title within its cap only.
\<close>

section \<open>Paths without dot segments\<close>

lemma split_on_concat: "split_on c s = ps \<Longrightarrow> join_with [c] ps = s"
proof (induction s arbitrary: ps)
  case (Cons x s)
  obtain q qs where q: "split_on c s = q # qs" by (cases "split_on c s") simp_all
  then have "join_with [c] (q # qs) = s" by (rule Cons.IH)
  then show ?case using Cons.prems q by (cases qs) (auto split: if_splits)
qed simp

lemma split_join: "(\<forall>l \<in> set ls. c \<notin> set l) \<Longrightarrow> ls \<noteq> [] \<Longrightarrow> split_on c (join_with [c] ls) = ls"
  by (induction "[c]" ls rule: join_with.induct) (simp_all add: split_on_free split_on_append)

definition dot_step :: "string list \<Rightarrow> string \<Rightarrow> string list" where
  "dot_step out s = (if is_double s then butlast out else if is_single s then out else out @ [s])"

lemma drop_dots_Cons:
  "drop_dots out (s # ss) =
     (if (is_double s \<or> is_single s) \<and> ss = [] then dot_step out s @ [[]] else drop_dots (dot_step out s) ss)"
  by (simp add: dot_step_def Let_def)

declare drop_dots.simps(2) [simp del]

lemma dot_step_sub: "set (dot_step out s) \<subseteq> set out \<union> {s}"
  by (auto simp: dot_step_def dest: in_set_butlastD)

lemma drop_dots_sub: "set (drop_dots out ss) \<subseteq> set out \<union> set ss \<union> {[]}"
proof (induction ss arbitrary: out)
  case (Cons s ss)
  show ?case
  proof (cases "(is_double s \<or> is_single s) \<and> ss = []")
    case True
    then show ?thesis using dot_step_sub [of out s] by (auto simp: drop_dots_Cons)
  next
    case False
    then show ?thesis using dot_step_sub [of out s] Cons [of "dot_step out s"] by (auto simp: drop_dots_Cons)
  qed
qed auto

lemma empty_no_dot [simp]: "\<not> is_single []" "\<not> is_double []"
  by (simp_all add: is_single_def is_double_def to_lower_def)

abbreviation plain :: "string list \<Rightarrow> bool" where
  "plain ss \<equiv> \<forall>s \<in> set ss. \<not> is_single s \<and> \<not> is_double s"

lemma dot_step_plain: "plain out \<Longrightarrow> plain (dot_step out s)"
  by (auto simp: dot_step_def dest: in_set_butlastD)

lemma drop_dots_clean: "plain out \<Longrightarrow> plain (drop_dots out ss)"
proof (induction ss arbitrary: out)
  case (Cons s ss)
  have step: "plain (dot_step out s)" by (rule dot_step_plain [OF Cons.prems])
  show ?case
  proof (cases "(is_double s \<or> is_single s) \<and> ss = []")
    case True
    then show ?thesis using step by (auto simp: drop_dots_Cons)
  next
    case False
    then have "drop_dots out (s # ss) = drop_dots (dot_step out s) ss" by (simp add: drop_dots_Cons)
    then show ?thesis using Cons.IH [OF step] by simp
  qed
qed simp

lemma drop_dots_nonempty: "ss \<noteq> [] \<Longrightarrow> drop_dots out ss \<noteq> []"
proof (induction ss arbitrary: out)
  case (Cons s ss)
  show ?case
  proof (cases "ss = []")
    case True
    then show ?thesis by (simp add: drop_dots_Cons dot_step_def)
  next
    case False
    then show ?thesis using Cons.IH [of "dot_step out s"] by (simp add: drop_dots_Cons)
  qed
qed simp

lemma remove_dots_free:
  assumes "strip_prefix ''/'' p = Some r"
  shows "dot_free (case remove_dots p of None \<Rightarrow> p | Some q \<Rightarrow> q)
    \<and> strip_prefix ''/'' (case remove_dots p of None \<Rightarrow> p | Some q \<Rightarrow> q) \<noteq> None
    \<and> set (case remove_dots p of None \<Rightarrow> p | Some q \<Rightarrow> q) \<subseteq> set p"
proof -
  have p: "p = CHR ''/'' # r" using assms by (simp add: strip_prefix_Some)
  define segs where "segs = split_on (CHR ''/'') r"
  have split_p: "split_on (CHR ''/'') p = [] # segs" by (simp add: p segs_def)
  show ?thesis
  proof (cases "list_all (\<lambda>s. \<not> is_single s \<and> \<not> is_double s) segs")
    case True
    then show ?thesis using assms split_p by (auto simp: remove_dots_def segs_def dot_free_def list_all_iff)
  next
    case False
    define out where "out = drop_dots [] segs"
    have "segs \<noteq> []" by (simp add: segs_def)
    then have out: "out \<noteq> []" unfolding out_def by (rule drop_dots_nonempty)
    have pieces: "\<forall>l \<in> set out. CHR ''/'' \<notin> set l"
      using drop_dots_sub [of "[]" segs] split_on_pieces_free [of _ "CHR ''/''" r] by (auto simp: out_def segs_def)
    have q: "remove_dots p = Some (''/'' @ join_with ''/'' out)"
      using assms False by (simp add: remove_dots_def segs_def out_def Let_def)
    have split_q: "split_on (CHR ''/'') (''/'' @ join_with ''/'' out) = [] # out"
      using split_join [OF pieces out] by simp
    have "set (join_with ''/'' ls) \<subseteq> {CHR ''/''} \<union> \<Union> (set ` set ls)" for ls
      by (induction "''/''" ls rule: join_with.induct) auto
    moreover have "\<Union> (set ` set out) \<subseteq> set r"
    proof -
      have "set l \<subseteq> set r" if "l \<in> set segs" for l
        using that split_on_join [of "CHR ''/''" r segs] unfolding segs_def
        by (cases "split_on (CHR ''/'') r") auto
      then show ?thesis using drop_dots_sub [of "[]" segs] unfolding out_def by fastforce
    qed
    ultimately have "set (''/'' @ join_with ''/'' out) \<subseteq> set p" using p by fastforce
    then show ?thesis
      using drop_dots_clean [of "[]" segs] split_q
      by (simp add: q dot_free_def out_def strip_prefix_Some)
  qed
qed

text \<open>Whatever a client spells, the path the routes and gates see has no dot segment and no backslash.\<close>

lemma edge_path_clean:
  assumes "strip_prefix ''/'' p = Some r"
  shows "dot_free (edge_path p) \<and> CHR 92 \<notin> set (edge_path p)"
proof (cases "CHR 92 \<in> set p")
  case True
  have s: "strip_prefix ''/'' (slashed p) = Some (slashed r)" using assms by (simp add: strip_prefix_Some slashed_def)
  have "CHR 92 \<notin> set (slashed p)" by (auto simp: slashed_def)
  with remove_dots_free [OF s] True show ?thesis
    by (auto simp: edge_path_def remove_dot_segments_def Let_def)
next
  case False
  then show ?thesis using remove_dots_free [OF assms]
    by (auto simp: edge_path_def remove_dot_segments_def)
qed

section \<open>What the gate reads from a path\<close>

lemma unescape_append:
  "unescape_uri a = Some x \<Longrightarrow> unescape_uri b = Some y \<Longrightarrow> unescape_uri (a @ b) = Some (x @ y)"
proof (induction a arbitrary: x rule: unescape_uri.induct)
  case (2 c s)
  show ?case
  proof (cases "c = CHR ''%''")
    case True
    then obtain u v r where s: "s = u # v # r" using 2(3) by (auto split: list.splits)
    then obtain z x' where "hex_pair u v = Some z" "unescape_uri r = Some x'" "x = z # x'"
      using 2(3) True by (auto split: option.splits)
    then show ?thesis using 2(1) [OF True s _] 2(4) True s by simp
  next
    case False
    then show ?thesis using 2(2) [OF False] 2(3,4) by auto
  qed
qed simp

lemma unescape_percent_free: "CHR ''%'' \<notin> set a \<Longrightarrow> unescape_uri a = Some a"
  by (induction a) auto

lemma decode_unescape: "decode_uri_component s = Some t \<longleftrightarrow> unescape_uri s = Some t \<and> utf8_ok t"
  by (auto simp: decode_uri_component_def split: option.splits)

text \<open>The hexadecimal digits are read by \<open>from_str_radix\<close>, which takes a sign: \<open>decodeURIComponent\<close> throws here.\<close>

lemma signed_escape: "decode_uri_component ''%+5'' = Some [CHR 5]"
  by code_simp

lemma kind_id_hit:
  assumes "CHR ''/'' \<notin> set kind" "kind \<noteq> []" "i \<noteq> []" "CHR ''/'' \<notin> set i" "CHR ''?'' \<notin> set i"
    "case kinds of None \<Rightarrow> True | Some ks \<Rightarrow> kind \<in> set ks"
  shows "kind_id (lead @ ''/'' @ kind @ ''/'' @ i) lead kinds = Some (kind, i)"
    "kind_id (lead @ ''/'' @ kind @ ''/'' @ i @ ''/'' @ f) lead kinds = Some (kind, i)"
proof -
  have once: "split_once (CHR ''/'') (kind @ CHR ''/'' # r) = Some (kind, r)" for r
    using assms(1) by (simp add: split_once_Some)
  have sp: "strip_prefix lead (lead @ r) = Some r" "strip_prefix ''/'' (CHR ''/'' # r) = Some r" for r
    by (simp_all add: strip_prefix_Some)
  have tw: "takeWhile (\<lambda>c. c \<noteq> CHR ''/'' \<and> c \<noteq> CHR ''?'') i = i"
    using assms(4,5) by (auto simp: takeWhile_eq_all_conv)
  have tw': "takeWhile (\<lambda>c. c \<noteq> CHR ''/'' \<and> c \<noteq> CHR ''?'') (i @ CHR ''/'' # f) = i"
    using assms(4,5) by (subst takeWhile_append2) auto
  show "kind_id (lead @ ''/'' @ kind @ ''/'' @ i) lead kinds = Some (kind, i)"
    "kind_id (lead @ ''/'' @ kind @ ''/'' @ i @ ''/'' @ f) lead kinds = Some (kind, i)"
    using assms(2,3,6) by (simp_all add: kind_id_def sp once Let_def tw tw')
qed

text \<open>A decimal text is the number it denotes, exactly when it is below \<open>2^53\<close>.\<close>

lemma js_trim_digits:
  assumes "list_all is_digit s"
  shows "js_trim s = s"
proof -
  have "utf8_chars s = map (\<lambda>c. [c]) s"
    using assms
  proof (induction s)
    case (Cons c s)
    have "\<not> cont_byte x" if "is_digit x" for x
      using digit_char_of [OF that] by (auto simp: cont_byte_def digit_char_def dest!: lt_ten_cases)
    then have "takeWhile cont_byte s = [] \<and> dropWhile cont_byte s = s"
      using Cons.prems by (cases s) simp_all
    then show ?case using Cons by simp
  qed simp
  moreover have "\<not> js_space [x]" if "is_digit x" for x
    using digit_char_of [OF that] by (auto simp: js_space_def digit_char_def dest!: lt_ten_cases)
  then have "dropWhile js_space (map (\<lambda>c. [c]) t) = map (\<lambda>c. [c]) t" if "list_all is_digit t" for t
    using that by (cases t) simp_all
  moreover from this [of "rev s"] have "dropWhile js_space (rev (map (\<lambda>c. [c]) s)) = rev (map (\<lambda>c. [c]) s)"
    using assms by (simp add: rev_map)
  ultimately show ?thesis using assms by (simp add: js_trim_def)
qed

lemma js_str_number_digits:
  assumes "list_all is_digit s" "s \<noteq> []" "dec_val s < 2 ^ 53"
  shows "js_str_number s = Fin (of_nat (dec_val s))"
proof -
  have hd: "hd s \<noteq> CHR ''+'' \<and> hd s \<noteq> CHR ''-''" using assms(1,2) by (cases s) (auto simp: is_digit_def)
  have all: "takeWhile is_digit s = s" "dropWhile is_digit s = []"
    using assms(1) by (simp_all add: list_all_iff takeWhile_eq_all_conv)
  have "list_all (\<lambda>b. is_digit b \<or> b \<in> set ''+-.eE'') s" using assms(1) by (simp add: list_all_iff)
  moreover have "f_of_int (int (dec_val s)) = Fin (of_int (int (dec_val s)))"
    by (rule f_of_int_exact) (use assms(3) in simp)
  then have "parse_decimal s = Some (Fin (of_nat (dec_val s)))"
    using hd all assms(2) by (cases s) (auto simp: parse_decimal_def parse_exponent_def Let_def f_of_int_def)
  ultimately show ?thesis using js_trim_digits [OF assms(1)] assms(2) by (simp add: js_str_number_def Let_def)
qed

section \<open>A capped profile\<close>

text \<open>The title's certification is known, from the list in force, and within the cap of severity \<open>n\<close>.\<close>

definition within_cap :: "media_db \<Rightarrow> certs \<Rightarrow> gw_title \<Rightarrow> f64 \<Rightarrow> nat \<Rightarrow> bool" where
  "within_cap db c title x n \<longleftrightarrow>
     (\<exists>ext t m cert s. media_identity db title x = Some (Some ext) \<and> cached_certs title c = Some (t, m)
        \<and> cert_of m ext = Some cert \<and> severity cert = Some s \<and> s \<le> n)"

lemma severity_Nil [simp]: "severity [] = None"
  by (simp add: severity_def js_trim_def)

lemma cached_store [simp]: "cached_certs k (store_certs k e c) = Some e"
  by (simp add: cached_certs_def store_certs_def)

lemma certification_in_force:
  assumes "certification db reply now k x c = (Some (Some cert), c')"
  shows "\<exists>ext t m. media_identity db k x = Some (Some ext) \<and> cached_certs k c' = Some (t, m) \<and> cert_of m ext = Some cert"
  using assms by (auto simp: certification_def split: option.splits prod.splits if_splits)

lemma rating_allowed_cap:
  assumes "rating_allowed c (Some cap)" "severity cap = Some n"
  shows "\<exists>cert s. c = Some cert \<and> severity cert = Some s \<and> s \<le> n"
  using assms by (cases c) (auto simp: rating_allowed_def split: option.splits)

abbreviation holds_policies :: "serde \<Rightarrow> policies_file json_store \<Rightarrow> (string \<Rightarrow> policy) \<Rightarrow> bool" where
  "holds_policies lib \<equiv> holds lib policies_doc good_policies (\<lambda>f s. policy_of s f)"

lemma policies_policy_holds:
  assumes "holds_policies lib st pol" "policies_policy lib io sub st = (Some p, st')"
  shows "p = pol sub"
proof -
  obtain v s where v: "js_loaded lib policies_doc io st = (v, s)" by fastforce
  then obtain f where "v = Some f" "p = policy_of sub f" using assms(2) by (auto simp: policies_policy_def)
  then show ?thesis using pl.holds_loaded(3) [OF assms(1) v] by auto
qed

lemma rating_not_blocked:
  assumes "rating_blocked lib w User sub title x st = (Some False, st')" "title \<in> {TMovie, TEpisode}"
    "holds_policies lib (pr_policies st) pol" "effective_cap (pol sub) = Some cap" "severity cap = Some n"
  shows "within_cap (pw_db w) (pr_certs st') title x n"
proof -
  obtain p s where p: "policies_policy lib (pw_io w) sub (pr_policies st) = (Some p, s)"
    using assms(1,2) by (auto simp: rating_blocked_def split: prod.splits option.splits)
  have [simp]: "p = pol sub" by (rule policies_policy_holds [OF assms(3) p])
  obtain c c' where c: "certification (pw_db w) (pw_reply w) (pw_now w) title x (pr_certs st) = (c, c')" by fastforce
  then obtain cert where cert: "c = Some cert" "rating_allowed cert (Some cap)" "pr_certs st' = c'"
    using assms(1,2,4) p by (auto simp: rating_blocked_def Let_def split: option.splits)
  then obtain r s where "cert = Some r" "severity r = Some s" "s \<le> n"
    using rating_allowed_cap assms(5) by blast
  with certification_in_force [of "pw_db w" "pw_reply w" "pw_now w" title x "pr_certs st" r c'] c cert
  show ?thesis unfolding within_cap_def by auto
qed

text \<open>What the services and the URL parser of the client are relied on for.\<close>

definition path_char :: "char \<Rightarrow> bool" where
  "path_char c \<longleftrightarrow> is_digit c \<or> (65 \<le> (of_char c :: nat) \<and> (of_char c :: nat) \<le> 90)
     \<or> (97 \<le> (of_char c :: nat) \<and> (of_char c :: nat) \<le> 122) \<or> c = CHR 39 \<or> c \<in> set ''-._~!$&()*+,;=:@/%''"

definition decoder_ok :: "(string \<Rightarrow> string option) \<Rightarrow> bool" where
  "decoder_ok dec \<longleftrightarrow> (\<forall>s t. dec s = Some t \<and> CHR ''%'' \<notin> set t \<longrightarrow> decode_uri_component s = Some t)"

definition url_parser_ok :: "(string \<Rightarrow> string) \<Rightarrow> bool" where
  "url_parser_ok url \<longleftrightarrow> (\<forall>p. dot_free p \<and> list_all path_char p \<longrightarrow> url p = p)"

lemma edge_path_chars:
  assumes "strip_prefix ''/'' p = Some r" "list_all (\<lambda>c. path_char c \<or> c = CHR 92) p"
  shows "list_all path_char (edge_path p)"
proof -
  have slash: "path_char (CHR ''/'')" by (simp add: path_char_def)
  show ?thesis
  proof (cases "CHR 92 \<in> set p")
    case True
    have s: "strip_prefix ''/'' (slashed p) = Some (slashed r)" using assms(1) by (simp add: strip_prefix_Some slashed_def)
    have "set (edge_path p) \<subseteq> set (slashed p)"
      using remove_dots_free [OF s] True by (auto simp: edge_path_def remove_dot_segments_def Let_def)
    moreover have "list_all path_char (slashed p)"
      using assms(2) slash by (auto simp: list_all_iff slashed_def)
    ultimately show ?thesis by (auto simp: list_all_iff)
  next
    case False
    have "set (edge_path p) \<subseteq> set p"
      using remove_dots_free [OF assms(1)] False by (auto simp: edge_path_def remove_dot_segments_def)
    then show ?thesis using assms(2) False by (auto simp: list_all_iff)
  qed
qed

lemma served_path:
  assumes "served_title dec p = Some (lead, kind, i)"
  obtains k j f where "p = ''/api/media/'' @ lead @ ''/'' @ k @ ''/'' @ j @ f" "dec k = Some kind" "dec j = Some i"
    "lead \<in> {''stream'', ''subtitles'', ''chapters''}" "f \<in> {[], ''/file'', ''/download'', ''/transcribe''}"
proof -
  have join: "p = join_with ''/'' (split_on (CHR ''/'') p)" using split_on_concat [of "CHR ''/''" p] by simp
  from assms consider
      (six) lead' k j where "split_on (CHR ''/'') p = [[], ''api'', ''media'', lead', k, j]" "lead' = lead"
        "lead \<in> {''stream'', ''subtitles'', ''chapters''}" "dec k = Some kind" "dec j = Some i"
    | (seven) k j f where "split_on (CHR ''/'') p = [[], ''api'', ''media'', lead, k, j, f]"
        "lead = ''subtitles''" "f \<in> {''file'', ''download'', ''transcribe''}" "dec k = Some kind" "dec j = Some i"
    by (auto simp: served_title_def Let_def split: list.splits if_splits bind_splits)
  then show ?thesis
  proof cases
    case six
    then show ?thesis using join that [of k j "[]"] by simp
  next
    case seven
    then show ?thesis using join that [of k j "CHR ''/'' # f"] by auto
  qed
qed

lemma gate_reads_title:
  assumes dec: "decoder_ok dec" and served: "served_title dec p = Some (lead, kind, i)"
    and kind: "kind \<in> {''movie'', ''episode''}" and digits: "list_all is_digit i" "i \<noteq> []"
    and d: "decode_uri_component p = Some d"
  shows "if lead = ''stream'' then kind_id (media_subpath d) ''/stream'' None = Some (kind, i)
         else kind_id (media_subpath d) ''/stream'' None = None \<and> gated_title (media_subpath d) = Some (kind, i)"
proof -
  obtain k j f where p: "p = ''/api/media/'' @ lead @ ''/'' @ k @ ''/'' @ j @ f" and k: "dec k = Some kind" and j: "dec j = Some i"
    and lead: "lead \<in> {''stream'', ''subtitles'', ''chapters''}" and f: "f \<in> {[], ''/file'', ''/download'', ''/transcribe''}"
    using served_path [OF served] .
  have i: "CHR ''%'' \<notin> set i" "CHR ''/'' \<notin> set i" "CHR ''?'' \<notin> set i"
  proof -
    have "\<not> is_digit (CHR ''%'')" "\<not> is_digit (CHR ''/'')" "\<not> is_digit (CHR ''?'')" by (simp_all add: is_digit_def)
    then show "CHR ''%'' \<notin> set i" "CHR ''/'' \<notin> set i" "CHR ''?'' \<notin> set i"
      using digits(1) unfolding list_all_iff by blast+
  qed
  have "unescape_uri k = Some kind" "unescape_uri j = Some i"
    using dec k j i(1) kind unfolding decoder_ok_def decode_unescape [symmetric] by (auto simp: decode_unescape)
  moreover have "unescape_uri lead = Some lead" "unescape_uri f = Some f"
    using lead f by (auto intro!: unescape_percent_free)
  moreover have "unescape_uri ''/api/media/'' = Some ''/api/media/''" "unescape_uri ''/'' = Some ''/''"
    by (rule unescape_percent_free, simp)+
  ultimately have "unescape_uri p = Some (''/api/media/'' @ lead @ ''/'' @ kind @ ''/'' @ i @ f)"
    unfolding p by (intro unescape_append) assumption+
  then have "d = ''/api/media'' @ (''/'' @ lead @ ''/'' @ kind @ ''/'' @ i @ f)" using d by (simp add: decode_unescape)
  then have sub: "media_subpath d = ''/'' @ lead @ ''/'' @ kind @ ''/'' @ i @ f"
    by (simp only: media_subpath_def strip_prefix_Some [THEN iffD2, OF refl] option.case) simp
  have kind': "CHR ''/'' \<notin> set kind" "kind \<noteq> []" "kind \<in> set [''movie'', ''episode'']" using kind by auto
  have hit: "kind_id ((''/'' @ lead) @ ''/'' @ kind @ ''/'' @ i @ f) (''/'' @ lead) ks = Some (kind, i)"
    if "case ks of None \<Rightarrow> True | Some l \<Rightarrow> kind \<in> set l" for ks
  proof (cases "f = []")
    case True
    then show ?thesis unfolding True append_Nil2 by (intro kind_id_hit(1) [OF kind'(1,2) digits(2) i(2,3) that])
  next
    case False
    then obtain g where g: "f = ''/'' @ g" using f by (cases f) auto
    show ?thesis unfolding g by (rule kind_id_hit(2) [OF kind'(1,2) digits(2) i(2,3) that])
  qed
  have miss: "kind_id (''/'' @ lead @ r) l ks = None" if "\<not> starts_with l (''/'' @ lead @ r)" for l ks r
    using that by (simp add: kind_id_def strip_prefix_def)
  from lead consider "lead = ''stream''" | "lead = ''subtitles''" | "lead = ''chapters''" by blast
  then show ?thesis
  proof cases
    case 1
    then show ?thesis using hit [of None] by (simp add: sub)
  next
    case 2
    have "kind_id (media_subpath d) ''/stream'' None = None"
      unfolding sub by (rule miss) (simp add: 2 starts_with_def)
    moreover have "kind_id (media_subpath d) ''/subtitles'' (Some [''movie'', ''episode'']) = Some (kind, i)"
      using hit [of "Some [''movie'', ''episode'']"] kind'(3) unfolding sub 2 by (simp only: append_assoc append_Cons append_Nil option.case)
    ultimately show ?thesis using 2 by (simp add: gated_title_def)
  next
    case 3
    have "kind_id (media_subpath d) ''/stream'' None = None"
      unfolding sub by (rule miss) (simp add: 3 starts_with_def)
    moreover have "kind_id (media_subpath d) ''/subtitles'' ks = None" for ks
      unfolding sub by (rule miss) (simp add: 3 starts_with_def)
    moreover have "kind \<in> set [''movie'', ''episode'', ''video'']" using kind by auto
    then have "kind_id (media_subpath d) ''/chapters'' (Some [''movie'', ''episode'', ''video'']) = Some (kind, i)"
      using hit [of "Some [''movie'', ''episode'', ''video'']"] unfolding sub 3 by (simp only: append_assoc append_Cons append_Nil option.case)
    ultimately show ?thesis using 3 by (simp add: gated_title_def)
  qed
qed

lemma gate_rating_passes:
  assumes "gate_rating lib w (User, sub) kind i st = (Inr (), st')" "title_parse kind = Some title"
    "title \<in> {TMovie, TEpisode}" "holds_policies lib (pr_policies st) pol" "effective_cap (pol sub) = Some cap"
    "severity cap = Some n"
  shows "within_cap (pw_db w) (pr_certs st') title (js_str_number i) n"
proof -
  obtain b s where b: "rating_blocked lib w User sub title (js_str_number i) st = (b, s)" by fastforce
  then have "b = Some False \<and> s = st'"
    using assms(1,2) by (auto simp: gate_rating_def split: option.splits bool.splits)
  then show ?thesis using rating_not_blocked [OF _ assms(3-6)] b by blast
qed


section \<open>A run of the gate\<close>

definition demo_raw :: string where "demo_raw = ''/api/media/x/%2E./stream/mo%76ie/7''"

definition kid_policy :: policy where "kid_policy = \<lparr>pl_rating = None, pl_sections = None, pl_kid = True\<rparr>"

definition demo_parental :: parental where
  "demo_parental =
     \<lparr>pr_policies = snd (policies_set demo_serde all_io ''u'' kid_policy (new_store NoFile)),
      pr_certs = \<lparr>ce_radarr = None, ce_sonarr = None\<rparr>\<rparr>"

definition demo_parental_world :: parental_world where
  "demo_parental_world =
     \<lparr>pw_io = all_io, pw_db = \<lparr>md_open = True, md_query = (\<lambda>k x. Some (Some 603))\<rparr>,
      pw_reply = ArrReply 200 (Some (JArr [JObj [(''tmdbId'', JInt 603), (''certification'', JStr ''PG'')]])),
      pw_now = 0\<rparr>"

definition demo_request :: media_request where
  "demo_request = \<lparr>mq_path = edge_path demo_raw, mq_token = None, mq_session = Inr (User, ''u'')\<rparr>"

definition demo_media_env :: media_env where
  "demo_media_env = \<lparr>me_lib = demo_lib, me_secret = ''s'', me_clock = 0,
     me_db = \<lparr>ad_members = [], ad_invites = []\<rparr>, me_admins = []\<rparr>"

lemma demo_path:
  "edge_path demo_raw = ''/api/media/stream/mo%76ie/7''"
  "decode_uri_component ''/api/media/stream/mo%76ie/7'' = Some ''/api/media/stream/movie/7''"
  "kind_id (media_subpath ''/api/media/stream/movie/7'') ''/stream'' None = Some (''movie'', ''7'')"
  "served_title decode_uri_component ''/api/media/stream/mo%76ie/7'' = Some (''stream'', ''movie'', ''7'')"
  "list_all (\<lambda>c. path_char c \<or> c = CHR 92) demo_raw"
  by code_simp+

lemma demo_holds:
  "holds_policies demo_serde (pr_policies demo_parental) ((\<lambda>_. open_policy)(''u'' := kid_policy))"
proof -
  obtain b st where u: "policies_set demo_serde all_io ''u'' kid_policy (new_store NoFile) = (b, st)" by fastforce
  then have b: "b" by (auto simp: policies_set_def js_update_def js_loaded_def js_read_def new_store_def all_io_def
      js_persist_def split: if_splits)
  have "holds_policies demo_serde st (if b then (\<lambda>_. open_policy)(''u'' := kid_policy) else (\<lambda>_. open_policy))"
  proof (rule pl.holds_update [OF demo_serde_ok _ u [unfolded policies_set_def], of "\<lambda>_. open_policy" "\<lambda>x. x(''u'' := kid_policy)"])
    show "holds_policies demo_serde (new_store NoFile) (\<lambda>_. open_policy)"
      using pl.holds_new [of demo_serde] by (simp add: policies_doc_def parse_policies_def by_sub_def policy_of_def)
  next
    fix v
    assume "good_policies v"
    then show "case Some (im_insert ''u'' kid_policy v) of
          None \<Rightarrow> (\<lambda>s. policy_of s v)(''u'' := kid_policy) = (\<lambda>s. policy_of s v)
        | Some w \<Rightarrow> good_policies w \<and> (\<lambda>s. policy_of s w) = (\<lambda>s. policy_of s v)(''u'' := kid_policy)"
      by (auto simp: good_policies_def set_im_insert policy_of_def update_conv' kid_policy_def)
  qed
  then show ?thesis using u b by (simp add: demo_parental_def)
qed

lemma demo_cert: "fst (certification (pw_db demo_parental_world) (pw_reply demo_parental_world) 0 TMovie (Fin 7)
    (pr_certs demo_parental)) = Some (Some ''PG'')"
proof -
  have "f_of_int 603 = Fin 603" using f_of_int_exact [of 603] by simp
  then show ?thesis
    by (simp add: certification_def media_identity_def demo_parental_world_def demo_parental_def cached_certs_def
        fetch_certs_def cert_row_def json_get_def trunc_int_def f_to_i64_def sat_int_def List.map_filter_simps cert_of_def)
qed

lemma demo_gate: "\<exists>st'. media_gate demo_serde demo_parental_world demo_media_env demo_request demo_parental = (Inr (User, ''u''), st')"
proof -
  obtain p s where p: "policies_policy demo_serde all_io ''u'' (pr_policies demo_parental) = (Some p, s)"
    using pl.holds_readable [OF demo_holds, of all_io] by (auto simp: policies_policy_def all_io_def)
  have [simp]: "p = kid_policy" using policies_policy_holds [OF demo_holds p] by simp
  obtain c' where c: "certification (pw_db demo_parental_world) (pw_reply demo_parental_world) 0 TMovie (Fin 7)
      (pr_certs demo_parental) = (Some (Some ''PG''), c')"
    using demo_cert by (metis prod.collapse)
  have pg: "rating_allowed (Some ''PG'') (Some ''PG'')" by code_simp
  have seven: "js_str_number ''7'' = Fin 7"
    using js_str_number_digits [of "''7''"] by (simp add: is_digit_def dec_val_def digit_val_def)
  have w: "pw_io demo_parental_world = all_io" "pw_now demo_parental_world = 0" by (simp_all add: demo_parental_world_def)
  have "\<exists>st'. rating_blocked demo_serde demo_parental_world User ''u'' TMovie (Fin 7) demo_parental = (Some False, st')"
    using p c pg by (simp add: rating_blocked_def w effective_cap_def kid_policy_def)
  then obtain st' where "rating_blocked demo_serde demo_parental_world User ''u'' TMovie (Fin 7) demo_parental = (Some False, st')"
    by blast
  then have "gate_rating demo_serde demo_parental_world (User, ''u'') ''movie'' ''7'' demo_parental = (Inr (), st')"
    by (simp add: gate_rating_def title_parse_def seven)
  then show ?thesis using demo_path by (simp add: media_gate_def demo_request_def Let_def split: unit.split)
qed


end
