(* ===== verification/Spec2Isabelle.thy ===== *)
theory Spec2Isabelle
  imports Sub Canonical Json Stream_Token Http Rate_Limit Slots Tracker Token_Bucket Float64 Syncplay Jwe Session Csrf Remux_Map Dvr Plan Args Vod_Manifest Renditions Tx_Manager Principal Tx_Routes Reconcile Hls Stream_Safety Remux Parental_Safety
begin

text \<open>
  A verification library for The Emerald Exchange, a household media server: a React front end (not
  modelled) over Rust services under \<open>src/crates\<close>.  The \<open>gateway\<close> with the \<open>auth\<close> crate signs
  members in, decides what they may reach and proxies the rest; \<open>media-core\<close> serves the library and
  decides direct play; the \<open>transcoder\<close> runs ffmpeg sessions and serves their HLS playlists;
  \<open>iptv\<close> owns the only connection to the live-television provider (grants, byte proxies, a remux to
  HLS, recordings); \<open>emerald-contracts\<close> holds the tokens they exchange; \<open>recommender\<close> ranks titles.
  A request crosses them in this order: a cookie or a device token becomes a principal
  (\<open>Session\<close>, \<open>Jwe\<close>, \<open>Reconcile\<close>), the origin gate and the rate limiters let it in (\<open>Csrf\<close>,
  \<open>Rate_Limit\<close>), the gateway's policies are consulted (\<open>Parental\<close>), an internal principal carries the
  caller to a service (\<open>Principal\<close>), the service grants a signed URL (\<open>Stream_Token\<close>) and holds a
  slot or a permit for what it starts (\<open>Tracker\<close>, \<open>Slots\<close>, \<open>Tx_Manager\<close>, \<open>Remux\<close>).

  \<^bold>\<open>Conventions.\<close>  A Rust struct is a record, an enum a datatype, \<open>Result\<close> a sum with the error on
  the left.  Strings are lists of bytes (a Rust \<open>String\<close> is UTF-8; \<open>Utf8\<close> has the decoding where the
  code decodes).  Integers are \<open>nat\<close> or \<open>int\<close> with the wrap-around, saturation or cast written out
  where it can occur, words where bits matter (\<open>Ssrf\<close>), and \<open>f64\<close> is a datatype of rationals with
  IEEE rounding (\<open>Float64\<close>).  An \<open>IndexMap\<close>, and a \<open>HashMap\<close> whose order can show, is an association
  list with distinct keys (\<open>imap\<close> of \<open>Prelude\<close>); SQLite tables are maps and a statement or an
  immediate transaction is one step.  Clocks, random identifiers and the answers of the world are
  arguments of each operation; code outside the repository (MAC, AEAD, base64, serde, url, chrono,
  DNS) is a parameter with its documented laws as named hypotheses, each witnessed by an instance.
  State shared between tasks is a step relation or a run over operations, one step per critical
  section, and the invariants are proved over all interleavings; the locale \<open>machine\<close> of \<open>Prelude\<close> is
  the interface such components offer, and each interprets it.

  \<^bold>\<open>Shared theories.\<close>  \<open>Prelude\<close> (results, strings, decimal numbers, \<open>i64\<close>, maps, runs), \<open>Text\<close> and
  \<open>Utf8\<close> (the \<open>str\<close> operations), \<open>Json\<close>, \<open>Float64\<close>, \<open>Http\<close> (headers).

  \<^bold>\<open>Tokens and identity.\<close>
  \<open>Sub\<close>: \<open>emerald-contracts/src/sub.rs\<close>, the subject grammar, its five expressions read as languages.
  \<open>Canonical\<close>, \<open>Stream_Token\<close>: the canonical payload and the HMAC-signed stream tokens; escaping is
  injective, so a signature fits one claim set only.
  \<open>Jwe\<close>: the compact JWE, device tokens and internal principals; what verifies was sealed under the
  named key.
  \<open>Session\<close>, \<open>Csrf\<close>, \<open>Rate_Limit\<close>: session cookies, the origin gate over cookie-bearing requests and the
  sign-in limiter (nanosecond instants, sweeping, the trusted-proxy address rule).
  \<open>Members\<close>, \<open>Devices\<close>, \<open>Reconcile\<close>: the two tables of members and invites, device tokens with the
  pairing flow, and the reconciliation of every request with the current membership.
  \<open>Principal\<close>: the layers of media-core, transcoder and iptv that admit an internal principal, by
  rollout posture.

  \<^bold>\<open>Household.\<close>  \<open>Stores\<close>: the JSON stores of \<open>gateway/src/stores.rs\<close> with their cache and disk, the
  cleaning of titles, and the feedback, rejection, watchlist and policy documents.  \<open>Store_Laws\<close>: the
  locale \<open>durable\<close>, a document that survives being printed, read back and cleaned, interpreted for
  all four, so that an answered change outlives restarts and a failed write changes nothing.  \<open>Taste\<close>: the
  feedback routes of \<open>gateway/src/routes.rs\<close> as programs over the two stores, one store call a step,
  under the per-title lock.  \<open>Parental\<close>: the policy routes and \<open>gateway/src/parental.rs\<close> with the gates
  of the two media proxies.  \<open>Parental_Safety\<close>: no spelling of a path gets past them, over the path
  normalisation of \<open>gateway/src/app.rs\<close> and the routes of media-core.  \<open>Syncplay\<close>: watch-together groups.

  \<^bold>\<open>Media and transcoding.\<close>
  \<open>Token_Bucket\<close>, \<open>Capability\<close>: media-core's limiter and the direct-play decision.
  \<open>Plan\<close>, \<open>Args\<close>: the planner and the ffmpeg command line.
  \<open>Vod_Manifest\<close>, \<open>Renditions\<close>: the synthesised playlists, the keyframe grid of a stream copy, the
  audio group, subtitle and trickplay playlists.
  \<open>Slots\<close>: the lock-free admission counters, any number of threads.
  \<open>Tx_Paths\<close>, \<open>Tx_Session\<close>, \<open>Tx_Supervisor\<close>, \<open>Tx_Permits\<close>, \<open>Tx_Manager\<close>, \<open>Tx_Routes\<close>: names and
  confinement of source paths, the session table, its supervisors as one machine, who holds the
  permits and directories, the guarantees over all runs, and the HTTP surface.

  \<^bold>\<open>Live television.\<close>
  \<open>Tracker\<close>: the connection cap.  \<open>Ssrf\<close>: which addresses are dialled.  \<open>Playlist\<close>, \<open>Hls\<close>: playlist
  tokens, the M3U and the on-demand proxy.  \<open>Remux_Map\<close>, \<open>Remux\<close>: the redirect index with the client's
  media sequence, and the ffmpeg registry with its supervisors.  \<open>Streams\<close>, \<open>Stream_Bytes\<close>,
  \<open>Stream_Safety\<close>: grants and leases, the byte routes with the hooks of their bodies, and what they keep
  over any interleaving.  \<open>Dvr\<close>: recordings and their scheduler.

  \<^bold>\<open>What the lemmas show.\<close>  Each theory states, for its component, what every branch of an operation
  answers, the invariant every operation keeps, and then the property over all runs.  The properties
  are about admission (caps, permits and slots are exact however tasks interleave; sockets and
  directories have one owner), authority (nothing but a genuine token or principal is admitted, a
  revocation or a cascade is final, an administrator always remains, a capped profile sees no title
  above its cap), confinement (source paths, dialled addresses, playlist URLs, ffmpeg operands),
  media correctness (grids, manifests, plans and command lines fit each other), and recovery (crash
  loops end, dead feeds and failed requests free what they took, failed writes leave no ghost).

  \<^bold>\<open>Bounds and fuel.\<close>  Recursions over data need none.  The redirect loop of the guarded fetch and the
  reconnect and respawn loops have the code's own counters as their bound; the name search of the
  audio group is total for fewer than \<open>2 ^ 32 - 2\<close> tracks, which is proved; everything that may wait
  for ever (a supervisor, a body, a scheduler) is a step relation, so no fuel hides a loop.

  \<^bold>\<open>Not modelled.\<close>  The proxies that forward bytes and JSON to Radarr, Sonarr, SABnzbd, Plex, TMDB and
  YouTube, and the OAuth exchanges with plex.tv and WorkOS: their behaviour is decided by replies
  outside the repository.  The catalogue, guide and library services, which are SQL statements,
  XML and tag libraries and rendered rows; the routes modelled here take their rows as arguments.
  The recommender, whose scores are floating-point functions with transcendental operations and
  learned weights.  Process start, logging, telemetry, the front end, the Swift client and the
  deployment files.  Within modelled parts: the operating system's processes and files answer through
  arguments, log lines are dropped, and futures dropped in mid-operation appear only where the code
  registers a hook for them.
\<close>

end
